(* ===== verification/Prelude.thy ===== *)
theory Prelude
  imports Complex_Main
begin

text \<open>
  What every component of the development shares: results of code that may throw, the
  numbers of JavaScript as far as the code looks at them, lists, rounding division, and
  runs of a state machine. The TypeScript sources throw exceptions; a function that may
  throw is modelled as a function into \<open>'e + 'a\<close>, \<open>Inl\<close> for the exception.
\<close>

section \<open>Results\<close>

type_synonym ('e, 'a) result = "'e + 'a"

named_theorems result_simps "when a composed result is a value, and when it is an error"

definition bindE :: "('e, 'a) result \<Rightarrow> ('a \<Rightarrow> ('e, 'b) result) \<Rightarrow> ('e, 'b) result" where
  "bindE m f = (case m of Inl e \<Rightarrow> Inl e | Inr v \<Rightarrow> f v)"

text \<open>\<open>if (!c) throw e;\<close>\<close>

definition requireE :: "bool \<Rightarrow> 'e \<Rightarrow> ('e, unit) result" where
  "requireE c e = (if c then Inr () else Inl e)"

text \<open>\<open>Array.prototype.map\<close> with a callback that may throw: the first throw wins.\<close>

fun mapE :: "('a \<Rightarrow> ('e, 'b) result) \<Rightarrow> 'a list \<Rightarrow> ('e, 'b list) result" where
  "mapE f [] = Inr []"
| "mapE f (x # xs) = bindE (f x) (\<lambda>y. bindE (mapE f xs) (\<lambda>ys. Inr (y # ys)))"

text \<open>An exception of a callee seen as an exception of the caller.\<close>

definition liftE :: "('e \<Rightarrow> 'f) \<Rightarrow> ('e, 'a) result \<Rightarrow> ('f, 'a) result" where
  "liftE g m = (case m of Inl e \<Rightarrow> Inl (g e) | Inr v \<Rightarrow> Inr v)"

lemma liftE_eq_Inr [result_simps]: "liftE g m = Inr v \<longleftrightarrow> m = Inr v"
  by (cases m) (auto simp: liftE_def)

lemma liftE_simps [simp]: "liftE g (Inl e) = Inl (g e)" "liftE g (Inr v) = Inr v"
  by (simp_all add: liftE_def)

lemma bindE_Inl [simp]: "bindE (Inl e) f = Inl e"
  by (simp add: bindE_def)

lemma bindE_Inr [simp]: "bindE (Inr v) f = f v"
  by (simp add: bindE_def)

lemma bindE_eq_Inr [result_simps]: "bindE m f = Inr v \<longleftrightarrow> (\<exists>a. m = Inr a \<and> f a = Inr v)"
  by (cases m) auto

lemma bindE_eq_Inl [result_simps]:
  "bindE m f = Inl e \<longleftrightarrow> m = Inl e \<or> (\<exists>a. m = Inr a \<and> f a = Inl e)"
  by (cases m) auto

lemma bindE_cong [fundef_cong]:
  "m = m' \<Longrightarrow> (\<And>a. m' = Inr a \<Longrightarrow> f a = g a) \<Longrightarrow> bindE m f = bindE m' g"
  by (cases m') auto

lemma requireE_True [simp]: "requireE True e = Inr ()"
  by (simp add: requireE_def)

lemma requireE_False [simp]: "requireE False e = Inl e"
  by (simp add: requireE_def)

lemma requireE_eq_Inr [result_simps]: "requireE c e = Inr u \<longleftrightarrow> c"
  by (simp add: requireE_def)

lemma requireE_eq_Inl [result_simps]: "requireE c e = Inl e' \<longleftrightarrow> \<not> c \<and> e = e'"
  by (auto simp: requireE_def)

lemma ex_unit_iff [result_simps]: "(\<exists>u :: unit. P u) \<longleftrightarrow> P ()"
  by (metis (full_types) old.unit.exhaust)

lemma if_unit_eq_Inr:
  "(if c then m else Inr ()) = (Inr () :: ('e, unit) result) \<longleftrightarrow> (c \<longrightarrow> m = Inr ())"
  by simp

lemma mapE_length: "mapE f xs = Inr ys \<Longrightarrow> length ys = length xs"
  by (induction xs arbitrary: ys) (auto simp: result_simps)

lemma mapE_Inr_iff: "mapE f xs = Inr ys \<longleftrightarrow> map f xs = map Inr ys"
  by (induction xs arbitrary: ys) (auto simp: result_simps Cons_eq_map_conv)

section \<open>Numbers\<close>

text \<open>
  A JavaScript number, as far as the code tells numbers apart: an integer, a rational that
  is not an integer, NaN, or an infinity. The code tests \<open>Number.isInteger\<close> or
  \<open>Number.isSafeInteger\<close> before it computes with a number, and computes with integers
  below \<open>2\<^sup>5\<^sup>3\<close>, where IEEE doubles are exact.
\<close>

datatype js_number = JsInt int | JsFrac rat | JsNaN | JsInfinity bool

definition max_safe_integer :: int where
  "max_safe_integer = 9007199254740991"

fun is_integer :: "js_number \<Rightarrow> bool" where
  "is_integer (JsInt _) = True"
| "is_integer _ = False"

fun is_safe_integer :: "js_number \<Rightarrow> bool" where
  "is_safe_integer (JsInt i) = (\<bar>i\<bar> \<le> max_safe_integer)"
| "is_safe_integer _ = False"

text \<open>The integer a number is, for numbers the code has tested.\<close>

fun int_of_js :: "js_number \<Rightarrow> int" where
  "int_of_js (JsInt i) = i"
| "int_of_js _ = 0"

text \<open>\<open>x < y\<close> with an integer literal on the right: false on NaN.\<close>

fun js_less :: "js_number \<Rightarrow> int \<Rightarrow> bool" where
  "js_less (JsInt i) k = (i < k)"
| "js_less (JsFrac q) k = (q < of_int k)"
| "js_less JsNaN k = False"
| "js_less (JsInfinity positive) k = (\<not> positive)"

fun js_greater :: "js_number \<Rightarrow> int \<Rightarrow> bool" where
  "js_greater (JsInt i) k = (k < i)"
| "js_greater (JsFrac q) k = (of_int k < q)"
| "js_greater JsNaN k = False"
| "js_greater (JsInfinity positive) k = positive"

lemma is_safe_integerE: "is_safe_integer x \<Longrightarrow> \<exists>i. x = JsInt i \<and> \<bar>i\<bar> \<le> max_safe_integer"
  by (cases x) auto

lemma is_integer_iff: "is_integer x \<longleftrightarrow> (\<exists>i. x = JsInt i)"
  by (cases x) auto

lemma is_safe_integer_iff: "is_safe_integer x \<longleftrightarrow> (\<exists>i. x = JsInt i \<and> \<bar>i\<bar> \<le> max_safe_integer)"
  by (cases x) auto

section \<open>Division that rounds up\<close>

text \<open>
  Two modules of the code round obligations up with code of their own. What they promise
  is stated once: the result is the least integer whose product with the divisor covers
  the numerator.
\<close>

locale rounds_up =
  fixes cdiv :: "nat \<Rightarrow> nat \<Rightarrow> nat"
  assumes covers: "0 < d \<Longrightarrow> n \<le> cdiv n d * d"
    and tight: "0 < d \<Longrightarrow> cdiv n d * d < n + d"
begin

lemma exact_le:
  assumes "0 < d"
  shows "(of_nat n :: rat) / of_nat d \<le> of_nat (cdiv n d)"
proof -
  have "(of_nat n :: rat) \<le> of_nat (cdiv n d * d)"
    using covers [OF assms] by (simp only: of_nat_le_iff)
  then show ?thesis using assms by (simp add: divide_le_eq)
qed

lemma exact_gt:
  assumes "0 < d"
  shows "(of_nat (cdiv n d) :: rat) < of_nat n / of_nat d + 1"
proof -
  have "(of_nat (cdiv n d * d) :: rat) < of_nat (n + d)"
    using tight [OF assms] by (simp only: of_nat_less_iff)
  then show ?thesis using assms by (simp add: field_simps)
qed

lemma zero_num: "0 < d \<Longrightarrow> cdiv 0 d = 0"
  using tight [of d 0] by (cases "cdiv 0 d") auto

lemma pos_num: "0 < d \<Longrightarrow> 0 < n \<Longrightarrow> 0 < cdiv n d"
  using covers [of d n] by (cases "cdiv n d") auto

lemma mono_num:
  assumes "0 < d" "m \<le> n"
  shows "cdiv m d \<le> cdiv n d"
proof (rule ccontr)
  assume "\<not> cdiv m d \<le> cdiv n d"
  then have "(cdiv n d + 1) * d \<le> cdiv m d * d" by (intro mult_le_mono1) simp
  also have "\<dots> < m + d" by (rule tight [OF assms(1)])
  finally have "cdiv n d * d < m" by simp
  with covers [OF assms(1), of n] assms(2) show False by simp
qed

lemma div_eq: "0 < d \<Longrightarrow> cdiv n d = (n + d - 1) div d"
proof -
  assume d: "0 < d"
  have "cdiv n d * d \<le> n + d - 1" using tight [OF d, of n] by simp
  moreover have "n + d - 1 < Suc (cdiv n d) * d" using covers [OF d, of n] d by simp
  ultimately show ?thesis
    by (intro div_nat_eqI [symmetric]) (simp_all add: mult.commute)
qed

end

text \<open>The usual implementation, \<open>(n + d - 1) / d\<close>, keeps the promise.\<close>

definition ceil_quotient :: "nat \<Rightarrow> nat \<Rightarrow> nat" where
  "ceil_quotient n d = (n + d - 1) div d"

lemma ceil_quotient_rounds_up: "rounds_up ceil_quotient"
proof
  fix d n :: nat
  assume d: "0 < d"
  have "n + d - 1 < Suc (ceil_quotient n d) * d"
    unfolding ceil_quotient_def using d by (metis dividend_less_div_times mult_Suc add.commute)
  then show "n \<le> ceil_quotient n d * d" by simp
  have "ceil_quotient n d * d \<le> n + d - 1" by (simp add: ceil_quotient_def)
  with d show "ceil_quotient n d * d < n + d" by linarith
qed

section \<open>Runs of a machine with an invariant\<close>

text \<open>
  A component with state is a function from a state and an operation to the next state.
  Once every operation keeps the invariant, every run of operations does.
\<close>

locale invariant_machine =
  fixes step :: "'s \<Rightarrow> 'o \<Rightarrow> 's"
    and inv :: "'s \<Rightarrow> bool"
  assumes step_inv: "inv s \<Longrightarrow> inv (step s a)"
begin

lemma run_inv: "inv s \<Longrightarrow> inv (foldl step s as)"
  by (induction as arbitrary: s) (auto intro: step_inv)

lemma run_prefix_inv: "inv s \<Longrightarrow> inv (foldl step s (take n as))"
  by (rule run_inv)

end

section \<open>Lists\<close>

lemma sum_list_le_member: "x \<in> set xs \<Longrightarrow> (x::nat) \<le> sum_list xs"
  by (induction xs) auto

lemma find_Some_iff: "find P xs = Some x \<Longrightarrow> x \<in> set xs \<and> P x"
  by (induction xs) (auto split: if_splits)

lemma find_None_iff_list_all: "find P xs = None \<longleftrightarrow> (\<forall>x\<in>set xs. \<not> P x)"
  by (induction xs) auto

text \<open>Counting the elements of a list after one of them was replaced.\<close>

lemma length_filter_update:
  "i < length xs \<Longrightarrow> length (filter P (xs[i := y])) + (if P (xs ! i) then 1 else 0)
     = length (filter P xs) + (if P y then 1 else 0)"
proof (induction xs arbitrary: i)
  case (Cons x xs)
  show ?case using Cons.prems Cons.IH by (cases i) (auto split: if_splits)
qed simp

lemma length_filter_weaken:
  "(\<And>x. x \<in> set xs \<Longrightarrow> P x \<Longrightarrow> Q x) \<Longrightarrow> length (filter P xs) \<le> length (filter Q xs)"
  by (induction xs) (auto simp: le_SucI)

lemma filter_upt_update:
  "filter (\<lambda>k. P ((xs[i := y]) ! k)) [0..<length xs]
     = filter (\<lambda>k. if k = i then P y else P (xs ! k)) [0..<length xs]"
  by (rule filter_cong) (auto simp: nth_list_update)

lemma takeWhile_eq_replicate: "\<exists>k. takeWhile (\<lambda>c. c = x) s = replicate k x"
proof (induction s)
  case Nil
  then show ?case by simp
next
  case (Cons a s)
  then obtain k where "takeWhile (\<lambda>c. c = x) s = replicate k x" by blast
  then have "takeWhile (\<lambda>c. c = x) (a # s) = replicate (if a = x then Suc k else 0) x" by simp
  then show ?case by blast
qed

end
