(* ===== verification/JsText.thy ===== *)
theory JsText
  imports Prelude "HOL-Library.Char_ord"
begin

text \<open>
  Strings and the decimal texts the code parses and prints. A string of the money code is
  a list of \<open>char\<close>: one character per UTF-16 code unit, the code units below 256, which
  is every text its regular expressions can accept. \<open>BigInt\<close> texts, \<open>padStart\<close>,
  \<open>padEnd\<close>, \<open>trim\<close> and the regular expressions of the sources are functions here.
\<close>

section \<open>Characters\<close>

definition code_unit :: "char \<Rightarrow> nat" where
  "code_unit c = of_char c"

text \<open>White space of \<open>String.prototype.trim\<close> below code unit 256.\<close>

definition is_space :: "char \<Rightarrow> bool" where
  "is_space c = (code_unit c \<in> {9, 10, 11, 12, 13, 32, 160})"

definition trim :: "string \<Rightarrow> string" where
  "trim s = rev (dropWhile is_space (rev (dropWhile is_space s)))"

definition is_digit :: "char \<Rightarrow> bool" where
  "is_digit c = (48 \<le> code_unit c \<and> code_unit c \<le> 57)"

definition is_nonzero_digit :: "char \<Rightarrow> bool" where
  "is_nonzero_digit c = (49 \<le> code_unit c \<and> code_unit c \<le> 57)"

definition digit_val :: "char \<Rightarrow> nat" where
  "digit_val c = code_unit c - 48"

definition digit_char :: "nat \<Rightarrow> char" where
  "digit_char d = char_of (48 + d)"

lemma digit_char_props [simp]:
  assumes "d < 10"
  shows "is_digit (digit_char d)" "digit_val (digit_char d) = d" "\<not> is_space (digit_char d)"
  using assms
  by (simp_all add: is_digit_def digit_val_def digit_char_def code_unit_def is_space_def)

lemma digit_val_less: "is_digit c \<Longrightarrow> digit_val c < 10"
  by (auto simp: is_digit_def digit_val_def)

lemma code_unit_inject: "code_unit a = code_unit b \<longleftrightarrow> a = b"
  by (simp add: code_unit_def)

lemma digit_char_val: "is_digit c \<Longrightarrow> digit_char (digit_val c) = c"
  by (auto simp: is_digit_def digit_val_def digit_char_def code_unit_def)

lemma digit_not_space: "is_digit c \<Longrightarrow> \<not> is_space c"
  by (auto simp: is_digit_def is_space_def)

lemma digit_not_dot: "is_digit c \<Longrightarrow> c \<noteq> CHR ''.''"
  by (auto simp: is_digit_def code_unit_def)

lemma nonzero_digit_iff: "is_nonzero_digit c \<longleftrightarrow> is_digit c \<and> c \<noteq> CHR ''0''"
proof -
  have "code_unit c = 48 \<longleftrightarrow> c = CHR ''0''"
    using code_unit_inject [of c "CHR ''0''"] by (simp add: code_unit_def)
  then show ?thesis by (auto simp: is_nonzero_digit_def is_digit_def)
qed

text \<open>\<open>Array.prototype.join\<close>.\<close>

fun join_with :: "string \<Rightarrow> string list \<Rightarrow> string" where
  "join_with sep [] = ''''"
| "join_with sep [x] = x"
| "join_with sep (x # xs) = x @ sep @ join_with sep xs"

section \<open>Trim\<close>

lemma trim_id:
  assumes "s = [] \<or> \<not> is_space (hd s) \<and> \<not> is_space (last s)"
  shows "trim s = s"
proof (cases s)
  case Nil
  then show ?thesis by (simp add: trim_def)
next
  case (Cons c cs)
  with assms have h: "dropWhile is_space s = s" by auto
  have "rev s = last s # rev (butlast s)"
    using Cons by (metis append_butlast_last_id list.distinct(1) rev.simps(2) rev_rev_ident rev_swap)
  with assms Cons have "dropWhile is_space (rev s) = rev s" by auto
  with h show ?thesis by (simp add: trim_def)
qed

lemma trim_no_space: "list_all (\<lambda>c. \<not> is_space c) s \<Longrightarrow> trim s = s"
  by (rule trim_id) (cases s, auto simp: list_all_iff)

section \<open>Decimal digits\<close>

definition all_digits :: "string \<Rightarrow> bool" where
  "all_digits s = list_all is_digit s"

text \<open>The value of a digit string: \<open>BigInt(s)\<close> for a string of digits.\<close>

definition digits_val :: "string \<Rightarrow> nat" where
  "digits_val s = foldl (\<lambda>a c. a * 10 + digit_val c) 0 s"

text \<open>\<open>n.toString()\<close> for a non-negative \<open>bigint\<close> or integer.\<close>

fun show_nat :: "nat \<Rightarrow> string" where
  "show_nat n = (if n < 10 then [digit_char n] else show_nat (n div 10) @ [digit_char (n mod 10)])"

declare show_nat.simps [simp del]

definition show_int :: "int \<Rightarrow> string" where
  "show_int i = (if i < 0 then CHR ''-'' # show_nat (nat (- i)) else show_nat (nat i))"

lemma all_digits_simps [simp]:
  "all_digits []" "all_digits (c # s) = (is_digit c \<and> all_digits s)"
  "all_digits (s @ t) = (all_digits s \<and> all_digits t)"
  by (auto simp: all_digits_def)

lemma all_digits_rev [simp]: "all_digits (rev s) = all_digits s"
  by (simp add: all_digits_def list_all_iff)

lemma foldl_digits: "foldl (\<lambda>a c. a * 10 + digit_val c) a s = a * 10 ^ length s + digits_val s"
proof (induction s arbitrary: a rule: rev_induct)
  case Nil
  then show ?case by (simp add: digits_val_def)
next
  case (snoc c s)
  have "foldl (\<lambda>a c. a * 10 + digit_val c) a s = a * 10 ^ length s + digits_val s" by (rule snoc)
  then show ?case by (simp add: digits_val_def algebra_simps)
qed

lemma digits_val_Nil [simp]: "digits_val [] = 0"
  by (simp add: digits_val_def)

lemma digits_val_append: "digits_val (s @ t) = digits_val s * 10 ^ length t + digits_val t"
  using foldl_digits [of "digits_val s" t] by (simp add: digits_val_def)

lemma digits_val_Cons: "digits_val (c # s) = digit_val c * 10 ^ length s + digits_val s"
  using digits_val_append [of "[c]" s] by (simp add: digits_val_def)

lemma digits_val_single [simp]: "digits_val [c] = digit_val c"
  by (simp add: digits_val_def)

lemma digit_val_zero [simp]: "digit_val (CHR ''0'') = 0"
  by (simp add: digit_val_def code_unit_def)

lemma is_digit_zero [simp]: "is_digit (CHR ''0'')"
  by (simp add: is_digit_def code_unit_def)

lemma digits_val_zeros [simp]: "digits_val (replicate k (CHR ''0'')) = 0"
  by (induction k) (simp_all add: digits_val_Cons)

lemma all_digits_zeros [simp]: "all_digits (replicate k (CHR ''0''))"
  by (induction k) simp_all

lemma digits_val_bound: "all_digits s \<Longrightarrow> digits_val s < 10 ^ length s"
proof (induction s)
  case Nil
  then show ?case by simp
next
  case (Cons c s)
  then have "digit_val c \<le> 9" and "digits_val s < 10 ^ length s"
    using digit_val_less [of c] by auto
  then have "digit_val c * 10 ^ length s + digits_val s < 9 * 10 ^ length s + 10 ^ length s"
    by (intro add_le_less_mono) auto
  then show ?case by (simp add: digits_val_Cons)
qed

lemma all_digits_show_nat [simp]: "all_digits (show_nat n)"
proof (induction n rule: show_nat.induct)
  case (1 n)
  then show ?case by (cases "n < 10") (simp_all add: show_nat.simps [of n])
qed

lemma digits_val_show_nat [simp]: "digits_val (show_nat n) = n"
proof (induction n rule: show_nat.induct)
  case (1 n)
  then show ?case
    by (cases "n < 10") (simp_all add: show_nat.simps [of n] digits_val_append)
qed

lemma show_nat_ne_Nil [simp]: "show_nat n \<noteq> []"
  by (subst show_nat.simps) simp

lemma show_nat_inject [simp]: "show_nat m = show_nat n \<longleftrightarrow> m = n"
  by (metis digits_val_show_nat)

lemma all_digits_no_space: "all_digits s \<Longrightarrow> list_all (\<lambda>c. \<not> is_space c) s"
  by (auto simp: all_digits_def list_all_iff digit_not_space)

lemma trim_digits [simp]: "all_digits s \<Longrightarrow> trim s = s"
  by (rule trim_no_space) (rule all_digits_no_space)

text \<open>The first digit of a printed number is not a zero, unless the number is zero.\<close>

lemma hd_show_nat: "0 < n \<Longrightarrow> hd (show_nat n) \<noteq> CHR ''0''"
proof (induction n rule: show_nat.induct)
  case (1 n)
  show ?case
  proof (cases "n < 10")
    case True
    then have "digit_val (hd (show_nat n)) = n" by (simp add: show_nat.simps [of n])
    with "1.prems" show ?thesis by (metis digit_val_zero less_irrefl)
  next
    case False
    then have "hd (show_nat n) = hd (show_nat (n div 10))" by (simp add: show_nat.simps [of n])
    moreover have "0 < n div 10" using False by simp
    ultimately show ?thesis using "1.IH" False by simp
  qed
qed

lemma length_show_nat_le: "n < 10 ^ Suc k \<Longrightarrow> length (show_nat n) \<le> Suc k"
proof (induction k arbitrary: n)
  case 0
  then show ?case by (simp add: show_nat.simps [of n])
next
  case (Suc k)
  show ?case
  proof (cases "n < 10")
    case True
    then show ?thesis by (simp add: show_nat.simps [of n])
  next
    case False
    have "n div 10 < 10 ^ Suc k" using Suc.prems by (simp add: less_mult_imp_div_less)
    then have "length (show_nat (n div 10)) \<le> Suc k" by (rule Suc.IH)
    with False show ?thesis by (simp add: show_nat.simps [of n])
  qed
qed


section \<open>Texts of numbers\<close>

text \<open>The regular expression \<open>^(0|[1-9][0-9]*)$\<close>.\<close>

fun canonical_nat :: "string \<Rightarrow> bool" where
  "canonical_nat [] = False"
| "canonical_nat (c # cs) = (if is_nonzero_digit c then all_digits cs else c = CHR ''0'' \<and> cs = [])"

text \<open>\<open>s.padStart(n, "0")\<close>, \<open>s.padEnd(n, "0")\<close> and \<open>s.replace(/0+$/, "")\<close>.\<close>

definition pad_start :: "nat \<Rightarrow> string \<Rightarrow> string" where
  "pad_start n s = replicate (n - length s) (CHR ''0'') @ s"

definition pad_end :: "nat \<Rightarrow> string \<Rightarrow> string" where
  "pad_end n s = s @ replicate (n - length s) (CHR ''0'')"

definition strip_trailing_zeros :: "string \<Rightarrow> string" where
  "strip_trailing_zeros s = rev (dropWhile (\<lambda>c. c = CHR ''0'') (rev s))"

text \<open>\<open>s.replace(/^0+(?=\d)/, "")\<close> on a string of digits: the last digit stays.\<close>

definition strip_leading_zeros :: "string \<Rightarrow> string" where
  "strip_leading_zeros s =
     (let r = dropWhile (\<lambda>c. c = CHR ''0'') s in if r = [] \<and> s \<noteq> [] then ''0'' else r)"

text \<open>\<open>s.slice(0, -k)\<close> and \<open>s.slice(-k)\<close> for a positive \<open>k\<close>.\<close>

definition slice_front :: "nat \<Rightarrow> string \<Rightarrow> string" where
  "slice_front k s = take (length s - k) s"

definition slice_back :: "nat \<Rightarrow> string \<Rightarrow> string" where
  "slice_back k s = drop (length s - k) s"

text \<open>\<open>const [whole, fraction] = s.split(".")\<close>: what stands before the first dot, and after it.\<close>

definition whole_part :: "string \<Rightarrow> string" where
  "whole_part s = takeWhile (\<lambda>c. c \<noteq> CHR ''.'') s"

definition fraction_part :: "string \<Rightarrow> string option" where
  "fraction_part s =
     (case dropWhile (\<lambda>c. c \<noteq> CHR ''.'') s of [] \<Rightarrow> None | _ # f \<Rightarrow> Some f)"

definition fraction_or_empty :: "string \<Rightarrow> string" where
  "fraction_or_empty s = (case fraction_part s of None \<Rightarrow> [] | Some f \<Rightarrow> f)"

text \<open>The regular expression \<open>^(?:0|[1-9][0-9]*)(?:\.[0-9]+)?$\<close>.\<close>

definition plain_decimal :: "string \<Rightarrow> bool" where
  "plain_decimal s =
     (canonical_nat (whole_part s)
      \<and> (case fraction_part s of None \<Rightarrow> True | Some f \<Rightarrow> f \<noteq> [] \<and> all_digits f))"

text \<open>The number a decimal text stands for; the specification of every parser and printer.\<close>

definition decimal_value :: "string \<Rightarrow> string \<Rightarrow> rat" where
  "decimal_value w f = of_nat (digits_val (w @ f)) / 10 ^ length f"

definition text_value :: "string \<Rightarrow> rat" where
  "text_value s = decimal_value (whole_part s) (fraction_or_empty s)"

lemma canonical_nat_digits: "canonical_nat s \<Longrightarrow> all_digits s"
  by (cases s) (auto simp: nonzero_digit_iff split: if_splits)

lemma canonical_nat_ne: "canonical_nat s \<Longrightarrow> s \<noteq> []"
  by auto

lemma canonical_show_nat [simp]: "canonical_nat (show_nat n)"
proof (cases "n = 0")
  case True
  have "digit_char 0 = CHR ''0''" using digit_char_val [of "CHR ''0''"] by simp
  with True show ?thesis by (simp add: show_nat.simps [of 0] nonzero_digit_iff)
next
  case False
  obtain c cs where s: "show_nat n = c # cs" by (cases "show_nat n") auto
  have "all_digits (c # cs)" using all_digits_show_nat [of n] s by simp
  moreover have "c \<noteq> CHR ''0''" using hd_show_nat [of n] False s by simp
  ultimately show ?thesis by (simp add: s nonzero_digit_iff)
qed

lemma canonical_nat_unique:
  assumes "canonical_nat s"
  shows "show_nat (digits_val s) = s"
proof -
  have *: "s = t" if "canonical_nat s" "canonical_nat t" "digits_val s = digits_val t" for s t
  proof -
    have aux: "False" if s: "canonical_nat s" and t: "canonical_nat t" and e: "digits_val s = digits_val t"
        and l: "length s < length t" for s t
    proof -
      obtain c cs where t': "t = c # cs" using t by (cases t) auto
      with l s have "cs \<noteq> []" by (cases s) auto
      with t t' have c: "is_nonzero_digit c" by (auto split: if_splits)
      then have "1 \<le> digit_val c" by (auto simp: is_nonzero_digit_def digit_val_def)
      then have "1 * 10 ^ length cs \<le> digit_val c * 10 ^ length cs" by (rule mult_le_mono1)
      then have "10 ^ length cs \<le> digits_val t" unfolding t' digits_val_Cons by linarith
      moreover have "digits_val s < 10 ^ length s"
        using s by (simp add: canonical_nat_digits digits_val_bound)
      moreover have "(10::nat) ^ length s \<le> 10 ^ length cs" using l t' by simp
      ultimately show False using e by simp
    qed
    have len: "length s = length t"
      using aux [of s t] aux [of t s] that by (metis linorder_neqE_nat)
    have "s = t" if "all_digits s" "all_digits t" "length s = length t" "digits_val s = digits_val t" for s t
      using that(3,1,2,4)
    proof (induction s t rule: list_induct2)
      case Nil
      then show ?case by simp
    next
      case (Cons a as b bs)
      let ?p = "10 ^ length bs :: nat"
      have lt: "digits_val as < ?p" "digits_val bs < ?p"
        using Cons.prems Cons.hyps digits_val_bound [of as] digits_val_bound [of bs] by auto
      have e: "digit_val a * ?p + digits_val as = digit_val b * ?p + digits_val bs"
        using Cons.prems Cons.hyps by (simp add: digits_val_Cons)
      have "digit_val a = (digit_val a * ?p + digits_val as) div ?p" using lt by simp
      also have "\<dots> = digit_val b" using e lt by simp
      finally have ab: "digit_val a = digit_val b" .
      with e have "digits_val as = digits_val bs" by simp
      with Cons have "as = bs" by simp
      moreover have "a = b" using ab Cons.prems digit_char_val [of a] digit_char_val [of b]
        by (metis all_digits_simps(2))
      ultimately show ?case by simp
    qed
    with len that show ?thesis by (simp add: canonical_nat_digits)
  qed
  show ?thesis by (rule * [OF canonical_show_nat assms]) simp
qed

lemma pad_start_props:
  "digits_val (pad_start n s) = digits_val s" "length (pad_start n s) = max n (length s)"
  "all_digits (pad_start n s) = all_digits s"
  by (auto simp: pad_start_def digits_val_append)

lemma digits_val_pad_end: "digits_val (s @ replicate k (CHR ''0'')) = digits_val s * 10 ^ k"
  by (simp add: digits_val_append)

lemma strip_trailing_decomp:
  "\<exists>k. s = strip_trailing_zeros s @ replicate k (CHR ''0'')"
proof -
  let ?P = "\<lambda>c. c = CHR ''0''"
  obtain k where k: "takeWhile ?P (rev s) = replicate k (CHR ''0'')"
    using takeWhile_eq_replicate [of "CHR ''0''" "rev s"] by blast
  have "s = rev (takeWhile ?P (rev s) @ dropWhile ?P (rev s))" by simp
  also have "\<dots> = strip_trailing_zeros s @ replicate k (CHR ''0'')"
    by (simp only: rev_append k rev_replicate strip_trailing_zeros_def)
  finally show ?thesis by blast
qed

lemma length_strip_trailing: "length (strip_trailing_zeros s) \<le> length s"
  using strip_trailing_decomp [of s] by (metis length_append le_add1)

lemma all_digits_strip_trailing: "all_digits s \<Longrightarrow> all_digits (strip_trailing_zeros s)"
  using strip_trailing_decomp [of s] by (metis all_digits_simps(3))

lemma decimal_value_strip: "decimal_value w (strip_trailing_zeros f) = decimal_value w f"
proof -
  obtain k where f: "f = strip_trailing_zeros f @ replicate k (CHR ''0'')"
    using strip_trailing_decomp by blast
  let ?g = "strip_trailing_zeros f"
  have "digits_val (w @ ?g @ replicate k (CHR ''0'')) = digits_val (w @ ?g) * 10 ^ k"
    using digits_val_pad_end [of "w @ ?g" k] by simp
  then have "decimal_value w (?g @ replicate k (CHR ''0'')) = decimal_value w ?g"
    by (simp add: decimal_value_def power_add)
  then show ?thesis by (simp only: f [symmetric])
qed

lemma digits_val_strip_leading: "digits_val (strip_leading_zeros s) = digits_val s"
proof -
  let ?P = "\<lambda>c. c = CHR ''0''"
  have z: "digits_val (takeWhile ?P s) = 0"
    using takeWhile_eq_replicate [of "CHR ''0''" s] by auto
  have "digits_val s = digits_val (takeWhile ?P s @ dropWhile ?P s)" by simp
  also have "\<dots> = digits_val (dropWhile ?P s)"
    by (simp only: digits_val_append z mult_zero_left add_0)
  finally have v: "digits_val s = digits_val (dropWhile ?P s)" .
  show ?thesis
  proof (cases "dropWhile ?P s = [] \<and> s \<noteq> []")
    case True
    then have "digits_val s = 0" using v by (simp only: digits_val_Nil)
    with True show ?thesis by (simp only: strip_leading_zeros_def Let_def if_True) simp
  next
    case False
    then show ?thesis unfolding strip_leading_zeros_def Let_def using v by (simp only: if_False)
  qed
qed

text \<open>
  Printing at a fixed scale: the printed integer, padded to more than \<open>d\<close> digits, is cut
  \<open>d\<close> digits from its end. What comes out are the digits of the quotient and the remainder.
\<close>

lemma whole_part_digits: "all_digits s \<Longrightarrow> whole_part s = s"
  by (auto simp: whole_part_def all_digits_def list_all_iff takeWhile_eq_all_conv digit_not_dot)

lemma fraction_part_digits:
  assumes "all_digits s"
  shows "fraction_part s = None"
proof -
  have "dropWhile (\<lambda>c. c \<noteq> CHR ''.'') s = []"
    using assms by (simp add: all_digits_def list_all_iff) (metis digit_not_dot)
  then show ?thesis unfolding fraction_part_def by (simp only: list.case)
qed

lemma parts_of_dotted:
  assumes "all_digits w"
  shows "whole_part (w @ CHR ''.'' # f) = w" "fraction_part (w @ CHR ''.'' # f) = Some f"
proof -
  have "\<And>c. c \<in> set w \<Longrightarrow> c \<noteq> CHR ''.''"
    using assms by (auto simp: all_digits_def list_all_iff digit_not_dot)
  then show "whole_part (w @ CHR ''.'' # f) = w" "fraction_part (w @ CHR ''.'' # f) = Some f"
    by (simp_all add: whole_part_def fraction_part_def takeWhile_append2 dropWhile_append2)
qed

lemma dot_not_space [simp]: "\<not> is_space (CHR ''.'')"
  by (simp add: is_space_def code_unit_def)

lemma decimal_no_space:
  assumes "all_digits w" "all_digits f"
  shows "trim (w @ CHR ''.'' # f) = w @ CHR ''.'' # f"
proof (rule trim_no_space)
  show "list_all (\<lambda>c. \<not> is_space c) (w @ CHR ''.'' # f)"
    using all_digits_no_space [OF assms(1)] all_digits_no_space [OF assms(2)] by simp
qed

definition scaled_digits :: "nat \<Rightarrow> nat \<Rightarrow> string" where
  "scaled_digits d n = pad_start (d + 1) (show_nat n)"

lemma scaled_digits_split:
  "slice_front d (scaled_digits d n) @ slice_back d (scaled_digits d n) = scaled_digits d n"
  by (simp add: slice_front_def slice_back_def)

lemma length_scaled_digits: "d < length (scaled_digits d n)"
  by (simp add: scaled_digits_def pad_start_props)

lemma length_slice_back_scaled [simp]: "length (slice_back d (scaled_digits d n)) = d"
  using length_scaled_digits [of d n] by (simp add: slice_back_def)

lemma all_digits_scaled [simp]: "all_digits (scaled_digits d n)"
  by (simp add: scaled_digits_def pad_start_props)

lemma all_digits_slices [simp]:
  "all_digits (slice_front d (scaled_digits d n))" "all_digits (slice_back d (scaled_digits d n))"
proof -
  have "all_digits (slice_front d (scaled_digits d n) @ slice_back d (scaled_digits d n))"
    by (simp only: scaled_digits_split all_digits_scaled)
  then show "all_digits (slice_front d (scaled_digits d n))" "all_digits (slice_back d (scaled_digits d n))"
    by simp_all
qed

lemma digits_val_slices:
  "digits_val (slice_front d (scaled_digits d n) @ slice_back d (scaled_digits d n)) = n"
  by (simp add: scaled_digits_split, simp add: scaled_digits_def pad_start_props)

lemma slice_front_scaled: "slice_front d (scaled_digits d n) = show_nat (n div 10 ^ d)"
proof -
  let ?w = "slice_front d (scaled_digits d n)" and ?f = "slice_back d (scaled_digits d n)"
  have n: "digits_val ?w * 10 ^ d + digits_val ?f = n"
    using digits_val_slices [of d n] by (simp add: digits_val_append)
  have "digits_val ?f < 10 ^ d"
    using digits_val_bound [of ?f] by simp
  then have "(digits_val ?w * 10 ^ d + digits_val ?f) div 10 ^ d = digits_val ?w" by simp
  then have v: "digits_val ?w = n div 10 ^ d" by (simp only: n)
  have "canonical_nat ?w"
  proof (cases "length (show_nat n) \<le> d + 1")
    case True
    then have "length ?w = 1" by (simp add: slice_front_def scaled_digits_def pad_start_def)
    then obtain c where c: "?w = [c]" by (cases ?w) auto
    then have "is_digit c" using all_digits_slices(1) [of d n] by simp
    then show ?thesis by (auto simp: c nonzero_digit_iff)
  next
    case False
    then have w: "?w = take (length (show_nat n) - d) (show_nat n)"
      by (simp add: slice_front_def scaled_digits_def pad_start_def)
    obtain c cs where s: "show_nat n = c # cs" by (cases "show_nat n") auto
    with False have "cs \<noteq> []" by auto
    with canonical_show_nat [of n] s have c: "is_nonzero_digit c" by (auto split: if_splits)
    from False s w obtain ds where ds: "?w = c # ds"
      by (cases "length (show_nat n) - d") auto
    then show ?thesis using c all_digits_slices(1) [of d n] by simp
  qed
  then show ?thesis using canonical_nat_unique v by metis
qed

lemma decimal_value_scaled:
  "decimal_value (slice_front d (scaled_digits d n)) (slice_back d (scaled_digits d n))
   = of_nat n / 10 ^ d"
  by (simp add: decimal_value_def digits_val_slices del: append_assoc)

section \<open>\<open>BigInt\<close> of a string\<close>

text \<open>
  \<open>BigInt(s)\<close>: white space around the text is dropped, the empty text is zero, a prefix
  \<open>0x\<close>, \<open>0o\<close> or \<open>0b\<close> selects another base and admits no sign; anything else throws,
  which is \<open>None\<close>.
\<close>

definition base_digit :: "nat \<Rightarrow> char \<Rightarrow> nat option" where
  "base_digit b c =
     (let u = code_unit c;
          d = (if 48 \<le> u \<and> u \<le> 57 then u - 48
               else if 97 \<le> u \<and> u \<le> 102 then u - 87
               else if 65 \<le> u \<and> u \<le> 70 then u - 55 else 99)
      in if d < b then Some d else None)"

fun base_val :: "nat \<Rightarrow> nat \<Rightarrow> string \<Rightarrow> nat option" where
  "base_val b a [] = Some a"
| "base_val b a (c # cs) =
     (case base_digit b c of None \<Rightarrow> None | Some d \<Rightarrow> base_val b (a * b + d) cs)"

definition base_of_letter :: "char \<Rightarrow> nat option" where
  "base_of_letter c =
     (if c = CHR ''x'' \<or> c = CHR ''X'' then Some 16
      else if c = CHR ''o'' \<or> c = CHR ''O'' then Some 8
      else if c = CHR ''b'' \<or> c = CHR ''B'' then Some 2 else None)"

definition signed_digits :: "string \<Rightarrow> int option" where
  "signed_digits t =
     (case t of
        c # ds \<Rightarrow>
          (if c = CHR ''-'' then (if ds \<noteq> [] \<and> all_digits ds then Some (- int (digits_val ds)) else None)
           else if c = CHR ''+'' then (if ds \<noteq> [] \<and> all_digits ds then Some (int (digits_val ds)) else None)
           else if all_digits t then Some (int (digits_val t)) else None)
      | [] \<Rightarrow> Some 0)"

definition js_bigint :: "string \<Rightarrow> int option" where
  "js_bigint s =
     (let t = trim s in
      case t of
        z # x # ds \<Rightarrow>
          (case (if z = CHR ''0'' then base_of_letter x else None) of
             Some b \<Rightarrow> (if ds = [] then None else map_option int (base_val b 0 ds))
           | None \<Rightarrow> signed_digits t)
      | _ \<Rightarrow> signed_digits t)"

lemma not_digit_letters [simp]:
  "\<not> is_digit (CHR ''x'')" "\<not> is_digit (CHR ''X'')" "\<not> is_digit (CHR ''o'')"
  "\<not> is_digit (CHR ''O'')" "\<not> is_digit (CHR ''b'')" "\<not> is_digit (CHR ''B'')"
  "\<not> is_digit (CHR ''-'')" "\<not> is_digit (CHR ''+'')" "\<not> is_digit (CHR ''.'')"
  by (simp_all add: is_digit_def code_unit_def)

lemma base_of_letter_digit:
  assumes "is_digit c"
  shows "base_of_letter c = None"
proof -
  have "c \<noteq> CHR ''x''" "c \<noteq> CHR ''X''" "c \<noteq> CHR ''o''" "c \<noteq> CHR ''O''" "c \<noteq> CHR ''b''" "c \<noteq> CHR ''B''"
    using assms not_digit_letters by metis+
  then show ?thesis by (simp only: base_of_letter_def if_False simp_thms)
qed

lemma js_bigint_digits: "all_digits s \<Longrightarrow> s \<noteq> [] \<Longrightarrow> js_bigint s = Some (int (digits_val s))"
proof -
  assume s: "all_digits s" "s \<noteq> []"
  have "signed_digits s = Some (int (digits_val s))"
  proof (cases s)
    case (Cons c ds)
    with s have "c \<noteq> CHR ''-''" "c \<noteq> CHR ''+''" using not_digit_letters by auto
    with s Cons show ?thesis by (simp add: signed_digits_def)
  qed (use s in simp)
  with s show ?thesis
    by (auto simp: js_bigint_def base_of_letter_digit split: list.splits option.splits if_splits)
qed

lemma js_bigint_show_nat [simp]: "js_bigint (show_nat n) = Some (int n)"
  by (simp add: js_bigint_digits)

section \<open>Evaluation of ground texts\<close>

text \<open>
  The collection that lets the simplifier compute with literal texts: every function above
  unfolds on a literal, and counts of copies unfold on a numeral.
\<close>

named_theorems text_eval "rules that compute the functions on literal texts"

lemma digit_char_table [text_eval]:
  "digit_char 0 = CHR ''0''" "digit_char (Suc 0) = CHR ''1''" "digit_char 1 = CHR ''1''"
  "digit_char 2 = CHR ''2''" "digit_char 3 = CHR ''3''" "digit_char 4 = CHR ''4''"
  "digit_char 5 = CHR ''5''" "digit_char 6 = CHR ''6''" "digit_char 7 = CHR ''7''"
  "digit_char 8 = CHR ''8''" "digit_char 9 = CHR ''9''"
  using digit_char_val [of "CHR ''0''"] digit_char_val [of "CHR ''1''"]
    digit_char_val [of "CHR ''2''"] digit_char_val [of "CHR ''3''"]
    digit_char_val [of "CHR ''4''"] digit_char_val [of "CHR ''5''"]
    digit_char_val [of "CHR ''6''"] digit_char_val [of "CHR ''7''"]
    digit_char_val [of "CHR ''8''"] digit_char_val [of "CHR ''9''"]
  by (simp_all add: is_digit_def digit_val_def code_unit_def)

lemma replicate_of_numeral [text_eval]: "replicate (numeral k) x = x # replicate (pred_numeral k) x"
  by (simp add: numeral_eq_Suc)

lemma take_of_numeral [text_eval]: "take (numeral k) (x # xs) = x # take (pred_numeral k) xs"
  by (simp add: numeral_eq_Suc)

lemma drop_of_numeral [text_eval]: "drop (numeral k) (x # xs) = drop (pred_numeral k) xs"
  by (simp add: numeral_eq_Suc)

lemmas text_definitions [text_eval] =
  code_unit_def is_space_def trim_def is_digit_def is_nonzero_digit_def digit_val_def
  all_digits_def digits_val_def show_nat.simps show_int_def pad_start_def pad_end_def
  strip_trailing_zeros_def strip_leading_zeros_def slice_front_def slice_back_def
  whole_part_def fraction_part_def fraction_or_empty_def plain_decimal_def
  js_bigint_def signed_digits_def base_of_letter_def base_digit_def

end
