(* ===== verification/LighterTypes.thy ===== *)
theory LighterTypes
  imports JsText
begin

text \<open>
  The enumerations the Lighter modules share (\<open>src/src/tools/lighter/order-preview.ts\<close>,
  \<open>constants.ts\<close>): deployments, order types, sides, times in force, and what the approved
  price of an order means.
\<close>

datatype environment = Core | Rhc

datatype order_side = Buy | Sell

datatype order_type = Limit | Market | StopLoss | StopLossLimit | TakeProfit | TakeProfitLimit

datatype time_in_force = GoodTillTime | ImmediateOrCancel | PostOnly

datatype price_role = LimitPrice | WorstAcceptablePrice | TriggerExecutionBound

text \<open>The texts these values have in the code.\<close>

fun environment_text :: "environment \<Rightarrow> string" where
  "environment_text Core = ''core''"
| "environment_text Rhc = ''rhc''"

fun side_text :: "order_side \<Rightarrow> string" where
  "side_text Buy = ''buy''"
| "side_text Sell = ''sell''"

fun order_type_text :: "order_type \<Rightarrow> string" where
  "order_type_text Limit = ''limit''"
| "order_type_text Market = ''market''"
| "order_type_text StopLoss = ''stop-loss''"
| "order_type_text StopLossLimit = ''stop-loss-limit''"
| "order_type_text TakeProfit = ''take-profit''"
| "order_type_text TakeProfitLimit = ''take-profit-limit''"

fun time_in_force_text :: "time_in_force \<Rightarrow> string" where
  "time_in_force_text GoodTillTime = ''good-till-time''"
| "time_in_force_text ImmediateOrCancel = ''immediate-or-cancel''"
| "time_in_force_text PostOnly = ''post-only''"

text \<open>
  An account row of the account endpoint, as far as the fee policy and the order preview read
  it. An optional property is an \<open>option\<close>; a property the code first tests with \<open>typeof\<close> or
  \<open>Array.isArray\<close> is \<open>None\<close> when the test fails, and \<open>acct_positions\<close> holds \<open>None\<close> for a row
  that is not an object.
\<close>

record approved_integrator =
  ai_account_index :: js_number
  ai_approval_expiry :: js_number
  ai_max_perps_maker_fee :: js_number
  ai_max_perps_taker_fee :: js_number
  ai_max_spot_maker_fee :: js_number
  ai_max_spot_taker_fee :: js_number

record account_asset =
  as_symbol :: string
  as_asset_id :: js_number
  as_balance :: string
  as_locked_balance :: string

record account_position =
  ps_market_id :: "js_number option"
  ps_marketId :: "js_number option"
  ps_position :: "string option"
  ps_size :: "string option"
  ps_sign :: "js_number option"

record lighter_account =
  acct_index :: "js_number option"
  acct_account_index :: "js_number option"
  acct_l1_address :: "string option"
  acct_approved_integrators :: "approved_integrator list option"
  acct_positions :: "account_position option list option"
  acct_assets :: "account_asset list option"

text \<open>\<open>a ?? b\<close>\<close>

fun or_else :: "'a option \<Rightarrow> 'a option \<Rightarrow> 'a option" where
  "or_else (Some a) b = Some a"
| "or_else None b = b"

text \<open>\<open>String.prototype.toLowerCase\<close> below code unit 256.\<close>

definition to_lower_char :: "char \<Rightarrow> char" where
  "to_lower_char c =
     (let u = code_unit c
      in if 65 \<le> u \<and> u \<le> 90 \<or> 192 \<le> u \<and> u \<le> 222 \<and> u \<noteq> 215 then char_of (u + 32) else c)"

definition to_lower :: "string \<Rightarrow> string" where
  "to_lower = map to_lower_char"

definition is_hex_digit :: "char \<Rightarrow> bool" where
  "is_hex_digit c = (base_digit 16 c \<noteq> None)"

definition is_lower_hex_digit :: "char \<Rightarrow> bool" where
  "is_lower_hex_digit c = (is_digit c \<or> 97 \<le> code_unit c \<and> code_unit c \<le> 102)"

declare to_lower_def [text_eval] to_lower_char_def [text_eval] is_hex_digit_def [text_eval]
  is_lower_hex_digit_def [text_eval]

lemma environment_text_inject: "environment_text a = environment_text b \<longleftrightarrow> a = b"
  by (cases a; cases b) simp_all

lemma side_text_inject: "side_text a = side_text b \<longleftrightarrow> a = b"
  by (cases a; cases b) simp_all

lemma order_type_text_inject: "order_type_text a = order_type_text b \<longleftrightarrow> a = b"
  by (cases a; cases b) simp_all

lemma time_in_force_text_inject: "time_in_force_text a = time_in_force_text b \<longleftrightarrow> a = b"
  by (cases a; cases b) simp_all

end
