(* ===== verification/LighterFees.thy ===== *)
theory LighterFees
  imports LighterTypes "HOL-Library.List_Lexorder"
begin

text \<open>
  The fees Vex charges on Lighter orders: the release-controlled collectors and their policy
  (\<open>src/src/tools/lighter/fee-policy.ts\<close>), the durable fee terms of an order
  (\<open>order-fee-terms.ts\<close>) and the admitted combinations of order type and time in force
  (\<open>order-policy.ts\<close>). Fees are integers of ticks, a million to the whole.
\<close>

section \<open>Order types and times in force\<close>

definition LIGHTER_ALLOWED_CREATE_ORDER_TUPLES :: "string list" where
  "LIGHTER_ALLOWED_CREATE_ORDER_TUPLES =
     [''limit:immediate-or-cancel'',
      ''limit:good-till-time'',
      ''limit:post-only'',
      ''market:immediate-or-cancel'',
      ''stop-loss:immediate-or-cancel'',
      ''stop-loss-limit:immediate-or-cancel'',
      ''stop-loss-limit:good-till-time'',
      ''stop-loss-limit:post-only'',
      ''take-profit:immediate-or-cancel'',
      ''take-profit-limit:immediate-or-cancel'',
      ''take-profit-limit:good-till-time'',
      ''take-profit-limit:post-only'']"

datatype policy_refusal = UnsupportedOrderPolicy

definition lighterPhaseOneOrderPolicyFailure :: "order_type \<Rightarrow> time_in_force \<Rightarrow> policy_refusal option" where
  "lighterPhaseOneOrderPolicyFailure orderType timeInForce =
     (if order_type_text orderType @ '':'' @ time_in_force_text timeInForce
         \<in> set LIGHTER_ALLOWED_CREATE_ORDER_TUPLES
      then None else Some UnsupportedOrderPolicy)"

definition assertLighterPhaseOneOrderPolicy ::
    "order_type \<Rightarrow> time_in_force \<Rightarrow> (policy_refusal, unit) result" where
  "assertLighterPhaseOneOrderPolicy orderType timeInForce =
     (case lighterPhaseOneOrderPolicyFailure orderType timeInForce of
        None \<Rightarrow> Inr ()
      | Some reason \<Rightarrow> Inl reason)"

section \<open>The fee policy\<close>

definition LIGHTER_FEE_TICK :: int where "LIGHTER_FEE_TICK = 1000000"
definition LIGHTER_PERPS_FEE :: int where "LIGHTER_PERPS_FEE = 1000"
definition LIGHTER_SPOT_FEE :: int where "LIGHTER_SPOT_FEE = 2500"

text \<open>\<open>2 ** 48 - 2\<close>, the largest account index.\<close>

definition MAX_ACCOUNT_INDEX :: int where "MAX_ACCOUNT_INDEX = 281474976710654"

lemmas fee_constants = LIGHTER_FEE_TICK_def LIGHTER_PERPS_FEE_def LIGHTER_SPOT_FEE_def MAX_ACCOUNT_INDEX_def

datatype fee_refusal =
    CollectorMisconfigured
  | UnknownMarketType
  | InvalidIntegratorFees
  | CannotVerifyFeeLimits
  | CollectorNotOwned
  | FeeExceedsProviderLimit
  | CannotVerifyEligibility
  | TierNotEligible
  | FeesNotApproved
  | FeeTermsInvalid

record integrator_fees =
  integratorAccountIndex :: js_number
  integratorMakerFee :: js_number
  integratorTakerFee :: js_number

record fee_policy =
  fp_environment :: environment
  fp_collectorAccountIndex :: int
  fp_collectorL1Address :: string
  fp_perpsMakerFee :: int
  fp_perpsTakerFee :: int
  fp_spotMakerFee :: int
  fp_spotTakerFee :: int

record collector_configuration =
  cc_enabled :: bool
  cc_accountIndex :: "js_number option"
  cc_l1Address :: "string option"

definition COLLECTORS :: "environment \<Rightarrow> collector_configuration" where
  "COLLECTORS env =
     (case env of
        Core \<Rightarrow> \<lparr> cc_enabled = True, cc_accountIndex = Some (JsInt 743799),
                 cc_l1Address = Some ''0x10Ce97Cf3142BE2a1a28aC83A55b21fDCE493C03'' \<rparr>
      | Rhc \<Rightarrow> \<lparr> cc_enabled = True, cc_accountIndex = Some (JsInt 22869),
                cc_l1Address = Some ''0x10Ce97Cf3142BE2a1a28aC83A55b21fDCE493C03'' \<rparr>)"

text \<open>\<open>/^0x[0-9a-fA-F]{40}$/\<close> and \<open>/^0x0{40}$/i\<close>.\<close>

definition l1_address_shape :: "string \<Rightarrow> bool" where
  "l1_address_shape s = (length s = 42 \<and> take 2 s = ''0x'' \<and> list_all is_hex_digit (drop 2 s))"

definition zero_l1_address :: "string \<Rightarrow> bool" where
  "zero_l1_address s =
     (length s = 42 \<and> to_lower (take 2 s) = ''0x'' \<and> list_all (\<lambda>c. c = CHR ''0'') (drop 2 s))"

text \<open>An integer of \<open>int\<close>s that passed \<open>Number.isSafeInteger\<close> and the two bounds.\<close>

definition safe_in_range :: "js_number \<Rightarrow> int \<Rightarrow> int \<Rightarrow> bool" where
  "safe_in_range x lo hi = (is_safe_integer x \<and> lo \<le> int_of_js x \<and> int_of_js x \<le> hi)"

definition integer_in_range :: "js_number \<Rightarrow> int \<Rightarrow> int \<Rightarrow> bool" where
  "integer_in_range x lo hi = (is_integer x \<and> lo \<le> int_of_js x \<and> int_of_js x \<le> hi)"

definition resolveLighterFeePolicy ::
    "environment \<Rightarrow> collector_configuration option \<Rightarrow> (fee_refusal, fee_policy option) result" where
  "resolveLighterFeePolicy env config =
     (case config of
        None \<Rightarrow> Inr None
      | Some c \<Rightarrow>
          if \<not> cc_enabled c then Inr None
          else
            let address = (case cc_l1Address c of None \<Rightarrow> '''' | Some a \<Rightarrow> a) in
            (case cc_accountIndex c of
               None \<Rightarrow> Inl CollectorMisconfigured
             | Some index \<Rightarrow>
                 bindE (requireE (safe_in_range index 1 MAX_ACCOUNT_INDEX
                                  \<and> l1_address_shape address \<and> \<not> zero_l1_address address)
                          CollectorMisconfigured) (\<lambda>_.
                 Inr (Some \<lparr> fp_environment = env,
                             fp_collectorAccountIndex = int_of_js index,
                             fp_collectorL1Address = to_lower address,
                             fp_perpsMakerFee = LIGHTER_PERPS_FEE,
                             fp_perpsTakerFee = LIGHTER_PERPS_FEE,
                             fp_spotMakerFee = LIGHTER_SPOT_FEE,
                             fp_spotTakerFee = LIGHTER_SPOT_FEE \<rparr>))))"

definition getLighterFeePolicy :: "environment \<Rightarrow> (fee_refusal, fee_policy option) result" where
  "getLighterFeePolicy env = resolveLighterFeePolicy env (Some (COLLECTORS env))"

definition getLighterIntegratorFees :: "fee_policy \<Rightarrow> string \<Rightarrow> (fee_refusal, integrator_fees) result" where
  "getLighterIntegratorFees policy marketType =
     bindE (requireE (marketType = ''perp'' \<or> marketType = ''spot'') UnknownMarketType) (\<lambda>_.
     Inr \<lparr> integratorAccountIndex = JsInt (fp_collectorAccountIndex policy),
           integratorMakerFee = JsInt (if marketType = ''spot'' then fp_spotMakerFee policy
                                       else fp_perpsMakerFee policy),
           integratorTakerFee = JsInt (if marketType = ''spot'' then fp_spotTakerFee policy
                                       else fp_perpsTakerFee policy) \<rparr>)"

definition assertLighterIntegratorFees :: "integrator_fees \<Rightarrow> (fee_refusal, unit) result" where
  "assertLighterIntegratorFees fees =
     requireE (safe_in_range (integratorAccountIndex fees) 1 MAX_ACCOUNT_INDEX
               \<and> integer_in_range (integratorMakerFee fees) 0 LIGHTER_FEE_TICK
               \<and> integer_in_range (integratorTakerFee fees) 0 LIGHTER_FEE_TICK)
       InvalidIntegratorFees"

text \<open>\<open>a === b\<close> on numbers: NaN equals nothing.\<close>

fun js_same :: "js_number \<Rightarrow> js_number \<Rightarrow> bool" where
  "js_same JsNaN _ = False"
| "js_same x y = (x = y)"

definition lighterIntegratorFeesEqual ::
    "integrator_fees option \<Rightarrow> integrator_fees option \<Rightarrow> bool" where
  "lighterIntegratorFeesEqual a b =
     (case (a, b) of
        (Some x, Some y) \<Rightarrow>
          js_same (integratorAccountIndex x) (integratorAccountIndex y)
          \<and> js_same (integratorMakerFee x) (integratorMakerFee y)
          \<and> js_same (integratorTakerFee x) (integratorTakerFee y)
      | (x, y) \<Rightarrow> x = None \<and> y = None)"

record system_config =
  sc_code :: js_number
  sc_max_integrator_perps_maker_fee :: "js_number option"
  sc_max_integrator_perps_taker_fee :: "js_number option"
  sc_max_integrator_spot_maker_fee :: "js_number option"
  sc_max_integrator_spot_taker_fee :: "js_number option"

text \<open>The loop over the four rates and their caps stops at the first cap that is too small.\<close>

fun check_fee_caps :: "(int \<times> js_number option) list \<Rightarrow> (fee_refusal, unit) result" where
  "check_fee_caps [] = Inr ()"
| "check_fee_caps ((rate, cap) # rest) =
     (case cap of
        None \<Rightarrow> Inl FeeExceedsProviderLimit
      | Some c \<Rightarrow>
          bindE (requireE (is_safe_integer c \<and> \<not> int_of_js c < rate) FeeExceedsProviderLimit) (\<lambda>_.
          check_fee_caps rest))"

definition assertLighterFeePolicyLive ::
    "fee_policy \<Rightarrow> system_config \<Rightarrow> lighter_account \<Rightarrow> (fee_refusal, unit) result" where
  "assertLighterFeePolicyLive policy config collector =
     bindE (requireE (sc_code config = JsInt 200) CannotVerifyFeeLimits) (\<lambda>_.
     bindE (requireE (or_else (acct_index collector) (acct_account_index collector)
                        = Some (JsInt (fp_collectorAccountIndex policy))
                      \<and> map_option to_lower (acct_l1_address collector)
                        = Some (to_lower (fp_collectorL1Address policy))) CollectorNotOwned) (\<lambda>_.
     check_fee_caps
       [(fp_perpsMakerFee policy, sc_max_integrator_perps_maker_fee config),
        (fp_perpsTakerFee policy, sc_max_integrator_perps_taker_fee config),
        (fp_spotMakerFee policy, sc_max_integrator_spot_maker_fee config),
        (fp_spotTakerFee policy, sc_max_integrator_spot_taker_fee config)]))"

definition assertLighterFeeAllowance ::
    "fee_policy \<Rightarrow> lighter_account \<Rightarrow> js_number \<Rightarrow> string \<Rightarrow> int \<Rightarrow> (fee_refusal, unit) result" where
  "assertLighterFeeAllowance policy account limits_code user_tier nowMs =
     bindE (requireE (limits_code = JsInt 200) CannotVerifyEligibility) (\<lambda>_.
     let tier = to_lower user_tier in
     bindE (requireE (tier = ''plus'' \<or> tier = ''premium'') TierNotEligible) (\<lambda>_.
     let matching = map_option (filter (\<lambda>entry. ai_account_index entry
                                 = JsInt (fp_collectorAccountIndex policy)))
                      (acct_approved_integrators account) in
     (case matching of
        Some [allowance] \<Rightarrow>
          requireE (\<not> (js_less (ai_approval_expiry allowance) nowMs
                         \<or> ai_approval_expiry allowance = JsInt nowMs
                       \<or> js_less (ai_max_perps_maker_fee allowance) (fp_perpsMakerFee policy)
                       \<or> js_less (ai_max_perps_taker_fee allowance) (fp_perpsTakerFee policy)
                       \<or> js_less (ai_max_spot_maker_fee allowance) (fp_spotMakerFee policy)
                       \<or> js_less (ai_max_spot_taker_fee allowance) (fp_spotTakerFee policy)))
            FeesNotApproved
      | _ \<Rightarrow> Inl FeesNotApproved)))"

section \<open>Durable fee terms\<close>

text \<open>
  A value of type \<open>unknown\<close>: missing, not an object, or an object with its own properties in
  order, \<open>None\<close> for a property that is not a number.
\<close>

datatype stored_value =
    Undefined
  | Null
  | NotAnObject
  | ArrayValue
  | ObjectValue "(string \<times> js_number option) list"

definition stored_number :: "(string \<times> js_number option) list \<Rightarrow> string \<Rightarrow> js_number" where
  "stored_number props name = (case map_of props name of Some (Some x) \<Rightarrow> x | _ \<Rightarrow> JsNaN)"

definition readLighterOrderFeeTerms :: "stored_value \<Rightarrow> (fee_refusal, integrator_fees option) result" where
  "readLighterOrderFeeTerms v =
     (case v of
        Undefined \<Rightarrow> Inr None
      | Null \<Rightarrow> Inr None
      | NotAnObject \<Rightarrow> Inl FeeTermsInvalid
      | ArrayValue \<Rightarrow> Inl FeeTermsInvalid
      | ObjectValue props \<Rightarrow>
          bindE (requireE (join_with '','' (sort (map fst props))
                           = ''integratorAccountIndex,integratorMakerFee,integratorTakerFee'')
                   FeeTermsInvalid) (\<lambda>_.
          let fees = \<lparr> integratorAccountIndex = stored_number props ''integratorAccountIndex'',
                       integratorMakerFee = stored_number props ''integratorMakerFee'',
                       integratorTakerFee = stored_number props ''integratorTakerFee'' \<rparr> in
          bindE (assertLighterIntegratorFees fees) (\<lambda>_.
          Inr (Some fees))))"

text \<open>\<open>decimals\<close> is at least 4 at every call, so the slices are the ones of a positive count.\<close>

definition formatFeeInteger :: "nat \<Rightarrow> nat \<Rightarrow> string" where
  "formatFeeInteger value decimals =
     (let raw = pad_start (decimals + 1) (show_nat value);
          fraction = strip_trailing_zeros (slice_back decimals raw)
      in slice_front decimals raw @ (if fraction \<noteq> [] then ''.'' @ fraction else ''''))"

definition lighterFeePercent :: "js_number \<Rightarrow> (fee_refusal, string) result" where
  "lighterFeePercent ticks =
     bindE (requireE (safe_in_range ticks 0 1000000) FeeTermsInvalid) (\<lambda>_.
     Inr (formatFeeInteger (nat (int_of_js ticks)) 4))"

record fee_critical_args =
  ca_integratorAccountIndex :: js_number
  ca_integratorMakerFee :: js_number
  ca_integratorTakerFee :: js_number
  ca_vexFeeSummary :: string

definition lighterOrderFeeCriticalArgs ::
    "integrator_fees option \<Rightarrow> (fee_refusal, fee_critical_args option) result" where
  "lighterOrderFeeCriticalArgs fees =
     (case fees of
        None \<Rightarrow> Inr None
      | Some f \<Rightarrow>
          bindE (assertLighterIntegratorFees f) (\<lambda>_.
          bindE (lighterFeePercent (integratorMakerFee f)) (\<lambda>maker.
          bindE (lighterFeePercent (integratorTakerFee f)) (\<lambda>taker.
          Inr (Some \<lparr> ca_integratorAccountIndex = integratorAccountIndex f,
                      ca_integratorMakerFee = integratorMakerFee f,
                      ca_integratorTakerFee = integratorTakerFee f,
                      ca_vexFeeSummary =
                        ''VEX fee: '' @ maker @ ''% maker / '' @ taker
                        @ ''% taker on executed trade value, credited to Lighter account ''
                        @ show_int (int_of_js (integratorAccountIndex f))
                        @ ''. Spot fees are deducted from the asset received. Lighter exchange fees are separate.'' \<rparr>)))))"

definition estimateLighterOrderFee ::
    "string \<Rightarrow> js_number \<Rightarrow> js_number \<Rightarrow> (fee_refusal, string) result" where
  "estimateLighterOrderFee amountInteger decimals feeTicks =
     bindE (requireE (canonical_nat amountInteger \<and> integer_in_range decimals 0 36) FeeTermsInvalid) (\<lambda>_.
     bindE (lighterFeePercent feeTicks) (\<lambda>_.
     Inr (formatFeeInteger (digits_val amountInteger * nat (int_of_js feeTicks))
            (nat (int_of_js decimals) + 6))))"

section \<open>Fees are exact\<close>

text \<open>What the fee printer prints stands for the integer at its scale, without loss.\<close>

lemma formatFeeInteger_value: "text_value (formatFeeInteger v d) = of_nat v / 10 ^ d"
proof -
  let ?w = "slice_front d (scaled_digits d v)" and ?f = "slice_back d (scaled_digits d v)"
  let ?g = "strip_trailing_zeros ?f"
  have e: "formatFeeInteger v d = ?w @ (if ?g \<noteq> [] then ''.'' @ ?g else '''')"
    by (simp only: formatFeeInteger_def scaled_digits_def Let_def)
  have "text_value (formatFeeInteger v d) = decimal_value ?w ?g"
  proof (cases "?g = []")
    case True
    then have "formatFeeInteger v d = ?w" by (simp add: e)
    then show ?thesis
      by (simp add: text_value_def whole_part_digits fraction_part_digits fraction_or_empty_def True)
  next
    case False
    then have "formatFeeInteger v d = ?w @ CHR ''.'' # ?g" by (simp add: e)
    then show ?thesis
      by (simp add: text_value_def parts_of_dotted fraction_or_empty_def)
  qed
  also have "\<dots> = of_nat v / 10 ^ d"
    by (simp only: decimal_value_strip decimal_value_scaled)
  finally show ?thesis .
qed

lemma safe_in_range_iff:
  "safe_in_range x lo hi \<longleftrightarrow> (\<exists>i. x = JsInt i \<and> \<bar>i\<bar> \<le> max_safe_integer \<and> lo \<le> i \<and> i \<le> hi)"
  by (auto simp: safe_in_range_def is_safe_integer_iff)

lemma integer_in_range_iff: "integer_in_range x lo hi \<longleftrightarrow> (\<exists>i. x = JsInt i \<and> lo \<le> i \<and> i \<le> hi)"
  by (auto simp: integer_in_range_def is_integer_iff)

lemma assertLighterIntegratorFees_iff:
  "assertLighterIntegratorFees f = Inr () \<longleftrightarrow>
     (\<exists>a m t. f = \<lparr> integratorAccountIndex = JsInt a, integratorMakerFee = JsInt m,
                    integratorTakerFee = JsInt t \<rparr>
        \<and> 1 \<le> a \<and> a \<le> MAX_ACCOUNT_INDEX \<and> 0 \<le> m \<and> m \<le> LIGHTER_FEE_TICK
        \<and> 0 \<le> t \<and> t \<le> LIGHTER_FEE_TICK)"
  by (cases f) (auto simp: assertLighterIntegratorFees_def result_simps safe_in_range_iff
      integer_in_range_iff MAX_ACCOUNT_INDEX_def max_safe_integer_def)

lemma check_fee_caps_iff:
  "check_fee_caps rs = Inr () \<longleftrightarrow>
     (\<forall>(rate, cap) \<in> set rs. \<exists>c. cap = Some (JsInt c) \<and> \<bar>c\<bar> \<le> max_safe_integer \<and> rate \<le> c)"
proof (induction rs rule: check_fee_caps.induct)
  case 1
  then show ?case by simp
next
  case (2 rate cap rest)
  then show ?case
    by (cases cap) (auto simp: result_simps is_safe_integer_iff)
qed

section \<open>Properties\<close>

text \<open>
  Which combinations are admitted. A limit order and a triggered limit order may carry any
  time in force; a market order and a triggered market order only immediate-or-cancel.
\<close>

theorem order_policy_admits_exactly:
  "assertLighterPhaseOneOrderPolicy t f = Inr () \<longleftrightarrow>
     t \<in> {Limit, StopLossLimit, TakeProfitLimit} \<or> f = ImmediateOrCancel"
  by (cases t; cases f)
    (simp_all add: assertLighterPhaseOneOrderPolicy_def lighterPhaseOneOrderPolicyFailure_def
      LIGHTER_ALLOWED_CREATE_ORDER_TUPLES_def)

text \<open>
  C40: Stored fee terms are read back as they are or refused. Only a missing value means that
  the order carries no fee; anything malformed, out of range or with other properties throws
  and never becomes a zero fee.
\<close>

theorem fee_terms_never_default_to_zero:
  assumes "readLighterOrderFeeTerms v = Inr r"
  shows "case r of
      None \<Rightarrow> v = Undefined \<or> v = Null
    | Some f \<Rightarrow> (\<exists>props a m t. v = ObjectValue props
        \<and> map_of props ''integratorAccountIndex'' = Some (Some (JsInt a))
        \<and> map_of props ''integratorMakerFee'' = Some (Some (JsInt m))
        \<and> map_of props ''integratorTakerFee'' = Some (Some (JsInt t))
        \<and> f = \<lparr> integratorAccountIndex = JsInt a, integratorMakerFee = JsInt m,
                 integratorTakerFee = JsInt t \<rparr>
        \<and> 1 \<le> a \<and> a \<le> MAX_ACCOUNT_INDEX \<and> 0 \<le> m \<and> m \<le> LIGHTER_FEE_TICK
        \<and> 0 \<le> t \<and> t \<le> LIGHTER_FEE_TICK)"
proof -
  have num: "map_of props n = Some (Some (JsInt i))" if "stored_number props n = JsInt i" for props n i
    using that by (auto simp: stored_number_def split: option.splits)
  show ?thesis
  proof (cases v)
    case (ObjectValue props)
    with assms obtain f where r: "r = Some f" and a: "assertLighterIntegratorFees f = Inr ()"
      and f: "f = \<lparr> integratorAccountIndex = stored_number props ''integratorAccountIndex'',
                    integratorMakerFee = stored_number props ''integratorMakerFee'',
                    integratorTakerFee = stored_number props ''integratorTakerFee'' \<rparr>"
      by (auto simp: readLighterOrderFeeTerms_def result_simps Let_def simp del: join_with.simps)
    from a f show ?thesis
      unfolding assertLighterIntegratorFees_iff r option.case ObjectValue by (auto dest: num)
  qed (use assms in \<open>auto simp: readLighterOrderFeeTerms_def\<close>)
qed

theorem fee_terms_never_default_to_zero_witness:
  "case Some \<lparr> integratorAccountIndex = JsInt 743799, integratorMakerFee = JsInt 1000,
               integratorTakerFee = JsInt 1000 \<rparr> of
      None \<Rightarrow> False
    | Some f \<Rightarrow> integratorMakerFee f = JsInt 1000"
proof -
  let ?v = "ObjectValue [(''integratorAccountIndex'', Some (JsInt 743799)),
     (''integratorMakerFee'', Some (JsInt 1000)), (''integratorTakerFee'', Some (JsInt 1000))]"
  have "readLighterOrderFeeTerms ?v = Inr (Some \<lparr> integratorAccountIndex = JsInt 743799,
          integratorMakerFee = JsInt 1000, integratorTakerFee = JsInt 1000 \<rparr>)"
    by (simp add: readLighterOrderFeeTerms_def stored_number_def assertLighterIntegratorFees_def
        safe_in_range_def integer_in_range_def fee_constants max_safe_integer_def)
  from fee_terms_never_default_to_zero [OF this] show ?thesis by simp
qed

text \<open>
  The estimated fee of an order is exact: the printed decimal stands for the amount times
  the ticks over a million, at the amount's own decimals, with nothing rounded.
\<close>

theorem fee_estimate_exact:
  assumes "estimateLighterOrderFee amount (JsInt d) (JsInt ticks) = Inr s"
  shows "text_value s = of_nat (digits_val amount) / 10 ^ nat d * (of_int ticks / of_int LIGHTER_FEE_TICK)"
proof -
  from assms have s: "s = formatFeeInteger (digits_val amount * nat ticks) (nat d + 6)" and "0 \<le> ticks"
    by (auto simp: estimateLighterOrderFee_def lighterFeePercent_def result_simps safe_in_range_def)
  then show ?thesis
    by (simp add: formatFeeInteger_value power_add fee_constants)
qed

theorem fee_estimate_exact_witness:
  "text_value ''45.0015'' = of_nat (digits_val ''45001500000'') / 10 ^ nat 6 * (of_int 1000 / of_int LIGHTER_FEE_TICK)"
  by (rule fee_estimate_exact)
    (simp add: estimateLighterOrderFee_def lighterFeePercent_def formatFeeInteger_def
      safe_in_range_def integer_in_range_def max_safe_integer_def text_eval)

text \<open>
  An order is prepared with fees only when the account has approved them: an eligible
  tier, exactly one approval for the collector, not expired (it ends strictly after now), covering all four rates.
\<close>

theorem fee_allowance_requires_live_approval:
  assumes "assertLighterFeeAllowance policy account code tier now = Inr ()"
  shows "code = JsInt 200 \<and> to_lower tier \<in> {''plus'', ''premium''}
    \<and> (\<exists>entries entry. acct_approved_integrators account = Some entries
         \<and> filter (\<lambda>e. ai_account_index e = JsInt (fp_collectorAccountIndex policy)) entries = [entry]
         \<and> (\<forall>t. ai_approval_expiry entry = JsInt t \<longrightarrow> now < t)
         \<and> \<not> js_less (ai_max_perps_maker_fee entry) (fp_perpsMakerFee policy)
         \<and> \<not> js_less (ai_max_perps_taker_fee entry) (fp_perpsTakerFee policy)
         \<and> \<not> js_less (ai_max_spot_maker_fee entry) (fp_spotMakerFee policy)
         \<and> \<not> js_less (ai_max_spot_taker_fee entry) (fp_spotTakerFee policy))"
proof -
  from assms obtain entries where e: "acct_approved_integrators account = Some entries"
    by (auto simp: assertLighterFeeAllowance_def result_simps Let_def split: option.splits)
  let ?m = "filter (\<lambda>e. ai_account_index e = JsInt (fp_collectorAccountIndex policy)) entries"
  from assms e obtain entry where m: "?m = [entry]"
    by (auto simp: assertLighterFeeAllowance_def result_simps Let_def split: list.splits)
  with assms e show ?thesis
    by (auto simp: assertLighterFeeAllowance_def result_simps Let_def)
qed

definition sample_policy :: fee_policy where
  "sample_policy = \<lparr> fp_environment = Core, fp_collectorAccountIndex = 743799,
     fp_collectorL1Address = ''0x10ce97cf3142be2a1a28ac83a55b21fdce493c03'',
     fp_perpsMakerFee = 1000, fp_perpsTakerFee = 1000, fp_spotMakerFee = 2500, fp_spotTakerFee = 2500 \<rparr>"

definition sample_entry :: approved_integrator where
  "sample_entry = \<lparr> ai_account_index = JsInt 743799, ai_approval_expiry = JsInt 2000,
     ai_max_perps_maker_fee = JsInt 1000, ai_max_perps_taker_fee = JsInt 1000,
     ai_max_spot_maker_fee = JsInt 2500, ai_max_spot_taker_fee = JsInt 3000 \<rparr>"

definition sample_approving_account :: lighter_account where
  "sample_approving_account = \<lparr> acct_index = Some (JsInt 7), acct_account_index = None,
     acct_l1_address = None, acct_approved_integrators = Some [sample_entry],
     acct_positions = None, acct_assets = None \<rparr>"

theorem fee_allowance_requires_live_approval_witness:
  "\<exists>entries entry. acct_approved_integrators sample_approving_account = Some entries
     \<and> filter (\<lambda>e. ai_account_index e = JsInt 743799) entries = [entry]
     \<and> \<not> js_less (ai_max_spot_taker_fee entry) 2500"
proof -
  have "assertLighterFeeAllowance sample_policy sample_approving_account (JsInt 200) ''Premium'' 1999 = Inr ()"
    by (simp add: assertLighterFeeAllowance_def sample_policy_def sample_approving_account_def
        sample_entry_def char_of_def bit_0 text_eval)
  from fee_allowance_requires_live_approval [OF this] show ?thesis
    by (auto simp: sample_policy_def)
qed

text \<open>
  The two collectors of the release resolve to policies whose fees every later check of the
  order accepts, on both deployments and both market types.
\<close>

theorem release_fees_pass_every_check:
  "\<exists>p f. getLighterFeePolicy env = Inr (Some p)
     \<and> fp_environment p = env
     \<and> getLighterIntegratorFees p (if spot then ''spot'' else ''perp'') = Inr f
     \<and> assertLighterIntegratorFees f = Inr ()
     \<and> readLighterOrderFeeTerms (ObjectValue
          [(''integratorTakerFee'', Some (integratorTakerFee f)),
           (''integratorAccountIndex'', Some (integratorAccountIndex f)),
           (''integratorMakerFee'', Some (integratorMakerFee f))]) = Inr (Some f)"
  by (cases env; cases spot)
    (simp_all add: getLighterFeePolicy_def resolveLighterFeePolicy_def COLLECTORS_def
      l1_address_shape_def zero_l1_address_def getLighterIntegratorFees_def
      readLighterOrderFeeTerms_def stored_number_def assertLighterIntegratorFees_def
      safe_in_range_def integer_in_range_def fee_constants max_safe_integer_def text_eval)

end
