(* ===== verification/MarginFraction.thy ===== *)
theory MarginFraction
  imports JsText
begin

text \<open>
  The unit of initial-margin fractions, \<open>src/src/tools/lighter/margin-fraction.ts\<close>: an
  integer on the scale 10000, where 10000 means that the whole position is margin. The
  theory holds the conversions from the percent text of the account endpoint, from a
  leverage, and to the leverage a user reads, and the direction each of them rounds in.
\<close>

datatype margin_refusal =
    UnknownMarginMode
  | NonTextualFraction
  | UnreadableFraction
  | FractionOutsideReadableRange
  | FractionOutsidePercentRange
  | LeverageOutOfRange
  | FractionNotOnScale

datatype margin_mode = Cross | Isolated

definition LIGHTER_MARGIN_FRACTION_TICK :: nat where
  "LIGHTER_MARGIN_FRACTION_TICK = 10000"

definition MINIMUM_INITIAL_MARGIN_FRACTION :: nat where
  "MINIMUM_INITIAL_MARGIN_FRACTION = 1"

definition PERCENT_DECIMALS :: nat where
  "PERCENT_DECIMALS = 2"

definition PERCENT_SCALE :: nat where
  "PERCENT_SCALE = 100"

lemmas margin_constants =
  LIGHTER_MARGIN_FRACTION_TICK_def MINIMUM_INITIAL_MARGIN_FRACTION_def
  PERCENT_DECIMALS_def PERCENT_SCALE_def

fun margin_mode_wire :: "margin_mode \<Rightarrow> int" where
  "margin_mode_wire Cross = 0"
| "margin_mode_wire Isolated = 1"

definition marginModeFromWire :: "js_number \<Rightarrow> (margin_refusal, margin_mode) result" where
  "marginModeFromWire value =
     (case find (\<lambda>mode. value = JsInt (margin_mode_wire mode)) [Cross, Isolated] of
        Some mode \<Rightarrow> Inr mode
      | None \<Rightarrow> Inl UnknownMarginMode)"

text \<open>
  The percent text of a position row. \<open>None\<close> stands for a value that is not a string; the
  regular expression is \<open>^(\d+)(?:\.(\d{1,2}))?$\<close>.
\<close>

definition percent_shape :: "string \<Rightarrow> bool" where
  "percent_shape t =
     (whole_part t \<noteq> [] \<and> all_digits (whole_part t)
      \<and> (case fraction_part t of
           None \<Rightarrow> True
         | Some f \<Rightarrow> f \<noteq> [] \<and> length f \<le> 2 \<and> all_digits f))"

definition positionInitialMarginFractionToProviderScale ::
    "string option \<Rightarrow> (margin_refusal, nat) result" where
  "positionInitialMarginFractionToProviderScale percent =
     (case percent of
        None \<Rightarrow> Inl NonTextualFraction
      | Some text \<Rightarrow>
          bindE (requireE (percent_shape (trim text)) UnreadableFraction) (\<lambda>_.
          let whole = digits_val (whole_part (trim text));
              fraction = digits_val (pad_end PERCENT_DECIMALS (fraction_or_empty (trim text)))
          in bindE (requireE (int whole \<le> max_safe_integer) FractionOutsideReadableRange) (\<lambda>_.
             let scaled = whole * PERCENT_SCALE + fraction
             in bindE (requireE (MINIMUM_INITIAL_MARGIN_FRACTION \<le> scaled
                                 \<and> scaled \<le> LIGHTER_MARGIN_FRACTION_TICK)
                         FractionOutsidePercentRange) (\<lambda>_.
                Inr scaled))))"

definition leverageToInitialMarginFraction :: "js_number \<Rightarrow> (margin_refusal, nat) result" where
  "leverageToInitialMarginFraction leverage =
     bindE (requireE (is_safe_integer leverage \<and> 1 \<le> int_of_js leverage
                      \<and> int_of_js leverage \<le> int LIGHTER_MARGIN_FRACTION_TICK)
              LeverageOutOfRange) (\<lambda>_.
     let l = nat (int_of_js leverage)
     in Inr ((LIGHTER_MARGIN_FRACTION_TICK + l - 1) div l))"

definition initialMarginFractionToLeverageDisplay :: "js_number \<Rightarrow> (margin_refusal, string) result" where
  "initialMarginFractionToLeverageDisplay imf =
     bindE (requireE (is_integer imf \<and> int MINIMUM_INITIAL_MARGIN_FRACTION \<le> int_of_js imf
                      \<and> int_of_js imf \<le> int LIGHTER_MARGIN_FRACTION_TICK)
              FractionNotOnScale) (\<lambda>_.
     let scaled = (LIGHTER_MARGIN_FRACTION_TICK * PERCENT_SCALE) div nat (int_of_js imf);
         whole = scaled div PERCENT_SCALE;
         fraction = scaled mod PERCENT_SCALE
     in Inr (show_nat whole @ ''.'' @ pad_start PERCENT_DECIMALS (show_nat fraction)))"

section \<open>The conversions\<close>

lemma fraction_or_empty_digits: "percent_shape t \<Longrightarrow> all_digits (fraction_or_empty t)"
  by (auto simp: percent_shape_def fraction_or_empty_def split: option.splits)

lemma length_fraction_or_empty: "percent_shape t \<Longrightarrow> length (fraction_or_empty t) \<le> 2"
  by (auto simp: percent_shape_def fraction_or_empty_def split: option.splits)

text \<open>
  Reading a text at a fixed scale: whole part and padded fraction, as one digit string, are
  the value of the text times the scale.
\<close>

lemma scaled_text_value:
  assumes "length f \<le> d"
  shows "(of_nat (digits_val (w @ pad_end d f)) :: rat) = decimal_value w f * 10 ^ d"
proof -
  have "digits_val (w @ pad_end d f) = digits_val (w @ f) * 10 ^ (d - length f)"
    using digits_val_pad_end [of "w @ f" "d - length f"] by (simp add: pad_end_def)
  moreover have "(10::rat) ^ d = 10 ^ (d - length f) * 10 ^ length f"
    using assms by (simp flip: power_add)
  ultimately show ?thesis by (simp add: decimal_value_def)
qed

lemma position_fraction_value:
  assumes "positionInitialMarginFractionToProviderScale (Some s) = Inr n"
  shows "of_nat n = text_value (trim s) * 100 \<and> 1 \<le> n \<and> n \<le> 10000"
proof -
  let ?t = "trim s"
  from assms have shape: "percent_shape ?t"
    and n: "n = digits_val (whole_part ?t) * 100 + digits_val (pad_end 2 (fraction_or_empty ?t))"
    and range: "1 \<le> n" "n \<le> 10000"
    by (auto simp: positionInitialMarginFractionToProviderScale_def result_simps Let_def margin_constants)
  have len: "length (pad_end 2 (fraction_or_empty ?t)) = 2"
    using length_fraction_or_empty [OF shape] by (simp add: pad_end_def)
  have "n = digits_val (whole_part ?t @ pad_end 2 (fraction_or_empty ?t))"
    by (simp add: n digits_val_append len)
  then have "of_nat n = text_value ?t * 10 ^ 2"
    using scaled_text_value [OF length_fraction_or_empty [OF shape]] by (simp add: text_value_def)
  with range show ?thesis by simp
qed

lemma leverage_fraction_eq:
  assumes "leverageToInitialMarginFraction (JsInt l) = Inr f"
  shows "1 \<le> l \<and> l \<le> 10000 \<and> f = ceil_quotient 10000 (nat l)"
  using assms
  by (auto simp: leverageToInitialMarginFraction_def result_simps Let_def margin_constants
      ceil_quotient_def)

interpretation margin_ceil: rounds_up ceil_quotient
  by (rule ceil_quotient_rounds_up)

lemma leverage_fraction_bounds:
  assumes "leverageToInitialMarginFraction (JsInt l) = Inr f"
  shows "10000 \<le> f * nat l \<and> f * nat l < 10000 + nat l"
proof -
  from leverage_fraction_eq [OF assms] have "0 < nat l" "f = ceil_quotient 10000 (nat l)" by auto
  then show ?thesis using margin_ceil.covers margin_ceil.tight by simp
qed

lemma display_value:
  assumes "initialMarginFractionToLeverageDisplay (JsInt (int f)) = Inr s"
  shows "1 \<le> f \<and> f \<le> 10000 \<and> text_value s = of_nat (1000000 div f) / 100"
proof -
  let ?n = "1000000 div f"
  let ?w = "show_nat (?n div 100)" and ?g = "pad_start 2 (show_nat (?n mod 100))"
  from assms have f: "1 \<le> f" "f \<le> 10000" and s: "s = ?w @ CHR ''.'' # ?g"
    by (auto simp: initialMarginFractionToLeverageDisplay_def result_simps Let_def margin_constants)
  have "length (show_nat (?n mod 100)) \<le> Suc 1" by (rule length_show_nat_le) simp
  then have len: "length ?g = 2" by (simp add: pad_start_props)
  have "digits_val (?w @ ?g) = ?n"
    by (simp only: digits_val_append len pad_start_props(1) digits_val_show_nat) simp
  then have "decimal_value ?w ?g = of_nat ?n / 100" by (simp add: decimal_value_def len)
  with f s show ?thesis
    by (simp add: text_value_def parts_of_dotted fraction_or_empty_def)
qed

section \<open>Properties\<close>

text \<open>
  The account endpoint's percent text becomes the fraction on the scale 10000 exactly,
  with no rounding, and only within the scale: the integer is a hundred times the number the
  trimmed text stands for.
\<close>

theorem percent_text_to_fraction_exact:
  assumes "positionInitialMarginFractionToProviderScale (Some s) = Inr n"
  shows "of_nat n = text_value (trim s) * 100
    \<and> MINIMUM_INITIAL_MARGIN_FRACTION \<le> n \<and> n \<le> LIGHTER_MARGIN_FRACTION_TICK"
  using position_fraction_value [OF assms] by (simp add: margin_constants)

theorem percent_text_to_fraction_exact_witness:
  "of_nat 1250 = text_value (trim '' 12.5 '') * 100
    \<and> MINIMUM_INITIAL_MARGIN_FRACTION \<le> 1250 \<and> 1250 \<le> LIGHTER_MARGIN_FRACTION_TICK"
  by (rule percent_text_to_fraction_exact)
    (simp add: positionInitialMarginFractionToProviderScale_def percent_shape_def margin_constants
      max_safe_integer_def text_eval)

text \<open>
  A leverage setting never grants more leverage than the user asked for, and not a tick
  less than it has to: the fraction is the least integer on the scale whose leverage
  \<open>10000 / fraction\<close> is at most the requested one.
\<close>

theorem leverage_never_exceeds_request:
  assumes "leverageToInitialMarginFraction (JsInt l) = Inr f"
  shows "(of_nat LIGHTER_MARGIN_FRACTION_TICK :: rat) / of_nat f \<le> of_int l
    \<and> (\<forall>g. 0 < g \<and> (of_nat LIGHTER_MARGIN_FRACTION_TICK :: rat) / of_nat g \<le> of_int l \<longrightarrow> f \<le> g)"
proof -
  from leverage_fraction_eq [OF assms] have l: "0 < nat l" "(of_int l :: rat) = of_nat (nat l)" by auto
  from leverage_fraction_bounds [OF assms]
  have b: "10000 \<le> f * nat l" "f * nat l < 10000 + nat l" by auto
  then have f: "0 < f" by (cases f) auto
  have div: "(10000 :: rat) / of_nat g \<le> of_nat (nat l) \<longleftrightarrow> 10000 \<le> g * nat l" if "0 < g" for g
  proof -
    have "(10000 :: rat) / of_nat g \<le> of_nat (nat l) \<longleftrightarrow> (of_nat 10000 :: rat) \<le> of_nat (g * nat l)"
      using that by (simp add: divide_le_eq mult.commute)
    then show ?thesis by (simp only: of_nat_le_iff)
  qed
  have least: "f \<le> g" if "10000 \<le> g * nat l" for g
  proof -
    from b(2) that have "f * nat l < (g + 1) * nat l" by simp
    then have "f < g + 1" by (simp only: mult_less_cancel2)
    then show ?thesis by simp
  qed
  have "(10000 :: rat) / of_nat f \<le> of_nat (nat l)" by (simp only: div [OF f] b(1))
  moreover have "f \<le> g" if "0 < g" "(10000 :: rat) / of_nat g \<le> of_nat (nat l)" for g
    using that(2) by (intro least) (simp only: div [OF that(1)])
  ultimately show ?thesis
    by (simp only: LIGHTER_MARGIN_FRACTION_TICK_def l(2) of_nat_numeral) blast
qed

theorem leverage_never_exceeds_request_witness:
  "(of_nat LIGHTER_MARGIN_FRACTION_TICK :: rat) / of_nat 3334 \<le> of_int 3 \<and> 3334 \<le> (3335 :: nat)"
proof -
  have "leverageToInitialMarginFraction (JsInt 3) = Inr 3334"
    by (simp add: leverageToInitialMarginFraction_def margin_constants max_safe_integer_def)
  from leverage_never_exceeds_request [OF this]
  have "(of_nat LIGHTER_MARGIN_FRACTION_TICK :: rat) / of_nat 3334 \<le> of_int 3"
    and least: "\<And>g. 0 < g \<Longrightarrow> (of_nat LIGHTER_MARGIN_FRACTION_TICK :: rat) / of_nat g \<le> of_int 3 \<Longrightarrow> 3334 \<le> g"
    by blast+
  moreover have "3334 \<le> (3335 :: nat)" by (rule least) (simp_all add: margin_constants)
  ultimately show ?thesis by blast
qed

text \<open>
  The leverage a user reads is the exact leverage of the fraction, cut to two decimals,
  never rounded up.
\<close>

theorem displayed_leverage_truncates:
  assumes "initialMarginFractionToLeverageDisplay (JsInt (int f)) = Inr s"
  shows "text_value s \<le> 10000 / of_nat f \<and> 10000 / of_nat f < text_value s + 1 / 100"
proof -
  define k where "k = 1000000 div f"
  from display_value [OF assms] have f: "0 < f" and v: "text_value s = of_nat k / 100"
    by (auto simp: k_def)
  have "k * f \<le> 1000000" by (simp add: k_def)
  then have "(of_nat (k * f) :: rat) \<le> of_nat 1000000" by (simp only: of_nat_le_iff)
  then have 1: "(of_nat k :: rat) * of_nat f \<le> 1000000" by simp
  have "1000000 < (k + 1) * f"
    unfolding k_def using f by (metis Suc_eq_plus1 dividend_less_div_times mult_Suc)
  then have "(of_nat 1000000 :: rat) < of_nat ((k + 1) * f)" by (simp only: of_nat_less_iff)
  then have 2: "(1000000 :: rat) < (of_nat k + 1) * of_nat f" by (simp add: algebra_simps)
  have p: "(0 :: rat) < of_nat f" using f by simp
  have "of_nat k / 100 \<le> (10000 :: rat) / of_nat f"
    using 1 p by (simp only: le_divide_eq if_True)
  moreover have "(10000 :: rat) / of_nat f < of_nat k / 100 + 1 / 100"
    using 2 p by (simp only: divide_less_eq if_True) (simp add: algebra_simps)
  ultimately show ?thesis by (simp add: v)
qed

theorem displayed_leverage_truncates_witness:
  "text_value ''2.99'' \<le> 10000 / of_nat 3334 \<and> 10000 / of_nat 3334 < text_value ''2.99'' + 1 / 100"
  by (rule displayed_leverage_truncates)
    (simp add: initialMarginFractionToLeverageDisplay_def margin_constants text_eval)

end
