(* ===== verification/OrderDecimals.thy ===== *)
theory OrderDecimals
  imports LighterFees MarginFraction
begin

text \<open>
  The decimal arithmetic of the order preview (\<open>src/src/tools/lighter/order-preview.ts\<close>) and
  the refusals of that module: decimal texts to integers at a market's scale and back,
  comparison and subtraction of decimal texts, division that rounds up, the best price of a
  book side. Every function is related to the rational number its text stands for.
\<close>

section \<open>Refusals\<close>

datatype preview_refusal =
    MissingSessionId
  | AccountIndexInvalid
  | ApiKeyIndexInvalid
  | MarketIdInvalid
  | ClientOrderPolicyMissing
  | StoredFeesRefused fee_refusal
  | OtherMarketReturned
  | MarketNotActive
  | MarketOutsideSigningRange
  | AccountNotReturned
  | MarketScaleMismatch
  | ExpiryNotInteger
  | ExpiryOutsideWindow
  | OrderPolicyRefused policy_refusal
  | ProtectiveOnSpot
  | ProtectiveNotReduceOnly
  | ProtectiveWithoutTrigger
  | TriggerOnOrdinaryOrder
  | DecimalsOutOfRange string
  | NotDecimal string
  | TooManyDecimals string
  | NotPositive string
  | DisplayDecimalsOutOfRange
  | PriceAboveWire
  | TriggerAboveWire
  | BaseAboveWire
  | BaseBelowMinimum
  | QuoteBelowMinimum
  | SpotReduceOnly
  | SpotInventoryMissing
  | SpotAssetNotUnique
  | SpotFeeNotPercentage
  | AccountFeeNotTicks
  | SpotBalanceTooSmall string string
  | InventoryNotDecimal
  | LockedAboveTotal
  | InventoryInvalid
  | ReduceOnlyUnverified
  | PositionSizeUnknown
  | SizeExceedsPosition
  | TriggerUnavailable
  | NoReferencePrice
  | TriggerWrongDirection
  | BoundBeyondTrigger
  | PostOnlyNotResting

section \<open>Decimal arithmetic\<close>

definition divideCeil :: "nat \<Rightarrow> nat \<Rightarrow> nat" where
  "divideCeil numerator denominator =
     (if numerator = 0 then 0 else (numerator - 1) div denominator + 1)"

definition decimalToLighterInteger ::
    "string \<Rightarrow> js_number \<Rightarrow> string \<Rightarrow> bool \<Rightarrow> (preview_refusal, nat) result" where
  "decimalToLighterInteger value decimals field allowZero =
     bindE (requireE (integer_in_range decimals 0 18) (DecimalsOutOfRange field)) (\<lambda>_.
     let d = nat (int_of_js decimals); trimmed = trim value in
     bindE (requireE (plain_decimal trimmed) (NotDecimal field)) (\<lambda>_.
     let whole = whole_part trimmed;
         strippedFraction = strip_trailing_zeros (fraction_or_empty trimmed) in
     bindE (requireE (length strippedFraction \<le> d) (TooManyDecimals field)) (\<lambda>_.
     let integer = digits_val (strip_leading_zeros (whole @ pad_end d strippedFraction)) in
     bindE (requireE (\<not> (integer = 0 \<and> \<not> allowZero)) (NotPositive field)) (\<lambda>_.
     Inr integer))))"

definition formatInteger :: "int \<Rightarrow> nat \<Rightarrow> string" where
  "formatInteger value decimals =
     (if decimals = 0 then show_int value
      else
        let negative = value < 0;
            absolute = nat (if negative then - value else value);
            raw = pad_start (decimals + 1) (show_nat absolute);
            whole = slice_front decimals raw;
            fraction = strip_trailing_zeros (slice_back decimals raw)
        in (if negative then ''-'' else '''') @ whole
           @ (if length fraction = 0 then '''' else ''.'' @ fraction))"

definition formatLighterIntegerAmount :: "int \<Rightarrow> js_number \<Rightarrow> (preview_refusal, string) result" where
  "formatLighterIntegerAmount value decimals =
     bindE (requireE (integer_in_range decimals 0 18) DisplayDecimalsOutOfRange) (\<lambda>_.
     Inr (formatInteger value (nat (int_of_js decimals))))"

text \<open>\<open>decimalParts\<close> is the integer of the digits and the number of decimals.\<close>

definition decimalParts :: "string \<Rightarrow> (nat \<times> nat) option" where
  "decimalParts value =
     (let trimmed = trim value
      in if \<not> plain_decimal trimmed then None
         else
           let whole = whole_part trimmed; fraction = fraction_or_empty trimmed
           in Some (digits_val (strip_leading_zeros (whole @ fraction)), length fraction))"

definition compareDecimalStrings :: "string \<Rightarrow> string \<Rightarrow> int" where
  "compareDecimalStrings left right =
     (case (decimalParts left, decimalParts right) of
        (Some (i, s), Some (j, t)) \<Rightarrow>
          let scale = max s t;
              leftInteger = i * 10 ^ (scale - s);
              rightInteger = j * 10 ^ (scale - t)
          in if leftInteger \<noteq> rightInteger then (if leftInteger < rightInteger then - 1 else 1) else 0
      | _ \<Rightarrow> 0)"

definition subtractDecimalStrings :: "string \<Rightarrow> string \<Rightarrow> (preview_refusal, string) result" where
  "subtractDecimalStrings left right =
     (case (decimalParts left, decimalParts right) of
        (Some (i, s), Some (j, t)) \<Rightarrow>
          let scale = max s t;
              leftInteger = i * 10 ^ (scale - s);
              rightInteger = j * 10 ^ (scale - t)
          in if rightInteger > leftInteger then Inl LockedAboveTotal
             else Inr (formatInteger (int (leftInteger - rightInteger)) scale)
      | _ \<Rightarrow> Inl InventoryNotDecimal)"

definition normalizeDecimalString :: "string \<Rightarrow> (preview_refusal, string) result" where
  "normalizeDecimalString value =
     (case decimalParts value of
        None \<Rightarrow> Inl InventoryInvalid
      | Some (i, s) \<Rightarrow> Inr (formatInteger (int i) s))"

text \<open>A value that is a string with something other than white space in it; \<open>None\<close> is no string.\<close>

definition stringValue :: "string option \<Rightarrow> string option" where
  "stringValue value =
     (case value of
        None \<Rightarrow> None
      | Some text \<Rightarrow> if 0 < length (trim text) then Some (trim text) else None)"

text \<open>
  \<open>Array.prototype.sort\<close> with a comparison function. The language fixes the result when the
  comparison is consistent, as a stable sort; the model inserts from the left.
\<close>

fun insort_by :: "('a \<Rightarrow> 'a \<Rightarrow> int) \<Rightarrow> 'a \<Rightarrow> 'a list \<Rightarrow> 'a list" where
  "insort_by cmp x [] = [x]"
| "insort_by cmp x (y # ys) = (if cmp x y \<le> 0 then x # y # ys else y # insort_by cmp x ys)"

definition sort_by :: "('a \<Rightarrow> 'a \<Rightarrow> int) \<Rightarrow> 'a list \<Rightarrow> 'a list" where
  "sort_by cmp xs = foldr (insort_by cmp) xs []"

datatype book_side = Ask | Bid

definition bestPrice :: "string option list \<Rightarrow> book_side \<Rightarrow> string option" where
  "bestPrice orders side =
     (let prices = List.map_filter stringValue orders
      in if length prices = 0 then None
         else (case sort_by (\<lambda>a b. compareDecimalStrings a b * (if side = Ask then 1 else - 1)) prices of
                 p # _ \<Rightarrow> Some p
               | [] \<Rightarrow> None))"

section \<open>What a decimal text is worth\<close>

lemma plain_decimal_digits:
  assumes "plain_decimal t"
  shows "all_digits (whole_part t)" "all_digits (fraction_or_empty t)"
  using assms
  by (auto simp: plain_decimal_def fraction_or_empty_def canonical_nat_digits split: option.splits)

lemma divideCeil_rounds_up: "rounds_up divideCeil"
proof
  fix d n :: nat
  assume d: "0 < d"
  have n: "n - 1 < ((n - 1) div d + 1) * d"
    using d by (metis Suc_eq_plus1 dividend_less_div_times mult_Suc)
  show "n \<le> divideCeil n d * d"
    using n by (cases n) (simp_all add: divideCeil_def)
  show "divideCeil n d * d < n + d"
  proof (cases n)
    case 0
    with d show ?thesis by (simp add: divideCeil_def)
  next
    case (Suc m)
    have "m div d * d \<le> m" by (rule div_times_less_eq_dividend)
    then have "m div d * d < Suc m" by (rule le_imp_less_Suc)
    then show ?thesis by (simp add: divideCeil_def Suc)
  qed
qed

interpretation preview_ceil: rounds_up divideCeil
  by (rule divideCeil_rounds_up)

text \<open>Three modules round up, each with code of its own, and agree.\<close>

lemma divideCeil_eq: "0 < d \<Longrightarrow> divideCeil n d = ceil_quotient n d"
  by (simp add: preview_ceil.div_eq margin_ceil.div_eq)

lemma decimalParts_value:
  assumes "decimalParts s = Some (i, k)"
  shows "text_value (trim s) = of_nat i / 10 ^ k"
  using assms
  by (auto simp: decimalParts_def Let_def digits_val_strip_leading text_value_def decimal_value_def
      split: if_splits)

lemma decimalParts_None_iff: "decimalParts s = None \<longleftrightarrow> \<not> plain_decimal (trim s)"
  by (simp add: decimalParts_def Let_def)

lemma common_scale:
  fixes i j s t :: nat
  shows "(i * 10 ^ (max s t - s) < j * 10 ^ (max s t - t))
     \<longleftrightarrow> (of_nat i / 10 ^ s :: rat) < of_nat j / 10 ^ t" (is "?L \<longleftrightarrow> ?R")
proof -
  have p: "(10 :: rat) ^ max s t = 10 ^ (max s t - u) * 10 ^ u" if "u \<le> max s t" for u
    using that by (simp flip: power_add)
  have "?L \<longleftrightarrow> (of_nat (i * 10 ^ (max s t - s)) :: rat) < of_nat (j * 10 ^ (max s t - t))"
    by (simp only: of_nat_less_iff)
  also have "\<dots> \<longleftrightarrow> of_nat i / 10 ^ s * 10 ^ max s t < of_nat j / 10 ^ t * (10 ^ max s t :: rat)"
  proof -
    have "(of_nat (i * 10 ^ (max s t - s)) :: rat) = of_nat i / 10 ^ s * 10 ^ max s t"
      using p [of s] by simp
    moreover have "(of_nat (j * 10 ^ (max s t - t)) :: rat) = of_nat j / 10 ^ t * 10 ^ max s t"
      using p [of t] by simp
    ultimately show ?thesis by (simp only:)
  qed
  also have "\<dots> \<longleftrightarrow> ?R" by (rule mult_less_cancel_right_pos) simp
  finally show ?thesis .
qed

lemma compareDecimalStrings_cases:
  assumes "plain_decimal (trim a)" "plain_decimal (trim b)"
  shows "compareDecimalStrings a b =
    (if text_value (trim a) < text_value (trim b) then - 1
     else if text_value (trim b) < text_value (trim a) then 1 else 0)"
proof -
  obtain i s where a: "decimalParts a = Some (i, s)"
    using assms(1) decimalParts_None_iff [of a] by (cases "decimalParts a") auto
  obtain j t where b: "decimalParts b = Some (j, t)"
    using assms(2) decimalParts_None_iff [of b] by (cases "decimalParts b") auto
  let ?l = "i * 10 ^ (max s t - s)" and ?r = "j * 10 ^ (max s t - t)"
  have lt: "?l < ?r \<longleftrightarrow> text_value (trim a) < text_value (trim b)"
    by (simp only: decimalParts_value [OF a] decimalParts_value [OF b] common_scale)
  have "j * 10 ^ (max t s - t) < i * 10 ^ (max t s - s) \<longleftrightarrow> text_value (trim b) < text_value (trim a)"
    by (simp only: decimalParts_value [OF a] decimalParts_value [OF b] common_scale)
  then have gt: "?r < ?l \<longleftrightarrow> text_value (trim b) < text_value (trim a)"
    by (simp only: max.commute)
  show ?thesis
    unfolding compareDecimalStrings_def a b option.case prod.case Let_def
    using lt gt by (auto simp: neq_iff)
qed

lemma decimalToLighterInteger_value:
  assumes "decimalToLighterInteger s (JsInt d) nm z = Inr n"
  shows "0 \<le> d \<and> d \<le> 18 \<and> plain_decimal (trim s) \<and> of_nat n = text_value (trim s) * 10 ^ nat d \<and> (z \<or> 0 < n)"
proof -
  let ?t = "trim s" and ?g = "strip_trailing_zeros (fraction_or_empty (trim s))"
  from assms have d: "0 \<le> d" "d \<le> 18" "plain_decimal ?t" and len: "length ?g \<le> nat d"
    and n: "n = digits_val (whole_part ?t @ pad_end (nat d) ?g)" and z: "z \<or> 0 < n"
    by (auto simp: decimalToLighterInteger_def result_simps Let_def integer_in_range_def
        digits_val_strip_leading)
  from scaled_text_value [OF len, of "whole_part ?t"] n
  have "of_nat n = decimal_value (whole_part ?t) ?g * 10 ^ nat d" by simp
  then have "of_nat n = text_value ?t * 10 ^ nat d" by (simp add: decimal_value_strip text_value_def)
  with d z show ?thesis by blast
qed

lemma formatInteger_split:
  assumes "0 < d"
  shows "formatInteger (int n) d
    = (let w = slice_front d (scaled_digits d n); f = strip_trailing_zeros (slice_back d (scaled_digits d n))
       in if f = [] then w else w @ CHR ''.'' # f)"
  using assms by (simp add: formatInteger_def scaled_digits_def Let_def)

lemma formatInteger_plain:
  "plain_decimal (formatInteger (int n) d)
   \<and> trim (formatInteger (int n) d) = formatInteger (int n) d
   \<and> text_value (formatInteger (int n) d) = of_nat n / 10 ^ d
   \<and> length (fraction_or_empty (formatInteger (int n) d)) \<le> d"
proof (cases "d = 0")
  case True
  have "formatInteger (int n) d = show_nat n" by (simp add: True formatInteger_def show_int_def)
  then show ?thesis
    by (simp add: True plain_decimal_def whole_part_digits fraction_part_digits fraction_or_empty_def
        text_value_def decimal_value_def)
next
  case False
  let ?w = "slice_front d (scaled_digits d n)" and ?b = "slice_back d (scaled_digits d n)"
  let ?f = "strip_trailing_zeros ?b"
  have w: "canonical_nat ?w" by (simp add: slice_front_scaled)
  have f: "all_digits ?f" by (rule all_digits_strip_trailing) simp
  have len: "length ?f \<le> d" using length_strip_trailing [of ?b] by simp
  have v: "decimal_value ?w ?f = of_nat n / 10 ^ d"
    by (simp only: decimal_value_strip decimal_value_scaled)
  show ?thesis
  proof (cases "?f = []")
    case True
    then have e: "formatInteger (int n) d = ?w" using False by (simp add: formatInteger_split)
    show ?thesis unfolding e using w v True
      by (simp add: plain_decimal_def whole_part_digits fraction_part_digits fraction_or_empty_def
          text_value_def)
  next
    case f0: False
    then have e: "formatInteger (int n) d = ?w @ CHR ''.'' # ?f"
      using False by (simp add: formatInteger_split)
    have p: "whole_part (?w @ CHR ''.'' # ?f) = ?w" "fraction_part (?w @ CHR ''.'' # ?f) = Some ?f"
      by (simp_all add: parts_of_dotted)
    show ?thesis unfolding e using w v f len f0 p decimal_no_space [of ?w ?f]
      by (simp add: plain_decimal_def fraction_or_empty_def text_value_def)
  qed
qed

end
