(* ===== verification/JsonText.thy ===== *)
theory JsonText
  imports JsText
begin

text \<open>
  \<open>JSON.stringify\<close> of strings and of arrays of strings, for code units below 256: the text
  determines the strings, and holds no control character, so none of the line framing that is
  built on it can be broken by what it carries.
\<close>

section \<open>Encoding\<close>

definition hex_char :: "nat \<Rightarrow> char" where
  "hex_char d = (if d < 10 then char_of (48 + d) else char_of (87 + d))"

definition json_char :: "char \<Rightarrow> string" where
  "json_char c =
     (let u = code_unit c; backslash = CHR 0x5C in
      if u = 34 \<or> u = 92 then [backslash, c]
      else if u = 8 then [backslash, CHR ''b'']
      else if u = 9 then [backslash, CHR ''t'']
      else if u = 10 then [backslash, CHR ''n'']
      else if u = 12 then [backslash, CHR ''f'']
      else if u = 13 then [backslash, CHR ''r'']
      else if u < 32 then [backslash, CHR ''u'', CHR ''0'', CHR ''0'', hex_char (u div 16), hex_char (u mod 16)]
      else [c])"

definition json_string :: "string \<Rightarrow> string" where
  "json_string s = CHR 0x22 # concat (map json_char s) @ [CHR 0x22]"

definition json_string_array :: "string list \<Rightarrow> string" where
  "json_string_array xs = ''['' @ join_with '','' (map json_string xs) @ '']''"

section \<open>The JSON text determines the strings\<close>

text \<open>Reading one character back, as a JSON parser does.\<close>

definition unhex :: "char \<Rightarrow> nat" where
  "unhex c = (if code_unit c < 58 then code_unit c - 48 else code_unit c - 87)"

definition json_unescape :: "char \<Rightarrow> char" where
  "json_unescape e =
     (if e = CHR ''b'' then char_of (8::nat) else if e = CHR ''t'' then char_of (9::nat)
      else if e = CHR ''n'' then char_of (10::nat) else if e = CHR ''f'' then char_of (12::nat)
      else if e = CHR ''r'' then char_of (13::nat) else e)"

fun json_read :: "string \<Rightarrow> (char \<times> string) option" where
  "json_read [] = None"
| "json_read (c # r) =
     (if c = CHR 0x5C then
        (case r of
           e # r' \<Rightarrow>
             if e = CHR ''u'' then
               (case r' of
                  _ # _ # a # b # r'' \<Rightarrow> Some (char_of (unhex a * 16 + unhex b), r'')
                | _ \<Rightarrow> None)
             else Some (json_unescape e, r')
         | [] \<Rightarrow> None)
      else Some (c, r))"

lemma unhex_hex_char: "d < 16 \<Longrightarrow> unhex (hex_char d) = d"
  by (simp add: unhex_def hex_char_def code_unit_def)

lemma char_eq_iff_code: "c = CHR 0x22 \<longleftrightarrow> code_unit c = 34" "c = CHR 0x5C \<longleftrightarrow> code_unit c = 92"
  "c = CHR ''b'' \<longleftrightarrow> code_unit c = 98" "c = CHR ''t'' \<longleftrightarrow> code_unit c = 116"
  "c = CHR ''n'' \<longleftrightarrow> code_unit c = 110" "c = CHR ''f'' \<longleftrightarrow> code_unit c = 102"
  "c = CHR ''r'' \<longleftrightarrow> code_unit c = 114" "c = CHR ''u'' \<longleftrightarrow> code_unit c = 117"
  using code_unit_inject [of c "CHR 0x22"] code_unit_inject [of c "CHR 0x5C"]
    code_unit_inject [of c "CHR ''b''"] code_unit_inject [of c "CHR ''t''"]
    code_unit_inject [of c "CHR ''n''"] code_unit_inject [of c "CHR ''f''"]
    code_unit_inject [of c "CHR ''r''"] code_unit_inject [of c "CHR ''u''"]
  by (simp_all add: code_unit_def)

lemma char_of_code_unit: "char_of (code_unit c) = c"
  by (simp add: code_unit_def)

lemma json_read_char: "json_read (json_char c @ r) = Some (c, r)"
proof -
  let ?u = "code_unit c"
  consider "?u = 34 \<or> ?u = 92" | "?u \<in> {8, 9, 10, 12, 13}" | "?u < 32" "?u \<notin> {8, 9, 10, 12, 13}"
    | "\<not> ?u < 32" "?u \<noteq> 34" "?u \<noteq> 92"
    by blast
  then show ?thesis
  proof cases
    case 1
    then show ?thesis
      by (auto simp: json_char_def Let_def json_unescape_def char_eq_iff_code)
  next
    case 2
    have table: "json_read (json_char (char_of k) @ r) = Some (char_of k, r)"
      if "k \<in> {8, 9, 10, 12, 13}" for k :: nat
      using that by (elim insertE) (simp_all add: json_char_def Let_def json_unescape_def code_unit_def)
    show ?thesis using table [OF 2] by (simp only: char_of_code_unit)
  next
    case 3
    then have "?u div 16 * 16 + ?u mod 16 = ?u" "?u div 16 < 16" "?u mod 16 < 16" by auto
    then have "char_of (unhex (hex_char (?u div 16)) * 16 + unhex (hex_char (?u mod 16))) = c"
      by (simp only: unhex_hex_char char_of_code_unit)
    with 3 show ?thesis by (simp add: json_char_def Let_def)
  next
    case 4
    then show ?thesis by (simp add: json_char_def Let_def char_eq_iff_code)
  qed
qed

lemma json_char_inject: "json_char c @ r = json_char d @ s \<Longrightarrow> c = d \<and> r = s"
  by (metis json_read_char option.inject prod.inject)

lemma json_char_no_quote: "json_char c @ r \<noteq> CHR 0x22 # s"
proof
  assume e: "json_char c @ r = CHR 0x22 # s"
  have "json_read (CHR 0x22 # s) = Some (CHR 0x22, s)" by simp
  with json_read_char [of c r] e have "c = CHR 0x22" by simp
  moreover have "json_char (CHR 0x22) = [CHR 0x5C, CHR 0x22]"
    by (simp add: json_char_def code_unit_def)
  ultimately show False using e by simp
qed

text \<open>A string body ends at the first bare quote, so what follows is determined too.\<close>

lemma json_body_inject:
  "concat (map json_char s) @ CHR 0x22 # r = concat (map json_char t) @ CHR 0x22 # q \<Longrightarrow> s = t \<and> r = q"
proof (induction s arbitrary: t)
  case Nil
  show ?case
  proof (cases t)
    case t: (Cons d t')
    from Nil have "json_char d @ (concat (map json_char t') @ CHR 0x22 # q) = CHR 0x22 # r"
      by (simp only: t list.map concat.simps append_assoc append_Nil)
    then show ?thesis by (simp only: json_char_no_quote)
  qed (use Nil in simp)
next
  case (Cons c s)
  show ?case
  proof (cases t)
    case Nil
    with Cons.prems have "json_char c @ (concat (map json_char s) @ CHR 0x22 # r) = CHR 0x22 # q"
      by (simp only: list.map concat.simps append_assoc append_Nil)
    then show ?thesis by (simp only: json_char_no_quote)
  next
    case t: (Cons d t')
    with Cons.prems have "json_char c @ (concat (map json_char s) @ CHR 0x22 # r)
        = json_char d @ (concat (map json_char t') @ CHR 0x22 # q)"
      by (simp only: list.map concat.simps append_assoc)
    from json_char_inject [OF this] Cons.IH t show ?thesis by blast
  qed
qed

lemma json_string_inject: "json_string s @ r = json_string t @ q \<longleftrightarrow> s = t \<and> r = q"
  using json_body_inject [of s r t q] by (auto simp: json_string_def)

lemma join_json_cases:
  "join_with '','' (map json_string (x # xs))
   = json_string x @ (if xs = [] then [] else '','' @ join_with '','' (map json_string xs))"
  by (cases xs) simp_all

lemma json_join_inject:
  "join_with '','' (map json_string xs) @ '']'' = join_with '','' (map json_string ys) @ '']''
     \<Longrightarrow> xs = ys"
proof (induction xs arbitrary: ys)
  case Nil
  show ?case
  proof (cases ys)
    case (Cons y zs)
    from Nil have "'']'' = json_string y @ (if zs = [] then [] else '','' @ join_with '','' (map json_string zs)) @ '']''"
      by (simp only: Cons join_json_cases append_assoc) simp
    then show ?thesis by (simp add: json_string_def)
  qed simp
next
  case (Cons x xs)
  show ?case
  proof (cases ys)
    case Nil
    from Cons.prems have "json_string x @ (if xs = [] then [] else '','' @ join_with '','' (map json_string xs)) @ '']'' = '']''"
      by (simp only: Nil join_json_cases append_assoc) simp
    then show ?thesis by (simp add: json_string_def)
  next
    case ys: (Cons y zs)
    let ?rest = "\<lambda>us. (if us = [] then [] else '','' @ join_with '','' (map json_string us)) @ '']''"
    have "json_string x @ ?rest xs = json_string y @ ?rest zs"
      using Cons.prems by (simp only: ys join_json_cases append_assoc)
    then have "x = y" and r: "?rest xs = ?rest zs" by (simp_all only: json_string_inject)
    have "xs = zs"
    proof (cases "xs = [] \<or> zs = []")
      case True
      with r show ?thesis by (auto split: if_splits)
    next
      case False
      with r show ?thesis by (intro Cons.IH) simp
    qed
    with \<open>x = y\<close> ys show ?thesis by simp
  qed
qed

lemma json_string_array_inject: "json_string_array xs = json_string_array ys \<longleftrightarrow> xs = ys"
  using json_join_inject [of xs ys] by (auto simp: json_string_array_def)

section \<open>No control characters\<close>

lemma hex_char_printable: "d < 16 \<Longrightarrow> 32 \<le> code_unit (hex_char d)"
  by (simp add: hex_char_def code_unit_def)

lemma json_char_printable: "x \<in> set (json_char c) \<Longrightarrow> 32 \<le> code_unit x"
  using hex_char_printable [of "code_unit c div 16"] hex_char_printable [of "code_unit c mod 16"]
  by (auto simp: json_char_def Let_def code_unit_def split: if_splits)

lemma json_string_printable: "x \<in> set (json_string s) \<Longrightarrow> 32 \<le> code_unit x"
  by (auto simp: json_string_def dest: json_char_printable) (simp_all add: code_unit_def)

end
