(* ===== verification/OrderPreview.thy ===== *)
theory OrderPreview
  imports OrderDecimals JsonText
begin

text \<open>
  The pure order preview, \<open>buildLighterOrderPreview\<close> of
  \<open>src/src/tools/lighter/order-preview.ts\<close>: every check runs in the code's order on the live
  reads that are its arguments, and the identity that is hashed for the approval is built from
  what was checked. SHA-256 is a parameter; what is hashed is modelled down to the JSON text.
\<close>

section \<open>Inputs\<close>

definition LIGHTER_WIRE_PRICE_MAX :: nat where "LIGHTER_WIRE_PRICE_MAX = 4294967295"
definition LIGHTER_WIRE_BASE_AMOUNT_MAX :: nat where "LIGHTER_WIRE_BASE_AMOUNT_MAX = 9223372036854775807"
definition LIGHTER_PERP_MARKET_INDEX_MAX :: int where "LIGHTER_PERP_MARKET_INDEX_MAX = 254"
definition LIGHTER_SPOT_MARKET_INDEX_MIN :: int where "LIGHTER_SPOT_MARKET_INDEX_MIN = 2048"
definition LIGHTER_SPOT_MARKET_INDEX_MAX :: int where "LIGHTER_SPOT_MARKET_INDEX_MAX = 4094"
definition LIGHTER_ORDER_PREVIEW_FRESHNESS_MS :: int where "LIGHTER_ORDER_PREVIEW_FRESHNESS_MS = 120000"
definition MIN_ORDER_EXPIRY_OFFSET_MS :: int where "MIN_ORDER_EXPIRY_OFFSET_MS = 300000"
definition MAX_ORDER_EXPIRY_OFFSET_MS :: int where "MAX_ORDER_EXPIRY_OFFSET_MS = 2592000000"

definition LIGHTER_ORDER_PREVIEW_PROVIDER_VERSION :: string where
  "LIGHTER_ORDER_PREVIEW_PROVIDER_VERSION = ''lighter-order-preview-v1''"

definition LIGHTER_CLIENT_ORDER_INDEX_POLICY_DEFAULT :: string where
  "LIGHTER_CLIENT_ORDER_INDEX_POLICY_DEFAULT = ''vex_assigned_uint48''"

lemmas preview_constants =
  LIGHTER_WIRE_PRICE_MAX_def LIGHTER_WIRE_BASE_AMOUNT_MAX_def LIGHTER_PERP_MARKET_INDEX_MAX_def
  LIGHTER_SPOT_MARKET_INDEX_MIN_def LIGHTER_SPOT_MARKET_INDEX_MAX_def
  LIGHTER_ORDER_PREVIEW_FRESHNESS_MS_def MIN_ORDER_EXPIRY_OFFSET_MS_def MAX_ORDER_EXPIRY_OFFSET_MS_def

text \<open>
  \<open>undefined\<close> and \<open>null\<close> are told apart nowhere in the module: both are \<open>None\<close>. The fee terms
  come as a stored value, because the preview decodes them; \<open>typed_fees\<close> is what the code reads
  off the same value through its type, for the identity.
\<close>

definition typed_fees :: "stored_value \<Rightarrow> integrator_fees option" where
  "typed_fees v =
     (case v of
        ObjectValue props \<Rightarrow>
          Some \<lparr> integratorAccountIndex = stored_number props ''integratorAccountIndex'',
                 integratorMakerFee = stored_number props ''integratorMakerFee'',
                 integratorTakerFee = stored_number props ''integratorTakerFee'' \<rparr>
      | _ \<Rightarrow> None)"

record preview_input =
  in_sessionId :: string
  in_environment :: environment
  in_accountIndex :: js_number
  in_apiKeyIndex :: "js_number option"
  in_marketId :: js_number
  in_side :: order_side
  in_baseAmount :: string
  in_price :: string
  in_orderType :: order_type
  in_timeInForce :: time_in_force
  in_reduceOnly :: bool
  in_triggerPrice :: "string option"
  in_orderExpiry :: js_number
  in_clientOrderIndexPolicy :: string
  in_integratorFees :: stored_value

text \<open>\<open>mk_last_trade_price\<close> is \<open>String(last_trade_price)\<close> of a finite number, \<open>None\<close> otherwise.\<close>

record market_detail =
  mk_symbol :: string
  mk_market_id :: js_number
  mk_market_type :: string
  mk_status :: string
  mk_base_asset_id :: "js_number option"
  mk_quote_asset_id :: "js_number option"
  mk_taker_fee :: string
  mk_is_taker_fee_enabled :: bool
  mk_min_base_amount :: string
  mk_min_quote_amount :: string
  mk_supported_size_decimals :: js_number
  mk_supported_price_decimals :: js_number
  mk_supported_quote_decimals :: js_number
  mk_mark_price :: "string option"
  mk_index_price :: "string option"
  mk_last_trade_price :: "string option"

record 'c preview_context =
  cx_accountTakerFeeTicks :: "js_number option"
  cx_market :: market_detail
  cx_bids :: "string option list"
  cx_asks :: "string option list"
  cx_accounts :: "lighter_account list"
  cx_capitalShare :: "'c option"

section \<open>Checks on the input alone\<close>

definition validateInputScalars :: "preview_input \<Rightarrow> (preview_refusal, unit) result" where
  "validateInputScalars inp =
     bindE (requireE (\<not> length (trim (in_sessionId inp)) = 0) MissingSessionId) (\<lambda>_.
     bindE (requireE (is_safe_integer (in_accountIndex inp) \<and> \<not> int_of_js (in_accountIndex inp) < 0)
              AccountIndexInvalid) (\<lambda>_.
     bindE (case in_apiKeyIndex inp of
              None \<Rightarrow> Inr ()
            | Some k \<Rightarrow> requireE (integer_in_range k 0 255) ApiKeyIndexInvalid) (\<lambda>_.
     bindE (requireE (integer_in_range (in_marketId inp) 0 LIGHTER_SPOT_MARKET_INDEX_MAX)
              MarketIdInvalid) (\<lambda>_.
     requireE (\<not> length (trim (in_clientOrderIndexPolicy inp)) = 0) ClientOrderPolicyMissing))))"

definition assertMarketMatches :: "preview_input \<Rightarrow> market_detail \<Rightarrow> (preview_refusal, unit) result" where
  "assertMarketMatches inp market =
     bindE (requireE (js_same (mk_market_id market) (in_marketId inp)) OtherMarketReturned) (\<lambda>_.
     requireE (mk_status market = ''active'') MarketNotActive)"

text \<open>\<open>x >= lo && x <= hi\<close> on a number and two integers.\<close>

definition js_between :: "js_number \<Rightarrow> int \<Rightarrow> int \<Rightarrow> bool" where
  "js_between x lo hi =
     ((js_greater x lo \<or> x = JsInt lo) \<and> (js_less x hi \<or> x = JsInt hi))"

definition assertSignableMarketIndex :: "market_detail \<Rightarrow> (preview_refusal, unit) result" where
  "assertSignableMarketIndex market =
     requireE (if mk_market_type market = ''perp''
               then js_between (mk_market_id market) 0 LIGHTER_PERP_MARKET_INDEX_MAX
               else js_between (mk_market_id market) LIGHTER_SPOT_MARKET_INDEX_MIN
                      LIGHTER_SPOT_MARKET_INDEX_MAX)
       MarketOutsideSigningRange"

definition accountIndexOf :: "lighter_account \<Rightarrow> js_number option" where
  "accountIndexOf account =
     (case or_else (acct_index account) (acct_account_index account) of
        Some v \<Rightarrow> if is_safe_integer v then Some v else None
      | None \<Rightarrow> None)"

definition assertAccountContainsIndex ::
    "preview_input \<Rightarrow> lighter_account list \<Rightarrow> (preview_refusal, unit) result" where
  "assertAccountContainsIndex inp accounts =
     requireE (list_ex (\<lambda>row. accountIndexOf row = Some (in_accountIndex inp)) accounts)
       AccountNotReturned"

fun js_add :: "js_number \<Rightarrow> js_number \<Rightarrow> js_number" where
  "js_add (JsInt i) (JsInt j) = JsInt (i + j)"
| "js_add (JsInt i) (JsFrac q) = JsFrac (of_int i + q)"
| "js_add (JsFrac q) (JsInt i) = JsFrac (q + of_int i)"
| "js_add (JsFrac q) (JsFrac r) =
     (if q + r = of_int \<lfloor>q + r\<rfloor> then JsInt \<lfloor>q + r\<rfloor> else JsFrac (q + r))"
| "js_add JsNaN y = JsNaN"
| "js_add x JsNaN = JsNaN"
| "js_add (JsInfinity p) (JsInfinity q) = (if p = q then JsInfinity p else JsNaN)"
| "js_add (JsInfinity p) y = JsInfinity p"
| "js_add x (JsInfinity p) = JsInfinity p"

definition assertQuoteScale :: "market_detail \<Rightarrow> (preview_refusal, unit) result" where
  "assertQuoteScale market =
     requireE (js_same (mk_supported_quote_decimals market)
                 (js_add (mk_supported_size_decimals market) (mk_supported_price_decimals market)))
       MarketScaleMismatch"

definition assertExpiry :: "js_number \<Rightarrow> int \<Rightarrow> (preview_refusal, unit) result" where
  "assertExpiry orderExpiry nowMs =
     bindE (requireE (is_integer orderExpiry) ExpiryNotInteger) (\<lambda>_.
     requireE (\<not> (int_of_js orderExpiry < nowMs + MIN_ORDER_EXPIRY_OFFSET_MS
                 \<or> int_of_js orderExpiry > nowMs + MAX_ORDER_EXPIRY_OFFSET_MS)) ExpiryOutsideWindow)"

definition isProtectiveOrderType :: "order_type \<Rightarrow> bool" where
  "isProtectiveOrderType t = (t = StopLoss \<or> t = StopLossLimit \<or> t = TakeProfit \<or> t = TakeProfitLimit)"

definition isTriggerLimitOrderType :: "order_type \<Rightarrow> bool" where
  "isTriggerLimitOrderType t = (t = StopLossLimit \<or> t = TakeProfitLimit)"

definition isStopLossOrderType :: "order_type \<Rightarrow> bool" where
  "isStopLossOrderType t = (t = StopLoss \<or> t = StopLossLimit)"

definition lighterOrderPriceRole :: "order_type \<Rightarrow> price_role" where
  "lighterOrderPriceRole t =
     (if t = Market then WorstAcceptablePrice
      else if isTriggerLimitOrderType t then LimitPrice
      else if isProtectiveOrderType t then TriggerExecutionBound
      else LimitPrice)"

definition assertOrderCombination ::
    "preview_input \<Rightarrow> market_detail \<Rightarrow> (preview_refusal, unit) result" where
  "assertOrderCombination inp market =
     bindE (liftE OrderPolicyRefused
              (assertLighterPhaseOneOrderPolicy (in_orderType inp) (in_timeInForce inp))) (\<lambda>_.
     if isProtectiveOrderType (in_orderType inp) then
       bindE (requireE (mk_market_type market = ''perp'') ProtectiveOnSpot) (\<lambda>_.
       bindE (requireE (in_reduceOnly inp) ProtectiveNotReduceOnly) (\<lambda>_.
       requireE (in_triggerPrice inp \<noteq> None) ProtectiveWithoutTrigger))
     else requireE (in_triggerPrice inp = None) TriggerOnOrdinaryOrder)"

section \<open>The live position\<close>

datatype position_side = Long | Short | Flat | UnknownSide

record position_context =
  pc_verified :: bool
  pc_marketPosition :: "string option"
  pc_positionSide :: position_side

definition same_number :: "js_number option \<Rightarrow> js_number \<Rightarrow> bool" where
  "same_number v x = (case v of None \<Rightarrow> False | Some y \<Rightarrow> js_same y x)"

definition readPositionContext ::
    "lighter_account list \<Rightarrow> js_number \<Rightarrow> js_number \<Rightarrow> position_context" where
  "readPositionContext accounts accountIndex marketId =
     (let owner = find (\<lambda>row. accountIndexOf row = Some accountIndex \<and> acct_positions row \<noteq> None) accounts;
          positions = (case owner of
              None \<Rightarrow> []
            | Some row \<Rightarrow> (case acct_positions row of None \<Rightarrow> [] | Some ps \<Rightarrow> ps));
          position = find (\<lambda>row. case row of
              None \<Rightarrow> False
            | Some p \<Rightarrow> same_number (ps_market_id p) marketId \<or> same_number (ps_marketId p) marketId) positions
      in case position of
           Some (Some p) \<Rightarrow>
             let rawPosition = or_else (stringValue (ps_position p)) (stringValue (ps_size p));
                 side = (case ps_sign p of
                     None \<Rightarrow> UnknownSide
                   | Some sign \<Rightarrow> if js_greater sign 0 then Long else if js_less sign 0 then Short else Flat)
             in \<lparr> pc_verified = (rawPosition \<noteq> None \<and> side \<noteq> UnknownSide),
                  pc_marketPosition = rawPosition, pc_positionSide = side \<rparr>
         | _ \<Rightarrow> \<lparr> pc_verified = False, pc_marketPosition = None, pc_positionSide = UnknownSide \<rparr>)"

definition isReduceOnlyVerifiable :: "order_side \<Rightarrow> position_context \<Rightarrow> bool" where
  "isReduceOnlyVerifiable side position =
     (if \<not> pc_verified position then False
      else if pc_positionSide position = Long then side = Sell
      else if pc_positionSide position = Short then side = Buy
      else False)"

definition assertProtectiveSizeWithinPosition ::
    "string \<Rightarrow> position_context \<Rightarrow> (preview_refusal, unit) result" where
  "assertProtectiveSizeWithinPosition baseAmount position =
     (case pc_marketPosition position of
        None \<Rightarrow> Inl PositionSizeUnknown
      | Some held \<Rightarrow>
          bindE (requireE (decimalParts held \<noteq> None) PositionSizeUnknown) (\<lambda>_.
          requireE (\<not> compareDecimalStrings baseAmount held > 0) SizeExceedsPosition))"

section \<open>The book, the trigger and the spot inventory\<close>

datatype price_comparison = Resting | CrossingOrTaker | UnknownComparison

definition classifyPriceComparison ::
    "order_side \<Rightarrow> order_type \<Rightarrow> string \<Rightarrow> string option \<Rightarrow> string option \<Rightarrow> price_comparison" where
  "classifyPriceComparison side orderType price bestBid bestAsk =
     (if orderType = Market then CrossingOrTaker
      else if isProtectiveOrderType orderType then UnknownComparison
      else if side = Buy then
        (case bestAsk of
           None \<Rightarrow> UnknownComparison
         | Some ask \<Rightarrow>
             if decimalParts price = None \<or> decimalParts ask = None then UnknownComparison
             else if compareDecimalStrings price ask \<ge> 0 then CrossingOrTaker else Resting)
      else
        (case bestBid of
           None \<Rightarrow> UnknownComparison
         | Some bid \<Rightarrow>
             if decimalParts price = None \<or> decimalParts bid = None then UnknownComparison
             else if compareDecimalStrings price bid \<le> 0 then CrossingOrTaker else Resting))"

definition assertProtectiveTriggerDirection ::
    "preview_input \<Rightarrow> nat option \<Rightarrow> string option \<Rightarrow> string option \<Rightarrow> (preview_refusal, unit) result" where
  "assertProtectiveTriggerDirection inp triggerPriceInteger bestBid bestAsk =
     (if \<not> isProtectiveOrderType (in_orderType inp) then Inr ()
      else
        bindE (requireE (triggerPriceInteger \<noteq> None) TriggerUnavailable) (\<lambda>_.
        case in_triggerPrice inp of
          None \<Rightarrow> Inl TriggerUnavailable
        | Some triggerPrice \<Rightarrow>
            (case (if in_side inp = Sell then bestBid else bestAsk) of
               None \<Rightarrow> Inl NoReferencePrice
             | Some reference \<Rightarrow>
                 let comparison = compareDecimalStrings triggerPrice reference;
                     valid = (if isStopLossOrderType (in_orderType inp)
                              then (if in_side inp = Sell then comparison < 0 else comparison > 0)
                              else (if in_side inp = Sell then comparison > 0 else comparison < 0)) in
                 bindE (requireE valid TriggerWrongDirection) (\<lambda>_.
                 let boundComparison = compareDecimalStrings (in_price inp) triggerPrice in
                 requireE (\<not> (in_side inp = Sell \<and> boundComparison > 0
                             \<or> in_side inp = Buy \<and> boundComparison < 0)) BoundBeyondTrigger))))"

datatype required_kind = BaseAmountKind | WorstQuoteNotional | WorstQuoteNotionalWithFee

datatype taker_fee_source = NoTakerFee | ZeroFromLiveMarket | LiveMarketPercentage | LiveAccountOrMarketFee

record spot_inventory =
  sp_assetId :: js_number
  sp_symbol :: string
  sp_balance :: string
  sp_lockedBalance :: string
  sp_unlockedBalance :: string
  sp_requiredAmount :: string
  sp_requiredKind :: required_kind
  sp_takerFee :: taker_fee_source
  sp_takerFeePercent :: "string option"
  sp_takerFeeAmount :: string

text \<open>The market's own taker fee of a spot buy: where it comes from, its percent and its amount.\<close>

definition spot_market_fee ::
    "preview_input \<Rightarrow> market_detail \<Rightarrow> nat \<Rightarrow>
       (preview_refusal, taker_fee_source \<times> string option \<times> nat) result" where
  "spot_market_fee inp market quoteNotionalInteger =
     (if in_side inp = Buy \<and> mk_is_taker_fee_enabled market then
        (case decimalParts (mk_taker_fee market) of
           None \<Rightarrow> Inl SpotFeeNotPercentage
         | Some (feeInteger, feeScale) \<Rightarrow>
             bindE (requireE (\<not> feeInteger > 100 * 10 ^ feeScale) SpotFeeNotPercentage) (\<lambda>_.
             bindE (normalizeDecimalString (mk_taker_fee market)) (\<lambda>percent.
             if feeInteger = 0 then Inr (ZeroFromLiveMarket, Some percent, 0)
             else Inr (LiveMarketPercentage, Some percent,
                       divideCeil (quoteNotionalInteger * feeInteger) (100 * 10 ^ feeScale)))))
      else Inr (NoTakerFee, None, 0))"

text \<open>The account's own tier fee replaces it where it is larger.\<close>

definition spot_account_fee ::
    "preview_input \<Rightarrow> js_number option \<Rightarrow> nat \<Rightarrow> taker_fee_source \<times> string option \<times> nat \<Rightarrow>
       (preview_refusal, taker_fee_source \<times> string option \<times> nat) result" where
  "spot_account_fee inp accountTakerFeeTicks quoteNotionalInteger market_fee =
     (case (if in_side inp = Buy then accountTakerFeeTicks else None) of
        None \<Rightarrow> Inr market_fee
      | Some ticks \<Rightarrow>
          bindE (requireE (safe_in_range ticks 0 1000000) AccountFeeNotTicks) (\<lambda>_.
          let accountFeeInteger = divideCeil (quoteNotionalInteger * nat (int_of_js ticks)) 1000000
          in if accountFeeInteger > snd (snd market_fee)
             then Inr (LiveAccountOrMarketFee, Some (formatInteger (int_of_js ticks) 4), accountFeeInteger)
             else Inr market_fee))"

definition assertSpotOrderInventory ::
    "preview_input \<Rightarrow> 'c preview_context \<Rightarrow> nat \<Rightarrow> nat \<Rightarrow>
       (preview_refusal, spot_inventory option) result" where
  "assertSpotOrderInventory inp context0 baseAmountInteger quoteNotionalInteger =
     (let market = cx_market context0 in
      if mk_market_type market \<noteq> ''spot'' then Inr None
      else
        bindE (requireE (\<not> in_reduceOnly inp) SpotReduceOnly) (\<lambda>_.
        case find (\<lambda>a. accountIndexOf a = Some (in_accountIndex inp)) (cx_accounts context0) of
          None \<Rightarrow> Inl SpotInventoryMissing
        | Some owner \<Rightarrow>
            (case acct_assets owner of
               None \<Rightarrow> Inl SpotInventoryMissing
             | Some assets \<Rightarrow>
                 let requiredAssetId = (if in_side inp = Sell then mk_base_asset_id market
                                        else mk_quote_asset_id market) in
                 (case filter (\<lambda>asset. same_number requiredAssetId (as_asset_id asset)) assets of
                    [asset] \<Rightarrow>
                      bindE (subtractDecimalStrings (as_balance asset) (as_locked_balance asset)) (\<lambda>unlockedBalance.
                      bindE (spot_market_fee inp market quoteNotionalInteger) (\<lambda>market_fee.
                      bindE (spot_account_fee inp (cx_accountTakerFeeTicks context0) quoteNotionalInteger
                               market_fee) (\<lambda>(takerFee, takerFeePercent, takerFeeInteger).
                      let requiredInteger = (if in_side inp = Sell then baseAmountInteger
                                             else quoteNotionalInteger + takerFeeInteger);
                          requiredDecimals = (if in_side inp = Sell then mk_supported_size_decimals market
                                              else mk_supported_quote_decimals market);
                          requiredAmount = formatInteger (int requiredInteger) (nat (int_of_js requiredDecimals)) in
                      bindE (requireE (\<not> compareDecimalStrings unlockedBalance requiredAmount < 0)
                               (SpotBalanceTooSmall unlockedBalance requiredAmount)) (\<lambda>_.
                      bindE (normalizeDecimalString (as_balance asset)) (\<lambda>balance.
                      bindE (normalizeDecimalString (as_locked_balance asset)) (\<lambda>locked.
                      Inr (Some \<lparr> sp_assetId = as_asset_id asset,
                                  sp_symbol = as_symbol asset,
                                  sp_balance = balance,
                                  sp_lockedBalance = locked,
                                  sp_unlockedBalance = unlockedBalance,
                                  sp_requiredAmount = requiredAmount,
                                  sp_requiredKind = (if in_side inp = Sell then BaseAmountKind
                                                     else if takerFeeInteger = 0 then WorstQuoteNotional
                                                     else WorstQuoteNotionalWithFee),
                                  sp_takerFee = takerFee,
                                  sp_takerFeePercent = takerFeePercent,
                                  sp_takerFeeAmount = formatInteger (int takerFeeInteger)
                                    (nat (int_of_js (mk_supported_quote_decimals market))) \<rparr>)))))))
                  | _ \<Rightarrow> Inl SpotAssetNotUnique))))"

definition readReferencePrice :: "market_detail \<Rightarrow> string option" where
  "readReferencePrice market =
     (case stringValue (mk_mark_price market) of
        Some markPrice \<Rightarrow> Some markPrice
      | None \<Rightarrow> (case stringValue (mk_index_price market) of
                   Some indexPrice \<Rightarrow> Some indexPrice
                 | None \<Rightarrow> mk_last_trade_price market))"

section \<open>The identity and its hash\<close>

record preview_identity =
  id_integratorFees :: "integrator_fees option"
  id_sessionId :: string
  id_environment :: environment
  id_accountIndex :: string
  id_apiKeyIndex :: string
  id_marketIndex :: string
  id_side :: order_side
  id_baseAmountInteger :: string
  id_priceInteger :: string
  id_orderType :: order_type
  id_timeInForce :: time_in_force
  id_reduceOnly :: bool
  id_triggerPriceInteger :: string
  id_expiryMs :: string
  id_clientOrderIndexPolicy :: string
  id_providerVersion :: string

text \<open>\<open>String(n)\<close> of a number that passed the checks for an integer.\<close>

definition number_text :: "js_number \<Rightarrow> string" where
  "number_text x = show_int (int_of_js x)"

definition lighterOrderPreviewHashMaterial :: "preview_identity \<Rightarrow> string list" where
  "lighterOrderPreviewHashMaterial i =
     [''lighter_order'',
      id_sessionId i,
      environment_text (id_environment i),
      id_accountIndex i,
      id_apiKeyIndex i,
      id_marketIndex i,
      side_text (id_side i),
      id_baseAmountInteger i,
      id_priceInteger i,
      order_type_text (id_orderType i),
      time_in_force_text (id_timeInForce i),
      (if id_reduceOnly i then ''1'' else ''0''),
      id_triggerPriceInteger i,
      id_expiryMs i,
      id_clientOrderIndexPolicy i,
      id_providerVersion i]
     @ (case id_integratorFees i of
          None \<Rightarrow> []
        | Some f \<Rightarrow> [number_text (integratorAccountIndex f), number_text (integratorMakerFee f),
                     number_text (integratorTakerFee f)])"

text \<open>\<open>sha256\<close> is the hex digest of the runtime's SHA-256 on the UTF-8 bytes of a text.\<close>

definition computeLighterOrderPreviewHash :: "(string \<Rightarrow> string) \<Rightarrow> preview_identity \<Rightarrow> string" where
  "computeLighterOrderPreviewHash sha256 i =
     sha256 (json_string_array (lighterOrderPreviewHashMaterial i))"

section \<open>The preview\<close>

record preview_amounts =
  pa_base :: nat
  pa_price :: nat
  pa_trigger :: "nat option"
  pa_minBase :: nat
  pa_minQuote :: nat
  pa_notional :: nat

text \<open>The first half of the builder: the integers, the wire bounds and the market's minima.\<close>

definition preview_integers ::
    "preview_input \<Rightarrow> market_detail \<Rightarrow> (preview_refusal, preview_amounts) result" where
  "preview_integers inp market =
     bindE (decimalToLighterInteger (in_baseAmount inp) (mk_supported_size_decimals market)
              ''baseAmount'' False) (\<lambda>base.
     bindE (decimalToLighterInteger (in_price inp) (mk_supported_price_decimals market)
              ''price'' False) (\<lambda>price.
     bindE (case in_triggerPrice inp of
              None \<Rightarrow> Inr None
            | Some t \<Rightarrow> bindE (decimalToLighterInteger t (mk_supported_price_decimals market)
                                ''triggerPrice'' False) (\<lambda>v. Inr (Some v))) (\<lambda>trigger.
     bindE (decimalToLighterInteger (mk_min_base_amount market) (mk_supported_size_decimals market)
              ''market min_base_amount'' True) (\<lambda>minBase.
     bindE (decimalToLighterInteger (mk_min_quote_amount market) (mk_supported_quote_decimals market)
              ''market min_quote_amount'' True) (\<lambda>minQuote.
     let notional = base * price in
     bindE (requireE (\<not> price > LIGHTER_WIRE_PRICE_MAX) PriceAboveWire) (\<lambda>_.
     bindE (requireE (case trigger of None \<Rightarrow> True | Some t \<Rightarrow> \<not> t > LIGHTER_WIRE_PRICE_MAX)
              TriggerAboveWire) (\<lambda>_.
     bindE (requireE (\<not> base > LIGHTER_WIRE_BASE_AMOUNT_MAX) BaseAboveWire) (\<lambda>_.
     bindE (requireE (\<not> base < minBase) BaseBelowMinimum) (\<lambda>_.
     bindE (requireE (\<not> notional < minQuote) QuoteBelowMinimum) (\<lambda>_.
     Inr \<lparr> pa_base = base, pa_price = price, pa_trigger = trigger, pa_minBase = minBase,
           pa_minQuote = minQuote, pa_notional = notional \<rparr>))))))))))"

definition preview_identity_of :: "preview_input \<Rightarrow> preview_amounts \<Rightarrow> preview_identity" where
  "preview_identity_of inp amounts =
     \<lparr> id_integratorFees = typed_fees (in_integratorFees inp),
       id_sessionId = in_sessionId inp,
       id_environment = in_environment inp,
       id_accountIndex = number_text (in_accountIndex inp),
       id_apiKeyIndex = (case in_apiKeyIndex inp of None \<Rightarrow> '''' | Some k \<Rightarrow> number_text k),
       id_marketIndex = number_text (in_marketId inp),
       id_side = in_side inp,
       id_baseAmountInteger = show_nat (pa_base amounts),
       id_priceInteger = show_nat (pa_price amounts),
       id_orderType = in_orderType inp,
       id_timeInForce = in_timeInForce inp,
       id_reduceOnly = in_reduceOnly inp,
       id_triggerPriceInteger = (case pa_trigger amounts of None \<Rightarrow> '''' | Some t \<Rightarrow> show_nat t),
       id_expiryMs = number_text (in_orderExpiry inp),
       id_clientOrderIndexPolicy = in_clientOrderIndexPolicy inp,
       id_providerVersion = LIGHTER_ORDER_PREVIEW_PROVIDER_VERSION \<rparr>"

record amount_view =
  av_display :: string
  av_integer :: string
  av_decimals :: nat

definition amount_view_of :: "nat \<Rightarrow> js_number \<Rightarrow> amount_view" where
  "amount_view_of v decimals =
     (let d = nat (int_of_js decimals)
      in \<lparr> av_display = formatInteger (int v) d, av_integer = show_nat v, av_decimals = d \<rparr>)"

record trigger_view =
  tv_display :: "string option"
  tv_integer :: "string option"
  tv_decimals :: nat

definition trigger_view_of :: "nat option \<Rightarrow> js_number \<Rightarrow> trigger_view" where
  "trigger_view_of t decimals =
     (let d = nat (int_of_js decimals)
      in \<lparr> tv_display = map_option (\<lambda>v. formatInteger (int v) d) t,
           tv_integer = map_option show_nat t, tv_decimals = d \<rparr>)"

record 'c order_preview =
  op_previewId :: string
  op_matchHash :: string
  op_identity :: preview_identity
  op_expiresAtMs :: int
  op_integratorFees :: "integrator_fees option"
  op_environment :: environment
  op_accountIndex :: js_number
  op_apiKeyIndex :: "js_number option"
  op_marketIndex :: js_number
  op_symbol :: string
  op_marketType :: string
  op_side :: order_side
  op_orderType :: order_type
  op_timeInForce :: time_in_force
  op_reduceOnly :: bool
  op_baseAmount :: amount_view
  op_price :: amount_view
  op_priceRole :: price_role
  op_triggerPrice :: trigger_view
  op_quoteNotional :: amount_view
  op_minBaseAmount :: amount_view
  op_minQuoteAmount :: amount_view
  op_bestBid :: "string option"
  op_bestAsk :: "string option"
  op_referencePrice :: "string option"
  op_priceComparison :: price_comparison
  op_positionContext :: position_context
  op_capitalShare :: "'c option"
  op_spotInventoryContext :: "spot_inventory option"
  op_riskNotes :: "string list"

definition preview_risk_notes :: "order_type \<Rightarrow> spot_inventory option \<Rightarrow> string list" where
  "preview_risk_notes orderType spot =
     [''Preview only. No order was signed, submitted, placed, cancelled, deposited, withdrawn, or transferred.'',
      ''A later API acceptance is not final execution; order outcome must be proven by Lighter order or transaction evidence.'']
     @ (if isTriggerLimitOrderType orderType
        then [''This reduce-only protective limit order activates only after Lighter observes the approved trigger price; it may rest on the book and may never fill at the approved limit price.'']
        else if isProtectiveOrderType orderType
        then [''This reduce-only protective order can execute only after Lighter observes the approved trigger price; its price is a hard execution bound, not the trigger itself.'']
        else [])
     @ (case spot of
          None \<Rightarrow> []
        | Some s \<Rightarrow> [''Spot inventory verified: unlocked '' @ sp_symbol s @ '' balance '' @ sp_unlockedBalance s
                     @ '' covers required '' @ sp_requiredAmount s @ ''.''])"

text \<open>The last part of the builder: what the preview shows.\<close>

definition preview_of ::
    "(string \<Rightarrow> string) \<Rightarrow> int \<Rightarrow> preview_input \<Rightarrow> 'c preview_context \<Rightarrow> preview_amounts \<Rightarrow>
       spot_inventory option \<Rightarrow> position_context \<Rightarrow> string option \<Rightarrow> string option \<Rightarrow>
       price_comparison \<Rightarrow> 'c order_preview" where
  "preview_of sha256 nowMs inp context0 amounts spot position bestBid bestAsk comparison =
     (let market = cx_market context0;
          identity = preview_identity_of inp amounts;
          matchHash = computeLighterOrderPreviewHash sha256 identity
      in \<lparr> op_previewId = ''lop_'' @ take 24 matchHash,
           op_matchHash = matchHash,
           op_identity = identity,
           op_expiresAtMs = nowMs + LIGHTER_ORDER_PREVIEW_FRESHNESS_MS,
           op_integratorFees = typed_fees (in_integratorFees inp),
           op_environment = in_environment inp,
           op_accountIndex = in_accountIndex inp,
           op_apiKeyIndex = in_apiKeyIndex inp,
           op_marketIndex = in_marketId inp,
           op_symbol = mk_symbol market,
           op_marketType = mk_market_type market,
           op_side = in_side inp,
           op_orderType = in_orderType inp,
           op_timeInForce = in_timeInForce inp,
           op_reduceOnly = in_reduceOnly inp,
           op_baseAmount = amount_view_of (pa_base amounts) (mk_supported_size_decimals market),
           op_price = amount_view_of (pa_price amounts) (mk_supported_price_decimals market),
           op_priceRole = lighterOrderPriceRole (in_orderType inp),
           op_triggerPrice = trigger_view_of (pa_trigger amounts) (mk_supported_price_decimals market),
           op_quoteNotional = amount_view_of (pa_notional amounts) (mk_supported_quote_decimals market),
           op_minBaseAmount = amount_view_of (pa_minBase amounts) (mk_supported_size_decimals market),
           op_minQuoteAmount = amount_view_of (pa_minQuote amounts) (mk_supported_quote_decimals market),
           op_bestBid = bestBid,
           op_bestAsk = bestAsk,
           op_referencePrice = readReferencePrice market,
           op_priceComparison = comparison,
           op_positionContext = position,
           op_capitalShare = cx_capitalShare context0,
           op_spotInventoryContext = spot,
           op_riskNotes = preview_risk_notes (in_orderType inp) spot \<rparr>)"

definition buildLighterOrderPreview ::
    "(string \<Rightarrow> string) \<Rightarrow> int \<Rightarrow> preview_input \<Rightarrow> 'c preview_context \<Rightarrow>
       (preview_refusal, 'c order_preview) result" where
  "buildLighterOrderPreview sha256 nowMs inp context0 =
     (let market = cx_market context0; accounts = cx_accounts context0 in
     bindE (validateInputScalars inp) (\<lambda>_.
     bindE (liftE StoredFeesRefused (readLighterOrderFeeTerms (in_integratorFees inp))) (\<lambda>_.
     bindE (assertMarketMatches inp market) (\<lambda>_.
     bindE (assertSignableMarketIndex market) (\<lambda>_.
     bindE (assertAccountContainsIndex inp accounts) (\<lambda>_.
     bindE (assertQuoteScale market) (\<lambda>_.
     bindE (assertExpiry (in_orderExpiry inp) nowMs) (\<lambda>_.
     bindE (assertOrderCombination inp market) (\<lambda>_.
     bindE (preview_integers inp market) (\<lambda>amounts.
     bindE (assertSpotOrderInventory inp context0 (pa_base amounts) (pa_notional amounts)) (\<lambda>spot.
     let position = readPositionContext accounts (in_accountIndex inp) (in_marketId inp) in
     bindE (requireE (\<not> (in_reduceOnly inp \<and> \<not> isReduceOnlyVerifiable (in_side inp) position))
              ReduceOnlyUnverified) (\<lambda>_.
     bindE (if in_reduceOnly inp then assertProtectiveSizeWithinPosition (in_baseAmount inp) position
            else Inr ()) (\<lambda>_.
     let bestBid = bestPrice (cx_bids context0) Bid;
         bestAsk = bestPrice (cx_asks context0) Ask in
     bindE (assertProtectiveTriggerDirection inp (pa_trigger amounts) bestBid bestAsk) (\<lambda>_.
     let comparison = classifyPriceComparison (in_side inp) (in_orderType inp) (in_price inp) bestBid bestAsk in
     bindE (requireE (\<not> (in_timeInForce inp = PostOnly \<and> \<not> isTriggerLimitOrderType (in_orderType inp)
                          \<and> comparison \<noteq> Resting)) PostOnlyNotResting) (\<lambda>_.
     Inr (preview_of sha256 nowMs inp context0 amounts spot position bestBid bestAsk comparison))))))))))))))))"

section \<open>What an admitted preview has passed\<close>

lemma build_parts:
  assumes "buildLighterOrderPreview sha256 now inp cx = Inr p"
  shows "\<exists>amounts spot.
     validateInputScalars inp = Inr ()
     \<and> (\<exists>f. readLighterOrderFeeTerms (in_integratorFees inp) = Inr f)
     \<and> assertMarketMatches inp (cx_market cx) = Inr ()
     \<and> assertSignableMarketIndex (cx_market cx) = Inr ()
     \<and> assertQuoteScale (cx_market cx) = Inr ()
     \<and> assertExpiry (in_orderExpiry inp) now = Inr ()
     \<and> assertOrderCombination inp (cx_market cx) = Inr ()
     \<and> preview_integers inp (cx_market cx) = Inr amounts
     \<and> assertSpotOrderInventory inp cx (pa_base amounts) (pa_notional amounts) = Inr spot
     \<and> (in_reduceOnly inp \<longrightarrow>
          isReduceOnlyVerifiable (in_side inp)
            (readPositionContext (cx_accounts cx) (in_accountIndex inp) (in_marketId inp))
          \<and> assertProtectiveSizeWithinPosition (in_baseAmount inp)
              (readPositionContext (cx_accounts cx) (in_accountIndex inp) (in_marketId inp)) = Inr ())
     \<and> assertProtectiveTriggerDirection inp (pa_trigger amounts)
          (bestPrice (cx_bids cx) Bid) (bestPrice (cx_asks cx) Ask) = Inr ()
     \<and> (in_timeInForce inp = PostOnly \<and> \<not> isTriggerLimitOrderType (in_orderType inp) \<longrightarrow>
          classifyPriceComparison (in_side inp) (in_orderType inp) (in_price inp)
            (bestPrice (cx_bids cx) Bid) (bestPrice (cx_asks cx) Ask) = Resting)
     \<and> p = preview_of sha256 now inp cx amounts spot
          (readPositionContext (cx_accounts cx) (in_accountIndex inp) (in_marketId inp))
          (bestPrice (cx_bids cx) Bid) (bestPrice (cx_asks cx) Ask)
          (classifyPriceComparison (in_side inp) (in_orderType inp) (in_price inp)
             (bestPrice (cx_bids cx) Bid) (bestPrice (cx_asks cx) Ask))"
proof -
  from assms obtain amounts spot where
    "validateInputScalars inp = Inr ()"
    "\<exists>f. readLighterOrderFeeTerms (in_integratorFees inp) = Inr f"
    "assertMarketMatches inp (cx_market cx) = Inr ()"
    "assertSignableMarketIndex (cx_market cx) = Inr ()"
    "assertQuoteScale (cx_market cx) = Inr ()"
    "assertExpiry (in_orderExpiry inp) now = Inr ()"
    "assertOrderCombination inp (cx_market cx) = Inr ()"
    "preview_integers inp (cx_market cx) = Inr amounts"
    "assertSpotOrderInventory inp cx (pa_base amounts) (pa_notional amounts) = Inr spot"
    "\<not> (in_reduceOnly inp \<and> \<not> isReduceOnlyVerifiable (in_side inp)
       (readPositionContext (cx_accounts cx) (in_accountIndex inp) (in_marketId inp)))"
    "in_reduceOnly inp \<longrightarrow> assertProtectiveSizeWithinPosition (in_baseAmount inp)
       (readPositionContext (cx_accounts cx) (in_accountIndex inp) (in_marketId inp)) = Inr ()"
    "assertProtectiveTriggerDirection inp (pa_trigger amounts)
       (bestPrice (cx_bids cx) Bid) (bestPrice (cx_asks cx) Ask) = Inr ()"
    "\<not> (in_timeInForce inp = PostOnly \<and> \<not> isTriggerLimitOrderType (in_orderType inp)
       \<and> classifyPriceComparison (in_side inp) (in_orderType inp) (in_price inp)
            (bestPrice (cx_bids cx) Bid) (bestPrice (cx_asks cx) Ask) \<noteq> Resting)"
    "p = preview_of sha256 now inp cx amounts spot
       (readPositionContext (cx_accounts cx) (in_accountIndex inp) (in_marketId inp))
       (bestPrice (cx_bids cx) Bid) (bestPrice (cx_asks cx) Ask)
       (classifyPriceComparison (in_side inp) (in_orderType inp) (in_price inp)
          (bestPrice (cx_bids cx) Bid) (bestPrice (cx_asks cx) Ask))"
    unfolding buildLighterOrderPreview_def Let_def
    by (simp only: bindE_eq_Inr liftE_eq_Inr requireE_eq_Inr ex_unit_iff if_unit_eq_Inr sum.inject) blast
  then show ?thesis by blast
qed

lemma preview_integers_parts:
  assumes "preview_integers inp market = Inr a"
  shows "decimalToLighterInteger (in_baseAmount inp) (mk_supported_size_decimals market) ''baseAmount'' False
           = Inr (pa_base a)
     \<and> decimalToLighterInteger (in_price inp) (mk_supported_price_decimals market) ''price'' False
           = Inr (pa_price a)
     \<and> decimalToLighterInteger (mk_min_base_amount market) (mk_supported_size_decimals market)
           ''market min_base_amount'' True = Inr (pa_minBase a)
     \<and> decimalToLighterInteger (mk_min_quote_amount market) (mk_supported_quote_decimals market)
           ''market min_quote_amount'' True = Inr (pa_minQuote a)
     \<and> (case in_triggerPrice inp of
          None \<Rightarrow> pa_trigger a = None
        | Some t \<Rightarrow> \<exists>v. pa_trigger a = Some v \<and> v \<le> LIGHTER_WIRE_PRICE_MAX
            \<and> decimalToLighterInteger t (mk_supported_price_decimals market) ''triggerPrice'' False = Inr v)
     \<and> pa_notional a = pa_base a * pa_price a
     \<and> pa_price a \<le> LIGHTER_WIRE_PRICE_MAX \<and> pa_base a \<le> LIGHTER_WIRE_BASE_AMOUNT_MAX
     \<and> pa_minBase a \<le> pa_base a \<and> pa_minQuote a \<le> pa_notional a"
  using assms
  by (cases "in_triggerPrice inp")
    (auto simp: preview_integers_def result_simps Let_def not_less)

lemma decimalToLighterInteger_decimals:
  assumes "decimalToLighterInteger s x nm z = Inr n"
  obtains d where "x = JsInt (int d)" "d \<le> 18" "plain_decimal (trim s)"
    "of_nat n = text_value (trim s) * 10 ^ d" "z \<or> 0 < n"
proof -
  from assms obtain i where x: "x = JsInt i"
    by (auto simp: decimalToLighterInteger_def result_simps integer_in_range_iff)
  from decimalToLighterInteger_value [OF assms [unfolded x]]
  show thesis by (intro that [of "nat i"]) (auto simp: x)
qed

end
