(* ===== verification/OrderAdmission.thy ===== *)
theory OrderAdmission
  imports OrderPreview
begin

text \<open>
  What a preview that was built has established about the order: exact integers, the wire
  bounds, protective orders, resting orders, spot inventory, and the hash that binds the
  approval to the order. The definitions are those of the preview; this theory holds the
  lemmas and the properties over them.
\<close>

section \<open>The best price of a side\<close>

lemma sort_by_head:
  fixes f :: "'a \<Rightarrow> rat"
  assumes "xs \<noteq> []" "\<And>a b. a \<in> set xs \<Longrightarrow> b \<in> set xs \<Longrightarrow> cmp a b \<le> 0 \<longleftrightarrow> f a \<le> f b"
  shows "\<exists>p ps. sort_by cmp xs = p # ps \<and> p \<in> set xs \<and> (\<forall>b\<in>set xs. f p \<le> f b)"
  using assms
proof (induction xs)
  case (Cons x xs)
  show ?case
  proof (cases "xs = []")
    case True
    then show ?thesis by (simp add: sort_by_def)
  next
    case False
    then obtain p ps where p: "sort_by cmp xs = p # ps" "p \<in> set xs" "\<forall>b\<in>set xs. f p \<le> f b"
      using Cons.IH Cons.prems by auto
    have c: "cmp x p \<le> 0 \<longleftrightarrow> f x \<le> f p" using Cons.prems(2) [of x p] p(2) by simp
    show ?thesis
    proof (cases "f x \<le> f p")
      case True
      with p c have "sort_by cmp (x # xs) = x # p # ps" by (simp add: sort_by_def)
      with p True show ?thesis by (metis list.set_intros(1) order.trans order_refl set_ConsD)
    next
      case False
      with p c have "sort_by cmp (x # xs) = p # insort_by cmp x ps" by (simp add: sort_by_def)
      with p False show ?thesis by (metis linear list.set_intros(2) set_ConsD)
    qed
  qed
qed simp

lemma bestPrice_extreme:
  assumes "\<And>t. t \<in> set (List.map_filter stringValue orders) \<Longrightarrow> plain_decimal (trim t)"
    and "List.map_filter stringValue orders \<noteq> []"
  shows "\<exists>p. bestPrice orders side = Some p \<and> p \<in> set (List.map_filter stringValue orders)
     \<and> (\<forall>t\<in>set (List.map_filter stringValue orders).
          if side = Ask then text_value (trim p) \<le> text_value (trim t)
          else text_value (trim t) \<le> text_value (trim p))"
proof -
  let ?cmp = "\<lambda>a b. compareDecimalStrings a b * (if side = Ask then 1 else - 1)"
  let ?f = "\<lambda>t. if side = Ask then text_value (trim t) else - text_value (trim t)"
  let ?ps = "List.map_filter stringValue orders"
  have "?cmp a b \<le> 0 \<longleftrightarrow> ?f a \<le> ?f b" if "a \<in> set ?ps" "b \<in> set ?ps" for a b
    using compareDecimalStrings_cases [OF assms(1) [OF that(1)] assms(1) [OF that(2)]]
    by (simp split: if_splits)
  from sort_by_head [of ?ps ?cmp ?f, OF assms(2) this]
  obtain p rest where "sort_by ?cmp ?ps = p # rest" "p \<in> set ?ps" "\<forall>b\<in>set ?ps. ?f p \<le> ?f b"
    by blast
  with assms(2) show ?thesis by (intro exI [of _ p]) (auto simp: bestPrice_def)
qed

section \<open>Facts the properties share\<close>

lemma compare_neg:
  "compareDecimalStrings a b < 0 \<Longrightarrow> plain_decimal (trim a) \<and> plain_decimal (trim b)
     \<and> text_value (trim a) < text_value (trim b)"
proof -
  assume c: "compareDecimalStrings a b < 0"
  then have "decimalParts a \<noteq> None" "decimalParts b \<noteq> None"
    by (auto simp: compareDecimalStrings_def split: option.splits)
  then have p: "plain_decimal (trim a)" "plain_decimal (trim b)" by (simp_all add: decimalParts_None_iff)
  with c show ?thesis by (simp add: compareDecimalStrings_cases [OF p] split: if_splits)
qed

lemma compare_pos:
  "compareDecimalStrings a b > 0 \<Longrightarrow> plain_decimal (trim a) \<and> plain_decimal (trim b)
     \<and> text_value (trim b) < text_value (trim a)"
proof -
  assume c: "compareDecimalStrings a b > 0"
  then have "decimalParts a \<noteq> None" "decimalParts b \<noteq> None"
    by (auto simp: compareDecimalStrings_def split: option.splits)
  then have p: "plain_decimal (trim a)" "plain_decimal (trim b)" by (simp_all add: decimalParts_None_iff)
  with c show ?thesis by (simp add: compareDecimalStrings_cases [OF p] split: if_splits)
qed

lemma compare_le:
  "plain_decimal (trim a) \<Longrightarrow> plain_decimal (trim b) \<Longrightarrow> \<not> compareDecimalStrings a b > 0
     \<Longrightarrow> text_value (trim a) \<le> text_value (trim b)"
  by (simp add: compareDecimalStrings_cases split: if_splits)

lemma compare_ge:
  "plain_decimal (trim a) \<Longrightarrow> plain_decimal (trim b) \<Longrightarrow> \<not> compareDecimalStrings a b < 0
     \<Longrightarrow> text_value (trim b) \<le> text_value (trim a)"
  by (simp add: compareDecimalStrings_cases split: if_splits)

lemma formatInteger_facts:
  "plain_decimal (trim (formatInteger (int n) d))"
  "text_value (trim (formatInteger (int n) d)) = of_nat n / 10 ^ d"
  "text_value (formatInteger (int n) d) = of_nat n / 10 ^ d"
  using formatInteger_plain [of n d] by simp_all

lemma subtract_value:
  assumes "subtractDecimalStrings a b = Inr u"
  shows "plain_decimal (trim u) \<and> text_value (trim u) = text_value (trim a) - text_value (trim b)"
proof -
  from assms obtain i s j t where a: "decimalParts a = Some (i, s)" and b: "decimalParts b = Some (j, t)"
    and le: "j * 10 ^ (max s t - t) \<le> i * 10 ^ (max s t - s)"
    and u: "u = formatInteger (int (i * 10 ^ (max s t - s) - j * 10 ^ (max s t - t))) (max s t)"
    by (auto simp: subtractDecimalStrings_def Let_def not_less split: option.splits if_splits)
  have p: "(10 :: rat) ^ max s t = 10 ^ (max s t - k) * 10 ^ k" if "k \<le> max s t" for k
    using that by (simp flip: power_add)
  have part: "(of_nat (m * 10 ^ (max s t - k)) :: rat) / 10 ^ max s t = of_nat m / 10 ^ k"
    if "k \<le> max s t" for m k
    by (simp add: p [OF that])
  have "text_value (trim u) = (of_nat (i * 10 ^ (max s t - s)) - of_nat (j * 10 ^ (max s t - t))) / 10 ^ max s t"
    unfolding u formatInteger_facts(2) using le by (simp only: of_nat_diff)
  also have "\<dots> = text_value (trim a) - text_value (trim b)"
    by (simp only: diff_divide_distrib part [OF max.cobounded1] part [OF max.cobounded2]
        decimalParts_value [OF a] decimalParts_value [OF b])
  finally show ?thesis by (simp add: u formatInteger_facts(1))
qed

section \<open>The integers of an admitted preview\<close>

lemma preview_of_sel [simp]:
  "op_identity (preview_of sha256 now inp cx a sp po bid ask cmp) = preview_identity_of inp a"
  "op_matchHash (preview_of sha256 now inp cx a sp po bid ask cmp)
     = computeLighterOrderPreviewHash sha256 (preview_identity_of inp a)"
  "op_bestBid (preview_of sha256 now inp cx a sp po bid ask cmp) = bid"
  "op_bestAsk (preview_of sha256 now inp cx a sp po bid ask cmp) = ask"
  "op_marketType (preview_of sha256 now inp cx a sp po bid ask cmp) = mk_market_type (cx_market cx)"
  "op_positionContext (preview_of sha256 now inp cx a sp po bid ask cmp) = po"
  "op_spotInventoryContext (preview_of sha256 now inp cx a sp po bid ask cmp) = sp"
  by (simp_all add: preview_of_def Let_def)

text \<open>What the later checks established, in terms of the preview that came out.\<close>

lemma preview_checks:
  assumes "buildLighterOrderPreview sha256 now inp cx = Inr p"
  obtains amounts :: preview_amounts where
    "assertOrderCombination inp (cx_market cx) = Inr ()"
    "op_bestBid p = bestPrice (cx_bids cx) Bid" "op_bestAsk p = bestPrice (cx_asks cx) Ask"
    "op_marketType p = mk_market_type (cx_market cx)"
    "assertProtectiveTriggerDirection inp (pa_trigger amounts) (op_bestBid p) (op_bestAsk p) = Inr ()"
    "in_reduceOnly inp \<Longrightarrow> isReduceOnlyVerifiable (in_side inp) (op_positionContext p)"
    "in_reduceOnly inp \<Longrightarrow>
       assertProtectiveSizeWithinPosition (in_baseAmount inp) (op_positionContext p) = Inr ()"
    "in_timeInForce inp = PostOnly \<Longrightarrow> \<not> isTriggerLimitOrderType (in_orderType inp) \<Longrightarrow>
       classifyPriceComparison (in_side inp) (in_orderType inp) (in_price inp)
         (op_bestBid p) (op_bestAsk p) = Resting"
proof -
  from build_parts [OF assms] obtain amounts :: preview_amounts and spot po cmp where
    1: "assertOrderCombination inp (cx_market cx) = Inr ()"
    and 2: "assertProtectiveTriggerDirection inp (pa_trigger amounts)
      (bestPrice (cx_bids cx) Bid) (bestPrice (cx_asks cx) Ask) = Inr ()"
    and 3: "in_reduceOnly inp \<longrightarrow> isReduceOnlyVerifiable (in_side inp) po
      \<and> assertProtectiveSizeWithinPosition (in_baseAmount inp) po = Inr ()"
    and 4: "in_timeInForce inp = PostOnly \<and> \<not> isTriggerLimitOrderType (in_orderType inp) \<longrightarrow>
      classifyPriceComparison (in_side inp) (in_orderType inp) (in_price inp)
        (bestPrice (cx_bids cx) Bid) (bestPrice (cx_asks cx) Ask) = Resting"
    and p: "p = preview_of sha256 now inp cx amounts spot po
      (bestPrice (cx_bids cx) Bid) (bestPrice (cx_asks cx) Ask) cmp"
    by blast
  have sel: "op_bestBid p = bestPrice (cx_bids cx) Bid" "op_bestAsk p = bestPrice (cx_asks cx) Ask"
    "op_marketType p = mk_market_type (cx_market cx)" "op_positionContext p = po"
    by (simp_all add: p)
  show thesis by (rule that [of amounts]) (use 1 2 3 4 in \<open>simp_all add: sel\<close>)
qed

lemma scale_numbers:
  assumes "assertQuoteScale market = Inr ()"
    "mk_supported_size_decimals market = JsInt (int sd)"
    "mk_supported_price_decimals market = JsInt (int pd)"
  shows "mk_supported_quote_decimals market = JsInt (int (sd + pd))"
  using assms by (cases "mk_supported_quote_decimals market") (auto simp: assertQuoteScale_def result_simps)

lemma preview_numbers:
  assumes "buildLighterOrderPreview sha256 now inp cx = Inr p"
  shows "\<exists>b q sd pd amounts spot.
     mk_supported_size_decimals (cx_market cx) = JsInt (int sd)
     \<and> mk_supported_price_decimals (cx_market cx) = JsInt (int pd)
     \<and> mk_supported_quote_decimals (cx_market cx) = JsInt (int (sd + pd))
     \<and> plain_decimal (trim (in_baseAmount inp)) \<and> plain_decimal (trim (in_price inp))
     \<and> of_nat b = text_value (trim (in_baseAmount inp)) * 10 ^ sd
     \<and> of_nat q = text_value (trim (in_price inp)) * 10 ^ pd
     \<and> 0 < b \<and> 0 < q \<and> q \<le> LIGHTER_WIRE_PRICE_MAX \<and> b \<le> LIGHTER_WIRE_BASE_AMOUNT_MAX
     \<and> pa_base amounts = b \<and> pa_price amounts = q \<and> pa_notional amounts = b * q
     \<and> preview_integers inp (cx_market cx) = Inr amounts
     \<and> assertSpotOrderInventory inp cx b (b * q) = Inr spot
     \<and> op_spotInventoryContext p = spot
     \<and> op_identity p = preview_identity_of inp amounts
     \<and> op_baseAmount p = amount_view_of b (JsInt (int sd))
     \<and> op_price p = amount_view_of q (JsInt (int pd))
     \<and> op_quoteNotional p = amount_view_of (b * q) (JsInt (int (sd + pd)))"
proof -
  obtain a spot where
    scale: "assertQuoteScale (cx_market cx) = Inr ()"
    and a: "preview_integers inp (cx_market cx) = Inr a"
    and spot: "assertSpotOrderInventory inp cx (pa_base a) (pa_notional a) = Inr spot"
    and p: "p = preview_of sha256 now inp cx a spot
          (readPositionContext (cx_accounts cx) (in_accountIndex inp) (in_marketId inp))
          (bestPrice (cx_bids cx) Bid) (bestPrice (cx_asks cx) Ask)
          (classifyPriceComparison (in_side inp) (in_orderType inp) (in_price inp)
             (bestPrice (cx_bids cx) Bid) (bestPrice (cx_asks cx) Ask))"
    using build_parts [OF assms] by blast
  note parts = preview_integers_parts [OF a]
  from parts have "decimalToLighterInteger (in_baseAmount inp)
      (mk_supported_size_decimals (cx_market cx)) ''baseAmount'' False = Inr (pa_base a)" by blast
  then obtain sd where sd: "mk_supported_size_decimals (cx_market cx) = JsInt (int sd)"
    "plain_decimal (trim (in_baseAmount inp))"
    "of_nat (pa_base a) = text_value (trim (in_baseAmount inp)) * 10 ^ sd" "0 < pa_base a"
    by (elim decimalToLighterInteger_decimals) auto
  from parts have "decimalToLighterInteger (in_price inp)
      (mk_supported_price_decimals (cx_market cx)) ''price'' False = Inr (pa_price a)" by blast
  then obtain pd where pd: "mk_supported_price_decimals (cx_market cx) = JsInt (int pd)"
    "plain_decimal (trim (in_price inp))"
    "of_nat (pa_price a) = text_value (trim (in_price inp)) * 10 ^ pd" "0 < pa_price a"
    by (elim decimalToLighterInteger_decimals) auto
  note q = scale_numbers [OF scale sd(1) pd(1)]
  have n: "pa_notional a = pa_base a * pa_price a" using parts by blast
  have views: "op_spotInventoryContext p = spot" "op_identity p = preview_identity_of inp a"
    "op_baseAmount p = amount_view_of (pa_base a) (JsInt (int sd))"
    "op_price p = amount_view_of (pa_price a) (JsInt (int pd))"
    "op_quoteNotional p = amount_view_of (pa_base a * pa_price a) (JsInt (int (sd + pd)))"
    by (simp_all add: p preview_of_def Let_def sd(1) pd(1) q n)
  have bounds: "pa_price a \<le> LIGHTER_WIRE_PRICE_MAX" "pa_base a \<le> LIGHTER_WIRE_BASE_AMOUNT_MAX"
    using parts by blast+
  show ?thesis
    by (intro exI conjI) (rule sd pd q n views bounds refl a spot [unfolded n])+
qed

lemma amount_view_value:
  "text_value (av_display (amount_view_of n (JsInt (int d)))) = of_nat n / 10 ^ d"
  "av_integer (amount_view_of n (JsInt (int d))) = show_nat n"
  by (simp_all add: amount_view_of_def formatInteger_facts)

lemma held_covers_order:
  assumes "buildLighterOrderPreview sha256 now inp cx = Inr p" "in_reduceOnly inp"
  shows "pc_verified (op_positionContext p)
     \<and> pc_positionSide (op_positionContext p) = (if in_side inp = Sell then Long else Short)
     \<and> (\<exists>held. pc_marketPosition (op_positionContext p) = Some held \<and> plain_decimal (trim held)
          \<and> text_value (trim (in_baseAmount inp)) \<le> text_value (trim held))"
proof -
  let ?pc = "op_positionContext p"
  have v: "isReduceOnlyVerifiable (in_side inp) ?pc"
    and s: "assertProtectiveSizeWithinPosition (in_baseAmount inp) ?pc = Inr ()"
    using assms(2) by (auto intro: preview_checks [OF assms(1)])
  obtain held where h: "pc_marketPosition ?pc = Some held" "plain_decimal (trim held)"
    "\<not> compareDecimalStrings (in_baseAmount inp) held > 0"
    using s by (auto simp: assertProtectiveSizeWithinPosition_def result_simps decimalParts_None_iff
        split: option.splits)
  have "plain_decimal (trim (in_baseAmount inp))" using preview_numbers [OF assms(1)] by blast
  with h have "text_value (trim (in_baseAmount inp)) \<le> text_value (trim held)" by (intro compare_le)
  with h v show ?thesis
    by (cases "in_side inp") (auto simp: isReduceOnlyVerifiable_def split: if_splits)
qed

lemma trigger_on_protective_side:
  assumes "buildLighterOrderPreview sha256 now inp cx = Inr p"
    and "isProtectiveOrderType (in_orderType inp)"
  shows "\<exists>trigger reference. in_triggerPrice inp = Some trigger
     \<and> (if in_side inp = Sell then op_bestBid p else op_bestAsk p) = Some reference
     \<and> in_reduceOnly inp \<and> op_marketType p = ''perp''
     \<and> (if (in_side inp = Sell) = isStopLossOrderType (in_orderType inp)
        then text_value (trim trigger) < text_value (trim reference)
        else text_value (trim reference) < text_value (trim trigger))
     \<and> (if in_side inp = Sell then text_value (trim (in_price inp)) \<le> text_value (trim trigger)
        else text_value (trim trigger) \<le> text_value (trim (in_price inp)))"
proof -
  obtain a :: preview_amounts where c: "assertOrderCombination inp (cx_market cx) = Inr ()"
    and m: "op_marketType p = mk_market_type (cx_market cx)"
    and d: "assertProtectiveTriggerDirection inp (pa_trigger a) (op_bestBid p) (op_bestAsk p) = Inr ()"
    by (rule preview_checks [OF assms(1)])
  from c assms(2) have combo: "mk_market_type (cx_market cx) = ''perp''" "in_reduceOnly inp"
    by (auto simp: assertOrderCombination_def result_simps)
  have price: "plain_decimal (trim (in_price inp))" using preview_numbers [OF assms(1)] by blast
  obtain trigger reference where
    t: "in_triggerPrice inp = Some trigger"
    and r: "(if in_side inp = Sell then op_bestBid p else op_bestAsk p) = Some reference"
    and valid: "if (in_side inp = Sell) = isStopLossOrderType (in_orderType inp)
         then compareDecimalStrings trigger reference < 0 else compareDecimalStrings trigger reference > 0"
    and bound: "in_side inp = Sell \<Longrightarrow> \<not> compareDecimalStrings (in_price inp) trigger > 0"
      "in_side inp = Buy \<Longrightarrow> \<not> compareDecimalStrings (in_price inp) trigger < 0"
    using d assms(2)
    by (auto simp: assertProtectiveTriggerDirection_def result_simps Let_def split: option.splits if_splits)
  have tp: "plain_decimal (trim trigger)"
    using valid compare_neg compare_pos by (metis (full_types))
  have "if (in_side inp = Sell) = isStopLossOrderType (in_orderType inp)
        then text_value (trim trigger) < text_value (trim reference)
        else text_value (trim reference) < text_value (trim trigger)"
    using valid compare_neg [of trigger reference] compare_pos [of trigger reference]
    by (simp split: if_splits)
  moreover have "if in_side inp = Sell then text_value (trim (in_price inp)) \<le> text_value (trim trigger)
        else text_value (trim trigger) \<le> text_value (trim (in_price inp))"
    using bound compare_le [OF price tp] compare_ge [OF price tp] by (cases "in_side inp") simp_all
  ultimately show ?thesis using t r combo by (auto simp: m)
qed

section \<open>Properties\<close>




text \<open>
  A post-only limit order is previewed only when it would rest. A buy is priced strictly
  below the best ask and a sell strictly above the best bid, both of them readable prices.
\<close>

theorem post_only_rests:
  assumes "buildLighterOrderPreview sha256 now inp cx = Inr p"
    and "in_timeInForce inp = PostOnly" "\<not> isTriggerLimitOrderType (in_orderType inp)"
  shows "in_orderType inp = Limit
     \<and> (\<exists>best. (if in_side inp = Buy then op_bestAsk p else op_bestBid p) = Some best
          \<and> plain_decimal (trim best)
          \<and> (if in_side inp = Buy then text_value (trim (in_price inp)) < text_value (trim best)
             else text_value (trim best) < text_value (trim (in_price inp))))"
proof -
  let ?c = "classifyPriceComparison (in_side inp) (in_orderType inp) (in_price inp) (op_bestBid p) (op_bestAsk p)"
  have c: "?c = Resting" by (rule preview_checks [OF assms(1)]) (simp add: assms(2,3))
  then have t: "in_orderType inp = Limit"
    by (cases "in_orderType inp") (auto simp: classifyPriceComparison_def isProtectiveOrderType_def)
  have price: "plain_decimal (trim (in_price inp))" using preview_numbers [OF assms(1)] by blast
  show ?thesis
  proof (cases "in_side inp")
    case Buy
    with c obtain ask where ask: "op_bestAsk p = Some ask" "plain_decimal (trim ask)"
      "\<not> compareDecimalStrings (in_price inp) ask \<ge> 0"
      by (auto simp: classifyPriceComparison_def t isProtectiveOrderType_def decimalParts_None_iff
          split: option.splits if_splits)
    then show ?thesis using t Buy compare_neg [of "in_price inp" ask] by auto
  next
    case Sell
    with c obtain bid where bid: "op_bestBid p = Some bid" "plain_decimal (trim bid)"
      "\<not> compareDecimalStrings (in_price inp) bid \<le> 0"
      by (auto simp: classifyPriceComparison_def t isProtectiveOrderType_def decimalParts_None_iff
          split: option.splits if_splits)
    then show ?thesis using t Sell compare_pos [of "in_price inp" bid] by auto
  qed
qed

section \<open>Spot inventory\<close>

lemma spot_market_fee_value:
  assumes "spot_market_fee inp market n = Inr (src, pct, fee)"
  shows "in_side inp = Buy \<and> mk_is_taker_fee_enabled market \<longrightarrow>
    of_nat n * (text_value (trim (mk_taker_fee market)) / 100) \<le> (of_nat fee :: rat)"
proof (intro impI, elim conjE)
  assume b: "in_side inp = Buy" "mk_is_taker_fee_enabled market"
  with assms obtain i k where d: "decimalParts (mk_taker_fee market) = Some (i, k)"
    by (auto simp: spot_market_fee_def split: option.splits)
  with assms b have fee: "fee = (if i = 0 then 0 else divideCeil (n * i) (100 * 10 ^ k))"
    by (auto simp: spot_market_fee_def result_simps split: if_splits)
  have "(of_nat (n * i) :: rat) / of_nat (100 * 10 ^ k) \<le> of_nat (divideCeil (n * i) (100 * 10 ^ k))"
    by (rule preview_ceil.exact_le) simp
  then show "of_nat n * (text_value (trim (mk_taker_fee market)) / 100) \<le> (of_nat fee :: rat)"
    by (simp add: fee decimalParts_value [OF d] mult.commute)
qed

lemma spot_account_fee_value:
  assumes "spot_account_fee inp ticks n (src, pct, fee) = Inr (src', pct', fee')"
  shows "fee \<le> fee' \<and> (in_side inp = Buy \<longrightarrow>
    (\<forall>t. ticks = Some t \<longrightarrow> of_nat n * (of_int (int_of_js t) / 1000000) \<le> (of_nat fee' :: rat)))"
proof -
  have up: "of_nat n * (of_int (int_of_js t) / 1000000) \<le> (of_nat (divideCeil (n * nat (int_of_js t)) 1000000) :: rat)"
    if "0 \<le> int_of_js t" for t
    using preview_ceil.exact_le [of 1000000 "n * nat (int_of_js t)"] that by simp
  show ?thesis
  proof (cases "if in_side inp = Buy then ticks else None")
    case None
    with assms show ?thesis by (auto simp: spot_account_fee_def split: if_splits)
  next
    case (Some t)
    then have b: "in_side inp = Buy" "ticks = Some t" by (auto split: if_splits)
    with assms have r: "safe_in_range t 0 1000000"
      and f: "fee' = max fee (divideCeil (n * nat (int_of_js t)) 1000000)"
      by (auto simp: spot_account_fee_def result_simps Let_def split: if_splits)
    have "of_nat n * (of_int (int_of_js t) / 1000000) \<le> (of_nat (divideCeil (n * nat (int_of_js t)) 1000000) :: rat)"
      using r by (intro up) (simp add: safe_in_range_def)
    also have "\<dots> \<le> of_nat fee'" by (simp add: f)
    finally show ?thesis by (simp add: b f)
  qed
qed

lemma spot_inventory_parts:
  assumes "assertSpotOrderInventory inp cx b n = Inr spot" "mk_market_type (cx_market cx) = ''spot''"
  shows "\<exists>s asset m fee u src pct. spot = Some s
     \<and> \<not> in_reduceOnly inp
     \<and> subtractDecimalStrings (as_balance asset) (as_locked_balance asset) = Inr u
     \<and> spot_market_fee inp (cx_market cx) n = Inr m
     \<and> spot_account_fee inp (cx_accountTakerFeeTicks cx) n m = Inr (src, pct, fee)
     \<and> sp_assetId s = as_asset_id asset \<and> sp_unlockedBalance s = u
     \<and> (\<exists>owner assets. owner \<in> set (cx_accounts cx) \<and> accountIndexOf owner = Some (in_accountIndex inp)
          \<and> acct_assets owner = Some assets \<and> asset \<in> set assets)
     \<and> sp_requiredAmount s = (if in_side inp = Sell
           then formatInteger (int b) (nat (int_of_js (mk_supported_size_decimals (cx_market cx))))
           else formatInteger (int (n + fee)) (nat (int_of_js (mk_supported_quote_decimals (cx_market cx)))))
     \<and> \<not> compareDecimalStrings u (sp_requiredAmount s) < 0"
proof -
  let ?id = "if in_side inp = Sell then mk_base_asset_id (cx_market cx) else mk_quote_asset_id (cx_market cx)"
  from assms obtain owner where o: "find (\<lambda>a. accountIndexOf a = Some (in_accountIndex inp)) (cx_accounts cx) = Some owner"
    by (auto simp: assertSpotOrderInventory_def result_simps Let_def split: option.splits)
  with assms obtain assets where as: "acct_assets owner = Some assets"
    by (auto simp: assertSpotOrderInventory_def result_simps Let_def split: option.splits)
  with assms o obtain asset where m: "filter (\<lambda>a. same_number ?id (as_asset_id a)) assets = [asset]"
    by (auto simp: assertSpotOrderInventory_def result_simps Let_def split: list.splits)
  then have "asset \<in> set assets" by (metis filter_is_subset list.set_intros(1) subsetD)
  moreover have "owner \<in> set (cx_accounts cx)" "accountIndexOf owner = Some (in_accountIndex inp)"
    using find_Some_iff [OF o] by auto
  moreover obtain u mf src pct fee and s :: spot_inventory where
    "\<not> in_reduceOnly inp" "subtractDecimalStrings (as_balance asset) (as_locked_balance asset) = Inr u"
    "spot_market_fee inp (cx_market cx) n = Inr mf"
    "spot_account_fee inp (cx_accountTakerFeeTicks cx) n mf = Inr (src, pct, fee)"
    "spot = Some s" "sp_assetId s = as_asset_id asset" "sp_unlockedBalance s = u"
    "sp_requiredAmount s = (if in_side inp = Sell
           then formatInteger (int b) (nat (int_of_js (mk_supported_size_decimals (cx_market cx))))
           else formatInteger (int (n + fee)) (nat (int_of_js (mk_supported_quote_decimals (cx_market cx)))))"
    "\<not> compareDecimalStrings u (sp_requiredAmount s) < 0"
    using assms o as m
    by (cases "in_side inp") (auto simp: assertSpotOrderInventory_def result_simps Let_def)
  ultimately show ?thesis using as by blast
qed

text \<open>
  A spot order is previewed only when the unlocked balance covers it. For a sell the
  unlocked base asset is at least the amount; for a buy the unlocked quote asset is at least
  the notional plus the market's taker fee and plus the account's own fee bound, taken
  exactly, whichever is larger.
\<close>

theorem spot_order_covered:
  assumes "buildLighterOrderPreview sha256 now inp cx = Inr p" "mk_market_type (cx_market cx) = ''spot''"
  shows "\<not> in_reduceOnly inp \<and> (\<exists>owner assets asset unlocked.
       owner \<in> set (cx_accounts cx) \<and> accountIndexOf owner = Some (in_accountIndex inp)
     \<and> acct_assets owner = Some assets \<and> asset \<in> set assets
     \<and> unlocked = text_value (trim (as_balance asset)) - text_value (trim (as_locked_balance asset))
     \<and> (let base = text_value (trim (in_baseAmount inp)); notional = base * text_value (trim (in_price inp)) in
        case in_side inp of
          Sell \<Rightarrow> base \<le> unlocked
        | Buy \<Rightarrow> notional \<le> unlocked
           \<and> (mk_is_taker_fee_enabled (cx_market cx) \<longrightarrow>
                notional * (1 + text_value (trim (mk_taker_fee (cx_market cx))) / 100) \<le> unlocked)
           \<and> (\<forall>t. cx_accountTakerFeeTicks cx = Some t \<longrightarrow>
                notional * (1 + of_int (int_of_js t) / 1000000) \<le> unlocked)))"
proof -
  obtain b q sd pd spot where
    sd: "mk_supported_size_decimals (cx_market cx) = JsInt (int sd)"
    and qd: "mk_supported_quote_decimals (cx_market cx) = JsInt (int (sd + pd))"
    and b: "of_nat b = text_value (trim (in_baseAmount inp)) * 10 ^ sd"
    and q: "of_nat q = text_value (trim (in_price inp)) * 10 ^ pd"
    and inv: "assertSpotOrderInventory inp cx b (b * q) = Inr spot"
    using preview_numbers [OF assms(1)] by blast
  let ?base = "text_value (trim (in_baseAmount inp))" and ?price = "text_value (trim (in_price inp))"
  obtain s :: spot_inventory and asset m fee u src pct owner assets where
    ro: "\<not> in_reduceOnly inp"
    and u: "subtractDecimalStrings (as_balance asset) (as_locked_balance asset) = Inr u"
    and mf: "spot_market_fee inp (cx_market cx) (b * q) = Inr m"
    and af: "spot_account_fee inp (cx_accountTakerFeeTicks cx) (b * q) m = Inr (src, pct, fee)"
    and own: "owner \<in> set (cx_accounts cx)" "accountIndexOf owner = Some (in_accountIndex inp)"
      "acct_assets owner = Some assets" "asset \<in> set assets"
    and req: "sp_requiredAmount s = (if in_side inp = Sell
           then formatInteger (int b) (nat (int_of_js (mk_supported_size_decimals (cx_market cx))))
           else formatInteger (int (b * q + fee)) (nat (int_of_js (mk_supported_quote_decimals (cx_market cx)))))"
    and cmp: "\<not> compareDecimalStrings u (sp_requiredAmount s) < 0"
    using spot_inventory_parts [OF inv assms(2)] by blast
  let ?un = "text_value (trim (as_balance asset)) - text_value (trim (as_locked_balance asset))"
  note uv = subtract_value [OF u]
  have plain: "plain_decimal (trim (sp_requiredAmount s))"
    by (cases "in_side inp = Sell") (simp_all only: req if_True if_False formatInteger_facts(1) simp_thms)
  have cover: "text_value (trim (sp_requiredAmount s)) \<le> ?un"
    using compare_ge [OF conjunct1 [OF uv] plain cmp] conjunct2 [OF uv] by simp
  show ?thesis
  proof (cases "in_side inp")
    case Sell
    have "text_value (trim (sp_requiredAmount s)) = ?base"
      by (simp add: req Sell formatInteger_facts(2) sd b)
    with cover Sell ro own show ?thesis by (auto simp: Let_def)
  next
    case Buy
    obtain src0 pct0 fee0 where m: "m = (src0, pct0, fee0)" by (cases m) auto
    have v: "text_value (trim (sp_requiredAmount s)) = (of_nat (b * q) + of_nat fee) / 10 ^ (sd + pd)"
    proof -
      have "sp_requiredAmount s = formatInteger (int (b * q + fee)) (sd + pd)"
        by (simp only: req Buy qd order_side.distinct if_False int_of_js.simps nat_int)
      then show ?thesis by (simp only: formatInteger_facts(2)) (simp only: of_nat_add)
    qed
    have n: "(of_nat (b * q) :: rat) / 10 ^ (sd + pd) = ?base * ?price"
      by (simp add: b q power_add)
    have part: "?base * ?price * (1 + r) \<le> ?un" if "of_nat (b * q) * r \<le> (of_nat fee :: rat)" for r
    proof -
      have "?base * ?price * (1 + r) = (of_nat (b * q) + of_nat (b * q) * r) / 10 ^ (sd + pd)"
        by (simp only: n [symmetric]) (simp add: field_simps)
      also have "\<dots> \<le> text_value (trim (sp_requiredAmount s))"
        unfolding v using that by (intro divide_right_mono add_left_mono) simp_all
      finally show ?thesis using cover by (rule order.trans)
    qed
    have "fee0 \<le> fee" using spot_account_fee_value [OF af [unfolded m]] by blast
    then have "of_nat (b * q) * (text_value (trim (mk_taker_fee (cx_market cx))) / 100) \<le> (of_nat fee :: rat)"
      if "mk_is_taker_fee_enabled (cx_market cx)"
      using spot_market_fee_value [OF mf [unfolded m]] Buy that
      by (meson of_nat_le_iff order.trans)
    then have 1: "mk_is_taker_fee_enabled (cx_market cx) \<longrightarrow>
        ?base * ?price * (1 + text_value (trim (mk_taker_fee (cx_market cx))) / 100) \<le> ?un"
      by (intro impI part)
    have "of_nat (b * q) * (of_int (int_of_js t) / 1000000) \<le> (of_nat fee :: rat)"
      if "cx_accountTakerFeeTicks cx = Some t" for t
      using spot_account_fee_value [OF af [unfolded m]] Buy that by blast
    then have 2: "\<forall>t. cx_accountTakerFeeTicks cx = Some t \<longrightarrow>
        ?base * ?price * (1 + of_int (int_of_js t) / 1000000) \<le> ?un"
      by (intro allI impI part)
    have 3: "?base * ?price \<le> ?un" using part [of 0] by simp
    show ?thesis
      unfolding Let_def Buy order_side.case
      by (intro conjI exI) (rule ro own refl 1 2 3)+
  qed
qed

section \<open>The hash binds the order\<close>

definition fees_ok :: "integrator_fees option \<Rightarrow> bool" where
  "fees_ok fees = (case fees of None \<Rightarrow> True | Some f \<Rightarrow> assertLighterIntegratorFees f = Inr ())"

lemma show_nat_int_inject: "0 \<le> a \<Longrightarrow> 0 \<le> b \<Longrightarrow> show_int a = show_int b \<longleftrightarrow> a = b"
  by (auto simp: show_int_def)

lemma fee_texts_inject:
  assumes "assertLighterIntegratorFees f = Inr ()" "assertLighterIntegratorFees g = Inr ()"
    and "number_text (integratorAccountIndex f) = number_text (integratorAccountIndex g)"
    and "number_text (integratorMakerFee f) = number_text (integratorMakerFee g)"
    and "number_text (integratorTakerFee f) = number_text (integratorTakerFee g)"
  shows "f = g"
  using assms
  unfolding assertLighterIntegratorFees_iff number_text_def
  by (auto simp: show_nat_int_inject)

lemma hash_material_inject:
  assumes "lighterOrderPreviewHashMaterial i = lighterOrderPreviewHashMaterial j"
    and "fees_ok (id_integratorFees i)" "fees_ok (id_integratorFees j)"
  shows "i = j"
proof -
  have fees: "id_integratorFees i = id_integratorFees j"
    using assms
    by (cases "id_integratorFees i"; cases "id_integratorFees j")
      (auto simp: lighterOrderPreviewHashMaterial_def fees_ok_def intro: fee_texts_inject)
  then have rest: "id_sessionId i = id_sessionId j" "id_environment i = id_environment j"
    "id_accountIndex i = id_accountIndex j" "id_apiKeyIndex i = id_apiKeyIndex j"
    "id_marketIndex i = id_marketIndex j" "id_side i = id_side j"
    "id_baseAmountInteger i = id_baseAmountInteger j" "id_priceInteger i = id_priceInteger j"
    "id_orderType i = id_orderType j" "id_timeInForce i = id_timeInForce j"
    "id_reduceOnly i = id_reduceOnly j" "id_triggerPriceInteger i = id_triggerPriceInteger j"
    "id_expiryMs i = id_expiryMs j" "id_clientOrderIndexPolicy i = id_clientOrderIndexPolicy j"
    "id_providerVersion i = id_providerVersion j"
    using assms(1)
    by (simp_all add: lighterOrderPreviewHashMaterial_def environment_text_inject side_text_inject
        order_type_text_inject time_in_force_text_inject split: if_splits)
  show ?thesis
    by (rule preview_identity.equality) (simp_all add: fees rest)
qed

lemma built_fees_ok:
  assumes "buildLighterOrderPreview sha256 now inp cx = Inr p"
  shows "fees_ok (id_integratorFees (op_identity p))"
proof -
  obtain f a where f: "readLighterOrderFeeTerms (in_integratorFees inp) = Inr f"
    and i: "op_identity p = preview_identity_of inp a"
    using build_parts [OF assms] by (metis preview_of_sel(1))
  from f have "fees_ok (typed_fees (in_integratorFees inp))"
    by (cases "in_integratorFees inp")
      (auto simp: readLighterOrderFeeTerms_def typed_fees_def fees_ok_def result_simps Let_def)
  then show ?thesis by (simp add: i preview_identity_of_def)
qed

text \<open>
  C16: An approval binds every field of the order. Two previews with the same match hash have
  the same identity (session, deployment, account, key, market, side, amounts, type, time in
  force, trigger, expiry, policy and fees), or the two different texts that were hashed are a
  collision of SHA-256.
\<close>

theorem match_hash_binds_order:
  assumes "buildLighterOrderPreview sha256 now inp cx = Inr p"
    and "buildLighterOrderPreview sha256 now' inp' cx' = Inr p'"
    and "op_matchHash p = op_matchHash p'"
  shows "op_identity p = op_identity p'
    \<or> (\<exists>s t. s = json_string_array (lighterOrderPreviewHashMaterial (op_identity p))
           \<and> t = json_string_array (lighterOrderPreviewHashMaterial (op_identity p'))
           \<and> s \<noteq> t \<and> sha256 s = sha256 t)"
proof -
  have h: "op_matchHash r = computeLighterOrderPreviewHash sha256 (op_identity r)"
    if b: "buildLighterOrderPreview sha256 n i c = Inr r" for n i and c :: "'z preview_context" and r
    using build_parts [OF b] by (metis preview_of_sel(1,2))
  have "op_identity p = op_identity p'"
    if "json_string_array (lighterOrderPreviewHashMaterial (op_identity p))
      = json_string_array (lighterOrderPreviewHashMaterial (op_identity p'))"
    using that built_fees_ok [OF assms(1)] built_fees_ok [OF assms(2)]
    by (simp only: json_string_array_inject hash_material_inject)
  then show ?thesis
    using assms(3) h [OF assms(1)] h [OF assms(2)]
    by (auto simp: computeLighterOrderPreviewHash_def)
qed

text \<open>
  Printing and parsing are inverse. The display text of an integer amount, at any scale up
  to 18 decimals, parses back to the same integer.
\<close>

theorem display_parses_back:
  assumes "formatLighterIntegerAmount (int n) decimals = Inr s" "0 < n \<or> allowZero"
  shows "decimalToLighterInteger s decimals field allowZero = Inr n"
proof -
  from assms obtain i where i: "decimals = JsInt i" "0 \<le> i" "i \<le> 18"
    and s: "s = formatInteger (int n) (nat i)"
    by (auto simp: formatLighterIntegerAmount_def result_simps integer_in_range_iff)
  let ?d = "nat i" and ?f = "strip_trailing_zeros (fraction_or_empty s)"
  note plain = formatInteger_plain [of n ?d, folded s]
  have len: "length ?f \<le> ?d" using plain length_strip_trailing [of "fraction_or_empty s"] by linarith
  let ?m = "digits_val (strip_leading_zeros (whole_part s @ pad_end ?d ?f))"
  have "(of_nat ?m :: rat) = decimal_value (whole_part s) ?f * 10 ^ ?d"
    by (simp only: digits_val_strip_leading scaled_text_value [OF len])
  also have "\<dots> = text_value s * 10 ^ ?d" by (simp only: decimal_value_strip text_value_def)
  also have "\<dots> = of_nat n" using plain by simp
  finally have "?m = n" by (simp only: of_nat_eq_iff)
  then show ?thesis
    using plain len i assms(2)
    by (auto simp: decimalToLighterInteger_def integer_in_range_def Let_def)
qed

section \<open>Concrete previews\<close>

definition sample_market :: market_detail where
  "sample_market = \<lparr> mk_symbol = ''ETH'', mk_market_id = JsInt 5, mk_market_type = ''perp'',
     mk_status = ''active'', mk_base_asset_id = None, mk_quote_asset_id = None,
     mk_taker_fee = ''0'', mk_is_taker_fee_enabled = False, mk_min_base_amount = ''0.0010'',
     mk_min_quote_amount = ''10'', mk_supported_size_decimals = JsInt 4,
     mk_supported_price_decimals = JsInt 2, mk_supported_quote_decimals = JsInt 6,
     mk_mark_price = Some ''300'', mk_index_price = None, mk_last_trade_price = None \<rparr>"

definition sample_spot_market :: market_detail where
  "sample_spot_market = sample_market \<lparr> mk_market_id := JsInt 2049, mk_market_type := ''spot'',
     mk_base_asset_id := Some (JsInt 1), mk_quote_asset_id := Some (JsInt 3),
     mk_taker_fee := ''0.1'', mk_is_taker_fee_enabled := True \<rparr>"

definition sample_trader :: lighter_account where
  "sample_trader = \<lparr> acct_index = Some (JsInt 7), acct_account_index = None, acct_l1_address = None,
     acct_approved_integrators = None,
     acct_positions = Some [Some \<lparr> ps_market_id = Some (JsInt 5), ps_marketId = None,
       ps_position = Some ''0.5'', ps_size = None, ps_sign = Some (JsInt 1) \<rparr>],
     acct_assets = Some [\<lparr> as_symbol = ''USDC'', as_asset_id = JsInt 3,
       as_balance = ''1000'', as_locked_balance = ''10.5'' \<rparr>] \<rparr>"

definition sample_context :: "market_detail \<Rightarrow> unit preview_context" where
  "sample_context m = \<lparr> cx_accountTakerFeeTicks = Some (JsInt 2000), cx_market = m,
     cx_bids = [Some ''299.9'', Some ''299''], cx_asks = [Some ''300.5'', Some ''300.02''],
     cx_accounts = [sample_trader], cx_capitalShare = None \<rparr>"

definition sample_input :: preview_input where
  "sample_input = \<lparr> in_sessionId = ''s'', in_environment = Core, in_accountIndex = JsInt 7,
     in_apiKeyIndex = Some (JsInt 3), in_marketId = JsInt 5, in_side = Buy,
     in_baseAmount = ''0.15'', in_price = ''300.01'', in_orderType = Limit,
     in_timeInForce = PostOnly, in_reduceOnly = False, in_triggerPrice = None,
     in_orderExpiry = JsInt 1000000, in_clientOrderIndexPolicy = ''vex_assigned_uint48'',
     in_integratorFees = Null \<rparr>"

definition sample_stop_input :: preview_input where
  "sample_stop_input = sample_input \<lparr> in_side := Sell, in_orderType := StopLoss,
     in_timeInForce := ImmediateOrCancel, in_reduceOnly := True, in_triggerPrice := Some ''290'',
     in_price := ''280.5'' \<rparr>"

definition sample_spot_input :: preview_input where
  "sample_spot_input = sample_input \<lparr> in_marketId := JsInt 2049, in_timeInForce := ImmediateOrCancel \<rparr>"

lemmas sample_defs =
  sample_market_def sample_spot_market_def sample_trader_def sample_context_def sample_input_def
  sample_stop_input_def sample_spot_input_def

lemmas preview_check_defs =
  validateInputScalars_def assertMarketMatches_def js_between_def assertSignableMarketIndex_def
  accountIndexOf_def assertAccountContainsIndex_def assertQuoteScale_def assertExpiry_def
  isProtectiveOrderType_def isTriggerLimitOrderType_def isStopLossOrderType_def
  assertOrderCombination_def assertLighterPhaseOneOrderPolicy_def
  lighterPhaseOneOrderPolicyFailure_def LIGHTER_ALLOWED_CREATE_ORDER_TUPLES_def
  same_number_def readPositionContext_def isReduceOnlyVerifiable_def
  assertProtectiveSizeWithinPosition_def classifyPriceComparison_def
  assertProtectiveTriggerDirection_def readLighterOrderFeeTerms_def preview_integers_def
  decimalToLighterInteger_def decimalParts_def compareDecimalStrings_def
  stringValue_def sort_by_def bestPrice_def integer_in_range_def safe_in_range_def max_safe_integer_def preview_constants
  List.map_filter_def

lemma formatInteger_eval:
  "0 \<le> v \<Longrightarrow> 0 < d \<Longrightarrow> formatInteger v d =
     slice_front d (pad_start (d + 1) (show_nat (nat v)))
     @ (if strip_trailing_zeros (slice_back d (pad_start (d + 1) (show_nat (nat v)))) = [] then ''''
        else ''.'' @ strip_trailing_zeros (slice_back d (pad_start (d + 1) (show_nat (nat v)))))"
  by (simp add: formatInteger_def Let_def)

lemma sample_amounts:
  "subtractDecimalStrings ''1000'' ''10.5'' = Inr ''989.5''"
  "normalizeDecimalString ''0.1'' = Inr ''0.1''" "normalizeDecimalString ''10.5'' = Inr ''10.5''"
  "compareDecimalStrings ''989.5'' ''45.091503'' = 1"
  "formatInteger (int 45091503) 6 = ''45.091503''"
  by (simp_all add: subtractDecimalStrings_def normalizeDecimalString_def compareDecimalStrings_def
      decimalParts_def formatInteger_eval Let_def text_eval)

lemma sample_total: "normalizeDecimalString ''1000'' = Inr ''1000''"
  by (simp add: normalizeDecimalString_def decimalParts_def formatInteger_def show_int_def Let_def text_eval)

lemma sample_market_fee:
  "spot_market_fee sample_spot_input sample_spot_market 45001500 = Inr (LiveMarketPercentage, Some ''0.1'', 45002)"
  by (simp add: spot_market_fee_def sample_amounts sample_defs decimalParts_def divideCeil_def Let_def text_eval)

lemma sample_account_fee:
  "spot_account_fee sample_spot_input (Some (JsInt 2000)) 45001500 (a, b, 45002)
     = Inr (LiveAccountOrMarketFee, Some ''0.2'', 90003)"
  by (simp add: spot_account_fee_def safe_in_range_def max_safe_integer_def sample_defs divideCeil_def
      formatInteger_eval Let_def text_eval)

lemma sample_spot_inventory:
  "\<exists>s. assertSpotOrderInventory sample_spot_input (sample_context sample_spot_market) 1500 45001500
     = Inr (Some s)"
proof -
  have [simp]: "mk_market_type sample_spot_market = ''spot''" "in_reduceOnly sample_spot_input = False"
    "in_side sample_spot_input = Buy" "in_accountIndex sample_spot_input = JsInt 7"
    "mk_quote_asset_id sample_spot_market = Some (JsInt 3)"
    "mk_supported_quote_decimals sample_spot_market = JsInt 6"
    "cx_market (sample_context sample_spot_market) = sample_spot_market"
    "cx_accounts (sample_context sample_spot_market) = [sample_trader]"
    "cx_accountTakerFeeTicks (sample_context sample_spot_market) = Some (JsInt 2000)"
    by (simp_all add: sample_defs)
  have [simp]: "accountIndexOf sample_trader = Some (JsInt 7)"
    "acct_assets sample_trader = Some [\<lparr> as_symbol = ''USDC'', as_asset_id = JsInt 3,
       as_balance = ''1000'', as_locked_balance = ''10.5'' \<rparr>]"
    by (simp_all add: sample_trader_def accountIndexOf_def max_safe_integer_def)
  show ?thesis
    using sample_amounts(5)
    by (simp add: assertSpotOrderInventory_def Let_def same_number_def sample_amounts sample_total
        sample_market_fee sample_account_fee)
qed

lemma no_inventory_for_perp:
  "mk_market_type (cx_market cx) \<noteq> ''spot'' \<Longrightarrow> assertSpotOrderInventory inp cx b n = Inr None"
  by (simp add: assertSpotOrderInventory_def Let_def)

lemma sample_preview:
  "\<exists>p. buildLighterOrderPreview (\<lambda>t. t) 0 sample_input (sample_context sample_market) = Inr p"
  by (simp add: buildLighterOrderPreview_def Let_def preview_check_defs no_inventory_for_perp sample_defs
      text_eval)

lemma sample_stop_preview:
  "\<exists>p. buildLighterOrderPreview (\<lambda>t. t) 0 sample_stop_input (sample_context sample_market) = Inr p"
  by (simp add: buildLighterOrderPreview_def Let_def preview_check_defs no_inventory_for_perp sample_defs
      text_eval)

lemma sample_spot_preview:
  "\<exists>p. buildLighterOrderPreview (\<lambda>t. t) 0 sample_spot_input (sample_context sample_spot_market) = Inr p"
proof -
  obtain s where s: "assertSpotOrderInventory sample_spot_input (sample_context sample_spot_market) 1500 45001500
     = Inr (Some s)"
    using sample_spot_inventory by blast
  have a: "preview_integers sample_spot_input sample_spot_market
     = Inr \<lparr> pa_base = 1500, pa_price = 30001, pa_trigger = None, pa_minBase = 10,
             pa_minQuote = 10000000, pa_notional = 45001500 \<rparr>"
    by (simp add: preview_check_defs sample_defs Let_def text_eval)
  have m: "cx_market (sample_context sample_spot_market) = sample_spot_market"
    by (simp add: sample_context_def)
  have checks: "validateInputScalars sample_spot_input = Inr ()"
    "readLighterOrderFeeTerms (in_integratorFees sample_spot_input) = Inr None"
    "assertMarketMatches sample_spot_input sample_spot_market = Inr ()"
    "assertSignableMarketIndex sample_spot_market = Inr ()"
    "assertAccountContainsIndex sample_spot_input (cx_accounts (sample_context sample_spot_market)) = Inr ()"
    "assertQuoteScale sample_spot_market = Inr ()"
    "assertExpiry (in_orderExpiry sample_spot_input) 0 = Inr ()"
    "assertOrderCombination sample_spot_input sample_spot_market = Inr ()"
    "in_reduceOnly sample_spot_input = False" "in_timeInForce sample_spot_input = ImmediateOrCancel"
    "\<And>t b k. assertProtectiveTriggerDirection sample_spot_input t b k = Inr ()"
    by (simp_all add: preview_check_defs sample_defs Let_def text_eval)
  show ?thesis
    by (simp add: buildLighterOrderPreview_def Let_def m a s checks)
qed




theorem post_only_rests_witness:
  "\<exists>p best. buildLighterOrderPreview (\<lambda>t. t) 0 sample_input (sample_context sample_market) = Inr p
     \<and> op_bestAsk p = Some best \<and> text_value (trim ''300.01'') < text_value (trim best)"
proof -
  obtain p where p: "buildLighterOrderPreview (\<lambda>t. t) 0 sample_input (sample_context sample_market) = Inr p"
    using sample_preview by blast
  have i: "in_timeInForce sample_input = PostOnly" "\<not> isTriggerLimitOrderType (in_orderType sample_input)"
    "in_side sample_input = Buy" "in_price sample_input = ''300.01''"
    by (simp_all add: sample_defs isTriggerLimitOrderType_def)
  show ?thesis using p post_only_rests [OF p i(1,2)] i by auto
qed

theorem spot_order_covered_witness:
  "\<exists>unlocked. text_value (trim ''0.15'') * text_value (trim ''300.01'') \<le> unlocked
     \<and> (\<exists>asset :: account_asset. unlocked = text_value (trim (as_balance asset)) - text_value (trim (as_locked_balance asset)))"
proof -
  obtain p where p: "buildLighterOrderPreview (\<lambda>t. t) 0 sample_spot_input (sample_context sample_spot_market) = Inr p"
    using sample_spot_preview by blast
  have i: "mk_market_type (cx_market (sample_context sample_spot_market)) = ''spot''"
    "in_side sample_spot_input = Buy" "in_price sample_spot_input = ''300.01''"
    "in_baseAmount sample_spot_input = ''0.15''"
    by (simp_all add: sample_defs)
  obtain asset :: account_asset where "text_value (trim ''0.15'') * text_value (trim ''300.01'')
      \<le> text_value (trim (as_balance asset)) - text_value (trim (as_locked_balance asset))"
    using spot_order_covered [OF p i(1)] i(2-4) unfolding Let_def by auto
  then show ?thesis by blast
qed

theorem match_hash_binds_order_witness:
  "\<exists>p. buildLighterOrderPreview (\<lambda>t. t) 0 sample_input (sample_context sample_market) = Inr p
     \<and> (op_identity p = op_identity p
        \<or> (\<exists>s t. s = json_string_array (lighterOrderPreviewHashMaterial (op_identity p))
             \<and> t = json_string_array (lighterOrderPreviewHashMaterial (op_identity p)) \<and> s \<noteq> t \<and> s = t))"
proof -
  obtain p where p: "buildLighterOrderPreview (\<lambda>t. t) 0 sample_input (sample_context sample_market) = Inr p"
    using sample_preview by blast
  show ?thesis using p match_hash_binds_order [OF p p refl] by blast
qed

theorem display_parses_back_witness:
  "decimalToLighterInteger ''0.15'' (JsInt 4) ''amount'' False = Inr 1500"
  by (rule display_parses_back)
    (simp_all add: formatLighterIntegerAmount_def integer_in_range_def formatInteger_eval text_eval)

end
