(* ===== verification/OrderSigner.thy ===== *)
theory OrderSigner
  imports OrderAdmission
begin

text \<open>
  From an approved order to what the official signer is asked to sign:
  \<open>src/src/tools/lighter/signer-order.ts\<close> (the unsigned request),
  \<open>signer-adapter.ts\<close> (the checks before and after the signer) and \<open>oco-order.ts\<close> (a
  stop-loss and a take-profit that cancel one another). The signer helper and SHA-256 are
  parameters; a promise that rejects is an error of the result.
\<close>

section \<open>The unsigned request\<close>

fun LIGHTER_SIGNER_ORDER_TYPE_CODES :: "order_type \<Rightarrow> nat" where
  "LIGHTER_SIGNER_ORDER_TYPE_CODES Limit = 0"
| "LIGHTER_SIGNER_ORDER_TYPE_CODES Market = 1"
| "LIGHTER_SIGNER_ORDER_TYPE_CODES StopLoss = 2"
| "LIGHTER_SIGNER_ORDER_TYPE_CODES StopLossLimit = 3"
| "LIGHTER_SIGNER_ORDER_TYPE_CODES TakeProfit = 4"
| "LIGHTER_SIGNER_ORDER_TYPE_CODES TakeProfitLimit = 5"

fun LIGHTER_SIGNER_TIME_IN_FORCE_CODES :: "time_in_force \<Rightarrow> nat" where
  "LIGHTER_SIGNER_TIME_IN_FORCE_CODES ImmediateOrCancel = 0"
| "LIGHTER_SIGNER_TIME_IN_FORCE_CODES GoodTillTime = 1"
| "LIGHTER_SIGNER_TIME_IN_FORCE_CODES PostOnly = 2"

datatype signer_refusal =
    SignerPolicyRefused policy_refusal
  | ProtectiveNeedsTrigger
  | TriggerNotAccepted
  | UnsupportedIndexPolicy
  | PlanFeesRefused fee_refusal
  | MatchHashMalformed
  | NotSafeIndex string
  | NotDecimalInteger string
  | OutsideSignerRange string
  | UnsupportedTuple
  | ProtectiveTriggerZero
  | ProtectiveMustReduce
  | ProtectiveMarketIndex
  | TriggerOnOrdinary
  | IocExpiryNotNil
  | ExpiryMissing
  | DeadlineInvalid
  | AdapterNotOfficial
  | AdapterRejected string
  | AuthScopeMismatch
  | AuthPublicKeyInvalid
  | AuthTokenNotCanonical
  | SignerResultMismatch
  | SignerTxTypeInvalid
  | SignerTxInfoMissing
  | SignerTxHashMissing
  | OcoPreviewRefused preview_refusal
  | OcoNotPerpetual
  | OcoLegsDiffer
  | OcoLegsIdentical
  | OcoHashInvalid
  | OcoChildIndexesEqual

text \<open>The plan an approved intent was turned into, as far as the request is built from it.\<close>

record signer_plan =
  pl_integratorFees :: stored_value
  pl_matchHash :: string
  pl_environment :: environment
  pl_accountIndex :: js_number
  pl_apiKeyIndex :: js_number
  pl_marketIndex :: js_number
  pl_side :: order_side
  pl_baseAmountInteger :: string
  pl_priceInteger :: string
  pl_orderType :: order_type
  pl_timeInForce :: time_in_force
  pl_reduceOnly :: bool
  pl_triggerPriceInteger :: "string option"
  pl_orderExpiryMs :: js_number
  pl_clientOrderIndexPolicy :: string

record unsigned_order =
  uo_integratorFees :: "integrator_fees option"
  uo_environment :: environment
  uo_accountIndex :: js_number
  uo_apiKeyIndex :: js_number
  uo_marketIndex :: js_number
  uo_clientOrderIndex :: string
  uo_baseAmountInteger :: string
  uo_priceInteger :: string
  uo_isAsk :: bool
  uo_orderTypeCode :: nat
  uo_timeInForceCode :: nat
  uo_reduceOnly :: bool
  uo_triggerPriceInteger :: string
  uo_orderExpiryMs :: js_number
  uo_matchHash :: string

text \<open>\<open>/^[0-9a-f]{64}$/\<close>\<close>

definition match_hash_shape :: "string \<Rightarrow> bool" where
  "match_hash_shape h = (length h = 64 \<and> list_all is_lower_hex_digit h)"

definition deriveVexAssignedClientOrderIndex :: "string \<Rightarrow> (signer_refusal, string) result" where
  "deriveVexAssignedClientOrderIndex matchHash =
     bindE (requireE (match_hash_shape matchHash) MatchHashMalformed) (\<lambda>_.
     case js_bigint (''0x'' @ take 12 matchHash) of
       None \<Rightarrow> Inl MatchHashMalformed
     | Some value \<Rightarrow> Inr (show_int (if value = 0 then 1 else value)))"

definition buildLighterUnsignedCreateOrderRequest ::
    "signer_plan \<Rightarrow> (signer_refusal, unsigned_order) result" where
  "buildLighterUnsignedCreateOrderRequest plan =
     bindE (liftE SignerPolicyRefused
              (assertLighterPhaseOneOrderPolicy (pl_orderType plan) (pl_timeInForce plan))) (\<lambda>_.
     let protective = (pl_orderType plan = StopLoss \<or> pl_orderType plan = StopLossLimit
                       \<or> pl_orderType plan = TakeProfit \<or> pl_orderType plan = TakeProfitLimit) in
     bindE (requireE (protective = (pl_triggerPriceInteger plan \<noteq> None))
              (if protective then ProtectiveNeedsTrigger else TriggerNotAccepted)) (\<lambda>_.
     bindE (requireE (pl_clientOrderIndexPolicy plan = LIGHTER_CLIENT_ORDER_INDEX_POLICY_DEFAULT)
              UnsupportedIndexPolicy) (\<lambda>_.
     let timeInForceCode = LIGHTER_SIGNER_TIME_IN_FORCE_CODES (pl_timeInForce plan);
         orderExpiryMs = (if \<not> protective
                             \<and> timeInForceCode = LIGHTER_SIGNER_TIME_IN_FORCE_CODES ImmediateOrCancel
                          then JsInt 0 else pl_orderExpiryMs plan) in
     bindE (liftE PlanFeesRefused (readLighterOrderFeeTerms (pl_integratorFees plan))) (\<lambda>fees.
     bindE (deriveVexAssignedClientOrderIndex (pl_matchHash plan)) (\<lambda>clientOrderIndex.
     Inr \<lparr> uo_integratorFees = fees,
           uo_environment = pl_environment plan,
           uo_accountIndex = pl_accountIndex plan,
           uo_apiKeyIndex = pl_apiKeyIndex plan,
           uo_marketIndex = pl_marketIndex plan,
           uo_clientOrderIndex = clientOrderIndex,
           uo_baseAmountInteger = pl_baseAmountInteger plan,
           uo_priceInteger = pl_priceInteger plan,
           uo_isAsk = (pl_side plan = Sell),
           uo_orderTypeCode = LIGHTER_SIGNER_ORDER_TYPE_CODES (pl_orderType plan),
           uo_timeInForceCode = timeInForceCode,
           uo_reduceOnly = pl_reduceOnly plan,
           uo_triggerPriceInteger = (case pl_triggerPriceInteger plan of None \<Rightarrow> ''0'' | Some t \<Rightarrow> t),
           uo_orderExpiryMs = orderExpiryMs,
           uo_matchHash = pl_matchHash plan \<rparr>)))))"

section \<open>What fits the official signer\<close>

definition LIGHTER_SIGNER_UINT32_MAX :: nat where "LIGHTER_SIGNER_UINT32_MAX = 2 ^ 32 - 1"
definition LIGHTER_SIGNER_INT64_MAX :: nat where "LIGHTER_SIGNER_INT64_MAX = 2 ^ 63 - 1"
definition LIGHTER_SIGNER_UINT48_MAX :: nat where "LIGHTER_SIGNER_UINT48_MAX = 2 ^ 48 - 1"
definition LIGHTER_SIGNER_PERP_MARKET_INDEX_MAX :: int where "LIGHTER_SIGNER_PERP_MARKET_INDEX_MAX = 254"

lemmas signer_constants =
  LIGHTER_SIGNER_UINT32_MAX_def LIGHTER_SIGNER_INT64_MAX_def LIGHTER_SIGNER_UINT48_MAX_def
  LIGHTER_SIGNER_PERP_MARKET_INDEX_MAX_def

definition requireSafeNonNegativeInteger :: "string \<Rightarrow> js_number \<Rightarrow> (signer_refusal, unit) result" where
  "requireSafeNonNegativeInteger field value =
     requireE (is_safe_integer value \<and> \<not> int_of_js value < 0) (NotSafeIndex field)"

definition requireDecimalInteger ::
    "string \<Rightarrow> string \<Rightarrow> nat \<Rightarrow> bool \<Rightarrow> (signer_refusal, string) result" where
  "requireDecimalInteger field value maximum allowZero =
     (let trimmed = trim value in
     bindE (requireE (trimmed \<noteq> [] \<and> all_digits trimmed) (NotDecimalInteger field)) (\<lambda>_.
     let parsed = digits_val trimmed in
     bindE (requireE (\<not> (parsed > maximum \<or> \<not> allowZero \<and> parsed = 0)) (OutsideSignerRange field)) (\<lambda>_.
     Inr (show_nat parsed))))"

text \<open>
  \<open>String(n)\<close>, when it is digits with an optional sign: an integer below \<open>10\<^sup>2\<^sup>1\<close>. Every other
  number prints as something that is not a decimal integer.
\<close>

definition integer_text :: "js_number \<Rightarrow> string option" where
  "integer_text x = (case x of JsInt i \<Rightarrow> if \<bar>i\<bar> < 10 ^ 21 then Some (show_int i) else None | _ \<Rightarrow> None)"

definition assertUnsignedCreateOrderFitsOfficialSigner :: "unsigned_order \<Rightarrow> (signer_refusal, unit) result" where
  "assertUnsignedCreateOrderFitsOfficialSigner order =
     bindE (requireSafeNonNegativeInteger ''accountIndex'' (uo_accountIndex order)) (\<lambda>_.
     bindE (requireSafeNonNegativeInteger ''apiKeyIndex'' (uo_apiKeyIndex order)) (\<lambda>_.
     bindE (requireSafeNonNegativeInteger ''marketIndex'' (uo_marketIndex order)) (\<lambda>_.
     bindE (requireDecimalInteger ''clientOrderIndex'' (uo_clientOrderIndex order) LIGHTER_SIGNER_UINT48_MAX False) (\<lambda>_.
     bindE (requireDecimalInteger ''baseAmountInteger'' (uo_baseAmountInteger order) LIGHTER_SIGNER_UINT48_MAX False) (\<lambda>_.
     bindE (requireDecimalInteger ''priceInteger'' (uo_priceInteger order) LIGHTER_SIGNER_UINT32_MAX False) (\<lambda>_.
     bindE (requireDecimalInteger ''triggerPriceInteger'' (uo_triggerPriceInteger order) LIGHTER_SIGNER_UINT32_MAX True) (\<lambda>_.
     bindE (case integer_text (uo_orderExpiryMs order) of
              None \<Rightarrow> Inl (NotDecimalInteger ''orderExpiryMs'')
            | Some t \<Rightarrow> requireDecimalInteger ''orderExpiryMs'' t LIGHTER_SIGNER_INT64_MAX True) (\<lambda>_.
     let tuple = (uo_orderTypeCode order, uo_timeInForceCode order);
         ordinaryIoc = (tuple = (0, 0) \<or> tuple = (1, 0));
         ordinaryResting = (tuple = (0, 1) \<or> tuple = (0, 2));
         triggerMarket = (tuple = (2, 0) \<or> tuple = (4, 0));
         triggerLimit = (tuple = (3, 0) \<or> tuple = (3, 1) \<or> tuple = (3, 2)
                         \<or> tuple = (5, 0) \<or> tuple = (5, 1) \<or> tuple = (5, 2)) in
     bindE (requireE (\<not> (\<not> ordinaryIoc \<and> \<not> ordinaryResting \<and> \<not> triggerMarket \<and> \<not> triggerLimit))
              UnsupportedTuple) (\<lambda>_.
     let protective = (triggerMarket \<or> triggerLimit) in
     bindE (requireE (\<not> (protective \<and> uo_triggerPriceInteger order = ''0'')) ProtectiveTriggerZero) (\<lambda>_.
     bindE (requireE (\<not> (protective \<and> \<not> uo_reduceOnly order)) ProtectiveMustReduce) (\<lambda>_.
     bindE (requireE (\<not> (protective
                          \<and> js_greater (uo_marketIndex order) LIGHTER_SIGNER_PERP_MARKET_INDEX_MAX))
              ProtectiveMarketIndex) (\<lambda>_.
     bindE (requireE (\<not> (\<not> protective \<and> uo_triggerPriceInteger order \<noteq> ''0'')) TriggerOnOrdinary) (\<lambda>_.
     bindE (requireE (\<not> (ordinaryIoc \<and> uo_orderExpiryMs order \<noteq> JsInt 0)) IocExpiryNotNil) (\<lambda>_.
     requireE (\<not> ((ordinaryResting \<or> protective) \<and> uo_orderExpiryMs order = JsInt 0)) ExpiryMissing))))))))))))))"

section \<open>The signer adapter\<close>

definition lighter_rest_base_url :: "environment \<Rightarrow> string" where
  "lighter_rest_base_url env =
     (case env of
        Core \<Rightarrow> ''https://mainnet.zklighter.elliot.ai''
      | Rhc \<Rightarrow> ''https://api.rh.lighter.xyz'')"

definition LIGHTER_SIGNER_CHAIN_IDS :: "environment \<Rightarrow> nat" where
  "LIGHTER_SIGNER_CHAIN_IDS env = (case env of Core \<Rightarrow> 304 | Rhc \<Rightarrow> 466324)"

text \<open>The secret material \<open>'s\<close> is passed through and never looked at.\<close>

record 's signing_input =
  sg_environment :: environment
  sg_restBaseUrl :: string
  sg_chainId :: nat
  sg_accountIndex :: js_number
  sg_apiKeyIndex :: js_number
  sg_nonce :: string
  sg_order :: unsigned_order
  sg_secret :: 's

record signer_result =
  sr_environment :: environment
  sr_accountIndex :: js_number
  sr_apiKeyIndex :: js_number
  sr_nonce :: string
  sr_clientOrderIndex :: string
  sr_matchHash :: string
  sr_txType :: js_number
  sr_txInfo :: string
  sr_txHash :: string

record 's auth_input =
  ai_environment :: environment
  ai_restBaseUrl :: string
  ai_chainId :: nat
  ai_accountIndex :: js_number
  ai_apiKeyIndex :: js_number
  ai_deadlineUnixSeconds :: js_number
  ai_secret :: 's

record auth_result =
  ar_environment :: environment
  ar_accountIndex :: js_number
  ar_apiKeyIndex :: js_number
  ar_deadlineUnixSeconds :: js_number
  ar_authToken :: string
  ar_publicKey :: string

text \<open>The adapter: its declared source and its two methods, \<open>Inl\<close> for a rejected promise.\<close>

record 's signer_adapter =
  ad_source :: string
  ad_createAccountAuth :: "'s auth_input \<Rightarrow> string + auth_result"
  ad_signCreateOrder :: "'s signing_input \<Rightarrow> string + signer_result"

definition buildLighterAccountAuthSigningInputForScope ::
    "environment \<Rightarrow> js_number \<Rightarrow> js_number \<Rightarrow> 's \<Rightarrow> js_number \<Rightarrow> (signer_refusal, 's auth_input) result" where
  "buildLighterAccountAuthSigningInputForScope env accountIndex apiKeyIndex secret deadline =
     bindE (requireE (is_safe_integer deadline \<and> \<not> int_of_js deadline \<le> 0) DeadlineInvalid) (\<lambda>_.
     Inr \<lparr> ai_environment = env, ai_restBaseUrl = lighter_rest_base_url env,
           ai_chainId = LIGHTER_SIGNER_CHAIN_IDS env, ai_accountIndex = accountIndex,
           ai_apiKeyIndex = apiKeyIndex, ai_deadlineUnixSeconds = deadline, ai_secret = secret \<rparr>)"

definition buildLighterAccountAuthSigningInput ::
    "unsigned_order \<Rightarrow> 's \<Rightarrow> js_number \<Rightarrow> (signer_refusal, 's auth_input) result" where
  "buildLighterAccountAuthSigningInput order secret deadline =
     bindE (assertUnsignedCreateOrderFitsOfficialSigner order) (\<lambda>_.
     buildLighterAccountAuthSigningInputForScope (uo_environment order) (uo_accountIndex order)
       (uo_apiKeyIndex order) secret deadline)"

text \<open>\<open>s.split(c)\<close>\<close>

fun split_on :: "char \<Rightarrow> string \<Rightarrow> string list" where
  "split_on sep [] = [[]]"
| "split_on sep (c # cs) =
     (if c = sep then [] # split_on sep cs
      else (case split_on sep cs of p # ps \<Rightarrow> (c # p) # ps | [] \<Rightarrow> [[c]]))"

definition assertCanonicalAuthToken :: "string \<Rightarrow> 's auth_input \<Rightarrow> (signer_refusal, unit) result" where
  "assertCanonicalAuthToken token inp =
     (case split_on (CHR '':'') (trim token) of
        [deadline, account, key, signature] \<Rightarrow>
          requireE (Some deadline = integer_text (ai_deadlineUnixSeconds inp)
                    \<and> Some account = integer_text (ai_accountIndex inp)
                    \<and> Some key = integer_text (ai_apiKeyIndex inp)
                    \<and> signature \<noteq> [] \<and> list_all is_hex_digit signature) AuthTokenNotCanonical
      | _ \<Rightarrow> Inl AuthTokenNotCanonical)"

definition createLighterAccountAuthWithAdapter ::
    "'s auth_input \<Rightarrow> 's signer_adapter \<Rightarrow> (signer_refusal, auth_result) result" where
  "createLighterAccountAuthWithAdapter inp adapter =
     bindE (requireE (ad_source adapter = ''official_lighter_signer'') AdapterNotOfficial) (\<lambda>_.
     bindE (liftE AdapterRejected (ad_createAccountAuth adapter inp)) (\<lambda>r.
     bindE (requireE (ar_environment r = ai_environment inp
                      \<and> js_same (ar_accountIndex r) (ai_accountIndex inp)
                      \<and> js_same (ar_apiKeyIndex r) (ai_apiKeyIndex inp)
                      \<and> js_same (ar_deadlineUnixSeconds r) (ai_deadlineUnixSeconds inp))
              AuthScopeMismatch) (\<lambda>_.
     bindE (requireE (length (ar_publicKey r) = 80 \<and> list_all is_hex_digit (ar_publicKey r))
              AuthPublicKeyInvalid) (\<lambda>_.
     bindE (assertCanonicalAuthToken (ar_authToken r) inp) (\<lambda>_.
     Inr r)))))"

definition buildLighterCreateOrderSigningInput ::
    "unsigned_order \<Rightarrow> 's \<Rightarrow> string \<Rightarrow> (signer_refusal, 's signing_input) result" where
  "buildLighterCreateOrderSigningInput order secret nonce0 =
     bindE (assertUnsignedCreateOrderFitsOfficialSigner order) (\<lambda>_.
     bindE (requireDecimalInteger ''nonce'' nonce0 LIGHTER_SIGNER_UINT48_MAX True) (\<lambda>nonce.
     Inr \<lparr> sg_environment = uo_environment order,
           sg_restBaseUrl = lighter_rest_base_url (uo_environment order),
           sg_chainId = LIGHTER_SIGNER_CHAIN_IDS (uo_environment order),
           sg_accountIndex = uo_accountIndex order, sg_apiKeyIndex = uo_apiKeyIndex order,
           sg_nonce = nonce, sg_order = order, sg_secret = secret \<rparr>))"

definition signLighterCreateOrderWithAdapter ::
    "'s signing_input \<Rightarrow> 's signer_adapter \<Rightarrow> (signer_refusal, signer_result) result" where
  "signLighterCreateOrderWithAdapter inp adapter =
     bindE (assertUnsignedCreateOrderFitsOfficialSigner (sg_order inp)) (\<lambda>_.
     bindE (requireDecimalInteger ''nonce'' (sg_nonce inp) LIGHTER_SIGNER_UINT48_MAX True) (\<lambda>_.
     bindE (requireE (ad_source adapter = ''official_lighter_signer'') AdapterNotOfficial) (\<lambda>_.
     bindE (liftE AdapterRejected (ad_signCreateOrder adapter inp)) (\<lambda>r.
     bindE (requireE (sr_environment r = sg_environment inp
                      \<and> js_same (sr_accountIndex r) (sg_accountIndex inp)
                      \<and> js_same (sr_apiKeyIndex r) (sg_apiKeyIndex inp)
                      \<and> sr_nonce r = sg_nonce inp
                      \<and> sr_clientOrderIndex r = uo_clientOrderIndex (sg_order inp)
                      \<and> sr_matchHash r = uo_matchHash (sg_order inp)) SignerResultMismatch) (\<lambda>_.
     bindE (requireE (integer_in_range (sr_txType r) 0 255) SignerTxTypeInvalid) (\<lambda>_.
     bindE (requireE (\<not> length (trim (sr_txInfo r)) = 0) SignerTxInfoMissing) (\<lambda>_.
     bindE (requireE (\<not> length (trim (sr_txHash r)) = 0) SignerTxHashMissing) (\<lambda>_.
     Inr r))))))))"

section \<open>One cancels the other\<close>

definition LIGHTER_OCO_PROVIDER_VERSION :: string where
  "LIGHTER_OCO_PROVIDER_VERSION = ''lighter-oco-preview-v1''"

definition LIGHTER_OCO_GROUPING_TYPE :: nat where "LIGHTER_OCO_GROUPING_TYPE = 2"

record oco_leg_input =
  li_triggerPrice :: string
  li_price :: string

record oco_input =
  oi_sessionId :: string
  oi_environment :: environment
  oi_accountIndex :: js_number
  oi_apiKeyIndex :: "js_number option"
  oi_marketId :: js_number
  oi_side :: order_side
  oi_baseAmount :: string
  oi_stopLoss :: oco_leg_input
  oi_takeProfit :: oco_leg_input
  oi_orderExpiry :: js_number
  oi_clientOrderIndexPolicy :: "string option"
  oi_integratorFees :: stored_value

record oco_identity =
  oc_sessionId :: string
  oc_environment :: environment
  oc_accountIndex :: string
  oc_apiKeyIndex :: string
  oc_marketIndex :: string
  oc_side :: order_side
  oc_baseAmountInteger :: string
  oc_stopLossMatchHash :: string
  oc_takeProfitMatchHash :: string
  oc_expiryMs :: string
  oc_providerVersion :: string

record 'c oco_preview =
  ov_previewId :: string
  ov_matchHash :: string
  ov_identity :: oco_identity
  ov_expiresAtMs :: int
  ov_stopLoss :: "'c order_preview"
  ov_takeProfit :: "'c order_preview"

text \<open>The spread \<open>...common\<close> with the three fields of a leg. The nested view of an OCO preview, which
  repeats fields of its input and of the two leg previews, is left out of the record.\<close>

definition oco_leg_order :: "oco_input \<Rightarrow> oco_leg_input \<Rightarrow> order_type \<Rightarrow> preview_input" where
  "oco_leg_order inp leg orderType =
     \<lparr> in_sessionId = oi_sessionId inp, in_environment = oi_environment inp,
       in_accountIndex = oi_accountIndex inp, in_apiKeyIndex = oi_apiKeyIndex inp,
       in_marketId = oi_marketId inp, in_side = oi_side inp, in_baseAmount = oi_baseAmount inp,
       in_price = li_price leg, in_orderType = orderType, in_timeInForce = ImmediateOrCancel,
       in_reduceOnly = True, in_triggerPrice = Some (li_triggerPrice leg),
       in_orderExpiry = oi_orderExpiry inp,
       in_clientOrderIndexPolicy = (case oi_clientOrderIndexPolicy inp of
           None \<Rightarrow> LIGHTER_CLIENT_ORDER_INDEX_POLICY_DEFAULT | Some p \<Rightarrow> p),
       in_integratorFees = oi_integratorFees inp \<rparr>"

definition oco_hash_material :: "oco_identity \<Rightarrow> string list" where
  "oco_hash_material i =
     [''lighter_oco'', oc_sessionId i, environment_text (oc_environment i), oc_accountIndex i,
      oc_apiKeyIndex i, oc_marketIndex i, side_text (oc_side i), oc_baseAmountInteger i,
      oc_stopLossMatchHash i, oc_takeProfitMatchHash i, oc_expiryMs i, ''one-cancels-the-other'',
      oc_providerVersion i]"

definition computeLighterOcoHash :: "(string \<Rightarrow> string) \<Rightarrow> oco_identity \<Rightarrow> string" where
  "computeLighterOcoHash sha256 i = sha256 (json_string_array (oco_hash_material i))"

definition buildLighterOcoPreview ::
    "(string \<Rightarrow> string) \<Rightarrow> int \<Rightarrow> oco_input \<Rightarrow> 'c preview_context \<Rightarrow> (signer_refusal, 'c oco_preview) result" where
  "buildLighterOcoPreview sha256 nowMs inp context0 =
     bindE (requireE (mk_market_type (cx_market context0) = ''perp'') OcoNotPerpetual) (\<lambda>_.
     bindE (liftE OcoPreviewRefused (buildLighterOrderPreview sha256 nowMs
              (oco_leg_order inp (oi_stopLoss inp) StopLoss) context0)) (\<lambda>stopLoss.
     bindE (liftE OcoPreviewRefused (buildLighterOrderPreview sha256 nowMs
              (oco_leg_order inp (oi_takeProfit inp) TakeProfit) context0)) (\<lambda>takeProfit.
     bindE (requireE (\<not> (av_integer (op_baseAmount stopLoss) \<noteq> av_integer (op_baseAmount takeProfit)
                          \<or> op_side stopLoss \<noteq> op_side takeProfit
                          \<or> \<not> js_same (op_marketIndex stopLoss) (op_marketIndex takeProfit)
                          \<or> pc_positionSide (op_positionContext stopLoss)
                              \<noteq> pc_positionSide (op_positionContext takeProfit))) OcoLegsDiffer) (\<lambda>_.
     bindE (requireE (\<not> op_matchHash stopLoss = op_matchHash takeProfit) OcoLegsIdentical) (\<lambda>_.
     let identity = \<lparr> oc_sessionId = oi_sessionId inp, oc_environment = oi_environment inp,
           oc_accountIndex = number_text (oi_accountIndex inp),
           oc_apiKeyIndex = (case oi_apiKeyIndex inp of None \<Rightarrow> '''' | Some k \<Rightarrow> number_text k),
           oc_marketIndex = number_text (oi_marketId inp), oc_side = oi_side inp,
           oc_baseAmountInteger = av_integer (op_baseAmount stopLoss),
           oc_stopLossMatchHash = op_matchHash stopLoss,
           oc_takeProfitMatchHash = op_matchHash takeProfit,
           oc_expiryMs = number_text (oi_orderExpiry inp),
           oc_providerVersion = LIGHTER_OCO_PROVIDER_VERSION \<rparr>;
         matchHash = computeLighterOcoHash sha256 identity in
     Inr \<lparr> ov_previewId = ''loc_'' @ take 24 matchHash, ov_matchHash = matchHash,
           ov_identity = identity, ov_expiresAtMs = nowMs + LIGHTER_ORDER_PREVIEW_FRESHNESS_MS,
           ov_stopLoss = stopLoss, ov_takeProfit = takeProfit \<rparr>)))))"

record oco_leg_plan =
  lp_matchHash :: string
  lp_priceInteger :: string
  lp_triggerPriceInteger :: string

record oco_plan =
  op_plan_integratorFees :: stored_value
  op_plan_matchHash :: string
  op_plan_environment :: environment
  op_plan_accountIndex :: js_number
  op_plan_apiKeyIndex :: js_number
  op_plan_marketIndex :: js_number
  op_plan_side :: order_side
  op_plan_baseAmountInteger :: string
  op_plan_orderExpiryMs :: js_number
  op_plan_stopLoss :: oco_leg_plan
  op_plan_takeProfit :: oco_leg_plan

record unsigned_oco =
  uc_integratorFees :: "integrator_fees option"
  uc_environment :: environment
  uc_accountIndex :: js_number
  uc_apiKeyIndex :: js_number
  uc_groupingTypeCode :: nat
  uc_stopLossOrder :: unsigned_order
  uc_takeProfitOrder :: unsigned_order
  uc_matchHash :: string

text \<open>\<open>kind\<close> is one of the two protective market types.\<close>

definition buildOcoLeg ::
    "(string \<Rightarrow> string) \<Rightarrow> oco_plan \<Rightarrow> order_type \<Rightarrow> (signer_refusal, unsigned_order) result" where
  "buildOcoLeg sha256 plan kind =
     (let leg = (if kind = StopLoss then op_plan_stopLoss plan else op_plan_takeProfit plan);
          clientHash = sha256 (op_plan_matchHash plan @ '':'' @ order_type_text kind @ '':'' @ lp_matchHash leg) in
     bindE (deriveVexAssignedClientOrderIndex clientHash) (\<lambda>clientOrderIndex.
     Inr \<lparr> uo_integratorFees = typed_fees (op_plan_integratorFees plan),
           uo_environment = op_plan_environment plan,
           uo_accountIndex = op_plan_accountIndex plan,
           uo_apiKeyIndex = op_plan_apiKeyIndex plan,
           uo_marketIndex = op_plan_marketIndex plan,
           uo_clientOrderIndex = clientOrderIndex,
           uo_baseAmountInteger = op_plan_baseAmountInteger plan,
           uo_priceInteger = lp_priceInteger leg,
           uo_isAsk = (op_plan_side plan = Sell),
           uo_orderTypeCode = LIGHTER_SIGNER_ORDER_TYPE_CODES kind,
           uo_timeInForceCode = LIGHTER_SIGNER_TIME_IN_FORCE_CODES ImmediateOrCancel,
           uo_reduceOnly = True,
           uo_triggerPriceInteger = lp_triggerPriceInteger leg,
           uo_orderExpiryMs = op_plan_orderExpiryMs plan,
           uo_matchHash = lp_matchHash leg \<rparr>))"

definition buildLighterUnsignedOcoRequest ::
    "(string \<Rightarrow> string) \<Rightarrow> oco_plan \<Rightarrow> (signer_refusal, unsigned_oco) result" where
  "buildLighterUnsignedOcoRequest sha256 plan =
     bindE (requireE (match_hash_shape (op_plan_matchHash plan)) OcoHashInvalid) (\<lambda>_.
     bindE (buildOcoLeg sha256 plan StopLoss) (\<lambda>stopLoss.
     bindE (buildOcoLeg sha256 plan TakeProfit) (\<lambda>takeProfit.
     bindE (assertUnsignedCreateOrderFitsOfficialSigner stopLoss) (\<lambda>_.
     bindE (assertUnsignedCreateOrderFitsOfficialSigner takeProfit) (\<lambda>_.
     bindE (requireE (\<not> uo_clientOrderIndex stopLoss = uo_clientOrderIndex takeProfit)
              OcoChildIndexesEqual) (\<lambda>_.
     Inr \<lparr> uc_integratorFees = typed_fees (op_plan_integratorFees plan),
           uc_environment = op_plan_environment plan, uc_accountIndex = op_plan_accountIndex plan,
           uc_apiKeyIndex = op_plan_apiKeyIndex plan,
           uc_groupingTypeCode = LIGHTER_OCO_GROUPING_TYPE,
           uc_stopLossOrder = stopLoss, uc_takeProfitOrder = takeProfit,
           uc_matchHash = op_plan_matchHash plan \<rparr>))))))"

section \<open>Client order indexes\<close>

lemma lower_hex_digit: "is_lower_hex_digit c \<Longrightarrow> \<exists>d. base_digit 16 c = Some d \<and> d < 16"
  by (auto simp: is_lower_hex_digit_def is_digit_def base_digit_def Let_def)

lemma base_val_hex:
  "list_all is_lower_hex_digit t \<Longrightarrow> \<exists>v. base_val 16 a t = Some v \<and> v < (a + 1) * 16 ^ length t"
proof (induction t arbitrary: a)
  case Nil
  then show ?case by simp
next
  case (Cons c t)
  obtain d where d: "base_digit 16 c = Some d" "d < 16" using lower_hex_digit Cons.prems by auto
  obtain v where v: "base_val 16 (a * 16 + d) t = Some v" "v < (a * 16 + d + 1) * 16 ^ length t"
    using Cons by auto
  have "(a * 16 + d + 1) * 16 ^ length t \<le> ((a + 1) * 16) * 16 ^ length t"
    using d(2) by (intro mult_le_mono1) simp
  with v(2) have "v < (a + 1) * 16 ^ length (c # t)" by (simp only: length_Cons power_Suc mult.assoc)
  with v(1) d(1) show ?case by simp
qed

lemma lower_hex_not_space: "is_lower_hex_digit c \<Longrightarrow> \<not> is_space c"
  by (auto simp: is_lower_hex_digit_def is_digit_def is_space_def)

lemma hex_bigint:
  assumes "list_all is_lower_hex_digit t" "t \<noteq> []"
  shows "\<exists>v. js_bigint (''0x'' @ t) = Some (int v) \<and> v < 16 ^ length t"
proof -
  obtain v where v: "base_val 16 0 t = Some v" "v < 1 * 16 ^ length t"
    using base_val_hex [OF assms(1), of 0] by auto
  have "list_all (\<lambda>c. \<not> is_space c) (''0x'' @ t)"
    using assms(1) lower_hex_not_space by (simp add: list_all_iff) (simp add: is_space_def code_unit_def)
  then have "trim (''0x'' @ t) = ''0x'' @ t" by (rule trim_no_space)
  with v assms(2) show ?thesis by (simp add: js_bigint_def base_of_letter_def)
qed

lemma client_index_range:
  assumes "match_hash_shape h"
  shows "\<exists>n. deriveVexAssignedClientOrderIndex h = Inr (show_nat n) \<and> 1 \<le> n \<and> n \<le> LIGHTER_SIGNER_UINT48_MAX"
proof -
  let ?t = "take 12 h"
  have t: "list_all is_lower_hex_digit ?t" "length ?t = 12"
    using assms by (auto simp: match_hash_shape_def list_all_iff dest: in_set_takeD)
  then have "?t \<noteq> []" by auto
  from hex_bigint [OF t(1) this] t(2) obtain v where v: "js_bigint (''0x'' @ ?t) = Some (int v)" "v < 16 ^ 12"
    by auto
  let ?n = "if v = 0 then 1 else v"
  have "deriveVexAssignedClientOrderIndex h = Inr (show_nat ?n)"
    using assms v(1) by (auto simp: deriveVexAssignedClientOrderIndex_def show_int_def)
  moreover have "1 \<le> ?n" "?n \<le> LIGHTER_SIGNER_UINT48_MAX"
    using v(2) by (auto simp: LIGHTER_SIGNER_UINT48_MAX_def)
  ultimately show ?thesis by blast
qed

lemma derive_shape: "deriveVexAssignedClientOrderIndex h = Inr s \<Longrightarrow> match_hash_shape h"
  by (auto simp: deriveVexAssignedClientOrderIndex_def result_simps)

section \<open>What the checks before signing accept\<close>

definition decimal_ok :: "string \<Rightarrow> nat \<Rightarrow> bool \<Rightarrow> bool" where
  "decimal_ok value maximum allowZero =
     (trim value \<noteq> [] \<and> all_digits (trim value) \<and> digits_val (trim value) \<le> maximum
      \<and> (allowZero \<or> 0 < digits_val (trim value)))"

lemma requireDecimalInteger_iff:
  "requireDecimalInteger f v m z = Inr r \<longleftrightarrow> decimal_ok v m z \<and> r = show_nat (digits_val (trim v))"
  by (auto simp: requireDecimalInteger_def decimal_ok_def result_simps Let_def)

lemma decimal_ok_show [simp]: "decimal_ok (show_nat n) m z \<longleftrightarrow> n \<le> m \<and> (z \<or> 0 < n)"
  by (simp add: decimal_ok_def)

definition safe_index :: "js_number \<Rightarrow> bool" where
  "safe_index x = (is_safe_integer x \<and> 0 \<le> int_of_js x)"

lemma requireSafe_iff: "requireSafeNonNegativeInteger f x = Inr () \<longleftrightarrow> safe_index x"
  by (auto simp: requireSafeNonNegativeInteger_def safe_index_def result_simps)

definition protective_code :: "nat \<Rightarrow> bool" where
  "protective_code c = (c = 2 \<or> c = 3 \<or> c = 4 \<or> c = 5)"

text \<open>The specification of the check: ranges, the admitted pairs of codes, and expiries.\<close>

lemma fits_iff:
  "assertUnsignedCreateOrderFitsOfficialSigner o1 = Inr () \<longleftrightarrow>
     safe_index (uo_accountIndex o1) \<and> safe_index (uo_apiKeyIndex o1) \<and> safe_index (uo_marketIndex o1)
   \<and> decimal_ok (uo_clientOrderIndex o1) LIGHTER_SIGNER_UINT48_MAX False
   \<and> decimal_ok (uo_baseAmountInteger o1) LIGHTER_SIGNER_UINT48_MAX False
   \<and> decimal_ok (uo_priceInteger o1) LIGHTER_SIGNER_UINT32_MAX False
   \<and> decimal_ok (uo_triggerPriceInteger o1) LIGHTER_SIGNER_UINT32_MAX True
   \<and> (\<exists>t. integer_text (uo_orderExpiryMs o1) = Some t \<and> decimal_ok t LIGHTER_SIGNER_INT64_MAX True)
   \<and> (uo_orderTypeCode o1, uo_timeInForceCode o1) \<in> {(0,0), (0,1), (0,2), (1,0), (2,0), (3,0), (3,1), (3,2),
        (4,0), (5,0), (5,1), (5,2)}
   \<and> (protective_code (uo_orderTypeCode o1) \<longrightarrow> uo_triggerPriceInteger o1 \<noteq> ''0'' \<and> uo_reduceOnly o1
        \<and> \<not> js_greater (uo_marketIndex o1) LIGHTER_SIGNER_PERP_MARKET_INDEX_MAX)
   \<and> (\<not> protective_code (uo_orderTypeCode o1) \<longrightarrow> uo_triggerPriceInteger o1 = ''0'')
   \<and> ((uo_orderExpiryMs o1 = JsInt 0)
        = (\<not> protective_code (uo_orderTypeCode o1) \<and> uo_timeInForceCode o1 = 0))"
proof -
  define ty where "ty = uo_orderTypeCode o1"
  define tf where "tf = uo_timeInForceCode o1"
  define i where "i = ((ty, tf) = (0, 0) \<or> (ty, tf) = (1, 0))"
  define r where "r = ((ty, tf) = (0, 1) \<or> (ty, tf) = (0, 2))"
  define tm where "tm = ((ty, tf) = (2, 0) \<or> (ty, tf) = (4, 0))"
  define tl where "tl = ((ty, tf) = (3, 0) \<or> (ty, tf) = (3, 1) \<or> (ty, tf) = (3, 2)
     \<or> (ty, tf) = (5, 0) \<or> (ty, tf) = (5, 1) \<or> (ty, tf) = (5, 2))"
  note defs = i_def r_def tm_def tl_def
  have tuples: "(ty, tf) \<in> {(0,0), (0,1), (0,2), (1,0), (2,0), (3,0), (3,1), (3,2), (4,0), (5,0), (5,1), (5,2)}
     \<longleftrightarrow> \<not> (\<not> i \<and> \<not> r \<and> \<not> tm \<and> \<not> tl)" by (auto simp: defs)
  have prot: "protective_code ty \<longleftrightarrow> tm \<or> tl" if "\<not> (\<not> i \<and> \<not> r \<and> \<not> tm \<and> \<not> tl)"
    using that by (auto simp: defs protective_code_def)
  have ioc: "i \<longleftrightarrow> \<not> (tm \<or> tl) \<and> tf = 0" "r \<longleftrightarrow> \<not> (tm \<or> tl) \<and> tf \<noteq> 0"
    if "\<not> (\<not> i \<and> \<not> r \<and> \<not> tm \<and> \<not> tl)"
    using that by (auto simp: defs)
  have ex: "(case x of None \<Rightarrow> Inl e | Some t \<Rightarrow> requireDecimalInteger f t m z) = Inr a
     \<longleftrightarrow> (\<exists>t. x = Some t \<and> decimal_ok t m z \<and> a = show_nat (digits_val (trim t)))" for x e f m z a
    by (cases x) (auto simp: requireDecimalInteger_iff)
  show ?thesis
    unfolding assertUnsignedCreateOrderFitsOfficialSigner_def Let_def ty_def [symmetric] tf_def [symmetric]
      i_def [symmetric] r_def [symmetric] tm_def [symmetric] tl_def [symmetric] tuples
      bindE_eq_Inr requireE_eq_Inr ex_unit_iff requireSafe_iff requireDecimalInteger_iff ex
    using prot ioc by blast
qed

section \<open>From the preview to the signer\<close>

lemma sha_shape_codes [simp]:
  "LIGHTER_SIGNER_TIME_IN_FORCE_CODES f = 0 \<longleftrightarrow> f = ImmediateOrCancel"
  by (cases f) simp_all

lemma protective_code_iff: "protective_code (LIGHTER_SIGNER_ORDER_TYPE_CODES t) \<longleftrightarrow> isProtectiveOrderType t"
  by (cases t) (simp_all add: protective_code_def isProtectiveOrderType_def)

lemma codes_admitted:
  assumes "assertLighterPhaseOneOrderPolicy t f = Inr ()"
  shows "(LIGHTER_SIGNER_ORDER_TYPE_CODES t, LIGHTER_SIGNER_TIME_IN_FORCE_CODES f)
    \<in> {(0,0), (0,1), (0,2), (1,0), (2,0), (3,0), (3,1), (3,2), (4,0), (5,0), (5,1), (5,2)}"
  using assms
  by (cases t; cases f) (simp_all add: assertLighterPhaseOneOrderPolicy_def
      lighterPhaseOneOrderPolicyFailure_def LIGHTER_ALLOWED_CREATE_ORDER_TUPLES_def)

lemma request_fields:
  assumes "buildLighterUnsignedCreateOrderRequest plan = Inr r"
  shows "assertLighterPhaseOneOrderPolicy (pl_orderType plan) (pl_timeInForce plan) = Inr ()
     \<and> isProtectiveOrderType (pl_orderType plan) = (pl_triggerPriceInteger plan \<noteq> None)
     \<and> match_hash_shape (pl_matchHash plan)
     \<and> deriveVexAssignedClientOrderIndex (pl_matchHash plan) = Inr (uo_clientOrderIndex r)
     \<and> uo_environment r = pl_environment plan
     \<and> uo_accountIndex r = pl_accountIndex plan \<and> uo_apiKeyIndex r = pl_apiKeyIndex plan
     \<and> uo_marketIndex r = pl_marketIndex plan
     \<and> uo_baseAmountInteger r = pl_baseAmountInteger plan \<and> uo_priceInteger r = pl_priceInteger plan
     \<and> uo_isAsk r = (pl_side plan = Sell)
     \<and> uo_orderTypeCode r = LIGHTER_SIGNER_ORDER_TYPE_CODES (pl_orderType plan)
     \<and> uo_timeInForceCode r = LIGHTER_SIGNER_TIME_IN_FORCE_CODES (pl_timeInForce plan)
     \<and> uo_reduceOnly r = pl_reduceOnly plan
     \<and> uo_triggerPriceInteger r = (case pl_triggerPriceInteger plan of None \<Rightarrow> ''0'' | Some t \<Rightarrow> t)
     \<and> uo_orderExpiryMs r = (if \<not> isProtectiveOrderType (pl_orderType plan)
           \<and> pl_timeInForce plan = ImmediateOrCancel then JsInt 0 else pl_orderExpiryMs plan)
     \<and> uo_matchHash r = pl_matchHash plan"
  using assms derive_shape
  by (auto simp: buildLighterUnsignedCreateOrderRequest_def result_simps Let_def isProtectiveOrderType_def)

lemma request_fits_iff:
  assumes "buildLighterUnsignedCreateOrderRequest plan = Inr r"
    and idx: "safe_index (pl_accountIndex plan)" "safe_index (pl_apiKeyIndex plan)"
      "safe_index (pl_marketIndex plan)"
    and price: "pl_priceInteger plan = show_nat q" "0 < q" "q \<le> LIGHTER_SIGNER_UINT32_MAX"
    and base: "pl_baseAmountInteger plan = show_nat b" "0 < b"
    and expiry: "pl_orderExpiryMs plan = JsInt e" "0 < e" "e \<le> int LIGHTER_SIGNER_INT64_MAX"
    and trigger: "\<And>t. pl_triggerPriceInteger plan = Some t \<Longrightarrow>
      \<exists>v. t = show_nat v \<and> 0 < v \<and> v \<le> LIGHTER_SIGNER_UINT32_MAX"
    and protective: "isProtectiveOrderType (pl_orderType plan) \<Longrightarrow>
      pl_reduceOnly plan \<and> \<not> js_greater (pl_marketIndex plan) LIGHTER_SIGNER_PERP_MARKET_INDEX_MAX"
  shows "assertUnsignedCreateOrderFitsOfficialSigner r = Inr () \<longleftrightarrow> b \<le> LIGHTER_SIGNER_UINT48_MAX"
proof -
  note f = request_fields [OF assms(1)]
  obtain n where "uo_clientOrderIndex r = show_nat n" "1 \<le> n" "n \<le> LIGHTER_SIGNER_UINT48_MAX"
    using client_index_range [of "pl_matchHash plan"] f by auto
  then have c: "decimal_ok (uo_clientOrderIndex r) LIGHTER_SIGNER_UINT48_MAX False" by simp
  have z: "''0'' = show_nat 0" by (simp add: text_eval)
  have zero: "decimal_ok ''0'' m True" for m unfolding z by simp
  have t: "decimal_ok (uo_triggerPriceInteger r) LIGHTER_SIGNER_UINT32_MAX True
     \<and> (protective_code (uo_orderTypeCode r) \<longrightarrow> uo_triggerPriceInteger r \<noteq> ''0'')
     \<and> (\<not> protective_code (uo_orderTypeCode r) \<longrightarrow> uo_triggerPriceInteger r = ''0'')"
    using f trigger unfolding z by (cases "pl_triggerPriceInteger plan") (auto simp: protective_code_iff)
  have small: "e < 10 ^ 21" using expiry(3) by (simp add: LIGHTER_SIGNER_INT64_MAX_def)
  have "nat e \<le> LIGHTER_SIGNER_INT64_MAX" using expiry(2,3) by simp
  then have x: "(\<exists>u. integer_text (uo_orderExpiryMs r) = Some u \<and> decimal_ok u LIGHTER_SIGNER_INT64_MAX True)
     \<and> (uo_orderExpiryMs r = JsInt 0)
        = (\<not> protective_code (uo_orderTypeCode r) \<and> uo_timeInForceCode r = 0)"
    using f expiry(1,2) small by (auto simp: integer_text_def show_int_def protective_code_iff z [symmetric] zero)
  show ?thesis
    unfolding fits_iff
    using f idx price base c t x protective codes_admitted
    by (auto simp: protective_code_iff)
qed

text \<open>
  What an approved intent carries from its preview to the plan; the durable row in between is
  not modelled.
\<close>

definition plan_of_preview :: "preview_input \<Rightarrow> 'c order_preview \<Rightarrow> js_number \<Rightarrow> signer_plan" where
  "plan_of_preview inp p key =
     \<lparr> pl_integratorFees = in_integratorFees inp, pl_matchHash = op_matchHash p,
       pl_environment = in_environment inp, pl_accountIndex = in_accountIndex inp,
       pl_apiKeyIndex = key, pl_marketIndex = in_marketId inp, pl_side = in_side inp,
       pl_baseAmountInteger = id_baseAmountInteger (op_identity p),
       pl_priceInteger = id_priceInteger (op_identity p),
       pl_orderType = in_orderType inp, pl_timeInForce = in_timeInForce inp,
       pl_reduceOnly = in_reduceOnly inp,
       pl_triggerPriceInteger = (if id_triggerPriceInteger (op_identity p) = '''' then None
         else Some (id_triggerPriceInteger (op_identity p))),
       pl_orderExpiryMs = in_orderExpiry inp,
       pl_clientOrderIndexPolicy = in_clientOrderIndexPolicy inp \<rparr>"

lemma previewed_plan:
  assumes "buildLighterOrderPreview sha256 now inp cx = Inr p" "in_apiKeyIndex inp = Some key"
    and "0 \<le> now" "now < 2 ^ 53"
  shows "safe_index (in_accountIndex inp) \<and> safe_index key \<and> safe_index (in_marketId inp)
    \<and> (\<exists>e. in_orderExpiry inp = JsInt e \<and> 0 < e \<and> e \<le> int LIGHTER_SIGNER_INT64_MAX)
    \<and> (isProtectiveOrderType (in_orderType inp) \<longrightarrow> in_reduceOnly inp
        \<and> \<not> js_greater (in_marketId inp) LIGHTER_SIGNER_PERP_MARKET_INDEX_MAX)
    \<and> assertLighterPhaseOneOrderPolicy (in_orderType inp) (in_timeInForce inp) = Inr ()
    \<and> isProtectiveOrderType (in_orderType inp) = (in_triggerPrice inp \<noteq> None)"
proof -
  have safe: "safe_index x" if "integer_in_range x 0 m" "m \<le> 9000" for x m
    using that by (auto simp: safe_index_def integer_in_range_iff max_safe_integer_def)
  obtain a :: preview_amounts and spot where
    v: "validateInputScalars inp = Inr ()" and m: "assertMarketMatches inp (cx_market cx) = Inr ()"
    and sg: "assertSignableMarketIndex (cx_market cx) = Inr ()"
    and e: "assertExpiry (in_orderExpiry inp) now = Inr ()"
    and c: "assertOrderCombination inp (cx_market cx) = Inr ()"
    using build_parts [OF assms(1)] by blast
  from v assms(2) have idx: "safe_index (in_accountIndex inp)" "integer_in_range key 0 255"
    "integer_in_range (in_marketId inp) 0 4094"
    by (auto simp: validateInputScalars_def safe_index_def result_simps preview_constants)
  from m have same: "mk_market_id (cx_market cx) = in_marketId inp"
    by (auto simp: assertMarketMatches_def result_simps elim: js_same.elims)
  from e obtain x where "in_orderExpiry inp = JsInt x" "now + 300000 \<le> x" "x \<le> now + 2592000000"
    by (auto simp: assertExpiry_def result_simps preview_constants is_integer_iff)
  then have "\<exists>x. in_orderExpiry inp = JsInt x \<and> 0 < x \<and> x \<le> int LIGHTER_SIGNER_INT64_MAX"
    using assms(3,4) by (intro exI [of _ x]) (simp add: LIGHTER_SIGNER_INT64_MAX_def)
  moreover have "in_reduceOnly inp \<and> \<not> js_greater (in_marketId inp) LIGHTER_SIGNER_PERP_MARKET_INDEX_MAX"
    if "isProtectiveOrderType (in_orderType inp)"
  proof -
    from c that have "mk_market_type (cx_market cx) = ''perp''" "in_reduceOnly inp"
      by (auto simp: assertOrderCombination_def result_simps)
    with sg idx(3) show ?thesis
      by (auto simp: assertSignableMarketIndex_def js_between_def result_simps preview_constants
          signer_constants same integer_in_range_iff)
  qed
  moreover from c have "assertLighterPhaseOneOrderPolicy (in_orderType inp) (in_timeInForce inp) = Inr ()"
    "isProtectiveOrderType (in_orderType inp) = (in_triggerPrice inp \<noteq> None)"
    by (auto simp: assertOrderCombination_def result_simps split: if_splits)
  ultimately show ?thesis using idx(1) safe [OF idx(2)] safe [OF idx(3)] by simp
qed

section \<open>Properties\<close>

text \<open>
  Every index Vex assigns to an order is one the signer accepts: for any match hash of 64
  lower-case hex digits the derived client order index is a decimal integer from 1 to
  \<open>2\<^sup>4\<^sup>8 - 1\<close>, and for any other text the derivation refuses.
\<close>

theorem client_order_index_in_range:
  "match_hash_shape h = (\<exists>s. deriveVexAssignedClientOrderIndex h = Inr s)
   \<and> (case deriveVexAssignedClientOrderIndex h of
        Inl e \<Rightarrow> e = MatchHashMalformed
      | Inr s \<Rightarrow> \<exists>n. s = show_nat n \<and> 1 \<le> n \<and> n \<le> LIGHTER_SIGNER_UINT48_MAX)"
proof (cases "match_hash_shape h")
  case True
  then show ?thesis using client_index_range [OF True] by auto
next
  case False
  then show ?thesis by (simp add: deriveVexAssignedClientOrderIndex_def)
qed

text \<open>
  C37: A previewed order reaches the signer, unless its base amount is too large. For a preview
  with an API key and the default index policy the unsigned request is built, and it passes
  the check before signing exactly when the base amount is below \<open>2\<^sup>4\<^sup>8\<close>; the preview itself
  admits base amounts up to \<open>2\<^sup>6\<^sup>3 - 1\<close>.
\<close>

theorem previewed_order_signable_iff:
  assumes "buildLighterOrderPreview sha256 now inp cx = Inr p" "in_apiKeyIndex inp = Some key"
    and "in_clientOrderIndexPolicy inp = LIGHTER_CLIENT_ORDER_INDEX_POLICY_DEFAULT"
    and "0 \<le> now" "now < 2 ^ 53" "\<And>t. match_hash_shape (sha256 t)"
  shows "\<exists>b r. id_baseAmountInteger (op_identity p) = show_nat b \<and> b < 2 ^ 63
     \<and> buildLighterUnsignedCreateOrderRequest (plan_of_preview inp p key) = Inr r
     \<and> (assertUnsignedCreateOrderFitsOfficialSigner r = Inr () \<longleftrightarrow> b < 2 ^ 48)"
proof -
  note facts = previewed_plan [OF assms(1,2,4,5)]
  obtain b q and amounts :: preview_amounts where
    b: "0 < b" "b \<le> LIGHTER_WIRE_BASE_AMOUNT_MAX" and q: "0 < q" "q \<le> LIGHTER_WIRE_PRICE_MAX"
    and a: "pa_base amounts = b" "pa_price amounts = q"
    and pi: "preview_integers inp (cx_market cx) = Inr amounts"
    and id: "op_identity p = preview_identity_of inp amounts"
    using preview_numbers [OF assms(1)] by blast
  have hash: "match_hash_shape (op_matchHash p)"
    using build_parts [OF assms(1)] assms(6) by (metis preview_of_sel(2) computeLighterOrderPreviewHash_def)
  obtain fees where fees: "readLighterOrderFeeTerms (in_integratorFees inp) = Inr fees"
    using build_parts [OF assms(1)] by blast
  let ?plan = "plan_of_preview inp p key"
  have trig: "pl_triggerPriceInteger ?plan = (case in_triggerPrice inp of None \<Rightarrow> None
       | Some t \<Rightarrow> Some (show_nat (the (pa_trigger amounts))))
     \<and> (in_triggerPrice inp \<noteq> None \<longrightarrow> 0 < the (pa_trigger amounts)
          \<and> the (pa_trigger amounts) \<le> LIGHTER_SIGNER_UINT32_MAX)"
    using preview_integers_parts [OF pi]
    by (cases "in_triggerPrice inp")
      (auto simp: plan_of_preview_def id preview_identity_of_def preview_constants signer_constants
        elim: decimalToLighterInteger_decimals)
  obtain n where n: "deriveVexAssignedClientOrderIndex (op_matchHash p) = Inr (show_nat n)"
    using client_index_range [OF hash] by blast
  have "\<exists>r. buildLighterUnsignedCreateOrderRequest ?plan = Inr r"
    using facts trig fees n assms(3)
    by (cases "in_triggerPrice inp")
      (auto simp: buildLighterUnsignedCreateOrderRequest_def Let_def plan_of_preview_def
        isProtectiveOrderType_def)
  then obtain r where r: "buildLighterUnsignedCreateOrderRequest ?plan = Inr r" by blast
  obtain e where e: "in_orderExpiry inp = JsInt e" "0 < e" "e \<le> int LIGHTER_SIGNER_INT64_MAX"
    using facts by blast
  have "assertUnsignedCreateOrderFitsOfficialSigner r = Inr () \<longleftrightarrow> b \<le> LIGHTER_SIGNER_UINT48_MAX"
    by (rule request_fits_iff [OF r, where q = q and e = e])
      (use facts trig b q a e in \<open>auto simp: plan_of_preview_def id preview_identity_of_def
         preview_constants signer_constants split: option.splits\<close>)
  moreover have "id_baseAmountInteger (op_identity p) = show_nat b"
    by (simp add: id preview_identity_of_def a)
  ultimately show ?thesis
    using r b by (intro exI [of _ b] exI [of _ r]) (auto simp: preview_constants signer_constants)
qed

text \<open>
  A signed order is accepted only for the order that was asked for. When signing returns, the
  order fitted the signer's ranges, the official adapter was asked, and its answer names the
  same deployment, account, key, nonce, client order index and match hash, a transaction type
  of one byte, and a transaction.
\<close>

theorem signed_result_is_for_this_order:
  assumes "signLighterCreateOrderWithAdapter inp adapter = Inr r"
  shows "ad_signCreateOrder adapter inp = Inr r \<and> ad_source adapter = ''official_lighter_signer''
    \<and> assertUnsignedCreateOrderFitsOfficialSigner (sg_order inp) = Inr ()
    \<and> sr_environment r = sg_environment inp
    \<and> sr_accountIndex r = sg_accountIndex inp \<and> sr_apiKeyIndex r = sg_apiKeyIndex inp
    \<and> sr_nonce r = sg_nonce inp
    \<and> sr_clientOrderIndex r = uo_clientOrderIndex (sg_order inp)
    \<and> sr_matchHash r = uo_matchHash (sg_order inp)
    \<and> (\<exists>t. sr_txType r = JsInt t \<and> 0 \<le> t \<and> t \<le> 255)
    \<and> trim (sr_txInfo r) \<noteq> [] \<and> trim (sr_txHash r) \<noteq> []"
proof -
  have same: "js_same x y \<Longrightarrow> x = y" for x y by (cases x) auto
  from assms show ?thesis
    by (auto simp: signLighterCreateOrderWithAdapter_def result_simps integer_in_range_iff dest!: same)
qed

lemma join_split: "join_with [c] (split_on c s) = s"
proof (induction s)
  case (Cons a s)
  have ne: "split_on c s \<noteq> []" by (cases s) (auto split: list.splits)
  then obtain q qs where q: "split_on c s = q # qs" by (cases "split_on c s") auto
  have j: "join_with [c] (x # ys) = x @ (if ys = [] then [] else c # join_with [c] ys)" for x ys
    by (cases ys) simp_all
  show ?case using Cons by (simp add: q j)
qed simp

text \<open>
  An authentication token is accepted only for the requested scope. It is the text
  \<open>deadline:account:key:signature\<close> of exactly the requested deadline, account and key, with a
  signature of hex digits, from the official adapter.
\<close>

theorem auth_token_is_for_this_scope:
  assumes "createLighterAccountAuthWithAdapter inp adapter = Inr r"
    and "ai_deadlineUnixSeconds inp = JsInt d" "ai_accountIndex inp = JsInt a" "ai_apiKeyIndex inp = JsInt k"
  shows "\<exists>signature. trim (ar_authToken r)
      = show_int d @ '':'' @ show_int a @ '':'' @ show_int k @ '':'' @ signature
    \<and> signature \<noteq> [] \<and> list_all is_hex_digit signature
    \<and> ar_environment r = ai_environment inp \<and> ar_deadlineUnixSeconds r = JsInt d
    \<and> ar_accountIndex r = JsInt a \<and> ar_apiKeyIndex r = JsInt k"
proof -
  from assms have t: "assertCanonicalAuthToken (ar_authToken r) inp = Inr ()"
    and same: "ar_environment r = ai_environment inp" "js_same (ar_accountIndex r) (JsInt a)"
      "js_same (ar_apiKeyIndex r) (JsInt k)" "js_same (ar_deadlineUnixSeconds r) (JsInt d)"
    by (auto simp: createLighterAccountAuthWithAdapter_def result_simps)
  have i: "Some x = integer_text (JsInt n) \<Longrightarrow> x = show_int n" for x n
    by (simp add: integer_text_def split: if_splits)
  from t assms(2-4) obtain signature where
    s: "split_on (CHR '':'') (trim (ar_authToken r)) = [show_int d, show_int a, show_int k, signature]"
    and h: "signature \<noteq> []" "list_all is_hex_digit signature"
    by (auto simp: assertCanonicalAuthToken_def result_simps dest!: i split: list.splits)
  have "trim (ar_authToken r) = show_int d @ '':'' @ show_int a @ '':'' @ show_int k @ '':'' @ signature"
    using join_split [of "CHR '':''" "trim (ar_authToken r)"] by (simp add: s)
  with h same show ?thesis
    by (cases "ar_accountIndex r"; cases "ar_apiKeyIndex r"; cases "ar_deadlineUnixSeconds r") auto
qed

text \<open>
  The two legs of a one-cancels-the-other order bracket the market. For a long position the
  stop-loss triggers strictly below the best bid and the take-profit strictly above it (for a
  short position mirrored at the best ask), both legs have the same size, which is at most
  the position, and their identities differ.
\<close>

theorem oco_legs_bracket_market:
  assumes "buildLighterOcoPreview sha256 now inp cx = Inr v"
  shows "\<exists>reference held. bestPrice (if oi_side inp = Sell then cx_bids cx else cx_asks cx)
        (if oi_side inp = Sell then Bid else Ask) = Some reference
     \<and> (if oi_side inp = Sell
        then text_value (trim (li_triggerPrice (oi_stopLoss inp))) < text_value (trim reference)
           \<and> text_value (trim reference) < text_value (trim (li_triggerPrice (oi_takeProfit inp)))
        else text_value (trim (li_triggerPrice (oi_takeProfit inp))) < text_value (trim reference)
           \<and> text_value (trim reference) < text_value (trim (li_triggerPrice (oi_stopLoss inp))))
     \<and> pc_marketPosition (op_positionContext (ov_stopLoss v)) = Some held
     \<and> text_value (trim (oi_baseAmount inp)) \<le> text_value (trim held)
     \<and> av_integer (op_baseAmount (ov_stopLoss v)) = av_integer (op_baseAmount (ov_takeProfit v))
     \<and> op_identity (ov_stopLoss v) \<noteq> op_identity (ov_takeProfit v)"
proof -
  let ?sl = "oco_leg_order inp (oi_stopLoss inp) StopLoss"
  let ?tp = "oco_leg_order inp (oi_takeProfit inp) TakeProfit"
  from assms have sl: "buildLighterOrderPreview sha256 now ?sl cx = Inr (ov_stopLoss v)"
    and tp: "buildLighterOrderPreview sha256 now ?tp cx = Inr (ov_takeProfit v)"
    and size: "av_integer (op_baseAmount (ov_stopLoss v)) = av_integer (op_baseAmount (ov_takeProfit v))"
    and hash: "op_matchHash (ov_stopLoss v) \<noteq> op_matchHash (ov_takeProfit v)"
    by (auto simp: buildLighterOcoPreview_def result_simps Let_def)
  have fields: "in_side ?sl = oi_side inp" "in_side ?tp = oi_side inp" "in_reduceOnly ?sl"
    "in_orderType ?sl = StopLoss" "in_orderType ?tp = TakeProfit"
    "in_triggerPrice ?sl = Some (li_triggerPrice (oi_stopLoss inp))"
    "in_triggerPrice ?tp = Some (li_triggerPrice (oi_takeProfit inp))"
    "in_baseAmount ?sl = oi_baseAmount inp"
    by (simp_all add: oco_leg_order_def)
  have kinds: "isProtectiveOrderType StopLoss" "isProtectiveOrderType TakeProfit"
    "isStopLossOrderType StopLoss" "\<not> isStopLossOrderType TakeProfit"
    by (simp_all add: isProtectiveOrderType_def isStopLossOrderType_def)
  have book: "op_bestBid q = bestPrice (cx_bids cx) Bid" "op_bestAsk q = bestPrice (cx_asks cx) Ask"
    if "buildLighterOrderPreview sha256 now i cx = Inr q" for i q
    using preview_checks [OF that] by blast+
  have "op_identity (ov_stopLoss v) \<noteq> op_identity (ov_takeProfit v)"
    using hash build_parts [OF sl] build_parts [OF tp] by (metis preview_of_sel(1,2))
  moreover obtain held where "pc_marketPosition (op_positionContext (ov_stopLoss v)) = Some held"
    "text_value (trim (oi_baseAmount inp)) \<le> text_value (trim held)"
    using held_covers_order [OF sl fields(3)] fields(8) by auto
  ultimately show ?thesis
    using trigger_on_protective_side [OF sl] trigger_on_protective_side [OF tp] fields kinds size
      book [OF sl] book [OF tp]
    by (cases "oi_side inp") auto
qed

text \<open>
  A grouped request never carries a leg the signer would refuse, and never the same child
  twice: both legs fit, are reduce-only and immediate-or-cancel on opposite trigger types, have
  the same amount, and have different client order indexes.
\<close>

theorem oco_request_legs_fit:
  assumes "buildLighterUnsignedOcoRequest sha256 plan = Inr r"
  shows "assertUnsignedCreateOrderFitsOfficialSigner (uc_stopLossOrder r) = Inr ()
    \<and> assertUnsignedCreateOrderFitsOfficialSigner (uc_takeProfitOrder r) = Inr ()
    \<and> uo_clientOrderIndex (uc_stopLossOrder r) \<noteq> uo_clientOrderIndex (uc_takeProfitOrder r)
    \<and> uo_orderTypeCode (uc_stopLossOrder r) = 2 \<and> uo_orderTypeCode (uc_takeProfitOrder r) = 4
    \<and> uo_timeInForceCode (uc_stopLossOrder r) = 0 \<and> uo_timeInForceCode (uc_takeProfitOrder r) = 0
    \<and> uo_reduceOnly (uc_stopLossOrder r) \<and> uo_reduceOnly (uc_takeProfitOrder r)
    \<and> uo_baseAmountInteger (uc_stopLossOrder r) = uo_baseAmountInteger (uc_takeProfitOrder r)
    \<and> uo_isAsk (uc_stopLossOrder r) = uo_isAsk (uc_takeProfitOrder r)"
  using assms
  by (auto simp: buildLighterUnsignedOcoRequest_def buildOcoLeg_def result_simps Let_def)

section \<open>Concrete orders\<close>

text \<open>A digest of the right shape that tells the texts of the samples apart.\<close>

definition sample_digest :: "string \<Rightarrow> string" where
  "sample_digest t = replicate 64 (if length t mod 4 < 2 then CHR ''1'' else CHR ''2'')"

lemma sample_digest_shape: "match_hash_shape (sample_digest t)"
  by (auto simp: sample_digest_def match_hash_shape_def list_all_iff is_lower_hex_digit_def
      is_digit_def code_unit_def)

text \<open>An order for \<open>2\<^sup>4\<^sup>8\<close> base units, which the preview admits.\<close>

definition sample_large_input :: preview_input where
  "sample_large_input = sample_input \<lparr> in_baseAmount := ''28147497671.0656'' \<rparr>"

lemma sample_large_integers:
  "preview_integers sample_large_input sample_market
     = Inr \<lparr> pa_base = 281474976710656, pa_price = 30001, pa_trigger = None, pa_minBase = 10,
             pa_minQuote = 10000000, pa_notional = 8444530776296390656 \<rparr>"
  by (simp add: sample_large_input_def preview_check_defs sample_defs Let_def text_eval)

lemma sample_large_preview:
  "\<exists>p. buildLighterOrderPreview sample_digest 0 sample_large_input (sample_context sample_market) = Inr p
     \<and> id_baseAmountInteger (op_identity p) = show_nat 281474976710656"
proof -
  let ?cx = "sample_context sample_market"
  have m: "cx_market ?cx = sample_market" by (simp add: sample_context_def)
  have checks: "validateInputScalars sample_large_input = Inr ()"
    "readLighterOrderFeeTerms (in_integratorFees sample_large_input) = Inr None"
    "assertMarketMatches sample_large_input sample_market = Inr ()"
    "assertSignableMarketIndex sample_market = Inr ()"
    "assertAccountContainsIndex sample_large_input (cx_accounts ?cx) = Inr ()"
    "assertQuoteScale sample_market = Inr ()"
    "assertExpiry (in_orderExpiry sample_large_input) 0 = Inr ()"
    "assertOrderCombination sample_large_input sample_market = Inr ()"
    "in_reduceOnly sample_large_input = False"
    "\<And>t b k. assertProtectiveTriggerDirection sample_large_input t b k = Inr ()"
    "assertSpotOrderInventory sample_large_input ?cx b n = Inr None" for b n
    by (simp_all add: sample_large_input_def preview_check_defs no_inventory_for_perp sample_defs
        Let_def text_eval)
  have r: "classifyPriceComparison (in_side sample_large_input) (in_orderType sample_large_input)
      (in_price sample_large_input) (bestPrice (cx_bids ?cx) Bid) (bestPrice (cx_asks ?cx) Ask) = Resting"
    by (simp add: sample_large_input_def preview_check_defs sample_defs Let_def text_eval)
  show ?thesis
    by (simp add: buildLighterOrderPreview_def Let_def m checks sample_large_integers r
        preview_identity_of_def)
qed

theorem previewed_order_signable_iff_witness:
  "\<exists>p r. buildLighterOrderPreview sample_digest 0 sample_large_input (sample_context sample_market) = Inr p
     \<and> buildLighterUnsignedCreateOrderRequest (plan_of_preview sample_large_input p (JsInt 3)) = Inr r
     \<and> assertUnsignedCreateOrderFitsOfficialSigner r \<noteq> Inr ()"
proof -
  obtain p where p: "buildLighterOrderPreview sample_digest 0 sample_large_input (sample_context sample_market) = Inr p"
    "id_baseAmountInteger (op_identity p) = show_nat 281474976710656"
    using sample_large_preview by blast
  have i: "in_apiKeyIndex sample_large_input = Some (JsInt 3)"
    "in_clientOrderIndexPolicy sample_large_input = LIGHTER_CLIENT_ORDER_INDEX_POLICY_DEFAULT"
    by (simp_all add: sample_large_input_def sample_defs LIGHTER_CLIENT_ORDER_INDEX_POLICY_DEFAULT_def)
  obtain b r where b: "id_baseAmountInteger (op_identity p) = show_nat b"
    and r: "buildLighterUnsignedCreateOrderRequest (plan_of_preview sample_large_input p (JsInt 3)) = Inr r"
    and f: "assertUnsignedCreateOrderFitsOfficialSigner r = Inr () \<longleftrightarrow> b < 2 ^ 48"
    using previewed_order_signable_iff [OF p(1) i _ _ sample_digest_shape] by auto
  have "b = 281474976710656" using b p(2) by simp
  with f have "assertUnsignedCreateOrderFitsOfficialSigner r \<noteq> Inr ()" by simp
  with p(1) r show ?thesis by blast
qed

definition sample_order :: unsigned_order where
  "sample_order = \<lparr> uo_integratorFees = None, uo_environment = Core, uo_accountIndex = JsInt 7,
     uo_apiKeyIndex = JsInt 3, uo_marketIndex = JsInt 5, uo_clientOrderIndex = ''9'',
     uo_baseAmountInteger = ''1500'', uo_priceInteger = ''30001'', uo_isAsk = False,
     uo_orderTypeCode = 0, uo_timeInForceCode = 2, uo_reduceOnly = False,
     uo_triggerPriceInteger = ''0'', uo_orderExpiryMs = JsInt 1000000, uo_matchHash = ''h'' \<rparr>"

definition sample_signing :: "unit signing_input" where
  "sample_signing = \<lparr> sg_environment = Core, sg_restBaseUrl = lighter_rest_base_url Core,
     sg_chainId = 304, sg_accountIndex = JsInt 7, sg_apiKeyIndex = JsInt 3, sg_nonce = ''12'',
     sg_order = sample_order, sg_secret = () \<rparr>"

text \<open>An adapter that answers with the scope it was asked for.\<close>

definition sample_adapter :: "unit signer_adapter" where
  "sample_adapter = \<lparr> ad_source = ''official_lighter_signer'',
     ad_createAccountAuth = (\<lambda>i. Inr \<lparr> ar_environment = ai_environment i, ar_accountIndex = ai_accountIndex i,
       ar_apiKeyIndex = ai_apiKeyIndex i, ar_deadlineUnixSeconds = ai_deadlineUnixSeconds i,
       ar_authToken = ''99:7:3:ab'', ar_publicKey = replicate 80 (CHR ''a'') \<rparr>),
     ad_signCreateOrder = (\<lambda>i. Inr \<lparr> sr_environment = sg_environment i, sr_accountIndex = sg_accountIndex i,
       sr_apiKeyIndex = sg_apiKeyIndex i, sr_nonce = sg_nonce i,
       sr_clientOrderIndex = uo_clientOrderIndex (sg_order i), sr_matchHash = uo_matchHash (sg_order i),
       sr_txType = JsInt 14, sr_txInfo = ''{}'', sr_txHash = ''0x1'' \<rparr>) \<rparr>"

lemmas signer_check_defs =
  assertUnsignedCreateOrderFitsOfficialSigner_def requireSafeNonNegativeInteger_def
  requireDecimalInteger_def integer_text_def signer_constants max_safe_integer_def integer_in_range_def

theorem signed_result_is_for_this_order_witness:
  "\<exists>r. signLighterCreateOrderWithAdapter sample_signing sample_adapter = Inr r
     \<and> sr_nonce r = ''12'' \<and> sr_clientOrderIndex r = ''9''"
proof -
  obtain r where r: "signLighterCreateOrderWithAdapter sample_signing sample_adapter = Inr r"
    by (simp add: signLighterCreateOrderWithAdapter_def sample_signing_def sample_adapter_def
        sample_order_def signer_check_defs Let_def text_eval)
  then show ?thesis
    using signed_result_is_for_this_order [OF r] by (simp add: sample_signing_def sample_order_def)
qed

definition sample_auth :: "unit auth_input" where
  "sample_auth = \<lparr> ai_environment = Core, ai_restBaseUrl = lighter_rest_base_url Core, ai_chainId = 304,
     ai_accountIndex = JsInt 7, ai_apiKeyIndex = JsInt 3, ai_deadlineUnixSeconds = JsInt 99, ai_secret = () \<rparr>"

theorem auth_token_is_for_this_scope_witness:
  "\<exists>r signature. createLighterAccountAuthWithAdapter sample_auth sample_adapter = Inr r
     \<and> trim (ar_authToken r) = show_int 99 @ '':'' @ show_int 7 @ '':'' @ show_int 3 @ '':'' @ signature"
proof -
  obtain r where r: "createLighterAccountAuthWithAdapter sample_auth sample_adapter = Inr r"
    by (simp add: createLighterAccountAuthWithAdapter_def sample_auth_def sample_adapter_def
        assertCanonicalAuthToken_def integer_text_def text_eval)
  have "ai_deadlineUnixSeconds sample_auth = JsInt 99" "ai_accountIndex sample_auth = JsInt 7"
    "ai_apiKeyIndex sample_auth = JsInt 3" by (simp_all add: sample_auth_def)
  from auth_token_is_for_this_scope [OF r this] r show ?thesis by blast
qed

definition sample_oco :: oco_input where
  "sample_oco = \<lparr> oi_sessionId = ''s'', oi_environment = Core, oi_accountIndex = JsInt 7,
     oi_apiKeyIndex = Some (JsInt 3), oi_marketId = JsInt 5, oi_side = Sell, oi_baseAmount = ''0.15'',
     oi_stopLoss = \<lparr> li_triggerPrice = ''290'', li_price = ''280.5'' \<rparr>,
     oi_takeProfit = \<lparr> li_triggerPrice = ''310'', li_price = ''305'' \<rparr>,
     oi_orderExpiry = JsInt 1000000, oi_clientOrderIndexPolicy = None, oi_integratorFees = Null \<rparr>"

lemma sample_oco_legs:
  "\<exists>p. buildLighterOrderPreview (\<lambda>t. t) 0 (oco_leg_order sample_oco (oi_stopLoss sample_oco) StopLoss)
     (sample_context sample_market) = Inr p"
  "\<exists>p. buildLighterOrderPreview (\<lambda>t. t) 0 (oco_leg_order sample_oco (oi_takeProfit sample_oco) TakeProfit)
     (sample_context sample_market) = Inr p"
  by (simp_all add: sample_oco_def oco_leg_order_def buildLighterOrderPreview_def Let_def
      LIGHTER_CLIENT_ORDER_INDEX_POLICY_DEFAULT_def preview_check_defs no_inventory_for_perp sample_defs text_eval)

definition sample_oco_plan :: oco_plan where
  "sample_oco_plan = \<lparr> op_plan_integratorFees = Null, op_plan_matchHash = replicate 64 (CHR ''c''),
     op_plan_environment = Core, op_plan_accountIndex = JsInt 7, op_plan_apiKeyIndex = JsInt 3,
     op_plan_marketIndex = JsInt 5, op_plan_side = Sell, op_plan_baseAmountInteger = ''1500'',
     op_plan_orderExpiryMs = JsInt 1000000,
     op_plan_stopLoss = \<lparr> lp_matchHash = ''a'', lp_priceInteger = ''28050'', lp_triggerPriceInteger = ''29000'' \<rparr>,
     op_plan_takeProfit = \<lparr> lp_matchHash = ''a'', lp_priceInteger = ''30500'', lp_triggerPriceInteger = ''31000'' \<rparr> \<rparr>"

theorem oco_request_legs_fit_witness:
  "\<exists>r. buildLighterUnsignedOcoRequest sample_digest sample_oco_plan = Inr r
     \<and> uo_clientOrderIndex (uc_stopLossOrder r) \<noteq> uo_clientOrderIndex (uc_takeProfitOrder r)"
proof -
  have "match_hash_shape (op_plan_matchHash sample_oco_plan)"
    by (simp add: sample_oco_plan_def match_hash_shape_def text_eval)
  then obtain r where "buildLighterUnsignedOcoRequest sample_digest sample_oco_plan = Inr r"
    by (simp add: buildLighterUnsignedOcoRequest_def buildOcoLeg_def sample_oco_plan_def sample_digest_def
        deriveVexAssignedClientOrderIndex_def match_hash_shape_def signer_check_defs Let_def text_eval)
  then show ?thesis using oco_request_legs_fit by blast
qed

lemma leg_view:
  assumes "buildLighterOrderPreview (\<lambda>t. t) now i cx = Inr p"
  shows "op_side p = in_side i \<and> op_marketIndex p = in_marketId i
    \<and> op_positionContext p = readPositionContext (cx_accounts cx) (in_accountIndex i) (in_marketId i)
    \<and> lighterOrderPreviewHashMaterial (op_identity p) ! 9 = order_type_text (in_orderType i)
    \<and> op_matchHash p = json_string_array (lighterOrderPreviewHashMaterial (op_identity p))"
proof -
  obtain a :: preview_amounts and sp po bid ask cmp where
    "p = preview_of (\<lambda>t. t) now i cx a sp po bid ask cmp"
    "po = readPositionContext (cx_accounts cx) (in_accountIndex i) (in_marketId i)"
    using build_parts [OF assms] by blast
  then show ?thesis
    by (simp add: preview_of_def Let_def preview_identity_of_def lighterOrderPreviewHashMaterial_def
        computeLighterOrderPreviewHash_def)
qed

lemma sample_oco_preview: "\<exists>v. buildLighterOcoPreview (\<lambda>t. t) 0 sample_oco (sample_context sample_market) = Inr v"
proof -
  let ?sl = "oco_leg_order sample_oco (oi_stopLoss sample_oco) StopLoss"
  let ?tp = "oco_leg_order sample_oco (oi_takeProfit sample_oco) TakeProfit"
  let ?cx = "sample_context sample_market"
  obtain p q where p: "buildLighterOrderPreview (\<lambda>t. t) 0 ?sl ?cx = Inr p"
    and q: "buildLighterOrderPreview (\<lambda>t. t) 0 ?tp ?cx = Inr q"
    using sample_oco_legs by blast
  obtain b sd where b: "mk_supported_size_decimals (cx_market ?cx) = JsInt (int sd)"
    "of_nat b = text_value (trim (in_baseAmount ?sl)) * 10 ^ sd" "op_baseAmount p = amount_view_of b (JsInt (int sd))"
    using preview_numbers [OF p] by blast
  obtain c sd' where c: "mk_supported_size_decimals (cx_market ?cx) = JsInt (int sd')"
    "of_nat c = text_value (trim (in_baseAmount ?tp)) * 10 ^ sd'" "op_baseAmount q = amount_view_of c (JsInt (int sd'))"
    using preview_numbers [OF q] by blast
  have "in_baseAmount ?sl = in_baseAmount ?tp" by (simp add: oco_leg_order_def)
  with b(1,2) c(1,2) have "(of_nat b :: rat) = of_nat c" "sd = sd'" by auto
  then have base: "op_baseAmount p = op_baseAmount q" using b(3) c(3) by simp
  have "op_matchHash p \<noteq> op_matchHash q"
  proof
    assume "op_matchHash p = op_matchHash q"
    with leg_view [OF p] leg_view [OF q]
    have "order_type_text StopLoss = order_type_text TakeProfit"
      by (simp add: json_string_array_inject oco_leg_order_def)
    then show False by simp
  qed
  then show ?thesis
    using leg_view [OF p] leg_view [OF q] base
    by (simp add: buildLighterOcoPreview_def p q Let_def) (simp add: oco_leg_order_def sample_oco_def sample_defs)
qed

theorem oco_legs_bracket_market_witness:
  "\<exists>reference. bestPrice (cx_bids (sample_context sample_market)) Bid = Some reference
     \<and> text_value (trim ''290'') < text_value (trim reference)
     \<and> text_value (trim reference) < text_value (trim ''310'')"
proof -
  obtain v where v: "buildLighterOcoPreview (\<lambda>t. t) 0 sample_oco (sample_context sample_market) = Inr v"
    using sample_oco_preview by blast
  have i: "oi_side sample_oco = Sell" "li_triggerPrice (oi_stopLoss sample_oco) = ''290''"
    "li_triggerPrice (oi_takeProfit sample_oco) = ''310''" by (simp_all add: sample_oco_def)
  show ?thesis using oco_legs_bracket_market [OF v] by (auto simp: i)
qed

end
