(* ===== verification/CapitalShare.thy ===== *)
theory CapitalShare
  imports MarginFraction LighterTypes
begin

text \<open>
  The agent's capital share on a Lighter account, \<open>src/src/tools/lighter/capital-share.ts\<close>.
  Amounts are integers of settlement units (6 decimals); they travel as decimal texts, as in
  the code. Budgets round down and obligations round up. The theory models every function
  of the module and proves that an admitted order keeps what is committed inside the share.
\<close>

section \<open>Refusals\<close>

text \<open>The two error codes the module throws with, and one constructor per message.\<close>

datatype capital_refusal =
    PercentNotWhole
  | DenominatorNotPositive
  | UnitsNotInteger string
  | FieldMissing string
  | FieldNotDecimal string
  | FieldNegative string
  | FieldTooPrecise string
  | BaseNotPositive
  | RiskPriceNotPositive
  | ScaleUnusable string
  | QuoteScaleMismatch
  | FractionNotOnTickScale
  | AccountFeeTicksOutOfRange
  | IntegratorFeeTicksOutOfRange
  | NoDefaultMarginFraction
  | MarginText margin_refusal
  | BudgetTextNotInteger
  | ShareExceeded string

section \<open>Strict parsing\<close>

definition LIGHTER_CAPITAL_UNITS_DECIMALS :: nat where
  "LIGHTER_CAPITAL_UNITS_DECIMALS = 6"

definition LIGHTER_FEE_TICK_DENOMINATOR :: nat where
  "LIGHTER_FEE_TICK_DENOMINATOR = 1000000"

definition assertScale :: "js_number \<Rightarrow> string \<Rightarrow> (capital_refusal, nat) result" where
  "assertScale decimals name =
     bindE (requireE (is_integer decimals \<and> 0 \<le> int_of_js decimals \<and> int_of_js decimals \<le> 18)
              (ScaleUnusable name)) (\<lambda>_.
     Inr (nat (int_of_js decimals)))"

definition parseNonNegativeInteger :: "string \<Rightarrow> nat option" where
  "parseNonNegativeInteger value =
     (if \<not> canonical_nat (trim value) then None else Some (digits_val (trim value)))"

definition integerUnits :: "string \<Rightarrow> string \<Rightarrow> (capital_refusal, nat) result" where
  "integerUnits value name =
     (case parseNonNegativeInteger value of
        None \<Rightarrow> Inl (UnitsNotInteger name)
      | Some parsed \<Rightarrow> Inr parsed)"

fun sumUnits :: "nat list \<Rightarrow> nat" where
  "sumUnits [] = 0"
| "sumUnits (value # rest) = value + sumUnits rest"

text \<open>
  \<open>/^(-?)(\d+)(?:\.(\d*))?$/\<close>: a sign, digits, and possibly a dot with digits after it. A
  value that is not a string is \<open>None\<close>.
\<close>

definition signed_text :: "string \<Rightarrow> bool \<times> string" where
  "signed_text t = (case t of c # r \<Rightarrow> if c = CHR ''-'' then (True, r) else (False, t) | [] \<Rightarrow> (False, t))"

definition scaled_shape :: "string \<Rightarrow> bool" where
  "scaled_shape u = (whole_part u \<noteq> [] \<and> all_digits (whole_part u) \<and> all_digits (fraction_or_empty u))"

definition decimalToScaledInteger ::
    "string option \<Rightarrow> nat \<Rightarrow> string \<Rightarrow> (capital_refusal, nat) result" where
  "decimalToScaledInteger value decimals name =
     (case value of
        None \<Rightarrow> Inl (FieldMissing name)
      | Some text \<Rightarrow>
          let (negative, u) = signed_text (trim text);
              whole = whole_part u; fractionRaw = fraction_or_empty u
          in bindE (requireE (scaled_shape u) (FieldNotDecimal name)) (\<lambda>_.
             bindE (requireE (\<not> (negative \<and> list_ex is_nonzero_digit (whole @ fractionRaw)))
                      (FieldNegative name)) (\<lambda>_.
             bindE (requireE (length fractionRaw \<le> decimals) (FieldTooPrecise name)) (\<lambda>_.
             Inr (digits_val (whole @ pad_end decimals fractionRaw))))))"

definition decimalToCapitalUnits :: "string option \<Rightarrow> string \<Rightarrow> (capital_refusal, nat) result" where
  "decimalToCapitalUnits value name =
     decimalToScaledInteger value LIGHTER_CAPITAL_UNITS_DECIMALS name"

definition ceilDiv :: "nat \<Rightarrow> nat \<Rightarrow> (capital_refusal, nat) result" where
  "ceilDiv numerator denominator =
     (if denominator \<le> 0 then Inl DenominatorNotPositive
      else if numerator \<le> 0 then Inr 0
      else Inr ((numerator + denominator - 1) div denominator))"

definition rescaleToCapitalUnits :: "nat \<Rightarrow> nat \<Rightarrow> (capital_refusal, nat) result" where
  "rescaleToCapitalUnits value quoteDecimals =
     (if quoteDecimals = LIGHTER_CAPITAL_UNITS_DECIMALS then Inr value
      else if LIGHTER_CAPITAL_UNITS_DECIMALS < quoteDecimals
        then ceilDiv value (10 ^ (quoteDecimals - LIGHTER_CAPITAL_UNITS_DECIMALS))
      else Inr (value * 10 ^ (LIGHTER_CAPITAL_UNITS_DECIMALS - quoteDecimals)))"

definition feePercentToTicks :: "string option \<Rightarrow> string \<Rightarrow> (capital_refusal, nat) result" where
  "feePercentToTicks value name = decimalToScaledInteger value 4 name"

definition accountFeeTicks :: "js_number \<Rightarrow> (capital_refusal, nat) result" where
  "accountFeeTicks ticks =
     bindE (requireE (is_safe_integer ticks \<and> 0 \<le> int_of_js ticks \<and> int_of_js ticks \<le> 1000000)
              AccountFeeTicksOutOfRange) (\<lambda>_.
     Inr (nat (int_of_js ticks)))"

definition integratorTicks :: "js_number \<Rightarrow> (capital_refusal, nat) result" where
  "integratorTicks ticks =
     bindE (requireE (is_safe_integer ticks \<and> 0 \<le> int_of_js ticks \<and> int_of_js ticks \<le> 1000000)
              IntegratorFeeTicksOutOfRange) (\<lambda>_.
     Inr (nat (int_of_js ticks)))"

text \<open>Rendering: \<open>units\<close> comes back unchanged when it is not an integer.\<close>

definition formatCapitalUnits :: "string \<Rightarrow> string" where
  "formatCapitalUnits units =
     (case parseNonNegativeInteger units of
        None \<Rightarrow> units
      | Some value \<Rightarrow>
          let raw = pad_start (LIGHTER_CAPITAL_UNITS_DECIMALS + 1) (show_nat value)
          in slice_front LIGHTER_CAPITAL_UNITS_DECIMALS raw @ ''.''
             @ slice_back LIGHTER_CAPITAL_UNITS_DECIMALS raw)"

section \<open>The budget\<close>

record capital_budget_input =
  bi_agentCapitalSharePercent :: js_number
  bi_collateral :: "string option"
  bi_crossInitialMarginRequirement :: "string option"
  bi_isolatedAllocatedMargins :: "string option list"
  bi_restingOrderReservedMarginUnits :: "string list"
  bi_vexLiveIntentUnits :: "string list"

record capital_budget =
  cb_agentCapitalSharePercent :: nat
  cb_collateralUnits :: string
  cb_budgetUnits :: string
  cb_committedUnits :: string
  cb_remainingUnits :: string
  cb_providerCrossInitialMarginUnits :: string
  cb_isolatedAllocatedMarginUnits :: string
  cb_restingOrderReservedMarginUnits :: string
  cb_vexLiveIntentUnits :: string

definition computeLighterCapitalBudget ::
    "capital_budget_input \<Rightarrow> (capital_refusal, capital_budget) result" where
  "computeLighterCapitalBudget inp =
     bindE (requireE (is_integer (bi_agentCapitalSharePercent inp)
                      \<and> 1 \<le> int_of_js (bi_agentCapitalSharePercent inp)
                      \<and> int_of_js (bi_agentCapitalSharePercent inp) \<le> 100) PercentNotWhole) (\<lambda>_.
     bindE (decimalToCapitalUnits (bi_collateral inp) ''collateral'') (\<lambda>collateralUnits.
     bindE (decimalToCapitalUnits (bi_crossInitialMarginRequirement inp)
              ''cross_initial_margin_requirement'') (\<lambda>providerCross.
     bindE (mapE (\<lambda>v. decimalToCapitalUnits v ''allocated_margin'')
              (bi_isolatedAllocatedMargins inp)) (\<lambda>isolateds.
     bindE (mapE (\<lambda>v. integerUnits v ''restingOrderReservedMarginUnits'')
              (bi_restingOrderReservedMarginUnits inp)) (\<lambda>restings.
     bindE (mapE (\<lambda>v. integerUnits v ''vexLiveIntentUnits'')
              (bi_vexLiveIntentUnits inp)) (\<lambda>vexLives.
     let percent = nat (int_of_js (bi_agentCapitalSharePercent inp));
         isolated = sumUnits isolateds;
         resting = sumUnits restings;
         vexLive = sumUnits vexLives;
         budget = (collateralUnits * percent) div 100;
         committed = providerCross + isolated + resting + vexLive;
         remaining = (if committed \<ge> budget then 0 else budget - committed)
     in Inr \<lparr> cb_agentCapitalSharePercent = percent,
             cb_collateralUnits = show_nat collateralUnits,
             cb_budgetUnits = show_nat budget,
             cb_committedUnits = show_nat committed,
             cb_remainingUnits = show_nat remaining,
             cb_providerCrossInitialMarginUnits = show_nat providerCross,
             cb_isolatedAllocatedMarginUnits = show_nat isolated,
             cb_restingOrderReservedMarginUnits = show_nat resting,
             cb_vexLiveIntentUnits = show_nat vexLive \<rparr>))))))"

section \<open>The price an order is charged at\<close>

datatype risk_price_basis = ApprovedLimitPrice | ApprovedExecutionBound | MarkPrice

datatype risk_price_reason = NoApprovedBound | NoMarkPrice | MarkPriceUnreadable capital_refusal

record risk_price_input =
  rp_side :: order_side
  rp_approvedPriceInteger :: string
  rp_approvedPriceRole :: price_role
  rp_priceDecimals :: nat
  rp_markPrice :: "string option"

text \<open>The module answers a value rather than throwing: \<open>Inl\<close> is \<open>{ ok: false, reason }\<close>.\<close>

definition resolveLighterCapitalRiskPriceInteger ::
    "risk_price_input \<Rightarrow> (risk_price_reason, string \<times> risk_price_basis) result" where
  "resolveLighterCapitalRiskPriceInteger inp =
     (case parseNonNegativeInteger (rp_approvedPriceInteger inp) of
        None \<Rightarrow> Inl NoApprovedBound
      | Some approved \<Rightarrow>
          if approved \<le> 0 then Inl NoApprovedBound
          else
            let basis = (if rp_approvedPriceRole inp = LimitPrice
                         then ApprovedLimitPrice else ApprovedExecutionBound)
            in if rp_side inp = Buy then Inr (show_nat approved, basis)
               else (case rp_markPrice inp of
                       None \<Rightarrow> Inl NoMarkPrice
                     | Some text \<Rightarrow>
                         (case decimalToScaledInteger (Some text) (rp_priceDecimals inp) ''mark_price'' of
                            Inl e \<Rightarrow> Inl (MarkPriceUnreadable e)
                          | Inr mark \<Rightarrow>
                              if mark > approved then Inr (show_nat mark, MarkPrice)
                              else Inr (show_nat approved, basis))))"

section \<open>What one order obligates\<close>

record required_capital_input =
  ri_baseAmountInteger :: string
  ri_riskPriceInteger :: string
  ri_riskPriceBasis :: risk_price_basis
  ri_sizeDecimals :: js_number
  ri_priceDecimals :: js_number
  ri_quoteDecimals :: js_number
  ri_initialMarginFraction :: js_number
  ri_exchangeTakerFeePercent :: "string option"
  ri_exchangeAccountTakerFeeTicks :: js_number
  ri_vexIntegratorTakerFeeTicks :: "js_number option"

record required_capital =
  rc_requiredUnits :: string
  rc_notionalUnits :: string
  rc_initialMarginUnits :: string
  rc_exchangeTakerFeeUnits :: string
  rc_vexIntegratorFeeUnits :: string
  rc_initialMarginFraction :: nat
  rc_riskPriceInteger :: string
  rc_riskPriceBasis :: risk_price_basis

definition positive_integer_text :: "string \<Rightarrow> capital_refusal \<Rightarrow> (capital_refusal, nat) result" where
  "positive_integer_text value e =
     (case parseNonNegativeInteger value of
        None \<Rightarrow> Inl e
      | Some n \<Rightarrow> if n \<le> 0 then Inl e else Inr n)"

definition computeLighterOrderRequiredCapital ::
    "required_capital_input \<Rightarrow> (capital_refusal, required_capital) result" where
  "computeLighterOrderRequiredCapital inp =
     bindE (positive_integer_text (ri_baseAmountInteger inp) BaseNotPositive) (\<lambda>base.
     bindE (positive_integer_text (ri_riskPriceInteger inp) RiskPriceNotPositive) (\<lambda>price.
     bindE (assertScale (ri_sizeDecimals inp) ''supported_size_decimals'') (\<lambda>sizeDecimals.
     bindE (assertScale (ri_priceDecimals inp) ''supported_price_decimals'') (\<lambda>priceDecimals.
     bindE (assertScale (ri_quoteDecimals inp) ''supported_quote_decimals'') (\<lambda>quoteDecimals.
     bindE (requireE (quoteDecimals = sizeDecimals + priceDecimals) QuoteScaleMismatch) (\<lambda>_.
     bindE (requireE (is_integer (ri_initialMarginFraction inp)
                      \<and> 0 < int_of_js (ri_initialMarginFraction inp)
                      \<and> int_of_js (ri_initialMarginFraction inp) \<le> int LIGHTER_MARGIN_FRACTION_TICK)
              FractionNotOnTickScale) (\<lambda>_.
     let imf = nat (int_of_js (ri_initialMarginFraction inp));
         notionalAtMarketScale = base * price in
     bindE (rescaleToCapitalUnits notionalAtMarketScale quoteDecimals) (\<lambda>notionalUnits.
     bindE (ceilDiv (notionalUnits * imf) LIGHTER_MARGIN_FRACTION_TICK) (\<lambda>marginUnits.
     bindE (feePercentToTicks (ri_exchangeTakerFeePercent inp) ''market taker_fee'') (\<lambda>marketTicks.
     bindE (accountFeeTicks (ri_exchangeAccountTakerFeeTicks inp)) (\<lambda>accountTicks.
     let exchangeTicks = (if accountTicks > marketTicks then accountTicks else marketTicks) in
     bindE (ceilDiv (notionalUnits * exchangeTicks) LIGHTER_FEE_TICK_DENOMINATOR) (\<lambda>exchangeFeeUnits.
     bindE (case ri_vexIntegratorTakerFeeTicks inp of
              None \<Rightarrow> Inr 0 | Some ticks \<Rightarrow> integratorTicks ticks) (\<lambda>vexTicks.
     bindE (ceilDiv (notionalUnits * vexTicks) LIGHTER_FEE_TICK_DENOMINATOR) (\<lambda>vexFeeUnits.
     Inr \<lparr> rc_requiredUnits = show_nat (marginUnits + exchangeFeeUnits + vexFeeUnits),
           rc_notionalUnits = show_nat notionalUnits,
           rc_initialMarginUnits = show_nat marginUnits,
           rc_exchangeTakerFeeUnits = show_nat exchangeFeeUnits,
           rc_vexIntegratorFeeUnits = show_nat vexFeeUnits,
           rc_initialMarginFraction = imf,
           rc_riskPriceInteger = show_nat price,
           rc_riskPriceBasis = ri_riskPriceBasis inp \<rparr>))))))))))))))"

datatype fraction_source = PositionRow | MarketDefault

text \<open>
  \<open>position_fraction\<close> is \<open>positionRow?.initial_margin_fraction\<close>, \<open>None\<close> when there is no row
  or the field is not a string; \<open>market_default\<close> is the market's own default, \<open>None\<close> when absent.
\<close>

definition resolveLighterInitialMarginFraction ::
    "string option \<Rightarrow> js_number option \<Rightarrow> (capital_refusal, nat \<times> fraction_source) result" where
  "resolveLighterInitialMarginFraction position_fraction market_default =
     (let fallback =
        (case market_default of
           Some (JsInt i) \<Rightarrow> if i \<le> 0 then Inl NoDefaultMarginFraction else Inr (nat i, MarketDefault)
         | _ \<Rightarrow> Inl NoDefaultMarginFraction)
      in case position_fraction of
           Some raw \<Rightarrow>
             if 0 < length (trim raw)
             then bindE (liftE MarginText (positionInitialMarginFractionToProviderScale (Some raw))) (\<lambda>f.
                  Inr (f, PositionRow))
             else fallback
         | None \<Rightarrow> fallback)"

section \<open>The decision\<close>

datatype share_exemption = NoShareConfigured | ReduceOnly | SpotSell

datatype share_refusal_text = SpotBuyUnderShare int | Unbounded string | LiveNumbersMissing

record share_assessment =
  sa_agentCapitalSharePercent :: int
  sa_walletAddress :: string
  sa_accountIndex :: int
  sa_passes :: bool
  sa_budgetUnits :: string
  sa_committedUnits :: string
  sa_remainingUnits :: string
  sa_requiredUnits :: string
  sa_decimals :: nat
  sa_budgetDisplay :: string
  sa_remainingDisplay :: string
  sa_requiredDisplay :: string
  sa_initialMarginFraction :: nat
  sa_initialMarginFractionSource :: fraction_source
  sa_riskPriceBasis :: risk_price_basis

datatype share_outcome =
    Exempt share_exemption
  | Assessed share_assessment
  | Refused share_refusal_text

record share_input =
  si_agentCapitalSharePercent :: "int option"
  si_walletAddress :: string
  si_accountIndex :: int
  si_marketType :: string
  si_side :: order_side
  si_reduceOnly :: bool
  si_budget :: "capital_budget option"
  si_required :: "required_capital option"
  si_initialMarginFractionSource :: fraction_source
  si_unbounded :: "string option"

text \<open>
  \<open>BigInt\<close> throws on a text that is not an integer, which is the error of this function; the
  constant fields of the assessment (kind, source, who may change the share, the note) are left
  out of the record.
\<close>

definition assessLighterOrderCapitalShare ::
    "share_input \<Rightarrow> (capital_refusal, share_outcome) result" where
  "assessLighterOrderCapitalShare inp =
     (case si_agentCapitalSharePercent inp of
        None \<Rightarrow> Inr (Exempt NoShareConfigured)
      | Some percent \<Rightarrow>
          if si_reduceOnly inp then Inr (Exempt ReduceOnly)
          else if si_marketType inp = ''spot'' then
            (if si_side inp = Sell then Inr (Exempt SpotSell)
             else Inr (Refused (SpotBuyUnderShare percent)))
          else (case si_unbounded inp of
            Some reason \<Rightarrow> Inr (Refused (Unbounded reason))
          | None \<Rightarrow>
            (case (si_budget inp, si_required inp) of
               (Some budget, Some req) \<Rightarrow>
                 (case (js_bigint (cb_remainingUnits budget), js_bigint (rc_requiredUnits req)) of
                    (Some remaining, Some required) \<Rightarrow>
                      Inr (Assessed
                        \<lparr> sa_agentCapitalSharePercent = percent,
                          sa_walletAddress = si_walletAddress inp,
                          sa_accountIndex = si_accountIndex inp,
                          sa_passes = (required \<le> remaining),
                          sa_budgetUnits = cb_budgetUnits budget,
                          sa_committedUnits = cb_committedUnits budget,
                          sa_remainingUnits = cb_remainingUnits budget,
                          sa_requiredUnits = rc_requiredUnits req,
                          sa_decimals = LIGHTER_CAPITAL_UNITS_DECIMALS,
                          sa_budgetDisplay = formatCapitalUnits (cb_budgetUnits budget),
                          sa_remainingDisplay = formatCapitalUnits (cb_remainingUnits budget),
                          sa_requiredDisplay = formatCapitalUnits (rc_requiredUnits req),
                          sa_initialMarginFraction = rc_initialMarginFraction req,
                          sa_initialMarginFractionSource = si_initialMarginFractionSource inp,
                          sa_riskPriceBasis = rc_riskPriceBasis req \<rparr>)
                  | _ \<Rightarrow> Inl BudgetTextNotInteger)
             | _ \<Rightarrow> Inr (Refused LiveNumbersMissing))))"

text \<open>The refusal names both numbers, the share, the account and what is already committed.\<close>

definition describeLighterCapitalShareBreach :: "share_assessment \<Rightarrow> string" where
  "describeLighterCapitalShareBreach a =
     ''Refusing this Lighter order: it would commit '' @ sa_requiredDisplay a
     @ '' of margin and fees, which exceeds the '' @ sa_remainingDisplay a
     @ '' still available under the agent's '' @ show_int (sa_agentCapitalSharePercent a)
     @ ''% capital share for account '' @ show_int (sa_accountIndex a)
     @ '' (share budget '' @ sa_budgetDisplay a @ '', already committed ''
     @ formatCapitalUnits (sa_committedUnits a) @ ''). The order is NOT resized. ''
     @ ''Raise the share in Settings -> Lighter -> Trading setup, or ask for a smaller order.''"

definition share_refusal_message :: "share_refusal_text \<Rightarrow> string" where
  "share_refusal_message r =
     (case r of
        SpotBuyUnderShare percent \<Rightarrow>
          ''This Lighter spot buy is refused while an agent capital share of '' @ show_int percent
          @ ''% is set. ''
          @ ''The share governs perpetual margin, and spot purchases settle into inventory that the share cannot account for. ''
          @ ''Trade the perpetual market instead, or clear the share in Settings -> Lighter -> Trading setup to trade spot as before.''
      | Unbounded reason \<Rightarrow> reason
      | LiveNumbersMissing \<Rightarrow>
          ''The live Lighter account or market numbers this capital share depends on were not available, ''
          @ ''so the order was not admitted. Nothing was signed or submitted.'')"

definition assertLighterOrderCapitalShare ::
    "share_input \<Rightarrow> (capital_refusal, share_outcome) result" where
  "assertLighterOrderCapitalShare inp =
     bindE (assessLighterOrderCapitalShare inp) (\<lambda>outcome.
     (case outcome of
        Refused r \<Rightarrow> Inl (ShareExceeded (share_refusal_message r))
      | Assessed a \<Rightarrow>
          if \<not> sa_passes a then Inl (ShareExceeded (describeLighterCapitalShareBreach a))
          else Inr outcome
      | Exempt e \<Rightarrow> Inr outcome))"

section \<open>Parsing and rounding\<close>

lemma ceilDiv_eq: "0 < d \<Longrightarrow> ceilDiv n d = Inr (ceil_quotient n d)"
  by (simp add: ceilDiv_def ceil_quotient_def)

interpretation capital_ceil: rounds_up "\<lambda>n d. projr (ceilDiv n d)"
proof
  fix d n :: nat
  assume "0 < d"
  then show "n \<le> projr (ceilDiv n d) * d" "projr (ceilDiv n d) * d < n + d"
    using margin_ceil.covers margin_ceil.tight by (simp_all add: ceilDiv_eq)
qed

lemma ceilDiv_Inr:
  assumes "ceilDiv n d = Inr q"
  shows "0 < d" "q = projr (ceilDiv n d)"
  using assms by (auto simp: ceilDiv_def split: if_splits)

lemma ceilDiv_exact:
  assumes "ceilDiv n d = Inr q"
  shows "(of_nat n :: rat) / of_nat d \<le> of_nat q" "(of_nat q :: rat) < of_nat n / of_nat d + 1"
  using capital_ceil.exact_le [OF ceilDiv_Inr(1) [OF assms], of n]
    capital_ceil.exact_gt [OF ceilDiv_Inr(1) [OF assms], of n] ceilDiv_Inr(2) [OF assms]
  by simp_all

lemma parseNonNegativeInteger_show [simp]: "parseNonNegativeInteger (show_nat n) = Some n"
  by (simp add: parseNonNegativeInteger_def)

lemma parseNonNegativeInteger_canonical:
  "parseNonNegativeInteger s = Some n \<Longrightarrow> trim s = show_nat n"
  by (auto simp: parseNonNegativeInteger_def canonical_nat_unique split: if_splits)

lemma decimalToScaledInteger_value:
  assumes "decimalToScaledInteger (Some s) d name = Inr n"
  shows "of_nat n = text_value (snd (signed_text (trim s))) * 10 ^ d"
proof -
  obtain neg u where u: "signed_text (trim s) = (neg, u)" by (cases "signed_text (trim s)")
  from assms have "length (fraction_or_empty u) \<le> d"
    and "n = digits_val (whole_part u @ pad_end d (fraction_or_empty u))"
    by (auto simp: decimalToScaledInteger_def u result_simps Let_def)
  then show ?thesis using scaled_text_value [of "fraction_or_empty u" d "whole_part u"]
    by (simp add: u text_value_def)
qed

lemma no_nonzero_digit_zero:
  assumes "all_digits s" "\<not> list_ex is_nonzero_digit s"
  shows "digits_val s = 0"
proof -
  have "set s \<subseteq> {CHR ''0''}"
    using assms by (auto simp: all_digits_def list_all_iff list_ex_iff nonzero_digit_iff)
  then have "s = replicate (length s) (CHR ''0'')"
    by (auto intro!: replicate_eqI [symmetric, THEN sym] simp: replicate_length_same [symmetric])
  then show ?thesis by (metis digits_val_zeros)
qed

text \<open>A negative figure is never read as a positive one: only a negative zero passes.\<close>

lemma decimalToScaledInteger_negative:
  assumes "decimalToScaledInteger (Some s) d name = Inr n" "fst (signed_text (trim s))"
  shows "n = 0"
proof -
  obtain u where u: "signed_text (trim s) = (True, u)"
    using assms(2) by (cases "signed_text (trim s)") auto
  let ?w = "whole_part u" and ?f = "fraction_or_empty u"
  from assms(1) have "all_digits (?w @ ?f)" "\<not> list_ex is_nonzero_digit (?w @ ?f)"
    and n: "n = digits_val (?w @ pad_end d ?f)"
    by (auto simp: decimalToScaledInteger_def u result_simps Let_def scaled_shape_def)
  then have "digits_val (?w @ ?f) = 0" by (intro no_nonzero_digit_zero)
  then show ?thesis
    using digits_val_pad_end [of "?w @ ?f" "d - length ?f"] by (simp add: n pad_end_def)
qed

lemma rescale_exact:
  assumes "rescaleToCapitalUnits v q = Inr n"
  shows "(of_nat v :: rat) * 10 ^ 6 / 10 ^ q \<le> of_nat n"
    and "(of_nat n :: rat) < of_nat v * 10 ^ 6 / 10 ^ q + 1"
proof -
  consider "q = 6" "n = v" | "6 < q" "ceilDiv v (10 ^ (q - 6)) = Inr n"
    | "q < 6" "n = v * 10 ^ (6 - q)"
    using assms by (auto simp: rescaleToCapitalUnits_def LIGHTER_CAPITAL_UNITS_DECIMALS_def split: if_splits)
  then have "(of_nat v :: rat) * 10 ^ 6 / 10 ^ q \<le> of_nat n
      \<and> (of_nat n :: rat) < of_nat v * 10 ^ 6 / 10 ^ q + 1"
  proof cases
    case 1
    then show ?thesis by simp
  next
    case 2
    have "(10::rat) ^ q = 10 ^ (q - 6) * 10 ^ 6"
      using 2(1) by (metis le_add_diff_inverse2 less_imp_le power_add)
    then show ?thesis using ceilDiv_exact [OF 2(2)] by simp
  next
    case 3
    have e: "(10::rat) ^ 6 = 10 ^ (6 - q) * 10 ^ q"
      using 3(1) by (metis le_add_diff_inverse2 less_imp_le power_add)
    show ?thesis unfolding e 3(2) by simp
  qed
  then show "(of_nat v :: rat) * 10 ^ 6 / 10 ^ q \<le> of_nat n"
    "(of_nat n :: rat) < of_nat v * 10 ^ 6 / 10 ^ q + 1" by auto
qed

lemma sumUnits_eq: "sumUnits xs = sum_list xs"
  by (induction xs) auto

section \<open>The budget is the share, rounded down\<close>

text \<open>The integers behind the texts of a computed budget.\<close>

lemma budget_numbers:
  assumes "computeLighterCapitalBudget inp = Inr b"
  shows "\<exists>percent collateral committed. bi_agentCapitalSharePercent inp = JsInt (int percent)
     \<and> 1 \<le> percent \<and> percent \<le> 100
     \<and> decimalToCapitalUnits (bi_collateral inp) ''collateral'' = Inr collateral
     \<and> cb_budgetUnits b = show_nat (collateral * percent div 100)
     \<and> cb_committedUnits b = show_nat committed
     \<and> cb_remainingUnits b = show_nat (collateral * percent div 100 - committed)"
proof -
  let ?p = "int_of_js (bi_agentCapitalSharePercent inp)"
  from assms obtain collateral cross isolateds restings lives where
    p: "is_integer (bi_agentCapitalSharePercent inp)" "1 \<le> ?p" "?p \<le> 100"
    and c: "decimalToCapitalUnits (bi_collateral inp) ''collateral'' = Inr collateral"
    and b: "cb_budgetUnits b = show_nat (collateral * nat ?p div 100)"
      "cb_committedUnits b = show_nat (cross + sumUnits isolateds + sumUnits restings + sumUnits lives)"
      "cb_remainingUnits b = show_nat (collateral * nat ?p div 100
         - (cross + sumUnits isolateds + sumUnits restings + sumUnits lives))"
    by (auto simp: computeLighterCapitalBudget_def result_simps Let_def)
  have "bi_agentCapitalSharePercent inp = JsInt (int (nat ?p))" "1 \<le> nat ?p" "nat ?p \<le> 100"
    using p by (auto simp: is_integer_iff)
  with b c show ?thesis by blast
qed

text \<open>What every addend of the commitment contributes.\<close>

lemma budget_commitment:
  assumes "computeLighterCapitalBudget inp = Inr b"
  shows "\<exists>cross isolateds restings lives.
     decimalToCapitalUnits (bi_crossInitialMarginRequirement inp)
       ''cross_initial_margin_requirement'' = Inr cross
     \<and> map (\<lambda>v. decimalToCapitalUnits v ''allocated_margin'') (bi_isolatedAllocatedMargins inp) = map Inr isolateds
     \<and> map parseNonNegativeInteger (bi_restingOrderReservedMarginUnits inp) = map Some restings
     \<and> map parseNonNegativeInteger (bi_vexLiveIntentUnits inp) = map Some lives
     \<and> cb_committedUnits b
         = show_nat (cross + sum_list isolateds + sum_list restings + sum_list lives)"
proof -
  have units: "map parseNonNegativeInteger vs = map Some ns"
    if "mapE (\<lambda>v. integerUnits v nm) vs = Inr ns" for vs ns nm
    using that by (induction vs arbitrary: ns)
      (auto simp: result_simps integerUnits_def split: option.splits)
  from assms obtain cross isolateds restings lives where
    "decimalToCapitalUnits (bi_crossInitialMarginRequirement inp)
       ''cross_initial_margin_requirement'' = Inr cross"
    "mapE (\<lambda>v. decimalToCapitalUnits v ''allocated_margin'') (bi_isolatedAllocatedMargins inp) = Inr isolateds"
    "mapE (\<lambda>v. integerUnits v ''restingOrderReservedMarginUnits'')
       (bi_restingOrderReservedMarginUnits inp) = Inr restings"
    "mapE (\<lambda>v. integerUnits v ''vexLiveIntentUnits'') (bi_vexLiveIntentUnits inp) = Inr lives"
    "cb_committedUnits b = show_nat (cross + sum_list isolateds + sum_list restings + sum_list lives)"
    by (auto simp: computeLighterCapitalBudget_def result_simps Let_def sumUnits_eq)
  then show ?thesis using units mapE_Inr_iff by blast
qed

section \<open>The requirement covers the order\<close>

text \<open>
  What an order costs, exactly: the notional in settlement units times the margin fraction
  and the two fee rates. \<open>base * price\<close> is an integer at the market's quote scale \<open>q\<close>.
\<close>

definition exact_notional :: "nat \<Rightarrow> nat \<Rightarrow> nat \<Rightarrow> rat" where
  "exact_notional base price q = of_nat (base * price) * 10 ^ 6 / 10 ^ q"

definition exact_obligation :: "rat \<Rightarrow> nat \<Rightarrow> nat \<Rightarrow> nat \<Rightarrow> rat" where
  "exact_obligation notional imf exchangeTicks vexTicks =
     notional * of_nat imf / 10000 + notional * of_nat exchangeTicks / 1000000
     + notional * of_nat vexTicks / 1000000"

lemma positive_integer_text_Inr:
  "positive_integer_text s e = Inr n \<longleftrightarrow> parseNonNegativeInteger s = Some n \<and> 0 < n"
  by (auto simp: positive_integer_text_def split: option.splits if_splits)

lemma required_numbers:
  assumes "computeLighterOrderRequiredCapital inp = Inr r"
  shows "\<exists>base price q imf market account vex notional margin exch vfee.
     parseNonNegativeInteger (ri_baseAmountInteger inp) = Some base \<and> 0 < base
     \<and> parseNonNegativeInteger (ri_riskPriceInteger inp) = Some price \<and> 0 < price
     \<and> ri_quoteDecimals inp = JsInt (int q)
     \<and> ri_initialMarginFraction inp = JsInt (int imf) \<and> 0 < imf \<and> imf \<le> 10000
     \<and> feePercentToTicks (ri_exchangeTakerFeePercent inp) ''market taker_fee'' = Inr market
     \<and> accountFeeTicks (ri_exchangeAccountTakerFeeTicks inp) = Inr account
     \<and> (case ri_vexIntegratorTakerFeeTicks inp of None \<Rightarrow> Inr 0 | Some t \<Rightarrow> integratorTicks t) = Inr vex
     \<and> rescaleToCapitalUnits (base * price) q = Inr notional
     \<and> ceilDiv (notional * imf) 10000 = Inr margin
     \<and> ceilDiv (notional * max account market) 1000000 = Inr exch
     \<and> ceilDiv (notional * vex) 1000000 = Inr vfee
     \<and> rc_requiredUnits r = show_nat (margin + exch + vfee)
     \<and> rc_initialMarginUnits r = show_nat margin"
proof -
  have scale: "x = JsInt (int q)" if "assertScale x nm = Inr q" for x nm q
    using that by (auto simp: assertScale_def result_simps is_integer_iff)
  let ?f = "int_of_js (ri_initialMarginFraction inp)"
  from assms obtain base price q market account vex notional margin exch vfee where
    *: "parseNonNegativeInteger (ri_baseAmountInteger inp) = Some base" "0 < base"
      "parseNonNegativeInteger (ri_riskPriceInteger inp) = Some price" "0 < price"
      "assertScale (ri_quoteDecimals inp) ''supported_quote_decimals'' = Inr q"
      "is_integer (ri_initialMarginFraction inp)" "0 < ?f" "?f \<le> 10000"
      "feePercentToTicks (ri_exchangeTakerFeePercent inp) ''market taker_fee'' = Inr market"
      "accountFeeTicks (ri_exchangeAccountTakerFeeTicks inp) = Inr account"
      "(case ri_vexIntegratorTakerFeeTicks inp of None \<Rightarrow> Inr 0 | Some t \<Rightarrow> integratorTicks t) = Inr vex"
      "rescaleToCapitalUnits (base * price) q = Inr notional"
      "ceilDiv (notional * nat ?f) 10000 = Inr margin"
      "ceilDiv (notional * (if account > market then account else market)) 1000000 = Inr exch"
      "ceilDiv (notional * vex) 1000000 = Inr vfee"
    and r: "rc_requiredUnits r = show_nat (margin + exch + vfee)" "rc_initialMarginUnits r = show_nat margin"
    unfolding computeLighterOrderRequiredCapital_def LIGHTER_MARGIN_FRACTION_TICK_def
      LIGHTER_FEE_TICK_DENOMINATOR_def Let_def
    by (auto simp only: result_simps positive_integer_text_Inr sum.inject of_nat_numeral required_capital.select_convs)
  have f: "ri_initialMarginFraction inp = JsInt (int (nat ?f))" "0 < nat ?f" "nat ?f \<le> 10000"
    using *(6-8) by (auto simp: is_integer_iff)
  have e: "ceilDiv (notional * max account market) 1000000 = Inr exch"
    using *(14) by (simp add: max_def split: if_splits)
  show ?thesis
    by (intro exI conjI) (rule * f e r scale [OF *(5)])+
qed

lemma required_covers_obligation:
  assumes "rescaleToCapitalUnits (base * price) q = Inr notional"
    and "ceilDiv (notional * imf) 10000 = Inr margin"
    and "ceilDiv (notional * exchange) 1000000 = Inr exch"
    and "ceilDiv (notional * vex) 1000000 = Inr vfee"
  shows "exact_obligation (exact_notional base price q) imf exchange vex \<le> of_nat (margin + exch + vfee)"
proof -
  have N: "exact_notional base price q \<le> of_nat notional"
    using rescale_exact(1) [OF assms(1)] by (simp add: exact_notional_def)
  have part: "exact_notional base price q * of_nat t / of_nat d \<le> of_nat c"
    if "ceilDiv (notional * t) d = Inr c" for t d c
  proof -
    have "exact_notional base price q * of_nat t / of_nat d \<le> of_nat notional * of_nat t / of_nat d"
      using N by (intro divide_right_mono mult_right_mono) auto
    also have "\<dots> \<le> of_nat c" using ceilDiv_exact(1) [OF that] by simp
    finally show ?thesis .
  qed
  from part [OF assms(2)] part [OF assms(3)] part [OF assms(4)] show ?thesis
    by (simp add: exact_obligation_def)
qed

section \<open>Properties\<close>

lemma assert_cases:
  assumes "assertLighterOrderCapitalShare inp = Inr out"
  shows "assessLighterOrderCapitalShare inp = Inr out
     \<and> (case out of Assessed a \<Rightarrow> sa_passes a | Refused r \<Rightarrow> False | Exempt e \<Rightarrow> True)"
proof -
  obtain out' where a: "assessLighterOrderCapitalShare inp = Inr out'"
    using assms by (auto simp: assertLighterOrderCapitalShare_def result_simps)
  then show ?thesis
    using assms by (cases out') (auto simp: assertLighterOrderCapitalShare_def split: if_splits)
qed

lemma assessed_numbers:
  assumes "assessLighterOrderCapitalShare inp = Inr (Assessed a)"
  shows "\<exists>b r rem req. si_budget inp = Some b \<and> si_required inp = Some r
     \<and> js_bigint (cb_remainingUnits b) = Some rem \<and> js_bigint (rc_requiredUnits r) = Some req
     \<and> sa_passes a = (req \<le> rem)"
  using assms
  by (auto simp: assessLighterOrderCapitalShare_def split: option.splits if_splits)

text \<open>
  C1: An order that the capital share admits keeps the account's commitments inside the share.
  Whenever the budget and the requirement are the ones the module computes and the assertion
  answers with an assessment instead of throwing, what is already committed plus what this
  order requires is at most the user's percent of the account's collateral.
\<close>

theorem admitted_order_within_share:
  assumes "computeLighterCapitalBudget binp = Inr b"
    and "computeLighterOrderRequiredCapital rinp = Inr r"
    and "si_budget inp = Some b" "si_required inp = Some r"
    and "assertLighterOrderCapitalShare inp = Inr (Assessed a)"
  shows "\<exists>percent collateral committed required.
     bi_agentCapitalSharePercent binp = JsInt (int percent)
     \<and> decimalToCapitalUnits (bi_collateral binp) ''collateral'' = Inr collateral
     \<and> cb_committedUnits b = show_nat committed
     \<and> rc_requiredUnits r = show_nat required
     \<and> (committed + required) * 100 \<le> collateral * percent"
proof -
  obtain percent collateral committed where b:
    "bi_agentCapitalSharePercent binp = JsInt (int percent)"
    "decimalToCapitalUnits (bi_collateral binp) ''collateral'' = Inr collateral"
    "cb_committedUnits b = show_nat committed"
    "cb_remainingUnits b = show_nat (collateral * percent div 100 - committed)"
    using budget_numbers [OF assms(1)] by blast
  obtain notional imf margin exch vfee where r:
    "0 < imf" "ceilDiv (notional * imf) 10000 = Inr margin"
    "rc_requiredUnits r = show_nat (margin + exch + vfee)"
    "0 < notional"
  proof -
    obtain base price q imf notional margin exch vfee where *: "0 < base" "0 < price" "0 < imf"
      "rescaleToCapitalUnits (base * price) q = Inr notional"
      "ceilDiv (notional * imf) 10000 = Inr margin"
      "rc_requiredUnits r = show_nat (margin + exch + vfee)"
      using required_numbers [OF assms(2)] by blast
    have "(0::rat) < of_nat (base * price) * 10 ^ 6 / 10 ^ q" using *(1,2) by simp
    then have "(0::rat) < of_nat notional" using rescale_exact(1) [OF *(4)] by linarith
    then have "0 < notional" by simp
    with * that show thesis by blast
  qed
  have "0 < projr (ceilDiv (notional * imf) 10000)"
    by (rule capital_ceil.pos_num) (use r in simp_all)
  then have "0 < margin" using r(2) by simp
  moreover obtain rem req where "js_bigint (cb_remainingUnits b) = Some rem"
    "js_bigint (rc_requiredUnits r) = Some req" "req \<le> rem"
    using assessed_numbers assert_cases [OF assms(5)] assms(3,4) by force
  ultimately have "committed + (margin + exch + vfee) \<le> collateral * percent div 100"
    using b r by auto
  then have "(committed + (margin + exch + vfee)) * 100 \<le> collateral * percent div 100 * 100"
    by (rule mult_le_mono1)
  also have "\<dots> \<le> collateral * percent" by simp
  finally show ?thesis using b r by blast
qed

text \<open>
  C30: The units an order is charged cover its exact obligation. The required units are at
  least the exact notional (in settlement units, a rational) times the margin fraction, plus
  the larger of the market's and the account's exchange fee, plus the integrator fee.
\<close>

theorem required_capital_covers_exact_cost:
  assumes "computeLighterOrderRequiredCapital inp = Inr r"
  shows "\<exists>base price q imf market account vex required.
     parseNonNegativeInteger (ri_baseAmountInteger inp) = Some base
     \<and> parseNonNegativeInteger (ri_riskPriceInteger inp) = Some price
     \<and> ri_quoteDecimals inp = JsInt (int q)
     \<and> ri_initialMarginFraction inp = JsInt (int imf)
     \<and> feePercentToTicks (ri_exchangeTakerFeePercent inp) ''market taker_fee'' = Inr market
     \<and> accountFeeTicks (ri_exchangeAccountTakerFeeTicks inp) = Inr account
     \<and> (case ri_vexIntegratorTakerFeeTicks inp of None \<Rightarrow> Inr 0 | Some t \<Rightarrow> integratorTicks t) = Inr vex
     \<and> rc_requiredUnits r = show_nat required
     \<and> exact_obligation (exact_notional base price q) imf (max account market) vex \<le> of_nat required"
  using required_numbers [OF assms] required_covers_obligation by blast

text \<open>
  The budget is the user's percent of the collateral, rounded down to whole settlement
  units, and what remains is the budget less the commitments, never below zero.
\<close>

theorem budget_is_share_rounded_down:
  assumes "computeLighterCapitalBudget inp = Inr b"
  shows "\<exists>percent collateral budget committed.
     bi_agentCapitalSharePercent inp = JsInt (int percent) \<and> 1 \<le> percent \<and> percent \<le> 100
     \<and> decimalToCapitalUnits (bi_collateral inp) ''collateral'' = Inr collateral
     \<and> cb_budgetUnits b = show_nat budget \<and> cb_committedUnits b = show_nat committed
     \<and> cb_remainingUnits b = show_nat (budget - committed)
     \<and> budget * 100 \<le> collateral * percent \<and> collateral * percent < (budget + 1) * 100"
proof -
  obtain percent collateral committed where
    "bi_agentCapitalSharePercent inp = JsInt (int percent)" "1 \<le> percent" "percent \<le> 100"
    "decimalToCapitalUnits (bi_collateral inp) ''collateral'' = Inr collateral"
    "cb_budgetUnits b = show_nat (collateral * percent div 100)"
    "cb_committedUnits b = show_nat committed"
    "cb_remainingUnits b = show_nat (collateral * percent div 100 - committed)"
    using budget_numbers [OF assms] by blast
  moreover have "collateral * percent div 100 * 100 \<le> collateral * percent"
    "collateral * percent < (collateral * percent div 100 + 1) * 100"
    by simp_all
  ultimately show ?thesis by blast
qed

text \<open>
  Which orders are exempt, and which pass. The assertion returns exactly when no share is
  set, the order is reduce-only, it is a spot sell, or the numbers are there and the required
  units are at most the remaining units (the boundary included).
\<close>

theorem share_assertion_passes_iff:
  "(\<exists>out. assertLighterOrderCapitalShare inp = Inr out) \<longleftrightarrow>
     si_agentCapitalSharePercent inp = None
   \<or> si_reduceOnly inp
   \<or> si_marketType inp = ''spot'' \<and> si_side inp = Sell
   \<or> si_marketType inp \<noteq> ''spot'' \<and> si_unbounded inp = None
     \<and> (\<exists>b r rem req. si_budget inp = Some b \<and> si_required inp = Some r
          \<and> js_bigint (cb_remainingUnits b) = Some rem
          \<and> js_bigint (rc_requiredUnits r) = Some req \<and> req \<le> rem)"
  by (cases "si_agentCapitalSharePercent inp"; cases "si_side inp"; cases "si_unbounded inp";
      cases "si_budget inp"; cases "si_required inp")
    (auto simp: assertLighterOrderCapitalShare_def assessLighterOrderCapitalShare_def result_simps
      split: option.splits if_splits)

text \<open>
  The price an order is charged at is never below the approved price. A buy is charged at
  its approved bound; a sell at the larger of the approved price and the market's mark price.
\<close>

theorem risk_price_is_worst_case:
  assumes "resolveLighterCapitalRiskPriceInteger inp = Inr (s, basis)"
  shows "\<exists>approved price. parseNonNegativeInteger (rp_approvedPriceInteger inp) = Some approved
     \<and> s = show_nat price \<and> 0 < approved \<and> approved \<le> price
     \<and> (rp_side inp = Buy \<longrightarrow> price = approved)
     \<and> (rp_side inp = Sell \<longrightarrow>
          (\<exists>mark. decimalToScaledInteger (rp_markPrice inp) (rp_priceDecimals inp) ''mark_price'' = Inr mark
             \<and> price = max mark approved))"
proof -
  obtain approved where ap: "parseNonNegativeInteger (rp_approvedPriceInteger inp) = Some approved" "0 < approved"
    using assms by (auto simp: resolveLighterCapitalRiskPriceInteger_def split: option.splits if_splits)
  show ?thesis
  proof (cases "rp_side inp")
    case Buy
    with assms ap show ?thesis by (auto simp: resolveLighterCapitalRiskPriceInteger_def)
  next
    case Sell
    with assms ap obtain mark where
      "decimalToScaledInteger (rp_markPrice inp) (rp_priceDecimals inp) ''mark_price'' = Inr mark"
      "s = show_nat (max mark approved)"
      by (auto simp: resolveLighterCapitalRiskPriceInteger_def Let_def max_def
          split: option.splits if_splits sum.splits)
    with Sell ap show ?thesis by auto
  qed
qed

section \<open>A concrete account and a concrete order\<close>

text \<open>
  A quarter of 1000.50 is 250.125; 115.000001 of it is committed; the order of 0.1500 at
  300.01 requires 22.566003. These inputs satisfy the hypotheses of the properties above.
\<close>

definition sample_budget_input :: capital_budget_input where
  "sample_budget_input = \<lparr> bi_agentCapitalSharePercent = JsInt 25, bi_collateral = Some ''1000.50'',
     bi_crossInitialMarginRequirement = Some ''100'', bi_isolatedAllocatedMargins = [Some ''10.000001''],
     bi_restingOrderReservedMarginUnits = [''5000000''], bi_vexLiveIntentUnits = [] \<rparr>"

definition sample_budget :: capital_budget where
  "sample_budget = \<lparr> cb_agentCapitalSharePercent = 25, cb_collateralUnits = ''1000500000'',
     cb_budgetUnits = ''250125000'', cb_committedUnits = ''115000001'',
     cb_remainingUnits = ''135124999'', cb_providerCrossInitialMarginUnits = ''100000000'',
     cb_isolatedAllocatedMarginUnits = ''10000001'', cb_restingOrderReservedMarginUnits = ''5000000'',
     cb_vexLiveIntentUnits = ''0'' \<rparr>"

definition sample_required_input :: required_capital_input where
  "sample_required_input = \<lparr> ri_baseAmountInteger = ''1500'', ri_riskPriceInteger = ''30001'',
     ri_riskPriceBasis = ApprovedLimitPrice, ri_sizeDecimals = JsInt 4, ri_priceDecimals = JsInt 2,
     ri_quoteDecimals = JsInt 6, ri_initialMarginFraction = JsInt 5000,
     ri_exchangeTakerFeePercent = Some ''0.0450'', ri_exchangeAccountTakerFeeTicks = JsInt 300,
     ri_vexIntegratorTakerFeeTicks = Some (JsInt 1000) \<rparr>"

definition sample_required :: required_capital where
  "sample_required = \<lparr> rc_requiredUnits = ''22566003'', rc_notionalUnits = ''45001500'',
     rc_initialMarginUnits = ''22500750'', rc_exchangeTakerFeeUnits = ''20251'',
     rc_vexIntegratorFeeUnits = ''45002'', rc_initialMarginFraction = 5000,
     rc_riskPriceInteger = ''30001'', rc_riskPriceBasis = ApprovedLimitPrice \<rparr>"

definition sample_share_input :: share_input where
  "sample_share_input = \<lparr> si_agentCapitalSharePercent = Some 25, si_walletAddress = ''0xabc'',
     si_accountIndex = 7, si_marketType = ''perp'', si_side = Buy, si_reduceOnly = False,
     si_budget = Some sample_budget, si_required = Some sample_required,
     si_initialMarginFractionSource = PositionRow, si_unbounded = None \<rparr>"

definition sample_risk_input :: risk_price_input where
  "sample_risk_input = \<lparr> rp_side = Sell, rp_approvedPriceInteger = ''30001'',
     rp_approvedPriceRole = LimitPrice, rp_priceDecimals = 2, rp_markPrice = Some ''300.5'' \<rparr>"

lemmas capital_parsing_defs =
  integerUnits_def parseNonNegativeInteger_def decimalToCapitalUnits_def decimalToScaledInteger_def
  signed_text_def scaled_shape_def LIGHTER_CAPITAL_UNITS_DECIMALS_def

lemma sample_budget_eval: "computeLighterCapitalBudget sample_budget_input = Inr sample_budget"
  by (simp add: computeLighterCapitalBudget_def sample_budget_input_def sample_budget_def
      capital_parsing_defs text_eval)

lemma sample_required_eval:
  "computeLighterOrderRequiredCapital sample_required_input = Inr sample_required"
  by (simp add: computeLighterOrderRequiredCapital_def sample_required_input_def sample_required_def
      positive_integer_text_def assertScale_def rescaleToCapitalUnits_def ceilDiv_def margin_constants
      LIGHTER_FEE_TICK_DENOMINATOR_def feePercentToTicks_def accountFeeTicks_def integratorTicks_def
      max_safe_integer_def capital_parsing_defs text_eval)

lemma sample_share_eval:
  "\<exists>a. assertLighterOrderCapitalShare sample_share_input = Inr (Assessed a)"
  by (simp add: assertLighterOrderCapitalShare_def assessLighterOrderCapitalShare_def
      sample_share_input_def sample_budget_def sample_required_def text_eval)

lemma sample_risk_eval:
  "resolveLighterCapitalRiskPriceInteger sample_risk_input = Inr (''30050'', MarkPrice)"
  by (simp add: resolveLighterCapitalRiskPriceInteger_def sample_risk_input_def capital_parsing_defs
      text_eval)

theorem admitted_order_within_share_witness:
  "\<exists>percent collateral committed required.
     bi_agentCapitalSharePercent sample_budget_input = JsInt (int percent)
     \<and> decimalToCapitalUnits (bi_collateral sample_budget_input) ''collateral'' = Inr collateral
     \<and> cb_committedUnits sample_budget = show_nat committed
     \<and> rc_requiredUnits sample_required = show_nat required
     \<and> (committed + required) * 100 \<le> collateral * percent"
proof -
  obtain a where a: "assertLighterOrderCapitalShare sample_share_input = Inr (Assessed a)"
    using sample_share_eval by blast
  show ?thesis
    by (rule admitted_order_within_share [OF sample_budget_eval sample_required_eval _ _ a])
      (simp_all add: sample_share_input_def)
qed

theorem required_capital_covers_exact_cost_witness:
  "\<exists>base price q imf market account vex required.
     parseNonNegativeInteger ''1500'' = Some base
     \<and> parseNonNegativeInteger ''30001'' = Some price
     \<and> JsInt 6 = JsInt (int q) \<and> JsInt 5000 = JsInt (int imf)
     \<and> feePercentToTicks (Some ''0.0450'') ''market taker_fee'' = Inr market
     \<and> accountFeeTicks (JsInt 300) = Inr account \<and> integratorTicks (JsInt 1000) = Inr vex
     \<and> ''22566003'' = show_nat required
     \<and> exact_obligation (exact_notional base price q) imf (max account market) vex \<le> of_nat required"
  using required_capital_covers_exact_cost [OF sample_required_eval]
  by (simp only: sample_required_input_def sample_required_def required_capital_input.select_convs
      required_capital.select_convs option.case)

theorem budget_is_share_rounded_down_witness:
  "\<exists>percent collateral budget committed.
     JsInt 25 = JsInt (int percent) \<and> 1 \<le> percent \<and> percent \<le> 100
     \<and> decimalToCapitalUnits (Some ''1000.50'') ''collateral'' = Inr collateral
     \<and> ''250125000'' = show_nat budget \<and> ''115000001'' = show_nat committed
     \<and> ''135124999'' = show_nat (budget - committed)
     \<and> budget * 100 \<le> collateral * percent \<and> collateral * percent < (budget + 1) * 100"
  using budget_is_share_rounded_down [OF sample_budget_eval]
  by (simp only: sample_budget_input_def sample_budget_def capital_budget_input.select_convs
      capital_budget.select_convs)

theorem share_assertion_passes_iff_witness:
  "\<exists>out. assertLighterOrderCapitalShare (sample_share_input \<lparr> si_reduceOnly := True \<rparr>) = Inr out"
  using share_assertion_passes_iff [of "sample_share_input \<lparr> si_reduceOnly := True \<rparr>"] by simp

theorem risk_price_is_worst_case_witness:
  "\<exists>approved price. parseNonNegativeInteger ''30001'' = Some approved
     \<and> ''30050'' = show_nat price \<and> 0 < approved \<and> approved \<le> price
     \<and> (\<exists>mark. decimalToScaledInteger (Some ''300.5'') 2 ''mark_price'' = Inr mark
             \<and> price = max mark approved)"
  using risk_price_is_worst_case [OF sample_risk_eval]
  by (simp add: sample_risk_input_def)

end
