(* ===== verification/Utf8.thy ===== *)
theory Utf8
  imports Prelude "HOL-Library.Word"
begin

text \<open>
  The texts of the pipe front as the runtime moves them: a JavaScript string is a list of
  UTF-16 code units, \<open>TextEncoder\<close> turns it into UTF-8 (a lone surrogate becomes U+FFFD), and
  \<open>TextDecoder("utf-8", { fatal: true })\<close> reads it back, dropping one leading byte order mark
  and refusing everything that is not UTF-8. Little-endian integers of the wire are here too.
\<close>

type_synonym byte = "8 word"
type_synonym bytes = "8 word list"
type_synonym utf16 = "16 word list"

definition byte_of :: "nat \<Rightarrow> byte" where
  "byte_of n = word_of_nat n"

lemma unat_byte_of: "n < 256 \<Longrightarrow> unat (byte_of n) = n"
  by (simp add: byte_of_def unat_of_nat take_bit_nat_eq_self)

lemma byte_less: "unat (b :: byte) < 256"
  using unsigned_less [of b, where 'a = nat] by simp

section \<open>Little-endian integers\<close>

text \<open>\<open>setUint16/32\<close> and \<open>setBigUint64\<close>, little endian, on a value below the width's range.\<close>

fun le_bytes :: "nat \<Rightarrow> nat \<Rightarrow> bytes" where
  "le_bytes 0 n = []"
| "le_bytes (Suc k) n = byte_of (n mod 256) # le_bytes k (n div 256)"

fun le_value :: "bytes \<Rightarrow> nat" where
  "le_value [] = 0"
| "le_value (b # bs) = unat b + 256 * le_value bs"

lemma length_le_bytes [simp]: "length (le_bytes k n) = k"
  by (induction k arbitrary: n) simp_all

lemma le_value_bytes: "n < 256 ^ k \<Longrightarrow> le_value (le_bytes k n) = n"
proof (induction k arbitrary: n)
  case (Suc k)
  from Suc.prems have "n div 256 < 256 ^ k" by (simp add: less_mult_imp_div_less)
  then show ?case using Suc.IH by (simp add: unat_byte_of)
qed simp

lemma le_value_less: "le_value bs < 256 ^ length bs"
proof (induction bs)
  case (Cons b bs)
  have "unat b + 256 * le_value bs < 256 + 256 * le_value bs" using byte_less [of b] by simp
  also have "\<dots> = 256 * (le_value bs + 1)" by simp
  also have "\<dots> \<le> 256 * 256 ^ length bs" using Cons by (intro mult_le_mono2) simp
  finally show ?case by simp
qed simp

text \<open>
  What a field of the wire promises, whatever its width: writing takes the width's bytes, and
  reading what was written, at the front of any buffer, returns it and leaves the rest.
\<close>

locale wire_int =
  fixes width :: nat and put :: "nat \<Rightarrow> bytes" and got :: "bytes \<Rightarrow> nat"
  assumes put_length: "length (put n) = width"
    and got_put: "n < 256 ^ width \<Longrightarrow> got (put n @ rest) = n"
begin

lemma drop_put: "drop width (put n @ rest) = rest"
  using put_length by simp

lemma put_inject: "m < 256 ^ width \<Longrightarrow> n < 256 ^ width \<Longrightarrow> put m @ r = put n @ s \<longleftrightarrow> m = n \<and> r = s"
  by (metis append_eq_append_conv got_put put_length)

end

definition put_u8 :: "nat \<Rightarrow> bytes" where "put_u8 = le_bytes 1"
definition put_u16 :: "nat \<Rightarrow> bytes" where "put_u16 = le_bytes 2"
definition put_u32 :: "nat \<Rightarrow> bytes" where "put_u32 = le_bytes 4"
definition put_u64 :: "nat \<Rightarrow> bytes" where "put_u64 = le_bytes 8"

definition get_u8 :: "bytes \<Rightarrow> nat" where "get_u8 bs = le_value (take 1 bs)"
definition get_u16 :: "bytes \<Rightarrow> nat" where "get_u16 bs = le_value (take 2 bs)"
definition get_u32 :: "bytes \<Rightarrow> nat" where "get_u32 bs = le_value (take 4 bs)"
definition get_u64 :: "bytes \<Rightarrow> nat" where "get_u64 bs = le_value (take 8 bs)"

lemmas put_defs = put_u8_def put_u16_def put_u32_def put_u64_def
lemmas get_defs = get_u8_def get_u16_def get_u32_def get_u64_def

interpretation w8: wire_int 1 put_u8 get_u8
  by unfold_locales (simp_all add: put_u8_def get_u8_def le_value_bytes del: One_nat_def)

interpretation w16: wire_int 2 put_u16 get_u16
  by unfold_locales (simp_all add: put_u16_def get_u16_def le_value_bytes)

interpretation w32: wire_int 4 put_u32 get_u32
  by unfold_locales (simp_all add: put_u32_def get_u32_def le_value_bytes)

interpretation w64: wire_int 8 put_u64 get_u64
  by unfold_locales (simp_all add: put_u64_def get_u64_def le_value_bytes)

lemmas put_lengths [simp] = w8.put_length w16.put_length w32.put_length w64.put_length
lemmas got_puts = w8.got_put w16.got_put w32.got_put w64.got_put

section \<open>UTF-16\<close>

definition high_surrogate :: "16 word \<Rightarrow> bool" where
  "high_surrogate u = (0xD800 \<le> unat u \<and> unat u \<le> 0xDBFF)"

definition low_surrogate :: "16 word \<Rightarrow> bool" where
  "low_surrogate u = (0xDC00 \<le> unat u \<and> unat u \<le> 0xDFFF)"

definition pair_scalar :: "16 word \<Rightarrow> 16 word \<Rightarrow> nat" where
  "pair_scalar h l = 0x10000 + (unat h - 0xD800) * 0x400 + (unat l - 0xDC00)"

text \<open>The scalar values of a string; a lone surrogate counts as U+FFFD, as \<open>TextEncoder\<close> has it.\<close>

fun utf16_scalars :: "utf16 \<Rightarrow> nat list" where
  "utf16_scalars [] = []"
| "utf16_scalars [u] = [if high_surrogate u \<or> low_surrogate u then 0xFFFD else unat u]"
| "utf16_scalars (u # v # r) =
     (if high_surrogate u \<and> low_surrogate v then pair_scalar u v # utf16_scalars r
      else (if high_surrogate u \<or> low_surrogate u then 0xFFFD else unat u) # utf16_scalars (v # r))"

fun well_formed :: "utf16 \<Rightarrow> bool" where
  "well_formed [] = True"
| "well_formed [u] = (\<not> high_surrogate u \<and> \<not> low_surrogate u)"
| "well_formed (u # v # r) =
     (if high_surrogate u then low_surrogate v \<and> well_formed r
      else \<not> low_surrogate u \<and> well_formed (v # r))"

definition scalar_units :: "nat \<Rightarrow> utf16" where
  "scalar_units c =
     (if c < 0x10000 then [word_of_nat c]
      else [word_of_nat (0xD800 + (c - 0x10000) div 0x400), word_of_nat (0xDC00 + (c - 0x10000) mod 0x400)])"

definition is_scalar :: "nat \<Rightarrow> bool" where
  "is_scalar c = (c < 0xD800 \<or> 0xE000 \<le> c \<and> c < 0x110000)"

lemma unit_less: "unat (u :: 16 word) < 65536"
  using unsigned_less [of u, where 'a = nat] by simp

lemma unit_of_unat: "word_of_nat (unat (u :: 16 word)) = u"
  by simp

lemma scalars_are_scalars: "list_all is_scalar (utf16_scalars s)"
proof (induction s rule: utf16_scalars.induct)
  case (2 u)
  then show ?case using unit_less [of u] by (auto simp: is_scalar_def high_surrogate_def low_surrogate_def)
next
  case (3 u v r)
  have "is_scalar (pair_scalar u v)" if "high_surrogate u" "low_surrogate v"
  proof -
    have "(unat u - 0xD800) * 0x400 \<le> 0x3FF * 0x400"
      using that by (intro mult_le_mono1) (auto simp: high_surrogate_def)
    moreover have "unat v - 0xDC00 \<le> 0x3FF" using that by (auto simp: low_surrogate_def)
    ultimately show ?thesis unfolding is_scalar_def pair_scalar_def by linarith
  qed
  then show ?case using 3 unit_less [of u]
    by (auto simp: is_scalar_def high_surrogate_def low_surrogate_def)
qed simp

lemma pair_units:
  assumes "high_surrogate u" "low_surrogate v"
  shows "scalar_units (pair_scalar u v) = [u, v]"
proof -
  let ?h = "unat u - 0xD800" and ?l = "unat v - 0xDC00"
  have l: "?l < 0x400" and b: "0xD800 \<le> unat u" "0xDC00 \<le> unat v"
    using assms by (auto simp: high_surrogate_def low_surrogate_def)
  have "pair_scalar u v - 0x10000 = ?h * 0x400 + ?l" by (simp add: pair_scalar_def)
  moreover have "(?h * 0x400 + ?l) div 0x400 = ?h" "(?h * 0x400 + ?l) mod 0x400 = ?l"
    using l by simp_all
  moreover have "0xD800 + ?h = unat u" "0xDC00 + ?l = unat v" using b by simp_all
  ultimately show ?thesis
    by (simp add: scalar_units_def pair_scalar_def del: of_nat_add)
qed

text \<open>A well-formed string is what its scalar values spell.\<close>

lemma units_of_scalars: "well_formed s \<Longrightarrow> concat (map scalar_units (utf16_scalars s)) = s"
proof (induction s rule: utf16_scalars.induct)
  case (2 u)
  then show ?case using unit_less [of u] by (simp add: scalar_units_def)
next
  case (3 u v r)
  show ?case
  proof (cases "high_surrogate u")
    case True
    with "3.prems" have "low_surrogate v" "well_formed r" by auto
    with True 3 show ?thesis by (simp add: pair_units)
  next
    case False
    with 3 show ?thesis using unit_less [of u] by (auto simp: scalar_units_def)
  qed
qed simp

section \<open>UTF-8\<close>

definition utf8_bytes :: "nat \<Rightarrow> bytes" where
  "utf8_bytes c =
     (if c < 0x80 then [byte_of c]
      else if c < 0x800 then [byte_of (0xC0 + c div 64), byte_of (0x80 + c mod 64)]
      else if c < 0x10000 then
        [byte_of (0xE0 + c div 4096), byte_of (0x80 + c div 64 mod 64), byte_of (0x80 + c mod 64)]
      else [byte_of (0xF0 + c div 262144), byte_of (0x80 + c div 4096 mod 64),
            byte_of (0x80 + c div 64 mod 64), byte_of (0x80 + c mod 64)])"

definition utf8_encode :: "utf16 \<Rightarrow> bytes" where
  "utf8_encode s = concat (map utf8_bytes (utf16_scalars s))"

definition in_range :: "nat \<Rightarrow> nat \<Rightarrow> nat \<Rightarrow> bool" where
  "in_range b lo hi = (lo \<le> b \<and> b \<le> hi)"

text \<open>
  The strict decoder: the lead byte fixes the length and the range of the second byte, so that
  overlong forms, surrogates and values above U+10FFFF are refused.
\<close>

fun utf8_scalars :: "nat list \<Rightarrow> nat list option" where
  "utf8_scalars [] = Some []"
| "utf8_scalars (a # r) =
     (if a < 0x80 then map_option (\<lambda>cs. a # cs) (utf8_scalars r)
      else if in_range a 0xC2 0xDF then
        (case r of
           b # r1 \<Rightarrow>
             if in_range b 0x80 0xBF
             then map_option (\<lambda>cs. ((a - 0xC0) * 64 + (b - 0x80)) # cs) (utf8_scalars r1) else None
         | [] \<Rightarrow> None)
      else if in_range a 0xE0 0xEF then
        (case r of
           b # c # r2 \<Rightarrow>
             if in_range b (if a = 0xE0 then 0xA0 else 0x80) (if a = 0xED then 0x9F else 0xBF)
                \<and> in_range c 0x80 0xBF
             then map_option (\<lambda>cs. ((a - 0xE0) * 4096 + (b - 0x80) * 64 + (c - 0x80)) # cs)
                    (utf8_scalars r2)
             else None
         | _ \<Rightarrow> None)
      else if in_range a 0xF0 0xF4 then
        (case r of
           b # c # d # r3 \<Rightarrow>
             if in_range b (if a = 0xF0 then 0x90 else 0x80) (if a = 0xF4 then 0x8F else 0xBF)
                \<and> in_range c 0x80 0xBF \<and> in_range d 0x80 0xBF
             then map_option (\<lambda>cs. ((a - 0xF0) * 262144 + (b - 0x80) * 4096
                      + (c - 0x80) * 64 + (d - 0x80)) # cs) (utf8_scalars r3)
             else None
         | _ \<Rightarrow> None)
      else None)"

text \<open>\<open>decode\<close>: a leading byte order mark is not part of the text. \<open>None\<close> is the thrown error.\<close>

definition utf8_decode :: "bytes \<Rightarrow> utf16 option" where
  "utf8_decode bs =
     (case utf8_scalars (map unat bs) of
        None \<Rightarrow> None
      | Some cs \<Rightarrow>
          Some (concat (map scalar_units (case cs of c # r \<Rightarrow> if c = 0xFEFF then r else cs | [] \<Rightarrow> []))))"

lemma mod_64_le: "(n :: nat) mod 64 \<le> 63"
  using mod_less_divisor [of 64 n] by simp

lemma utf8_scalar_read:
  assumes "is_scalar c"
  shows "utf8_scalars (map unat (utf8_bytes c) @ r) = map_option (\<lambda>cs. c # cs) (utf8_scalars r)"
proof -
  consider "c < 0x80" | "0x80 \<le> c" "c < 0x800" | "0x800 \<le> c" "c < 0x10000" | "0x10000 \<le> c" "c < 0x110000"
    using assms unfolding is_scalar_def by linarith
  then show ?thesis
  proof cases
    case 1
    then show ?thesis by (simp add: utf8_bytes_def unat_byte_of)
  next
    case 2
    then have "2 \<le> c div 64" "c div 64 < 32" by auto
    moreover have "c mod 64 < 64" by simp
    moreover have "c div 64 * 64 + c mod 64 = c" by simp
    ultimately show ?thesis using 2
      by (simp add: utf8_bytes_def unat_byte_of in_range_def) (auto simp: not_le)
  next
    case 3
    have hi: "c div 4096 < 16" using 3 by auto
    have sum: "c div 4096 * 4096 + c div 64 mod 64 * 64 + c mod 64 = c"
    proof -
      have "c div 4096 = c div 64 div 64" by (simp add: div_mult2_eq [symmetric])
      moreover have "c div 64 div 64 * 64 + c div 64 mod 64 = c div 64"
        "c div 64 * 64 + c mod 64 = c" by (rule div_mult_mod_eq)+
      ultimately show ?thesis by linarith
    qed
    have b2: "in_range (0x80 + c div 64 mod 64) (if c div 4096 = 0 then 0xA0 else 0x80)
        (if c div 4096 = 13 then 0x9F else 0xBF)"
      using sum 3 assms by (auto simp: in_range_def is_scalar_def)
    show ?thesis using 3 hi sum b2
      by (simp add: utf8_bytes_def unat_byte_of in_range_def mod_64_le split: if_splits)
  next
    case 4
    have hi: "c div 262144 \<le> 4" using 4 by auto
    have sum: "c div 262144 * 262144 + c div 4096 mod 64 * 4096 + c div 64 mod 64 * 64 + c mod 64 = c"
    proof -
      have "c div 262144 = c div 4096 div 64" "c div 4096 = c div 64 div 64" by (simp_all add: div_mult2_eq [symmetric])
      moreover have "c div 4096 div 64 * 64 + c div 4096 mod 64 = c div 4096"
        "c div 64 div 64 * 64 + c div 64 mod 64 = c div 64" "c div 64 * 64 + c mod 64 = c"
        by (rule div_mult_mod_eq)+
      ultimately show ?thesis by linarith
    qed
    have b2: "in_range (0x80 + c div 4096 mod 64) (if c div 262144 = 0 then 0x90 else 0x80)
        (if c div 262144 = 4 then 0x8F else 0xBF)"
      using sum 4 by (auto simp: in_range_def mod_64_le)
    show ?thesis using 4 hi sum b2
      by (simp add: utf8_bytes_def unat_byte_of in_range_def mod_64_le split: if_splits)
  qed
qed

lemma utf8_scalars_encode:
  "list_all is_scalar cs \<Longrightarrow> utf8_scalars (map unat (concat (map utf8_bytes cs))) = Some cs"
proof (induction cs)
  case (Cons c cs)
  then show ?case using utf8_scalar_read [of c "map unat (concat (map utf8_bytes cs))"] by simp
qed simp

definition starts_with_bom :: "utf16 \<Rightarrow> bool" where
  "starts_with_bom s = (case s of u # r \<Rightarrow> unat u = 0xFEFF | [] \<Rightarrow> False)"

lemma utf16_head_bom:
  "utf16_scalars s = 0xFEFF # r \<Longrightarrow> starts_with_bom s"
proof -
  have p: "pair_scalar u v \<noteq> 0xFEFF" for u v by (simp add: pair_scalar_def)
  assume "utf16_scalars s = 0xFEFF # r"
  then show ?thesis
    by (cases s rule: utf16_scalars.cases) (auto simp: starts_with_bom_def p split: if_splits)
qed

text \<open>Every text comes back, unless it has a lone surrogate or starts with a byte order mark.\<close>

lemma utf8_round_trip:
  assumes "well_formed s" "\<not> starts_with_bom s"
  shows "utf8_decode (utf8_encode s) = Some s"
proof -
  have "utf8_scalars (map unat (utf8_encode s)) = Some (utf16_scalars s)"
    unfolding utf8_encode_def by (rule utf8_scalars_encode) (rule scalars_are_scalars)
  moreover have "(case utf16_scalars s of c # r \<Rightarrow> if c = 0xFEFF then r else utf16_scalars s | [] \<Rightarrow> [])
      = utf16_scalars s"
    using utf16_head_bom [of s] assms(2) by (auto split: list.splits)
  ultimately show ?thesis using units_of_scalars [OF assms(1)] by (simp add: utf8_decode_def)
qed

end
