(* ===== verification/PipeFrames.thy ===== *)
theory PipeFrames
  imports Utf8
begin

text \<open>
  The frames between main and the pipe front (\<open>mcp/pipe-front-frames.ts\<close>, encoder and frame
  decoder; the incremental decoder of a plane is \<open>PipeDecoder\<close>). A \<open>number\<close> the encoder is handed
  is any JavaScript number, a \<open>bigint\<close> any integer; what the decoder returns is in range. The
  detail text of an encoder refusal is left out, its reason is kept.
\<close>

unbundle bit_operations_syntax

section \<open>Planes, types and bounds\<close>

datatype plane = ControlDown | ControlUp | DataDown | DataUp

fun PIPE_FRONT_PLANE :: "plane \<Rightarrow> nat" where
  "PIPE_FRONT_PLANE ControlDown = 3"
| "PIPE_FRONT_PLANE ControlUp = 4"
| "PIPE_FRONT_PLANE DataDown = 5"
| "PIPE_FRONT_PLANE DataUp = 6"

datatype frame_type =
    HELLO | ADMIT | REFUSE | CREDIT | PAUSE | RESUME | CLOSE | LOCK | QUIT | PING
  | HELLO_ACK | BOUND | OPEN | WRITE_DONE | PEER_CLOSED | LOCK_ACK | QUIT_ACK | PONG | ERROR
  | DATA | END

definition PIPE_FRONT_PROTOCOL_VERSION :: nat where
  "PIPE_FRONT_PROTOCOL_VERSION = 1"

definition PIPE_FRONT_MAGIC :: nat where
  "PIPE_FRONT_MAGIC = 0x46584556"

definition PIPE_FRONT_HEADER_BYTES :: nat where
  "PIPE_FRONT_HEADER_BYTES = 28"

definition PIPE_FRONT_CONTROL_PAYLOAD_MAX_BYTES :: nat where
  "PIPE_FRONT_CONTROL_PAYLOAD_MAX_BYTES = 4096"

definition PIPE_FRONT_DATA_PAYLOAD_MAX_BYTES :: nat where
  "PIPE_FRONT_DATA_PAYLOAD_MAX_BYTES = 32768"

definition PIPE_FRONT_SEQUENCE_EXHAUSTED :: nat where
  "PIPE_FRONT_SEQUENCE_EXHAUSTED = 18446744073709551615"

definition PIPE_FRONT_MAIN_TO_FRONT_CONTROL_TYPES :: "(frame_type \<times> nat) list" where
  "PIPE_FRONT_MAIN_TO_FRONT_CONTROL_TYPES =
     [(HELLO, 0x01), (ADMIT, 0x02), (REFUSE, 0x03), (CREDIT, 0x04), (PAUSE, 0x05), (RESUME, 0x06),
      (CLOSE, 0x07), (LOCK, 0x08), (QUIT, 0x09), (PING, 0x0a)]"

definition PIPE_FRONT_FRONT_TO_MAIN_CONTROL_TYPES :: "(frame_type \<times> nat) list" where
  "PIPE_FRONT_FRONT_TO_MAIN_CONTROL_TYPES =
     [(HELLO_ACK, 0x41), (BOUND, 0x42), (OPEN, 0x43), (WRITE_DONE, 0x44), (PEER_CLOSED, 0x45),
      (LOCK_ACK, 0x46), (QUIT_ACK, 0x47), (PONG, 0x48), (ERROR, 0x49)]"

definition PIPE_FRONT_DATA_TYPES :: "(frame_type \<times> nat) list" where
  "PIPE_FRONT_DATA_TYPES = [(DATA, 0x81), (END, 0x82)]"

definition PIPE_FRONT_FRAME_TYPES :: "(frame_type \<times> nat) list" where
  "PIPE_FRONT_FRAME_TYPES =
     PIPE_FRONT_MAIN_TO_FRONT_CONTROL_TYPES @ PIPE_FRONT_FRONT_TO_MAIN_CONTROL_TYPES
     @ PIPE_FRONT_DATA_TYPES"

lemmas frame_type_tables = PIPE_FRONT_MAIN_TO_FRONT_CONTROL_TYPES_def
  PIPE_FRONT_FRONT_TO_MAIN_CONTROL_TYPES_def PIPE_FRONT_DATA_TYPES_def PIPE_FRONT_FRAME_TYPES_def

text \<open>A property read of the table: every type name has an entry.\<close>

definition frame_type_id :: "frame_type \<Rightarrow> nat" where
  "frame_type_id t = the (map_of PIPE_FRONT_FRAME_TYPES t)"

text \<open>The map built from the entries, the last entry of an id winning.\<close>

definition TYPE_NAME_BY_ID :: "nat \<Rightarrow> frame_type option" where
  "TYPE_NAME_BY_ID = map_of (rev (map (\<lambda>(name, i). (i, name)) PIPE_FRONT_FRAME_TYPES))"

definition CONNECTION_MUST_BE_ZERO :: "frame_type list" where
  "CONNECTION_MUST_BE_ZERO =
     [HELLO, LOCK, QUIT, PING, HELLO_ACK, BOUND, LOCK_ACK, QUIT_ACK, PONG, ERROR]"

definition planeCarries :: "plane \<Rightarrow> frame_type \<Rightarrow> bool" where
  "planeCarries p t =
     (if p = ControlDown then t \<in> fst ` set PIPE_FRONT_MAIN_TO_FRONT_CONTROL_TYPES
      else if p = ControlUp then t \<in> fst ` set PIPE_FRONT_FRONT_TO_MAIN_CONTROL_TYPES
      else t \<in> fst ` set PIPE_FRONT_DATA_TYPES)"

definition pipeFrontPayloadBound :: "plane \<Rightarrow> nat" where
  "pipeFrontPayloadBound p =
     (if p = ControlDown \<or> p = ControlUp then PIPE_FRONT_CONTROL_PAYLOAD_MAX_BYTES
      else PIPE_FRONT_DATA_PAYLOAD_MAX_BYTES)"

definition pipeFrontRetentionBound :: "plane \<Rightarrow> nat" where
  "pipeFrontRetentionBound p = PIPE_FRONT_HEADER_BYTES + pipeFrontPayloadBound p"

lemma frame_type_ids [simp]:
  "frame_type_id HELLO = 1" "frame_type_id ADMIT = 2" "frame_type_id REFUSE = 3" "frame_type_id CREDIT
  = 4" "frame_type_id PAUSE = 5" "frame_type_id RESUME = 6" "frame_type_id CLOSE = 7" "frame_type_id
  LOCK = 8" "frame_type_id QUIT = 9" "frame_type_id PING = 10" "frame_type_id HELLO_ACK = 65"
  "frame_type_id BOUND = 66" "frame_type_id OPEN = 67" "frame_type_id WRITE_DONE = 68" "frame_type_id
  PEER_CLOSED = 69" "frame_type_id LOCK_ACK = 70" "frame_type_id QUIT_ACK = 71" "frame_type_id PONG =
  72" "frame_type_id ERROR = 73" "frame_type_id DATA = 129" "frame_type_id END = 130"
  by (simp_all add: frame_type_id_def frame_type_tables)

lemma frame_type_id_less: "frame_type_id t < 256"
  by (cases t) simp_all

lemma type_name_of_id: "TYPE_NAME_BY_ID (frame_type_id t) = Some t"
  by (cases t) (simp_all add: TYPE_NAME_BY_ID_def frame_type_tables)

lemma id_of_type_name: "TYPE_NAME_BY_ID n = Some t \<Longrightarrow> frame_type_id t = n"
  by (auto simp: TYPE_NAME_BY_ID_def frame_type_tables split: if_splits)

lemma frame_type_id_inject: "frame_type_id s = frame_type_id t \<longleftrightarrow> s = t"
  by (metis option.inject type_name_of_id)

text \<open>The ids identify the types: the order of the types is the order of their ids.\<close>

instantiation frame_type :: linorder
begin

definition less_eq_frame_type :: "frame_type \<Rightarrow> frame_type \<Rightarrow> bool" where
  "less_eq_frame_type s t = (frame_type_id s \<le> frame_type_id t)"

definition less_frame_type :: "frame_type \<Rightarrow> frame_type \<Rightarrow> bool" where
  "less_frame_type s t = (frame_type_id s < frame_type_id t)"

instance
  by standard (auto simp: less_eq_frame_type_def less_frame_type_def frame_type_id_inject [symmetric])

end

section \<open>Closed sets of codes\<close>

datatype peer_closed_reason = Peer_eof | Io_error | Commanded_close

definition PIPE_FRONT_PEER_CLOSED_REASONS :: "(peer_closed_reason \<times> nat) list" where
  "PIPE_FRONT_PEER_CLOSED_REASONS = [(Peer_eof, 1), (Io_error, 2), (Commanded_close, 3)]"

definition peer_closed_id :: "peer_closed_reason \<Rightarrow> nat" where
  "peer_closed_id r = the (map_of PIPE_FRONT_PEER_CLOSED_REASONS r)"

definition pipeFrontPeerClosedReasonName :: "nat \<Rightarrow> peer_closed_reason option" where
  "pipeFrontPeerClosedReasonName value =
     map_option fst (find (\<lambda>(name, i). i = value) PIPE_FRONT_PEER_CLOSED_REASONS)"

lemma peer_closed_name_of_id: "pipeFrontPeerClosedReasonName (peer_closed_id r) = Some r"
  by (cases r) (simp_all add: pipeFrontPeerClosedReasonName_def peer_closed_id_def
      PIPE_FRONT_PEER_CLOSED_REASONS_def)

lemma peer_closed_id_less: "peer_closed_id r < 256"
  by (cases r) (simp_all add: peer_closed_id_def PIPE_FRONT_PEER_CLOSED_REASONS_def)

datatype front_error =
    Malformed_main_frame | Plane_read_failed | Plane_write_failed | Listener_bind_failed
  | Sddl_readback_mismatch | Credit_violation | Admission_epoch_exhausted
  | Connection_ids_exhausted | Internal_invariant

definition PIPE_FRONT_ERROR_CODES :: "(front_error \<times> nat) list" where
  "PIPE_FRONT_ERROR_CODES =
     [(Malformed_main_frame, 1), (Plane_read_failed, 2), (Plane_write_failed, 3),
      (Listener_bind_failed, 4), (Sddl_readback_mismatch, 5), (Credit_violation, 6),
      (Admission_epoch_exhausted, 7), (Connection_ids_exhausted, 8), (Internal_invariant, 9)]"

definition ERROR_CODE_VALUES :: "nat list" where
  "ERROR_CODE_VALUES = map snd PIPE_FRONT_ERROR_CODES"

definition pipeFrontErrorCodeName :: "nat \<Rightarrow> front_error option" where
  "pipeFrontErrorCodeName value = map_option fst (find (\<lambda>(name, i). i = value) PIPE_FRONT_ERROR_CODES)"

definition BOUND_FLAGS_MASK :: int where
  "BOUND_FLAGS_MASK = 7"

definition PIPE_FRONT_SDDL_KIND :: nat where
  "PIPE_FRONT_SDDL_KIND = 1"

section \<open>Frames\<close>

datatype front_body =
    Hello (protocolVersion: js_number) (sddlKind: js_number) (maxRaw: js_number)
      (creditBytes: js_number) (chunkBytes: js_number) (handshakeDeadlineMs: js_number)
      (initialAdmissionEpoch: js_number) (helloPipeName: utf16) (timeoutRefusalBytes: utf16)
  | Admit js_number
  | Refuse utf16
  | Credit js_number
  | Pause
  | Resume
  | Close
  | Lock js_number
  | Quit js_number
  | Ping int
  | Hello_ack js_number (announcedGeneration: js_number) js_number utf16 utf16
  | Bound js_number utf16
  | Open
  | Write_done int
  | Peer_closed peer_closed_reason int
  | Lock_ack js_number js_number
  | Quit_ack
  | Pong int
  | Error js_number js_number
  | Data bytes
  | End

fun body_type :: "front_body \<Rightarrow> frame_type" where
  "body_type (Hello _ _ _ _ _ _ _ _ _) = HELLO"
| "body_type (Admit _) = ADMIT"
| "body_type (Refuse _) = REFUSE"
| "body_type (Credit _) = CREDIT"
| "body_type Pause = PAUSE"
| "body_type Resume = RESUME"
| "body_type Close = CLOSE"
| "body_type (Lock _) = LOCK"
| "body_type (Quit _) = QUIT"
| "body_type (Ping _) = PING"
| "body_type (Hello_ack _ _ _ _ _) = HELLO_ACK"
| "body_type (Bound _ _) = BOUND"
| "body_type Open = OPEN"
| "body_type (Write_done _) = WRITE_DONE"
| "body_type (Peer_closed _ _) = PEER_CLOSED"
| "body_type (Lock_ack _ _) = LOCK_ACK"
| "body_type Quit_ack = QUIT_ACK"
| "body_type (Pong _) = PONG"
| "body_type (Error _ _) = ERROR"
| "body_type (Data _) = DATA"
| "body_type End = END"

record front_frame =
  frame_plane :: plane
  frame_generation :: js_number
  frame_connection :: js_number
  frame_sequence :: int
  frame_body :: front_body

datatype malformed_reason =
    Bad_magic | Flags_set | Reserved_set | Unknown_type | Type_not_on_plane | Bad_generation
  | Sequence_exhausted | Sequence_gap | Length_over_bound | Connection_zero | Connection_not_zero
  | Empty_data | Payload_length_mismatch | String_over_payload | Invalid_utf8 | Generation_zero
  | Sddl_kind | Peer_closed_reason | Bound_flags_reserved | Error_code

datatype encode_error =
    Enc_type_not_on_plane | Enc_field_range | Enc_bad_generation | Enc_connection_not_zero
  | Enc_connection_zero | Enc_sequence_range | Enc_length_over_bound | Enc_string_too_long
  | Enc_generation_zero | Enc_bound_flags_reserved | Enc_error_code | Enc_empty_data

section \<open>The encoder\<close>

definition requireU32 :: "js_number \<Rightarrow> (encode_error, nat) result" where
  "requireU32 x =
     (if \<not> is_integer x \<or> js_less x 0 \<or> js_greater x 0xffffffff then Inl Enc_field_range
      else Inr (nat (int_of_js x)))"

definition requireU64 :: "int \<Rightarrow> (encode_error, nat) result" where
  "requireU64 x = (if x < 0 \<or> x > 0xffffffffffffffff then Inl Enc_field_range else Inr (nat x))"

definition requireU16 :: "js_number \<Rightarrow> (encode_error, nat) result" where
  "requireU16 x =
     (if \<not> is_integer x \<or> js_less x 0 \<or> js_greater x 0xffff then Inl Enc_field_range
      else Inr (nat (int_of_js x)))"

definition requireU8 :: "js_number \<Rightarrow> (encode_error, nat) result" where
  "requireU8 x =
     (if \<not> is_integer x \<or> js_less x 0 \<or> js_greater x 0xff then Inl Enc_field_range
      else Inr (nat (int_of_js x)))"

lemma requireU32_eq: "requireU32 x = Inr n \<longleftrightarrow> x = JsInt (int n) \<and> n < 256 ^ 4"
  by (cases x) (auto simp: requireU32_def)

lemma requireU16_eq: "requireU16 x = Inr n \<longleftrightarrow> x = JsInt (int n) \<and> n < 256 ^ 2"
  by (cases x) (auto simp: requireU16_def)

lemma requireU8_eq: "requireU8 x = Inr n \<longleftrightarrow> x = JsInt (int n) \<and> n < 256 ^ 1"
  by (cases x) (auto simp: requireU8_def)

lemma requireU64_eq: "requireU64 x = Inr n \<longleftrightarrow> x = int n \<and> n < 256 ^ 8"
  by (auto simp: requireU64_def)

lemmas require_eqs = requireU8_eq requireU16_eq requireU32_eq requireU64_eq

text \<open>The writer appends parts; \<open>finish\<close> joins them. The first part that throws ends the encoding.\<close>

fun writer :: "(encode_error, bytes) result list \<Rightarrow> (encode_error, bytes) result" where
  "writer [] = Inr []"
| "writer (part # parts) = bindE part (\<lambda>p. bindE (writer parts) (\<lambda>r. Inr (p @ r)))"

definition write_u8 :: "(encode_error, nat) result \<Rightarrow> (encode_error, bytes) result" where
  "write_u8 m = bindE m (\<lambda>n. Inr (put_u8 n))"

definition write_u16 :: "(encode_error, nat) result \<Rightarrow> (encode_error, bytes) result" where
  "write_u16 m = bindE m (\<lambda>n. Inr (put_u16 n))"

definition write_u32 :: "(encode_error, nat) result \<Rightarrow> (encode_error, bytes) result" where
  "write_u32 m = bindE m (\<lambda>n. Inr (put_u32 n))"

definition write_u64 :: "(encode_error, nat) result \<Rightarrow> (encode_error, bytes) result" where
  "write_u64 m = bindE m (\<lambda>n. Inr (put_u64 n))"

definition write_str :: "utf16 \<Rightarrow> (encode_error, bytes) result" where
  "write_str value =
     (let bs = utf8_encode value
      in if length bs > 0xffff then Inl Enc_string_too_long else Inr (put_u16 (length bs) @ bs))"

lemmas write_defs = write_u8_def write_u16_def write_u32_def write_u64_def

text \<open>\<open>(flags & ~BOUND_FLAGS_MASK) !== 0\<close>\<close>

definition reserved_flags :: "nat \<Rightarrow> bool" where
  "reserved_flags flags = ((int flags AND NOT BOUND_FLAGS_MASK) \<noteq> 0)"

fun encodeBody :: "front_body \<Rightarrow> (encode_error, bytes) result" where
  "encodeBody (Hello version kind raw credit chunk deadline epoch name refusal) =
     writer [write_u16 (requireU16 version), write_u8 (requireU8 kind), write_u16 (requireU16 raw),
       write_u32 (requireU32 credit), write_u32 (requireU32 chunk), write_u32 (requireU32 deadline),
       write_u32 (requireU32 epoch), write_str name, write_str refusal]"
| "encodeBody (Admit epoch) = writer [write_u32 (requireU32 epoch)]"
| "encodeBody (Lock epoch) = writer [write_u32 (requireU32 epoch)]"
| "encodeBody (Refuse text) = writer [write_str text]"
| "encodeBody (Credit n) = writer [write_u32 (requireU32 n)]"
| "encodeBody Pause = writer []"
| "encodeBody Resume = writer []"
| "encodeBody Close = writer []"
| "encodeBody Open = writer []"
| "encodeBody Quit_ack = writer []"
| "encodeBody End = writer []"
| "encodeBody (Quit deadline) = writer [write_u32 (requireU32 deadline)]"
| "encodeBody (Ping nonce) = writer [write_u64 (requireU64 nonce)]"
| "encodeBody (Pong nonce) = writer [write_u64 (requireU64 nonce)]"
| "encodeBody (Hello_ack version announced pid front_version build_hash) =
     writer [write_u16 (requireU16 version),
       bindE (requireE (announced \<noteq> JsInt 0) Enc_generation_zero)
         (\<lambda>_. write_u32 (requireU32 announced)),
       write_u32 (requireU32 pid), write_str front_version, write_str build_hash]"
| "encodeBody (Bound flags name) =
     writer [bindE (requireU8 flags) (\<lambda>n. bindE (requireE (\<not> reserved_flags n) Enc_bound_flags_reserved)
         (\<lambda>_. write_u8 (Inr n))),
       write_str name]"
| "encodeBody (Write_done through) = writer [write_u64 (requireU64 through)]"
| "encodeBody (Peer_closed reason through) =
     writer [write_u8 (Inr (peer_closed_id reason)), write_u64 (requireU64 through)]"
| "encodeBody (Lock_ack epoch count) =
     writer [write_u32 (requireU32 epoch), write_u32 (requireU32 count)]"
| "encodeBody (Error code count) =
     writer [bindE (requireU16 code) (\<lambda>n. bindE (requireE (n \<in> set ERROR_CODE_VALUES) Enc_error_code)
         (\<lambda>_. write_u16 (Inr n))),
       write_u32 (requireU32 count)]"
| "encodeBody (Data payload) =
     (if length payload = 0 then Inl Enc_empty_data else writer [Inr payload])"

text \<open>The 28 bytes of the header.\<close>

definition header_bytes :: "nat \<Rightarrow> nat \<Rightarrow> nat \<Rightarrow> frame_type \<Rightarrow> nat \<Rightarrow> bytes" where
  "header_bytes generation connection sequence t len =
     put_u32 PIPE_FRONT_MAGIC @ put_u32 generation @ put_u32 connection @ put_u64 sequence
     @ put_u8 (frame_type_id t) @ put_u8 0 @ put_u16 0 @ put_u32 len"

definition encodePipeFrontFrame :: "front_frame \<Rightarrow> (encode_error, bytes) result" where
  "encodePipeFrontFrame frame =
     (let t = body_type (frame_body frame);
          bootstrap = (t = HELLO \<or> t = HELLO_ACK);
          mustBeZero = t \<in> set CONNECTION_MUST_BE_ZERO
      in
      bindE (requireE (planeCarries (frame_plane frame) t) Enc_type_not_on_plane) (\<lambda>_.
      bindE (requireU32 (frame_generation frame)) (\<lambda>generation.
      bindE (requireE (\<not> (if bootstrap then generation \<noteq> 0 else generation = 0)) Enc_bad_generation) (\<lambda>_.
      bindE (requireU32 (frame_connection frame)) (\<lambda>connection.
      bindE (requireE (\<not> (mustBeZero \<and> connection \<noteq> 0)) Enc_connection_not_zero) (\<lambda>_.
      bindE (requireE (\<not> (\<not> mustBeZero \<and> connection = 0)) Enc_connection_zero) (\<lambda>_.
      bindE (requireE (\<not> (frame_sequence frame < 1
                           \<or> frame_sequence frame \<ge> int PIPE_FRONT_SEQUENCE_EXHAUSTED))
              Enc_sequence_range) (\<lambda>_.
      bindE (encodeBody (frame_body frame)) (\<lambda>body.
      bindE (requireE (\<not> length body > pipeFrontPayloadBound (frame_plane frame))
              Enc_length_over_bound) (\<lambda>_.
      Inr (header_bytes generation connection (nat (frame_sequence frame)) t (length body) @ body)))))))))))"

section \<open>The frame decoder\<close>

text \<open>
  The payload reader is the bytes not read yet. A read past the end is \<open>Overrun\<close> (the runtime
  raises a range error, or yields \<open>undefined\<close> for a single byte); the decoder checks lengths
  so that it never happens, which is a theorem below.
\<close>

datatype body_fault = Malformed malformed_reason | Overrun

definition read_uint :: "nat \<Rightarrow> bytes \<Rightarrow> (body_fault, nat \<times> bytes) result" where
  "read_uint k bs =
     (if length bs < k then Inl Overrun else Inr (le_value (take k bs), drop k bs))"

definition reader_u8 :: "bytes \<Rightarrow> (body_fault, nat \<times> bytes) result" where
  "reader_u8 = read_uint 1"

definition reader_u16 :: "bytes \<Rightarrow> (body_fault, nat \<times> bytes) result" where
  "reader_u16 = read_uint 2"

definition reader_u32 :: "bytes \<Rightarrow> (body_fault, nat \<times> bytes) result" where
  "reader_u32 = read_uint 4"

definition reader_u64 :: "bytes \<Rightarrow> (body_fault, nat \<times> bytes) result" where
  "reader_u64 = read_uint 8"

lemmas reader_defs = reader_u8_def reader_u16_def reader_u32_def reader_u64_def

definition strBytes :: "bytes \<Rightarrow> (bytes \<times> bytes) option" where
  "strBytes bs =
     (if length bs < 2 then None
      else let len = get_u16 bs; rest = drop 2 bs
           in if length rest < len then None else Some (take len rest, drop len rest))"

definition decodeString :: "bytes \<Rightarrow> (body_fault, utf16 \<times> bytes) result" where
  "decodeString bs =
     (case strBytes bs of
        None \<Rightarrow> Inl (Malformed String_over_payload)
      | Some (raw, rest) \<Rightarrow>
          (case utf8_decode raw of
             None \<Rightarrow> Inl (Malformed Invalid_utf8)
           | Some text \<Rightarrow> Inr (text, rest)))"

record parsed_header =
  h_generation :: nat
  h_connection :: nat
  h_sequence :: nat
  h_type :: nat
  h_flags :: nat
  h_reserved :: nat
  h_length :: nat

definition parseHeader :: "bytes \<Rightarrow> parsed_header" where
  "parseHeader bs =
     \<lparr>h_generation = get_u32 (drop 4 bs), h_connection = get_u32 (drop 8 bs),
      h_sequence = get_u64 (drop 12 bs), h_type = get_u8 (drop 20 bs), h_flags = get_u8 (drop 21 bs),
      h_reserved = get_u16 (drop 22 bs), h_length = get_u32 (drop 24 bs)\<rparr>"

definition magicOf :: "bytes \<Rightarrow> nat" where
  "magicOf bs = get_u32 bs"

text \<open>The least payload of a type: its fixed fields and the prefix of its first text.\<close>

fun fixed_length :: "frame_type \<Rightarrow> nat" where
  "fixed_length HELLO = 21"
| "fixed_length ADMIT = 4"
| "fixed_length REFUSE = 2"
| "fixed_length CREDIT = 4"
| "fixed_length LOCK = 4"
| "fixed_length QUIT = 4"
| "fixed_length PING = 8"
| "fixed_length HELLO_ACK = 10"
| "fixed_length BOUND = 3"
| "fixed_length WRITE_DONE = 8"
| "fixed_length PEER_CLOSED = 9"
| "fixed_length LOCK_ACK = 8"
| "fixed_length PONG = 8"
| "fixed_length ERROR = 6"
| "fixed_length _ = 0"

definition at_end :: "bytes \<Rightarrow> (body_fault, unit) result" where
  "at_end rest = requireE (length rest = 0) (Malformed Payload_length_mismatch)"

abbreviation num :: "nat \<Rightarrow> js_number" where
  "num n \<equiv> JsInt (int n)"

fun decode_fields :: "frame_type \<Rightarrow> bytes \<Rightarrow> (body_fault, front_body) result" where
  "decode_fields HELLO p =
     bindE (reader_u16 p) (\<lambda>(version, p). bindE (reader_u8 p) (\<lambda>(kind, p).
     bindE (reader_u16 p) (\<lambda>(raw, p). bindE (reader_u32 p) (\<lambda>(credit, p).
     bindE (reader_u32 p) (\<lambda>(chunk, p). bindE (reader_u32 p) (\<lambda>(deadline, p).
     bindE (reader_u32 p) (\<lambda>(epoch, p). bindE (decodeString p) (\<lambda>(name, p).
     bindE (decodeString p) (\<lambda>(refusal, p). bindE (at_end p) (\<lambda>_.
     bindE (requireE (kind = PIPE_FRONT_SDDL_KIND) (Malformed Sddl_kind)) (\<lambda>_.
     Inr (Hello (num version) (num kind) (num raw) (num credit) (num chunk) (num deadline)
            (num epoch) name refusal))))))))))))"
| "decode_fields ADMIT p = bindE (reader_u32 p) (\<lambda>(epoch, p). bindE (at_end p) (\<lambda>_. Inr (Admit (num epoch))))"
| "decode_fields LOCK p = bindE (reader_u32 p) (\<lambda>(epoch, p). bindE (at_end p) (\<lambda>_. Inr (Lock (num epoch))))"
| "decode_fields REFUSE p = bindE (decodeString p) (\<lambda>(text, p). bindE (at_end p) (\<lambda>_. Inr (Refuse text)))"
| "decode_fields CREDIT p = bindE (reader_u32 p) (\<lambda>(n, p). bindE (at_end p) (\<lambda>_. Inr (Credit (num n))))"
| "decode_fields QUIT p =
     bindE (reader_u32 p) (\<lambda>(deadline, p). bindE (at_end p) (\<lambda>_. Inr (Quit (num deadline))))"
| "decode_fields PING p = bindE (reader_u64 p) (\<lambda>(nonce, p). bindE (at_end p) (\<lambda>_. Inr (Ping (int nonce))))"
| "decode_fields PONG p = bindE (reader_u64 p) (\<lambda>(nonce, p). bindE (at_end p) (\<lambda>_. Inr (Pong (int nonce))))"
| "decode_fields HELLO_ACK p =
     bindE (reader_u16 p) (\<lambda>(version, p). bindE (reader_u32 p) (\<lambda>(announced, p).
     bindE (reader_u32 p) (\<lambda>(pid, p). bindE (decodeString p) (\<lambda>(front_version, p).
     bindE (decodeString p) (\<lambda>(build_hash, p). bindE (at_end p) (\<lambda>_.
     bindE (requireE (announced \<noteq> 0) (Malformed Generation_zero)) (\<lambda>_.
     Inr (Hello_ack (num version) (num announced) (num pid) front_version build_hash))))))))"
| "decode_fields BOUND p =
     bindE (reader_u8 p) (\<lambda>(flags, p). bindE (decodeString p) (\<lambda>(name, p). bindE (at_end p) (\<lambda>_.
     bindE (requireE (\<not> reserved_flags flags) (Malformed Bound_flags_reserved)) (\<lambda>_.
     Inr (Bound (num flags) name)))))"
| "decode_fields WRITE_DONE p =
     bindE (reader_u64 p) (\<lambda>(through, p). bindE (at_end p) (\<lambda>_. Inr (Write_done (int through))))"
| "decode_fields PEER_CLOSED p =
     bindE (reader_u8 p) (\<lambda>(raw, p). bindE (reader_u64 p) (\<lambda>(through, p). bindE (at_end p) (\<lambda>_.
     case pipeFrontPeerClosedReasonName raw of
       None \<Rightarrow> Inl (Malformed Peer_closed_reason)
     | Some reason \<Rightarrow> Inr (Peer_closed reason (int through)))))"
| "decode_fields LOCK_ACK p =
     bindE (reader_u32 p) (\<lambda>(epoch, p). bindE (reader_u32 p) (\<lambda>(count, p). bindE (at_end p) (\<lambda>_.
     Inr (Lock_ack (num epoch) (num count)))))"
| "decode_fields ERROR p =
     bindE (reader_u16 p) (\<lambda>(code, p). bindE (reader_u32 p) (\<lambda>(count, p). bindE (at_end p) (\<lambda>_.
     bindE (requireE (code \<in> set ERROR_CODE_VALUES) (Malformed Error_code)) (\<lambda>_.
     Inr (Error (num code) (num count))))))"
| "decode_fields PAUSE p = bindE (at_end p) (\<lambda>_. Inr Pause)"
| "decode_fields RESUME p = bindE (at_end p) (\<lambda>_. Inr Resume)"
| "decode_fields CLOSE p = bindE (at_end p) (\<lambda>_. Inr Close)"
| "decode_fields OPEN p = bindE (at_end p) (\<lambda>_. Inr Open)"
| "decode_fields QUIT_ACK p = bindE (at_end p) (\<lambda>_. Inr Quit_ack)"
| "decode_fields END p = bindE (at_end p) (\<lambda>_. Inr End)"
| "decode_fields DATA p = Inl (Malformed Unknown_type)"

definition decodeBody :: "parsed_header \<Rightarrow> bytes \<Rightarrow> (body_fault, front_body) result" where
  "decodeBody header payload =
     (case TYPE_NAME_BY_ID (h_type header) of
        None \<Rightarrow> Inl (Malformed Unknown_type)
      | Some t \<Rightarrow>
          (if t = DATA then
             (if length payload = 0 then Inl (Malformed Empty_data) else Inr (Data payload))
           else if length payload < fixed_length t then Inl (Malformed Payload_length_mismatch)
           else decode_fields t payload))"

section \<open>The decoder never reads past the payload\<close>

lemma read_uint_bind:
  "bindE (read_uint k p) f =
     (if length p < k then Inl Overrun else f (le_value (take k p), drop k p))"
  by (simp add: read_uint_def)

lemma decodeString_no_overrun: "decodeString p \<noteq> Inl Overrun"
  by (auto simp: decodeString_def split: option.splits)

lemma at_end_no_overrun: "at_end p \<noteq> Inl Overrun"
  by (simp add: at_end_def requireE_def)

lemma decode_fields_no_overrun: "fixed_length t \<le> length p \<Longrightarrow> decode_fields t p \<noteq> Inl Overrun"
  by (cases t)
     (auto simp: reader_defs read_uint_bind result_simps decodeString_no_overrun at_end_no_overrun
        split: option.splits)

lemma decodeBody_no_overrun: "decodeBody header payload \<noteq> Inl Overrun"
  using decode_fields_no_overrun by (auto simp: decodeBody_def not_less split: option.splits)

section \<open>What the decoder reads back\<close>

named_theorems codec "reading a field at the front of a buffer that starts with it"

lemma readers_put [codec]:
  "n < 256 ^ 1 \<Longrightarrow> reader_u8 (put_u8 n @ r) = Inr (n, r)"
  "n < 256 ^ 2 \<Longrightarrow> reader_u16 (put_u16 n @ r) = Inr (n, r)"
  "n < 256 ^ 4 \<Longrightarrow> reader_u32 (put_u32 n @ r) = Inr (n, r)"
  "n < 256 ^ 8 \<Longrightarrow> reader_u64 (put_u64 n @ r) = Inr (n, r)"
  by (simp_all add: reader_defs read_uint_def put_defs le_value_bytes del: One_nat_def power_one_right)

lemmas readers_put_last [codec] = readers_put [where r = "[]", simplified append_Nil2]

text \<open>The texts the wire returns as they were sent.\<close>

definition plain_text :: "utf16 \<Rightarrow> bool" where
  "plain_text s = (well_formed s \<and> \<not> starts_with_bom s)"

lemma decodeString_written [codec]:
  assumes "write_str s = Inr p" "plain_text s"
  shows "decodeString (p @ r) = Inr (s, r)"
proof -
  from assms(1) have p: "p = put_u16 (length (utf8_encode s)) @ utf8_encode s"
    and l: "length (utf8_encode s) < 256 ^ 2"
    by (auto simp: write_str_def Let_def split: if_splits)
  show ?thesis using assms(2) l
    by (simp add: decodeString_def strBytes_def p w16.got_put Let_def plain_text_def utf8_round_trip)
qed

lemmas decodeString_written_last [codec] = decodeString_written [where r = "[]", simplified append_Nil2]

lemma write_str_length: "write_str s = Inr p \<Longrightarrow> 2 \<le> length p"
  by (auto simp: write_str_def Let_def split: if_splits)

fun body_texts :: "front_body \<Rightarrow> utf16 list" where
  "body_texts (Hello _ _ _ _ _ _ _ name refusal) = [name, refusal]"
| "body_texts (Refuse text) = [text]"
| "body_texts (Hello_ack _ _ _ front_version build_hash) = [front_version, build_hash]"
| "body_texts (Bound _ name) = [name]"
| "body_texts _ = []"

definition readable_body :: "front_body \<Rightarrow> bool" where
  "readable_body b =
     (list_all plain_text (body_texts b) \<and> (body_type b = HELLO \<longrightarrow> sddlKind b = num PIPE_FRONT_SDDL_KIND))"

lemma at_end_Nil [codec]: "at_end [] = Inr ()"
  by (simp add: at_end_def)

lemma decode_fields_encoded:
  assumes "encodeBody b = Inr p" "readable_body b" "body_type b \<noteq> DATA"
  shows "decode_fields (body_type b) p = Inr b \<and> fixed_length (body_type b) \<le> length p"
  using assms
  by (cases b)
     (auto simp: result_simps require_eqs write_defs codec readable_body_def peer_closed_id_less
        peer_closed_name_of_id PIPE_FRONT_SDDL_KIND_def simp del: power_one_right
        dest: write_str_length)

lemma decodeBody_encoded:
  assumes "encodeBody b = Inr p" "readable_body b" "h_type h = frame_type_id (body_type b)"
  shows "decodeBody h p = Inr b"
proof (cases "body_type b = DATA")
  case True
  with assms show ?thesis
    by (cases b) (auto simp: decodeBody_def type_name_of_id result_simps simp del: frame_type_ids split: if_splits)
next
  case False
  then show ?thesis using decode_fields_encoded [OF assms(1,2)] assms(3)
    by (simp add: decodeBody_def type_name_of_id)
qed

section \<open>Headers\<close>

lemma header_bytes_length [simp]: "length (header_bytes g c s t n) = PIPE_FRONT_HEADER_BYTES"
  by (simp add: header_bytes_def PIPE_FRONT_HEADER_BYTES_def)

lemma magicOf_header: "magicOf (header_bytes g c s t n) = PIPE_FRONT_MAGIC"
  by (simp add: magicOf_def header_bytes_def w32.got_put PIPE_FRONT_MAGIC_def)

text \<open>Skipping a field of the header.\<close>

lemma drop_fields:
  "drop (4 + k) (put_u32 n @ r) = drop k r" "drop (8 + k) (put_u64 m @ r) = drop k r"
  "drop (1 + k) (put_u8 i @ r) = drop k r" "drop (2 + k) (put_u16 j @ r) = drop k r"
  by simp_all

lemma parseHeader_bytes:
  assumes "g < 256 ^ 4" "c < 256 ^ 4" "s < 256 ^ 8" "n < 256 ^ 4"
  shows "parseHeader (header_bytes g c s t n) =
     \<lparr>h_generation = g, h_connection = c, h_sequence = s, h_type = frame_type_id t, h_flags = 0,
      h_reserved = 0, h_length = n\<rparr>"
proof -
  let ?m = "put_u32 PIPE_FRONT_MAGIC" and ?t = "put_u8 (frame_type_id t)"
  let ?r6 = "put_u32 n" let ?r5 = "put_u16 0 @ ?r6" let ?r4 = "put_u8 0 @ ?r5" let ?r3 = "?t @ ?r4"
  let ?r2 = "put_u64 s @ ?r3" let ?r1 = "put_u32 c @ ?r2" let ?r0 = "put_u32 g @ ?r1"
  have h: "header_bytes g c s t n = ?m @ ?r0" by (simp add: header_bytes_def)
  have "drop 4 (?m @ ?r0) = ?r0" "drop 8 (?m @ ?r0) = ?r1" "drop 12 (?m @ ?r0) = ?r2"
    "drop 20 (?m @ ?r0) = ?r3" "drop 21 (?m @ ?r0) = ?r4" "drop 22 (?m @ ?r0) = ?r5"
    "drop 24 (?m @ ?r0) = ?r6"
    by simp_all
  moreover have "get_u32 ?r6 = n" using w32.got_put [OF assms(4), of "[]"] by simp
  ultimately show ?thesis unfolding parseHeader_def h
    using assms frame_type_id_less [of t] by (simp add: got_puts)
qed

end
