(* ===== verification/PipeDecoder.thy ===== *)
theory PipeDecoder
  imports PipeFrames
begin

text \<open>
  The incremental decoder of one plane (\<open>PipeFrontFrameDecoder\<close> of \<open>mcp/pipe-front-frames.ts\<close>).
  The staging arrays of the code with their fill counts are the lists of the bytes filled so far;
  the capacity of the payload array is the length the staged header declares.
\<close>

section \<open>State\<close>

record malformed =
  m_reason :: malformed_reason
  m_plane :: plane
  m_type :: nat
  m_connection :: nat
  m_sequence :: nat
  m_length :: nat

record pipe_decoder =
  d_plane :: plane
  d_generation :: nat
  d_adopted :: bool
  d_expected :: nat
  d_header :: bytes
  d_staged :: "parsed_header option"
  d_payload :: bytes
  d_peak :: nat
  d_latched :: "malformed option"

text \<open>An exception that would leave \<open>push\<close> is the event \<open>Range_error\<close>; there is none.\<close>

datatype decode_event = Frame front_frame | Malformed_frame malformed | Range_error

text \<open>The constructor; the sequence is \<open>1\<close> where the caller gives none.\<close>

definition newDecoder :: "plane \<Rightarrow> nat \<Rightarrow> nat option \<Rightarrow> pipe_decoder" where
  "newDecoder p generation sequence =
     \<lparr>d_plane = p, d_generation = generation, d_adopted = (generation \<noteq> 0),
      d_expected = (case sequence of None \<Rightarrow> 1 | Some s \<Rightarrow> s), d_header = [], d_staged = None,
      d_payload = [], d_peak = PIPE_FRONT_HEADER_BYTES, d_latched = None\<rparr>"

definition retainedBytes :: "pipe_decoder \<Rightarrow> nat" where
  "retainedBytes d =
     (if d_staged d = None then length (d_header d)
      else PIPE_FRONT_HEADER_BYTES + length (d_payload d))"

datatype adopt_error = Adopt_generation_zero | Adopt_generation_twice

definition adoptGeneration :: "pipe_decoder \<Rightarrow> nat \<Rightarrow> (adopt_error, pipe_decoder) result" where
  "adoptGeneration d generation =
     (if generation = 0 then Inl Adopt_generation_zero
      else if d_adopted d then Inl Adopt_generation_twice
      else Inr (d\<lparr>d_adopted := True, d_generation := generation\<rparr>))"

section \<open>Operations\<close>

text \<open>The header phase, in its frozen order; \<open>None\<close> is a valid header.\<close>

definition validateHeader :: "pipe_decoder \<Rightarrow> nat \<Rightarrow> parsed_header \<Rightarrow> malformed_reason option" where
  "validateHeader d magic header =
     (if magic \<noteq> PIPE_FRONT_MAGIC then Some Bad_magic
      else if h_flags header \<noteq> 0 then Some Flags_set
      else if h_reserved header \<noteq> 0 then Some Reserved_set
      else case TYPE_NAME_BY_ID (h_type header) of
        None \<Rightarrow> Some Unknown_type
      | Some t \<Rightarrow>
          if \<not> planeCarries (d_plane d) t then Some Type_not_on_plane
          else if (if t = HELLO \<or> t = HELLO_ACK then d_generation d \<noteq> 0 \<or> h_generation header \<noteq> 0
                   else d_generation d = 0 \<or> h_generation header \<noteq> d_generation d)
            then Some Bad_generation
          else if h_sequence header \<ge> PIPE_FRONT_SEQUENCE_EXHAUSTED then Some Sequence_exhausted
          else if h_sequence header \<noteq> d_expected d then Some Sequence_gap
          else if h_length header > pipeFrontPayloadBound (d_plane d) then Some Length_over_bound
          else if t \<in> set CONNECTION_MUST_BE_ZERO
            then (if h_connection header = 0 then None else Some Connection_not_zero)
          else if h_connection header = 0 then Some Connection_zero else None)"

definition decoder_fail :: "pipe_decoder \<Rightarrow> malformed_reason \<Rightarrow> parsed_header \<Rightarrow> pipe_decoder \<times> decode_event" where
  "decoder_fail d reason header =
     (let fault = \<lparr>m_reason = reason, m_plane = d_plane d, m_type = h_type header,
                   m_connection = h_connection header, m_sequence = h_sequence header,
                   m_length = h_length header\<rparr>
      in (d\<lparr>d_latched := Some fault, d_header := [], d_staged := None, d_payload := []\<rparr>,
          Malformed_frame fault))"

text \<open>The next bytes of the header, and what is left of the chunk.\<close>

definition fill_header :: "pipe_decoder \<Rightarrow> bytes \<Rightarrow> pipe_decoder \<times> bytes" where
  "fill_header d chunk =
     (let taken = min (PIPE_FRONT_HEADER_BYTES - length (d_header d)) (length chunk)
      in (d\<lparr>d_header := d_header d @ take taken chunk\<rparr>, drop taken chunk))"

text \<open>A valid header is staged, and its payload buffer allocated.\<close>

definition stage_header :: "pipe_decoder \<Rightarrow> parsed_header \<Rightarrow> pipe_decoder" where
  "stage_header d header =
     d\<lparr>d_header := [], d_staged := Some header, d_payload := [],
       d_peak := max (d_peak d) (PIPE_FRONT_HEADER_BYTES + h_length header)\<rparr>"

definition fill_payload :: "pipe_decoder \<Rightarrow> parsed_header \<Rightarrow> bytes \<Rightarrow> pipe_decoder \<times> bytes" where
  "fill_payload d header chunk =
     (let taken = min (h_length header - length (d_payload d)) (length chunk)
      in (d\<lparr>d_payload := d_payload d @ take taken chunk\<rparr>, drop taken chunk))"

definition delivered :: "pipe_decoder \<Rightarrow> parsed_header \<Rightarrow> front_body \<Rightarrow> pipe_decoder" where
  "delivered d header body =
     (let d1 = d\<lparr>d_staged := None, d_payload := [], d_expected := h_sequence header + 1\<rparr>
      in case body of
           Hello_ack _ announced _ _ _ \<Rightarrow>
             d1\<lparr>d_generation := nat (int_of_js announced), d_adopted := True\<rparr>
         | _ \<Rightarrow> d1)"

definition frame_of :: "pipe_decoder \<Rightarrow> parsed_header \<Rightarrow> front_body \<Rightarrow> front_frame" where
  "frame_of d header body =
     \<lparr>frame_plane = d_plane d, frame_generation = num (h_generation header),
      frame_connection = num (h_connection header), frame_sequence = int (h_sequence header),
      frame_body = body\<rparr>"

text \<open>
  Every round of the loop of \<open>push\<close> either takes bytes of the chunk or finishes the staged frame; a state
  with an overfull header stage, which no run reaches, would stage it at once.
\<close>

definition loop_rounds :: "pipe_decoder \<times> bytes \<Rightarrow> nat" where
  "loop_rounds = (\<lambda>(d, chunk). 2 * length chunk
     + (if PIPE_FRONT_HEADER_BYTES \<le> length (d_header d) then 2 else 0)
     + (if d_staged d = None then 0 else 1))"

lemma delivered_staged [simp]: "d_staged (delivered d h b) = None"
  and delivered_header [simp]: "d_header (delivered d h b) = d_header d"
  by (simp_all add: delivered_def Let_def split: front_body.splits)

text \<open>
  The loop of \<open>push\<close> from the current offset: the rest of the chunk is the argument. What it
  returns are the state when it leaves the loop and the events pushed from here on.
\<close>

function decode_loop :: "pipe_decoder \<Rightarrow> bytes \<Rightarrow> pipe_decoder \<times> decode_event list" where
  "decode_loop d chunk =
     (case d_staged d of
        None \<Rightarrow>
          if chunk = [] then (d, [])
          else
            let (d1, rest) = fill_header d chunk
            in if length (d_header d1) < PIPE_FRONT_HEADER_BYTES then (d1, [])
               else
                 let header = parseHeader (d_header d1)
                 in (case validateHeader d1 (magicOf (d_header d1)) header of
                       Some reason \<Rightarrow> let (d2, e) = decoder_fail d1 reason header in (d2, [e])
                     | None \<Rightarrow> decode_loop (stage_header d1 header) rest)
      | Some header \<Rightarrow>
          if length (d_payload d) < h_length header \<and> chunk = [] then (d, [])
          else
            let (d1, rest) = (if length (d_payload d) < h_length header
                              then fill_payload d header chunk else (d, chunk))
            in if length (d_payload d1) < h_length header then (d1, [])
               else
                 (case decodeBody header (d_payload d1) of
                    Inl Overrun \<Rightarrow> (d1, [Range_error])
                  | Inl (Malformed reason) \<Rightarrow> let (d2, e) = decoder_fail d1 reason header in (d2, [e])
                  | Inr body \<Rightarrow>
                      let (d2, es) = decode_loop (delivered d1 header body) rest
                      in (d2, Frame (frame_of d1 header body) # es)))"
  by pat_completeness auto

termination
proof (relation "measure loop_rounds")
qed (auto simp: loop_rounds_def stage_header_def fill_header_def fill_payload_def Let_def
      PIPE_FRONT_HEADER_BYTES_def split: if_splits)

definition push :: "pipe_decoder \<Rightarrow> bytes \<Rightarrow> pipe_decoder \<times> decode_event list" where
  "push d chunk =
     (if d_latched d \<noteq> None \<or> length chunk = 0 then (d, []) else decode_loop d chunk)"

declare decode_loop.simps [simp del]

section \<open>The rounds of the loop\<close>

lemma HEADER_28 [simp]: "PIPE_FRONT_HEADER_BYTES = 28"
  by (simp add: PIPE_FRONT_HEADER_BYTES_def)

lemma take_drop_min: "take (min k (length xs)) xs = take k xs" "drop (min k (length xs)) xs = drop k xs"
  by (simp_all add: min_def)

lemma fill_header_eq:
  "fill_header d chunk =
     (d\<lparr>d_header := d_header d @ take (28 - length (d_header d)) chunk\<rparr>,
      drop (28 - length (d_header d)) chunk)"
  by (simp add: fill_header_def Let_def take_drop_min)

lemma fill_payload_eq:
  "fill_payload d h chunk =
     (d\<lparr>d_payload := d_payload d @ take (h_length h - length (d_payload d)) chunk\<rparr>,
      drop (h_length h - length (d_payload d)) chunk)"
  by (simp add: fill_payload_def Let_def take_drop_min)

lemma loop_header_part:
  assumes "d_staged d = None" "length (d_header d) + length a < 28"
  shows "decode_loop d (a @ b) = decode_loop (d\<lparr>d_header := d_header d @ a\<rparr>) b"
proof (cases "b = []")
  case True
  with assms show ?thesis
    by (simp add: decode_loop.simps [of d] decode_loop.simps [of "d\<lparr>d_header := d_header d @ a\<rparr>"]
        fill_header_eq)
next
  case False
  with assms show ?thesis
    by (simp add: decode_loop.simps [of d] decode_loop.simps [of "d\<lparr>d_header := d_header d @ a\<rparr>"]
        fill_header_eq)
qed

lemma loop_header_end:
  assumes "d_staged d = None" "length (d_header d) < 28" "length (d_header d) + length a = 28"
  shows "decode_loop d (a @ b) =
    (let d1 = d\<lparr>d_header := d_header d @ a\<rparr>; header = parseHeader (d_header d @ a)
     in case validateHeader d1 (magicOf (d_header d @ a)) header of
          Some reason \<Rightarrow> (fst (decoder_fail d1 reason header), [snd (decoder_fail d1 reason header)])
        | None \<Rightarrow> decode_loop (stage_header d1 header) b)"
proof -
  from assms have "28 - length (d_header d) = length a" "a \<noteq> []" by auto
  with assms show ?thesis
    by (simp add: decode_loop.simps [of d] fill_header_eq Let_def split_beta cong: option.case_cong)
qed

lemma loop_payload_part:
  assumes "d_staged d = Some h" "length (d_payload d) + length a < h_length h"
  shows "decode_loop d (a @ b) = decode_loop (d\<lparr>d_payload := d_payload d @ a\<rparr>) b"
  using assms
  by (simp add: decode_loop.simps [of d] decode_loop.simps [of "d\<lparr>d_payload := d_payload d @ a\<rparr>"]
      fill_payload_eq)

lemma loop_payload_end:
  assumes "d_staged d = Some h" "length (d_payload d) + length a = h_length h"
  shows "decode_loop d (a @ b) =
    (let d1 = d\<lparr>d_payload := d_payload d @ a\<rparr>
     in case decodeBody h (d_payload d @ a) of
          Inl Overrun \<Rightarrow> (d1, [Range_error])
        | Inl (Malformed reason) \<Rightarrow> (fst (decoder_fail d1 reason h), [snd (decoder_fail d1 reason h)])
        | Inr body \<Rightarrow>
            (fst (decode_loop (delivered d1 h body) b),
             Frame (frame_of d1 h body) # snd (decode_loop (delivered d1 h body) b)))"
proof -
  from assms have l: "h_length h - length (d_payload d) = length a" by auto
  show ?thesis
  proof (cases "a = []")
    case True
    with assms show ?thesis
      by (simp add: decode_loop.simps [of d] Let_def split_beta cong: sum.case_cong body_fault.case_cong)
  next
    case False
    with assms have "length (d_payload d) < h_length h" by (cases a) auto
    with assms l False show ?thesis
      by (simp add: decode_loop.simps [of d] fill_payload_eq Let_def split_beta
          cong: sum.case_cong body_fault.case_cong)
  qed
qed

section \<open>Invariant\<close>

text \<open>What a staged header has passed: it is the next frame of this plane, within its bound.\<close>

definition carried :: "plane \<Rightarrow> nat \<Rightarrow> bool" where
  "carried p n = (case TYPE_NAME_BY_ID n of None \<Rightarrow> False | Some t \<Rightarrow> planeCarries p t)"

definition staged_ok :: "pipe_decoder \<Rightarrow> parsed_header \<Rightarrow> bool" where
  "staged_ok d h =
     (carried (d_plane d) (h_type h)
      \<and> h_sequence h = d_expected d \<and> h_sequence h < PIPE_FRONT_SEQUENCE_EXHAUSTED
      \<and> h_length h \<le> pipeFrontPayloadBound (d_plane d))"

text \<open>Inside the loop; a resting decoder also waits for bytes of the payload it has staged.\<close>

definition loop_inv :: "pipe_decoder \<Rightarrow> bool" where
  "loop_inv d =
     (length (d_header d) < 28 \<and> 28 \<le> d_peak d \<and> d_peak d \<le> pipeFrontRetentionBound (d_plane d)
      \<and> (d_latched d \<noteq> None \<longrightarrow> d_staged d = None \<and> d_header d = [])
      \<and> (case d_staged d of
           None \<Rightarrow> d_payload d = []
         | Some h \<Rightarrow> d_header d = [] \<and> staged_ok d h \<and> length (d_payload d) \<le> h_length h
                     \<and> 28 + h_length h \<le> d_peak d))"

definition decoder_inv :: "pipe_decoder \<Rightarrow> bool" where
  "decoder_inv d =
     (loop_inv d \<and> (case d_staged d of None \<Rightarrow> True | Some h \<Rightarrow> length (d_payload d) < h_length h))"

lemma validateHeader_staged_ok: "validateHeader d magic h = None \<Longrightarrow> staged_ok d h"
  by (auto simp: validateHeader_def staged_ok_def carried_def split: if_splits option.splits)

lemma staged_ok_cong:
  "d_plane d = d_plane d' \<Longrightarrow> d_expected d = d_expected d' \<Longrightarrow> staged_ok d h = staged_ok d' h"
  by (simp add: staged_ok_def)

lemma validateHeader_cong:
  assumes "d_plane d = d_plane d'" "d_expected d = d_expected d'" "d_generation d = d_generation d'"
  shows "validateHeader d magic h = validateHeader d' magic h"
  unfolding validateHeader_def assms ..

lemma delivered_simps [simp]:
  "d_plane (delivered d h b) = d_plane d" "d_payload (delivered d h b) = []"
  "d_expected (delivered d h b) = Suc (h_sequence h)" "d_peak (delivered d h b) = d_peak d"
  "d_latched (delivered d h b) = d_latched d"
  by (simp_all add: delivered_def Let_def split: front_body.splits)

lemma stage_header_inv:
  assumes "loop_inv d" "d_staged d = None" "d_latched d = None" "staged_ok d h"
  shows "loop_inv (stage_header d h)"
  using assms
  by (auto simp: loop_inv_def stage_header_def pipeFrontRetentionBound_def staged_ok_def)

lemma delivered_inv: "loop_inv d \<Longrightarrow> d_staged d = Some h \<Longrightarrow> loop_inv (delivered d h b)"
  by (auto simp: loop_inv_def)

lemma decoder_fail_inv: "loop_inv d \<Longrightarrow> decoder_inv (fst (decoder_fail d r h))"
  by (auto simp: loop_inv_def decoder_inv_def decoder_fail_def Let_def)

lemma newDecoder_inv: "decoder_inv (newDecoder p g q)"
  by (simp add: newDecoder_def decoder_inv_def loop_inv_def pipeFrontRetentionBound_def)

lemma adoptGeneration_inv: "adoptGeneration d g = Inr d' \<Longrightarrow> decoder_inv d \<Longrightarrow> decoder_inv d'"
  by (auto simp: adoptGeneration_def decoder_inv_def loop_inv_def staged_ok_def
      split: if_splits option.splits)

text \<open>
  How a run of the loop can go, with the states it passes through in the invariant: the chunk
  ends inside a header or a payload, or completes one, well or badly.
\<close>

lemma decode_loop_cases [consumes 3, case_names header_part header_bad header_good payload_part payload_bad payload_good]:
  assumes result: "decode_loop d chunk = r" and inv: "loop_inv d" and live: "d_latched d = None"
    and header_part: "\<And>d a. \<lbrakk>loop_inv d; d_latched d = None; d_staged d = None; length (d_header d) + length a < 28\<rbrakk>
      \<Longrightarrow> P d a (d\<lparr>d_header := d_header d @ a\<rparr>, [])"
    and header_bad: "\<And>d a rest d1 h r. \<lbrakk>loop_inv d; d_latched d = None; d_staged d = None;
        length (d_header d) + length a = 28; d1 = d\<lparr>d_header := d_header d @ a\<rparr>; h = parseHeader (d_header d @ a);
        validateHeader d1 (magicOf (d_header d @ a)) h = Some r\<rbrakk>
      \<Longrightarrow> P d (a @ rest) (fst (decoder_fail d1 r h), [snd (decoder_fail d1 r h)])"
    and header_good: "\<And>d a rest d1 h. \<lbrakk>loop_inv d; d_latched d = None; d_staged d = None;
        length (d_header d) + length a = 28; d1 = d\<lparr>d_header := d_header d @ a\<rparr>; h = parseHeader (d_header d @ a);
        validateHeader d1 (magicOf (d_header d @ a)) h = None; loop_inv (stage_header d1 h);
        P (stage_header d1 h) rest (decode_loop (stage_header d1 h) rest)\<rbrakk>
      \<Longrightarrow> P d (a @ rest) (decode_loop (stage_header d1 h) rest)"
    and payload_part: "\<And>d h a. \<lbrakk>loop_inv d; d_latched d = None; d_staged d = Some h;
        length (d_payload d) + length a < h_length h\<rbrakk> \<Longrightarrow> P d a (d\<lparr>d_payload := d_payload d @ a\<rparr>, [])"
    and payload_bad: "\<And>d h a rest d1 r. \<lbrakk>loop_inv d; d_latched d = None; d_staged d = Some h;
        length (d_payload d) + length a = h_length h; d1 = d\<lparr>d_payload := d_payload d @ a\<rparr>; loop_inv d1;
        decodeBody h (d_payload d @ a) = Inl (Malformed r)\<rbrakk>
      \<Longrightarrow> P d (a @ rest) (fst (decoder_fail d1 r h), [snd (decoder_fail d1 r h)])"
    and payload_good: "\<And>d h a rest d1 b d2 es. \<lbrakk>loop_inv d; d_latched d = None; d_staged d = Some h;
        length (d_payload d) + length a = h_length h; d1 = d\<lparr>d_payload := d_payload d @ a\<rparr>;
        decodeBody h (d_payload d @ a) = Inr b; loop_inv (delivered d1 h b);
        decode_loop (delivered d1 h b) rest = (d2, es); P (delivered d1 h b) rest (d2, es)\<rbrakk>
      \<Longrightarrow> P d (a @ rest) (d2, Frame (frame_of d1 h b) # es)"
  shows "P d chunk r"
  unfolding result [symmetric] using inv live
proof (induction "loop_rounds (d, chunk)" arbitrary: d chunk rule: less_induct)
  case less
  have short: "length (d_header d) < 28" using less.prems by (simp add: loop_inv_def)
  show ?case
  proof (cases "d_staged d")
    case None
    show ?thesis
    proof (cases "length (d_header d) + length chunk < 28")
      case True
      have "decode_loop d chunk = (d\<lparr>d_header := d_header d @ chunk\<rparr>, [])"
        using loop_header_part [OF None True, of "[]"] None by (simp add: decode_loop.simps)
      then show ?thesis using header_part less.prems None True by simp
    next
      case False
      define a where "a = take (28 - length (d_header d)) chunk"
      define rest where "rest = drop (28 - length (d_header d)) chunk"
      define d1 where "d1 = d\<lparr>d_header := d_header d @ a\<rparr>"
      define h where "h = parseHeader (d_header d @ a)"
      have chunk: "chunk = a @ rest" by (simp add: a_def rest_def)
      then have lc: "length chunk = length a + length rest" by simp
      have len: "length (d_header d) + length a = 28" using False short by (simp add: a_def)
      have loop: "decode_loop d chunk = (case validateHeader d1 (magicOf (d_header d @ a)) h of
          Some reason \<Rightarrow> (fst (decoder_fail d1 reason h), [snd (decoder_fail d1 reason h)])
        | None \<Rightarrow> decode_loop (stage_header d1 h) rest)"
        unfolding chunk by (subst loop_header_end [OF None short len]) (simp add: d1_def [symmetric] h_def [symmetric] Let_def)
      show ?thesis
      proof (cases "validateHeader d1 (magicOf (d_header d @ a)) h")
        case (Some r)
        show ?thesis unfolding loop unfolding chunk
          using header_bad [OF less.prems None len d1_def h_def] Some by simp
      next
        case N: None
        have "staged_ok d h" using validateHeader_staged_ok [OF N] staged_ok_cong [of d d1 h] by (simp add: d1_def)
        then have "loop_inv (stage_header d h)" using stage_header_inv less.prems None by blast
        then have inv': "loop_inv (stage_header d1 h)" by (simp add: stage_header_def d1_def)
        have lt: "loop_rounds (stage_header d1 h, rest) < loop_rounds (d, chunk)"
          using short len lc None by (simp add: loop_rounds_def stage_header_def)
        have "d_latched (stage_header d1 h) = None" using less.prems by (simp add: stage_header_def d1_def)
        then show ?thesis unfolding loop N option.case unfolding chunk
          using header_good [OF less.prems None len d1_def h_def N inv' less.hyps [OF lt inv']] by simp
      qed
    qed
  next
    case (Some h)
    have le: "length (d_payload d) \<le> h_length h" using less.prems Some by (simp add: loop_inv_def)
    show ?thesis
    proof (cases "length (d_payload d) + length chunk < h_length h")
      case True
      have "decode_loop d chunk = (d\<lparr>d_payload := d_payload d @ chunk\<rparr>, [])"
        using loop_payload_part [OF Some True, of "[]"] Some True by (simp add: decode_loop.simps)
      then show ?thesis using payload_part less.prems Some True by simp
    next
      case False
      define a where "a = take (h_length h - length (d_payload d)) chunk"
      define rest where "rest = drop (h_length h - length (d_payload d)) chunk"
      define d1 where "d1 = d\<lparr>d_payload := d_payload d @ a\<rparr>"
      have chunk: "chunk = a @ rest" by (simp add: a_def rest_def)
      then have lc: "length chunk = length a + length rest" by simp
      have len: "length (d_payload d) + length a = h_length h" using False le by (simp add: a_def)
      have loop: "decode_loop d (a @ rest) = (case decodeBody h (d_payload d @ a) of
          Inl Overrun \<Rightarrow> (d1, [Range_error])
        | Inl (Malformed reason) \<Rightarrow> (fst (decoder_fail d1 reason h), [snd (decoder_fail d1 reason h)])
        | Inr body \<Rightarrow>
            (fst (decode_loop (delivered d1 h body) rest),
             Frame (frame_of d1 h body) # snd (decode_loop (delivered d1 h body) rest)))"
        by (subst loop_payload_end [OF Some len]) (simp add: d1_def [symmetric] Let_def)
      have inv1: "loop_inv d1" using less.prems Some len
        by (auto simp: d1_def loop_inv_def staged_ok_def)
      show ?thesis
      proof (cases "decodeBody h (d_payload d @ a)")
        case (Inl f)
        then obtain r where r: "decodeBody h (d_payload d @ a) = Inl (Malformed r)"
          using decodeBody_no_overrun by (cases f) auto
        show ?thesis using payload_bad [OF less.prems Some len d1_def inv1 r, of rest]
          unfolding chunk loop r by simp
      next
        case (Inr b)
        let ?d2 = "delivered d1 h b"
        have inv': "loop_inv ?d2" using delivered_inv [OF inv1] Some by (simp add: d1_def)
        have lt: "loop_rounds (?d2, rest) < loop_rounds (d, chunk)"
          using Some lc by (simp add: loop_rounds_def d1_def)
        have "d_latched ?d2 = None" using less.prems by (simp add: d1_def)
        from less.hyps [OF lt inv' this] show ?thesis
          using payload_good [OF less.prems Some len d1_def Inr inv', of rest]
          unfolding chunk loop Inr by (cases "decode_loop ?d2 rest") simp
      qed
    qed
  qed
qed

section \<open>Chunks do not matter\<close>

text \<open>A result of \<open>push\<close> continued with one more chunk.\<close>

definition push_more :: "pipe_decoder \<times> decode_event list \<Rightarrow> bytes \<Rightarrow> pipe_decoder \<times> decode_event list" where
  "push_more r chunk = (case r of (d, es) \<Rightarrow> case push d chunk of (d', es') \<Rightarrow> (d', es @ es'))"

lemma push_more_latched: "d_latched d \<noteq> None \<Longrightarrow> push_more (d, es) b = (d, es)"
  by (simp add: push_more_def push_def)

lemma decoder_fail_latched: "d_latched (fst (decoder_fail d r h)) \<noteq> None"
  by (simp add: decoder_fail_def Let_def)

lemma decoder_fail_state: "fst (decoder_fail (d\<lparr>d_payload := p\<rparr>) r h) = fst (decoder_fail d r h)"
  by (simp add: decoder_fail_def Let_def)

lemma decode_loop_push:
  "d_latched d = None \<Longrightarrow> decoder_inv d \<Longrightarrow> decode_loop d b = push d b"
  by (cases b) (auto simp: push_def decode_loop.simps [of d "[]"] decoder_inv_def split: option.splits)

lemma decode_loop_append:
  assumes "decode_loop d a = r" "loop_inv d" "d_latched d = None"
  shows "decode_loop d (a @ b) = push_more r b"
  using assms
proof (induction rule: decode_loop_cases)
  case (header_part d a)
  let ?d = "d\<lparr>d_header := d_header d @ a\<rparr>"
  have "decoder_inv ?d" using header_part by (simp add: decoder_inv_def loop_inv_def)
  then show ?case
    using loop_header_part header_part decode_loop_push by (simp add: push_more_def split_beta)
next
  case (header_bad d a rest d1 h r)
  then show ?case
    by (simp add: loop_inv_def loop_header_end Let_def push_more_latched decoder_fail_latched)
next
  case (header_good d a rest d1 h)
  then show ?case by (simp add: loop_inv_def loop_header_end Let_def)
next
  case (payload_part d h a)
  let ?d = "d\<lparr>d_payload := d_payload d @ a\<rparr>"
  have "decoder_inv ?d" using payload_part by (simp add: decoder_inv_def loop_inv_def staged_ok_def)
  then show ?case
    using loop_payload_part payload_part decode_loop_push by (simp add: push_more_def split_beta)
next
  case (payload_bad d h a rest d1 r)
  then show ?case
    by (simp add: loop_payload_end Let_def push_more_latched decoder_fail_latched)
next
  case (payload_good d h a rest d1 b d2 es)
  then show ?case
    by (simp add: loop_payload_end Let_def push_more_def split_beta)
qed

lemma push_append:
  assumes "decoder_inv d"
  shows "push d (a @ b) = push_more (push d a) b"
proof (cases "d_latched d = None \<and> a \<noteq> []")
  case True
  then show ?thesis using decode_loop_append [OF refl, of d a b] assms
    by (simp add: push_def decoder_inv_def)
next
  case False
  then show ?thesis by (auto simp: push_def push_more_def)
qed

definition push_all :: "pipe_decoder \<Rightarrow> bytes list \<Rightarrow> pipe_decoder \<times> decode_event list" where
  "push_all d chunks = foldl push_more (d, []) chunks"

section \<open>What a run of the loop does\<close>

fun frames_of :: "decode_event list \<Rightarrow> front_frame list" where
  "frames_of [] = []"
| "frames_of (Frame f # es) = f # frames_of es"
| "frames_of (_ # es) = frames_of es"

text \<open>The events of a run: frames, then at most one malformed frame, the one latched.\<close>

definition ends_latched :: "pipe_decoder \<times> decode_event list \<Rightarrow> bool" where
  "ends_latched r =
     (snd r = map Frame (frames_of (snd r))
        @ (case d_latched (fst r) of None \<Rightarrow> [] | Some m \<Rightarrow> [Malformed_frame m]))"

lemma decoder_fail_event:
  "\<exists>m. decoder_fail d r h = (fst (decoder_fail d r h), Malformed_frame m)
     \<and> d_latched (fst (decoder_fail d r h)) = Some m"
  "d_expected (fst (decoder_fail d r h)) = d_expected d" "d_plane (fst (decoder_fail d r h)) = d_plane d"
  by (simp_all add: decoder_fail_def Let_def)

lemma ends_latched_fail: "ends_latched (fst (decoder_fail d r h), [snd (decoder_fail d r h)])"
  "frames_of [snd (decoder_fail d r h)] = []"
  by (simp_all add: ends_latched_def decoder_fail_def Let_def)

lemma ends_latched_no_raise: "ends_latched r \<Longrightarrow> Range_error \<notin> set (snd r)"
proof -
  have "Range_error \<notin> set es" if "es = map Frame fs @ (case l of None \<Rightarrow> [] | Some m \<Rightarrow> [Malformed_frame m])"
    for es fs and l :: "malformed option" using that by (auto split: option.splits)
  then show "ends_latched r \<Longrightarrow> Range_error \<notin> set (snd r)" unfolding ends_latched_def .
qed

lemma decode_loop_result:
  assumes "decode_loop d chunk = r" "loop_inv d" "d_latched d = None"
  shows "decoder_inv (fst r) \<and> d_plane (fst r) = d_plane d \<and> ends_latched r
    \<and> map frame_sequence (frames_of (snd r)) = map int [d_expected d..<d_expected (fst r)]
    \<and> d_expected (fst r) = d_expected d + length (frames_of (snd r))
    \<and> 28 * length (frames_of (snd r))
        \<le> length chunk + (if d_staged d = None then length (d_header d) else 28)"
  using assms
proof (induction rule: decode_loop_cases)
  case (header_part d a)
  then show ?case by (simp add: decoder_inv_def loop_inv_def ends_latched_def)
next
  case (header_bad d a rest d1 h r)
  have "loop_inv (d1\<lparr>d_header := []\<rparr>)"
    using header_bad by (simp add: loop_inv_def)
  from decoder_fail_inv [OF this, of r h] have "decoder_inv (fst (decoder_fail d1 r h))"
    by (simp add: decoder_fail_def Let_def)
  then show ?case using header_bad
    by (simp add: ends_latched_fail decoder_fail_event)
next
  case (header_good d a rest d1 h)
  then show ?case by (simp add: stage_header_def)
next
  case (payload_part d h a)
  then show ?case by (simp add: decoder_inv_def loop_inv_def ends_latched_def staged_ok_def)
next
  case (payload_bad d h a rest d1 r)
  then show ?case using decoder_fail_inv [of d1 r h]
    by (simp add: ends_latched_fail decoder_fail_event)
next
  case (payload_good d h a rest d1 b d2 es)
  have seq: "h_sequence h = d_expected d" and hd: "d_header d = []"
    using payload_good by (simp_all add: loop_inv_def staged_ok_def)
  have up: "[d_expected d..<Suc (d_expected d + length (frames_of es))]
      = d_expected d # [Suc (d_expected d)..<Suc (d_expected d + length (frames_of es))]"
    by (rule upt_conv_Cons) simp
  show ?case using payload_good seq up hd
    by (simp add: ends_latched_def frame_of_def del: upt_Suc split: option.splits)
qed

lemma push_result:
  assumes "push d chunk = r" "decoder_inv d"
  shows "decoder_inv (fst r) \<and> d_plane (fst r) = d_plane d
    \<and> map frame_sequence (frames_of (snd r)) = map int [d_expected d..<d_expected (fst r)]
    \<and> d_expected (fst r) = d_expected d + length (frames_of (snd r))
    \<and> 28 * length (frames_of (snd r)) \<le> length chunk + retainedBytes d"
proof (cases "d_latched d \<noteq> None \<or> length chunk = 0")
  case True
  with assms show ?thesis by (auto simp: push_def)
next
  case False
  with assms decode_loop_result [of d chunk r] show ?thesis
    by (auto simp: push_def decoder_inv_def retainedBytes_def split: if_splits)
qed

section \<open>The decoder as a machine\<close>

datatype decoder_op = Push bytes | Adopt nat

text \<open>An adoption that throws leaves the decoder as it was.\<close>

fun decoder_step :: "pipe_decoder \<Rightarrow> decoder_op \<Rightarrow> pipe_decoder" where
  "decoder_step d (Push chunk) = fst (push d chunk)"
| "decoder_step d (Adopt g) = (case adoptGeneration d g of Inl _ \<Rightarrow> d | Inr d' \<Rightarrow> d')"

interpretation decoder: invariant_machine decoder_step decoder_inv
proof
  fix d a
  assume "decoder_inv d"
  then show "decoder_inv (decoder_step d a)"
    using push_result [of d _ _] adoptGeneration_inv [of d _ _]
    by (cases a) (auto split: sum.splits)
qed

definition decoder_run :: "plane \<Rightarrow> nat \<Rightarrow> nat option \<Rightarrow> decoder_op list \<Rightarrow> pipe_decoder" where
  "decoder_run p g q ops = foldl decoder_step (newDecoder p g q) ops"

lemma decoder_run_inv: "decoder_inv (decoder_run p g q ops)"
  unfolding decoder_run_def by (rule decoder.run_inv) (rule newDecoder_inv)

lemma decoder_step_plane: "decoder_inv d \<Longrightarrow> d_plane (decoder_step d a) = d_plane d"
  using push_result [of d _ _] by (cases a) (auto simp: adoptGeneration_def split: sum.splits if_splits)

lemma foldl_step_plane: "decoder_inv d \<Longrightarrow> d_plane (foldl decoder_step d ops) = d_plane d"
  by (induction ops arbitrary: d) (simp_all add: decoder_step_plane decoder.step_inv)

lemma decoder_run_plane: "d_plane (decoder_run p g q ops) = p"
  by (simp add: decoder_run_def foldl_step_plane newDecoder_inv) (simp add: newDecoder_def)

section \<open>Streams of encoded frames\<close>

text \<open>The generation the frames after this one carry.\<close>

definition next_generation :: "nat \<Rightarrow> front_frame \<Rightarrow> nat" where
  "next_generation g f =
     (case frame_body f of Hello_ack _ announced _ _ _ \<Rightarrow> nat (int_of_js announced) | _ \<Rightarrow> g)"

text \<open>Frames a sender of this plane numbers one after the other, with texts the wire returns.\<close>

fun sendable :: "plane \<Rightarrow> nat \<Rightarrow> nat \<Rightarrow> front_frame list \<Rightarrow> bool" where
  "sendable p g s [] = True"
| "sendable p g s (f # fs) =
     (frame_plane f = p \<and> frame_generation f = num g \<and> frame_sequence f = int s
      \<and> readable_body (frame_body f) \<and> sendable p (next_generation g f) (Suc s) fs)"

definition wire_header :: "nat \<Rightarrow> nat \<Rightarrow> nat \<Rightarrow> front_body \<Rightarrow> nat \<Rightarrow> parsed_header" where
  "wire_header g c s b n =
     \<lparr>h_generation = g, h_connection = c, h_sequence = s, h_type = frame_type_id (body_type b),
      h_flags = 0, h_reserved = 0, h_length = n\<rparr>"

text \<open>What an accepted frame looks like on the wire.\<close>

lemma encoded_shape:
  assumes "encodePipeFrontFrame f = Inr bs"
  obtains g c s body where
    "frame_generation f = num g" "frame_connection f = num c" "frame_sequence f = int s"
    "encodeBody (frame_body f) = Inr body"
    "bs = header_bytes g c s (body_type (frame_body f)) (length body) @ body"
    "g < 256 ^ 4" "c < 256 ^ 4" "s < 256 ^ 8" "length body < 256 ^ 4"
    "length body \<le> pipeFrontPayloadBound (frame_plane f)"
    "\<And>d :: pipe_decoder. \<lbrakk>d_plane d = frame_plane f; d_expected d = s; d_generation d = g\<rbrakk>
     \<Longrightarrow> validateHeader d PIPE_FRONT_MAGIC (wire_header g c s (frame_body f) (length body)) = None"
proof -
  from assms obtain g c body where f: "frame_generation f = num g" "frame_connection f = num c"
    "g < 256 ^ 4" "c < 256 ^ 4" and carries: "planeCarries (frame_plane f) (body_type (frame_body f))"
    and gen: "(body_type (frame_body f) = HELLO \<or> body_type (frame_body f) = HELLO_ACK) = (g = 0)"
    and conn: "(body_type (frame_body f) \<in> set CONNECTION_MUST_BE_ZERO) = (c = 0)"
    and seq: "1 \<le> frame_sequence f" "frame_sequence f < int PIPE_FRONT_SEQUENCE_EXHAUSTED"
    and body: "encodeBody (frame_body f) = Inr body"
    and bound: "length body \<le> pipeFrontPayloadBound (frame_plane f)"
    and bs: "bs = header_bytes g c (nat (frame_sequence f)) (body_type (frame_body f)) (length body) @ body"
    unfolding encodePipeFrontFrame_def Let_def result_simps requireU32_eq
    by (auto split: if_splits)
  have s: "frame_sequence f = int (nat (frame_sequence f))" "nat (frame_sequence f) < 256 ^ 8"
    "nat (frame_sequence f) < PIPE_FRONT_SEQUENCE_EXHAUSTED"
    using seq by (auto simp: PIPE_FRONT_SEQUENCE_EXHAUSTED_def)
  have l: "length body < 256 ^ 4"
    using bound by (simp add: pipeFrontPayloadBound_def PIPE_FRONT_CONTROL_PAYLOAD_MAX_BYTES_def
        PIPE_FRONT_DATA_PAYLOAD_MAX_BYTES_def split: if_splits)
  show thesis
  proof (rule that [OF f(1,2) s(1) body bs f(3,4) s(2) l bound])
    fix d :: pipe_decoder
    assume d: "d_plane d = frame_plane f" "d_expected d = nat (frame_sequence f)" "d_generation d = g"
    show "validateHeader d PIPE_FRONT_MAGIC
        (wire_header g c (nat (frame_sequence f)) (frame_body f) (length body)) = None"
      using carries gen conn s(3) bound d
      by (simp add: wire_header_def validateHeader_def type_name_of_id del: frame_type_ids)
  qed
qed

lemma decode_loop_frame:
  assumes enc: "encodePipeFrontFrame f = Inr bs" and readable: "readable_body (frame_body f)"
    and inv: "loop_inv d" "d_latched d = None" "d_staged d = None" "d_header d = []"
    and d: "frame_plane f = d_plane d" "frame_generation f = num (d_generation d)"
      "frame_sequence f = int (d_expected d)"
  obtains d2 where "decode_loop d (bs @ rest) = (fst (decode_loop d2 rest), Frame f # snd (decode_loop d2 rest))"
    "loop_inv d2" "d_latched d2 = None" "d_staged d2 = None" "d_header d2 = []" "d_plane d2 = d_plane d"
    "d_generation d2 = next_generation (d_generation d) f" "d_expected d2 = Suc (d_expected d)"
proof -
  let ?b = "frame_body f"
  from encoded_shape [OF enc] obtain g c q body
    where f: "frame_generation f = num g" "frame_connection f = num c" "frame_sequence f = int q"
      and body: "encodeBody ?b = Inr body"
      and bs: "bs = header_bytes g c q (body_type ?b) (length body) @ body"
      and lim: "g < 256 ^ 4" "c < 256 ^ 4" "q < 256 ^ 8" "length body < 256 ^ 4"
      and valid: "\<And>e :: pipe_decoder. \<lbrakk>d_plane e = frame_plane f; d_expected e = q; d_generation e = g\<rbrakk>
         \<Longrightarrow> validateHeader e PIPE_FRONT_MAGIC (wire_header g c q ?b (length body)) = None"
    by metis
  have gq: "d_generation d = g" "d_expected d = q" using d f by simp_all
  define hb where "hb = header_bytes g c q (body_type ?b) (length body)"
  define h where "h = parseHeader hb"
  have h': "h = wire_header g c q ?b (length body)"
    using parseHeader_bytes [OF lim, of "body_type ?b"] by (simp add: h_def hb_def wire_header_def)
  have magic: "magicOf hb = PIPE_FRONT_MAGIC" by (simp add: hb_def magicOf_header)
  define d1 where "d1 = stage_header (d\<lparr>d_header := hb\<rparr>) h"
  define d1' where "d1' = d1\<lparr>d_payload := body\<rparr>"
  define d2 where "d2 = delivered d1' h (frame_body f)"
  have v: "validateHeader (d\<lparr>d_header := hb\<rparr>) PIPE_FRONT_MAGIC h = None"
    unfolding h' by (rule valid) (simp_all add: d gq)
  have "decode_loop d (hb @ body @ rest) = decode_loop d1 (body @ rest)"
  proof -
    have "length hb = 28" by (simp add: hb_def)
    then have "decode_loop d (hb @ body @ rest) =
        (let d' = d\<lparr>d_header := hb\<rparr>
         in case validateHeader d' (magicOf hb) h of
              Some reason \<Rightarrow> (fst (decoder_fail d' reason h), [snd (decoder_fail d' reason h)])
            | None \<Rightarrow> decode_loop (stage_header d' h) (body @ rest))"
      using loop_header_end [OF inv(3), of hb "body @ rest"] inv(4) unfolding h_def by (simp add: Let_def)
    then show ?thesis by (simp add: v magic d1_def)
  qed
  also have "\<dots> = (fst (decode_loop d2 rest), Frame (frame_of d1' h (frame_body f)) # snd (decode_loop d2 rest))"
    using decodeBody_encoded [OF body readable, of h] loop_payload_end [of d1 h body rest]
    by (simp add: d1_def stage_header_def h' wire_header_def d1'_def d2_def Let_def)
  also have "frame_of d1' h (frame_body f) = f"
    using d f by (simp add: frame_of_def h' wire_header_def d1'_def d1_def stage_header_def)
  finally have "decode_loop d (bs @ rest) = (fst (decode_loop d2 rest), Frame f # snd (decode_loop d2 rest))"
    by (simp add: bs hb_def)
  moreover have "loop_inv d2"
  proof -
    have "staged_ok (d\<lparr>d_header := hb\<rparr>) h" using validateHeader_staged_ok v .
    then have "loop_inv (stage_header d h)"
      using stage_header_inv inv staged_ok_cong [of "d\<lparr>d_header := hb\<rparr>" d h] by simp
    then have "loop_inv d1'"
      by (simp add: loop_inv_def stage_header_def d1_def d1'_def staged_ok_def h' wire_header_def)
    then show ?thesis unfolding d2_def
      by (rule delivered_inv) (simp add: d1'_def d1_def stage_header_def)
  qed
  moreover have "d_generation d2 = next_generation (d_generation d) f"
    by (simp add: d2_def d1'_def d1_def stage_header_def delivered_def Let_def next_generation_def
        split: front_body.split)
  moreover have "d_latched d2 = None" "d_staged d2 = None" "d_header d2 = []" "d_plane d2 = d_plane d"
    "d_expected d2 = Suc (d_expected d)"
    using inv gq by (simp_all add: d2_def d1'_def d1_def stage_header_def h' wire_header_def)
  ultimately show thesis using that by blast
qed

lemma decode_loop_stream:
  assumes "mapE encodePipeFrontFrame fs = Inr bss" "sendable (d_plane d) (d_generation d) (d_expected d) fs"
    "loop_inv d" "d_latched d = None" "d_staged d = None" "d_header d = []"
  shows "snd (decode_loop d (concat bss)) = map Frame fs
    \<and> d_latched (fst (decode_loop d (concat bss))) = None
    \<and> d_expected (fst (decode_loop d (concat bss))) = d_expected d + length fs"
  using assms
proof (induction fs arbitrary: bss d)
  case Nil
  then show ?case by (simp add: decode_loop.simps)
next
  case (Cons f fs)
  from Cons.prems(1) obtain bs bss' where bss: "bss = bs # bss'" "encodePipeFrontFrame f = Inr bs"
    "mapE encodePipeFrontFrame fs = Inr bss'" by (auto simp: result_simps)
  from Cons.prems(2) have f: "frame_plane f = d_plane d" "frame_generation f = num (d_generation d)"
    "frame_sequence f = int (d_expected d)" "readable_body (frame_body f)" by simp_all
  obtain d2 where d2: "decode_loop d (bs @ concat bss')
        = (fst (decode_loop d2 (concat bss')), Frame f # snd (decode_loop d2 (concat bss')))"
    "loop_inv d2" "d_latched d2 = None" "d_staged d2 = None" "d_header d2 = []" "d_plane d2 = d_plane d"
    "d_generation d2 = next_generation (d_generation d) f" "d_expected d2 = Suc (d_expected d)"
    using decode_loop_frame [OF bss(2) f(4) Cons.prems(3-6) f(1-3)] by metis
  have "sendable (d_plane d2) (d_generation d2) (d_expected d2) fs" using Cons.prems(2) d2 by simp
  from Cons.IH [OF bss(3) this d2(2-5)] show ?case using d2 by (simp add: bss(1))
qed

lemma push_more_Nil: "push_more r [] = r"
  by (cases r) (simp add: push_more_def push_def)

lemma push_all_from:
  "decoder_inv d \<Longrightarrow> foldl push_more (push d a) chunks = push d (a @ concat chunks)"
proof (induction chunks arbitrary: a)
  case (Cons c chunks)
  then show ?case using Cons.IH [of "a @ c"] by (simp add: push_append)
qed simp

lemma push_all_concat: "decoder_inv d \<Longrightarrow> push_all d chunks = push d (concat chunks)"
  using push_all_from [of d "[]" chunks] by (simp add: push_all_def push_def)

lemma stream_decodes:
  assumes "mapE encodePipeFrontFrame fs = Inr bss" "sendable p g s fs" "concat chunks = concat bss"
  shows "snd (push_all (newDecoder p g (Some s)) chunks) = map Frame fs
    \<and> d_expected (fst (push_all (newDecoder p g (Some s)) chunks)) = s + length fs"
proof -
  let ?d = "newDecoder p g (Some s)"
  have "push_all ?d chunks = push ?d (concat bss)"
    using push_all_concat [OF newDecoder_inv] assms(3) by simp
  moreover have "push ?d (concat bss) = decode_loop ?d (concat bss)"
    by (rule decode_loop_push [symmetric, OF _ newDecoder_inv]) (simp add: newDecoder_def)
  moreover have "snd (decode_loop ?d (concat bss)) = map Frame fs
      \<and> d_expected (fst (decode_loop ?d (concat bss))) = d_expected ?d + length fs"
    using decode_loop_stream [of fs bss ?d] newDecoder_inv [of p g "Some s"] assms(1,2)
    by (simp add: decoder_inv_def newDecoder_def)
  ultimately show ?thesis by (simp add: newDecoder_def)
qed

section \<open>Correctness of the decoder\<close>

text \<open>
  C32: Chunks do not matter. Whatever happened to a decoder before, pushing bytes in any number of
  chunks gives the same state and the same events as pushing them at once; in particular it is
  the decoder that is fed one byte at a time.
\<close>

theorem decoder_chunking:
  "push_all (decoder_run p g q ops) chunks = push (decoder_run p g q ops) (concat chunks)"
  by (rule push_all_concat [OF decoder_run_inv])

text \<open>
  C15: Retention is bounded. After any operations, and at every moment inside them (the peak
  records it), a decoder holds at most the header and the payload bound of its plane, whatever
  length the sender claimed.
\<close>

theorem decoder_retention:
  "retainedBytes (decoder_run p g q ops) \<le> d_peak (decoder_run p g q ops)
   \<and> d_peak (decoder_run p g q ops) \<le> pipeFrontRetentionBound p"
  using decoder_run_inv [of p g q ops] decoder_run_plane [of p g q ops]
  by (auto simp: decoder_inv_def loop_inv_def retainedBytes_def split: option.splits)


text \<open>
  C39: Malformed is terminal. No \<open>push\<close> raises; its events are frames and then at most one
  malformed frame, there exactly when the decoder latches it; a latched decoder yields nothing and
  does not change.
\<close>

theorem decoder_fault_terminal:
  "let d = decoder_run p g q ops; (d', es) = push d chunk in
     Range_error \<notin> set es
     \<and> (if d_latched d = None
        then es = map Frame (frames_of es)
               @ (case d_latched d' of None \<Rightarrow> [] | Some m \<Rightarrow> [Malformed_frame m])
        else es = [] \<and> d' = d)"
proof -
  let ?d = "decoder_run p g q ops"
  let ?r = "push ?d chunk"
  have l: "ends_latched ?r" if "d_latched ?d = None"
  proof (cases "chunk = []")
    case True
    with that show ?thesis by (simp add: push_def ends_latched_def)
  next
    case False
    with that decode_loop_result [OF refl, of ?d chunk] decoder_run_inv [of p g q ops]
    show ?thesis by (simp add: push_def decoder_inv_def)
  qed
  show ?thesis
  proof (cases "d_latched ?d")
    case None
    then show ?thesis using l ends_latched_no_raise [of ?r]
      by (simp add: Let_def split_beta ends_latched_def [symmetric])
  next
    case (Some m)
    then show ?thesis by (simp add: push_def)
  qed
qed



end
