(* ===== verification/FrontPlanes.thy ===== *)
theory FrontPlanes
  imports PipeDecoder
begin

text \<open>
  The four framed planes of one front generation (\<open>mcp-host/front-planes.ts\<close>): main's two
  sequence counters, its two decoders and the generation they share. What a Node stream does is
  input: whether it is destroyed, and whether it accepted a write; the bytes handed to the two
  writable streams are collected in the state. The attaching of listeners is not modelled: the
  reader operations are what the listeners do.
\<close>

record front_planes =
  fp_controlDownSequence :: nat
  fp_dataDownSequence :: nat
  fp_controlUp :: pipe_decoder
  fp_dataUp :: pipe_decoder
  fp_generation :: nat
  fp_disposed :: bool
  fp_controlDownDestroyed :: bool
  fp_dataDownDestroyed :: bool
  fp_controlDownBytes :: "bytes list"
  fp_dataDownBytes :: "bytes list"

definition newFrontPlanes :: front_planes where
  "newFrontPlanes =
     \<lparr>fp_controlDownSequence = 1, fp_dataDownSequence = 1,
      fp_controlUp = newDecoder ControlUp 0 None, fp_dataUp = newDecoder DataUp 0 None,
      fp_generation = 0, fp_disposed = False, fp_controlDownDestroyed = False,
      fp_dataDownDestroyed = False, fp_controlDownBytes = [], fp_dataDownBytes = []\<rparr>"

text \<open>The generation is set before the decoder is told, which may throw.\<close>

definition planes_adoptGeneration :: "front_planes \<Rightarrow> nat \<Rightarrow> front_planes \<times> adopt_error option" where
  "planes_adoptGeneration p generation =
     (let p1 = p\<lparr>fp_generation := generation\<rparr>
      in case adoptGeneration (fp_dataUp p1) generation of
           Inl e \<Rightarrow> (p1, Some e)
         | Inr d \<Rightarrow> (p1\<lparr>fp_dataUp := d\<rparr>, None))"

definition planes_failure :: "front_planes \<Rightarrow> malformed option" where
  "planes_failure p =
     (case d_latched (fp_controlUp p) of Some m \<Rightarrow> Some m | None \<Rightarrow> d_latched (fp_dataUp p))"

definition dataUpDelivered :: "front_planes \<Rightarrow> int" where
  "dataUpDelivered p = int (d_expected (fp_dataUp p)) - 1"

definition planes_encode :: "front_planes \<Rightarrow> plane \<Rightarrow> nat \<Rightarrow> front_body \<Rightarrow> nat \<Rightarrow> (encode_error, bytes) result" where
  "planes_encode p pl connection body sequence =
     encodePipeFrontFrame
       \<lparr>frame_plane = pl, frame_generation = num (fp_generation p), frame_connection = num connection,
        frame_sequence = int sequence, frame_body = body\<rparr>"

text \<open>
  A write returns whether the stream took it, \<open>accepted\<close>, and is thrown out of by the encoder
  before the counter moves.
\<close>

definition writeControl ::
    "front_planes \<Rightarrow> bool \<Rightarrow> nat \<Rightarrow> front_body \<Rightarrow> (encode_error, front_planes \<times> bool) result" where
  "writeControl p accepted connection body =
     (if fp_disposed p \<or> fp_controlDownDestroyed p then Inr (p, False)
      else
        let sequence = fp_controlDownSequence p
        in bindE (planes_encode p ControlDown connection body sequence) (\<lambda>bs.
           Inr (p\<lparr>fp_controlDownBytes := fp_controlDownBytes p @ [bs],
                  fp_controlDownSequence := sequence + 1\<rparr>, accepted)))"

definition writeData ::
    "front_planes \<Rightarrow> nat \<Rightarrow> front_body \<Rightarrow> (encode_error, front_planes \<times> nat option) result" where
  "writeData p connection body =
     (if fp_disposed p \<or> fp_dataDownDestroyed p then Inr (p, None)
      else
        let sequence = fp_dataDownSequence p
        in bindE (planes_encode p DataDown connection body sequence) (\<lambda>bs.
           Inr (p\<lparr>fp_dataDownBytes := fp_dataDownBytes p @ [bs],
                  fp_dataDownSequence := sequence + 1\<rparr>, Some sequence)))"

definition planes_dispose :: "front_planes \<Rightarrow> front_planes" where
  "planes_dispose p = p\<lparr>fp_disposed := True\<rparr>"

text \<open>The data listeners: the batch to deliver, empty where nothing is delivered.\<close>

definition onControlUpData :: "front_planes \<Rightarrow> bytes \<Rightarrow> front_planes \<times> decode_event list" where
  "onControlUpData p chunk =
     (if fp_disposed p then (p, [])
      else let (d, batch) = push (fp_controlUp p) chunk in (p\<lparr>fp_controlUp := d\<rparr>, batch))"

definition onDataUpData :: "front_planes \<Rightarrow> bytes \<Rightarrow> front_planes \<times> decode_event list" where
  "onDataUpData p chunk =
     (if fp_disposed p then (p, [])
      else let (d, batch) = push (fp_dataUp p) chunk in (p\<lparr>fp_dataUp := d\<rparr>, batch))"

section \<open>Writing a plane\<close>

text \<open>Data-plane writes one after the other; a write that throws leaves the planes as they were.\<close>

fun write_all :: "front_planes \<Rightarrow> (nat \<times> front_body) list \<Rightarrow> front_planes" where
  "write_all p [] = p"
| "write_all p ((connection, body) # rest) =
     (case writeData p connection body of
        Inl _ \<Rightarrow> write_all p rest
      | Inr (p', _) \<Rightarrow> write_all p' rest)"

text \<open>The frames those writes put on the plane.\<close>

fun frames_written :: "front_planes \<Rightarrow> (nat \<times> front_body) list \<Rightarrow> front_frame list" where
  "frames_written p [] = []"
| "frames_written p ((connection, body) # rest) =
     (case writeData p connection body of
        Inl _ \<Rightarrow> frames_written p rest
      | Inr (p', None) \<Rightarrow> frames_written p' rest
      | Inr (p', Some q) \<Rightarrow>
          \<lparr>frame_plane = DataDown, frame_generation = num (fp_generation p), frame_connection = num connection,
           frame_sequence = int q, frame_body = body\<rparr> # frames_written p' rest)"

lemma writeData_cases:
  assumes "writeData p c b = Inr r"
  obtains "r = (p, None)" "fp_disposed p \<or> fp_dataDownDestroyed p"
  | bs where "planes_encode p DataDown c b (fp_dataDownSequence p) = Inr bs"
      "r = (p\<lparr>fp_dataDownBytes := fp_dataDownBytes p @ [bs],
              fp_dataDownSequence := fp_dataDownSequence p + 1\<rparr>, Some (fp_dataDownSequence p))"
      "\<not> fp_disposed p" "\<not> fp_dataDownDestroyed p"
  using assms by (auto simp: writeData_def Let_def result_simps split: if_splits)

text \<open>Only the two data types go on a data plane, and they carry no texts.\<close>

lemma data_plane_body:
  assumes "encodePipeFrontFrame f = Inr bs" "frame_plane f = DataDown"
  shows "readable_body (frame_body f)" "next_generation g f = g"
proof -
  from assms have "planeCarries DataDown (body_type (frame_body f))"
    by (auto simp: encodePipeFrontFrame_def Let_def result_simps)
  then have "body_type (frame_body f) = DATA \<or> body_type (frame_body f) = END"
    by (auto simp: planeCarries_def PIPE_FRONT_DATA_TYPES_def)
  then show "readable_body (frame_body f)" "next_generation g f = g"
    by (cases "frame_body f"; simp add: readable_body_def next_generation_def)+
qed

lemma planes_encode_data:
  assumes "planes_encode p DataDown c b q = Inr bs"
  shows "readable_body b" "frame_body f = b \<Longrightarrow> next_generation g f = g"
  using data_plane_body [OF assms [unfolded planes_encode_def]] by (simp_all add: next_generation_def)

lemma write_all_stream:
  "\<exists>bss. fp_dataDownBytes (write_all p ws) = fp_dataDownBytes p @ bss
     \<and> mapE encodePipeFrontFrame (frames_written p ws) = Inr bss
     \<and> sendable DataDown (fp_generation p) (fp_dataDownSequence p) (frames_written p ws)
     \<and> fp_dataDownSequence (write_all p ws) = fp_dataDownSequence p + length (frames_written p ws)"
proof (induction ws arbitrary: p)
  case Nil
  then show ?case by simp
next
  case (Cons w ws)
  obtain c b where w: "w = (c, b)" by (cases w)
  show ?case
  proof (cases "writeData p c b")
    case (Inl e)
    then show ?thesis using Cons.IH [of p] by (simp add: w)
  next
    case (Inr r)
    then show ?thesis
    proof (cases rule: writeData_cases)
      case 1
      then show ?thesis using Cons.IH [of p] Inr by (simp add: w)
    next
      case (2 bs)
      then show ?thesis
        using Cons.IH [of "fst r"] Inr planes_encode_data [OF 2(1)]
        by (auto simp: w planes_encode_def)
    qed
  qed
qed

section \<open>Correctness\<close>

text \<open>
  What main writes on the data plane is what the front reads. After any writes, including
  those the encoder refuses, the bytes on the plane, cut into any chunks, decode to exactly the
  frames written, in order; a refused write leaves no gap in the sequence.
\<close>

theorem data_plane_delivers:
  assumes "concat chunks = concat (fp_dataDownBytes (write_all (newFrontPlanes\<lparr>fp_generation := g\<rparr>) ws))"
  shows "snd (push_all (newDecoder DataDown g (Some 1)) chunks)
    = map Frame (frames_written (newFrontPlanes\<lparr>fp_generation := g\<rparr>) ws)"
proof -
  let ?p = "newFrontPlanes\<lparr>fp_generation := g\<rparr>"
  from write_all_stream [of ?p ws] obtain bss where
    "fp_dataDownBytes (write_all ?p ws) = bss"
    "mapE encodePipeFrontFrame (frames_written ?p ws) = Inr bss"
    "sendable DataDown g 1 (frames_written ?p ws)"
    by (auto simp: newFrontPlanes_def)
  with stream_decodes [of "frames_written ?p ws" bss DataDown g 1 chunks] assms show ?thesis by simp
qed

lemma data_plane_delivers_witness:
  "let ws = [(1, Data [7, 8]), (0, End), (1, End)];
       p = newFrontPlanes\<lparr>fp_generation := 5\<rparr>;
       frame = \<lambda>q b. \<lparr>frame_plane = DataDown, frame_generation = num 5, frame_connection = num 1,
                        frame_sequence = q, frame_body = b\<rparr>
   in snd (push_all (newDecoder DataDown 5 (Some 1)) (fp_dataDownBytes (write_all p ws)))
        = map Frame [frame 1 (Data [7, 8]), frame 2 End]"
proof -
  let ?ws = "[(1, Data [7, 8]), (0, End), (1, End)]" and ?p = "newFrontPlanes\<lparr>fp_generation := 5\<rparr>"
  have "frames_written ?p ?ws
      = [\<lparr>frame_plane = DataDown, frame_generation = num 5, frame_connection = num 1,
           frame_sequence = 1, frame_body = Data [7, 8]\<rparr>,
         \<lparr>frame_plane = DataDown, frame_generation = num 5, frame_connection = num 1,
           frame_sequence = 2, frame_body = End\<rparr>]"
    by (simp add: newFrontPlanes_def writeData_def planes_encode_def encodePipeFrontFrame_def Let_def
        planeCarries_def frame_type_tables requireU32_def CONNECTION_MUST_BE_ZERO_def
        PIPE_FRONT_SEQUENCE_EXHAUSTED_def pipeFrontPayloadBound_def
        PIPE_FRONT_DATA_PAYLOAD_MAX_BYTES_def)
  then show ?thesis
    using data_plane_delivers [of "fp_dataDownBytes (write_all ?p ?ws)" 5 ?ws] by (simp add: Let_def)
qed

end
