(* ===== verification/FrontRelay.thy ===== *)
theory FrontRelay
  imports FrontPlanes
begin

text \<open>
  The relay of one front generation (\<open>mcp-host/front-relay-transport.ts\<close>): its connections, the
  round-robin pump of the data plane, and every operation that does not call into a consumer.
  Those that do are relations in \<open>FrontRelayRuns\<close>.

  Connections are objects: \<open>r_objects\<close> holds them by id, \<open>r_keys\<close> lists the ids the relay's map
  still has, in insertion order. A write is identified by a number where the code compares
  references. The trace is a history variable: what was sent on the planes and handed to the
  consumer. When a plane write throws, the model notes it in \<open>r_raised\<close> and goes on as if the
  plane were gone; \<open>FrontRelayRuns\<close> proves that connections of a bootstrapped front never do.
  Log lines and the time stamps in them are left out.
\<close>

definition FRONT_CREDIT_BYTES :: int where
  "FRONT_CREDIT_BYTES = 65536"

definition FRONT_CHUNK_BYTES :: nat where
  "FRONT_CHUNK_BYTES = PIPE_FRONT_DATA_PAYLOAD_MAX_BYTES"

definition FRONT_MAX_PENDING_WRITES :: nat where
  "FRONT_MAX_PENDING_WRITES = 8"

section \<open>State\<close>

record pending_write =
  w_id :: nat
  w_chunks :: "bytes list"
  w_sent :: nat
  w_lastSequence :: "nat option"
  w_callback :: bool

datatype pending_item = Pending_data pending_write | Pending_end

record unacked_chunk =
  u_sequence :: nat
  u_bytes :: int

text \<open>The last four fields are the latches of the connection's transport object.\<close>

record relay_connection =
  c_grantedCredit :: int
  c_paused :: bool
  c_held :: "bytes list"
  c_heldBytes :: int
  c_readEnded :: bool
  c_writeEnded :: bool
  c_pending :: "pending_item list"
  c_unacked :: "unacked_chunk list"
  c_outstanding :: int
  c_lastAck :: nat
  c_awaitingAck :: "pending_write list"
  c_blocking :: "nat option"
  c_stallTimer :: bool
  c_stallWarned :: bool
  c_destroyed :: bool
  c_closeRaised :: bool
  c_pendingClose :: "nat option"
  t_destroyed :: bool
  t_writableEnded :: bool
  t_readableEnded :: bool
  t_droppedFrames :: nat

datatype front_failure = Unexpected_frame | Ack_regression | Data_after_end | Credit_overrun

datatype relay_event =
    Sent_control nat front_body
  | Sent_data nat nat front_body
  | Emit_data nat bytes
  | Emit_end nat
  | Emit_drain nat
  | Emit_close nat
  | Settled nat nat nat
  | Connected nat
  | Fatal front_failure

datatype microtask = Close_edge nat | Write_callback nat

datatype raised = Encode_error encode_error | Type_error

record relay =
  r_planes :: front_planes
  r_objects :: "nat \<Rightarrow> relay_connection option"
  r_keys :: "nat list"
  r_rotation :: "nat list"
  r_cursor :: nat
  r_closed :: bool
  r_next_write :: nat
  r_microtasks :: "microtask list"
  r_raised :: "raised option"
  r_trace :: "relay_event list"

definition new_relay :: "front_planes \<Rightarrow> relay" where
  "new_relay planes =
     \<lparr>r_planes = planes, r_objects = (\<lambda>_. None), r_keys = [], r_rotation = [], r_cursor = 0,
      r_closed = False, r_next_write = 0, r_microtasks = [], r_raised = None, r_trace = []\<rparr>"

definition new_connection :: relay_connection where
  "new_connection =
     \<lparr>c_grantedCredit = 0, c_paused = False, c_held = [], c_heldBytes = 0, c_readEnded = False,
      c_writeEnded = False, c_pending = [], c_unacked = [], c_outstanding = 0, c_lastAck = 0,
      c_awaitingAck = [], c_blocking = None, c_stallTimer = False, c_stallWarned = False,
      c_destroyed = False, c_closeRaised = False, c_pendingClose = None, t_destroyed = False,
      t_writableEnded = False, t_readableEnded = False, t_droppedFrames = 0\<rparr>"

section \<open>Objects, planes and events\<close>

definition upd :: "nat \<Rightarrow> (relay_connection \<Rightarrow> relay_connection) \<Rightarrow> relay \<Rightarrow> relay" where
  "upd i f s = s\<lparr>r_objects := (r_objects s)(i := map_option f (r_objects s i))\<rparr>"

definition emit :: "relay_event \<Rightarrow> relay \<Rightarrow> relay" where
  "emit e s = s\<lparr>r_trace := r_trace s @ [e]\<rparr>"

text \<open>\<open>this.connections.get(id)\<close>\<close>

definition lookup :: "nat \<Rightarrow> relay \<Rightarrow> relay_connection option" where
  "lookup i s = (if i \<in> set (r_keys s) then r_objects s i else None)"

text \<open>\<open>live\<close>: the connection of a frame or call, or a dropped frame.\<close>

definition live :: "nat \<Rightarrow> relay \<Rightarrow> relay \<times> relay_connection option" where
  "live i s =
     (case lookup i s of
        None \<Rightarrow> (s, None)
      | Some c \<Rightarrow>
          if c_destroyed c then (upd i (\<lambda>c. c\<lparr>t_droppedFrames := t_droppedFrames c + 1\<rparr>) s, None)
          else (s, Some c))"

definition send_control :: "nat \<Rightarrow> front_body \<Rightarrow> relay \<Rightarrow> relay" where
  "send_control i body s =
     (case writeControl (r_planes s) True i body of
        Inl e \<Rightarrow> s\<lparr>r_raised := Some (Encode_error e)\<rparr>
      | Inr (p, written) \<Rightarrow>
          if written then emit (Sent_control i body) (s\<lparr>r_planes := p\<rparr>) else s)"

definition send_data :: "nat \<Rightarrow> front_body \<Rightarrow> relay \<Rightarrow> relay \<times> nat option" where
  "send_data i body s =
     (case writeData (r_planes s) i body of
        Inl e \<Rightarrow> (s\<lparr>r_raised := Some (Encode_error e)\<rparr>, None)
      | Inr (p, None) \<Rightarrow> (s, None)
      | Inr (p, Some q) \<Rightarrow> (emit (Sent_data i q body) (s\<lparr>r_planes := p\<rparr>), Some q))"

text \<open>What the small steps leave alone.\<close>

named_theorems relay_frame "fields of the relay that an operation does not change"

lemma upd_frame [relay_frame, simp]:
  "r_planes (upd i f s) = r_planes s" "r_keys (upd i f s) = r_keys s"
  "r_rotation (upd i f s) = r_rotation s" "r_cursor (upd i f s) = r_cursor s"
  "r_closed (upd i f s) = r_closed s" "r_next_write (upd i f s) = r_next_write s"
  "r_microtasks (upd i f s) = r_microtasks s" "r_raised (upd i f s) = r_raised s"
  "r_trace (upd i f s) = r_trace s"
  by (simp_all add: upd_def)

lemma upd_objects [simp]:
  "r_objects (upd i f s) j = (if j = i then map_option f (r_objects s i) else r_objects s j)"
  by (simp add: upd_def)

lemma emit_frame [relay_frame, simp]:
  "r_planes (emit e s) = r_planes s" "r_keys (emit e s) = r_keys s" "r_objects (emit e s) = r_objects s"
  "r_rotation (emit e s) = r_rotation s" "r_cursor (emit e s) = r_cursor s"
  "r_closed (emit e s) = r_closed s" "r_next_write (emit e s) = r_next_write s"
  "r_microtasks (emit e s) = r_microtasks s" "r_raised (emit e s) = r_raised s"
  "r_trace (emit e s) = r_trace s @ [e]"
  by (simp_all add: emit_def)

lemma send_control_frame [relay_frame, simp]:
  "r_keys (send_control i b s) = r_keys s" "r_objects (send_control i b s) = r_objects s"
  "r_rotation (send_control i b s) = r_rotation s" "r_cursor (send_control i b s) = r_cursor s"
  "r_closed (send_control i b s) = r_closed s" "r_next_write (send_control i b s) = r_next_write s"
  "r_microtasks (send_control i b s) = r_microtasks s"
  by (simp_all add: send_control_def split: sum.split prod.split)

lemma send_data_frame [relay_frame, simp]:
  "r_keys (fst (send_data i b s)) = r_keys s" "r_objects (fst (send_data i b s)) = r_objects s"
  "r_rotation (fst (send_data i b s)) = r_rotation s" "r_cursor (fst (send_data i b s)) = r_cursor s"
  "r_closed (fst (send_data i b s)) = r_closed s" "r_next_write (fst (send_data i b s)) = r_next_write s"
  "r_microtasks (fst (send_data i b s)) = r_microtasks s"
  by (simp_all add: send_data_def split: sum.split prod.split option.split)

section \<open>The stall watch\<close>

definition armStallWatch :: "nat \<Rightarrow> relay \<Rightarrow> relay" where
  "armStallWatch i s =
     upd i (\<lambda>c. if c_stallWarned c \<or> c_stallTimer c \<or> c_destroyed c \<or> c_closeRaised c then c
                else c\<lparr>c_stallTimer := True\<rparr>) s"

definition clearStallWatch :: "nat \<Rightarrow> relay \<Rightarrow> relay" where
  "clearStallWatch i s = upd i (\<lambda>c. c\<lparr>c_stallTimer := False\<rparr>) s"

text \<open>The timer fires.\<close>

definition stallTimeout :: "nat \<Rightarrow> relay \<Rightarrow> relay" where
  "stallTimeout i s =
     upd i (\<lambda>c. if \<not> c_stallTimer c then c
                else if c_destroyed c \<or> c_closeRaised c \<or> c_stallWarned c then c\<lparr>c_stallTimer := False\<rparr>
                else c\<lparr>c_stallTimer := False, c_stallWarned := True\<rparr>) s"

section \<open>The pump\<close>

text \<open>At most one frame of a connection, and whether one went out.\<close>

definition writeOneChunk :: "nat \<Rightarrow> relay \<Rightarrow> relay \<times> bool" where
  "writeOneChunk i s =
     (case r_objects s i of
        None \<Rightarrow> (s, False)
      | Some c \<Rightarrow>
          (case c_pending c of
             [] \<Rightarrow> (s, False)
           | Pending_end # rest \<Rightarrow>
               (fst (send_data i End (upd i (\<lambda>c. c\<lparr>c_pending := rest\<rparr>) s)), True)
           | Pending_data w # rest \<Rightarrow>
               if length (w_chunks w) \<le> w_sent w then (s, False)
               else
                 let chunk = w_chunks w ! w_sent w
                 in if c_outstanding c + int (length chunk) > FRONT_CREDIT_BYTES
                    then (armStallWatch i s, False)
                    else
                      (case send_data i (Data chunk) s of
                         (s1, None) \<Rightarrow> (s1, False)
                       | (s1, Some q) \<Rightarrow>
                           let w1 = w\<lparr>w_sent := w_sent w + 1\<rparr>
                           in (upd i (\<lambda>c.
                                 let c1 = c\<lparr>c_unacked := c_unacked c
                                                @ [\<lparr>u_sequence = q, u_bytes = int (length chunk)\<rparr>],
                                            c_outstanding := c_outstanding c + int (length chunk)\<rparr>
                                 in if w_sent w1 = length (w_chunks w1)
                                    then c1\<lparr>c_pending := rest,
                                            c_awaitingAck := c_awaitingAck c @ [w1\<lparr>w_lastSequence := Some q\<rparr>]\<rparr>
                                    else c1\<lparr>c_pending := Pending_data w1 # rest\<rparr>) s1,
                               True))))"

text \<open>One turn of every connection of the round, in order.\<close>

fun pump_round :: "nat list \<Rightarrow> relay \<Rightarrow> relay \<times> bool" where
  "pump_round [] s = (s, False)"
| "pump_round (i # ids) s =
     (let (s1, wrote) =
            (case lookup i s of
               None \<Rightarrow> (s, False)
             | Some c \<Rightarrow> if c_destroyed c then (s, False) else writeOneChunk i s);
          (s2, more) = pump_round ids s1
      in (s2, wrote \<or> more))"

definition pump_order :: "relay \<Rightarrow> nat list" where
  "pump_order s =
     map (\<lambda>step. r_rotation s ! ((r_cursor s + step) mod length (r_rotation s)))
       [0..<length (r_rotation s)]"

text \<open>Frames a connection still has to send.\<close>

fun item_frames :: "pending_item \<Rightarrow> nat" where
  "item_frames Pending_end = 1"
| "item_frames (Pending_data w) = length (w_chunks w) - w_sent w"

definition frames_left :: "relay \<Rightarrow> nat \<Rightarrow> nat" where
  "frames_left s i =
     (case r_objects s i of None \<Rightarrow> 0 | Some c \<Rightarrow> sum_list (map item_frames (c_pending c)))"

definition work_left :: "relay \<Rightarrow> nat" where
  "work_left s = (\<Sum>i\<in>set (r_rotation s). frames_left s i)"

lemma writeOneChunk_frame [relay_frame, simp]:
  "r_keys (fst (writeOneChunk i s)) = r_keys s" "r_rotation (fst (writeOneChunk i s)) = r_rotation s"
  "r_cursor (fst (writeOneChunk i s)) = r_cursor s" "r_closed (fst (writeOneChunk i s)) = r_closed s"
  "r_next_write (fst (writeOneChunk i s)) = r_next_write s"
  "r_microtasks (fst (writeOneChunk i s)) = r_microtasks s"
  by (auto simp: writeOneChunk_def Let_def armStallWatch_def split_beta
      split: option.split list.split pending_item.split)

text \<open>How one turn of a connection can go.\<close>

lemma writeOneChunk_cases:
  obtains (idle) "fst (writeOneChunk i s) = s" "\<not> snd (writeOneChunk i s)"
    "\<And>c. r_objects s i = Some c \<Longrightarrow> sum_list (map item_frames (c_pending c)) = 0
       \<or> (\<exists>w rest. c_pending c = Pending_data w # rest \<and> length (w_chunks w) \<le> w_sent w)"
  | (end_sent) c rest where "r_objects s i = Some c" "c_pending c = Pending_end # rest"
      "writeOneChunk i s = (fst (send_data i End (upd i (\<lambda>c. c\<lparr>c_pending := rest\<rparr>) s)), True)"
  | (blocked) c w rest where "r_objects s i = Some c" "c_pending c = Pending_data w # rest"
      "w_sent w < length (w_chunks w)"
      "c_outstanding c + int (length (w_chunks w ! w_sent w)) > FRONT_CREDIT_BYTES"
      "writeOneChunk i s = (armStallWatch i s, False)"
  | (refused) c w rest where "r_objects s i = Some c" "c_pending c = Pending_data w # rest"
      "w_sent w < length (w_chunks w)" "snd (send_data i (Data (w_chunks w ! w_sent w)) s) = None"
      "writeOneChunk i s = (fst (send_data i (Data (w_chunks w ! w_sent w)) s), False)"
  | (written) c w rest q s1 where "r_objects s i = Some c" "c_pending c = Pending_data w # rest"
      "w_sent w < length (w_chunks w)"
      "c_outstanding c + int (length (w_chunks w ! w_sent w)) \<le> FRONT_CREDIT_BYTES"
      "send_data i (Data (w_chunks w ! w_sent w)) s = (s1, Some q)"
      "writeOneChunk i s = (upd i (\<lambda>c.
         let c1 = c\<lparr>c_unacked := c_unacked c @ [\<lparr>u_sequence = q, u_bytes = int (length (w_chunks w ! w_sent w))\<rparr>],
                    c_outstanding := c_outstanding c + int (length (w_chunks w ! w_sent w))\<rparr>
         in if Suc (w_sent w) = length (w_chunks w)
            then c1\<lparr>c_pending := rest, c_awaitingAck := c_awaitingAck c
                      @ [w\<lparr>w_sent := Suc (w_sent w), w_lastSequence := Some q\<rparr>]\<rparr>
            else c1\<lparr>c_pending := Pending_data (w\<lparr>w_sent := Suc (w_sent w)\<rparr>) # rest\<rparr>) s1, True)"
proof (cases "r_objects s i")
  case None
  then show ?thesis by (intro idle) (simp_all add: writeOneChunk_def)
next
  case (Some c)
  show ?thesis
  proof (cases "c_pending c")
    case Nil
    with Some show ?thesis by (intro idle) (simp_all add: writeOneChunk_def)
  next
    case (Cons item rest)
    show ?thesis
    proof (cases item)
      case Pending_end
      with Some Cons show ?thesis by (intro end_sent) (simp_all add: writeOneChunk_def)
    next
      case (Pending_data w)
      show ?thesis
      proof (cases "w_sent w < length (w_chunks w)")
        case False
        with Some Cons Pending_data show ?thesis by (intro idle) (simp_all add: writeOneChunk_def)
      next
        case sent: True
        let ?chunk = "w_chunks w ! w_sent w"
        show ?thesis
        proof (cases "c_outstanding c + int (length ?chunk) > FRONT_CREDIT_BYTES")
          case True
          with Some Cons Pending_data sent show ?thesis
            by (intro blocked) (simp_all add: writeOneChunk_def)
        next
          case room: False
          show ?thesis
          proof -
            obtain s1 q where "send_data i (Data ?chunk) s = (s1, q)" by (metis prod.exhaust)
            with Some Cons Pending_data sent room show ?thesis
              by (cases q) (simp_all add: refused written writeOneChunk_def Let_def)
          qed
        qed
      qed
    qed
  qed
qed

lemma writeOneChunk_frames:
  "frames_left (fst (writeOneChunk i s)) j
     + (if j = i \<and> snd (writeOneChunk i s) then 1 else 0) = frames_left s j"
proof (cases rule: writeOneChunk_cases [of i s])
  case idle
  then show ?thesis by simp
next
  case (end_sent c rest)
  then show ?thesis by (simp add: frames_left_def)
next
  case (blocked c w rest)
  then show ?thesis by (auto simp: frames_left_def armStallWatch_def split: option.split)
next
  case (refused c w rest)
  then show ?thesis by (simp add: frames_left_def)
next
  case (written c w rest q s1)
  have o: "r_objects s1 = r_objects s" using send_data_frame(2) [of i _ s] written(5) by (metis fst_conv)
  show ?thesis using written(1-3) by (auto simp: frames_left_def written(6) o Let_def)
qed

lemma pump_round_frame [relay_frame, simp]:
  "r_keys (fst (pump_round ids s)) = r_keys s" "r_rotation (fst (pump_round ids s)) = r_rotation s"
  "r_cursor (fst (pump_round ids s)) = r_cursor s" "r_closed (fst (pump_round ids s)) = r_closed s"
  "r_next_write (fst (pump_round ids s)) = r_next_write s"
  "r_microtasks (fst (pump_round ids s)) = r_microtasks s"
  by (induction ids arbitrary: s) (simp_all add: Let_def split_beta split: option.split)

text \<open>A round starts at the cursor and visits everybody.\<close>

lemma pump_order_rotate: "pump_order s = rotate (r_cursor s) (r_rotation s)"
  by (rule nth_equalityI) (simp_all add: pump_order_def nth_rotate)

lemma pump_order_set [simp]: "set (pump_order s) = set (r_rotation s)"
  by (simp add: pump_order_rotate)

lemma frames_left_mono: "frames_left (fst (writeOneChunk i s)) j \<le> frames_left s j"
  using writeOneChunk_frames [of i s j] by simp

lemma writeOneChunk_work:
  "work_left (fst (writeOneChunk i s)) \<le> work_left s"
  "snd (writeOneChunk i s) \<Longrightarrow> i \<in> set (r_rotation s) \<Longrightarrow> work_left (fst (writeOneChunk i s)) < work_left s"
proof -
  show "work_left (fst (writeOneChunk i s)) \<le> work_left s"
    unfolding work_left_def writeOneChunk_frame(2) by (intro sum_mono frames_left_mono)
  assume "snd (writeOneChunk i s)" "i \<in> set (r_rotation s)"
  moreover from this have "frames_left (fst (writeOneChunk i s)) i < frames_left s i"
    using writeOneChunk_frames [of i s i] by simp
  ultimately show "work_left (fst (writeOneChunk i s)) < work_left s"
    unfolding work_left_def writeOneChunk_frame(2)
    by (intro sum_strict_mono_ex1) (auto intro: frames_left_mono)
qed

lemma pump_round_work:
  assumes "set ids \<subseteq> set (r_rotation s)"
  shows "work_left (fst (pump_round ids s)) + (if snd (pump_round ids s) then 1 else 0) \<le> work_left s"
  using assms
proof (induction ids arbitrary: s)
  case (Cons i ids)
  define r where "r = (case lookup i s of None \<Rightarrow> (s, False)
      | Some c \<Rightarrow> if c_destroyed c then (s, False) else writeOneChunk i s)"
  have rot: "r_rotation (fst r) = r_rotation s" by (simp add: r_def split: option.split)
  have w: "work_left (fst r) + (if snd r then 1 else 0) \<le> work_left s"
    using writeOneChunk_work [of i s] Cons.prems by (auto simp: r_def split: option.split)
  have "work_left (fst (pump_round ids (fst r))) + (if snd (pump_round ids (fst r)) then 1 else 0)
      \<le> work_left (fst r)"
    by (rule Cons.IH) (use Cons.prems rot in simp)
  with w show ?case by (auto simp: r_def [symmetric] split_beta split: if_splits)
qed simp

lemma work_left_cursor [simp]: "work_left (s\<lparr>r_cursor := n\<rparr>) = work_left s"
  by (simp add: work_left_def frames_left_def)

text \<open>Rounds until nobody can write. Every round but the last sends a frame.\<close>

function pump :: "relay \<Rightarrow> relay" where
  "pump s =
     (if r_closed s then s
      else
        let (s1, wrote) = pump_round (pump_order s) s;
            n = length (r_rotation s);
            s2 = s1\<lparr>r_cursor := (if n = 0 then 0 else (r_cursor s + 1) mod n)\<rparr>
        in if wrote then pump s2 else s2)"
  by pat_completeness auto

termination
proof (relation "measure work_left")
  fix s r wrote n s2 s1
  assume "r = pump_round (pump_order s) s" "(s1, wrote) = r" wrote
    "s2 = s1\<lparr>r_cursor := (if n = 0 then 0 else (r_cursor s + 1) mod n)\<rparr>"
  then show "(s2, s) \<in> measure work_left"
    using pump_round_work [of "pump_order s" s] by (metis (full_types) pump_order_set order_refl fst_conv in_measure
        less_eq_Suc_le snd_conv Suc_eq_plus1 work_left_cursor)
qed simp

declare pump.simps [simp del]

text \<open>Whatever every turn keeps, the pump keeps.\<close>

lemma pump_round_keeps:
  assumes "\<And>i s c. P s \<Longrightarrow> lookup i s = Some c \<Longrightarrow> \<not> c_destroyed c \<Longrightarrow> P (fst (writeOneChunk i s))"
  shows "P s \<Longrightarrow> P (fst (pump_round ids s))"
proof (induction ids arbitrary: s)
  case (Cons i ids)
  let ?r = "case lookup i s of None \<Rightarrow> (s, False)
      | Some c \<Rightarrow> if c_destroyed c then (s, False) else writeOneChunk i s"
  have "P (fst ?r)" using Cons.prems assms by (auto split: option.split)
  from Cons.IH [OF this] show ?case by (simp add: split_beta Let_def)
qed simp

lemma pump_keeps:
  assumes "\<And>i s c. P s \<Longrightarrow> lookup i s = Some c \<Longrightarrow> \<not> c_destroyed c \<Longrightarrow> P (fst (writeOneChunk i s))"
    and "\<And>s n. P s \<Longrightarrow> P (s\<lparr>r_cursor := n\<rparr>)"
  shows "P s \<Longrightarrow> P (pump s)"
proof (induction s rule: pump.induct)
  case (1 s)
  obtain s1 wrote where r: "pump_round (pump_order s) s = (s1, wrote)" by (metis prod.exhaust)
  have "P s1" using pump_round_keeps [where P = P and ids = "pump_order s", OF assms(1) 1(2)]
    by (simp add: r)
  then have "P (s1\<lparr>r_cursor := n\<rparr>)" for n by (rule assms(2))
  with 1 show ?case by (subst pump.simps) (simp add: Let_def r)
qed

section \<open>The consumer's side\<close>

text \<open>The line of a write, cut into frames.\<close>

function chunks_of :: "bytes \<Rightarrow> bytes list" where
  "chunks_of encoded =
     (if length encoded = 0 then []
      else take FRONT_CHUNK_BYTES encoded # chunks_of (drop FRONT_CHUNK_BYTES encoded))"
  by pat_completeness auto
termination
  by (relation "measure length") (auto simp: FRONT_CHUNK_BYTES_def PIPE_FRONT_DATA_PAYLOAD_MAX_BYTES_def)

declare chunks_of.simps [simp del]

definition grantCredit :: "nat \<Rightarrow> int \<Rightarrow> relay \<Rightarrow> relay" where
  "grantCredit i n s =
     (case r_objects s i of
        None \<Rightarrow> s
      | Some c \<Rightarrow>
          let room = FRONT_CREDIT_BYTES - c_grantedCredit c; grant = min n room
          in if grant \<le> 0 then s
             else send_control i (Credit (JsInt grant))
                    (upd i (\<lambda>c. c\<lparr>c_grantedCredit := c_grantedCredit c + grant\<rparr>) s))"

definition replenish :: "nat \<Rightarrow> int \<Rightarrow> relay \<Rightarrow> relay" where
  "replenish i consumed s =
     (case r_objects s i of
        None \<Rightarrow> s
      | Some c \<Rightarrow> if c_paused c \<or> c_destroyed c then s else grantCredit i consumed s)"

definition raiseClose :: "nat \<Rightarrow> relay \<Rightarrow> relay" where
  "raiseClose i s =
     (case r_objects s i of
        None \<Rightarrow> s
      | Some c \<Rightarrow>
          if c_closeRaised c then s
          else
            let s1 = clearStallWatch i (upd i (\<lambda>c. c\<lparr>c_closeRaised := True\<rparr>) s);
                s2 = upd i (\<lambda>c. c\<lparr>t_destroyed := True\<rparr>) s1
            in s2\<lparr>r_microtasks := r_microtasks s2 @ [Close_edge i]\<rparr>)"

definition finishClose :: "nat \<Rightarrow> relay \<Rightarrow> relay" where
  "finishClose i s =
     (let s1 = upd i (\<lambda>c. c\<lparr>c_pendingClose := None\<rparr>) s
      in raiseClose i (s1\<lparr>r_keys := filter (\<lambda>k. k \<noteq> i) (r_keys s1),
                          r_rotation := filter (\<lambda>k. k \<noteq> i) (r_rotation s1), r_cursor := 0\<rparr>))"

definition is_write :: "nat \<Rightarrow> pending_item \<Rightarrow> bool" where
  "is_write k item = (case item of Pending_data w \<Rightarrow> w_id w = k | Pending_end \<Rightarrow> False)"

text \<open>
  \<open>write.sent === chunks.length\<close> after the pump: the write is the one with this number, still
  pending, or gone from the queue because its last chunk went out.
\<close>

definition write_complete :: "nat \<Rightarrow> nat \<Rightarrow> relay \<Rightarrow> bool" where
  "write_complete i k s =
     (case r_objects s i of
        None \<Rightarrow> True
      | Some c \<Rightarrow>
          (case find (is_write k) (c_pending c) of
             Some (Pending_data w) \<Rightarrow> w_sent w = length (w_chunks w)
           | _ \<Rightarrow> True))"

definition relay_write :: "nat \<Rightarrow> utf16 \<Rightarrow> bool \<Rightarrow> relay \<Rightarrow> relay \<times> bool" where
  "relay_write i line callback s =
     (case live i s of
        (s1, None) \<Rightarrow> (s1, False)
      | (s1, Some c) \<Rightarrow>
          if c_writeEnded c \<or> c_destroyed c
          then (upd i (\<lambda>c. c\<lparr>t_droppedFrames := t_droppedFrames c + 1\<rparr>) s1, False)
          else
            let encoded = utf8_encode line; k = r_next_write s1;
                s2 = s1\<lparr>r_next_write := k + 1\<rparr>
            in if length encoded = 0
               then ((if callback then s2\<lparr>r_microtasks := r_microtasks s2 @ [Write_callback k]\<rparr> else s2), True)
               else
                 let chunks = chunks_of encoded;
                     w = \<lparr>w_id = k, w_chunks = chunks, w_sent = 0, w_lastSequence = None,
                          w_callback = callback\<rparr>;
                     s3 = upd i (\<lambda>c. c\<lparr>c_pending := c_pending c @ [Pending_data w]\<rparr>) s2
                 in if length (c_pending c) + 1 > FRONT_MAX_PENDING_WRITES
                    then (emit (Fatal Unexpected_frame) s3, False)
                    else
                      let s4 = pump s3; accepted = write_complete i k s4
                      in (if accepted then s4 else upd i (\<lambda>c. c\<lparr>c_blocking := Some k\<rparr>) s4, accepted))"

definition relay_end :: "nat \<Rightarrow> relay \<Rightarrow> relay" where
  "relay_end i s =
     (case live i s of
        (s1, None) \<Rightarrow> s1
      | (s1, Some c) \<Rightarrow>
          if c_writeEnded c then s1
          else pump (upd i (\<lambda>c. c\<lparr>c_writeEnded := True, t_writableEnded := True,
                                  c_pending := c_pending c @ [Pending_end]\<rparr>) s1))"

definition relay_destroy :: "nat \<Rightarrow> relay \<Rightarrow> relay" where
  "relay_destroy i s =
     (case lookup i s of
        None \<Rightarrow> s
      | Some c \<Rightarrow>
          if c_destroyed c then s
          else raiseClose i (send_control i Close
                 (upd i (\<lambda>c. c\<lparr>c_destroyed := True, c_pending := [], c_awaitingAck := [],
                               c_unacked := [], c_outstanding := 0, c_blocking := None\<rparr>) s)))"

definition relay_pause :: "nat \<Rightarrow> relay \<Rightarrow> relay" where
  "relay_pause i s =
     (case live i s of
        (s1, None) \<Rightarrow> s1
      | (s1, Some c) \<Rightarrow>
          if c_paused c then s1
          else send_control i Pause (upd i (\<lambda>c. c\<lparr>c_paused := True\<rparr>) s1))"

text \<open>\<open>resume\<close> up to its loop; \<open>True\<close> where the loop is entered.\<close>

definition resume_begin :: "nat \<Rightarrow> relay \<Rightarrow> relay \<times> bool" where
  "resume_begin i s =
     (case live i s of
        (s1, None) \<Rightarrow> (s1, False)
      | (s1, Some c) \<Rightarrow>
          if \<not> c_paused c then (s1, False)
          else (send_control i Resume (upd i (\<lambda>c. c\<lparr>c_paused := False\<rparr>) s1), True))"

text \<open>\<open>closeAll\<close>: every connection of the map, in insertion order.\<close>

definition closeAll :: "relay \<Rightarrow> relay" where
  "closeAll s =
     (if r_closed s then s
      else
        let open_ids = r_keys s;
            s1 = s\<lparr>r_closed := True, r_keys := [], r_rotation := [], r_cursor := 0\<rparr>
        in fold (\<lambda>i s. raiseClose i (upd i (\<lambda>c. c\<lparr>c_destroyed := True, c_pending := [],
                   c_awaitingAck := [], c_unacked := [], c_blocking := None\<rparr>) s)) open_ids s1)"

section \<open>Frames that call no consumer\<close>

definition handlePeerClosed :: "nat \<Rightarrow> nat \<Rightarrow> relay \<Rightarrow> relay" where
  "handlePeerClosed i through s =
     (case lookup i s of
        None \<Rightarrow> s
      | Some c \<Rightarrow>
          let s1 = upd i (\<lambda>c. c\<lparr>c_pendingClose := Some through\<rparr>) s
          in if dataUpDelivered (r_planes s1) \<ge> int through then finishClose i s1 else s1)"

definition afterDataBatch :: "relay \<Rightarrow> relay" where
  "afterDataBatch s =
     (if r_closed s then s
      else
        let delivered = dataUpDelivered (r_planes s)
        in fold (\<lambda>i s.
             case r_objects s i of
               None \<Rightarrow> s
             | Some c \<Rightarrow>
                 (case c_pendingClose c of
                    None \<Rightarrow> s
                  | Some through \<Rightarrow> if delivered \<ge> int through then finishClose i s else s))
             (r_keys s) s)"

text \<open>The bytes a connection holds back, for the stall warning.\<close>

definition unsentBytes :: "relay_connection \<Rightarrow> nat" where
  "unsentBytes c =
     sum_list (map (\<lambda>item. case item of Pending_end \<Rightarrow> 0
        | Pending_data w \<Rightarrow> sum_list (map length (drop (w_sent w) (w_chunks w)))) (c_pending c))"

section \<open>What the pump does\<close>

text \<open>A connection's outgoing stream: its bytes, and \<open>None\<close> for the end marker.\<close>

fun item_stream :: "pending_item \<Rightarrow> byte option list" where
  "item_stream Pending_end = [None]"
| "item_stream (Pending_data w) = map Some (concat (drop (w_sent w) (w_chunks w)))"

definition unsent_stream :: "relay \<Rightarrow> nat \<Rightarrow> byte option list" where
  "unsent_stream s i =
     (case r_objects s i of None \<Rightarrow> [] | Some c \<Rightarrow> concat (map item_stream (c_pending c)))"

fun event_stream :: "nat \<Rightarrow> relay_event \<Rightarrow> byte option list" where
  "event_stream i (Sent_data j q body) =
     (if j = i then (case body of Data p \<Rightarrow> map Some p | End \<Rightarrow> [None] | _ \<Rightarrow> []) else [])"
| "event_stream i _ = []"

definition sent_stream :: "relay \<Rightarrow> nat \<Rightarrow> byte option list" where
  "sent_stream s i = concat (map (event_stream i) (r_trace s))"

lemma send_data_sent:
  assumes "send_data i b s = (s1, Some q)"
  shows "sent_stream s1 j = sent_stream s j @ event_stream j (Sent_data i q b)"
    "r_planes s1 = (r_planes s)\<lparr>fp_dataDownBytes := fp_dataDownBytes (r_planes s1), fp_dataDownSequence := q + 1\<rparr>"
    "q = fp_dataDownSequence (r_planes s)" "r_raised s1 = r_raised s"
    "fp_dataDownSequence (r_planes s1) = Suc (fp_dataDownSequence (r_planes s))"
  using assms
  by (auto simp: send_data_def sent_stream_def writeData_def Let_def result_simps
      split: sum.splits prod.splits option.splits if_splits)

lemma send_data_unsent:
  "snd (send_data i b s) = None \<Longrightarrow> r_trace (fst (send_data i b s)) = r_trace s
     \<and> r_planes (fst (send_data i b s)) = r_planes s"
  by (auto simp: send_data_def split: sum.splits prod.splits option.splits)

text \<open>A data plane that takes frames of this connection: the encoder accepts them.\<close>

definition plane_ready :: "front_planes \<Rightarrow> bool" where
  "plane_ready p =
     (\<not> fp_disposed p \<and> \<not> fp_dataDownDestroyed p
      \<and> fp_generation p \<noteq> 0 \<and> fp_generation p < 256 ^ 4)"

definition valid_id :: "nat \<Rightarrow> bool" where
  "valid_id i = (0 < i \<and> i < 256 ^ 4)"

lemma send_data_ready:
  assumes "plane_ready (r_planes s)" "valid_id i" "0 < fp_dataDownSequence (r_planes s)"
    "fp_dataDownSequence (r_planes s) < PIPE_FRONT_SEQUENCE_EXHAUSTED"
    "b = End \<or> (\<exists>p. b = Data p \<and> p \<noteq> [] \<and> length p \<le> FRONT_CHUNK_BYTES)"
  shows "\<exists>s1. send_data i b s = (s1, Some (fp_dataDownSequence (r_planes s)))"
proof -
  have "\<exists>bs. planes_encode (r_planes s) DataDown i b (fp_dataDownSequence (r_planes s)) = Inr bs"
    using assms
    by (auto simp: planes_encode_def encodePipeFrontFrame_def Let_def planeCarries_def frame_type_tables
        requireU32_def plane_ready_def valid_id_def CONNECTION_MUST_BE_ZERO_def
        pipeFrontPayloadBound_def FRONT_CHUNK_BYTES_def)
  then show ?thesis using assms(1) by (auto simp: send_data_def writeData_def plane_ready_def Let_def)
qed

definition wf_write :: "pending_write \<Rightarrow> bool" where
  "wf_write w =
     (w_sent w < length (w_chunks w)
      \<and> (\<forall>p\<in>set (w_chunks w). p \<noteq> [] \<and> length p \<le> FRONT_CHUNK_BYTES))"

definition wf_pending :: "relay_connection \<Rightarrow> bool" where
  "wf_pending c = (\<forall>w. Pending_data w \<in> set (c_pending c) \<longrightarrow> wf_write w)"

text \<open>A relay whose front is there, with sequences left for everything that is queued.\<close>

definition relay_ready :: "relay \<Rightarrow> bool" where
  "relay_ready s =
     (plane_ready (r_planes s) \<and> (\<forall>i\<in>set (r_rotation s). valid_id i) \<and> set (r_keys s) = set (r_rotation s)
      \<and> 0 < fp_dataDownSequence (r_planes s)
      \<and> fp_dataDownSequence (r_planes s) + work_left s \<le> PIPE_FRONT_SEQUENCE_EXHAUSTED
      \<and> (\<forall>i c. r_objects s i = Some c \<longrightarrow> wf_pending c))"

lemma relay_readyD:
  assumes "relay_ready s" "r_objects s i = Some c" "c_pending c = item # rest"
    "i \<in> set (r_rotation s)" "\<And>w. item = Pending_data w \<Longrightarrow> w_sent w < length (w_chunks w)"
  shows "fp_dataDownSequence (r_planes s) < PIPE_FRONT_SEQUENCE_EXHAUSTED"
proof -
  have "frames_left s i \<le> work_left s"
    unfolding work_left_def by (rule member_le_sum) (use assms in auto)
  moreover have "0 < frames_left s i"
    using assms(2,3,5) by (cases item) (auto simp: frames_left_def)
  ultimately show ?thesis using assms(1) by (simp add: relay_ready_def)
qed

text \<open>A connection the pump cannot move: nothing queued, or no room in the window.\<close>

definition stuck :: "relay_connection \<Rightarrow> bool" where
  "stuck c =
     (case c_pending c of
        [] \<Rightarrow> True
      | Pending_end # _ \<Rightarrow> False
      | Pending_data w # _ \<Rightarrow>
          c_outstanding c + int (length (w_chunks w ! w_sent w)) > FRONT_CREDIT_BYTES)"

lemma drop_nth: "k < length xs \<Longrightarrow> drop k xs = xs ! k # drop (Suc k) xs"
  by (rule Cons_nth_drop_Suc [symmetric])

text \<open>One turn on a ready relay: a frame goes out unless the connection is stuck.\<close>

lemma writeOneChunk_ready:
  assumes ready: "relay_ready s" and i: "i \<in> set (r_rotation s)" and c: "r_objects s i = Some c"
  shows "(if stuck c then writeOneChunk i s = (s, False) \<or> writeOneChunk i s = (armStallWatch i s, False)
          else snd (writeOneChunk i s)
            \<and> fp_dataDownSequence (r_planes (fst (writeOneChunk i s))) = Suc (fp_dataDownSequence (r_planes s)))
    \<and> sent_stream (fst (writeOneChunk i s)) j @ unsent_stream (fst (writeOneChunk i s)) j
        = sent_stream s j @ unsent_stream s j
    \<and> r_raised (fst (writeOneChunk i s)) = r_raised s"
proof -
  have valid: "valid_id i" and plane: "plane_ready (r_planes s)" "0 < fp_dataDownSequence (r_planes s)"
    and wf: "wf_pending c"
    using ready i c by (auto simp: relay_ready_def)
  have wfw: "wf_write w" if "c_pending c = Pending_data w # rest" for w rest
    using wf that by (simp add: wf_pending_def)
  show ?thesis
  proof (cases rule: writeOneChunk_cases [of i s])
    case idle
    have "c_pending c = []"
    proof (cases "c_pending c")
      case (Cons item rest)
      then show ?thesis using idle(3) [OF c] wfw by (cases item) (auto simp: wf_write_def)
    qed simp
    moreover have "writeOneChunk i s = (s, False)" using idle by (metis prod.collapse)
    ultimately show ?thesis by (simp add: stuck_def)
  next
    case (end_sent c' rest)
    let ?s = "upd i (\<lambda>c. c\<lparr>c_pending := rest\<rparr>) s"
    have "fp_dataDownSequence (r_planes s) < PIPE_FRONT_SEQUENCE_EXHAUSTED"
      by (rule relay_readyD [OF ready c _ i]) (use end_sent c in auto)
    then obtain s1 where s1: "send_data i End ?s = (s1, Some (fp_dataDownSequence (r_planes s)))"
      using send_data_ready [of ?s i End] plane valid by auto
    have o: "r_objects s1 = r_objects ?s" using send_data_frame(2) [of i End ?s] by (simp add: s1)
    have w: "writeOneChunk i s = (s1, True)" using end_sent(3) s1 by simp
    have p: "c_pending c = Pending_end # rest" using end_sent c by simp
    have "sent_stream s1 j @ unsent_stream s1 j = sent_stream s j @ unsent_stream s j"
      using send_data_sent(1) [OF s1, of j] c p
      by (cases "i = j") (simp_all add: unsent_stream_def o sent_stream_def)
    moreover have "fp_dataDownSequence (r_planes s1) = Suc (fp_dataDownSequence (r_planes s))"
      using send_data_sent(5) [OF s1] by simp
    ultimately show ?thesis using p send_data_sent(4) [OF s1] by (simp add: w stuck_def)
  next
    case (blocked c' w rest)
    then show ?thesis using c
      by (simp add: stuck_def armStallWatch_def unsent_stream_def sent_stream_def split: option.split)
  next
    case (refused c' w rest)
    have "fp_dataDownSequence (r_planes s) < PIPE_FRONT_SEQUENCE_EXHAUSTED"
      by (rule relay_readyD [OF ready c _ i]) (use refused c in auto)
    moreover have "w_chunks w ! w_sent w \<in> set (w_chunks w)" using refused by simp
    ultimately have False
      using send_data_ready [OF plane(1) valid plane(2), of "Data (w_chunks w ! w_sent w)"] refused c wfw [of w rest]
      by (auto simp: wf_write_def)
    then show ?thesis ..
  next
    case (written c' w rest q s1)
    have o: "r_objects s1 = r_objects s" using send_data_frame(2) [of i _ s] written(5) by (metis fst_conv)
    note sent = send_data_sent(1,3-5) [OF written(5)]
    have split: "concat (drop (w_sent w) (w_chunks w))
        = (w_chunks w ! w_sent w) @ concat (drop (Suc (w_sent w)) (w_chunks w))"
      using written(3) by (simp add: drop_nth)
    show ?thesis
      using written c sent split
      by (cases "i = j") (auto simp: stuck_def o unsent_stream_def Let_def sent_stream_def)
  qed
qed

lemma send_data_planes:
  "plane_ready (r_planes (fst (send_data i b s))) = plane_ready (r_planes s)"
  by (auto simp: send_data_def writeData_def Let_def plane_ready_def result_simps
      split: sum.split prod.split option.split if_splits)

lemma writeOneChunk_plane_ready:
  "plane_ready (r_planes (fst (writeOneChunk i s))) = plane_ready (r_planes s)"
proof (cases rule: writeOneChunk_cases [of i s])
  case (written c w rest q s1)
  then show ?thesis using send_data_planes [of i "Data (w_chunks w ! w_sent w)" s] by simp
qed (simp_all add: send_data_planes armStallWatch_def)

lemma writeOneChunk_wf:
  assumes "\<And>j c. r_objects s j = Some c \<Longrightarrow> wf_pending c" "r_objects (fst (writeOneChunk i s)) j = Some c"
  shows "wf_pending c"
proof (cases rule: writeOneChunk_cases [of i s])
  case (end_sent c' rest)
  then show ?thesis using assms by (fastforce simp: wf_pending_def split: if_splits)
next
  case (blocked c' w rest)
  then show ?thesis using assms by (fastforce simp: wf_pending_def armStallWatch_def split: if_splits)
next
  case (written c' w rest q s1)
  have o: "r_objects s1 = r_objects s" using send_data_frame(2) [of i _ s] written(5) by (metis fst_conv)
  have wf: "wf_pending c'" using assms(1) written by simp
  show ?thesis
  proof (cases "j = i")
    case True
    have ww: "wf_write w" and rest: "\<And>v. Pending_data v \<in> set rest \<Longrightarrow> wf_write v"
      using wf written(2) by (simp_all add: wf_pending_def)
    let ?w = "w\<lparr>w_sent := Suc (w_sent w)\<rparr>"
    have "c_pending c = (if Suc (w_sent w) = length (w_chunks w) then rest else Pending_data ?w # rest)"
      using assms(2) True written(1) by (auto simp: written(6) o Let_def)
    moreover have "wf_write ?w" if "Suc (w_sent w) \<noteq> length (w_chunks w)"
      using ww that by (simp add: wf_write_def)
    ultimately show ?thesis using rest by (auto simp: wf_pending_def split: if_splits)
  next
    case False
    with assms written(6) o show ?thesis by simp
  qed
qed (use assms in simp_all)

lemma writeOneChunk_keeps_ready:
  assumes ready: "relay_ready s" and i: "i \<in> set (r_rotation s)" and c: "r_objects s i = Some c"
  shows "relay_ready (fst (writeOneChunk i s))"
proof -
  note step = writeOneChunk_ready [OF ready i c]
  have q: "0 < fp_dataDownSequence (r_planes (fst (writeOneChunk i s)))
    \<and> fp_dataDownSequence (r_planes (fst (writeOneChunk i s))) + work_left (fst (writeOneChunk i s))
       \<le> fp_dataDownSequence (r_planes s) + work_left s"
  proof (cases "stuck c")
    case True
    have "writeOneChunk i s = (s, False) \<or> writeOneChunk i s = (armStallWatch i s, False)"
      using step [of 0] True by simp
    then have "r_planes (fst (writeOneChunk i s)) = r_planes s" by (auto simp: armStallWatch_def)
    then show ?thesis using writeOneChunk_work(1) [of i s] ready by (simp add: relay_ready_def)
  next
    case False
    then show ?thesis using step writeOneChunk_work(2) [OF _ i] by auto
  qed
  show ?thesis unfolding relay_ready_def writeOneChunk_plane_ready writeOneChunk_frame
    using ready q writeOneChunk_wf [of s i] unfolding relay_ready_def by fastforce
qed

definition same_but_timers :: "relay \<Rightarrow> relay \<Rightarrow> bool" where
  "same_but_timers s t =
     (\<forall>j. map_option (\<lambda>c. c\<lparr>c_stallTimer := False\<rparr>) (r_objects s j)
        = map_option (\<lambda>c. c\<lparr>c_stallTimer := False\<rparr>) (r_objects t j))"

lemma same_but_timersD:
  assumes "same_but_timers s t" "r_objects t j = Some c"
  obtains d where "r_objects s j = Some d" "c_destroyed d = c_destroyed c" "stuck d = stuck c"
proof -
  have "map_option (\<lambda>c. c\<lparr>c_stallTimer := False\<rparr>) (r_objects s j) = Some (c\<lparr>c_stallTimer := False\<rparr>)"
    using assms unfolding same_but_timers_def by simp
  then obtain d where d: "r_objects s j = Some d" "d\<lparr>c_stallTimer := False\<rparr> = c\<lparr>c_stallTimer := False\<rparr>"
    by auto
  then have "c_destroyed d = c_destroyed c" "c_pending d = c_pending c" "c_outstanding d = c_outstanding c"
    by (metis relay_connection.select_convs relay_connection.surjective relay_connection.update_convs(13))+
  moreover from this have "stuck d = stuck c" unfolding stuck_def by (simp only:)
  ultimately show thesis using d(1) that by blast
qed

lemma same_but_timers_refl: "same_but_timers s s"
  by (simp add: same_but_timers_def)

lemma same_but_timers_trans: "same_but_timers s t \<Longrightarrow> same_but_timers t u \<Longrightarrow> same_but_timers s u"
  by (simp add: same_but_timers_def)

lemma same_but_timers_arm: "same_but_timers s (armStallWatch i s)"
  by (cases "r_objects s i") (auto simp: same_but_timers_def armStallWatch_def)

text \<open>A round in which nobody wrote found everybody stuck.\<close>

lemma pump_round_idle:
  assumes "relay_ready s" "set ids \<subseteq> set (r_rotation s)" "\<not> snd (pump_round ids s)"
  shows "same_but_timers s (fst (pump_round ids s))
    \<and> (\<forall>i\<in>set ids. \<forall>c. r_objects s i = Some c \<longrightarrow> c_destroyed c \<or> stuck c)"
  using assms
proof (induction ids arbitrary: s)
  case Nil
  then show ?case by (simp add: same_but_timers_refl)
next
  case (Cons i ids)
  define r where "r = (case lookup i s of None \<Rightarrow> (s, False)
      | Some c \<Rightarrow> if c_destroyed c then (s, False) else writeOneChunk i s)"
  have i: "i \<in> set (r_rotation s)" and keys: "i \<in> set (r_keys s)"
    using Cons.prems by (auto simp: relay_ready_def)
  have idle: "\<not> snd r" "\<not> snd (pump_round ids (fst r))"
    using Cons.prems(3) by (simp_all add: r_def [symmetric] split_beta)
  have step: "(fst r = s \<or> fst r = armStallWatch i s)
      \<and> (\<forall>c. r_objects s i = Some c \<longrightarrow> c_destroyed c \<or> stuck c)"
  proof (cases "r_objects s i")
    case None
    then show ?thesis by (simp add: r_def lookup_def)
  next
    case (Some c)
    show ?thesis
    proof (cases "c_destroyed c")
      case True
      with Some show ?thesis by (simp add: r_def lookup_def keys)
    next
      case False
      with Some have "r = writeOneChunk i s" by (simp add: r_def lookup_def keys)
      with idle(1) writeOneChunk_ready [OF Cons.prems(1) i Some, of 0] Some show ?thesis
        by (auto split: if_splits)
    qed
  qed
  have same: "same_but_timers s (fst r)"
    using step same_but_timers_refl same_but_timers_arm by auto
  have "r_rotation (fst r) = r_rotation s" using step by (auto simp: armStallWatch_def)
  moreover have "relay_ready (fst r)"
  proof (cases "fst r = s")
    case False
    then have "r = writeOneChunk i s" "\<exists>c. r_objects s i = Some c"
      by (auto simp: r_def lookup_def split: option.splits if_splits)
    then show ?thesis using writeOneChunk_keeps_ready [OF Cons.prems(1) i] by auto
  qed (use Cons.prems in simp)
  ultimately have ih: "same_but_timers (fst r) (fst (pump_round ids (fst r)))"
    "\<forall>j\<in>set ids. \<forall>c. r_objects (fst r) j = Some c \<longrightarrow> c_destroyed c \<or> stuck c"
    using Cons.IH [of "fst r"] Cons.prems(2) idle(2) by auto
  have "c_destroyed c \<or> stuck c" if "j \<in> set ids" "r_objects s j = Some c" for j c
  proof -
    have "same_but_timers (fst r) s" using same by (simp add: same_but_timers_def)
    from same_but_timersD [OF this that(2)] show ?thesis using ih(2) that(1) by metis
  qed
  with step same ih(1) show ?case
    by (auto simp: r_def [symmetric] split_beta intro: same_but_timers_trans)
qed

lemma relay_ready_cursor: "relay_ready s \<Longrightarrow> relay_ready (s\<lparr>r_cursor := n\<rparr>)"
  by (simp add: relay_ready_def)

lemma pump_stuck:
  "relay_ready s \<Longrightarrow> \<not> r_closed s \<Longrightarrow> i \<in> set (r_rotation (pump s)) \<Longrightarrow> r_objects (pump s) i = Some c
   \<Longrightarrow> c_destroyed c \<or> stuck c"
proof (induction s rule: pump.induct)
  case (1 s)
  obtain s1 wrote where r: "pump_round (pump_order s) s = (s1, wrote)" by (metis prod.exhaust)
  define s2 where "s2 = s1\<lparr>r_cursor := if length (r_rotation s) = 0 then 0
      else (r_cursor s + 1) mod length (r_rotation s)\<rparr>"
  have pump: "pump s = (if wrote then pump s2 else s2)"
    using 1(3) by (subst pump.simps) (simp add: Let_def r s2_def)
  have "relay_ready s1"
  proof -
    have "relay_ready (fst (pump_round (pump_order s) s))"
    proof (rule pump_round_keeps [where P = relay_ready, OF _ 1(2)])
      fix j u d
      assume "relay_ready u" "lookup j u = Some d"
      then show "relay_ready (fst (writeOneChunk j u))"
        by (intro writeOneChunk_keeps_ready) (auto simp: lookup_def relay_ready_def split: if_splits)
    qed
    then show ?thesis by (simp add: r)
  qed
  then have ready: "relay_ready s2" by (simp add: s2_def relay_ready_cursor)
  have frame: "r_closed s1 = r_closed s" "r_rotation s1 = r_rotation s"
    using pump_round_frame [of "pump_order s" s] by (simp_all add: r)
  show ?case
  proof (cases wrote)
    case True
    show ?thesis
      by (rule "1.IH" [OF 1(3) r [symmetric] refl refl s2_def True ready])
         (use 1(3-5) pump True frame in \<open>simp_all add: s2_def\<close>)
  next
    case False
    have "same_but_timers s1 s" and idle: "\<forall>i\<in>set (r_rotation s). \<forall>c. r_objects s i = Some c \<longrightarrow> c_destroyed c \<or> stuck c"
      using pump_round_idle [OF 1(2), of "pump_order s"] False by (auto simp: r same_but_timers_def)
    then have "same_but_timers s s2" by (simp add: same_but_timers_def s2_def)
    moreover have "r_objects s2 i = Some c" "i \<in> set (r_rotation s)"
      using 1(4,5) pump False frame by (simp_all add: s2_def)
    ultimately show ?thesis using idle by (metis same_but_timersD)
  qed
qed

lemma pump_ready:
  assumes "relay_ready s"
  shows "relay_ready (pump s) \<and> r_raised (pump s) = r_raised s
    \<and> sent_stream (pump s) j @ unsent_stream (pump s) j = sent_stream s j @ unsent_stream s j"
proof -
  let ?P = "\<lambda>t. relay_ready t \<and> r_raised t = r_raised s
      \<and> sent_stream t j @ unsent_stream t j = sent_stream s j @ unsent_stream s j"
  show ?thesis
  proof (rule pump_keeps [where P = ?P])
    fix i t c
    assume t: "?P t" and "lookup i t = Some c"
    then have i: "i \<in> set (r_rotation t)" and c: "r_objects t i = Some c"
      by (auto simp: lookup_def relay_ready_def split: if_splits)
    show "?P (fst (writeOneChunk i t))"
      using t writeOneChunk_ready [OF _ i c, of j] writeOneChunk_keeps_ready [OF _ i c] by simp
  next
    fix t n
    assume "?P t"
    then show "?P (t\<lparr>r_cursor := n\<rparr>)"
      by (simp add: relay_ready_cursor sent_stream_def unsent_stream_def)
  qed (use assms in simp)
qed

text \<open>
  C33: The pump loses nothing and leaves no one waiting. On a relay whose front is there, pumping
  raises nothing; for every connection what went out followed by what is queued is the same byte
  stream, end markers included, as before; and afterwards a live connection either has nothing
  queued or its next chunk does not fit into the 65536 bytes of its window.
\<close>

theorem pump_delivers:
  assumes "relay_ready s" "\<not> r_closed s" "i \<in> set (r_rotation (pump s))"
    "r_objects (pump s) i = Some c" "\<not> c_destroyed c"
  shows "r_raised (pump s) = r_raised s
    \<and> sent_stream (pump s) i @ unsent_stream (pump s) i = sent_stream s i @ unsent_stream s i
    \<and> stuck c"
  using pump_ready [OF assms(1), of i] pump_stuck [OF assms(1-4)] assms(5) by simp

lemma pump_frame [relay_frame, simp]:
  "r_keys (pump s) = r_keys s" "r_rotation (pump s) = r_rotation s" "r_closed (pump s) = r_closed s"
  "r_next_write (pump s) = r_next_write s" "r_microtasks (pump s) = r_microtasks s"
proof -
  let ?P = "\<lambda>t. r_keys t = r_keys s \<and> r_rotation t = r_rotation s \<and> r_closed t = r_closed s
      \<and> r_next_write t = r_next_write s \<and> r_microtasks t = r_microtasks s"
  have "?P (pump s)" by (rule pump_keeps [where P = ?P]) simp_all
  then show "r_keys (pump s) = r_keys s" "r_rotation (pump s) = r_rotation s"
    "r_closed (pump s) = r_closed s" "r_next_write (pump s) = r_next_write s"
    "r_microtasks (pump s) = r_microtasks s" by simp_all
qed

text \<open>A connection with a line of two chunks and an end queued, on a bootstrapped front.\<close>

definition relay_example :: relay where
  "relay_example =
     (new_relay (newFrontPlanes\<lparr>fp_generation := 5\<rparr>))
       \<lparr>r_keys := [1], r_rotation := [1],
        r_objects := [1 \<mapsto> new_connection\<lparr>c_pending :=
          [Pending_data \<lparr>w_id = 0, w_chunks = [[7], [8]], w_sent = 0, w_lastSequence = None, w_callback = True\<rparr>,
           Pending_end]\<rparr>]\<rparr>"

lemma relay_example_ready: "relay_ready relay_example"
  by (auto simp: relay_ready_def relay_example_def new_relay_def newFrontPlanes_def plane_ready_def
      valid_id_def work_left_def frames_left_def wf_pending_def wf_write_def FRONT_CHUNK_BYTES_def
      PIPE_FRONT_DATA_PAYLOAD_MAX_BYTES_def PIPE_FRONT_SEQUENCE_EXHAUSTED_def)

lemma writeOneChunk_alive:
  "\<exists>c. r_objects s j = Some c \<and> \<not> c_destroyed c \<Longrightarrow>
     \<exists>c. r_objects (fst (writeOneChunk i s)) j = Some c \<and> \<not> c_destroyed c"
proof (cases rule: writeOneChunk_cases [of i s])
  case (written c w rest q s1)
  assume a: "\<exists>c. r_objects s j = Some c \<and> \<not> c_destroyed c"
  have o: "r_objects s1 = r_objects s" using send_data_frame(2) [of i _ s] written(5) by (metis fst_conv)
  show ?thesis using a
    by (cases "Suc (w_sent w) = length (w_chunks w)"; cases "j = i") (auto simp: written(6) o Let_def)
qed (auto simp: armStallWatch_def)

lemma pump_alive:
  "\<exists>c. r_objects s j = Some c \<and> \<not> c_destroyed c \<Longrightarrow>
     \<exists>c. r_objects (pump s) j = Some c \<and> \<not> c_destroyed c"
  by (rule pump_keeps [where P = "\<lambda>t. \<exists>c. r_objects t j = Some c \<and> \<not> c_destroyed c"])
     (auto intro: writeOneChunk_alive)

lemma pump_delivers_witness:
  "\<exists>c. r_objects (pump relay_example) 1 = Some c \<and> r_raised (pump relay_example) = r_raised relay_example
     \<and> sent_stream (pump relay_example) 1 @ unsent_stream (pump relay_example) 1 = [Some 7, Some 8, None]
     \<and> stuck c"
proof -
  obtain c where c: "r_objects (pump relay_example) 1 = Some c" "\<not> c_destroyed c"
    using pump_alive [of relay_example 1] by (auto simp: relay_example_def new_connection_def)
  have "sent_stream relay_example 1 @ unsent_stream relay_example 1 = [Some 7, Some 8, None]"
    by (simp add: relay_example_def sent_stream_def unsent_stream_def new_relay_def)
  then show ?thesis
    using pump_delivers [OF relay_example_ready _ _ c] c(1)
    by (simp add: relay_example_def new_relay_def)
qed

end
