(* ===== verification/FrontHandshake.thy ===== *)
theory FrontHandshake
  imports FrontRelay
begin

text \<open>
  The decisions of the front handshake (\<open>mcp-host/front-handshake.ts\<close>), the bounds they use
  (\<open>bounds.ts\<close>, \<open>handshake.ts\<close>), and the admission door with its epoch (\<open>admission.ts\<close>). The
  sentences of refusals and details are left out; a failure is its name.
\<close>

section \<open>Bounds\<close>

definition STUDIO_MAX_CONNECTIONS :: nat where "STUDIO_MAX_CONNECTIONS = 16"
definition STUDIO_MAX_HANDSHAKE_PENDING :: nat where "STUDIO_MAX_HANDSHAKE_PENDING = 4"

definition STUDIO_MAX_LISTENER_SOCKETS :: nat where
  "STUDIO_MAX_LISTENER_SOCKETS = STUDIO_MAX_CONNECTIONS + STUDIO_MAX_HANDSHAKE_PENDING + 1"

definition STUDIO_HANDSHAKE_DEADLINE_MS :: nat where "STUDIO_HANDSHAKE_DEADLINE_MS = 5000"

definition FRONT_PROTOCOL_VERSION :: nat where "FRONT_PROTOCOL_VERSION = PIPE_FRONT_PROTOCOL_VERSION"
definition FRONT_SDDL_KIND :: nat where "FRONT_SDDL_KIND = PIPE_FRONT_SDDL_KIND"
definition FRONT_MAX_RAW :: nat where "FRONT_MAX_RAW = STUDIO_MAX_LISTENER_SOCKETS"
definition FRONT_HANDSHAKE_DEADLINE_MS :: nat where "FRONT_HANDSHAKE_DEADLINE_MS = STUDIO_HANDSHAKE_DEADLINE_MS"

text \<open>\<open>PIPE_FRONT_BOUND_FLAGS\<close>: reject remote clients, first instance, message mode.\<close>

definition PIPE_FRONT_BOUND_FLAGS :: "int list" where
  "PIPE_FRONT_BOUND_FLAGS = [1, 2, 4]"

definition FRONT_BOUND_REQUIRED_FLAGS :: int where
  "FRONT_BOUND_REQUIRED_FLAGS = foldr (OR) PIPE_FRONT_BOUND_FLAGS 0"

section \<open>Failures\<close>

datatype front_failure_name =
    Binary_unavailable | Unsupported_platform | Spawn_failed | Child_exit | Plane_eof | Plane_io_error
  | Malformed_front_frame | Hello_ack_version | Hello_ack_pid | Hello_ack_generation_reused
  | Unexpected_front_frame | Bound_pipe_name | Bound_flags_unconfirmed | Sddl_readback_mismatch
  | Admission_epoch_exhausted | Front_error_frame | Lock_ack_timeout | Lock_before_hello_ack
  | Credit_overrun_failure | Data_after_end_failure | Ack_regression_failure | Restart_budget_exhausted

datatype host_unavailable_cause =
    Pipe_security_unconfirmed | Front_restart_budget_exhausted | Admission_permanently_closed | Front_unavailable

definition frontFailureCause :: "front_failure_name \<Rightarrow> host_unavailable_cause" where
  "frontFailureCause name =
     (if name \<in> {Sddl_readback_mismatch, Bound_flags_unconfirmed, Bound_pipe_name} then Pipe_security_unconfirmed
      else if name = Restart_budget_exhausted then Front_restart_budget_exhausted
      else if name = Admission_epoch_exhausted then Admission_permanently_closed
      else Front_unavailable)"

definition frontFailureIsRestartable :: "front_failure_name \<Rightarrow> bool" where
  "frontFailureIsRestartable failure =
     (failure \<notin> {Binary_unavailable, Unsupported_platform, Hello_ack_version, Bound_flags_unconfirmed,
                  Bound_pipe_name, Sddl_readback_mismatch, Admission_epoch_exhausted, Restart_budget_exhausted})"

text \<open>The exit code is \<open>null\<close> when a signal ended the child.\<close>

definition frontExitFailure :: "int option \<Rightarrow> front_failure_name" where
  "frontExitFailure code =
     (case code of
        None \<Rightarrow> Child_exit
      | Some n \<Rightarrow>
          if n = 2 then Unsupported_platform
          else if n = 3 then Hello_ack_version
          else if n = 4 then Malformed_front_frame
          else if n = 6 then Bound_flags_unconfirmed
          else if n = 7 then Credit_overrun_failure
          else Child_exit)"

section \<open>The handshake\<close>

definition composeFrontHello :: "utf16 \<Rightarrow> nat \<Rightarrow> utf16 \<Rightarrow> front_frame" where
  "composeFrontHello pipeName epoch timeoutRefusal =
     \<lparr>frame_plane = ControlDown, frame_generation = num 0, frame_connection = num 0, frame_sequence = 1,
      frame_body = Hello (num FRONT_PROTOCOL_VERSION) (num FRONT_SDDL_KIND) (num FRONT_MAX_RAW)
        (JsInt FRONT_CREDIT_BYTES) (num FRONT_CHUNK_BYTES) (num FRONT_HANDSHAKE_DEADLINE_MS) (num epoch)
        pipeName timeoutRefusal\<rparr>"

definition validateFrontHelloAck ::
    "front_body \<Rightarrow> nat option \<Rightarrow> js_number list \<Rightarrow> (front_failure_name, unit) result" where
  "validateFrontHelloAck body childPid seenGenerations =
     (case body of
        Hello_ack version announced pid _ _ \<Rightarrow>
          if version \<noteq> num FRONT_PROTOCOL_VERSION then Inl Hello_ack_version
          else if childPid = None \<or> Some pid \<noteq> map_option num childPid then Inl Hello_ack_pid
          else if announced = num 0 then Inl Hello_ack_generation_reused
          else if announced \<in> set seenGenerations then Inl Hello_ack_generation_reused
          else Inr ()
      | _ \<Rightarrow> Inl Unexpected_front_frame)"

definition validateFrontBound :: "front_body \<Rightarrow> utf16 \<Rightarrow> (front_failure_name, unit) result" where
  "validateFrontBound body pipeName =
     (case body of
        Bound flags name \<Rightarrow>
          if name \<noteq> pipeName then Inl Bound_pipe_name
          else if FRONT_BOUND_REQUIRED_FLAGS AND NOT (int_of_js flags) \<noteq> 0 then Inl Bound_flags_unconfirmed
          else Inr ()
      | _ \<Rightarrow> Inl Unexpected_front_frame)"

section \<open>The admission door\<close>

definition STUDIO_ADMISSION_EPOCH_MAX :: nat where
  "STUDIO_ADMISSION_EPOCH_MAX = 0xffffffff"

record admission =
  ad_locked :: bool
  ad_epoch :: nat
  ad_permanentlyClosed :: bool

definition boot_admission :: admission where
  "boot_admission = \<lparr>ad_locked = True, ad_epoch = 0, ad_permanentlyClosed = False\<rparr>"

text \<open>What \<open>studioReadiness\<close> answers, as far as admission passes it on.\<close>

datatype unready_code = Starting_up | Fence_uninitialized | Shutting_down

datatype studio_admission = Admission_ready | Admission_locked | Admission_unready unready_code

definition studioAdmission :: "admission \<Rightarrow> unready_code option \<Rightarrow> studio_admission" where
  "studioAdmission a readiness =
     (if ad_locked a then Admission_locked
      else case readiness of Some code \<Rightarrow> Admission_unready code | None \<Rightarrow> Admission_ready)"

definition studioAdmissionEpoch :: "admission \<Rightarrow> nat" where
  "studioAdmissionEpoch a = ad_epoch a"

definition closeStudioAdmission :: "admission \<Rightarrow> admission" where
  "closeStudioAdmission a =
     (let a1 = a\<lparr>ad_locked := True\<rparr>
      in if ad_epoch a1 \<ge> STUDIO_ADMISSION_EPOCH_MAX then a1\<lparr>ad_permanentlyClosed := True\<rparr>
         else a1\<lparr>ad_epoch := ad_epoch a1 + 1\<rparr>)"

definition openStudioAdmission :: "admission \<Rightarrow> admission" where
  "openStudioAdmission a = (if ad_permanentlyClosed a then a else a\<lparr>ad_locked := False\<rparr>)"

definition studioAdmissionPermanentlyClosed :: "admission \<Rightarrow> bool" where
  "studioAdmissionPermanentlyClosed a = ad_permanentlyClosed a"

datatype admission_op = Close_door | Open_door

fun admission_step :: "admission \<Rightarrow> admission_op \<Rightarrow> admission" where
  "admission_step a Close_door = closeStudioAdmission a"
| "admission_step a Open_door = openStudioAdmission a"

section \<open>The door\<close>

definition admission_inv :: "admission \<Rightarrow> bool" where
  "admission_inv a =
     (ad_epoch a \<le> STUDIO_ADMISSION_EPOCH_MAX
      \<and> (ad_permanentlyClosed a \<longrightarrow> ad_locked a \<and> ad_epoch a = STUDIO_ADMISSION_EPOCH_MAX))"

interpretation admission_door: invariant_machine admission_step admission_inv
proof
  fix s a
  assume "admission_inv s"
  then show "admission_inv (admission_step s a)"
    by (cases a) (auto simp: admission_inv_def closeStudioAdmission_def openStudioAdmission_def Let_def)
qed

lemma boot_admission_inv: "admission_inv boot_admission"
  by (simp add: admission_inv_def boot_admission_def)

lemma epoch_mono: "ad_epoch a \<le> ad_epoch (foldl admission_step a ops)"
proof (induction ops arbitrary: a)
  case (Cons op ops)
  have "ad_epoch a \<le> ad_epoch (admission_step a op)"
    by (cases op) (auto simp: closeStudioAdmission_def openStudioAdmission_def Let_def)
  also have "\<dots> \<le> ad_epoch (foldl admission_step (admission_step a op) ops)" by (rule Cons.IH)
  finally show ?case by simp
qed simp

lemma permanently_closed_stays: "ad_permanentlyClosed a \<Longrightarrow> ad_permanentlyClosed (foldl admission_step a ops)"
proof (induction ops arbitrary: a)
  case (Cons op ops)
  then have "ad_permanentlyClosed (admission_step a op)"
    by (cases op) (auto simp: closeStudioAdmission_def openStudioAdmission_def Let_def)
  then show ?case using Cons.IH by simp
qed simp

lemma close_fences:
  "admission_inv a \<Longrightarrow> Close_door \<in> set ops \<Longrightarrow>
     ad_epoch a < ad_epoch (foldl admission_step a ops) \<or> ad_permanentlyClosed (foldl admission_step a ops)"
proof (induction ops arbitrary: a)
  case (Cons op ops)
  show ?case
  proof (cases op)
    case Close_door
    show ?thesis
    proof (cases "ad_epoch a \<ge> STUDIO_ADMISSION_EPOCH_MAX")
      case True
      then have "ad_permanentlyClosed (admission_step a op)" by (simp add: Close_door closeStudioAdmission_def Let_def)
      then show ?thesis using permanently_closed_stays by simp
    next
      case False
      then have "ad_epoch a < ad_epoch (admission_step a op)" by (simp add: Close_door closeStudioAdmission_def Let_def)
      then show ?thesis using epoch_mono [of "admission_step a op" ops] by simp
    qed
  next
    case Open_door
    then have "admission_inv (admission_step a op)" "ad_epoch (admission_step a op) = ad_epoch a"
      using admission_door.step_inv [OF Cons.prems(1), of op] by (simp_all add: openStudioAdmission_def)
    then show ?thesis using Cons.IH [of "admission_step a op"] Cons.prems(2) Open_door by simp
  qed
qed simp

text \<open>
  C19: The admission epoch is a fence. Take any two moments of a process' life: if the door is
  ready at the later one and the epoch is still the one captured at the earlier one, the door was
  not closed in between; and no epoch exceeds the 32 bits it has on the wire.
\<close>

theorem admission_epoch_fences:
  assumes "a = foldl admission_step boot_admission before" "a' = foldl admission_step a ops"
  shows "studioAdmissionEpoch a' \<le> STUDIO_ADMISSION_EPOCH_MAX
    \<and> (studioAdmission a' readiness = Admission_ready \<and> studioAdmissionEpoch a' = studioAdmissionEpoch a
       \<longrightarrow> Close_door \<notin> set ops)"
proof -
  have inv: "admission_inv a" unfolding assms(1) by (rule admission_door.run_inv [OF boot_admission_inv])
  have inv': "admission_inv a'" unfolding assms(2) by (rule admission_door.run_inv [OF inv])
  have "ad_permanentlyClosed a' \<Longrightarrow> studioAdmission a' readiness \<noteq> Admission_ready"
    using inv' by (simp add: admission_inv_def studioAdmission_def)
  then show ?thesis
    using inv' close_fences [OF inv, of ops] by (auto simp: admission_inv_def studioAdmissionEpoch_def assms(2))
qed

theorem admission_epoch_fences_witness:
  "let a = foldl admission_step boot_admission [Open_door, Close_door, Open_door]; a' = foldl admission_step a [Open_door]
   in studioAdmissionEpoch a' = 1 \<and> studioAdmission a' None = Admission_ready \<and> Close_door \<notin> set [Open_door]"
  using admission_epoch_fences [OF refl refl, of "[Open_door, Close_door, Open_door]" "[Open_door]" None]
  by (simp add: boot_admission_def closeStudioAdmission_def openStudioAdmission_def studioAdmissionEpoch_def
      studioAdmission_def STUDIO_ADMISSION_EPOCH_MAX_def)

section \<open>The handshake is sound\<close>

lemmas hello_constants =
  FRONT_PROTOCOL_VERSION_def PIPE_FRONT_PROTOCOL_VERSION_def FRONT_SDDL_KIND_def PIPE_FRONT_SDDL_KIND_def
  FRONT_MAX_RAW_def STUDIO_MAX_LISTENER_SOCKETS_def STUDIO_MAX_CONNECTIONS_def STUDIO_MAX_HANDSHAKE_PENDING_def
  FRONT_CREDIT_BYTES_def FRONT_CHUNK_BYTES_def PIPE_FRONT_DATA_PAYLOAD_MAX_BYTES_def
  FRONT_HANDSHAKE_DEADLINE_MS_def STUDIO_HANDSHAKE_DEADLINE_MS_def STUDIO_ADMISSION_EPOCH_MAX_def

text \<open>The limit of a control payload leaves 4071 bytes for the two texts of \<open>HELLO\<close>.\<close>

lemma hello_encodes:
  assumes "length (utf8_encode pipeName) + length (utf8_encode refusal) \<le> 4071" "epoch \<le> STUDIO_ADMISSION_EPOCH_MAX"
  shows "\<exists>bs. encodePipeFrontFrame (composeFrontHello pipeName epoch refusal) = Inr bs"
  using assms
  by (simp add: encodePipeFrontFrame_def composeFrontHello_def planeCarries_def frame_type_tables
      CONNECTION_MUST_BE_ZERO_def PIPE_FRONT_SEQUENCE_EXHAUSTED_def requireU32_def requireU16_def requireU8_def
      write_str_def write_defs pipeFrontPayloadBound_def PIPE_FRONT_CONTROL_PAYLOAD_MAX_BYTES_def
      hello_constants result_simps Let_def)

text \<open>
  The front can always be greeted. At whatever epoch the admission door has reached, the
  \<open>HELLO\<close> main composes is accepted by its own encoder when the two texts are within 4071 bytes,
  and the front, at generation 0 and sequence 1, reads exactly that frame off plane 3, however the
  bytes arrive.
\<close>

theorem hello_reaches_front:
  assumes "plain_text pipeName" "plain_text refusal"
    "length (utf8_encode pipeName) + length (utf8_encode refusal) \<le> 4071"
    "hello = composeFrontHello pipeName (studioAdmissionEpoch (foldl admission_step boot_admission ops)) refusal"
  shows "\<exists>bs. encodePipeFrontFrame hello = Inr bs
    \<and> (\<forall>chunks. concat chunks = bs \<longrightarrow> snd (push_all (newDecoder ControlDown 0 (Some 1)) chunks) = [Frame hello])"
proof -
  have "admission_inv (foldl admission_step boot_admission ops)"
    by (rule admission_door.run_inv [OF boot_admission_inv])
  then have "studioAdmissionEpoch (foldl admission_step boot_admission ops) \<le> STUDIO_ADMISSION_EPOCH_MAX"
    by (simp add: admission_inv_def studioAdmissionEpoch_def)
  from hello_encodes [OF assms(3) this] obtain bs where bs: "encodePipeFrontFrame hello = Inr bs"
    unfolding assms(4) by blast
  have "sendable ControlDown 0 1 [hello]"
    using assms(1,2)
    by (simp add: assms(4) composeFrontHello_def readable_body_def FRONT_SDDL_KIND_def)
  then show ?thesis using stream_decodes [of "[hello]" "[bs]" ControlDown 0 1] bs by simp
qed

theorem hello_reaches_front_witness:
  "let hello = composeFrontHello [92, 112] 1 [76]
   in \<exists>bs. encodePipeFrontFrame hello = Inr bs
      \<and> snd (push_all (newDecoder ControlDown 0 (Some 1)) [take 3 bs, drop 3 bs]) = [Frame hello]"
proof -
  have epoch: "studioAdmissionEpoch (foldl admission_step boot_admission [Close_door]) = 1"
    by (simp add: boot_admission_def closeStudioAdmission_def studioAdmissionEpoch_def STUDIO_ADMISSION_EPOCH_MAX_def)
  have "plain_text [92, 112]" "plain_text [76]"
    by (simp_all add: plain_text_def high_surrogate_def low_surrogate_def starts_with_bom_def)
  moreover have "length (utf8_encode [92, 112]) + length (utf8_encode [76]) \<le> 4071"
    by (simp add: utf8_encode_def utf8_bytes_def high_surrogate_def low_surrogate_def)
  ultimately obtain bs where "encodePipeFrontFrame (composeFrontHello [92, 112] 1 [76]) = Inr bs"
    "\<forall>chunks. concat chunks = bs \<longrightarrow>
       snd (push_all (newDecoder ControlDown 0 (Some 1)) chunks) = [Frame (composeFrontHello [92, 112] 1 [76])]"
    using hello_reaches_front [OF _ _ _ refl, of "[92, 112]" "[76]" "[Close_door]", unfolded epoch] by blast
  then show ?thesis unfolding Let_def by (intro exI [of _ bs]) simp
qed

text \<open>No required flag is missing exactly when the three bits are set.\<close>

lemma unconfirmed_flags:
  "FRONT_BOUND_REQUIRED_FLAGS AND NOT f = 0 \<longleftrightarrow> bit f 0 \<and> bit f 1 \<and> bit f 2"
proof -
  have "FRONT_BOUND_REQUIRED_FLAGS = mask 3"
    by (simp add: FRONT_BOUND_REQUIRED_FLAGS_def PIPE_FRONT_BOUND_FLAGS_def mask_eq_exp_minus_1)
  then have "FRONT_BOUND_REQUIRED_FLAGS AND NOT f = take_bit 3 (NOT f)"
    by (simp add: take_bit_eq_mask and.commute)
  also have "\<dots> = 0 \<longleftrightarrow> (\<forall>n<3. bit f n)"
    by (auto simp: bit_eq_iff bit_take_bit_iff bit_not_iff)
  finally show ?thesis by (auto simp: less_Suc_eq numeral_3_eq_3 numeral_2_eq_2)
qed

text \<open>
  The handshake fails closed. \<open>HELLO_ACK\<close> is accepted exactly when it speaks this version,
  names the process main spawned and announces a generation that is not zero and that this main has
  not seen; \<open>BOUND\<close> exactly when it echoes the name and confirms all three flags: remote clients
  rejected, first instance, message mode. Every other frame is refused.
\<close>

theorem handshake_fails_closed:
  "(validateFrontHelloAck body pid seen = Inr ()
      \<longleftrightarrow> (\<exists>n generation v b. body = Hello_ack (num 1) generation (num n) v b \<and> pid = Some n
            \<and> generation \<noteq> num 0 \<and> generation \<notin> set seen))
   \<and> (validateFrontBound bound pipeName = Inr ()
      \<longleftrightarrow> (\<exists>flags. bound = Bound flags pipeName
            \<and> bit (int_of_js flags) 0 \<and> bit (int_of_js flags) 1 \<and> bit (int_of_js flags) 2))"
proof
  show "validateFrontHelloAck body pid seen = Inr ()
      \<longleftrightarrow> (\<exists>n generation v b. body = Hello_ack (num 1) generation (num n) v b \<and> pid = Some n
            \<and> generation \<noteq> num 0 \<and> generation \<notin> set seen)"
    by (cases body)
       (auto simp: validateFrontHelloAck_def FRONT_PROTOCOL_VERSION_def PIPE_FRONT_PROTOCOL_VERSION_def)
  show "validateFrontBound bound pipeName = Inr ()
      \<longleftrightarrow> (\<exists>flags. bound = Bound flags pipeName
            \<and> bit (int_of_js flags) 0 \<and> bit (int_of_js flags) 1 \<and> bit (int_of_js flags) 2)"
    by (cases bound) (auto simp: validateFrontBound_def unconfirmed_flags)
qed

end
