(* ===== verification/FrontRelayRuns.thy ===== *)
theory FrontRelayRuns
  imports FrontRelay
begin

text \<open>
  The operations of the relay that call into a consumer (\<open>mcp-host/front-relay-transport.ts\<close>), and
  the runs of the whole relay. A consumer answers an edge with any finite sequence of calls on its
  transports (\<open>reacts\<close>), made before the handler that raised the edge goes on, as event emitters
  and callbacks do. The supervisor, told of a fatal fault, may close everything there too.
\<close>

section \<open>Calls and edges\<close>

inductive transport_call :: "relay \<Rightarrow> relay \<Rightarrow> bool"
  and reacts :: "relay \<Rightarrow> relay \<Rightarrow> bool"
  and flush :: "nat \<Rightarrow> relay \<Rightarrow> relay \<Rightarrow> bool"
where
  call_write: "transport_call s (fst (relay_write i line callback s))"
| call_end: "transport_call s (relay_end i s)"
| call_destroy: "transport_call s (relay_destroy i s)"
| call_pause: "transport_call s (relay_pause i s)"
| call_resume_idle: "resume_begin i s = (t, False) \<Longrightarrow> transport_call s t"
| call_resume: "resume_begin i s = (t, True) \<Longrightarrow> flush i t u \<Longrightarrow> transport_call s u"
| call_close_all: "transport_call s (closeAll s)"
| quiet: "reacts s s"
| reaction: "transport_call s t \<Longrightarrow> reacts t u \<Longrightarrow> reacts s u"
| flush_stop: "r_objects s i = Some c \<Longrightarrow> c_paused c \<or> c_held c = [] \<Longrightarrow> flush i s s"
| flush_chunk: "r_objects s i = Some c \<Longrightarrow> \<not> c_paused c \<Longrightarrow> c_held c = chunk # rest \<Longrightarrow>
    reacts (emit (Emit_data i chunk)
      (upd i (\<lambda>c. c\<lparr>c_held := rest, c_heldBytes := c_heldBytes c - int (length chunk)\<rparr>) s)) t \<Longrightarrow>
    flush i (replenish i (int (length chunk)) t) u \<Longrightarrow> flush i s u"

inductive_cases reacts_elim: "reacts s u"
inductive_cases flush_elim: "flush i s u"

section \<open>Acknowledgements\<close>

definition covered :: "nat \<Rightarrow> pending_write \<Rightarrow> bool" where
  "covered ack w = (case w_lastSequence w of None \<Rightarrow> False | Some q \<Rightarrow> q \<le> ack)"

text \<open>The splice of the loop, and \<open>settle\<close> up to its callback.\<close>

definition settle_at :: "nat \<Rightarrow> nat \<Rightarrow> pending_write \<Rightarrow> relay \<Rightarrow> relay" where
  "settle_at i k w s =
     upd i (\<lambda>c. c\<lparr>c_awaitingAck := take k (c_awaitingAck c) @ drop (Suc k) (c_awaitingAck c),
                  c_blocking := (if c_blocking c = Some (w_id w) then None else c_blocking c)\<rparr>) s"

text \<open>
  The loop over the writes that wait for their acknowledgement, from index \<open>k - 1\<close> down; the flag
  is false where it throws, reading an entry that a callback took away.
\<close>

inductive settle_loop :: "nat \<Rightarrow> nat \<Rightarrow> nat \<Rightarrow> relay \<Rightarrow> relay \<Rightarrow> bool \<Rightarrow> bool" where
  settle_done: "settle_loop i ack 0 s s True"
| settle_missing: "r_objects s i = Some c \<Longrightarrow> length (c_awaitingAck c) \<le> k \<Longrightarrow>
    settle_loop i ack (Suc k) s (s\<lparr>r_raised := Some Type_error\<rparr>) False"
| settle_waiting: "r_objects s i = Some c \<Longrightarrow> k < length (c_awaitingAck c) \<Longrightarrow>
    \<not> covered ack (c_awaitingAck c ! k) \<Longrightarrow> settle_loop i ack k s t ok \<Longrightarrow> settle_loop i ack (Suc k) s t ok"
| settle_silent: "r_objects s i = Some c \<Longrightarrow> k < length (c_awaitingAck c) \<Longrightarrow> w = c_awaitingAck c ! k \<Longrightarrow>
    covered ack w \<Longrightarrow> \<not> w_callback w \<Longrightarrow> settle_loop i ack k (settle_at i k w s) t ok \<Longrightarrow>
    settle_loop i ack (Suc k) s t ok"
| settle_called: "r_objects s i = Some c \<Longrightarrow> k < length (c_awaitingAck c) \<Longrightarrow> w = c_awaitingAck c ! k \<Longrightarrow>
    covered ack w \<Longrightarrow> w_callback w \<Longrightarrow>
    reacts (emit (Settled i (w_id w) (the (w_lastSequence w))) (settle_at i k w s)) t \<Longrightarrow>
    settle_loop i ack k t u ok \<Longrightarrow> settle_loop i ack (Suc k) s u ok"

text \<open>Releasing the window: everything up to the acknowledgement.\<close>

definition release_conn :: "nat \<Rightarrow> relay_connection \<Rightarrow> relay_connection" where
  "release_conn ack c =
     (let gone = takeWhile (\<lambda>u. u_sequence u \<le> ack) (c_unacked c);
          freed = sum_list (map u_bytes gone);
          c1 = c\<lparr>c_lastAck := ack, c_unacked := dropWhile (\<lambda>u. u_sequence u \<le> ack) (c_unacked c),
                 c_outstanding := c_outstanding c - freed\<rparr>
      in if c_outstanding c1 < c_outstanding c then c1\<lparr>c_stallTimer := False\<rparr> else c1)"

definition release :: "nat \<Rightarrow> nat \<Rightarrow> relay \<Rightarrow> relay" where
  "release i ack s = upd i (release_conn ack) s"

definition may_drain :: "relay_connection \<Rightarrow> bool" where
  "may_drain c =
     (c_blocking c = None \<and> \<not> c_destroyed c \<and> \<not> c_closeRaised c \<and> c_pending c = []
      \<and> c_outstanding c < FRONT_CREDIT_BYTES)"

inductive maybeDrain :: "nat \<Rightarrow> relay \<Rightarrow> relay \<Rightarrow> bool" where
  drain_no: "r_objects s i = Some c \<Longrightarrow> \<not> may_drain c \<Longrightarrow> maybeDrain i s s"
| drain_yes: "r_objects s i = Some c \<Longrightarrow> may_drain c \<Longrightarrow> reacts (emit (Emit_drain i) s) t \<Longrightarrow> maybeDrain i s t"

definition highest_sent :: "relay_connection \<Rightarrow> nat" where
  "highest_sent c = (if c_unacked c = [] then c_lastAck c else u_sequence (last (c_unacked c)))"

inductive handleWriteDone :: "nat \<Rightarrow> nat \<Rightarrow> relay \<Rightarrow> relay \<Rightarrow> bool" where
  done_dropped: "live i s = (t, None) \<Longrightarrow> handleWriteDone i ack s t"
| done_regression: "live i s = (t, Some c) \<Longrightarrow> ack < c_lastAck c \<or> highest_sent c < ack \<Longrightarrow>
    handleWriteDone i ack s (emit (Fatal Ack_regression) t)"
| done_raised: "live i s = (t, Some c) \<Longrightarrow> c_lastAck c \<le> ack \<Longrightarrow> ack \<le> highest_sent c \<Longrightarrow>
    settle_loop i ack (length (c_awaitingAck c)) (release i ack t) u False \<Longrightarrow> handleWriteDone i ack s u"
| done_settled: "live i s = (t, Some c) \<Longrightarrow> c_lastAck c \<le> ack \<Longrightarrow> ack \<le> highest_sent c \<Longrightarrow>
    settle_loop i ack (length (c_awaitingAck c)) (release i ack t) u True \<Longrightarrow>
    maybeDrain i (pump u) v \<Longrightarrow> handleWriteDone i ack s v"

section \<open>Frames from the front\<close>

inductive handleOpen :: "utf16 option \<Rightarrow> nat \<Rightarrow> nat \<Rightarrow> relay \<Rightarrow> relay \<Rightarrow> bool" where
  open_repeated: "i \<in> set (r_keys s) \<Longrightarrow> handleOpen refusal epoch i s (emit (Fatal Unexpected_frame) s)"
| open_refused: "i \<notin> set (r_keys s) \<Longrightarrow> handleOpen (Some line) epoch i s (send_control i (Refuse line) s)"
| open_admitted: "i \<notin> set (r_keys s) \<Longrightarrow>
    t = grantCredit i FRONT_CREDIT_BYTES (send_control i (Admit (num epoch))
          (s\<lparr>r_objects := (r_objects s)(i \<mapsto> new_connection), r_keys := r_keys s @ [i],
             r_rotation := r_rotation s @ [i]\<rparr>)) \<Longrightarrow>
    reacts (emit (Connected i) t) u \<Longrightarrow> handleOpen None epoch i s u"

inductive handleData :: "nat \<Rightarrow> bytes \<Rightarrow> relay \<Rightarrow> relay \<Rightarrow> bool" where
  data_dropped: "live i s = (t, None) \<Longrightarrow> handleData i payload s t"
| data_after_end: "live i s = (t, Some c) \<Longrightarrow> c_readEnded c \<Longrightarrow>
    handleData i payload s (emit (Fatal Data_after_end) t)"
| data_overrun: "live i s = (t, Some c) \<Longrightarrow> \<not> c_readEnded c \<Longrightarrow>
    int (length payload) > c_grantedCredit c \<Longrightarrow> handleData i payload s (emit (Fatal Credit_overrun) t)"
| data_held: "live i s = (t, Some c) \<Longrightarrow> \<not> c_readEnded c \<Longrightarrow>
    int (length payload) \<le> c_grantedCredit c \<Longrightarrow> c_paused c \<Longrightarrow>
    handleData i payload s (upd i (\<lambda>c. c\<lparr>c_grantedCredit := c_grantedCredit c - int (length payload),
      c_held := c_held c @ [payload], c_heldBytes := c_heldBytes c + int (length payload)\<rparr>) t)"
| data_delivered: "live i s = (t, Some c) \<Longrightarrow> \<not> c_readEnded c \<Longrightarrow>
    int (length payload) \<le> c_grantedCredit c \<Longrightarrow> \<not> c_paused c \<Longrightarrow>
    reacts (emit (Emit_data i payload)
      (upd i (\<lambda>c. c\<lparr>c_grantedCredit := c_grantedCredit c - int (length payload)\<rparr>) t)) u \<Longrightarrow>
    handleData i payload s (replenish i (int (length payload)) u)"

inductive handleEnd :: "nat \<Rightarrow> relay \<Rightarrow> relay \<Rightarrow> bool" where
  end_dropped: "live i s = (t, None) \<Longrightarrow> handleEnd i s t"
| end_repeated: "live i s = (t, Some c) \<Longrightarrow> c_readEnded c \<Longrightarrow> handleEnd i s (emit (Fatal Data_after_end) t)"
| end_raised: "live i s = (t, Some c) \<Longrightarrow> \<not> c_readEnded c \<Longrightarrow>
    reacts (emit (Emit_end i) (upd i (\<lambda>c. c\<lparr>c_readEnded := True, t_readableEnded := True\<rparr>) t)) u \<Longrightarrow>
    handleEnd i s u"

text \<open>The two dispatchers; a frame type the relay does not own is a fault.\<close>

inductive handleControlFrame :: "utf16 option \<Rightarrow> nat \<Rightarrow> nat \<Rightarrow> front_body \<Rightarrow> relay \<Rightarrow> relay \<Rightarrow> bool" where
  control_closed: "r_closed s \<Longrightarrow> handleControlFrame refusal epoch i body s s"
| control_open: "\<not> r_closed s \<Longrightarrow> handleOpen refusal epoch i s t \<Longrightarrow>
    handleControlFrame refusal epoch i Open s t"
| control_done: "\<not> r_closed s \<Longrightarrow> handleWriteDone i (nat through) s t \<Longrightarrow>
    handleControlFrame refusal epoch i (Write_done through) s t"
| control_peer_closed: "\<not> r_closed s \<Longrightarrow>
    handleControlFrame refusal epoch i (Peer_closed reason through) s (handlePeerClosed i (nat through) s)"
| control_other: "\<not> r_closed s \<Longrightarrow> body_type body \<notin> {OPEN, WRITE_DONE, PEER_CLOSED} \<Longrightarrow>
    handleControlFrame refusal epoch i body s (emit (Fatal Unexpected_frame) s)"

inductive handleDataFrame :: "nat \<Rightarrow> front_body \<Rightarrow> relay \<Rightarrow> relay \<Rightarrow> bool" where
  dframe_closed: "r_closed s \<Longrightarrow> handleDataFrame i body s s"
| dframe_data: "\<not> r_closed s \<Longrightarrow> handleData i payload s t \<Longrightarrow> handleDataFrame i (Data payload) s t"
| dframe_end: "\<not> r_closed s \<Longrightarrow> handleEnd i s t \<Longrightarrow> handleDataFrame i End s t"
| dframe_other: "\<not> r_closed s \<Longrightarrow> body_type body \<notin> {DATA, END} \<Longrightarrow>
    handleDataFrame i body s (emit (Fatal Unexpected_frame) s)"

section \<open>Runs\<close>

text \<open>What else touches the planes: main's readers, the supervisor's own control frames, their end.\<close>

inductive planes_step :: "front_planes \<Rightarrow> front_planes \<Rightarrow> bool" where
  "planes_step p (fst (onDataUpData p chunk))"
| "planes_step p (fst (onControlUpData p chunk))"
| "writeControl p accepted i body = Inr (p', written) \<Longrightarrow> planes_step p p'"
| "planes_step p (planes_dispose p)"
| "planes_step p (p\<lparr>fp_controlDownDestroyed := True\<rparr>)"
| "planes_step p (p\<lparr>fp_dataDownDestroyed := True\<rparr>)"

inductive relay_step :: "relay \<Rightarrow> relay \<Rightarrow> bool" where
  step_control: "handleControlFrame refusal epoch i body s t \<Longrightarrow> relay_step s t"
| step_data: "handleDataFrame i body s t \<Longrightarrow> relay_step s t"
| step_batch: "relay_step s (afterDataBatch s)"
| step_call: "transport_call s t \<Longrightarrow> relay_step s t"
| step_close_edge: "r_microtasks s = Close_edge i # rest \<Longrightarrow>
    reacts (emit (Emit_close i) (s\<lparr>r_microtasks := rest\<rparr>)) t \<Longrightarrow> relay_step s t"
| step_callback: "r_microtasks s = Write_callback k # rest \<Longrightarrow>
    reacts (s\<lparr>r_microtasks := rest\<rparr>) t \<Longrightarrow> relay_step s t"
| step_stall: "relay_step s (stallTimeout i s)"
| step_planes: "planes_step (r_planes s) p \<Longrightarrow> relay_step s (s\<lparr>r_planes := p\<rparr>)"

inductive relay_reachable :: "relay \<Rightarrow> bool" where
  start: "relay_reachable (new_relay planes)"
| step: "relay_reachable s \<Longrightarrow> relay_step s t \<Longrightarrow> relay_reachable t"

section \<open>Windows and credit\<close>

definition credit :: "relay_connection \<Rightarrow> int" where
  "credit c = c_grantedCredit c + c_heldBytes c"

text \<open>
  The read side: what is held was granted, and grants and held bytes stay within the window. The
  write side: the outstanding bytes are those of the unacknowledged chunks, within the window.
\<close>

definition conn_inv :: "relay_connection \<Rightarrow> bool" where
  "conn_inv c =
     (c_heldBytes c = int (sum_list (map length (c_held c))) \<and> 0 \<le> c_grantedCredit c
      \<and> credit c \<le> FRONT_CREDIT_BYTES
      \<and> 0 \<le> c_outstanding c \<and> c_outstanding c \<le> FRONT_CREDIT_BYTES
      \<and> (\<forall>u\<in>set (c_unacked c). 0 \<le> u_bytes u)
      \<and> (\<not> c_destroyed c \<longrightarrow> c_outstanding c = sum_list (map u_bytes (c_unacked c))))"

definition relay_inv :: "relay \<Rightarrow> bool" where
  "relay_inv s = (\<forall>i c. r_objects s i = Some c \<longrightarrow> conn_inv c)"

definition credit_of :: "relay \<Rightarrow> nat \<Rightarrow> int" where
  "credit_of s i = (case r_objects s i of None \<Rightarrow> 0 | Some c \<Rightarrow> credit c)"

text \<open>An operation that keeps the invariant, creates nobody and returns no credit.\<close>

definition kept :: "relay \<Rightarrow> relay \<Rightarrow> bool" where
  "kept s t =
     (relay_inv t \<and> (\<forall>i. credit_of t i \<le> credit_of s i)
      \<and> (\<forall>i. (r_objects t i = None) = (r_objects s i = None)))"

named_theorems keeps "operations that keep the invariant and return no credit"

lemma kept_trans: "kept s t \<Longrightarrow> kept t u \<Longrightarrow> kept s u"
  by (auto simp: kept_def intro: order_trans)

lemma kept_same: "relay_inv s \<Longrightarrow> r_objects t = r_objects s \<Longrightarrow> kept s t"
  by (simp add: kept_def relay_inv_def credit_of_def)

lemma kept_inv: "kept s t \<Longrightarrow> relay_inv t"
  by (simp add: kept_def)

lemma kept_upd:
  assumes "relay_inv s" "\<And>c. r_objects s i = Some c \<Longrightarrow> conn_inv c \<Longrightarrow> conn_inv (f c) \<and> credit (f c) \<le> credit c"
  shows "kept s (upd i f s)"
proof -
  have "conn_inv d" if "r_objects (upd i f s) j = Some d" for j d
    using that assms by (auto simp: relay_inv_def split: if_splits)
  moreover have "credit_of (upd i f s) j \<le> credit_of s j" for j
    using assms by (auto simp: credit_of_def relay_inv_def split: option.split)
  ultimately show ?thesis by (simp add: kept_def relay_inv_def)
qed

text \<open>Objects changed the same way as by an update whose other changes do not matter.\<close>

lemma kept_objects: "kept s t \<Longrightarrow> r_objects u = r_objects t \<Longrightarrow> kept s u"
  by (simp add: kept_def relay_inv_def credit_of_def)

lemma arm_kept [keeps]: "relay_inv s \<Longrightarrow> kept s (armStallWatch i s)"
  unfolding armStallWatch_def by (rule kept_upd) (auto simp: conn_inv_def credit_def)

lemma stallTimeout_kept [keeps]: "relay_inv s \<Longrightarrow> kept s (stallTimeout i s)"
  unfolding stallTimeout_def by (rule kept_upd) (auto simp: conn_inv_def credit_def)

lemma send_control_kept [keeps]: "relay_inv s \<Longrightarrow> kept s (send_control i b s)"
  by (rule kept_same) simp_all

lemma emit_kept [keeps]: "relay_inv s \<Longrightarrow> kept s (emit e s)"
  by (rule kept_same) simp_all

lemma writeOneChunk_kept [keeps]:
  assumes "relay_inv s" "lookup i s = Some d" "\<not> c_destroyed d"
  shows "kept s (fst (writeOneChunk i s))"
proof (cases rule: writeOneChunk_cases [of i s])
  case idle
  with assms show ?thesis by (simp add: kept_same)
next
  case (end_sent c rest)
  have "kept s (upd i (\<lambda>c. c\<lparr>c_pending := rest\<rparr>) s)"
    by (rule kept_upd [OF assms(1)]) (auto simp: conn_inv_def credit_def)
  then show ?thesis by (rule kept_objects) (simp add: end_sent)
next
  case (blocked c w rest)
  with assms show ?thesis by (simp add: keeps)
next
  case (refused c w rest)
  with assms show ?thesis by (simp add: kept_same)
next
  case (written c w rest q s1)
  have o: "r_objects s1 = r_objects s" using send_data_frame(2) [of i _ s] written(5) by (metis fst_conv)
  define f where "f = (\<lambda>c :: relay_connection. let c1 = c\<lparr>c_unacked := c_unacked c @ [\<lparr>u_sequence = q, u_bytes = int (length (w_chunks w ! w_sent w))\<rparr>],
                    c_outstanding := c_outstanding c + int (length (w_chunks w ! w_sent w))\<rparr>
         in if Suc (w_sent w) = length (w_chunks w)
            then c1\<lparr>c_pending := rest, c_awaitingAck := c_awaitingAck c
                      @ [w\<lparr>w_sent := Suc (w_sent w), w_lastSequence := Some q\<rparr>]\<rparr>
            else c1\<lparr>c_pending := Pending_data (w\<lparr>w_sent := Suc (w_sent w)\<rparr>) # rest\<rparr>)"
  have "kept s (upd i f s)"
  proof (rule kept_upd [OF assms(1)])
    fix e
    assume e: "r_objects s i = Some e" "conn_inv e"
    then have "c_outstanding e + int (length (w_chunks w ! w_sent w)) \<le> FRONT_CREDIT_BYTES"
      using written by simp
    then show "conn_inv (f e) \<and> credit (f e) \<le> credit e"
      using e(2) by (auto simp: f_def Let_def conn_inv_def credit_def)
  qed
  then show ?thesis by (rule kept_objects) (simp add: written(6) f_def [symmetric] o fun_eq_iff)
qed

lemma pump_kept [keeps]:
  assumes "relay_inv s"
  shows "kept s (pump s)"
proof (rule pump_keeps [where P = "kept s"])
  fix i t c
  assume t: "kept s t" and c: "lookup i t = Some c" "\<not> c_destroyed c"
  then show "kept s (fst (writeOneChunk i t))"
    using writeOneChunk_kept [OF kept_inv [OF t] c] by (blast intro: kept_trans)
qed (auto intro: kept_objects kept_same assms)

lemma live_kept [keeps]:
  assumes "relay_inv s" "live i s = (t, r)"
  shows "kept s t" "r = Some c \<Longrightarrow> r_objects t i = Some c \<and> \<not> c_destroyed c"
proof -
  have "kept s (upd i (\<lambda>c. c\<lparr>t_droppedFrames := t_droppedFrames c + 1\<rparr>) s)"
    by (rule kept_upd [OF assms(1)]) (auto simp: conn_inv_def credit_def)
  then show "kept s t" "r = Some c \<Longrightarrow> r_objects t i = Some c \<and> \<not> c_destroyed c"
    using assms by (auto simp: live_def lookup_def kept_same split: option.splits if_splits)
qed

text \<open>Granting and replenishing return at most what is asked for.\<close>

definition grows :: "nat \<Rightarrow> int \<Rightarrow> relay \<Rightarrow> relay \<Rightarrow> bool" where
  "grows i n s t =
     (relay_inv t \<and> (\<forall>j. credit_of t j \<le> credit_of s j + (if j = i then n else 0))
      \<and> (\<forall>j. (r_objects t j = None) = (r_objects s j = None)))"

lemma kept_grows: "kept s t \<Longrightarrow> 0 \<le> n \<Longrightarrow> grows i n s t"
  by (auto simp: kept_def grows_def intro: add_increasing2)

lemma grows_same: "grows i n s t \<Longrightarrow> r_objects u = r_objects t \<Longrightarrow> grows i n s u"
  by (simp add: grows_def relay_inv_def credit_of_def)

lemma grantCredit_grows:
  assumes inv: "relay_inv s" and n: "0 \<le> n" "credit_of s i + n \<le> FRONT_CREDIT_BYTES"
  shows "grows i n s (grantCredit i n s)"
proof (cases "r_objects s i")
  case None
  then show ?thesis using kept_grows [OF kept_same [OF inv] n(1)] by (simp add: grantCredit_def)
next
  case (Some c)
  define g where "g = min n (FRONT_CREDIT_BYTES - c_grantedCredit c)"
  let ?u = "upd i (\<lambda>c. c\<lparr>c_grantedCredit := c_grantedCredit c + g\<rparr>) s"
  have c: "conn_inv c" "credit c + n \<le> FRONT_CREDIT_BYTES" "g \<le> n"
    using inv n Some by (auto simp: relay_inv_def credit_of_def g_def)
  show ?thesis
  proof (cases "g \<le> 0")
    case True
    then show ?thesis using kept_grows [OF kept_same [OF inv] n(1)] Some
      by (simp add: grantCredit_def Let_def g_def)
  next
    case False
    have "conn_inv (c\<lparr>c_grantedCredit := c_grantedCredit c + g\<rparr>)"
      using c False by (auto simp: conn_inv_def credit_def)
    then have "grows i n s ?u"
      using inv Some c(3) by (auto simp: grows_def relay_inv_def credit_of_def credit_def split: option.split)
    then have "grows i n s (send_control i (Credit (JsInt g)) ?u)" by (rule grows_same) simp
    with False Some show ?thesis by (simp add: grantCredit_def Let_def g_def)
  qed
qed

lemma replenish_grows:
  assumes inv: "relay_inv s" and n: "0 \<le> n" "credit_of s i + n \<le> FRONT_CREDIT_BYTES"
  shows "grows i n s (replenish i n s)"
  using grantCredit_grows [OF assms] kept_grows [OF kept_same [OF inv] n(1)]
  by (simp add: replenish_def split: option.split)

lemma raiseClose_kept [keeps]:
  assumes "relay_inv s"
  shows "kept s (raiseClose i s)"
proof -
  let ?t = "upd i (\<lambda>c. c\<lparr>c_closeRaised := True, c_stallTimer := False, t_destroyed := True\<rparr>) s"
  have "kept s ?t" by (rule kept_upd [OF assms]) (auto simp: conn_inv_def credit_def)
  then have "kept s u" if "r_objects u = r_objects ?t" for u using that by (rule kept_objects)
  moreover have "r_objects (upd i (\<lambda>c. c\<lparr>t_destroyed := True\<rparr>)
      (clearStallWatch i (upd i (\<lambda>c. c\<lparr>c_closeRaised := True\<rparr>) s))) = r_objects ?t"
    by (cases "r_objects s i") (auto simp: clearStallWatch_def)
  ultimately show ?thesis
    using kept_same [OF assms] by (simp add: raiseClose_def Let_def split: option.split)
qed

lemma finishClose_kept [keeps]: "relay_inv s \<Longrightarrow> kept s (finishClose i s)"
proof -
  assume inv: "relay_inv s"
  let ?t = "upd i (\<lambda>c. c\<lparr>c_pendingClose := None\<rparr>) s"
  have "kept s ?t" by (rule kept_upd [OF inv]) (auto simp: conn_inv_def credit_def)
  then have k: "kept s (?t\<lparr>r_keys := ks, r_rotation := rs, r_cursor := 0\<rparr>)" for ks rs
    by (rule kept_objects) simp
  show ?thesis unfolding finishClose_def Let_def
    by (rule kept_trans [OF k raiseClose_kept [OF kept_inv [OF k]]])
qed

lemma fold_kept:
  assumes "\<And>i s. relay_inv s \<Longrightarrow> kept s (f i s)"
  shows "relay_inv s \<Longrightarrow> kept s (fold f is s)"
proof (induction "is" arbitrary: s)
  case (Cons i "is")
  have k: "kept s (f i s)" by (rule assms [OF Cons.prems])
  show ?case using kept_trans [OF k Cons.IH [OF kept_inv [OF k]]] by simp
qed (simp add: kept_same)

lemma relay_write_kept [keeps]:
  assumes "relay_inv s"
  shows "kept s (fst (relay_write i line callback s))"
proof -
  obtain t r where l: "live i s = (t, r)" by (metis prod.exhaust)
  have t: "kept s t" "relay_inv t" using live_kept(1) [OF assms l] by (simp_all add: kept_inv)
  have u: "kept s (upd i (\<lambda>c. c\<lparr>t_droppedFrames := t_droppedFrames c + 1\<rparr>) t)"
    by (rule kept_trans [OF t(1)], rule kept_upd [OF t(2)]) (auto simp: conn_inv_def credit_def)
  have n: "kept s (t\<lparr>r_next_write := k\<rparr>)" "kept s (t\<lparr>r_next_write := k, r_microtasks := m\<rparr>)" for k m
    using t(1) by (auto intro: kept_objects)
  have p: "kept s (upd i (\<lambda>c. c\<lparr>c_pending := c_pending c @ x\<rparr>) (t\<lparr>r_next_write := k\<rparr>))" for x k
    by (rule kept_trans [OF n(1)], rule kept_upd [OF kept_inv [OF n(1)]]) (auto simp: conn_inv_def credit_def)
  have q: "kept s (pump (upd i (\<lambda>c. c\<lparr>c_pending := c_pending c @ x\<rparr>) (t\<lparr>r_next_write := k\<rparr>)))" for x k
    by (rule kept_trans [OF p pump_kept [OF kept_inv [OF p]]])
  have b: "kept s (upd i (\<lambda>c. c\<lparr>c_blocking := Some m\<rparr>)
      (pump (upd i (\<lambda>c. c\<lparr>c_pending := c_pending c @ x\<rparr>) (t\<lparr>r_next_write := k\<rparr>))))" for x k m
    by (rule kept_trans [OF q], rule kept_upd [OF kept_inv [OF q]]) (auto simp: conn_inv_def credit_def)
  have e: "kept s (emit (Fatal Unexpected_frame) (upd i (\<lambda>c. c\<lparr>c_pending := c_pending c @ x\<rparr>) (t\<lparr>r_next_write := k\<rparr>)))"
    for x k by (rule kept_trans [OF p emit_kept [OF kept_inv [OF p]]])
  show ?thesis unfolding relay_write_def l
    using t(1) u n b q e by (simp add: Let_def split: option.split)
qed

lemma relay_end_kept [keeps]:
  assumes "relay_inv s"
  shows "kept s (relay_end i s)"
proof -
  obtain t r where l: "live i s = (t, r)" by (metis prod.exhaust)
  have t: "kept s t" "relay_inv t" using live_kept(1) [OF assms l] by (simp_all add: kept_inv)
  let ?u = "upd i (\<lambda>c. c\<lparr>c_writeEnded := True, t_writableEnded := True, c_pending := c_pending c @ [Pending_end]\<rparr>) t"
  have u: "kept t ?u" by (rule kept_upd [OF t(2)]) (auto simp: conn_inv_def credit_def)
  have "kept s (pump ?u)" by (rule kept_trans [OF t(1) kept_trans [OF u pump_kept [OF kept_inv [OF u]]]])
  then show ?thesis using t(1) by (simp add: relay_end_def l split: option.split)
qed

lemma relay_destroy_kept [keeps]:
  assumes "relay_inv s"
  shows "kept s (relay_destroy i s)"
proof -
  let ?u = "upd i (\<lambda>c. c\<lparr>c_destroyed := True, c_pending := [], c_awaitingAck := [], c_unacked := [],
      c_outstanding := 0, c_blocking := None\<rparr>) s"
  have u: "kept s ?u" by (rule kept_upd [OF assms]) (auto simp: conn_inv_def credit_def FRONT_CREDIT_BYTES_def)
  have v: "kept s (send_control i Close ?u)" by (rule kept_trans [OF u send_control_kept [OF kept_inv [OF u]]])
  show ?thesis using kept_same [OF assms, of s] kept_trans [OF v raiseClose_kept [OF kept_inv [OF v]]]
    by (simp add: relay_destroy_def split: option.split)
qed

lemma set_paused_kept:
  assumes "relay_inv s" "live i s = (t, r)"
  shows "kept s (send_control i b (upd i (\<lambda>c. c\<lparr>c_paused := v\<rparr>) t))"
proof -
  have t: "kept s t" "relay_inv t" using live_kept(1) [OF assms] by (simp_all add: kept_inv)
  have "kept t (upd i (\<lambda>c. c\<lparr>c_paused := v\<rparr>) t)"
    by (rule kept_upd [OF t(2)]) (auto simp: conn_inv_def credit_def)
  from kept_trans [OF t(1) this] show ?thesis by (rule kept_objects) simp
qed

lemma relay_pause_kept [keeps]:
  assumes "relay_inv s"
  shows "kept s (relay_pause i s)"
proof -
  obtain t r where l: "live i s = (t, r)" by (metis prod.exhaust)
  show ?thesis using live_kept(1) [OF assms l] set_paused_kept [OF assms l]
    by (simp add: relay_pause_def l split: option.split)
qed

lemma resume_begin_kept [keeps]:
  assumes "relay_inv s" "resume_begin i s = (u, b)"
  shows "kept s u"
proof -
  obtain t r where l: "live i s = (t, r)" by (metis prod.exhaust)
  show ?thesis using live_kept(1) [OF assms(1) l] set_paused_kept [OF assms(1) l] assms(2)
    by (auto simp: resume_begin_def l split: option.splits if_splits)
qed

lemma closeAll_kept [keeps]:
  assumes "relay_inv s"
  shows "kept s (closeAll s)"
proof -
  let ?f = "\<lambda>i s. raiseClose i (upd i (\<lambda>c. c\<lparr>c_destroyed := True, c_pending := [],
                   c_awaitingAck := [], c_unacked := [], c_blocking := None\<rparr>) s)"
  have f: "kept t (?f i t)" if "relay_inv t" for i t
  proof -
    have "kept t (upd i (\<lambda>c. c\<lparr>c_destroyed := True, c_pending := [],
                   c_awaitingAck := [], c_unacked := [], c_blocking := None\<rparr>) t)"
      by (rule kept_upd [OF that]) (auto simp: conn_inv_def credit_def)
    then show ?thesis by (blast intro: kept_trans kept_inv raiseClose_kept)
  qed
  have k: "kept s (s\<lparr>r_closed := True, r_keys := [], r_rotation := [], r_cursor := 0\<rparr>)"
    by (rule kept_same [OF assms]) simp
  show ?thesis unfolding closeAll_def Let_def
    using kept_same [OF assms, of s] kept_trans [OF k fold_kept [where f = ?f, OF f kept_inv [OF k]]] by simp
qed

lemma handlePeerClosed_kept [keeps]:
  assumes "relay_inv s"
  shows "kept s (handlePeerClosed i through s)"
proof -
  let ?u = "upd i (\<lambda>c. c\<lparr>c_pendingClose := Some through\<rparr>) s"
  have u: "kept s ?u" by (rule kept_upd [OF assms]) (auto simp: conn_inv_def credit_def)
  show ?thesis using kept_same [OF assms, of s] u kept_trans [OF u finishClose_kept [OF kept_inv [OF u]]]
    by (simp add: handlePeerClosed_def Let_def split: option.split)
qed

lemma afterDataBatch_kept [keeps]:
  assumes "relay_inv s"
  shows "kept s (afterDataBatch s)"
proof -
  let ?f = "\<lambda>i t. case r_objects t i of None \<Rightarrow> t
      | Some c \<Rightarrow> (case c_pendingClose c of None \<Rightarrow> t
          | Some through \<Rightarrow> if dataUpDelivered (r_planes s) \<ge> int through then finishClose i t else t)"
  have "kept t (?f i t)" if "relay_inv t" for i t
    using finishClose_kept [OF that] kept_same [OF that] by (simp split: option.split)
  from fold_kept [where f = ?f, OF this assms] show ?thesis
    using kept_same [OF assms, of s] by (simp add: afterDataBatch_def Let_def)
qed

lemma release_conn_inv:
  assumes e: "conn_inv e" "\<not> c_destroyed e"
  shows "conn_inv (release_conn ack e)"
proof -
  let ?P = "\<lambda>u. u_sequence u \<le> ack"
  define gone where "gone = takeWhile ?P (c_unacked e)"
  define left where "left = dropWhile ?P (c_unacked e)"
  have split: "c_unacked e = gone @ left" by (simp add: gone_def left_def)
  have pos: "\<forall>u\<in>set gone. 0 \<le> u_bytes u" "\<forall>u\<in>set left. 0 \<le> u_bytes u"
    using e(1) by (auto simp: conn_inv_def split)
  then have "0 \<le> sum_list (map u_bytes gone)" "0 \<le> sum_list (map u_bytes left)"
    by (auto intro!: sum_list_nonneg)
  moreover have "c_outstanding e = sum_list (map u_bytes gone) + sum_list (map u_bytes left)"
    using e by (simp add: conn_inv_def split)
  ultimately show ?thesis using e pos
    by (simp add: release_conn_def gone_def [symmetric] left_def [symmetric] Let_def conn_inv_def credit_def)
qed

lemma release_kept [keeps]:
  assumes "relay_inv s" "r_objects s i = Some c" "\<not> c_destroyed c"
  shows "kept s (release i ack s)"
  unfolding release_def
proof (rule kept_upd [OF assms(1)])
  fix e
  assume "r_objects s i = Some e" "conn_inv e"
  with assms show "conn_inv (release_conn ack e) \<and> credit (release_conn ack e) \<le> credit e"
    using release_conn_inv [of e ack] by (simp add: release_conn_def credit_def Let_def)
qed

section \<open>Every run keeps the windows\<close>

lemma popped_grows:
  assumes inv: "relay_inv s" and c: "r_objects s i = Some c" "c_held c = chunk # rest"
    and r: "kept (emit (Emit_data i chunk)
      (upd i (\<lambda>c. c\<lparr>c_held := rest, c_heldBytes := c_heldBytes c - int (length chunk)\<rparr>) s)) t"
  shows "kept s (replenish i (int (length chunk)) t)"
proof -
  let ?n = "int (length chunk)"
  let ?u = "upd i (\<lambda>c. c\<lparr>c_held := rest, c_heldBytes := c_heldBytes c - ?n\<rparr>) s"
  have cu: "credit_of ?u j = credit_of s j - (if j = i then ?n else 0)" for j
    using c by (simp add: credit_of_def credit_def split: option.split)
  have lim: "credit_of s i \<le> FRONT_CREDIT_BYTES"
    using inv c by (auto simp: credit_of_def relay_inv_def conn_inv_def)
  have t: "relay_inv t" "credit_of t j \<le> credit_of ?u j"
    "(r_objects t j = None) = (r_objects s j = None)" for j
    using r by (auto simp: kept_def credit_of_def split: if_splits option.splits)
  have "grows i ?n t (replenish i ?n t)"
    by (rule replenish_grows [OF t(1)]) (use t(2) [of i] cu [of i] lim in simp_all)
  moreover have "credit_of t j + (if j = i then ?n else 0) \<le> credit_of s j" for j
    using t(2) [of j] cu [of j] by (simp split: if_splits)
  ultimately show ?thesis using t(3)
    by (fastforce simp: grows_def kept_def intro: order_trans)
qed

lemma popped_inv:
  assumes "relay_inv s" "r_objects s i = Some c" "c_held c = chunk # rest"
  shows "relay_inv (emit (Emit_data i chunk)
      (upd i (\<lambda>c. c\<lparr>c_held := rest, c_heldBytes := c_heldBytes c - int (length chunk)\<rparr>) s))"
proof (rule kept_inv [OF kept_trans [OF _ emit_kept]])
  show "kept s (upd i (\<lambda>c. c\<lparr>c_held := rest, c_heldBytes := c_heldBytes c - int (length chunk)\<rparr>) s)"
    by (rule kept_upd [OF assms(1)]) (use assms(2,3) in \<open>auto simp: conn_inv_def credit_def\<close>)
  then show "relay_inv (upd i (\<lambda>c. c\<lparr>c_held := rest, c_heldBytes := c_heldBytes c - int (length chunk)\<rparr>) s)"
    by (rule kept_inv)
qed

lemma calls_kept:
  "transport_call s t \<Longrightarrow> relay_inv s \<longrightarrow> kept s t"
  "reacts s t \<Longrightarrow> relay_inv s \<longrightarrow> kept s t"
  "flush i s t \<Longrightarrow> relay_inv s \<longrightarrow> kept s t"
proof (induction rule: transport_call_reacts_flush.inducts)
  case (call_resume_idle i s t)
  then show ?case using resume_begin_kept by blast
next
  case (call_resume i s t u)
  then show ?case using resume_begin_kept kept_trans kept_inv by blast
next
  case (reaction s t u)
  then show ?case using kept_trans kept_inv by blast
next
  case (flush_chunk s i c chunk rest t u)
  show ?case
  proof
    assume inv: "relay_inv s"
    from flush_chunk inv have k: "kept s (replenish i (int (length chunk)) t)"
      using popped_grows popped_inv by blast
    with flush_chunk show "kept s u" using kept_trans kept_inv by blast
  qed
qed (auto intro: keeps kept_same)

lemma reacts_kept [keeps]: "reacts s t \<Longrightarrow> relay_inv s \<Longrightarrow> kept s t"
  using calls_kept(2) by blast

lemma edge_kept: "relay_inv s \<Longrightarrow> reacts (emit e s) t \<Longrightarrow> kept s t"
  by (rule kept_trans [OF emit_kept reacts_kept]) (auto intro: kept_inv emit_kept)

lemma settle_at_kept [keeps]: "relay_inv s \<Longrightarrow> kept s (settle_at i k w s)"
  unfolding settle_at_def by (rule kept_upd) (auto simp: conn_inv_def credit_def)

lemma settle_loop_kept: "settle_loop i ack k s t ok \<Longrightarrow> relay_inv s \<Longrightarrow> kept s t"
proof (induction rule: settle_loop.induct)
  case (settle_silent s i c k w ack t ok)
  then show ?case using settle_at_kept kept_trans kept_inv by blast
next
  case (settle_called s i c k w ack t u ok)
  then have "kept s t" using settle_at_kept [of s i k w] edge_kept kept_trans kept_inv by blast
  with settle_called show ?case using kept_trans kept_inv by blast
qed (auto intro: kept_same)

lemma maybeDrain_kept: "maybeDrain i s t \<Longrightarrow> relay_inv s \<Longrightarrow> kept s t"
  by (auto elim!: maybeDrain.cases intro: kept_same edge_kept)

lemma handleWriteDone_kept:
  assumes "handleWriteDone i ack s v" "relay_inv s"
  shows "kept s v"
  using assms
proof (cases rule: handleWriteDone.cases)
  case (done_raised t c)
  then have t: "kept s t" "r_objects t i = Some c" "\<not> c_destroyed c" using live_kept assms(2) by auto
  have r: "kept s (release i ack t)"
    by (rule kept_trans [OF t(1) release_kept [OF kept_inv [OF t(1)] t(2,3)]])
  show ?thesis using kept_trans [OF r settle_loop_kept [OF _ kept_inv [OF r]]] done_raised by blast
next
  case (done_settled t c u)
  then have t: "kept s t" "r_objects t i = Some c" "\<not> c_destroyed c" using live_kept assms(2) by auto
  have r: "kept s (release i ack t)"
    by (rule kept_trans [OF t(1) release_kept [OF kept_inv [OF t(1)] t(2,3)]])
  have u: "kept s u" using kept_trans [OF r settle_loop_kept [OF _ kept_inv [OF r]]] done_settled by blast
  have p: "kept s (pump u)" by (rule kept_trans [OF u pump_kept [OF kept_inv [OF u]]])
  show ?thesis using kept_trans [OF p maybeDrain_kept [OF _ kept_inv [OF p]]] done_settled by blast
qed (use assms(2) live_kept(1) emit_kept kept_trans kept_inv in blast)+

lemma taken_grows:
  assumes inv: "relay_inv s" and c: "r_objects s i = Some c" "int (length payload) \<le> c_grantedCredit c"
    and r: "reacts (emit e (upd i (\<lambda>c. c\<lparr>c_grantedCredit := c_grantedCredit c - int (length payload)\<rparr>) s)) t"
  shows "kept s (replenish i (int (length payload)) t)"
    "credit_of t i \<le> credit_of s i - int (length payload)"
proof -
  let ?n = "int (length payload)"
  let ?u = "upd i (\<lambda>c. c\<lparr>c_grantedCredit := c_grantedCredit c - ?n\<rparr>) s"
  have u: "kept s ?u"
    by (rule kept_upd [OF inv]) (use c in \<open>auto simp: conn_inv_def credit_def\<close>)
  have cu: "credit_of ?u j = credit_of s j - (if j = i then ?n else 0)" for j
    using c by (simp add: credit_of_def credit_def split: option.split)
  have lim: "credit_of s i \<le> FRONT_CREDIT_BYTES"
    using inv c by (auto simp: credit_of_def relay_inv_def conn_inv_def)
  have t: "kept ?u t" using edge_kept [OF kept_inv [OF u] r] .
  then have t': "credit_of t j \<le> credit_of ?u j" for j by (simp add: kept_def)
  have ci: "credit_of ?u i = credit_of s i - ?n" using cu [of i] by simp
  show "credit_of t i \<le> credit_of s i - ?n" using t' [of i] unfolding ci .
  have "grows i ?n t (replenish i ?n t)"
    by (rule replenish_grows [OF kept_inv [OF t]]) (use t' [of i] ci lim in simp_all)
  moreover have "credit_of t j + (if j = i then ?n else 0) \<le> credit_of s j" for j
    using t' [of j] cu [of j] by (simp split: if_splits)
  ultimately show "kept s (replenish i ?n t)" using t u
    by (fastforce simp: grows_def kept_def intro: order_trans)
qed

lemma handleData_kept:
  assumes "handleData i payload s v" "relay_inv s"
  shows "kept s v"
  using assms
proof (cases rule: handleData.cases)
  case (data_held t c)
  then have t: "kept s t" "r_objects t i = Some c" using live_kept assms(2) by auto
  have "kept t v" unfolding data_held
    by (rule kept_upd [OF kept_inv [OF t(1)]]) (use t data_held in \<open>auto simp: conn_inv_def credit_def\<close>)
  then show ?thesis by (rule kept_trans [OF t(1)])
next
  case (data_delivered t c u)
  then have t: "kept s t" "r_objects t i = Some c" using live_kept assms(2) by auto
  have "kept t v" unfolding data_delivered(1)
    by (rule taken_grows(1) [OF kept_inv [OF t(1)] t(2)]) (use data_delivered in simp_all)
  then show ?thesis by (rule kept_trans [OF t(1)])
qed (use assms(2) live_kept(1) emit_kept kept_trans kept_inv in blast)+

lemma handleEnd_kept:
  assumes "handleEnd i s v" "relay_inv s"
  shows "kept s v"
  using assms
proof (cases rule: handleEnd.cases)
  case (end_raised t c)
  have t: "kept s t" using live_kept end_raised assms(2) by auto
  have u: "kept t (upd i (\<lambda>c. c\<lparr>c_readEnded := True, t_readableEnded := True\<rparr>) t)"
    by (rule kept_upd [OF kept_inv [OF t]]) (auto simp: conn_inv_def credit_def)
  show ?thesis using kept_trans [OF t kept_trans [OF u edge_kept [OF kept_inv [OF u]]]] end_raised by blast
qed (use assms(2) live_kept(1) emit_kept kept_trans kept_inv in blast)+

lemma handleDataFrame_kept: "handleDataFrame i body s v \<Longrightarrow> relay_inv s \<Longrightarrow> kept s v"
  by (auto elim!: handleDataFrame.cases intro: kept_same emit_kept handleData_kept handleEnd_kept)

text \<open>Opening is the one step that grants credit, to a connection the map does not have.\<close>

lemma handleOpen_inv:
  assumes "handleOpen refusal epoch i s v" "relay_inv s"
  shows "relay_inv v" "i \<in> set (r_keys s) \<Longrightarrow> kept s v" "j \<noteq> i \<Longrightarrow> credit_of v j \<le> credit_of s j"
proof -
  have "relay_inv v \<and> (i \<in> set (r_keys s) \<longrightarrow> kept s v) \<and> (j \<noteq> i \<longrightarrow> credit_of v j \<le> credit_of s j)"
    using assms
  proof (cases rule: handleOpen.cases)
    case open_repeated
    then show ?thesis using emit_kept [OF assms(2)] by (auto simp: kept_def)
  next
    case (open_refused line)
    then show ?thesis using send_control_kept [OF assms(2)] by (auto simp: kept_def)
  next
    case (open_admitted t)
    let ?s = "send_control i (Admit (num epoch)) (s\<lparr>r_objects := (r_objects s)(i \<mapsto> new_connection),
        r_keys := r_keys s @ [i], r_rotation := r_rotation s @ [i]\<rparr>)"
    have "conn_inv new_connection"
      by (simp add: conn_inv_def credit_def new_connection_def FRONT_CREDIT_BYTES_def)
    then have s: "relay_inv ?s" "credit_of ?s j = (if j = i then 0 else credit_of s j)" for j
      using assms(2) by (auto simp: relay_inv_def credit_of_def credit_def new_connection_def)
    have g: "grows i FRONT_CREDIT_BYTES ?s t" unfolding open_admitted(3)
      by (rule grantCredit_grows [OF s(1)]) (simp_all add: s FRONT_CREDIT_BYTES_def)
    then have "kept t v" using edge_kept open_admitted by (auto simp: grows_def)
    then have "relay_inv v" "credit_of v j \<le> credit_of t j" by (auto simp: kept_def)
    moreover have "credit_of t j \<le> credit_of ?s j + (if j = i then FRONT_CREDIT_BYTES else 0)"
      using g by (simp add: grows_def)
    ultimately show ?thesis using s(2) [of j] open_admitted by (auto split: if_splits)
  qed
  then show "relay_inv v" "i \<in> set (r_keys s) \<Longrightarrow> kept s v" "j \<noteq> i \<Longrightarrow> credit_of v j \<le> credit_of s j" by auto
qed

inductive_cases open_frame_elim: "handleControlFrame refusal epoch i Open s t"

lemma handleControlFrame_step:
  assumes "handleControlFrame refusal epoch i body s v" "relay_inv s"
  shows "relay_inv v \<and> (\<forall>j\<in>set (r_keys s). credit_of v j \<le> credit_of s j)"
  using assms
proof (cases rule: handleControlFrame.cases)
  case control_open
  have "credit_of v j \<le> credit_of s j" if "j \<in> set (r_keys s)" for j
  proof (cases "j = i")
    case True
    with handleOpen_inv(2) [OF control_open(3) assms(2)] that show ?thesis by (simp add: kept_def)
  next
    case False
    then show ?thesis by (rule handleOpen_inv(3) [OF control_open(3) assms(2)])
  qed
  then show ?thesis using handleOpen_inv(1) [OF control_open(3) assms(2)] by blast
next
  case (control_done through)
  then show ?thesis using handleWriteDone_kept assms(2) by (auto simp: kept_def)
next
  case (control_peer_closed reason through)
  then show ?thesis using handlePeerClosed_kept [OF assms(2), of i "nat through"] by (simp add: kept_def)
next
  case control_other
  then show ?thesis using emit_kept [OF assms(2)] by (auto simp: kept_def)
qed simp

lemma relay_step_inv:
  assumes "relay_step s t" "relay_inv s"
  shows "relay_inv t \<and> (\<forall>j\<in>set (r_keys s). credit_of t j \<le> credit_of s j)"
  using assms
proof (cases rule: relay_step.cases)
  case (step_control refusal epoch i body)
  then show ?thesis using handleControlFrame_step assms(2) by blast
next
  case (step_data i body)
  then show ?thesis using handleDataFrame_kept assms(2) by (auto simp: kept_def)
next
  case step_batch
  then show ?thesis using afterDataBatch_kept assms(2) by (simp add: kept_def)
next
  case step_call
  then show ?thesis using calls_kept(1) assms(2) by (auto simp: kept_def)
next
  case (step_close_edge i rest)
  have m: "kept s (s\<lparr>r_microtasks := rest\<rparr>)" by (rule kept_same [OF assms(2)]) simp
  from kept_trans [OF m edge_kept [OF kept_inv [OF m]]] step_close_edge show ?thesis by (auto simp: kept_def)
next
  case (step_callback k rest)
  have m: "kept s (s\<lparr>r_microtasks := rest\<rparr>)" by (rule kept_same [OF assms(2)]) simp
  from kept_trans [OF m reacts_kept [OF _ kept_inv [OF m]]] step_callback show ?thesis by (auto simp: kept_def)
next
  case (step_stall i)
  then show ?thesis using stallTimeout_kept [OF assms(2)] by (simp add: kept_def)
next
  case (step_planes p)
  then show ?thesis using kept_same [OF assms(2), of t] by (simp add: kept_def)
qed

lemma reachable_inv: "relay_reachable s \<Longrightarrow> relay_inv s"
proof (induction rule: relay_reachable.induct)
  case (start planes)
  then show ?case by (simp add: relay_inv_def new_relay_def)
next
  case (step s t)
  then show ?case using relay_step_inv by blast
qed

text \<open>The rest of a connection's life in the relay's map.\<close>

inductive life :: "nat \<Rightarrow> relay \<Rightarrow> relay \<Rightarrow> bool" for i where
  life_here: "life i s s"
| life_step: "life i s t \<Longrightarrow> i \<in> set (r_keys t) \<Longrightarrow> relay_step t u \<Longrightarrow> life i s u"

lemma life_credit: "life i s t \<Longrightarrow> relay_inv s \<Longrightarrow> relay_inv t \<and> credit_of t i \<le> credit_of s i"
proof (induction rule: life.induct)
  case (life_step s t u)
  then show ?case using relay_step_inv [of t u] by force
qed simp

section \<open>Correctness of the relay\<close>

text \<open>
  C3: The windows hold. In every reachable state, whatever the peers, the front and the consumers
  do, a connection's unacknowledged bytes are those of its unacknowledged chunks and at most
  65536; the bytes it holds for a paused consumer are those of the held chunks and, together with
  what the front may still send, at most 65536.
\<close>

theorem relay_windows:
  assumes "relay_reachable s" "r_objects s i = Some c"
  shows "0 \<le> c_outstanding c \<and> c_outstanding c \<le> FRONT_CREDIT_BYTES
    \<and> (c_destroyed c \<or> c_outstanding c = sum_list (map u_bytes (c_unacked c)))
    \<and> c_heldBytes c = int (sum_list (map length (c_held c))) \<and> 0 \<le> c_grantedCredit c
    \<and> c_grantedCredit c + c_heldBytes c \<le> FRONT_CREDIT_BYTES"
proof -
  have "conn_inv c" using reachable_inv [OF assms(1)] assms(2) by (simp add: relay_inv_def)
  then show ?thesis unfolding conn_inv_def credit_def by blast
qed

text \<open>A relay that has admitted connection 1, on a bootstrapped front.\<close>

definition relay_opened :: relay where
  "relay_opened =
     emit (Connected 1) (grantCredit 1 FRONT_CREDIT_BYTES (send_control 1 (Admit (num 0))
       ((new_relay (newFrontPlanes\<lparr>fp_generation := 5\<rparr>))
          \<lparr>r_objects := [1 \<mapsto> new_connection], r_keys := [1], r_rotation := [1]\<rparr>)))"

lemma relay_opened_reachable: "relay_reachable relay_opened"
proof (rule relay_reachable.step [OF relay_reachable.start])
  let ?s = "new_relay (newFrontPlanes\<lparr>fp_generation := 5\<rparr>)"
  have "handleOpen None 0 1 ?s relay_opened"
    unfolding relay_opened_def by (rule open_admitted [OF _ refl]) (simp_all add: new_relay_def quiet)
  moreover have "\<not> r_closed ?s" by (simp add: new_relay_def)
  ultimately show "relay_step ?s relay_opened" by (blast intro: step_control control_open)
qed

lemma relay_opened_object:
  "r_objects relay_opened 1 = Some (new_connection\<lparr>c_grantedCredit := FRONT_CREDIT_BYTES\<rparr>)"
  by (simp add: relay_opened_def grantCredit_def Let_def new_connection_def FRONT_CREDIT_BYTES_def)

lemma relay_windows_witness:
  "let c = new_connection\<lparr>c_grantedCredit := FRONT_CREDIT_BYTES\<rparr>
   in 0 \<le> c_outstanding c \<and> c_outstanding c \<le> FRONT_CREDIT_BYTES
    \<and> (c_destroyed c \<or> c_outstanding c = sum_list (map u_bytes (c_unacked c)))
    \<and> c_heldBytes c = int (sum_list (map length (c_held c))) \<and> 0 \<le> c_grantedCredit c
    \<and> c_grantedCredit c + c_heldBytes c \<le> FRONT_CREDIT_BYTES"
  using relay_windows [OF relay_opened_reachable relay_opened_object] unfolding Let_def .

text \<open>
  A pause inside a data edge costs the connection the chunk's credit for good. When the consumer
  of a flowing connection pauses while it is handed a chunk, the chunk is delivered, its bytes are
  not granted again, and nothing that happens later in the connection's life, resuming included,
  brings the credit back.
\<close>

theorem pause_in_edge_loses_credit:
  assumes "relay_reachable s" "lookup i s = Some c" "\<not> c_destroyed c" "\<not> c_readEnded c" "\<not> c_paused c"
    "int (length payload) \<le> c_grantedCredit c"
  shows "\<exists>t. handleData i payload s t \<and> Emit_data i payload \<in> set (r_trace t)
    \<and> (\<forall>u. life i t u \<longrightarrow> credit_of u i \<le> credit c - int (length payload))"
proof -
  let ?n = "int (length payload)"
  let ?a = "emit (Emit_data i payload) (upd i (\<lambda>c. c\<lparr>c_grantedCredit := c_grantedCredit c - ?n\<rparr>) s)"
  define t where "t = relay_pause i ?a"
  have inv: "relay_inv s" by (rule reachable_inv [OF assms(1)])
  have o: "r_objects s i = Some c" and key: "i \<in> set (r_keys s)"
    using assms(2) by (auto simp: lookup_def split: if_splits)
  have l: "live i s = (s, Some c)" using assms(2,3) by (simp add: live_def)
  have r: "reacts ?a t" unfolding t_def by (rule reaction [OF call_pause quiet])
  have pos: "credit_of s i = credit c" by (simp add: credit_of_def o)
  have paused: "\<exists>d. r_objects t i = Some d \<and> c_paused d"
    using o assms(3,5) key by (simp add: t_def relay_pause_def live_def lookup_def)
  then have "replenish i ?n t = t" by (auto simp: replenish_def)
  moreover have "handleData i payload s (replenish i ?n t)"
    by (rule data_delivered [OF l assms(4,6,5) r])
  ultimately have h: "handleData i payload s t" by simp
  have "credit_of t i \<le> credit c - ?n" using taken_grows(2) [OF inv o assms(6) r] pos by simp
  moreover have "relay_inv t" using handleData_kept [OF h inv] by (rule kept_inv)
  ultimately have "\<forall>u. life i t u \<longrightarrow> credit_of u i \<le> credit c - ?n"
    using life_credit by (meson order_trans)
  moreover have "Emit_data i payload \<in> set (r_trace t)"
    using o assms(3,5) key
    by (simp add: t_def relay_pause_def live_def lookup_def send_control_def split: sum.split prod.split)
  ultimately show ?thesis using h by blast
qed

lemma pause_in_edge_loses_credit_witness:
  "\<exists>t. handleData 1 (replicate 32768 7) relay_opened t
     \<and> Emit_data 1 (replicate 32768 7) \<in> set (r_trace t) \<and> credit_of t 1 \<le> 32768"
proof -
  have "lookup 1 relay_opened = Some (new_connection\<lparr>c_grantedCredit := FRONT_CREDIT_BYTES\<rparr>)"
    using relay_opened_object
    by (simp add: lookup_def) (simp add: relay_opened_def grantCredit_def Let_def new_connection_def FRONT_CREDIT_BYTES_def)
  from pause_in_edge_loses_credit [OF relay_opened_reachable this, of "replicate 32768 7"]
  show ?thesis
    by (auto simp: new_connection_def FRONT_CREDIT_BYTES_def credit_def intro: life_here)
qed

end
