(* ===== verification/FrontSupervisor.thy ===== *)
theory FrontSupervisor
  imports FrontHandshake FrontRelayRuns
begin

text \<open>
  The supervisor of the pipe front (\<open>mcp-host/front-supervisor.ts\<close>): the child processes it spawns,
  their bring-up, \<open>LOCK\<close> and \<open>QUIT\<close>, the one failure path and the restart budget. It is composed of
  the planes, the relay, the handshake and the admission door of the other theories.

  Child processes are objects: \<open>s_children\<close> holds them by spawn token, \<open>s_live\<close> is the token of
  \<open>this.live\<close>, \<open>s_planes\<close> are its planes (those in the relay, while there is one; those of the
  others are disposed and reach nothing). Spawning is an
  input: \<open>d_spawn\<close> gives the pid of a token's child, or \<open>None\<close> where spawning throws. A promise
  that waits for an exit is an entry of \<open>s_waits\<close>. The relay reports a fatal fault in its trace;
  the supervisor acts on it when the relay's handler returns. Log lines, the transition callback
  and the details of failures are left out.
\<close>

section \<open>State\<close>

datatype supervisor_state = Idle | Starting | Serving | Locking | Quitting | Stopped | Failed

text \<open>The last two fields are history: \<open>kill\<close> was called, the \<open>error\<close> edge was raised.\<close>

record live_child =
  l_pid :: "nat option"
  l_acked :: bool
  l_bound :: bool
  l_settled :: bool
  l_exited :: bool
  l_killed :: bool
  l_errored :: bool

datatype wait_purpose = Restart_wait | Quit_wait

record exit_wait =
  x_child :: nat
  x_purpose :: wait_purpose
  x_observed :: "bool option"

text \<open>
  \<open>s_gone\<close> (the relays let go of), \<open>s_outcomes\<close> (what \<open>start\<close> resolved with, \<open>None\<close> for started)
  and \<open>s_raised\<close> (an exception left a handler) are history.
\<close>

record supervisor =
  s_state :: supervisor_state
  s_failureName :: "front_failure_name option"
  s_children :: "nat \<Rightarrow> live_child option"
  s_live :: "nat option"
  s_planes :: front_planes
  s_relay :: "relay option"
  s_seen :: "js_number list"
  s_restartCount :: nat
  s_spawnToken :: nat
  s_quitRequested :: bool
  s_bringupTimer :: "nat option"
  s_lockTimer :: bool
  s_unobservedExitPid :: "nat option option"
  s_startSettle :: bool
  s_quitAck :: bool
  s_quitting :: bool
  s_waits :: "exit_wait list"
  s_admission :: admission
  s_gone :: "relay list"
  s_outcomes :: "front_failure_name option list"
  s_raised :: bool

record supervisor_deps =
  d_pipeName :: utf16
  d_timeoutRefusal :: utf16
  d_refusal :: "studio_admission \<Rightarrow> utf16"
  d_spawn :: "nat \<Rightarrow> nat option option"

definition FRONT_MAX_RESTARTS :: nat where
  "FRONT_MAX_RESTARTS = 5"

definition new_supervisor :: "admission \<Rightarrow> supervisor" where
  "new_supervisor a =
     \<lparr>s_state = Idle, s_failureName = None, s_children = (\<lambda>_. None), s_live = None, s_planes = newFrontPlanes,
      s_relay = None, s_seen = [], s_restartCount = 0, s_spawnToken = 0, s_quitRequested = False, s_bringupTimer = None,
      s_lockTimer = False, s_unobservedExitPid = None, s_startSettle = False, s_quitAck = False,
      s_quitting = False, s_waits = [], s_admission = a, s_gone = [], s_outcomes = [], s_raised = False\<rparr>"

definition new_child :: "nat option \<Rightarrow> live_child" where
  "new_child pid =
     \<lparr>l_pid = pid, l_acked = False, l_bound = False, l_settled = False,
      l_exited = False, l_killed = False, l_errored = False\<rparr>"

section \<open>Objects\<close>

definition upd_child :: "nat \<Rightarrow> (live_child \<Rightarrow> live_child) \<Rightarrow> supervisor \<Rightarrow> supervisor" where
  "upd_child t f s = s\<lparr>s_children := (s_children s)(t := map_option f (s_children s t))\<rparr>"

text \<open>The child of a token; a token in use always has one.\<close>

definition child :: "nat \<Rightarrow> supervisor \<Rightarrow> live_child" where
  "child t s = (case s_children s t of Some c \<Rightarrow> c | None \<Rightarrow> new_child None)"

definition planes_of :: "supervisor \<Rightarrow> front_planes" where
  "planes_of s = (case s_relay s of Some r \<Rightarrow> r_planes r | None \<Rightarrow> s_planes s)"

definition put_planes :: "front_planes \<Rightarrow> supervisor \<Rightarrow> supervisor" where
  "put_planes p s =
     (case s_relay s of
        Some r \<Rightarrow> s\<lparr>s_relay := Some (r\<lparr>r_planes := p\<rparr>)\<rparr>
      | None \<Rightarrow> s\<lparr>s_planes := p\<rparr>)"

text \<open>\<open>this.relay?.closeAll(..)\<close>, and the relay let go of.\<close>

definition close_relay :: "supervisor \<Rightarrow> supervisor" where
  "close_relay s = s\<lparr>s_relay := map_option closeAll (s_relay s)\<rparr>"

definition drop_relay :: "supervisor \<Rightarrow> supervisor" where
  "drop_relay s =
     (case s_relay (close_relay s) of
        None \<Rightarrow> s
      | Some r \<Rightarrow> s\<lparr>s_relay := None, s_planes := r_planes r, s_gone := r # s_gone s\<rparr>)"

definition clearTimers :: "supervisor \<Rightarrow> supervisor" where
  "clearTimers s = s\<lparr>s_bringupTimer := None, s_lockTimer := False\<rparr>"

definition settleStart :: "front_failure_name option \<Rightarrow> supervisor \<Rightarrow> supervisor" where
  "settleStart result s =
     (if s_startSettle s then s\<lparr>s_startSettle := False, s_outcomes := s_outcomes s @ [result]\<rparr> else s)"

text \<open>The relay and the live child let go of: closed, disposed, and killed unless already dead.\<close>

definition drop_live :: "bool \<Rightarrow> supervisor \<Rightarrow> supervisor" where
  "drop_live alreadyDead s =
     (let s1 = drop_relay s
      in case s_live s1 of
           None \<Rightarrow> s1
         | Some t \<Rightarrow>
             upd_child t (\<lambda>c. c\<lparr>l_killed := l_killed c \<or> \<not> alreadyDead\<rparr>)
               (s1\<lparr>s_live := None, s_planes := planes_dispose (s_planes s1)\<rparr>))"

section \<open>Failure and restart\<close>

text \<open>A signal counts when it is the live child's first, or the last spawn's while none is live.\<close>

definition fail_counts :: "nat \<Rightarrow> supervisor \<Rightarrow> bool" where
  "fail_counts token s =
     (case s_live s of
        Some t \<Rightarrow> t = token \<and> \<not> l_settled (child t s)
      | None \<Rightarrow> token = s_spawnToken s)"

definition settle_live :: "supervisor \<Rightarrow> supervisor" where
  "settle_live s =
     (case s_live s of None \<Rightarrow> s | Some t \<Rightarrow> upd_child t (\<lambda>c. c\<lparr>l_settled := True\<rparr>) s)"

definition finishFailed :: "front_failure_name \<Rightarrow> supervisor \<Rightarrow> supervisor" where
  "finishFailed failure s = settleStart (Some failure) (s\<lparr>s_state := Failed, s_failureName := Some failure\<rparr>)"

text \<open>\<open>awaitChildExit\<close>: resolved at once where the exit was already seen.\<close>

definition awaitChildExit :: "nat \<Rightarrow> wait_purpose \<Rightarrow> supervisor \<Rightarrow> supervisor" where
  "awaitChildExit t purpose s =
     s\<lparr>s_waits := s_waits s @ [\<lparr>x_child = t, x_purpose = purpose,
                               x_observed = (if l_exited (child t s) then Some True else None)\<rparr>]\<rparr>"

definition hello_body :: "supervisor_deps \<Rightarrow> supervisor \<Rightarrow> front_body" where
  "hello_body d s =
     frame_body (composeFrontHello (d_pipeName d) (studioAdmissionEpoch (s_admission s)) (d_timeoutRefusal d))"

definition fail_teardown :: "bool \<Rightarrow> supervisor \<Rightarrow> supervisor" where
  "fail_teardown alreadyDead s = drop_live alreadyDead (clearTimers (s\<lparr>s_unobservedExitPid := None\<rparr>))"

lemma settle_live_count [simp]: "s_restartCount (settle_live s) = s_restartCount s"
  by (simp add: settle_live_def upd_child_def split: option.split)

lemma fail_teardown_count [simp]: "s_restartCount (fail_teardown dead s) = s_restartCount s"
  by (simp add: fail_teardown_def drop_live_def drop_relay_def clearTimers_def upd_child_def Let_def
      split: option.split)

text \<open>
  The failure path, the restart it schedules and the spawn that follows. \<open>resumeRestart\<close> is the
  continuation of \<open>scheduleRestart\<close>: called at once where there is no child to wait for.
\<close>

function (sequential) fail :: "supervisor_deps \<Rightarrow> nat \<Rightarrow> front_failure_name \<Rightarrow> bool \<Rightarrow> supervisor \<Rightarrow> supervisor"
  and resumeRestart :: "supervisor_deps \<Rightarrow> nat option \<Rightarrow> bool \<Rightarrow> supervisor \<Rightarrow> supervisor"
  and spawnOnce :: "supervisor_deps \<Rightarrow> supervisor \<Rightarrow> supervisor"
where
  "fail d token failure alreadyDead s =
     (if \<not> fail_counts token s then s
      else if s_state s = Stopped \<or> s_quitRequested s then settle_live s
      else
        let live = s_live s; s1 = fail_teardown alreadyDead (settle_live s)
        in if \<not> frontFailureIsRestartable failure then finishFailed failure s1
           else if s_restartCount s \<le> FRONT_MAX_RESTARTS
           then let s2 = s1\<lparr>s_restartCount := s_restartCount s + 1, s_state := Starting\<rparr>
                in case live of
                     None \<Rightarrow> resumeRestart d None True s2
                   | Some t \<Rightarrow> awaitChildExit t Restart_wait s2
           else finishFailed Restart_budget_exhausted s1)"
| "resumeRestart d previous observed s =
     (if s_quitRequested s \<or> s_state s = Stopped \<or> s_live s \<noteq> None then s
      else spawnOnce d
        (case previous of
           Some t \<Rightarrow> if observed then s else s\<lparr>s_unobservedExitPid := Some (l_pid (child t s))\<rparr>
         | None \<Rightarrow> s))"
| "spawnOnce d s =
     (let token = s_spawnToken s + 1;
          s1 = s\<lparr>s_state := Starting, s_failureName := None, s_spawnToken := token\<rparr>
      in case d_spawn d token of
           None \<Rightarrow> fail d token Spawn_failed True s1
         | Some pid \<Rightarrow>
             let s2 = s1\<lparr>s_children := (s_children s1)(token \<mapsto> new_child pid), s_live := Some token,
                         s_planes := newFrontPlanes, s_bringupTimer := Some token\<rparr>
             in case writeControl (planes_of s2) True 0 (hello_body d s2) of
                  Inl _ \<Rightarrow> fail d token Spawn_failed False s2
                | Inr (p, _) \<Rightarrow> put_planes p s2)"
  by pat_completeness auto
termination
  by (relation "measure (\<lambda>x. case x of
        Inl (d, token, failure, dead, s) \<Rightarrow> 3 * (7 - s_restartCount s)
      | Inr (Inl (d, previous, observed, s)) \<Rightarrow> 3 * (7 - s_restartCount s) + 2
      | Inr (Inr (d, s)) \<Rightarrow> 3 * (7 - s_restartCount s) + 1)")
    (auto simp: FRONT_MAX_RESTARTS_def Let_def split: option.split)

declare fail.simps [simp del] resumeRestart.simps [simp del] spawnOnce.simps [simp del]

text \<open>A signal that does not count, and one that does.\<close>

definition fail_heard :: "nat \<Rightarrow> supervisor \<Rightarrow> bool" where
  "fail_heard token s = (fail_counts token s \<and> s_state s \<noteq> Stopped \<and> \<not> s_quitRequested s)"

lemma fail_ignored:
  "\<not> fail_heard token s \<Longrightarrow> fail d token failure dead s = s \<or> fail d token failure dead s = settle_live s"
  by (subst (1 2) fail.simps) (simp add: fail_heard_def)

lemma fail_accounted:
  "fail_heard token s \<Longrightarrow> fail d token failure dead s =
     (let s1 = fail_teardown dead (settle_live s);
          s2 = s1\<lparr>s_restartCount := s_restartCount s + 1, s_state := Starting\<rparr>
      in if \<not> frontFailureIsRestartable failure then finishFailed failure s1
         else if s_restartCount s \<le> FRONT_MAX_RESTARTS
         then (case s_live s of None \<Rightarrow> resumeRestart d None True s2 | Some t \<Rightarrow> awaitChildExit t Restart_wait s2)
         else finishFailed Restart_budget_exhausted s1)"
  by (subst fail.simps) (simp add: fail_heard_def Let_def)

text \<open>A failure the current child produced.\<close>

definition failCurrent :: "supervisor_deps \<Rightarrow> front_failure_name \<Rightarrow> supervisor \<Rightarrow> supervisor" where
  "failCurrent d failure s =
     (case s_live s of None \<Rightarrow> s | Some t \<Rightarrow> fail d t failure False s)"

section \<open>Frames from the front\<close>

text \<open>The supervisor's own control frames; the flag tells whether the batch goes on.\<close>

definition handleHelloAck :: "supervisor_deps \<Rightarrow> front_body \<Rightarrow> nat \<Rightarrow> supervisor \<Rightarrow> supervisor \<times> bool" where
  "handleHelloAck d body t s =
     (if l_acked (child t s) then (failCurrent d Unexpected_front_frame s, False)
      else case validateFrontHelloAck body (l_pid (child t s)) (s_seen s) of
             Inl failure \<Rightarrow> (failCurrent d failure s, False)
           | Inr _ \<Rightarrow>
               let s1 = upd_child t (\<lambda>c. c\<lparr>l_acked := True\<rparr>)
                          (s\<lparr>s_seen := s_seen s @ [announcedGeneration body]\<rparr>);
                   (p, thrown) = planes_adoptGeneration (planes_of s1) (nat (int_of_js (announcedGeneration body)));
                   s2 = put_planes p s1
               in if thrown = None then (s2, True) else (s2\<lparr>s_raised := True\<rparr>, False))"

definition handleBound :: "supervisor_deps \<Rightarrow> front_body \<Rightarrow> nat \<Rightarrow> supervisor \<Rightarrow> supervisor \<times> bool" where
  "handleBound d body t s =
     (if \<not> l_acked (child t s) \<or> l_bound (child t s) then (failCurrent d Unexpected_front_frame s, False)
      else case validateFrontBound body (d_pipeName d) of
             Inl failure \<Rightarrow> (failCurrent d failure s, False)
           | Inr _ \<Rightarrow>
               let s1 = upd_child t (\<lambda>c. c\<lparr>l_bound := True\<rparr>) s;
                   s2 = s1\<lparr>s_bringupTimer := None, s_unobservedExitPid := None,
                           s_relay := Some (new_relay (planes_of s1)), s_state := Serving\<rparr>
               in (settleStart None s2, True))"

definition handleErrorFrame :: "supervisor_deps \<Rightarrow> js_number \<Rightarrow> supervisor \<Rightarrow> supervisor \<times> bool" where
  "handleErrorFrame d code s =
     (case pipeFrontErrorCodeName (nat (int_of_js code)) of
        None \<Rightarrow> (failCurrent d Front_error_frame s, False)
      | Some name \<Rightarrow>
          if name = front_error.Sddl_readback_mismatch then (failCurrent d front_failure_name.Sddl_readback_mismatch s, False)
          else if name = front_error.Admission_epoch_exhausted then (failCurrent d front_failure_name.Admission_epoch_exhausted s, False)
          else (s, True))"

definition ownFrame :: "supervisor_deps \<Rightarrow> front_body \<Rightarrow> nat \<Rightarrow> supervisor \<Rightarrow> supervisor \<times> bool" where
  "ownFrame d body t s =
     (case body of
        Hello_ack _ _ _ _ _ \<Rightarrow> handleHelloAck d body t s
      | Bound _ _ \<Rightarrow> handleBound d body t s
      | Lock_ack _ _ \<Rightarrow>
          ((let s1 = s\<lparr>s_lockTimer := False\<rparr>
            in if s_state s1 = Locking then s1\<lparr>s_state := Serving\<rparr> else s1), True)
      | Quit_ack \<Rightarrow> (s\<lparr>s_quitAck := False\<rparr>, True)
      | Pong _ \<Rightarrow> (s, True)
      | Error code _ \<Rightarrow> handleErrorFrame d code s
      | _ \<Rightarrow> (failCurrent d Unexpected_front_frame s, False))"

definition relay_types :: "frame_type set" where
  "relay_types = {OPEN, WRITE_DONE, PEER_CLOSED}"

text \<open>\<open>refuseBeforeRead\<close>: the text to refuse a connection with, unless the door is ready.\<close>

definition refuseBeforeRead :: "supervisor_deps \<Rightarrow> unready_code option \<Rightarrow> admission \<Rightarrow> utf16 option" where
  "refuseBeforeRead d readiness a =
     (let answer = studioAdmission a readiness
      in if answer = Admission_ready then None else Some (d_refusal d answer))"

fun relay_failure :: "front_failure \<Rightarrow> front_failure_name" where
  "relay_failure Unexpected_frame = Unexpected_front_frame"
| "relay_failure Ack_regression = Ack_regression_failure"
| "relay_failure Data_after_end = Data_after_end_failure"
| "relay_failure Credit_overrun = Credit_overrun_failure"

text \<open>The first fatal fault a relay reported on the way from \<open>r\<close> to \<open>r'\<close>.\<close>

fun first_fatal :: "relay_event list \<Rightarrow> front_failure option" where
  "first_fatal [] = None"
| "first_fatal (Fatal f # es) = Some f"
| "first_fatal (_ # es) = first_fatal es"

definition after_relay :: "supervisor_deps \<Rightarrow> relay \<Rightarrow> relay \<Rightarrow> supervisor \<Rightarrow> supervisor" where
  "after_relay d r r' s =
     (let s1 = s\<lparr>s_relay := Some r'\<rparr>
      in case first_fatal (drop (length (r_trace r)) (r_trace r')) of
           None \<Rightarrow> s1
         | Some f \<Rightarrow> failCurrent d (relay_failure f) s1)"

definition frame_id :: "front_frame \<Rightarrow> nat" where
  "frame_id frame = nat (int_of_js (frame_connection frame))"

inductive controlFrame ::
    "supervisor_deps \<Rightarrow> unready_code option \<Rightarrow> front_frame \<Rightarrow> supervisor \<Rightarrow> supervisor \<Rightarrow> bool \<Rightarrow> bool"
  for d readiness frame
where
  frame_dead: "s_live s = None \<Longrightarrow> controlFrame d readiness frame s s False"
| frame_own: "s_live s = Some t \<Longrightarrow> body_type (frame_body frame) \<notin> relay_types \<Longrightarrow>
    ownFrame d (frame_body frame) t s = (u, go) \<Longrightarrow> controlFrame d readiness frame s u go"
| frame_early: "s_live s = Some t \<Longrightarrow> body_type (frame_body frame) \<in> relay_types \<Longrightarrow> s_relay s = None \<Longrightarrow>
    controlFrame d readiness frame s (failCurrent d Unexpected_front_frame s) False"
| frame_relay: "s_live s = Some t \<Longrightarrow> body_type (frame_body frame) \<in> relay_types \<Longrightarrow> s_relay s = Some r \<Longrightarrow>
    handleControlFrame (refuseBeforeRead d readiness (s_admission s)) (studioAdmissionEpoch (s_admission s))
      (frame_id frame) (frame_body frame) r r' \<Longrightarrow>
    u = after_relay d r r' s \<Longrightarrow> go = (s_state u = Serving \<or> s_state u = Locking) \<Longrightarrow>
    controlFrame d readiness frame s u go"

inductive controlBatch ::
    "supervisor_deps \<Rightarrow> unready_code option \<Rightarrow> decode_event list \<Rightarrow> supervisor \<Rightarrow> supervisor \<Rightarrow> bool"
  for d readiness
where
  batch_done: "controlBatch d readiness [] s s"
| batch_malformed: "controlBatch d readiness (Malformed_frame m # es) s (failCurrent d Malformed_front_frame s)"
| batch_raised: "controlBatch d readiness (Range_error # es) s (s\<lparr>s_raised := True\<rparr>)"
| batch_stop: "controlFrame d readiness frame s t False \<Longrightarrow> controlBatch d readiness (Frame frame # es) s t"
| batch_go: "controlFrame d readiness frame s t True \<Longrightarrow> controlBatch d readiness es t u \<Longrightarrow>
    controlBatch d readiness (Frame frame # es) s u"

text \<open>
  A batch of plane 6. The relay is the one there was at the start: once it is let go of it is
  closed and takes nothing more.
\<close>

inductive dataBatch :: "supervisor_deps \<Rightarrow> decode_event list \<Rightarrow> supervisor \<Rightarrow> supervisor \<Rightarrow> bool" for d where
  data_done: "s_relay s = Some r \<Longrightarrow> dataBatch d [] s (s\<lparr>s_relay := Some (afterDataBatch r)\<rparr>)"
| data_done_early: "s_relay s = None \<Longrightarrow> dataBatch d [] s s"
| data_malformed: "dataBatch d (Malformed_frame m # es) s (failCurrent d Malformed_front_frame s)"
| data_raised: "dataBatch d (Range_error # es) s (s\<lparr>s_raised := True\<rparr>)"
| data_early: "s_relay s = None \<Longrightarrow> dataBatch d (Frame frame # es) s (failCurrent d Unexpected_front_frame s)"
| data_stop: "s_relay s = Some r \<Longrightarrow> handleDataFrame (frame_id frame) (frame_body frame) r r' \<Longrightarrow>
    s_relay (after_relay d r r' s) = None \<Longrightarrow> dataBatch d (Frame frame # es) s (after_relay d r r' s)"
| data_go: "s_relay s = Some r \<Longrightarrow> handleDataFrame (frame_id frame) (frame_body frame) r r' \<Longrightarrow>
    s_relay (after_relay d r r' s) \<noteq> None \<Longrightarrow> dataBatch d es (after_relay d r r' s) t \<Longrightarrow>
    dataBatch d (Frame frame # es) s t"

section \<open>Operations of main\<close>

definition start :: "supervisor_deps \<Rightarrow> supervisor \<Rightarrow> supervisor" where
  "start d s =
     (if s_state s = Serving then s\<lparr>s_outcomes := s_outcomes s @ [None]\<rparr>
      else spawnOnce d (s\<lparr>s_startSettle := True\<rparr>))"

text \<open>The \<open>LOCK\<close> frame, or the kill where the front cannot be commanded yet.\<close>

definition lock :: "supervisor_deps \<Rightarrow> supervisor \<Rightarrow> supervisor" where
  "lock d s =
     (let s1 = close_relay s
      in case s_live s1 of
           None \<Rightarrow> s1
         | Some t \<Rightarrow>
             if s_state s1 = Stopped \<or> s_state s1 = Failed then s1
             else
               let s2 = s1\<lparr>s_state := Locking\<rparr>
               in if \<not> l_acked (child t s2) then failCurrent d Lock_before_hello_ack s2
                  else case writeControl (planes_of s2) True 0 (Lock (num (studioAdmissionEpoch (s_admission s2)))) of
                         Inl _ \<Rightarrow> s2\<lparr>s_raised := True\<rparr>
                       | Inr (p, _) \<Rightarrow> (put_planes p s2)\<lparr>s_lockTimer := True\<rparr>)"

definition dispose :: "supervisor \<Rightarrow> supervisor" where
  "dispose s =
     (let s1 = drop_live False ((clearTimers s)\<lparr>s_quitAck := False\<rparr>)
      in if s_state s1 \<noteq> Failed then s1\<lparr>s_state := Stopped\<rparr> else s1)"

definition disposeAwaitingExit :: "supervisor \<Rightarrow> supervisor" where
  "disposeAwaitingExit s =
     (case s_live s of
        None \<Rightarrow> dispose s
      | Some t \<Rightarrow> awaitChildExit t Quit_wait (dispose s))"

text \<open>\<open>quit\<close> up to its first \<open>await\<close>; \<open>quit_resume\<close> runs on \<open>QUIT_ACK\<close> or main's deadline.\<close>

definition quit :: "int \<Rightarrow> supervisor \<Rightarrow> supervisor" where
  "quit remainingMs s =
     (let s1 = s\<lparr>s_quitRequested := True\<rparr>
      in case s_live s1 of
           None \<Rightarrow> s1\<lparr>s_state := Stopped\<rparr>
         | Some t \<Rightarrow>
             let s2 = s1\<lparr>s_state := Quitting\<rparr>
             in if \<not> l_acked (child t s2) then disposeAwaitingExit s2
                else case writeControl (planes_of s2) True 0 (Quit (JsInt (max 0 remainingMs))) of
                       Inl _ \<Rightarrow> disposeAwaitingExit s2
                     | Inr (p, _) \<Rightarrow> (put_planes p s2)\<lparr>s_quitAck := True, s_quitting := True\<rparr>)"

definition quit_resume :: "supervisor \<Rightarrow> supervisor" where
  "quit_resume s = disposeAwaitingExit (s\<lparr>s_quitting := False\<rparr>)"

section \<open>Edges and timers\<close>

definition on_error :: "supervisor_deps \<Rightarrow> nat \<Rightarrow> supervisor \<Rightarrow> supervisor" where
  "on_error d token s = fail d token Spawn_failed True (upd_child token (\<lambda>c. c\<lparr>l_errored := True\<rparr>) s)"

definition handleExit :: "supervisor_deps \<Rightarrow> nat \<Rightarrow> int option \<Rightarrow> supervisor \<Rightarrow> supervisor" where
  "handleExit d token code s =
     (if s_quitRequested s \<or> s_state s = Stopped then s
      else if s_live s \<noteq> None \<and> s_live s \<noteq> Some token then s
      else if code = Some 9 then s\<lparr>s_state := Stopped\<rparr>
      else fail d token (frontExitFailure code) True s)"

definition wake :: "nat \<Rightarrow> exit_wait \<Rightarrow> exit_wait" where
  "wake token x = (if x_child x = token \<and> x_observed x = None then x\<lparr>x_observed := Some True\<rparr> else x)"

definition on_exit :: "supervisor_deps \<Rightarrow> nat \<Rightarrow> int option \<Rightarrow> supervisor \<Rightarrow> supervisor" where
  "on_exit d token code s =
     (let s1 = upd_child token (\<lambda>c. c\<lparr>l_exited := True\<rparr>) (s\<lparr>s_waits := map (wake token) (s_waits s)\<rparr>)
      in if l_settled (child token s1) then s1 else handleExit d token code s1)"

definition bringup_timeout :: "supervisor_deps \<Rightarrow> nat \<Rightarrow> supervisor \<Rightarrow> supervisor" where
  "bringup_timeout d token s = fail d token Child_exit False (s\<lparr>s_bringupTimer := None\<rparr>)"

definition lock_timeout :: "supervisor_deps \<Rightarrow> supervisor \<Rightarrow> supervisor" where
  "lock_timeout d s = failCurrent d Lock_ack_timeout (s\<lparr>s_lockTimer := False\<rparr>)"

text \<open>The continuation of a promise that waited for an exit.\<close>

definition wait_resume :: "supervisor_deps \<Rightarrow> nat \<Rightarrow> wait_purpose \<Rightarrow> bool \<Rightarrow> supervisor \<Rightarrow> supervisor" where
  "wait_resume d t purpose observed s =
     (case purpose of
        Restart_wait \<Rightarrow> resumeRestart d (Some t) observed s
      | Quit_wait \<Rightarrow> if observed then s else s\<lparr>s_unobservedExitPid := Some (l_pid (child t s))\<rparr>)"

section \<open>Runs\<close>

text \<open>
  Everything that can happen to one supervisor. \<open>start\<close> is called once, on a new supervisor, as
  \<open>front-endpoint.ts\<close> does. Bytes reach a child only while it is live, its planes being disposed
  with it; its exit is seen once, its \<open>error\<close> edge at any time, after it was let go of too.
\<close>

inductive sup_step :: "supervisor_deps \<Rightarrow> supervisor \<Rightarrow> supervisor \<Rightarrow> bool" for d where
  step_start: "s_state s = Idle \<Longrightarrow> s_spawnToken s = 0 \<Longrightarrow> sup_step d s (start d s)"
| step_lock: "sup_step d s (lock d s)"
| step_quit: "sup_step d s (quit remainingMs s)"
| step_quit_resume: "s_quitting s \<Longrightarrow> sup_step d s (quit_resume s)"
| step_dispose: "sup_step d s (dispose s)"
| step_door: "sup_step d s (s\<lparr>s_admission := admission_step (s_admission s) door_op\<rparr>)"
| step_control: "s_live s = Some t \<Longrightarrow> onControlUpData (planes_of s) chunk = (p, batch) \<Longrightarrow>
    controlBatch d readiness batch (put_planes p s) u \<Longrightarrow> sup_step d s u"
| step_data: "s_live s = Some t \<Longrightarrow> onDataUpData (planes_of s) chunk = (p, batch) \<Longrightarrow>
    dataBatch d batch (put_planes p s) u \<Longrightarrow> sup_step d s u"
| step_plane_eof: "s_live s = Some t \<Longrightarrow> sup_step d s (fail d t Plane_eof False s)"
| step_plane_error: "s_live s = Some t \<Longrightarrow> sup_step d s (fail d t Plane_io_error False s)"
| step_error: "s_children s t = Some c \<Longrightarrow> sup_step d s (on_error d t s)"
| step_exit: "s_children s t = Some c \<Longrightarrow> \<not> l_exited c \<Longrightarrow> sup_step d s (on_exit d t code s)"
| step_bringup: "s_bringupTimer s = Some t \<Longrightarrow> sup_step d s (bringup_timeout d t s)"
| step_lock_timer: "s_lockTimer s \<Longrightarrow> sup_step d s (lock_timeout d s)"
| step_exit_timer: "s_waits s = xs @ x # ys \<Longrightarrow> x_observed x = None \<Longrightarrow>
    sup_step d s (s\<lparr>s_waits := xs @ x\<lparr>x_observed := Some False\<rparr> # ys\<rparr>)"
| step_wait: "s_waits s = xs @ x # ys \<Longrightarrow> x_observed x = Some observed \<Longrightarrow>
    sup_step d s (wait_resume d (x_child x) (x_purpose x) observed (s\<lparr>s_waits := xs @ ys\<rparr>))"
| step_consumer: "s_relay s = Some r \<Longrightarrow> transport_call r r' \<Longrightarrow> sup_step d s (after_relay d r r' s)"
| step_relay_microtask: "s_relay s = Some r \<Longrightarrow> r_microtasks r = m # rest \<Longrightarrow>
    reacts (case m of Close_edge i \<Rightarrow> emit (Emit_close i) (r\<lparr>r_microtasks := rest\<rparr>)
            | Write_callback k \<Rightarrow> r\<lparr>r_microtasks := rest\<rparr>) r' \<Longrightarrow> sup_step d s (after_relay d r r' s)"
| step_stall: "s_relay s = Some r \<Longrightarrow> sup_step d s (s\<lparr>s_relay := Some (stallTimeout i r)\<rparr>)"
| step_stream_gone: "s_live s = Some t \<Longrightarrow> p = planes_of s \<Longrightarrow>
    q = p\<lparr>fp_controlDownDestroyed := True\<rparr> \<or> q = p\<lparr>fp_dataDownDestroyed := True\<rparr> \<Longrightarrow>
    sup_step d s (put_planes q s)"

inductive sup_run :: "supervisor_deps \<Rightarrow> supervisor \<Rightarrow> supervisor \<Rightarrow> bool" for d where
  run_here: "sup_run d s s"
| run_step: "sup_run d s t \<Longrightarrow> sup_step d t u \<Longrightarrow> sup_run d s u"

section \<open>What the primitives leave alone\<close>

lemma upd_child_frame [simp]:
  "s_state (upd_child t f s) = s_state s" "s_live (upd_child t f s) = s_live s"
  "s_relay (upd_child t f s) = s_relay s" "s_seen (upd_child t f s) = s_seen s"
  "s_restartCount (upd_child t f s) = s_restartCount s" "s_spawnToken (upd_child t f s) = s_spawnToken s"
  "s_quitRequested (upd_child t f s) = s_quitRequested s" "s_waits (upd_child t f s) = s_waits s"
  "s_admission (upd_child t f s) = s_admission s" "s_gone (upd_child t f s) = s_gone s"
  "s_outcomes (upd_child t f s) = s_outcomes s" "s_startSettle (upd_child t f s) = s_startSettle s"
  "s_children (upd_child t f s) u = (if u = t then map_option f (s_children s t) else s_children s u)"
  by (simp_all add: upd_child_def)

lemma settleStart_frame [simp]:
  "s_state (settleStart r s) = s_state s" "s_live (settleStart r s) = s_live s"
  "s_relay (settleStart r s) = s_relay s" "s_seen (settleStart r s) = s_seen s"
  "s_restartCount (settleStart r s) = s_restartCount s" "s_spawnToken (settleStart r s) = s_spawnToken s"
  "s_quitRequested (settleStart r s) = s_quitRequested s" "s_waits (settleStart r s) = s_waits s"
  "s_admission (settleStart r s) = s_admission s" "s_gone (settleStart r s) = s_gone s"
  "s_children (settleStart r s) = s_children s"
  by (simp_all add: settleStart_def)

lemma fail_teardown_frame [simp]:
  "s_state (fail_teardown dead s) = s_state s" "s_live (fail_teardown dead s) = None"
  "s_relay (fail_teardown dead s) = None" "s_seen (fail_teardown dead s) = s_seen s"
  "s_spawnToken (fail_teardown dead s) = s_spawnToken s"
  "s_quitRequested (fail_teardown dead s) = s_quitRequested s" "s_waits (fail_teardown dead s) = s_waits s"
  "s_admission (fail_teardown dead s) = s_admission s"
  "s_outcomes (fail_teardown dead s) = s_outcomes s" "s_startSettle (fail_teardown dead s) = s_startSettle s"
  by (simp_all add: fail_teardown_def drop_live_def drop_relay_def close_relay_def clearTimers_def Let_def
      split: option.split)

lemma fail_teardown_children:
  "(s_children (fail_teardown dead s) u = None) = (s_children s u = None)"
  "s_children (fail_teardown dead s) u = Some c' \<Longrightarrow>
     \<exists>c. s_children s u = Some c \<and> l_exited c' = l_exited c \<and> l_errored c' = l_errored c
       \<and> l_killed c' = (l_killed c \<or> s_live s = Some u \<and> \<not> dead)"
  by (auto simp: fail_teardown_def drop_live_def drop_relay_def close_relay_def clearTimers_def Let_def
      split: option.splits if_splits)

lemma settle_live_frame [simp]:
  "s_state (settle_live s) = s_state s" "s_live (settle_live s) = s_live s"
  "s_relay (settle_live s) = s_relay s" "s_seen (settle_live s) = s_seen s"
  "s_spawnToken (settle_live s) = s_spawnToken s" "s_quitRequested (settle_live s) = s_quitRequested s"
  "s_waits (settle_live s) = s_waits s" "s_admission (settle_live s) = s_admission s"
  "s_outcomes (settle_live s) = s_outcomes s" "s_startSettle (settle_live s) = s_startSettle s"
  "s_children (settle_live s) u =
     (if s_live s = Some u then map_option (\<lambda>c. c\<lparr>l_settled := True\<rparr>) (s_children s u) else s_children s u)"
  by (auto simp: settle_live_def split: option.split)

lemma awaitChildExit_frame [simp]:
  "s_state (awaitChildExit t p s) = s_state s" "s_live (awaitChildExit t p s) = s_live s"
  "s_relay (awaitChildExit t p s) = s_relay s" "s_seen (awaitChildExit t p s) = s_seen s"
  "s_restartCount (awaitChildExit t p s) = s_restartCount s" "s_spawnToken (awaitChildExit t p s) = s_spawnToken s"
  "s_children (awaitChildExit t p s) = s_children s" "s_admission (awaitChildExit t p s) = s_admission s"
  "s_outcomes (awaitChildExit t p s) = s_outcomes s" "s_startSettle (awaitChildExit t p s) = s_startSettle s"
  "\<exists>ob. s_waits (awaitChildExit t p s) = s_waits s @ [\<lparr>x_child = t, x_purpose = p, x_observed = ob\<rparr>]"
  by (simp_all add: awaitChildExit_def)

section \<open>The invariant\<close>

text \<open>
  Processes: the live child is the last one spawned and main has not killed it; every other one was
  killed, or reported its own end.
\<close>

definition procs_ok :: "supervisor \<Rightarrow> bool" where
  "procs_ok s =
     ((\<forall>t. s_live s = Some t \<longrightarrow> t = s_spawnToken s \<and> (\<exists>c. s_children s t = Some c \<and> \<not> l_killed c))
      \<and> (\<forall>t c. s_children s t = Some c \<longrightarrow> t \<noteq> 0 \<and> t \<le> s_spawnToken s
           \<and> (s_live s = Some t \<or> l_killed c \<or> l_exited c \<or> l_errored c))
      \<and> (\<forall>x\<in>set (s_waits s). s_children s (x_child x) \<noteq> None))"

text \<open>Publication: a relay exists only for a live child whose \<open>HELLO_ACK\<close> and \<open>BOUND\<close> were valid.\<close>

definition publication_ok :: "supervisor \<Rightarrow> bool" where
  "publication_ok s =
     (\<forall>r. s_relay s = Some r \<longrightarrow> (\<exists>t c. s_live s = Some t \<and> s_children s t = Some c \<and> l_acked c \<and> l_bound c))"

text \<open>
  The budget: with \<open>n\<close> spawns about to happen, every spawn and every pending restart but the first
  is paid for by a unit of the restart count.
\<close>

definition budget_ok :: "nat \<Rightarrow> supervisor \<Rightarrow> bool" where
  "budget_ok n s =
     (s_restartCount s \<le> Suc FRONT_MAX_RESTARTS
      \<and> s_spawnToken s + n + length (filter (\<lambda>x. x_purpose x = Restart_wait) (s_waits s)) \<le> Suc (s_restartCount s))"

definition starts_ok :: "supervisor \<Rightarrow> bool" where
  "starts_ok s =
     (distinct (s_seen s) \<and> num 0 \<notin> set (s_seen s)
      \<and> length (s_outcomes s) + (if s_startSettle s then 1 else 0) \<le> 1)"

definition idle_ok :: "supervisor \<Rightarrow> bool" where
  "idle_ok s = (s_state s = Idle \<longrightarrow> s_waits s = [] \<and> s_outcomes s = [] \<and> \<not> s_startSettle s \<and> s_live s = None)"

lemmas sup_inv_defs = procs_ok_def publication_ok_def budget_ok_def starts_ok_def

definition sup_inv_at :: "nat \<Rightarrow> supervisor \<Rightarrow> bool" where
  "sup_inv_at n s = (procs_ok s \<and> publication_ok s \<and> budget_ok n s \<and> starts_ok s)"

definition sup_inv :: "supervisor \<Rightarrow> bool" where
  "sup_inv s = (sup_inv_at 0 s \<and> idle_ok s)"

lemma sup_inv_atI [intro?]:
  "procs_ok s \<Longrightarrow> publication_ok s \<Longrightarrow> budget_ok n s \<Longrightarrow> starts_ok s \<Longrightarrow> sup_inv_at n s"
  by (simp add: sup_inv_at_def)

lemma put_planes_frame [simp]:
  "s_state (put_planes p s) = s_state s" "s_live (put_planes p s) = s_live s"
  "s_seen (put_planes p s) = s_seen s"
  "s_restartCount (put_planes p s) = s_restartCount s" "s_spawnToken (put_planes p s) = s_spawnToken s"
  "s_quitRequested (put_planes p s) = s_quitRequested s" "s_waits (put_planes p s) = s_waits s"
  "s_admission (put_planes p s) = s_admission s"
  "s_outcomes (put_planes p s) = s_outcomes s" "s_startSettle (put_planes p s) = s_startSettle s"
  "(s_relay (put_planes p s) = None) = (s_relay s = None)"
  "s_children (put_planes p s) = s_children s"
  by (simp_all add: put_planes_def split: option.split)

text \<open>A change of planes, timers and such: everything the invariant reads is as it was.\<close>

definition same_core :: "supervisor \<Rightarrow> supervisor \<Rightarrow> bool" where
  "same_core s s' =
     (s_children s' = s_children s \<and> s_live s' = s_live s \<and> (s_relay s' = None) = (s_relay s = None)
      \<and> s_seen s' = s_seen s \<and> s_restartCount s' = s_restartCount s \<and> s_spawnToken s' = s_spawnToken s
      \<and> s_waits s' = s_waits s \<and> s_outcomes s' = s_outcomes s \<and> s_startSettle s' = s_startSettle s)"

lemma same_core_inv:
  assumes "same_core s s'" "sup_inv_at n s"
  shows "sup_inv_at n s'"
proof -
  have "procs_ok s' = procs_ok s" "budget_ok n s' = budget_ok n s" "starts_ok s' = starts_ok s"
    using assms(1) by (simp_all add: same_core_def procs_ok_def budget_ok_def starts_ok_def)
  moreover have "publication_ok s' = publication_ok s"
    using assms(1) by (cases "s_relay s"; cases "s_relay s'") (simp_all add: same_core_def publication_ok_def)
  ultimately show ?thesis using assms(2) by (simp add: sup_inv_at_def)
qed

section \<open>The failure path keeps it\<close>

lemma spawn_inv:
  assumes inv: "sup_inv_at 1 s" and live: "s_live s = None"
  shows "sup_inv_at 0 (s\<lparr>s_state := Starting, s_failureName := None, s_spawnToken := Suc (s_spawnToken s)\<rparr>)"
    "sup_inv_at 0 (s\<lparr>s_state := Starting, s_failureName := None, s_spawnToken := Suc (s_spawnToken s),
       s_children := (s_children s)(Suc (s_spawnToken s) \<mapsto> new_child pid), s_live := Some (Suc (s_spawnToken s)),
       s_planes := p, s_bringupTimer := b\<rparr>)"
proof -
  have procs: "procs_ok s" and relay: "s_relay s = None" and rest: "budget_ok 1 s" "starts_ok s"
    using inv live by (cases "s_relay s"; simp add: sup_inv_at_def publication_ok_def)+
  show "sup_inv_at 0 (s\<lparr>s_state := Starting, s_failureName := None, s_spawnToken := Suc (s_spawnToken s)\<rparr>)"
  proof
    show "procs_ok (s\<lparr>s_state := Starting, s_failureName := None, s_spawnToken := Suc (s_spawnToken s)\<rparr>)"
      using procs live by (fastforce simp: procs_ok_def intro: le_SucI)
  qed (use relay rest in \<open>simp_all add: sup_inv_defs\<close>)
  show "sup_inv_at 0 (s\<lparr>s_state := Starting, s_failureName := None, s_spawnToken := Suc (s_spawnToken s),
       s_children := (s_children s)(Suc (s_spawnToken s) \<mapsto> new_child pid), s_live := Some (Suc (s_spawnToken s)),
       s_planes := p, s_bringupTimer := b\<rparr>)" (is "sup_inv_at 0 ?s")
  proof
    show "procs_ok ?s"
      using procs live by (fastforce simp: procs_ok_def new_child_def intro: le_SucI)
  qed (use relay rest in \<open>simp_all add: sup_inv_defs\<close>)
qed

text \<open>A child may only learn more about itself.\<close>

definition child_grows :: "live_child \<Rightarrow> live_child \<Rightarrow> bool" where
  "child_grows c c' =
     (l_killed c' = l_killed c \<and> (l_exited c \<longrightarrow> l_exited c') \<and> (l_errored c \<longrightarrow> l_errored c')
      \<and> (l_acked c \<longrightarrow> l_acked c') \<and> (l_bound c \<longrightarrow> l_bound c'))"

lemma upd_child_inv:
  assumes inv: "sup_inv_at n s" and f: "\<And>c. child_grows c (f c)"
  shows "sup_inv_at n (upd_child t f s)"
proof
  have some: "\<exists>c. s_children s u = Some c \<and> child_grows c c'" if "s_children (upd_child t f s) u = Some c'" for u c'
    using that f by (cases "u = t") (auto simp: child_grows_def)
  have some': "\<exists>c'. s_children (upd_child t f s) u = Some c' \<and> child_grows c c'" if "s_children s u = Some c" for u c
    using that f by (cases "u = t") (auto simp: child_grows_def)
  have none: "s_children (upd_child t f s) u \<noteq> None" if "s_children s u \<noteq> None" for u
    using that by (cases "u = t") simp_all
  show "procs_ok (upd_child t f s)" unfolding procs_ok_def
  proof (intro conjI allI impI ballI)
    fix u
    assume "s_live (upd_child t f s) = Some u"
    then obtain c where c: "u = s_spawnToken s" "s_children s u = Some c" "\<not> l_killed c"
      using inv by (auto simp: sup_inv_at_def procs_ok_def)
    then show "u = s_spawnToken (upd_child t f s)" by simp
    show "\<exists>c. s_children (upd_child t f s) u = Some c \<and> \<not> l_killed c"
      using some' [OF c(2)] c(3) by (auto simp: child_grows_def)
  next
    fix u c'
    assume "s_children (upd_child t f s) u = Some c'"
    then obtain c where c: "s_children s u = Some c" "child_grows c c'" using some by blast
    then have "u \<noteq> 0 \<and> u \<le> s_spawnToken s \<and> (s_live s = Some u \<or> l_killed c \<or> l_exited c \<or> l_errored c)"
      using inv unfolding sup_inv_at_def procs_ok_def by blast
    then show "u \<noteq> 0" "u \<le> s_spawnToken (upd_child t f s)"
      "s_live (upd_child t f s) = Some u \<or> l_killed c' \<or> l_exited c' \<or> l_errored c'"
      using c(2) by (auto simp: child_grows_def)
  next
    fix x
    assume "x \<in> set (s_waits (upd_child t f s))"
    then show "s_children (upd_child t f s) (x_child x) \<noteq> None"
      using inv none unfolding sup_inv_at_def procs_ok_def by simp
  qed
  show "publication_ok (upd_child t f s)" unfolding publication_ok_def
  proof (intro allI impI)
    fix r
    assume "s_relay (upd_child t f s) = Some r"
    then obtain u c where "s_live s = Some u" "s_children s u = Some c" "l_acked c" "l_bound c"
      using inv by (auto simp: sup_inv_at_def publication_ok_def)
    then show "\<exists>u c. s_live (upd_child t f s) = Some u \<and> s_children (upd_child t f s) u = Some c \<and> l_acked c \<and> l_bound c"
      using some' unfolding child_grows_def by (metis upd_child_frame(2))
  qed
qed (use inv in \<open>simp_all add: sup_inv_at_def sup_inv_defs\<close>)

lemma settle_live_inv: "sup_inv_at n s \<Longrightarrow> sup_inv_at n (settle_live s)"
  by (auto simp: settle_live_def child_grows_def intro!: upd_child_inv split: option.split)

text \<open>The processes after the live child was let go of: none is live, and none is left behind.\<close>

lemma teardown_inv:
  assumes inv: "sup_inv_at n s"
    and dead: "\<And>t. dead \<Longrightarrow> s_live s = Some t \<Longrightarrow> l_exited (child t s) \<or> l_errored (child t s)"
  shows "sup_inv_at n (fail_teardown dead s)"
proof
  have procs: "procs_ok s" using inv by (simp add: sup_inv_at_def)
  have "t \<noteq> 0 \<and> t \<le> s_spawnToken s \<and> (l_killed c' \<or> l_exited c' \<or> l_errored c')"
    if c': "s_children (fail_teardown dead s) t = Some c'" for t c'
  proof -
    from fail_teardown_children(2) [OF c'] obtain c where c: "s_children s t = Some c"
      "l_exited c' = l_exited c" "l_errored c' = l_errored c" "l_killed c' = (l_killed c \<or> s_live s = Some t \<and> \<not> dead)"
      by blast
    have "t \<noteq> 0 \<and> t \<le> s_spawnToken s \<and> (s_live s = Some t \<or> l_killed c \<or> l_exited c \<or> l_errored c)"
      using procs c(1) unfolding procs_ok_def by blast
    moreover have "l_exited c \<or> l_errored c" if "dead" "s_live s = Some t"
      using dead [OF that] c(1) by (simp add: child_def)
    ultimately show ?thesis using c(2-4) by blast
  qed
  moreover have "s_children (fail_teardown dead s) (x_child x) \<noteq> None" if "x \<in> set (s_waits s)" for x
    using procs that by (simp add: fail_teardown_children(1) procs_ok_def)
  ultimately show "procs_ok (fail_teardown dead s)" by (simp add: procs_ok_def)
qed (use inv in \<open>simp_all add: sup_inv_at_def sup_inv_defs\<close>)

lemma child_settled [simp]:
  "l_exited (child t (settle_live s)) = l_exited (child t s)"
  "l_errored (child t (settle_live s)) = l_errored (child t s)"
  by (simp_all add: child_def split: option.split)

lemma finishFailed_inv: "sup_inv_at n s \<Longrightarrow> sup_inv_at n (finishFailed failure s)"
  by (auto simp: sup_inv_at_def sup_inv_defs finishFailed_def settleStart_def)

lemma count_inv:
  assumes "sup_inv_at 0 s" "s_restartCount s \<le> FRONT_MAX_RESTARTS" "rc = s_restartCount s"
  shows "sup_inv_at 1 (s\<lparr>s_restartCount := rc + 1, s_state := st\<rparr>)"
proof -
  let ?s = "s\<lparr>s_restartCount := rc + 1, s_state := st\<rparr>"
  have "procs_ok ?s = procs_ok s" "publication_ok ?s = publication_ok s" "starts_ok ?s = starts_ok s"
    by (simp_all add: procs_ok_def publication_ok_def starts_ok_def)
  then show ?thesis using assms by (simp add: sup_inv_at_def budget_ok_def)
qed

lemma add_wait_inv:
  "sup_inv_at n s \<Longrightarrow> s_children s t \<noteq> None \<Longrightarrow> p = Quit_wait \<or> 0 < n \<Longrightarrow>
     sup_inv_at (if p = Restart_wait then n - 1 else n) (awaitChildExit t p s)"
  by (auto simp: sup_inv_at_def sup_inv_defs awaitChildExit_def)

lemma fail_inv:
  "sup_inv_at 0 s \<Longrightarrow> (dead \<Longrightarrow> s_live s = Some token \<Longrightarrow> l_exited (child token s) \<or> l_errored (child token s)) \<Longrightarrow>
     sup_inv_at 0 (fail d token failure dead s)"
  "sup_inv_at 1 s \<Longrightarrow> sup_inv_at 0 (resumeRestart d previous observed s)"
  "sup_inv_at 1 s \<Longrightarrow> s_live s = None \<Longrightarrow> sup_inv_at 0 (spawnOnce d s)"
proof (induction d token failure dead s and d previous observed s and d s rule: fail_resumeRestart_spawnOnce.induct)
  case (1 d token failure dead s)
  let ?s1 = "fail_teardown dead (settle_live s)"
  let ?s2 = "?s1\<lparr>s_restartCount := s_restartCount s + 1, s_state := Starting\<rparr>"
  show ?case
  proof (cases "fail_heard token s")
    case False
    from fail_ignored [OF this] show ?thesis using settle_live_inv [OF 1(2)] 1(2) by metis
  next
    case True
    then have counts: "fail_counts token s" "\<not> (s_state s = Stopped \<or> s_quitRequested s)"
      by (simp_all add: fail_heard_def)
    have s1: "sup_inv_at 0 ?s1"
    proof (rule teardown_inv [OF settle_live_inv [OF 1(2)]])
      fix t
      assume "dead" "s_live (settle_live s) = Some t"
      moreover from this counts(1) have "t = token" by (simp add: fail_counts_def)
      ultimately show "l_exited (child t (settle_live s)) \<or> l_errored (child t (settle_live s))"
        using 1(3) by simp
    qed
    have s2: "sup_inv_at 1 ?s2" if "s_restartCount s \<le> FRONT_MAX_RESTARTS"
      by (rule count_inv [OF s1]) (use that in simp_all)
    have "sup_inv_at 0 (awaitChildExit t Restart_wait ?s2)"
      if "s_live s = Some t" "s_restartCount s \<le> FRONT_MAX_RESTARTS" for t
    proof -
      have "s_children s t \<noteq> None" using 1(2) that(1) by (auto simp: sup_inv_at_def procs_ok_def)
      then have "s_children ?s2 t \<noteq> None" by (simp add: fail_teardown_children(1))
      from add_wait_inv [OF s2 [OF that(2)] this, of Restart_wait] show ?thesis by simp
    qed
    moreover have "sup_inv_at 0 (resumeRestart d None True ?s2)"
      if "s_live s = None" "frontFailureIsRestartable failure" "s_restartCount s \<le> FRONT_MAX_RESTARTS"
      by (rule 1(1) [OF _ _ refl refl _ _ refl that(1) s2 [OF that(3)]]) (use counts that in simp_all)
    ultimately show ?thesis using finishFailed_inv [OF s1]
      by (simp add: fail_accounted [OF True] Let_def split: option.split)
  qed
next
  case (2 d previous observed s)
  have "sup_inv_at 0 s" using 2(2) by (simp add: sup_inv_at_def budget_ok_def)
  moreover have "sup_inv_at 1 (s\<lparr>s_unobservedExitPid := x\<rparr>)" for x
    by (rule same_core_inv [OF _ 2(2)]) (simp add: same_core_def)
  ultimately show ?case using 2 by (auto simp: resumeRestart.simps split: option.split)
next
  case (3 d s)
  have *: "sup_inv_at 0 (put_planes p t)" if "sup_inv_at 0 t" for p t
    by (rule same_core_inv [OF _ that]) (simp add: same_core_def)
  show ?case using 3 spawn_inv [OF 3(3,4)] *
    by (auto simp: spawnOnce.simps Let_def split: option.split sum.split)
qed

lemma never_idle_again:
  "s_state s \<noteq> Idle \<Longrightarrow> s_state (fail d token failure dead s) \<noteq> Idle"
  "s_state s \<noteq> Idle \<Longrightarrow> s_state (resumeRestart d previous observed s) \<noteq> Idle"
  "s_state (spawnOnce d s) \<noteq> Idle"
proof (induction d token failure dead s and d previous observed s and d s rule: fail_resumeRestart_spawnOnce.induct)
  case (1 d token failure dead s)
  show ?case
  proof (cases "fail_heard token s")
    case True
    then have "fail_counts token s" "\<not> (s_state s = Stopped \<or> s_quitRequested s)"
      by (simp_all add: fail_heard_def)
    with 1(1) [OF _ _ refl refl _ _ refl] show ?thesis
      by (simp add: fail_accounted [OF True] Let_def finishFailed_def split: option.split)
  next
    case False
    from fail_ignored [OF this, of d failure dead] 1(2) show ?thesis by auto
  qed
next
  case (2 d previous observed s)
  then show ?case by (simp add: resumeRestart.simps)
next
  case (3 d s)
  then show ?case by (simp add: spawnOnce.simps Let_def split: option.split sum.split)
qed

lemma fail_not_idle: "fail_heard token s \<Longrightarrow> s_state (fail d token failure dead s) \<noteq> Idle"
  by (simp add: fail_accounted Let_def finishFailed_def never_idle_again split: option.split)

section \<open>Every operation keeps the invariant\<close>

lemma sup_inv_same:
  assumes "sup_inv s" "same_core s s'" "s_state s' = s_state s \<or> s_state s' \<noteq> Idle"
  shows "sup_inv s'"
proof -
  have "sup_inv_at 0 s'" using same_core_inv assms by (auto simp: sup_inv_def)
  moreover have "idle_ok s'" using assms by (auto simp: sup_inv_def idle_ok_def same_core_def)
  ultimately show ?thesis by (simp add: sup_inv_def)
qed

lemma sup_inv_upd_child:
  assumes "sup_inv s" "\<And>c. child_grows c (f c)"
  shows "sup_inv (upd_child t f s)"
  using assms upd_child_inv [of 0 s f t] by (simp add: sup_inv_def idle_ok_def)

lemma sup_inv_fail:
  assumes "sup_inv s" "dead \<Longrightarrow> s_live s = Some token \<Longrightarrow> l_exited (child token s) \<or> l_errored (child token s)"
  shows "sup_inv (fail d token failure dead s)"
proof (cases "fail_heard token s")
  case True
  then have "s_state (fail d token failure dead s) \<noteq> Idle" by (rule fail_not_idle)
  with assms fail_inv(1) [of s dead token d failure] show ?thesis by (simp add: sup_inv_def idle_ok_def)
next
  case False
  have "sup_inv (settle_live s)"
    using assms(1) settle_live_inv by (auto simp: sup_inv_def idle_ok_def)
  with fail_ignored [OF False, of d failure dead] assms(1) show ?thesis by metis
qed

lemma sup_inv_failCurrent: "sup_inv s \<Longrightarrow> sup_inv (failCurrent d failure s)"
  by (simp add: failCurrent_def sup_inv_fail split: option.split)

lemma sup_inv_put_planes: "sup_inv s \<Longrightarrow> sup_inv (put_planes p s)"
  by (erule sup_inv_same) (simp_all add: same_core_def)

lemma sup_inv_dispose:
  assumes "sup_inv s"
  shows "sup_inv (dispose s)" "s_state (dispose s) \<noteq> Idle"
proof -
  have "sup_inv_at 0 (fail_teardown False s)"
    using teardown_inv [of 0 s False] assms by (simp add: sup_inv_def)
  moreover have "same_core (fail_teardown False s) (dispose s)"
    by (auto simp: same_core_def fail_teardown_def dispose_def drop_live_def drop_relay_def close_relay_def
        clearTimers_def Let_def fun_eq_iff split: option.split)
  ultimately have "sup_inv_at 0 (dispose s)" using same_core_inv by blast
  moreover show "s_state (dispose s) \<noteq> Idle" by (simp add: dispose_def Let_def)
  ultimately show "sup_inv (dispose s)" by (simp add: sup_inv_def idle_ok_def)
qed

lemma sup_inv_disposeAwaitingExit:
  assumes "sup_inv s"
  shows "sup_inv (disposeAwaitingExit s)"
proof (cases "s_live s")
  case None
  then show ?thesis using sup_inv_dispose [OF assms] by (simp add: disposeAwaitingExit_def)
next
  case (Some t)
  have "s_children s t \<noteq> None" using assms Some by (auto simp: sup_inv_def sup_inv_at_def procs_ok_def)
  then have "s_children (dispose s) t \<noteq> None"
    by (simp add: dispose_def drop_live_def drop_relay_def close_relay_def clearTimers_def Let_def
        split: option.split)
  then have "sup_inv_at 0 (awaitChildExit t Quit_wait (dispose s))"
    using add_wait_inv [of 0 "dispose s" t Quit_wait] sup_inv_dispose [OF assms] by (simp add: sup_inv_def)
  then show ?thesis using sup_inv_dispose(2) [OF assms] by (simp add: Some disposeAwaitingExit_def sup_inv_def idle_ok_def)
qed

lemma close_relay_core: "same_core s (close_relay s)"
  by (simp add: same_core_def close_relay_def)

lemma sup_inv_lock:
  assumes "sup_inv s"
  shows "sup_inv (lock d s)"
proof -
  have c: "sup_inv (close_relay s)"
    by (rule sup_inv_same [OF assms close_relay_core]) (simp add: close_relay_def)
  have l: "sup_inv ((close_relay s)\<lparr>s_state := Locking\<rparr>)"
    by (rule sup_inv_same [OF c]) (simp_all add: same_core_def)
  have r: "sup_inv ((close_relay s)\<lparr>s_state := Locking, s_raised := True\<rparr>)"
    by (rule sup_inv_same [OF l]) (simp_all add: same_core_def)
  have w: "sup_inv ((put_planes p ((close_relay s)\<lparr>s_state := Locking\<rparr>))\<lparr>s_lockTimer := True\<rparr>)" for p
    by (rule sup_inv_same [OF sup_inv_put_planes [OF l]]) (simp_all add: same_core_def)
  show ?thesis unfolding lock_def Let_def
    using c sup_inv_failCurrent [OF l] r w
    by (simp split: option.split sum.split)
qed

lemma sup_inv_quit:
  assumes "sup_inv s"
  shows "sup_inv (quit n s)"
proof -
  have q: "sup_inv (s\<lparr>s_quitRequested := True, s_state := st\<rparr>)" if "st \<noteq> Idle" for st
    by (rule sup_inv_same [OF assms]) (use that in \<open>simp_all add: same_core_def\<close>)
  have w: "sup_inv ((put_planes p (s\<lparr>s_quitRequested := True, s_state := Quitting\<rparr>))
      \<lparr>s_quitAck := True, s_quitting := True\<rparr>)" for p
    by (rule sup_inv_same [OF sup_inv_put_planes [OF q [of Quitting]]]) (simp_all add: same_core_def)
  show ?thesis
    using q sup_inv_disposeAwaitingExit [OF q] w by (simp add: quit_def Let_def split: option.split sum.split)
qed

lemma sup_inv_quit_resume: "sup_inv s \<Longrightarrow> sup_inv (quit_resume s)"
  unfolding quit_resume_def
  by (rule sup_inv_disposeAwaitingExit, erule sup_inv_same) (simp_all add: same_core_def)

lemma sup_inv_start:
  assumes "sup_inv s" "s_state s = Idle" "s_spawnToken s = 0"
  shows "sup_inv (start d s)"
proof -
  have "procs_ok (s\<lparr>s_startSettle := True\<rparr>) = procs_ok s" "publication_ok (s\<lparr>s_startSettle := True\<rparr>) = publication_ok s"
    by (simp_all add: procs_ok_def publication_ok_def)
  then have "sup_inv_at 1 (s\<lparr>s_startSettle := True\<rparr>)" and "s_live s = None"
    using assms by (simp_all add: sup_inv_def sup_inv_at_def idle_ok_def starts_ok_def budget_ok_def)
  then have "sup_inv_at 0 (spawnOnce d (s\<lparr>s_startSettle := True\<rparr>))" by (intro fail_inv(3)) simp_all
  then show ?thesis
    using assms(2) never_idle_again(3) [of d "s\<lparr>s_startSettle := True\<rparr>"]
    by (simp add: start_def sup_inv_def idle_ok_def)
qed

text \<open>The promises that wait for an exit: resolved by the event or the timer, then resumed.\<close>

lemma waits_core:
  assumes "sup_inv s" "map x_child ws = map x_child (s_waits s)" "map x_purpose ws = map x_purpose (s_waits s)"
  shows "sup_inv (s\<lparr>s_waits := ws\<rparr>)"
proof -
  have "length (filter (\<lambda>x. x_purpose x = Restart_wait) zs)
      = length (filter (\<lambda>p. p = Restart_wait) (map x_purpose zs))" for zs :: "exit_wait list"
    by (simp add: filter_map comp_def)
  then have "length (filter (\<lambda>x. x_purpose x = Restart_wait) ws)
      = length (filter (\<lambda>x. x_purpose x = Restart_wait) (s_waits s))"
    by (simp only: assms(3))
  moreover have "x_child ` set ws = x_child ` set (s_waits s)" using assms(2) by (metis list.set_map)
  then have "(\<forall>x\<in>set ws. s_children s (x_child x) \<noteq> None) = (\<forall>x\<in>set (s_waits s). s_children s (x_child x) \<noteq> None)"
    by (metis (no_types, lifting) imageE imageI)
  moreover have "(ws = []) = (s_waits s = [])" using assms(2) by (metis map_is_Nil_conv)
  ultimately show ?thesis using assms(1)
    by (simp add: sup_inv_def sup_inv_at_def sup_inv_defs idle_ok_def)
qed

lemma sup_inv_on_error:
  assumes "sup_inv s" "s_children s t = Some c"
  shows "sup_inv (on_error d t s)"
  unfolding on_error_def
proof (rule sup_inv_fail)
  show "sup_inv (upd_child t (\<lambda>c. c\<lparr>l_errored := True\<rparr>) s)"
    by (rule sup_inv_upd_child [OF assms(1)]) (simp add: child_grows_def)
qed (simp add: child_def assms(2))

lemma sup_inv_on_exit:
  assumes "sup_inv s" "s_children s t = Some c"
  shows "sup_inv (on_exit d t code s)"
proof -
  let ?s = "upd_child t (\<lambda>c. c\<lparr>l_exited := True\<rparr>) (s\<lparr>s_waits := map (wake t) (s_waits s)\<rparr>)"
  have "sup_inv (s\<lparr>s_waits := map (wake t) (s_waits s)\<rparr>)"
    by (rule waits_core [OF assms(1)]) (simp_all add: wake_def)
  then have inv: "sup_inv ?s"
    by (rule sup_inv_upd_child) (simp add: child_grows_def)
  have exited: "l_exited (child t ?s)" by (simp add: child_def assms(2))
  have "sup_inv (?s\<lparr>s_state := Stopped\<rparr>)" by (rule sup_inv_same [OF inv]) (simp_all add: same_core_def)
  with inv exited show ?thesis
    by (simp add: on_exit_def handleExit_def Let_def sup_inv_fail)
qed

lemma sup_inv_timeouts: "sup_inv s \<Longrightarrow> sup_inv (bringup_timeout d t s)" "sup_inv s \<Longrightarrow> sup_inv (lock_timeout d s)"
  unfolding bringup_timeout_def lock_timeout_def
  by (rule sup_inv_fail sup_inv_failCurrent, erule sup_inv_same, simp_all add: same_core_def)+

lemma sup_inv_wait_resume:
  assumes inv: "sup_inv s" and ws: "s_waits s = xs @ x # ys"
  shows "sup_inv (wait_resume d (x_child x) (x_purpose x) observed (s\<lparr>s_waits := xs @ ys\<rparr>))"
proof -
  let ?s = "s\<lparr>s_waits := xs @ ys\<rparr>"
  have idle: "s_state s \<noteq> Idle" using inv ws by (auto simp: sup_inv_def idle_ok_def)
  show ?thesis
  proof (cases "x_purpose x")
    case Restart_wait
    have "sup_inv_at 1 ?s" using inv Restart_wait by (simp add: sup_inv_def sup_inv_at_def sup_inv_defs ws)
    then have "sup_inv_at 0 (resumeRestart d (Some (x_child x)) observed ?s)" by (rule fail_inv(2))
    then show ?thesis using never_idle_again(2) [of ?s] idle
      by (simp add: wait_resume_def Restart_wait sup_inv_def idle_ok_def)
  next
    case Quit_wait
    have "sup_inv ?s" using inv Quit_wait idle
      by (simp add: sup_inv_def sup_inv_at_def sup_inv_defs ws idle_ok_def)
    moreover from this have "sup_inv (?s\<lparr>s_unobservedExitPid := p\<rparr>)" for p
      by (rule sup_inv_same) (simp_all add: same_core_def)
    ultimately show ?thesis by (simp add: wait_resume_def Quit_wait)
  qed
qed

lemma sup_inv_relay: "sup_inv s \<Longrightarrow> s_relay s = Some r \<Longrightarrow> sup_inv (s\<lparr>s_relay := Some r'\<rparr>)"
  by (erule sup_inv_same) (simp_all add: same_core_def)

lemma sup_inv_after_relay: "sup_inv s \<Longrightarrow> s_relay s = Some r \<Longrightarrow> sup_inv (after_relay d r r' s)"
  by (simp add: after_relay_def Let_def sup_inv_relay sup_inv_failCurrent split: option.split)

text \<open>What an accepted acknowledgement says of the generation.\<close>

lemma hello_ack_accepted:
  "validateFrontHelloAck body pid seen = Inr u \<Longrightarrow>
     announcedGeneration body \<noteq> num 0 \<and> announcedGeneration body \<notin> set seen"
  by (cases body) (auto simp: validateFrontHelloAck_def split: if_splits)

lemma sup_inv_hello_ack:
  assumes "sup_inv s" "s_live s = Some t"
  shows "sup_inv (fst (handleHelloAck d body t s))"
proof (cases "l_acked (child t s)")
  case False
  show ?thesis
  proof (cases "validateFrontHelloAck body (l_pid (child t s)) (s_seen s)")
    case (Inr u)
    let ?s1 = "s\<lparr>s_seen := s_seen s @ [announcedGeneration body]\<rparr>"
    have "starts_ok ?s1"
      using assms(1) hello_ack_accepted [OF Inr] by (auto simp: sup_inv_def sup_inv_at_def starts_ok_def)
    moreover have "procs_ok ?s1 = procs_ok s" "publication_ok ?s1 = publication_ok s" "budget_ok 0 ?s1 = budget_ok 0 s"
      by (simp_all add: sup_inv_defs)
    ultimately have "sup_inv ?s1" using assms(1) by (simp add: sup_inv_def sup_inv_at_def idle_ok_def)
    then have "sup_inv (upd_child t (\<lambda>c. c\<lparr>l_acked := True\<rparr>) ?s1)"
      by (rule sup_inv_upd_child) (simp add: child_grows_def)
    then have p: "sup_inv (put_planes p (upd_child t (\<lambda>c. c\<lparr>l_acked := True\<rparr>) ?s1))" for p
      by (rule sup_inv_put_planes)
    moreover have "sup_inv ((put_planes p (upd_child t (\<lambda>c. c\<lparr>l_acked := True\<rparr>) ?s1))\<lparr>s_raised := True\<rparr>)" for p
      by (rule sup_inv_same [OF p]) (simp_all add: same_core_def)
    ultimately show ?thesis using False Inr by (simp add: handleHelloAck_def Let_def split_beta)
  qed (use False assms sup_inv_failCurrent in \<open>simp add: handleHelloAck_def\<close>)
qed (use assms sup_inv_failCurrent in \<open>simp add: handleHelloAck_def\<close>)

lemma sup_inv_bound:
  assumes inv: "sup_inv s" and t: "s_live s = Some t"
  shows "sup_inv (fst (handleBound d body t s))"
proof (cases "\<not> l_acked (child t s) \<or> l_bound (child t s)")
  case False
  let ?s1 = "upd_child t (\<lambda>c. c\<lparr>l_bound := True\<rparr>) s"
  let ?s2 = "\<lambda>r. ?s1\<lparr>s_bringupTimer := None, s_unobservedExitPid := None, s_relay := Some r, s_state := Serving\<rparr>"
  obtain c where c: "s_children s t = Some c" using inv t by (auto simp: sup_inv_def sup_inv_at_def procs_ok_def)
  have "sup_inv ?s1" by (rule sup_inv_upd_child [OF inv]) (simp add: child_grows_def)
  moreover have "procs_ok (?s2 r) = procs_ok ?s1" "starts_ok (?s2 r) = starts_ok ?s1" "budget_ok 0 (?s2 r) = budget_ok 0 ?s1" for r
    unfolding procs_ok_def starts_ok_def budget_ok_def by simp_all
  moreover have "publication_ok (?s2 r)" for r using False t c by (simp add: publication_ok_def child_def)
  ultimately have "sup_inv (?s2 r)" for r by (simp add: sup_inv_def sup_inv_at_def idle_ok_def)
  moreover have "sup_inv (settleStart None u)" if "sup_inv u" "s_state u \<noteq> Idle" for u
    using that by (auto simp: sup_inv_def sup_inv_at_def sup_inv_defs idle_ok_def settleStart_def)
  ultimately have "sup_inv (settleStart None (?s2 r))" for r by simp
  then show ?thesis using False inv sup_inv_failCurrent
    by (simp add: handleBound_def Let_def split: sum.split)
qed (use inv sup_inv_failCurrent in \<open>simp add: handleBound_def\<close>)

lemma sup_inv_ownFrame:
  assumes inv: "sup_inv s" and t: "s_live s = Some t"
  shows "sup_inv (fst (ownFrame d body t s))"
proof -
  have timer: "sup_inv (s\<lparr>s_lockTimer := False\<rparr>)" "sup_inv (s\<lparr>s_lockTimer := False, s_state := Serving\<rparr>)"
    "sup_inv (s\<lparr>s_quitAck := False\<rparr>)"
    by (rule sup_inv_same [OF inv]; simp add: same_core_def)+
  have "sup_inv (fst (handleErrorFrame d code s))" for code
    using inv sup_inv_failCurrent by (simp add: handleErrorFrame_def split: option.split)
  then show ?thesis
    using timer inv sup_inv_failCurrent sup_inv_hello_ack [OF inv t] sup_inv_bound [OF inv t]
    by (simp add: ownFrame_def Let_def split: front_body.split)
qed

lemma sup_inv_controlFrame: "controlFrame d readiness frame s u go \<Longrightarrow> sup_inv s \<Longrightarrow> sup_inv u"
proof (induction rule: controlFrame.induct)
  case (frame_own s t u go)
  then show ?case using sup_inv_ownFrame by (metis fst_conv)
qed (simp_all add: sup_inv_failCurrent sup_inv_after_relay)

lemma sup_inv_controlBatch: "controlBatch d readiness batch s u \<Longrightarrow> sup_inv s \<Longrightarrow> sup_inv u"
proof (induction rule: controlBatch.induct)
  case (batch_raised es s)
  then show ?case by (rule sup_inv_same) (simp_all add: same_core_def)
qed (auto simp: sup_inv_failCurrent intro: sup_inv_controlFrame)

lemma sup_inv_dataBatch: "dataBatch d batch s u \<Longrightarrow> sup_inv s \<Longrightarrow> sup_inv u"
proof (induction rule: dataBatch.induct)
  case (data_raised es s)
  then show ?case by (rule sup_inv_same) (simp_all add: same_core_def)
qed (simp_all add: sup_inv_failCurrent sup_inv_after_relay sup_inv_relay)

lemma sup_step_inv: "sup_step d s u \<Longrightarrow> sup_inv s \<Longrightarrow> sup_inv u"
proof (induction rule: sup_step.induct)
  case (step_door s door_op)
  then show ?case by (rule sup_inv_same) (simp_all add: same_core_def)
next
  case (step_exit_timer s xs x ys)
  then show ?case by (intro waits_core) simp_all
qed (auto intro: sup_inv_start sup_inv_lock sup_inv_quit sup_inv_quit_resume sup_inv_dispose
      sup_inv_controlBatch sup_inv_dataBatch sup_inv_put_planes sup_inv_fail sup_inv_on_error sup_inv_on_exit
      sup_inv_timeouts sup_inv_wait_resume sup_inv_after_relay sup_inv_relay)

lemma new_supervisor_inv: "sup_inv (new_supervisor a)"
  by (simp add: new_supervisor_def sup_inv_def sup_inv_at_def sup_inv_defs idle_ok_def)

lemma sup_run_inv: "sup_run d s u \<Longrightarrow> sup_inv s \<Longrightarrow> sup_inv u"
  by (induction rule: sup_run.induct) (auto intro: sup_step_inv)

end
