(* ===== verification/FrontSupervisorRuns.thy ===== *)
theory FrontSupervisorRuns
  imports FrontSupervisor
begin

text \<open>
  What the supervisor of the pipe front guarantees over its runs, and where it does not keep what
  its comments promise.
\<close>

section \<open>Processes, budget, publication\<close>

lemma sup_reachable_inv:
  assumes "sup_run d (new_supervisor a) s"
  shows "procs_ok s" "publication_ok s" "budget_ok 0 s" "starts_ok s" "idle_ok s"
  using sup_run_inv [OF assms new_supervisor_inv] by (simp_all add: sup_inv_def sup_inv_at_def)

text \<open>
  C7: No front is left behind. Whatever happened - planes ending, processes dying in any order,
  locks, quits, timers - every process main ever spawned, except the live one, was killed by main
  or reported its own end; and the live one is the last spawned and was not killed.
\<close>

theorem no_front_left_behind:
  assumes "sup_run d (new_supervisor a) s" "s_children s t = Some c"
  shows "if s_live s = Some t then t = s_spawnToken s \<and> \<not> l_killed c
    else l_killed c \<or> l_exited c \<or> l_errored c"
  using sup_reachable_inv(1) [OF assms(1)] assms(2) by (auto simp: procs_ok_def)

text \<open>
  The restart budget bounds everything. In the life of a supervisor at most seven processes
  are spawned and six restarts counted, every spawn but the first paid for by a restart; and
  \<open>start\<close> is answered at most once.
\<close>

theorem restart_budget_bounds_spawns:
  assumes "sup_run d (new_supervisor a) s"
  shows "s_restartCount s \<le> 6 \<and> s_spawnToken s \<le> Suc (s_restartCount s)
    \<and> card (dom (s_children s)) \<le> 7 \<and> length (s_outcomes s) \<le> 1"
proof -
  have b: "s_restartCount s \<le> 6" "s_spawnToken s \<le> Suc (s_restartCount s)"
    using sup_reachable_inv(3) [OF assms] by (simp_all add: budget_ok_def FRONT_MAX_RESTARTS_def)
  have "dom (s_children s) \<subseteq> {1..s_spawnToken s}"
    using sup_reachable_inv(1) [OF assms] by (force simp: procs_ok_def)
  then have "card (dom (s_children s)) \<le> s_spawnToken s" using card_mono [of "{1..s_spawnToken s}"] by fastforce
  then show ?thesis using b sup_reachable_inv(4) [OF assms] by (simp add: starts_ok_def)
qed


section \<open>A run\<close>

text \<open>A front that comes up: its \<open>HELLO_ACK\<close> and \<open>BOUND\<close> arrive in one chunk.\<close>

definition front_deps :: supervisor_deps where
  "front_deps = \<lparr>d_pipeName = [80], d_timeoutRefusal = [76], d_refusal = (\<lambda>_. [82]), d_spawn = (\<lambda>_. Some (Some 7))\<rparr>"

definition up_frame :: "nat \<Rightarrow> nat \<Rightarrow> front_body \<Rightarrow> front_frame" where
  "up_frame generation sequence body =
     \<lparr>frame_plane = ControlUp, frame_generation = num generation, frame_connection = num 0,
      frame_sequence = int sequence, frame_body = body\<rparr>"

definition ack_frame :: front_frame where
  "ack_frame = up_frame 0 1 (Hello_ack (num 1) (num 9) (num 7) [49] [50])"

definition bound_frame :: front_frame where
  "bound_frame = up_frame 9 2 (Bound (num 7) [80])"

definition lock_ack_frame :: "nat \<Rightarrow> front_frame" where
  "lock_ack_frame n = up_frame 9 n (Lock_ack (num 0) (num 0))"

lemmas up_frame_defs = ack_frame_def bound_frame_def lock_ack_frame_def up_frame_def

lemma plain_ascii: "plain_text [80]" "plain_text [76]" "plain_text [49]" "plain_text [50]"
  by (simp_all add: plain_text_def high_surrogate_def low_surrogate_def starts_with_bom_def)

lemma ascii_encode: "utf8_encode [80] = [80]" "utf8_encode [76] = [76]" "utf8_encode [49] = [49]" "utf8_encode [50] = [50]"
  by (simp_all add: utf8_encode_def utf8_bytes_def byte_of_def high_surrogate_def low_surrogate_def)

lemmas encode_defs =
  encodePipeFrontFrame_def planeCarries_def frame_type_tables CONNECTION_MUST_BE_ZERO_def
  PIPE_FRONT_SEQUENCE_EXHAUSTED_def requireU32_def requireU16_def requireU8_def write_str_def write_defs
  pipeFrontPayloadBound_def PIPE_FRONT_CONTROL_PAYLOAD_MAX_BYTES_def reserved_flags_def BOUND_FLAGS_MASK_def

text \<open>What a fresh control plane delivers of frames the front encoded, in two chunks.\<close>

lemma sendable_prefix: "sendable p g n (fs @ fs') \<Longrightarrow> sendable p g n fs"
  by (induction fs arbitrary: g n) auto

lemma control_delivers:
  assumes "mapE encodePipeFrontFrame fs = Inr bss" "mapE encodePipeFrontFrame fs' = Inr bss'"
    "sendable ControlUp 0 1 (fs @ fs')"
  shows "\<exists>q q'. \<forall>p p'. \<not> fp_disposed p \<and> fp_controlUp p = newDecoder ControlUp 0 None \<and> \<not> fp_disposed p'
      \<and> fp_controlUp p' = q \<longrightarrow>
    onControlUpData p (concat bss) = (p\<lparr>fp_controlUp := q\<rparr>, map Frame fs)
    \<and> onControlUpData p' (concat bss') = (p'\<lparr>fp_controlUp := q'\<rparr>, map Frame fs')"
proof -
  let ?d = "newDecoder ControlUp 0 (Some 1)"
  have d: "newDecoder ControlUp 0 None = ?d" by (simp add: newDecoder_def)
  have one: "snd (push ?d (concat bss)) = map Frame fs"
    using stream_decodes [OF assms(1) sendable_prefix [OF assms(3)], of bss] push_all_concat [OF newDecoder_inv] by simp
  have "mapE encodePipeFrontFrame (fs @ fs') = Inr (bss @ bss')" using assms(1,2) by (simp add: mapE_Inr_iff)
  from stream_decodes [OF this assms(3), of "[concat bss, concat bss']"]
  have "snd (push_more (push_more (?d, []) (concat bss)) (concat bss')) = map Frame fs @ map Frame fs'"
    by (simp add: push_all_def)
  then have "snd (push (fst (push ?d (concat bss))) (concat bss')) = map Frame fs'"
    using one by (simp add: push_more_def split_beta)
  then show ?thesis using one d
    by (intro exI [of _ "fst (push ?d (concat bss))"] exI [of _ "fst (push (fst (push ?d (concat bss))) (concat bss'))"])
       (simp add: onControlUpData_def split_beta)
qed

lemma reports_encode:
  "\<exists>bss. mapE encodePipeFrontFrame [ack_frame, bound_frame] = Inr bss"
  "\<exists>bss. mapE encodePipeFrontFrame [ack_frame] = Inr bss"
  "n = 2 \<or> n = 3 \<Longrightarrow> \<exists>bss. mapE encodePipeFrontFrame [lock_ack_frame n] = Inr bss"
  by (auto simp: encode_defs up_frame_defs ascii_encode result_simps Let_def)

lemma reports_sendable:
  "sendable ControlUp 0 1 ([ack_frame, bound_frame] @ [lock_ack_frame 3])"
  "sendable ControlUp 0 1 ([ack_frame] @ [lock_ack_frame 2])"
  by (simp_all add: up_frame_defs readable_body_def plain_ascii next_generation_def)

text \<open>Starting a new supervisor leaves a child that was greeted and has said nothing.\<close>

definition greeted :: "admission \<Rightarrow> front_planes \<Rightarrow> supervisor" where
  "greeted a p =
     (new_supervisor a)\<lparr>s_startSettle := True, s_state := Starting, s_failureName := None, s_spawnToken := 1,
        s_children := [1 \<mapsto> new_child (Some 7)], s_live := Some 1, s_planes := p, s_bringupTimer := Some 1\<rparr>"

lemma start_greets:
  assumes "ad_epoch a \<le> STUDIO_ADMISSION_EPOCH_MAX"
  shows "\<exists>bs. start front_deps (new_supervisor a)
    = greeted a (newFrontPlanes\<lparr>fp_controlDownBytes := [bs], fp_controlDownSequence := 2\<rparr>)"
proof -
  have "\<exists>bs. encodePipeFrontFrame (composeFrontHello [80] (ad_epoch a) [76]) = Inr bs"
    by (rule hello_encodes) (simp_all add: ascii_encode assms)
  then obtain bs where bs: "encodePipeFrontFrame (composeFrontHello [80] (ad_epoch a) [76]) = Inr bs" by blast
  have "\<lparr>frame_plane = ControlDown, frame_generation = num 0, frame_connection = num 0, frame_sequence = 1,
      frame_body = frame_body (composeFrontHello [80] (ad_epoch a) [76])\<rparr> = composeFrontHello [80] (ad_epoch a) [76]"
    by (simp add: composeFrontHello_def)
  then show ?thesis using bs
    by (simp add: start_def spawnOnce.simps new_supervisor_def front_deps_def planes_of_def put_planes_def
        writeControl_def newFrontPlanes_def planes_encode_def hello_body_def studioAdmissionEpoch_def greeted_def
        result_simps Let_def)
qed

text \<open>The same child after its \<open>HELLO_ACK\<close>, and after its \<open>BOUND\<close>.\<close>

definition acked :: "admission \<Rightarrow> front_planes \<Rightarrow> supervisor" where
  "acked a p =
     (greeted a p)\<lparr>s_seen := [num 9], s_children := [1 \<mapsto> (new_child (Some 7))\<lparr>l_acked := True\<rparr>]\<rparr>"

definition serving :: "admission \<Rightarrow> front_planes \<Rightarrow> supervisor" where
  "serving a p =
     (acked a p)\<lparr>s_startSettle := False, s_outcomes := [None], s_state := Serving, s_bringupTimer := None,
        s_children := [1 \<mapsto> (new_child (Some 7))\<lparr>l_acked := True, l_bound := True\<rparr>],
        s_relay := Some (new_relay p)\<rparr>"

definition fresh_planes :: "front_planes \<Rightarrow> bool" where
  "fresh_planes p =
     (\<not> fp_disposed p \<and> \<not> fp_controlDownDestroyed p \<and> fp_controlDownSequence p = 2 \<and> \<not> d_adopted (fp_dataUp p)
      \<and> fp_dataDownSequence p = 1 \<and> \<not> fp_dataDownDestroyed p)"

text \<open>The planes once the generation is adopted.\<close>

definition adopted :: "front_planes \<Rightarrow> front_planes" where
  "adopted p = p\<lparr>fp_generation := 9, fp_dataUp := (fp_dataUp p)\<lparr>d_adopted := True, d_generation := 9\<rparr>\<rparr>"

lemma ack_accepted:
  assumes "fresh_planes p"
  shows "controlFrame front_deps readiness ack_frame (greeted a p) (acked a (adopted p)) True"
proof (rule frame_own)
  show "ownFrame front_deps (frame_body ack_frame) 1 (greeted a p) = (acked a (adopted p), True)"
    using assms
    by (simp add: ownFrame_def handleHelloAck_def up_frame_defs greeted_def child_def new_child_def new_supervisor_def
        validateFrontHelloAck_def hello_constants planes_adoptGeneration_def planes_of_def put_planes_def
        adoptGeneration_def fresh_planes_def adopted_def acked_def upd_child_def Let_def fun_eq_iff)
qed (simp_all add: greeted_def up_frame_defs relay_types_def)

lemma bound_accepted: "controlFrame front_deps readiness bound_frame (acked a p) (serving a p) True"
proof (rule frame_own)
  show "ownFrame front_deps (frame_body bound_frame) 1 (acked a p) = (serving a p, True)"
    by (simp add: ownFrame_def handleBound_def up_frame_defs greeted_def child_def new_child_def new_supervisor_def
        validateFrontBound_def FRONT_BOUND_REQUIRED_FLAGS_def PIPE_FRONT_BOUND_FLAGS_def front_deps_def planes_of_def put_planes_def settleStart_def
        acked_def serving_def upd_child_def Let_def fun_eq_iff)
qed (simp_all add: acked_def greeted_def up_frame_defs relay_types_def)

text \<open>
  A supervisor that is greeted, reads the frames \<open>fs\<close> and could read the frame \<open>f\<close> next.
\<close>

lemma reads_frames:
  assumes "ad_epoch a \<le> STUDIO_ADMISSION_EPOCH_MAX" "mapE encodePipeFrontFrame fs = Inr bss"
    "mapE encodePipeFrontFrame [f] = Inr bss'" "sendable ControlUp 0 1 (fs @ [f])"
    "\<And>p. fresh_planes p \<Longrightarrow> controlBatch front_deps None (map Frame fs) (greeted a p) (after (adopted p))"
  shows "\<exists>p. sup_run front_deps (new_supervisor a) (after p) \<and> fp_generation p = 9 \<and> \<not> fp_disposed p
    \<and> \<not> fp_controlDownDestroyed p \<and> fp_controlDownSequence p = 2
    \<and> (\<forall>p'. \<not> fp_disposed p' \<and> fp_controlUp p' = fp_controlUp p \<longrightarrow>
         (\<exists>q. onControlUpData p' (concat bss') = (p'\<lparr>fp_controlUp := q\<rparr>, [Frame f])))"
proof -
  obtain bs where g: "start front_deps (new_supervisor a)
      = greeted a (newFrontPlanes\<lparr>fp_controlDownBytes := [bs], fp_controlDownSequence := 2\<rparr>)" (is "_ = greeted a ?p")
    using start_greets [OF assms(1)] by blast
  have run: "sup_run front_deps (new_supervisor a) (greeted a ?p)"
    unfolding g [symmetric] by (rule run_step [OF run_here step_start]) (simp_all add: new_supervisor_def)
  obtain q q' where q: "\<And>p p'. \<lbrakk>\<not> fp_disposed p; fp_controlUp p = newDecoder ControlUp 0 None; \<not> fp_disposed p';
        fp_controlUp p' = q\<rbrakk> \<Longrightarrow>
      onControlUpData p (concat bss) = (p\<lparr>fp_controlUp := q\<rparr>, map Frame fs)
      \<and> onControlUpData p' (concat bss') = (p'\<lparr>fp_controlUp := q'\<rparr>, map Frame [f])"
    using control_delivers [OF assms(2-4)] by blast
  let ?q = "?p\<lparr>fp_controlUp := q\<rparr>"
  have p: "\<not> fp_disposed ?p" "fp_controlUp ?p = newDecoder ControlUp 0 None" "\<not> fp_disposed ?q"
    by (simp_all add: newFrontPlanes_def)
  have "put_planes ?q (greeted a ?p) = greeted a ?q" "planes_of (greeted a ?p) = ?p" "s_live (greeted a ?p) = Some 1"
    by (simp_all add: put_planes_def planes_of_def greeted_def new_supervisor_def)
  moreover have "fresh_planes ?q" by (simp add: fresh_planes_def newFrontPlanes_def newDecoder_def)
  then have "controlBatch front_deps None (map Frame fs) (greeted a ?q) (after (adopted ?q))" by (rule assms(5))
  ultimately have "sup_step front_deps (greeted a ?p) (after (adopted ?q))"
    using step_control [of "greeted a ?p" 1 "concat bss" ?q "map Frame fs"] q [OF p] by simp
  with run have "sup_run front_deps (new_supervisor a) (after (adopted ?q))" by (rule run_step)
  moreover have "\<exists>q'. onControlUpData p' (concat bss') = (p'\<lparr>fp_controlUp := q'\<rparr>, [Frame f])"
    if "\<not> fp_disposed p'" "fp_controlUp p' = fp_controlUp (adopted ?q)" for p'
    using q [OF p(1,2), of p'] that by (auto simp: adopted_def)
  ultimately show ?thesis by (intro exI [of _ "adopted ?q"]) (auto simp: adopted_def newFrontPlanes_def)
qed

lemma reaches_serving:
  assumes "ad_epoch a \<le> STUDIO_ADMISSION_EPOCH_MAX"
  obtains p chunk where "sup_run front_deps (new_supervisor a) (serving a p)" "fp_generation p = 9" "\<not> fp_disposed p"
    "\<not> fp_controlDownDestroyed p" "fp_controlDownSequence p = 2"
    "\<And>p'. \<lbrakk>\<not> fp_disposed p'; fp_controlUp p' = fp_controlUp p\<rbrakk> \<Longrightarrow>
       \<exists>q. onControlUpData p' chunk = (p'\<lparr>fp_controlUp := q\<rparr>, [Frame (lock_ack_frame 3)])"
proof -
  obtain bss bss' where b: "mapE encodePipeFrontFrame [ack_frame, bound_frame] = Inr bss"
    "mapE encodePipeFrontFrame [lock_ack_frame 3] = Inr bss'"
    using reports_encode by blast
  have "controlBatch front_deps None (map Frame [ack_frame, bound_frame]) (greeted a p) (serving a (adopted p))"
    if "fresh_planes p" for p
    using that by (auto intro: batch_go batch_done ack_accepted bound_accepted)
  from reads_frames [OF assms b reports_sendable(1) this] show thesis using that by blast
qed

lemma reaches_acked:
  assumes "ad_epoch a \<le> STUDIO_ADMISSION_EPOCH_MAX"
  obtains p chunk where "sup_run front_deps (new_supervisor a) (acked a p)" "fp_generation p = 9" "\<not> fp_disposed p"
    "\<not> fp_controlDownDestroyed p" "fp_controlDownSequence p = 2"
    "\<And>p'. \<lbrakk>\<not> fp_disposed p'; fp_controlUp p' = fp_controlUp p\<rbrakk> \<Longrightarrow>
       \<exists>q. onControlUpData p' chunk = (p'\<lparr>fp_controlUp := q\<rparr>, [Frame (lock_ack_frame 2)])"
proof -
  obtain bss bss' where b: "mapE encodePipeFrontFrame [ack_frame] = Inr bss"
    "mapE encodePipeFrontFrame [lock_ack_frame 2] = Inr bss'"
    using reports_encode by blast
  have "controlBatch front_deps None (map Frame [ack_frame]) (greeted a p) (acked a (adopted p))"
    if "fresh_planes p" for p
    using that by (auto intro: batch_go batch_done ack_accepted)
  from reads_frames [OF assms b reports_sendable(2) this] show thesis using that by blast
qed

lemma lock_written:
  assumes "fp_generation p = 9" "\<not> fp_disposed p" "\<not> fp_controlDownDestroyed p" "fp_controlDownSequence p = 2"
    "epoch \<le> STUDIO_ADMISSION_EPOCH_MAX"
  obtains bs where "writeControl p True 0 (Lock (num epoch))
    = Inr (p\<lparr>fp_controlDownBytes := fp_controlDownBytes p @ [bs], fp_controlDownSequence := 3\<rparr>, True)"
  using assms
  by (simp add: writeControl_def planes_encode_def encode_defs result_simps Let_def STUDIO_ADMISSION_EPOCH_MAX_def)

section \<open>LOCK\<close>

text \<open>
  A front can be called serving that never confirmed its pipe. A \<open>LOCK\<close> between \<open>HELLO_ACK\<close>
  and \<open>BOUND\<close> makes the supervisor \<open>locking\<close>, and its \<open>LOCK_ACK\<close> then \<open>serving\<close>, though \<open>BOUND\<close> never
  came: there is a run to such a state, with no relay, where another \<open>start\<close> is told that it started.
\<close>

theorem lock_ack_serves_unbound:
  "\<exists>s t. sup_run front_deps (new_supervisor boot_admission) s \<and> s_live s = Some t \<and> s_state s = Serving
     \<and> \<not> l_bound (child t s) \<and> s_relay s = None \<and> s_outcomes (start front_deps s) = s_outcomes s @ [None]"
proof -
  obtain p chunk where p: "sup_run front_deps (new_supervisor boot_admission) (acked boot_admission p)"
    "fp_generation p = 9" "\<not> fp_disposed p" "\<not> fp_controlDownDestroyed p" "fp_controlDownSequence p = 2"
    "\<And>p'. \<lbrakk>\<not> fp_disposed p'; fp_controlUp p' = fp_controlUp p\<rbrakk> \<Longrightarrow>
       \<exists>q. onControlUpData p' chunk = (p'\<lparr>fp_controlUp := q\<rparr>, [Frame (lock_ack_frame 2)])"
    using reaches_acked [of boot_admission] by (auto simp: boot_admission_def)
  obtain bs where "writeControl p True 0 (Lock (num 0))
      = Inr (p\<lparr>fp_controlDownBytes := fp_controlDownBytes p @ [bs], fp_controlDownSequence := 3\<rparr>, True)"
    (is "_ = Inr (?p, _)") using lock_written [OF p(2-5), of 0] by (auto simp: STUDIO_ADMISSION_EPOCH_MAX_def)
  then have l: "lock front_deps (acked boot_admission p)
      = (acked boot_admission ?p)\<lparr>s_state := Locking, s_lockTimer := True\<rparr>"
    by (simp add: lock_def close_relay_def acked_def greeted_def new_supervisor_def child_def planes_of_def
        put_planes_def boot_admission_def studioAdmissionEpoch_def Let_def)
  obtain q where q: "onControlUpData ?p chunk = (?p\<lparr>fp_controlUp := q\<rparr>, [Frame (lock_ack_frame 2)])"
    using p(6) [of ?p] p(3) by auto
  let ?s = "\<lambda>p. (acked boot_admission p)\<lparr>s_state := Locking, s_lockTimer := True\<rparr>"
  let ?u = "(acked boot_admission (?p\<lparr>fp_controlUp := q\<rparr>))\<lparr>s_state := Serving, s_lockTimer := False\<rparr>"
  have "controlFrame front_deps None (lock_ack_frame 2) (?s (?p\<lparr>fp_controlUp := q\<rparr>)) ?u True"
    by (rule frame_own [of _ 1])
       (simp_all add: acked_def greeted_def up_frame_defs relay_types_def ownFrame_def Let_def)
  then have "controlBatch front_deps None [Frame (lock_ack_frame 2)] (?s (?p\<lparr>fp_controlUp := q\<rparr>)) ?u"
    by (rule batch_go) (rule batch_done)
  moreover have "put_planes (?p\<lparr>fp_controlUp := q\<rparr>) (?s ?p) = ?s (?p\<lparr>fp_controlUp := q\<rparr>)" "planes_of (?s ?p) = ?p"
    "s_live (?s ?p) = Some 1"
    by (simp_all add: put_planes_def planes_of_def acked_def greeted_def new_supervisor_def)
  ultimately have "sup_step front_deps (?s ?p) ?u"
    using step_control [of "?s ?p" 1 chunk "?p\<lparr>fp_controlUp := q\<rparr>" "[Frame (lock_ack_frame 2)]"] q by simp
  then have "sup_run front_deps (new_supervisor boot_admission) ?u"
    using run_step [OF run_step [OF p(1) step_lock]] by (simp add: l)
  then show ?thesis
    by (intro exI [of _ ?u] exI [of _ 1])
       (simp add: acked_def greeted_def child_def new_child_def new_supervisor_def start_def)
qed

text \<open>A closed relay, and what it answered connections with.\<close>

definition deaf :: "relay \<Rightarrow> bool" where
  "deaf r = (r_closed r \<and> r_keys r = [])"

fun is_answer :: "relay_event \<Rightarrow> bool" where
  "is_answer (Connected _) = True"
| "is_answer (Sent_control _ (Admit _)) = True"
| "is_answer (Sent_control _ (Refuse _)) = True"
| "is_answer _ = False"

definition answers :: "relay \<Rightarrow> relay_event list" where
  "answers r = filter is_answer (r_trace r)"

lemma deaf_live: "deaf r \<Longrightarrow> live i r = (r, None)" "deaf r \<Longrightarrow> lookup i r = None"
  by (simp_all add: deaf_def live_def lookup_def)

lemma deaf_call:
  "transport_call r r' \<Longrightarrow> deaf r \<Longrightarrow> r' = r"
  "reacts r r' \<Longrightarrow> deaf r \<Longrightarrow> r' = r"
  "flush i r r' \<Longrightarrow> True"
proof (induction r r' and r r' and i r r' rule: transport_call_reacts_flush.inducts)
  case (call_close_all s)
  then show ?case by (simp add: deaf_def closeAll_def)
qed (simp_all add: relay_write_def relay_end_def relay_destroy_def relay_pause_def resume_begin_def deaf_live)

lemma deaf_frames:
  "handleControlFrame refusal epoch i body r r' \<Longrightarrow> deaf r \<Longrightarrow> r' = r"
  "handleDataFrame i body r r' \<Longrightarrow> deaf r \<Longrightarrow> r' = r"
  "deaf r \<Longrightarrow> afterDataBatch r = r"
  by (auto simp: deaf_def afterDataBatch_def elim: handleControlFrame.cases handleDataFrame.cases)

lemma raiseClose_frame [simp]:
  "r_keys (raiseClose i r) = r_keys r" "r_closed (raiseClose i r) = r_closed r" "r_trace (raiseClose i r) = r_trace r"
  "r_planes (raiseClose i r) = r_planes r"
  by (simp_all add: raiseClose_def clearStallWatch_def Let_def split: option.split)

lemma closeAll_deaf:
  assumes "r_closed r \<Longrightarrow> r_keys r = []"
  shows "deaf (closeAll r)" "r_trace (closeAll r) = r_trace r" "r_planes (closeAll r) = r_planes r"
proof -
  let ?f = "\<lambda>i s. raiseClose i (upd i (\<lambda>c. c\<lparr>c_destroyed := True, c_pending := [], c_awaitingAck := [],
      c_unacked := [], c_blocking := None\<rparr>) s)"
  have "r_keys (fold ?f is s) = r_keys s \<and> r_closed (fold ?f is s) = r_closed s \<and> r_trace (fold ?f is s) = r_trace s
      \<and> r_planes (fold ?f is s) = r_planes s" for "is" s
    by (induction "is" arbitrary: s) simp_all
  then show "deaf (closeAll r)" "r_trace (closeAll r) = r_trace r" "r_planes (closeAll r) = r_planes r"
    using assms by (auto simp: closeAll_def deaf_def Let_def)
qed

text \<open>The child \<open>t\<close> is gone, or it is live and its relay is deaf, having answered \<open>A\<close>.\<close>

definition gone :: "nat \<Rightarrow> supervisor \<Rightarrow> bool" where
  "gone t s = (t \<le> s_spawnToken s \<and> s_live s \<noteq> Some t)"

definition deafened :: "nat \<Rightarrow> relay_event list \<Rightarrow> supervisor \<Rightarrow> bool" where
  "deafened t A s =
     (gone t s \<or> t \<le> s_spawnToken s \<and> s_live s = Some t \<and> l_acked (child t s) \<and> l_bound (child t s)
        \<and> (\<exists>r. s_relay s = Some r \<and> deaf r \<and> answers r = A))"

lemma gone_stays:
  "gone t s \<or> t \<le> s_spawnToken s \<and> fail_heard token s \<Longrightarrow> gone t (fail d token failure dead s)"
  "gone t s \<Longrightarrow> gone t (resumeRestart d previous observed s)"
  "gone t s \<Longrightarrow> gone t (spawnOnce d s)"
proof (induction d token failure dead s and d previous observed s and d s rule: fail_resumeRestart_spawnOnce.induct)
  case (1 d token failure dead s)
  show ?case
  proof (cases "fail_heard token s")
    case True
    then have "fail_counts token s" "\<not> (s_state s = Stopped \<or> s_quitRequested s)"
      by (simp_all add: fail_heard_def)
    moreover have "t \<le> s_spawnToken s" using 1(2) by (auto simp: gone_def)
    ultimately show ?thesis using 1(1) [OF _ _ refl refl _ _ refl]
      by (simp add: fail_accounted [OF True] Let_def finishFailed_def gone_def split: option.split)
  next
    case False
    from fail_ignored [OF this, of d failure dead] 1(2) False show ?thesis by (auto simp: gone_def)
  qed
next
  case (2 d previous observed s)
  then show ?case by (auto simp: resumeRestart.simps gone_def split: option.split)
next
  case (3 d s)
  then show ?case by (simp add: spawnOnce.simps Let_def gone_def split: option.split sum.split)
qed

text \<open>An operation that keeps the child live, or lets go of it, and leaves a deaf relay as it is.\<close>

lemma deafened_update:
  assumes "deafened t A s" "s_spawnToken s' = s_spawnToken s" "s_live s' = s_live s \<or> s_live s' = None"
    "s_live s' = Some t \<Longrightarrow> l_acked (child t s) \<and> l_bound (child t s) \<Longrightarrow> l_acked (child t s') \<and> l_bound (child t s')"
    "\<And>r. s_live s' = Some t \<Longrightarrow> s_relay s = Some r \<Longrightarrow> deaf r \<Longrightarrow>
       \<exists>r'. s_relay s' = Some r' \<and> deaf r' \<and> answers r' = answers r"
  shows "deafened t A s'"
proof (cases "s_live s' = Some t")
  case True
  then have "s_live s = Some t" using assms(3) by auto
  with assms(1) obtain r where r: "t \<le> s_spawnToken s" "l_acked (child t s)" "l_bound (child t s)"
    "s_relay s = Some r" "deaf r" "answers r = A"
    by (auto simp: deafened_def gone_def)
  with assms(2) assms(4) [OF True] assms(5) [OF True r(4,5)] True show ?thesis
    by (auto simp: deafened_def)
next
  case False
  with assms(1,2) show ?thesis by (auto simp: deafened_def gone_def)
qed

lemma child_same: "s_children s' = s_children s \<Longrightarrow> child t s' = child t s"
  by (simp add: child_def)

lemma child_upd: "child u (upd_child t f s) = (if u = t \<and> s_children s t \<noteq> None then f (child u s) else child u s)"
  by (auto simp: child_def split: option.split)

lemma deafened_fail: "deafened t A s \<Longrightarrow> deafened t A (fail d token failure dead s)"
proof (cases "fail_heard token s")
  case True
  assume "deafened t A s"
  then show ?thesis using True gone_stays(1) [of t s token d failure dead] by (auto simp: deafened_def gone_def)
next
  case False
  assume d: "deafened t A s"
  have "deafened t A (settle_live s)"
    by (rule deafened_update [OF d]) (simp_all add: settle_live_def child_upd split: option.split)
  with d fail_ignored [OF False, of d failure dead] show ?thesis by metis
qed

lemma deafened_failCurrent: "deafened t A s \<Longrightarrow> deafened t A (failCurrent d failure s)"
  by (simp add: failCurrent_def deafened_fail split: option.split)

lemma deafened_same:
  assumes "deafened t A s" "s_spawnToken s' = s_spawnToken s" "s_live s' = s_live s" "s_children s' = s_children s"
    "s_relay s' = s_relay s"
  shows "deafened t A s'"
  using child_same [OF assms(4)] assms(2,3,5) by (intro deafened_update [OF assms(1)]) simp_all

lemma deafened_put_planes:
  assumes "deafened t A s"
  shows "deafened t A (put_planes p s)"
proof (rule deafened_update [OF assms])
  fix r
  assume "s_relay s = Some r" "deaf r"
  then show "\<exists>r'. s_relay (put_planes p s) = Some r' \<and> deaf r' \<and> answers r' = answers r"
    by (simp add: put_planes_def deaf_def answers_def)
qed (simp_all add: child_same [of "put_planes p s" s])

lemma deafened_close_relay: "deafened t A s \<Longrightarrow> deafened t A (close_relay s)"
proof (erule deafened_update)
  fix r
  assume "s_relay s = Some r" "deaf r"
  moreover from this have "closeAll r = r" by (simp add: deaf_def closeAll_def)
  ultimately show "\<exists>r'. s_relay (close_relay s) = Some r' \<and> deaf r' \<and> answers r' = answers r"
    by (simp add: close_relay_def)
qed (auto simp: close_relay_def child_def)

lemma drop_live_gone: "t \<le> s_spawnToken s \<Longrightarrow> gone t (drop_live dead s)"
  by (auto simp: gone_def drop_live_def drop_relay_def close_relay_def Let_def split: option.split)

lemma deafened_token: "deafened t A s \<Longrightarrow> t \<le> s_spawnToken s"
  by (auto simp: deafened_def gone_def)

lemma dispose_gone: "t \<le> s_spawnToken s \<Longrightarrow> gone t (dispose s)" "t \<le> s_spawnToken s \<Longrightarrow> gone t (disposeAwaitingExit s)"
proof -
  assume t: "t \<le> s_spawnToken s"
  then have "gone t (drop_live False ((clearTimers s)\<lparr>s_quitAck := False\<rparr>))"
    by (intro drop_live_gone) (simp add: clearTimers_def)
  then show g: "gone t (dispose s)" by (simp add: dispose_def Let_def gone_def)
  then show "gone t (disposeAwaitingExit s)"
    by (simp add: disposeAwaitingExit_def gone_def split: option.split)
qed

lemma gone_deafened: "gone t s \<Longrightarrow> deafened t A s"
  by (simp add: deafened_def)

lemma deafened_lock: "deafened t A s \<Longrightarrow> deafened t A (lock d s)"
proof -
  assume "deafened t A s"
  then have c: "deafened t A (close_relay s)" by (rule deafened_close_relay)
  then have l: "deafened t A ((close_relay s)\<lparr>s_state := Locking\<rparr>)" by (rule deafened_same) simp_all
  then have "deafened t A ((close_relay s)\<lparr>s_state := Locking, s_raised := True\<rparr>)" by (rule deafened_same) simp_all
  moreover have "deafened t A ((put_planes p ((close_relay s)\<lparr>s_state := Locking\<rparr>))\<lparr>s_lockTimer := True\<rparr>)" for p
    by (rule deafened_same [OF deafened_put_planes [OF l]]) simp_all
  ultimately show ?thesis unfolding lock_def Let_def
    using c deafened_failCurrent [OF l] by (simp split: option.split sum.split)
qed

lemma deafened_quit: "deafened t A s \<Longrightarrow> deafened t A (quit n s)"
proof -
  assume d: "deafened t A s"
  then have q: "deafened t A (s\<lparr>s_quitRequested := True, s_state := st\<rparr>)" for st by (rule deafened_same) simp_all
  have "deafened t A ((put_planes p (s\<lparr>s_quitRequested := True, s_state := Quitting\<rparr>))
      \<lparr>s_quitAck := True, s_quitting := True\<rparr>)" for p
    by (rule deafened_same [OF deafened_put_planes [OF q [of Quitting]]]) simp_all
  moreover have "deafened t A (disposeAwaitingExit (s\<lparr>s_quitRequested := True, s_state := Quitting\<rparr>))"
    by (intro gone_deafened dispose_gone) (simp add: deafened_token [OF d])
  ultimately show ?thesis using q by (simp add: quit_def Let_def split: option.split sum.split)
qed

lemma deafened_relay_op:
  assumes "deafened t A s" "s_relay s = Some r" "deaf r \<Longrightarrow> deaf r' \<and> answers r' = answers r"
  shows "deafened t A (s\<lparr>s_relay := Some r'\<rparr>)"
  by (rule deafened_update [OF assms(1)])
     (use assms in \<open>auto simp: child_same [of "s\<lparr>s_relay := Some r'\<rparr>" s]\<close>)

lemma deafened_after_relay:
  assumes "deafened t A s" "s_relay s = Some r" "deaf r \<Longrightarrow> deaf r' \<and> answers r' = answers r"
  shows "deafened t A (after_relay d r r' s)"
  using deafened_relay_op [OF assms] deafened_failCurrent
  by (simp add: after_relay_def Let_def split: option.split)

text \<open>The bootstrap is over for a deafened child: a second one is refused.\<close>

lemma deafened_ownFrame:
  assumes d: "deafened t A s" and u: "s_live s = Some u"
  shows "deafened t A (fst (ownFrame dp body u s))"
proof -
  have fields: "deafened t A (s\<lparr>s_lockTimer := False\<rparr>)" "deafened t A (s\<lparr>s_lockTimer := False, s_state := Serving\<rparr>)"
    "deafened t A (s\<lparr>s_quitAck := False\<rparr>)"
    by (rule deafened_same [OF d]; simp)+
  have f: "deafened t A (failCurrent dp x s)" for x by (rule deafened_failCurrent [OF d])
  have err: "deafened t A (fst (handleErrorFrame dp code s))" for code
    using d f by (simp add: handleErrorFrame_def split: option.split)
  have "deafened t A (fst (handleHelloAck dp body u s)) \<and> deafened t A (fst (handleBound dp body u s))"
  proof (cases "u = t")
    case True
    with d u have "l_acked (child t s)" "l_bound (child t s)" by (auto simp: deafened_def gone_def)
    then show ?thesis using f True by (simp add: handleHelloAck_def handleBound_def)
  next
    case False
    have "gone t v" if "s_spawnToken v = s_spawnToken s" "s_live v = s_live s" for v
      using that False u deafened_token [OF d] by (simp add: gone_def)
    then have g: "deafened t A v" if "s_spawnToken v = s_spawnToken s" "s_live v = s_live s" for v
      using that gone_deafened by blast
    show ?thesis using f
      by (auto simp: handleHelloAck_def handleBound_def Let_def split_beta intro: g split: sum.split)
  qed
  then show ?thesis using fields err f d by (cases body) (simp_all add: ownFrame_def Let_def)
qed

lemma deafened_controlFrame: "controlFrame dp readiness frame s v go \<Longrightarrow> deafened t A s \<Longrightarrow> deafened t A v"
proof (induction rule: controlFrame.induct)
  case (frame_own s u v go)
  then show ?case using deafened_ownFrame by (metis fst_conv)
next
  case (frame_relay s u r r' v go)
  have "deaf r \<Longrightarrow> deaf r' \<and> answers r' = answers r" using deaf_frames(1) [OF frame_relay(4)] by simp
  then show ?case using deafened_after_relay frame_relay(3,5,7) by simp
qed (simp_all add: deafened_failCurrent)

lemma deafened_raised: "deafened t A s \<Longrightarrow> deafened t A (s\<lparr>s_raised := True\<rparr>)"
  by (rule deafened_same) simp_all

lemma deafened_controlBatch: "controlBatch dp readiness batch s v \<Longrightarrow> deafened t A s \<Longrightarrow> deafened t A v"
  by (induction rule: controlBatch.induct)
     (auto intro: deafened_failCurrent deafened_raised deafened_controlFrame)

lemma deafened_dataBatch: "dataBatch dp batch s v \<Longrightarrow> deafened t A s \<Longrightarrow> deafened t A v"
proof (induction rule: dataBatch.induct)
  case (data_done s r)
  then show ?case by (auto intro!: deafened_relay_op simp: deaf_frames)
next
  case (data_stop s r frame r' es)
  have "deaf r \<Longrightarrow> deaf r' \<and> answers r' = answers r" using deaf_frames(2) [OF data_stop(2)] by simp
  with data_stop show ?case using deafened_after_relay by simp
next
  case (data_go s r frame r' es v)
  have "deaf r \<Longrightarrow> deaf r' \<and> answers r' = answers r" using deaf_frames(2) [OF data_go(2)] by simp
  with data_go show ?case using deafened_after_relay by simp
qed (auto intro: deafened_failCurrent deafened_raised)

lemma stallTimeout_frame [simp]:
  "r_keys (stallTimeout i r) = r_keys r" "r_closed (stallTimeout i r) = r_closed r" "r_trace (stallTimeout i r) = r_trace r"
  by (simp_all add: stallTimeout_def)

text \<open>Nothing that can happen makes a deafened front listen again.\<close>

lemma deafened_step: "sup_step d s u \<Longrightarrow> sup_inv s \<Longrightarrow> deafened t A s \<Longrightarrow> deafened t A u"
proof (induction rule: sup_step.induct)
  case (step_start s)
  then have "gone t (s\<lparr>s_startSettle := True\<rparr>)"
    using deafened_token [OF step_start(4)] by (simp add: gone_def sup_inv_def idle_ok_def)
  then show ?case using step_start(1) gone_stays(3) gone_deafened by (simp add: start_def)
next
  case (step_quit_resume s)
  then show ?case using deafened_token unfolding quit_resume_def
    by (intro gone_deafened dispose_gone) simp
next
  case (step_dispose s)
  then show ?case using deafened_token dispose_gone gone_deafened by blast
next
  case (step_door s door_op)
  show ?case by (rule deafened_same [OF step_door(2)]) simp_all
next
  case (step_error s u c)
  have "deafened t A (upd_child u (\<lambda>c. c\<lparr>l_errored := True\<rparr>) s)"
    by (rule deafened_update [OF step_error(3)]) (auto simp: child_upd)
  then show ?case unfolding on_error_def by (rule deafened_fail)
next
  case (step_exit s u c code)
  have "deafened t A (s\<lparr>s_waits := map (wake u) (s_waits s)\<rparr>)" by (rule deafened_same [OF step_exit(4)]) simp_all
  then have e: "deafened t A (upd_child u (\<lambda>c. c\<lparr>l_exited := True\<rparr>) (s\<lparr>s_waits := map (wake u) (s_waits s)\<rparr>))" (is "deafened t A ?s")
    by (rule deafened_update) (auto simp: child_upd)
  moreover have "deafened t A (?s\<lparr>s_state := Stopped\<rparr>)" by (rule deafened_same [OF e]) simp_all
  ultimately show ?case by (simp add: on_exit_def handleExit_def Let_def deafened_fail)
next
  case (step_bringup s u)
  have "deafened t A (s\<lparr>s_bringupTimer := None\<rparr>)" by (rule deafened_same [OF step_bringup(3)]) simp_all
  then show ?case unfolding bringup_timeout_def by (rule deafened_fail)
next
  case (step_lock_timer s)
  have "deafened t A (s\<lparr>s_lockTimer := False\<rparr>)" by (rule deafened_same [OF step_lock_timer(3)]) simp_all
  then show ?case unfolding lock_timeout_def by (rule deafened_failCurrent)
next
  case (step_exit_timer s xs x ys)
  show ?case by (rule deafened_same [OF step_exit_timer(4)]) simp_all
next
  case (step_wait s xs x ys observed)
  have w: "deafened t A (s\<lparr>s_waits := xs @ ys\<rparr>)" (is "deafened t A ?s")
    by (rule deafened_same [OF step_wait(4)]) simp_all
  have "deafened t A (?s\<lparr>s_unobservedExitPid := p\<rparr>)" for p by (rule deafened_same [OF w]) simp_all
  moreover have "deafened t A (resumeRestart d p ob ?s)" for p ob
  proof (cases "s_live s = None")
    case True
    then have "gone t ?s" using deafened_token [OF w] by (simp add: gone_def)
    then show ?thesis using gone_stays(2) gone_deafened by blast
  next
    case False
    then show ?thesis using w by (simp add: resumeRestart.simps)
  qed
  ultimately show ?case using w by (simp add: wait_resume_def split: wait_purpose.split)
next
  case (step_consumer s r r')
  have "deaf r \<Longrightarrow> deaf r' \<and> answers r' = answers r" using deaf_call(1) [OF step_consumer(2)] by simp
  then show ?case using deafened_after_relay step_consumer by simp
next
  case (step_relay_microtask s r m rest r')
  have "deaf r' \<and> answers r' = answers r" if "deaf r"
  proof -
    have "r' = (case m of Close_edge i \<Rightarrow> emit (Emit_close i) (r\<lparr>r_microtasks := rest\<rparr>)
            | Write_callback k \<Rightarrow> r\<lparr>r_microtasks := rest\<rparr>)"
      using deaf_call(2) [OF step_relay_microtask(3)] that by (simp add: deaf_def split: microtask.split)
    then show ?thesis using that by (simp add: deaf_def answers_def split: microtask.split)
  qed
  then show ?case using deafened_after_relay step_relay_microtask by simp
next
  case (step_stall s r i)
  show ?case by (rule deafened_relay_op [OF step_stall(3,1)]) (auto simp: deaf_def answers_def)
qed (auto intro: deafened_lock deafened_quit deafened_controlBatch deafened_dataBatch deafened_put_planes deafened_fail)

lemma deafened_run: "sup_run d s u \<Longrightarrow> sup_inv s \<Longrightarrow> deafened t A s \<Longrightarrow> deafened t A u"
  by (induction rule: sup_run.induct) (auto intro: deafened_step sup_run_inv)

text \<open>
  C8: A lock deafens the front for good. \<open>lock\<close> closes the relay and keeps it, and a closed relay
  drops every frame: however the run goes on - \<open>LOCK_ACK\<close> arrives and the supervisor is \<open>serving\<close>
  again, the door opens, connections are offered - as long as the same child is live no connection
  is admitted, refused or handed over any more, though it should be "back to serving" after an unlock.
\<close>

theorem lock_deafens_front:
  assumes "sup_run d (new_supervisor a) s" "s_live s = Some t" "s_relay s = Some r" "\<not> r_closed r"
    "sup_run d (lock d s) u" "s_live u = Some t"
  shows "\<exists>r'. s_relay u = Some r' \<and> r_closed r' \<and> answers r' = answers r"
proof -
  have inv: "sup_inv s" by (rule sup_run_inv [OF assms(1) new_supervisor_inv])
  obtain c where c: "s_children s t = Some c" "l_acked c" "l_bound c" "t \<le> s_spawnToken s"
    using inv assms(2,3) by (auto simp: sup_inv_def sup_inv_at_def publication_ok_def procs_ok_def)
  have "deaf (closeAll r)" "answers (closeAll r) = answers r"
    using closeAll_deaf [of r] assms(4) by (simp_all add: answers_def)
  moreover have "l_acked (child t (close_relay s))" "l_bound (child t (close_relay s))"
    using c by (simp_all add: child_def close_relay_def)
  ultimately have "deafened t (answers r) (close_relay s)"
    using assms(2,3) c(4) unfolding deafened_def by (simp add: close_relay_def)
  then have "deafened t (answers r) (lock d (close_relay s))" by (rule deafened_lock)
  moreover have "close_relay (close_relay s) = close_relay s"
    using assms(3) closeAll_deaf [of r] assms(4) by (simp add: close_relay_def closeAll_def deaf_def)
  then have "lock d (close_relay s) = lock d s" by (simp add: lock_def)
  ultimately have "deafened t (answers r) (lock d s)" by simp
  from deafened_run [OF assms(5) sup_inv_lock [OF inv] this] assms(6) show ?thesis
    by (auto simp: deafened_def gone_def deaf_def)
qed

theorem lock_deafens_front_witness:
  "\<exists>s u r'. sup_run front_deps (new_supervisor boot_admission) s \<and> s_state s = Serving
     \<and> sup_run front_deps (lock front_deps s) u \<and> s_state u = Serving
     \<and> s_relay u = Some r' \<and> r_closed r' \<and> answers r' = []"
proof -
  obtain p chunk where p: "sup_run front_deps (new_supervisor boot_admission) (serving boot_admission p)"
    "fp_generation p = 9" "\<not> fp_disposed p" "\<not> fp_controlDownDestroyed p" "fp_controlDownSequence p = 2"
    "\<And>p'. \<lbrakk>\<not> fp_disposed p'; fp_controlUp p' = fp_controlUp p\<rbrakk> \<Longrightarrow>
       \<exists>q. onControlUpData p' chunk = (p'\<lparr>fp_controlUp := q\<rparr>, [Frame (lock_ack_frame 3)])"
    using reaches_serving [of boot_admission] by (auto simp: boot_admission_def)
  obtain bs where "writeControl p True 0 (Lock (num 0))
      = Inr (p\<lparr>fp_controlDownBytes := fp_controlDownBytes p @ [bs], fp_controlDownSequence := 3\<rparr>, True)"
    (is "_ = Inr (?p, _)") using lock_written [OF p(2-5), of 0] by (auto simp: STUDIO_ADMISSION_EPOCH_MAX_def)
  let ?s = "\<lambda>q. (serving boot_admission p)\<lparr>s_state := Locking, s_lockTimer := True,
      s_relay := Some ((closeAll (new_relay p))\<lparr>r_planes := q\<rparr>)\<rparr>"
  have l: "lock front_deps (serving boot_admission p) = ?s ?p"
    using \<open>writeControl p True 0 (Lock (num 0)) = _\<close>
    by (simp add: lock_def close_relay_def serving_def acked_def greeted_def new_supervisor_def child_def planes_of_def
        put_planes_def boot_admission_def studioAdmissionEpoch_def Let_def closeAll_def new_relay_def)
  obtain q where q: "onControlUpData ?p chunk = (?p\<lparr>fp_controlUp := q\<rparr>, [Frame (lock_ack_frame 3)])"
    using p(6) [of ?p] p(3) by auto
  let ?q = "?p\<lparr>fp_controlUp := q\<rparr>"
  let ?u = "(?s ?q)\<lparr>s_state := Serving, s_lockTimer := False\<rparr>"
  have "controlFrame front_deps None (lock_ack_frame 3) (?s ?q) ?u True"
    by (rule frame_own [of _ 1])
       (simp_all add: serving_def acked_def greeted_def up_frame_defs relay_types_def ownFrame_def Let_def)
  then have "controlBatch front_deps None [Frame (lock_ack_frame 3)] (?s ?q) ?u"
    by (rule batch_go) (rule batch_done)
  moreover have "put_planes ?q (?s ?p) = ?s ?q" "planes_of (?s ?p) = ?p" "s_live (?s ?p) = Some 1"
    by (simp_all add: put_planes_def planes_of_def serving_def acked_def greeted_def new_supervisor_def new_relay_def closeAll_def)
  ultimately have "sup_step front_deps (?s ?p) ?u"
    using step_control [of "?s ?p" 1 chunk ?q "[Frame (lock_ack_frame 3)]"] q by simp
  then have run: "sup_run front_deps (lock front_deps (serving boot_admission p)) ?u"
    using run_step [OF run_here] by (simp add: l)
  have s: "s_live (serving boot_admission p) = Some 1" "s_relay (serving boot_admission p) = Some (new_relay p)"
    "\<not> r_closed (new_relay p)" "s_live ?u = Some 1" "s_state (serving boot_admission p) = Serving" "s_state ?u = Serving"
    "answers (new_relay p) = []"
    by (simp_all add: serving_def acked_def greeted_def new_relay_def answers_def)
  from lock_deafens_front [OF p(1) s(1-3) run s(4)] p(1) run s(5-7) show ?thesis by metis
qed

section \<open>The safety properties at a run\<close>

lemma boot_epoch: "ad_epoch boot_admission \<le> STUDIO_ADMISSION_EPOCH_MAX"
  by (simp add: boot_admission_def)

lemma serving_child:
  "s_live (serving a p) = Some 1" "s_children (serving a p) 1 = Some ((new_child (Some 7))\<lparr>l_acked := True, l_bound := True\<rparr>)"
  "s_relay (serving a p) = Some (new_relay p)" "s_spawnToken (serving a p) = 1" "s_seen (serving a p) = [num 9]"
  "s_outcomes (serving a p) = [None]" "s_restartCount (serving a p) = 0"
  by (simp_all add: serving_def acked_def greeted_def new_supervisor_def)

theorem no_front_left_behind_witness:
  "\<exists>s c. sup_run front_deps (new_supervisor boot_admission) s \<and> s_children s 1 = Some c \<and> s_live s = Some 1
     \<and> (if s_live s = Some 1 then 1 = s_spawnToken s \<and> \<not> l_killed c else l_killed c \<or> l_exited c \<or> l_errored c)"
proof -
  obtain p chunk where p: "sup_run front_deps (new_supervisor boot_admission) (serving boot_admission p)"
    using reaches_serving [of boot_admission] by (auto simp: boot_admission_def)
  from no_front_left_behind [OF p serving_child(2)] p serving_child(1,2) show ?thesis by blast
qed

theorem restart_budget_bounds_spawns_witness:
  "\<exists>s. sup_run front_deps (new_supervisor boot_admission) s \<and> s_spawnToken s = 1
     \<and> s_restartCount s \<le> 6 \<and> s_spawnToken s \<le> Suc (s_restartCount s)
     \<and> card (dom (s_children s)) \<le> 7 \<and> length (s_outcomes s) \<le> 1"
proof -
  obtain p chunk where p: "sup_run front_deps (new_supervisor boot_admission) (serving boot_admission p)"
    using reaches_serving [of boot_admission] by (auto simp: boot_admission_def)
  from restart_budget_bounds_spawns [OF p] p serving_child(4) show ?thesis by blast
qed


section \<open>Killing\<close>

text \<open>A failure of the live child that counts kills it, unless it is dead already.\<close>

lemma fail_kills:
  assumes "fail_heard t s" "s_live s = Some t" "s_children s t = Some c"
  shows "s_live (fail d t failure False s) = None \<and> l_killed (child t (fail d t failure False s))
    \<and> s_relay (fail d t failure False s) = None"
proof -
  let ?s1 = "fail_teardown False (settle_live s)"
  have "s_children ?s1 t \<noteq> None" using assms(2,3) by (simp add: fail_teardown_children(1))
  then obtain c' where c': "s_children ?s1 t = Some c'" by blast
  then have "l_killed c'" using fail_teardown_children(2) [OF c'] assms(2) by (auto split: if_splits)
  with c' assms(2) show ?thesis
    by (simp add: fail_accounted [OF assms(1)] Let_def finishFailed_def child_def split: option.split)
qed

text \<open>
  A front is never left holding its connections past a lock. \<open>lock\<close> on a live child whose
  failure was not accounted yet either puts the \<open>LOCK\<close> frame with the current epoch on the wire
  and arms the deadline, which kills the child when it fires; or, where the child has not said who
  it is, kills it at once. Either way the relay's connections are closed in the same call.
\<close>

theorem lock_commands_or_kills:
  assumes "s_live s = Some t" "s_children s t = Some c" "\<not> l_settled c" "s_state s \<notin> {Stopped, Failed}"
    "\<not> s_quitRequested s" "\<not> fp_disposed (planes_of (close_relay s))" "\<not> fp_controlDownDestroyed (planes_of (close_relay s))"
    "\<not> s_raised (lock d s)"
  shows "if l_acked c
    then s_lockTimer (lock d s) \<and> s_live (lock d s) = Some t
      \<and> (\<exists>bs. planes_encode (planes_of (close_relay s)) ControlDown 0 (Lock (num (studioAdmissionEpoch (s_admission s))))
               (fp_controlDownSequence (planes_of (close_relay s))) = Inr bs
           \<and> fp_controlDownBytes (planes_of (lock d s)) = fp_controlDownBytes (planes_of (close_relay s)) @ [bs])
      \<and> l_killed (child t (lock_timeout d (lock d s)))
      \<and> s_relay (lock d s) = map_option (\<lambda>r. r\<lparr>r_planes := planes_of (lock d s)\<rparr>) (s_relay (close_relay s))
    else s_live (lock d s) = None \<and> l_killed (child t (lock d s)) \<and> s_relay (lock d s) = None"
proof -
  let ?s1 = "close_relay s" and ?epoch = "num (studioAdmissionEpoch (s_admission s))"
  have s1: "s_live ?s1 = Some t" "s_children ?s1 t = Some c" "s_state ?s1 = s_state s"
    "s_quitRequested ?s1 = s_quitRequested s" "s_admission ?s1 = s_admission s"
    using assms(1,2) by (simp_all add: close_relay_def)
  let ?s2 = "?s1\<lparr>s_state := Locking\<rparr>"
  have heard: "fail_heard t v" if "s_live v = Some t" "s_children v t = Some c" "s_state v = Locking" "\<not> s_quitRequested v" for v
    using that assms(3) by (simp add: fail_heard_def fail_counts_def child_def)
  have p2: "planes_of ?s2 = planes_of ?s1" by (simp add: planes_of_def split: option.split)
  show ?thesis
  proof (cases "l_acked c")
    case True
    have lock: "lock d s = (case writeControl (planes_of ?s1) True 0 (Lock ?epoch) of
        Inl _ \<Rightarrow> ?s2\<lparr>s_raised := True\<rparr> | Inr (p, _) \<Rightarrow> (put_planes p ?s2)\<lparr>s_lockTimer := True\<rparr>)"
      using True s1 assms(4) by (simp add: lock_def Let_def child_def p2)
    then obtain p ok where p: "writeControl (planes_of ?s1) True 0 (Lock ?epoch) = Inr (p, ok)"
      using assms(8) by (cases "writeControl (planes_of ?s1) True 0 (Lock ?epoch)") auto
    then obtain bs where bs: "planes_encode (planes_of ?s1) ControlDown 0 (Lock ?epoch)
        (fp_controlDownSequence (planes_of ?s1)) = Inr bs"
      "fp_controlDownBytes p = fp_controlDownBytes (planes_of ?s1) @ [bs]"
      using assms(6,7) by (auto simp: writeControl_def Let_def result_simps)
    have l: "lock d s = (put_planes p ?s2)\<lparr>s_lockTimer := True\<rparr>" using lock p by simp
    have fields: "s_live (lock d s) = Some t" "s_children (lock d s) t = Some c" "s_state (lock d s) = Locking"
      "\<not> s_quitRequested (lock d s)" "planes_of (lock d s) = p" "s_lockTimer (lock d s)"
      "s_relay (lock d s) = map_option (\<lambda>r. r\<lparr>r_planes := p\<rparr>) (s_relay ?s1)"
      using s1 assms(5) by (auto simp: l planes_of_def put_planes_def split: option.split)
    have "l_killed (child t (fail d t Lock_ack_timeout False ((lock d s)\<lparr>s_lockTimer := False\<rparr>)))"
      using fail_kills [OF heard, of "(lock d s)\<lparr>s_lockTimer := False\<rparr>"] fields by simp
    then have "l_killed (child t (lock_timeout d (lock d s)))"
      using fields(1) by (simp add: lock_timeout_def failCurrent_def)
    with True bs fields show ?thesis by auto
  next
    case False
    have "fail_heard t ?s2" using s1 assms(5) by (intro heard) simp_all
    from fail_kills [OF this, of c d Lock_before_hello_ack] False s1 assms(4) show ?thesis
      by (simp add: lock_def Let_def child_def failCurrent_def)
  qed
qed

theorem lock_commands_or_kills_witness:
  "\<exists>p. s_lockTimer (lock front_deps (serving boot_admission p))
      \<and> l_killed (child 1 (lock_timeout front_deps (lock front_deps (serving boot_admission p))))"
proof -
  have "\<exists>p :: front_planes. fp_generation p = 9 \<and> \<not> fp_disposed p \<and> \<not> fp_controlDownDestroyed p \<and> fp_controlDownSequence p = 2"
    by (rule reaches_serving [OF boot_epoch]) (intro exI conjI, assumption+)
  then obtain p :: front_planes where p: "fp_generation p = 9" "\<not> fp_disposed p" "\<not> fp_controlDownDestroyed p" "fp_controlDownSequence p = 2"
    by blast
  let ?s = "serving boot_admission p"
  have planes: "planes_of (close_relay ?s) = p"
    by (simp add: planes_of_def close_relay_def serving_def new_relay_def closeAll_def)
  obtain bs where w: "writeControl p True 0 (Lock (num 0))
      = Inr (p\<lparr>fp_controlDownBytes := fp_controlDownBytes p @ [bs], fp_controlDownSequence := 3\<rparr>, True)"
    using lock_written [OF p, of 0] by (auto simp: STUDIO_ADMISSION_EPOCH_MAX_def)
  have "\<not> s_raised (lock front_deps ?s)"
    using w by (simp add: lock_def close_relay_def serving_def acked_def greeted_def new_supervisor_def child_def
        planes_of_def put_planes_def boot_admission_def studioAdmissionEpoch_def Let_def closeAll_def new_relay_def)
  with lock_commands_or_kills [of ?s 1, OF serving_child(1,2), of front_deps] p(2,3) planes show ?thesis
    by (auto simp: serving_def acked_def greeted_def new_supervisor_def new_child_def)
qed

section \<open>A late error\<close>

lemma restarts_mono:
  "s_restartCount s \<le> s_restartCount (fail d token failure dead s) \<and> s_spawnToken s \<le> s_spawnToken (fail d token failure dead s)"
  "s_restartCount s \<le> s_restartCount (resumeRestart d previous observed s)
     \<and> s_spawnToken s \<le> s_spawnToken (resumeRestart d previous observed s)"
  "s_restartCount s \<le> s_restartCount (spawnOnce d s) \<and> Suc (s_spawnToken s) \<le> s_spawnToken (spawnOnce d s)"
proof (induction d token failure dead s and d previous observed s and d s rule: fail_resumeRestart_spawnOnce.induct)
  case (1 d token failure dead s)
  show ?case
  proof (cases "fail_heard token s")
    case True
    then have "fail_counts token s" "\<not> (s_state s = Stopped \<or> s_quitRequested s)"
      by (simp_all add: fail_heard_def)
    with 1(1) [OF _ _ refl refl _ _ refl] show ?thesis
      by (auto simp: fail_accounted [OF True] Let_def finishFailed_def split: option.split)
  next
    case False
    from fail_ignored [OF this, of d failure dead] show ?thesis by auto
  qed
next
  case (2 d previous observed s)
  then show ?case by (auto simp: resumeRestart.simps split: option.split)
next
  case (3 d s)
  then show ?case by (simp add: spawnOnce.simps Let_def split: option.split sum.split)
qed

text \<open>
  A late \<open>error\<close> edge spawns once more. The \<open>exit\<close> listener asks whether the child's failure
  was accounted already, the \<open>error\<close> listener does not: while no child is live, an \<open>error\<close> of the
  last one - a kill that was refused, say - spends another restart and spawns at once, without
  waiting for the old process to let go of the pipe's name, even from the terminal state \<open>failed\<close>.
\<close>

theorem late_error_respawns:
  assumes "s_live s = None" "s_state s \<noteq> Stopped" "\<not> s_quitRequested s" "s_restartCount s \<le> FRONT_MAX_RESTARTS"
  shows "s_restartCount s < s_restartCount (on_error d (s_spawnToken s) s)
    \<and> s_spawnToken s < s_spawnToken (on_error d (s_spawnToken s) s)"
proof -
  let ?t = "s_spawnToken s"
  let ?s = "upd_child ?t (\<lambda>c. c\<lparr>l_errored := True\<rparr>) s"
  let ?u = "(fail_teardown True (settle_live ?s))\<lparr>s_restartCount := s_restartCount s + 1, s_state := Starting\<rparr>"
  have heard: "fail_heard ?t ?s" using assms by (simp add: fail_heard_def fail_counts_def)
  have q: "\<not> s_quitRequested (fail_teardown True (settle_live ?s))" using assms(3) by simp
  have "on_error d ?t s = resumeRestart d None True ?u"
    using assms by (simp add: on_error_def fail_accounted [OF heard] Let_def frontFailureIsRestartable_def)
  also have "\<dots> = spawnOnce d ?u" using q by (simp add: resumeRestart.simps)
  finally have e: "on_error d ?t s = spawnOnce d ?u" .
  have "s_restartCount ?u = Suc (s_restartCount s)" "s_spawnToken ?u = ?t" by simp_all
  with restarts_mono(3) [of ?u d] show ?thesis by (simp add: e)
qed

text \<open>A front that exits with code 2 has failed for good; a late error brings it back.\<close>

theorem late_error_respawns_witness:
  "\<exists>s. sup_run front_deps (new_supervisor boot_admission) s \<and> s_state s = Failed
     \<and> s_failureName s = Some Unsupported_platform \<and> s_spawnToken s = 1
     \<and> 1 < s_spawnToken (on_error front_deps 1 s) \<and> 0 < s_restartCount (on_error front_deps 1 s)"
proof -
  obtain bs where g: "start front_deps (new_supervisor boot_admission)
      = greeted boot_admission (newFrontPlanes\<lparr>fp_controlDownBytes := [bs], fp_controlDownSequence := 2\<rparr>)"
    (is "_ = greeted _ ?p") using start_greets [OF boot_epoch] by blast
  let ?g = "greeted boot_admission ?p"
  let ?s = "on_exit front_deps 1 (Some 2) ?g"
  have run: "sup_run front_deps (new_supervisor boot_admission) ?g"
    unfolding g [symmetric] by (rule run_step [OF run_here step_start]) (simp_all add: new_supervisor_def)
  have "sup_step front_deps ?g ?s"
    by (rule step_exit [of _ 1 "new_child (Some 7)"]) (simp_all add: greeted_def new_child_def)
  with run have s: "sup_run front_deps (new_supervisor boot_admission) ?s" by (rule run_step)
  let ?e = "upd_child 1 (\<lambda>c. c\<lparr>l_exited := True\<rparr>) (?g\<lparr>s_waits := map (wake 1) (s_waits ?g)\<rparr>)"
  have heard: "fail_heard 1 ?e"
    by (simp add: fail_heard_def fail_counts_def greeted_def child_def new_child_def new_supervisor_def)
  have "?s = finishFailed Unsupported_platform (fail_teardown True (settle_live ?e))"
    using fail_accounted [OF heard, of front_deps Unsupported_platform True]
    by (simp add: on_exit_def handleExit_def Let_def frontExitFailure_def frontFailureIsRestartable_def greeted_def
        child_def new_child_def new_supervisor_def)
  then have f: "s_live ?s = None" "s_state ?s = Failed" "s_failureName ?s = Some Unsupported_platform" "s_spawnToken ?s = 1"
    "s_restartCount ?s = 0" "\<not> s_quitRequested ?s"
    by (simp_all add: finishFailed_def greeted_def new_supervisor_def) (simp add: settleStart_def)
  from late_error_respawns [of ?s front_deps] f s show ?thesis by (intro exI [of _ ?s]) simp
qed

end
