(* ===== verification/OutboundQueue.thy ===== *)
theory OutboundQueue
  imports Prelude "HOL-Library.Multiset"
begin

text \<open>
  The send owner of one Studio connection (\<open>mcp-host/outbound-queue.ts\<close>). A promise the queue
  hands out is a number, an entry's identity too; the log of settlements says which promise was
  resolved with what. The asynchronous writer is a state: idle, waiting for an edge of the wire
  inside \<open>writeLine\<close>, or resolved and not yet resumed. What the wire answers to a write is a
  parameter of the operation that causes it: whether it took the line, whether the callback ran
  before \<open>write\<close> returned, and whether the wire was gone afterwards. The wire raises no edge and
  no exception inside \<open>write\<close>, as its contract says.
\<close>

definition STUDIO_MAX_PENDING_OUTBOUND :: nat where
  "STUDIO_MAX_PENDING_OUTBOUND = 64"

datatype write_outcome = Accepted | Closed | Coalesced | Dropped

datatype entry_kind = Response | Progress

record outbound_entry =
  e_id :: nat
  e_kind :: entry_kind
  e_key :: "string option"
  e_line :: string

datatype writer_state = Idle | Waiting outbound_entry bool | Resuming outbound_entry write_outcome

record outbound_queue =
  q_maxPending :: nat
  q_queue :: "outbound_entry list"
  q_queuedProgress :: "string \<Rightarrow> nat option"
  q_writer :: writer_state
  q_closed :: bool
  q_overflowed :: bool
  q_destroyed :: bool
  q_writableEnded :: bool
  q_next :: nat
  q_settled :: "(nat \<times> write_outcome) list"
  q_overflows :: "nat list"
  q_written :: "(nat \<times> string) list"

definition newOutboundQueue :: "nat option \<Rightarrow> outbound_queue" where
  "newOutboundQueue maxPending =
     \<lparr>q_maxPending = (case maxPending of None \<Rightarrow> STUDIO_MAX_PENDING_OUTBOUND | Some n \<Rightarrow> n),
      q_queue = [], q_queuedProgress = (\<lambda>_. None), q_writer = Idle, q_closed = False,
      q_overflowed = False, q_destroyed = False, q_writableEnded = False, q_next = 0,
      q_settled = [], q_overflows = [], q_written = []\<rparr>"

definition pendingCount :: "outbound_queue \<Rightarrow> nat" where
  "pendingCount q = length (q_queue q)"

definition settle :: "nat \<Rightarrow> write_outcome \<Rightarrow> outbound_queue \<Rightarrow> outbound_queue" where
  "settle k outcome q = q\<lparr>q_settled := q_settled q @ [(k, outcome)]\<rparr>"

record write_reply =
  wr_accepted :: bool
  wr_callback :: "bool option"
  wr_gone :: bool

section \<open>The writer\<close>

text \<open>\<open>writeLine\<close> up to its return; \<open>Some True\<close> is a callback that reported an error.\<close>

definition writeLine :: "outbound_entry \<Rightarrow> write_reply \<Rightarrow> outbound_queue \<Rightarrow> outbound_queue" where
  "writeLine entry reply q =
     (let q1 = q\<lparr>q_written := q_written q @ [(e_id entry, e_line entry)],
                 q_destroyed := q_destroyed q \<or> wr_gone reply\<rparr>
      in q1\<lparr>q_writer :=
           (case wr_callback reply of
              Some failed \<Rightarrow> Resuming entry (if failed then Closed else Accepted)
            | None \<Rightarrow>
                if wr_accepted reply then Waiting entry False
                else if q_destroyed q1 \<or> q_writableEnded q1 then Resuming entry Closed
                else Waiting entry True)\<rparr>)"

text \<open>The writer's loop, up to its next wait or its end.\<close>

function pump_loop :: "write_reply \<Rightarrow> outbound_queue \<Rightarrow> outbound_queue" where
  "pump_loop reply q =
     (case q_queue q of
        [] \<Rightarrow> q\<lparr>q_writer := Idle\<rparr>
      | entry # rest \<Rightarrow>
          let q1 = q\<lparr>q_queue := rest,
                     q_queuedProgress := (case e_key entry of None \<Rightarrow> q_queuedProgress q
                                          | Some key \<Rightarrow> (q_queuedProgress q)(key := None))\<rparr>
          in if q_closed q1 \<or> q_destroyed q1 \<or> q_writableEnded q1
             then pump_loop reply (settle (e_id entry) Closed q1)
             else writeLine entry reply q1)"
  by pat_completeness auto
termination
  by (relation "measure (\<lambda>(reply, q). length (q_queue q))") (auto simp: settle_def)

declare pump_loop.simps [simp del]

definition queue_pump :: "write_reply \<Rightarrow> outbound_queue \<Rightarrow> outbound_queue" where
  "queue_pump reply q = (if q_writer q \<noteq> Idle then q else pump_loop reply q)"

section \<open>Operations\<close>

text \<open>\<open>queued.line = line\<close>: the entry keeps its place and its promise.\<close>

definition replace_line :: "nat \<Rightarrow> string \<Rightarrow> outbound_entry list \<Rightarrow> outbound_entry list" where
  "replace_line j line = map (\<lambda>e. if e_id e = j then e\<lparr>e_line := line\<rparr> else e)"

text \<open>\<open>enqueue\<close>; the promise it returns is \<open>q_next\<close>, settled where the code returns it resolved.\<close>

definition enqueue :: "string \<Rightarrow> string option \<Rightarrow> write_reply \<Rightarrow> outbound_queue \<Rightarrow> outbound_queue" where
  "enqueue line progressKey reply q0 =
     (let k = q_next q0; q = q0\<lparr>q_next := k + 1\<rparr>;
          queued = (case progressKey of None \<Rightarrow> None | Some key \<Rightarrow> q_queuedProgress q key)
      in if q_closed q then settle k Closed q
         else case queued of
           Some j \<Rightarrow>
             settle k Coalesced
               (q\<lparr>q_queue := replace_line j line (q_queue q)\<rparr>)
         | None \<Rightarrow>
             if length (q_queue q) \<ge> q_maxPending q then
               (if progressKey \<noteq> None then settle k Dropped q
                else settle k Dropped
                  (if q_overflowed q then q
                   else q\<lparr>q_overflowed := True, q_overflows := q_overflows q @ [length (q_queue q)]\<rparr>))
             else
               let entry = \<lparr>e_id = k, e_kind = (if progressKey = None then Response else Progress),
                            e_key = progressKey, e_line = line\<rparr>
               in queue_pump reply
                    (q\<lparr>q_queue := q_queue q @ [entry],
                       q_queuedProgress := (case progressKey of None \<Rightarrow> q_queuedProgress q
                                            | Some key \<Rightarrow> (q_queuedProgress q)(key := Some k))\<rparr>))"

definition queue_close :: "outbound_queue \<Rightarrow> outbound_queue" where
  "queue_close q =
     (if q_closed q then q
      else fold (\<lambda>e. settle (e_id e) Closed) (q_queue q)
             (q\<lparr>q_closed := True, q_queue := [], q_queuedProgress := (\<lambda>_. None)\<rparr>))"

text \<open>The edges of the wire that \<open>writeLine\<close> listens to, and the writer's continuation.\<close>

datatype wire_edge = Edge_callback bool | Edge_drain | Edge_gone

definition on_edge :: "wire_edge \<Rightarrow> outbound_queue \<Rightarrow> outbound_queue" where
  "on_edge edge q =
     (case q_writer q of
        Waiting entry armed \<Rightarrow>
          (case edge of
             Edge_callback failed \<Rightarrow> q\<lparr>q_writer := Resuming entry (if failed then Closed else Accepted)\<rparr>
           | Edge_drain \<Rightarrow> if armed then q\<lparr>q_writer := Resuming entry Accepted\<rparr> else q
           | Edge_gone \<Rightarrow> q\<lparr>q_writer := Resuming entry Closed\<rparr>)
      | _ \<Rightarrow> q)"

definition resume_writer :: "write_reply \<Rightarrow> outbound_queue \<Rightarrow> outbound_queue" where
  "resume_writer reply q =
     (case q_writer q of
        Resuming entry outcome \<Rightarrow> pump_loop reply (settle (e_id entry) outcome q)
      | _ \<Rightarrow> q)"

datatype queue_op =
    Enqueue string "string option" write_reply
  | Close_queue
  | Edge wire_edge
  | Resume write_reply
  | Wire_destroyed
  | Wire_ended

fun queue_step :: "outbound_queue \<Rightarrow> queue_op \<Rightarrow> outbound_queue" where
  "queue_step q (Enqueue line key reply) = enqueue line key reply q"
| "queue_step q Close_queue = queue_close q"
| "queue_step q (Edge edge) = on_edge edge q"
| "queue_step q (Resume reply) = resume_writer reply q"
| "queue_step q Wire_destroyed = q\<lparr>q_destroyed := True\<rparr>"
| "queue_step q Wire_ended = q\<lparr>q_writableEnded := True\<rparr>"

section \<open>Invariant\<close>

definition in_flight :: "outbound_queue \<Rightarrow> nat list" where
  "in_flight q = (case q_writer q of Idle \<Rightarrow> [] | Waiting e _ \<Rightarrow> [e_id e] | Resuming e _ \<Rightarrow> [e_id e])"

text \<open>Every promise handed out, once: settled, with the writer, or queued.\<close>

definition promises :: "outbound_queue \<Rightarrow> nat list" where
  "promises q = map fst (q_settled q) @ in_flight q @ map e_id (q_queue q)"

definition progress_index :: "outbound_entry list \<Rightarrow> string \<Rightarrow> nat option" where
  "progress_index es key = map_option e_id (find (\<lambda>e. e_key e = Some key) es)"

text \<open>Frames go out in the order of their promises, and only a frame that went out is accepted.\<close>

definition in_order :: "outbound_queue \<Rightarrow> bool" where
  "in_order q =
     (sorted_wrt (<) (map fst (q_written q) @ map e_id (q_queue q))
      \<and> (\<forall>k. (k, Accepted) \<in> set (q_settled q) \<longrightarrow> k \<in> fst ` set (q_written q))
      \<and> set (in_flight q) \<subseteq> fst ` set (q_written q) \<and> (\<forall>k\<in>fst ` set (q_written q). k < q_next q))"

text \<open>The part of the invariant the writer's loop needs and restores.\<close>

definition loop_ready :: "outbound_queue \<Rightarrow> bool" where
  "loop_ready q =
     (length (q_queue q) \<le> q_maxPending q
      \<and> mset (map fst (q_settled q) @ map e_id (q_queue q)) = mset [0..<q_next q]
      \<and> q_queuedProgress q = progress_index (q_queue q)
      \<and> distinct (filter (\<lambda>k. k \<noteq> None) (map e_key (q_queue q)))
      \<and> (q_closed q \<longrightarrow> q_queue q = [])
      \<and> (q_overflowed q = (q_overflows q \<noteq> [])) \<and> length (q_overflows q) \<le> 1
      \<and> in_order (q\<lparr>q_writer := Idle\<rparr>))"

definition queue_inv :: "outbound_queue \<Rightarrow> bool" where
  "queue_inv q =
     (length (q_queue q) \<le> q_maxPending q
      \<and> mset (promises q) = mset [0..<q_next q]
      \<and> q_queuedProgress q = progress_index (q_queue q)
      \<and> distinct (filter (\<lambda>k. k \<noteq> None) (map e_key (q_queue q)))
      \<and> (q_writer q = Idle \<or> q_closed q \<longrightarrow> q_queue q = [])
      \<and> (q_overflowed q = (q_overflows q \<noteq> [])) \<and> length (q_overflows q) \<le> 1
      \<and> in_order q)"

lemma progress_index_Nil [simp]: "progress_index [] = (\<lambda>_. None)"
  by (simp add: progress_index_def fun_eq_iff)

lemma progress_index_head:
  assumes "distinct (filter (\<lambda>k. k \<noteq> None) (map e_key (e # es)))"
  shows "progress_index es =
    (case e_key e of None \<Rightarrow> progress_index (e # es) | Some key \<Rightarrow> (progress_index (e # es))(key := None))"
proof (cases "e_key e")
  case None
  then show ?thesis by (simp add: progress_index_def fun_eq_iff)
next
  case (Some key)
  then have "find (\<lambda>e. e_key e = Some key) es = None"
    using assms by (force simp: find_None_iff_list_all)
  with Some show ?thesis by (auto simp: progress_index_def fun_eq_iff)
qed

lemma progress_index_append:
  "e_key e = Some key \<Longrightarrow> progress_index es key = None \<Longrightarrow>
     progress_index (es @ [e]) = (progress_index es)(key := Some (e_id e))"
proof
  fix k
  assume "e_key e = Some key" "progress_index es key = None"
  then show "progress_index (es @ [e]) k = ((progress_index es)(key := Some (e_id e))) k"
    by (induction es) (auto simp: progress_index_def split: if_splits)
qed

lemma progress_index_response: "e_key e = None \<Longrightarrow> progress_index (es @ [e]) = progress_index es"
proof
  fix k
  assume "e_key e = None"
  then show "progress_index (es @ [e]) k = progress_index es k"
    by (induction es) (auto simp: progress_index_def)
qed

lemma progress_index_same:
  "map e_id es = map e_id fs \<Longrightarrow> map e_key es = map e_key fs \<Longrightarrow> progress_index es = progress_index fs"
proof (induction es arbitrary: fs)
  case (Cons e es)
  then obtain f gs where f: "fs = f # gs" by (cases fs) auto
  with Cons have "progress_index es = progress_index gs" by simp
  then have "map_option e_id (find (\<lambda>e. e_key e = Some key) es) = map_option e_id (find (\<lambda>e. e_key e = Some key) gs)" for key
    by (simp add: progress_index_def fun_eq_iff)
  with Cons.prems f show ?case by (simp add: progress_index_def fun_eq_iff)
qed simp

lemma progress_index_None:
  "progress_index es key = None \<longleftrightarrow> Some key \<notin> set (map e_key es)"
  by (force simp: progress_index_def find_None_iff_list_all)

lemma sorted_wrt_drop_middle: "sorted_wrt R (xs @ y # ys) \<Longrightarrow> sorted_wrt R (xs @ ys)"
  by (simp add: sorted_wrt_append)

lemma promise_lt:
  assumes "mset (xs @ ys) = mset [0..<n]" "k \<in> set xs \<union> set ys"
  shows "k < n"
proof -
  have "set (xs @ ys) = set [0..<n]" using assms(1) by (rule mset_eq_setD)
  then show ?thesis using assms(2) by auto
qed

lemma writeLine_fields [simp]:
  "q_queue (writeLine e reply q) = q_queue q" "q_closed (writeLine e reply q) = q_closed q"
  "q_next (writeLine e reply q) = q_next q" "q_settled (writeLine e reply q) = q_settled q"
  "q_maxPending (writeLine e reply q) = q_maxPending q" "q_overflowed (writeLine e reply q) = q_overflowed q"
  "q_overflows (writeLine e reply q) = q_overflows q" "q_queuedProgress (writeLine e reply q) = q_queuedProgress q"
  "q_written (writeLine e reply q) = q_written q @ [(e_id e, e_line e)]"
  "q_writer (writeLine e reply q) \<noteq> Idle" "in_flight (writeLine e reply q) = [e_id e]"
  by (simp_all add: writeLine_def Let_def in_flight_def split: option.split)

lemma pump_loop_inv: "loop_ready q \<Longrightarrow> queue_inv (pump_loop reply q)"
proof (induction reply q rule: pump_loop.induct)
  case (1 reply q)
  show ?case
  proof (cases "q_queue q")
    case Nil
    with 1(2) show ?thesis
      by (simp add: pump_loop.simps [of reply q] loop_ready_def queue_inv_def promises_def in_flight_def in_order_def)
  next
    case (Cons entry rest)
    define q1 where "q1 = q\<lparr>q_queue := rest, q_queuedProgress := (case e_key entry of None \<Rightarrow> q_queuedProgress q
                                          | Some key \<Rightarrow> (q_queuedProgress q)(key := None))\<rparr>"
    have idx: "q_queuedProgress q1 = progress_index rest"
      using 1(2) progress_index_head [of entry rest] by (simp add: q1_def loop_ready_def Cons split: option.splits)
    have fields: "q_queue q1 = rest" "q_closed q1 = q_closed q" "q_next q1 = q_next q" "q_settled q1 = q_settled q"
      "q_written q1 = q_written q" "q_maxPending q1 = q_maxPending q" "q_overflowed q1 = q_overflowed q"
      "q_overflows q1 = q_overflows q" "q_destroyed q1 = q_destroyed q" "q_writableEnded q1 = q_writableEnded q"
      by (simp_all add: q1_def)
    have open_queue: "\<not> q_closed q" using 1(2) Cons by (auto simp: loop_ready_def)
    have ord: "in_order (q\<lparr>q_writer := Idle\<rparr>)" using 1(2) by (simp add: loop_ready_def)
    show ?thesis
    proof (cases "q_destroyed q1 \<or> q_writableEnded q1")
      case True
      have "loop_ready (settle (e_id entry) Closed q1)"
        using 1(2) idx ord Cons
        by (auto simp: loop_ready_def settle_def fields in_order_def in_flight_def
            dest: sorted_wrt_drop_middle split: if_splits)
      then have "queue_inv (pump_loop reply (settle (e_id entry) Closed q1))"
        using "1.IH" [OF Cons q1_def] True fields by simp
      then show ?thesis using True Cons by (subst pump_loop.simps) (simp add: q1_def Let_def)
    next
      case False
      have "e_id entry < q_next q"
        using 1(2) Cons promise_lt [of "map fst (q_settled q)" "map e_id (q_queue q)" "q_next q" "e_id entry"]
        by (simp add: loop_ready_def)
      then have "queue_inv (writeLine entry reply q1)"
        using 1(2) idx ord open_queue Cons
        by (auto simp: queue_inv_def loop_ready_def fields in_order_def promises_def split: if_splits)
      moreover have "pump_loop reply q = writeLine entry reply q1"
        using False Cons open_queue by (subst pump_loop.simps) (simp add: q1_def Let_def)
      ultimately show ?thesis by simp
    qed
  qed
qed

lemma settle_new_inv:
  "queue_inv q \<Longrightarrow> outcome \<noteq> Accepted \<Longrightarrow>
     queue_inv (settle (q_next q) outcome (q\<lparr>q_next := q_next q + 1\<rparr>))"
  by (force simp: queue_inv_def settle_def promises_def in_flight_def in_order_def)

lemma same_entries_inv:
  assumes "map e_id es = map e_id (q_queue q)" "map e_key es = map e_key (q_queue q)"
  shows "queue_inv (q\<lparr>q_queue := es\<rparr>) = queue_inv q"
proof -
  have "length es = length (q_queue q)" using assms(1) by (metis length_map)
  moreover have "in_flight (q\<lparr>q_queue := es\<rparr>) = in_flight q" by (simp add: in_flight_def)
  moreover have "progress_index es = progress_index (q_queue q)" by (rule progress_index_same [OF assms])
  moreover have "es = [] \<longleftrightarrow> q_queue q = []" using calculation(1) by auto
  ultimately show ?thesis by (simp add: queue_inv_def promises_def in_order_def assms del: mset_map)
qed

lemma replace_line_same [simp]:
  "map e_id (replace_line j line es) = map e_id es"
  "map e_key (replace_line j line es) = map e_key es"
  by (simp_all add: replace_line_def)

lemma overflow_inv:
  "queue_inv q \<Longrightarrow> \<not> q_overflowed q \<Longrightarrow> queue_inv (q\<lparr>q_overflowed := True, q_overflows := q_overflows q @ [n]\<rparr>)"
  by (simp add: queue_inv_def promises_def in_flight_def in_order_def)

lemma append_ready:
  assumes "queue_inv q" "\<not> q_closed q" "length (q_queue q) < q_maxPending q"
    and "key = None \<or> progress_index (q_queue q) (the key) = None"
    and "e_id e = q_next q" "e_key e = key"
  defines "q' \<equiv> q\<lparr>q_next := q_next q + 1, q_queue := q_queue q @ [e],
                 q_queuedProgress := (case key of None \<Rightarrow> q_queuedProgress q
                                      | Some k \<Rightarrow> (q_queuedProgress q)(k := Some (q_next q)))\<rparr>"
  shows "if q_writer q = Idle then loop_ready q' else queue_inv q'"
proof -
  have idx: "progress_index (q_queue q @ [e]) = q_queuedProgress q'"
    using assms(1-6) progress_index_append [of e _ "q_queue q"] progress_index_response [of e "q_queue q"]
    by (cases key) (simp_all add: q'_def queue_inv_def)
  have keys: "distinct (filter (\<lambda>k. k \<noteq> None) (map e_key (q_queue q @ [e])))"
    using assms(1-6) by (cases key) (auto simp: queue_inv_def progress_index_None)
  have "in_order q" "mset (promises q) = mset [0..<q_next q]" using assms(1) by (simp_all add: queue_inv_def)
  then have lt: "\<forall>x\<in>set (q_queue q). e_id x < q_next q"
    using promise_lt [of "map fst (q_settled q) @ in_flight q" "map e_id (q_queue q)" "q_next q"]
    by (auto simp: promises_def simp del: mset_append)
  have ord: "in_order q'"
    using \<open>in_order q\<close> lt assms(5) by (auto simp: q'_def in_order_def in_flight_def sorted_wrt_append less_SucI)
  show ?thesis
  proof (cases "q_writer q = Idle")
    case True
    then have "in_order (q'\<lparr>q_writer := Idle\<rparr>)" using ord by (simp add: q'_def in_order_def in_flight_def)
    with True show ?thesis using assms(1-6) idx keys
      by (auto simp: loop_ready_def queue_inv_def promises_def in_flight_def q'_def)
  next
    case False
    then show ?thesis using assms(1-6) idx keys ord
      by (auto simp: queue_inv_def promises_def in_flight_def q'_def)
  qed
qed

text \<open>The entry an open queue has for a key, and the four branches of \<open>enqueue\<close>.\<close>

definition queued_entry :: "outbound_queue \<Rightarrow> string option \<Rightarrow> nat option" where
  "queued_entry q key = (case key of None \<Rightarrow> None | Some k \<Rightarrow> q_queuedProgress q k)"

lemma enqueue_closed: "q_closed q \<Longrightarrow>
   enqueue line key reply q = settle (q_next q) Closed (q\<lparr>q_next := q_next q + 1\<rparr>)"
  by (simp add: enqueue_def Let_def)

lemma enqueue_coalesce: "\<not> q_closed q \<Longrightarrow> queued_entry q key = Some j \<Longrightarrow>
   enqueue line key reply q =
     settle (q_next q) Coalesced (q\<lparr>q_next := q_next q + 1, q_queue := replace_line j line (q_queue q)\<rparr>)"
  by (cases key) (simp_all add: enqueue_def Let_def queued_entry_def)

lemma enqueue_full: "\<not> q_closed q \<Longrightarrow> queued_entry q key = None \<Longrightarrow> q_maxPending q \<le> length (q_queue q) \<Longrightarrow>
   enqueue line key reply q = settle (q_next q) Dropped
     (if key = None \<and> \<not> q_overflowed q
      then q\<lparr>q_next := q_next q + 1, q_overflowed := True, q_overflows := q_overflows q @ [length (q_queue q)]\<rparr>
      else q\<lparr>q_next := q_next q + 1\<rparr>)"
  by (cases key) (simp_all add: enqueue_def Let_def queued_entry_def)

lemma enqueue_admit: "\<not> q_closed q \<Longrightarrow> queued_entry q key = None \<Longrightarrow> length (q_queue q) < q_maxPending q \<Longrightarrow>
   enqueue line key reply q = queue_pump reply
     (q\<lparr>q_next := q_next q + 1,
        q_queue := q_queue q @ [\<lparr>e_id = q_next q, e_kind = (if key = None then Response else Progress),
                                 e_key = key, e_line = line\<rparr>],
        q_queuedProgress := (case key of None \<Rightarrow> q_queuedProgress q
                             | Some k \<Rightarrow> (q_queuedProgress q)(k := Some (q_next q)))\<rparr>)"
  by (cases key) (simp_all add: enqueue_def Let_def queued_entry_def)

lemma enqueue_inv:
  assumes inv: "queue_inv q"
  shows "queue_inv (enqueue line key reply q)"
proof (cases "q_closed q")
  case True
  then show ?thesis using settle_new_inv [OF inv, of Closed] by (simp add: enqueue_closed)
next
  case False
  note open_queue = False
  show ?thesis
  proof (cases "queued_entry q key")
    case (Some j)
    have "queue_inv (q\<lparr>q_queue := replace_line j line (q_queue q)\<rparr>)"
      using inv by (simp add: same_entries_inv)
    from settle_new_inv [OF this, of Coalesced]
    have "queue_inv (settle (q_next q) Coalesced (q\<lparr>q_queue := replace_line j line (q_queue q), q_next := q_next q + 1\<rparr>))"
      by simp
    moreover have "q\<lparr>q_queue := replace_line j line (q_queue q), q_next := q_next q + 1\<rparr>
        = q\<lparr>q_next := q_next q + 1, q_queue := replace_line j line (q_queue q)\<rparr>" by simp
    ultimately show ?thesis
      by (simp only: enqueue_coalesce [OF open_queue Some])
  next
    case None
    note fresh = None
    show ?thesis
    proof (cases "q_maxPending q \<le> length (q_queue q)")
      case True
      have "queue_inv (settle (q_next q) Dropped (q\<lparr>q_next := q_next q + 1\<rparr>))"
        using settle_new_inv [OF inv, of Dropped] by simp
      moreover have "queue_inv (settle (q_next q) Dropped (q\<lparr>q_next := q_next q + 1, q_overflowed := True,
             q_overflows := q_overflows q @ [length (q_queue q)]\<rparr>))" if "\<not> q_overflowed q"
      proof -
        have "queue_inv (settle (q_next q) Dropped (q\<lparr>q_overflowed := True,
             q_overflows := q_overflows q @ [length (q_queue q)], q_next := q_next q + 1\<rparr>))"
          using settle_new_inv [OF overflow_inv [OF inv that], of Dropped "length (q_queue q)"] by simp
        moreover have "q\<lparr>q_overflowed := True, q_overflows := q_overflows q @ [length (q_queue q)], q_next := q_next q + 1\<rparr>
           = q\<lparr>q_next := q_next q + 1, q_overflowed := True, q_overflows := q_overflows q @ [length (q_queue q)]\<rparr>"
          by simp
        ultimately show ?thesis by (simp only:)
      qed
      ultimately show ?thesis using True fresh open_queue by (simp add: enqueue_full)
    next
      case False
      define e where "e = \<lparr>e_id = q_next q, e_kind = (if key = None then Response else Progress),
                            e_key = key, e_line = line\<rparr>"
      have "key = None \<or> progress_index (q_queue q) (the key) = None"
        using fresh inv by (cases key) (simp_all add: queue_inv_def queued_entry_def)
      from append_ready [OF inv open_queue _ this, of e] False
      have pumped: "queue_inv (queue_pump reply (q\<lparr>q_next := q_next q + 1, q_queue := q_queue q @ [e],
                 q_queuedProgress := (case key of None \<Rightarrow> q_queuedProgress q
                                      | Some k \<Rightarrow> (q_queuedProgress q)(k := Some (q_next q)))\<rparr>))"
        by (auto simp: queue_pump_def e_def intro!: pump_loop_inv split: if_splits)
      show ?thesis
        using pumped False enqueue_admit [OF open_queue fresh] by (simp add: e_def)
    qed
  qed
qed

lemma settle_queue: "fold (\<lambda>e. settle (e_id e) Closed) es q = q\<lparr>q_settled := q_settled q @ map (\<lambda>e. (e_id e, Closed)) es\<rparr>"
  by (induction es arbitrary: q) (simp_all add: settle_def)

lemma queue_close_inv: "queue_inv q \<Longrightarrow> queue_inv (queue_close q)"
proof -
  assume inv: "queue_inv q"
  have "in_order (q\<lparr>q_closed := True, q_queue := [], q_queuedProgress := (\<lambda>_. None),
      q_settled := q_settled q @ map (\<lambda>e. (e_id e, Closed)) (q_queue q)\<rparr>)"
    using inv by (auto simp: queue_inv_def in_order_def in_flight_def sorted_wrt_append)
  moreover have "map (fst \<circ> (\<lambda>e. (e_id e, Closed))) (q_queue q) = map e_id (q_queue q)" by simp
  ultimately show ?thesis using inv
    by (auto simp: queue_close_def settle_queue queue_inv_def promises_def in_flight_def
        multiset.map_comp comp_def ac_simps simp flip: mset_map)
qed

lemma on_edge_inv: "queue_inv q \<Longrightarrow> queue_inv (on_edge edge q)"
  by (cases "q_writer q"; cases edge)
    (auto simp: on_edge_def queue_inv_def promises_def in_flight_def in_order_def)

lemma resume_writer_inv:
  assumes inv: "queue_inv q"
  shows "queue_inv (resume_writer reply q)"
proof (cases "q_writer q")
  case (Resuming e outcome)
  have "loop_ready (settle (e_id e) outcome q)"
    using inv Resuming by (auto simp: queue_inv_def loop_ready_def settle_def promises_def in_flight_def in_order_def)
  then show ?thesis using Resuming by (simp add: resume_writer_def pump_loop_inv)
qed (use inv in \<open>simp_all add: resume_writer_def\<close>)

lemma wire_state_inv:
  "queue_inv (q\<lparr>q_destroyed := b\<rparr>) = queue_inv q" "queue_inv (q\<lparr>q_writableEnded := b\<rparr>) = queue_inv q"
  by (simp_all add: queue_inv_def promises_def in_flight_def in_order_def)

lemma newOutboundQueue_inv: "queue_inv (newOutboundQueue m)"
  by (simp add: newOutboundQueue_def queue_inv_def promises_def in_flight_def in_order_def)

lemma queue_step_inv: "queue_inv q \<Longrightarrow> queue_inv (queue_step q a)"
  by (cases a) (simp_all add: enqueue_inv queue_close_inv on_edge_inv resume_writer_inv wire_state_inv)

interpretation outbound: invariant_machine queue_step queue_inv
  by unfold_locales (rule queue_step_inv)

lemma run_queue_inv: "queue_inv (foldl queue_step (newOutboundQueue m) ops)"
  by (rule outbound.run_inv [OF newOutboundQueue_inv])

section \<open>What a run of the queue keeps\<close>

lemma promises_distinct: "queue_inv q \<Longrightarrow> distinct (promises q)"
  unfolding queue_inv_def by (metis distinct_upt mset_eq_imp_distinct_iff)

lemma pump_loop_keeps:
  "q_maxPending (pump_loop reply q) = q_maxPending q \<and> q_next (pump_loop reply q) = q_next q
   \<and> q_closed (pump_loop reply q) = q_closed q
   \<and> length (q_queue (pump_loop reply q)) \<le> length (q_queue q) - 1
   \<and> (q_queue q = [] \<longrightarrow> q_writer (pump_loop reply q) = Idle)"
proof (induction reply q rule: pump_loop.induct)
  case (1 reply q)
  show ?case
  proof (cases "q_queue q")
    case Nil
    then show ?thesis by (subst (1 2 3 4 5) pump_loop.simps) simp
  next
    case (Cons e es)
    then show ?thesis
      using "1.IH" [OF Cons refl]
      by (subst (1 2 3 4 5) pump_loop.simps) (auto simp: Let_def settle_def)
  qed
qed

lemma queue_step_maxPending: "q_maxPending (queue_step q a) = q_maxPending q"
  by (cases a)
    (auto simp: enqueue_def Let_def queue_pump_def queue_close_def settle_queue on_edge_def resume_writer_def
      settle_def pump_loop_keeps split: option.split writer_state.split wire_edge.split)

lemma run_maxPending: "q_maxPending (foldl queue_step q ops) = q_maxPending q"
  by (induction ops arbitrary: q) (simp_all add: queue_step_maxPending)

text \<open>
  C18: Whatever is enqueued, whatever the wire does and whenever the queue closes, every promise
  the queue has handed out is in exactly one place, once: settled, with the writer, or queued.
  The backlog stays within the bound, nothing is queued while the writer sleeps or the queue is
  closed, at most one progress frame per request is queued, and the overflow is reported at most
  once.
\<close>

theorem queue_keeps_promises:
  "let q = foldl queue_step (newOutboundQueue m) ops
   in mset (promises q) = mset [0..<q_next q]
      \<and> pendingCount q \<le> (case m of None \<Rightarrow> STUDIO_MAX_PENDING_OUTBOUND | Some n \<Rightarrow> n)
      \<and> (q_writer q = Idle \<or> q_closed q \<longrightarrow> pendingCount q = 0)
      \<and> distinct (filter (\<lambda>k. k \<noteq> None) (map e_key (q_queue q)))
      \<and> length (q_overflows q) \<le> 1"
proof -
  have "q_maxPending (foldl queue_step (newOutboundQueue m) ops)
      = (case m of None \<Rightarrow> STUDIO_MAX_PENDING_OUTBOUND | Some n \<Rightarrow> n)"
    by (simp only: run_maxPending newOutboundQueue_def outbound_queue.simps)
  with run_queue_inv [of m ops] show ?thesis
    unfolding Let_def pendingCount_def queue_inv_def by simp
qed

theorem queue_keeps_promises_witness:
  "q_writer (foldl queue_step (newOutboundQueue None) [Enqueue ''a'' None \<lparr>wr_accepted = True, wr_callback = None, wr_gone = False\<rparr>,
        Enqueue ''b'' (Some ''r'') \<lparr>wr_accepted = True, wr_callback = None, wr_gone = False\<rparr>, Close_queue]) \<noteq> Idle
   \<and> pendingCount (foldl queue_step (newOutboundQueue None) [Enqueue ''a'' None \<lparr>wr_accepted = True, wr_callback = None, wr_gone = False\<rparr>,
        Enqueue ''b'' (Some ''r'') \<lparr>wr_accepted = True, wr_callback = None, wr_gone = False\<rparr>, Close_queue]) = 0"
  using queue_keeps_promises [of None "[Enqueue ''a'' None \<lparr>wr_accepted = True, wr_callback = None, wr_gone = False\<rparr>,
        Enqueue ''b'' (Some ''r'') \<lparr>wr_accepted = True, wr_callback = None, wr_gone = False\<rparr>, Close_queue]"]
  by (simp add: newOutboundQueue_def STUDIO_MAX_PENDING_OUTBOUND_def enqueue_def Let_def queue_pump_def pump_loop.simps
      writeLine_def queue_close_def settle_def pendingCount_def)

text \<open>
  Frames go to the wire in the order in which they were enqueued, none twice; a frame is
  reported accepted only when it was written to the wire, and no promise is settled twice.
\<close>

theorem accepted_frames_were_written:
  "let q = foldl queue_step (newOutboundQueue m) ops
   in sorted_wrt (<) (map fst (q_written q)) \<and> distinct (map fst (q_settled q))
      \<and> {k. (k, Accepted) \<in> set (q_settled q)} \<subseteq> fst ` set (q_written q)"
proof -
  define q where "q = foldl queue_step (newOutboundQueue m) ops"
  have inv: "queue_inv q" unfolding q_def by (rule run_queue_inv)
  show ?thesis
    using inv promises_distinct [OF inv] unfolding q_def [symmetric] by (auto simp: queue_inv_def in_order_def promises_def sorted_wrt_append)
qed

section \<open>Refinement of a send queue that coalesces by key\<close>

text \<open>
  What a caller sees of the queue while the wire takes frames: the backlog, the lines sent, and
  whether the writer is busy. There are no promises, entries or index here: a progress frame
  replaces the line queued for its request, other frames join the end while there is room.
\<close>

record send_view =
  sv_backlog :: "(string option \<times> string) list"
  sv_sent :: "string list"
  sv_busy :: bool

definition send_view_of :: "outbound_queue \<Rightarrow> send_view" where
  "send_view_of q =
     \<lparr>sv_backlog = map (\<lambda>e. (e_key e, e_line e)) (q_queue q), sv_sent = map snd (q_written q),
      sv_busy = (q_writer q \<noteq> Idle)\<rparr>"

definition spec_next :: "send_view \<Rightarrow> send_view" where
  "spec_next v =
     (case sv_backlog v of
        [] \<Rightarrow> v\<lparr>sv_busy := False\<rparr>
      | (key, line) # rest \<Rightarrow> v\<lparr>sv_backlog := rest, sv_sent := sv_sent v @ [line], sv_busy := True\<rparr>)"

definition spec_admit :: "nat \<Rightarrow> string option \<Rightarrow> string \<Rightarrow> (string option \<times> string) list \<Rightarrow> (string option \<times> string) list" where
  "spec_admit limit key line b =
     (if key \<noteq> None \<and> key \<in> fst ` set b then map (\<lambda>(k, l). (k, if k = key then line else l)) b
      else if length b < limit then b @ [(key, line)] else b)"

definition spec_enqueue :: "nat \<Rightarrow> string option \<Rightarrow> string \<Rightarrow> send_view \<Rightarrow> send_view" where
  "spec_enqueue limit key line v =
     (let v' = v\<lparr>sv_backlog := spec_admit limit key line (sv_backlog v)\<rparr>
      in if sv_busy v then v' else spec_next v')"

definition wire_open :: "outbound_queue \<Rightarrow> bool" where
  "wire_open q = (\<not> q_closed q \<and> \<not> q_destroyed q \<and> \<not> q_writableEnded q)"

lemma pump_loop_view:
  assumes "wire_open q"
  shows "send_view_of (pump_loop reply q) = spec_next (send_view_of q)"
proof (cases "q_queue q")
  case Nil
  then show ?thesis by (subst pump_loop.simps) (simp add: send_view_of_def spec_next_def)
next
  case (Cons e es)
  then show ?thesis using assms
    by (subst pump_loop.simps) (simp add: Let_def wire_open_def send_view_of_def spec_next_def)
qed

lemma queue_pump_view:
  "wire_open q \<Longrightarrow> send_view_of (queue_pump reply q)
     = (if q_writer q = Idle then spec_next (send_view_of q) else send_view_of q)"
  by (simp add: queue_pump_def pump_loop_view)

lemma index_names_entry:
  assumes "distinct (map e_id es)" "distinct (filter (\<lambda>k. k \<noteq> None) (map e_key es))"
    and "progress_index es k = Some j" "e \<in> set es"
  shows "e_id e = j \<longleftrightarrow> e_key e = Some k"
  using assms
proof (induction es)
  case (Cons a es)
  show ?case
  proof (cases "e_key a = Some k")
    case True
    then have "j = e_id a" using Cons.prems(3) by (simp add: progress_index_def)
    moreover have "Some k \<notin> e_key ` set es" using Cons.prems(2) True by auto
    moreover have "e_id a \<notin> e_id ` set es" using Cons.prems(1) by auto
    ultimately show ?thesis using True Cons.prems(4) by (metis imageI set_ConsD)
  next
    case False
    then have idx: "progress_index es k = Some j" using Cons.prems(3) by (simp add: progress_index_def)
    then have "j \<in> e_id ` set es" by (auto simp: progress_index_def dest: find_Some_iff)
    with False idx Cons show ?thesis by (auto split: if_splits)
  qed
qed simp

lemma replace_line_view:
  assumes "distinct (map e_id es)" "distinct (filter (\<lambda>k. k \<noteq> None) (map e_key es))" "progress_index es k = Some j"
  shows "map (\<lambda>e. (e_key e, e_line e)) (replace_line j line es)
    = map (\<lambda>(k', l). (k', if k' = Some k then line else l)) (map (\<lambda>e. (e_key e, e_line e)) es)"
  using index_names_entry [OF assms] by (simp add: replace_line_def)

lemma enqueue_view:
  assumes inv: "queue_inv q" and wire: "wire_open q"
  shows "send_view_of (enqueue line key reply q) = spec_enqueue (q_maxPending q) key line (send_view_of q)"
proof -
  have opened: "\<not> q_closed q" using wire by (simp add: wire_open_def)
  have idx: "q_queuedProgress q = progress_index (q_queue q)" using inv by (simp add: queue_inv_def)
  have keys: "fst ` set (map (\<lambda>e. (e_key e, e_line e)) (q_queue q)) = e_key ` set (q_queue q)" by force
  have ids: "distinct (map e_id (q_queue q))" using promises_distinct [OF inv] by (simp add: promises_def)
  show ?thesis
  proof (cases "queued_entry q key")
    case (Some j)
    then obtain k where k: "key = Some k" "progress_index (q_queue q) k = Some j"
      using idx by (cases key) (simp_all add: queued_entry_def)
    have busy: "q_writer q \<noteq> Idle" using k inv by (auto simp: queue_inv_def)
    have "progress_index (q_queue q) k \<noteq> None" using k by simp
    then have "Some k \<in> e_key ` set (q_queue q)" unfolding progress_index_None by simp
    then show ?thesis
      using k busy keys inv replace_line_view [OF ids _ k(2)]
      by (simp add: enqueue_coalesce [OF opened Some, unfolded k(1)] settle_def send_view_of_def spec_enqueue_def spec_admit_def
          queue_inv_def)
  next
    case None
    have absent: "key = None \<or> key \<notin> e_key ` set (q_queue q)"
    proof (cases key)
      case (Some k)
      then have "progress_index (q_queue q) k = None" using None idx by (simp add: queued_entry_def)
      then show ?thesis using Some by (simp add: progress_index_None)
    qed simp
    show ?thesis
    proof (cases "q_maxPending q \<le> length (q_queue q)")
      case True
      have "q_writer q = Idle \<Longrightarrow> q_queue q = []" using inv by (simp add: queue_inv_def)
      then show ?thesis using True absent keys
        by (auto simp: enqueue_full [OF opened None True] settle_def send_view_of_def spec_enqueue_def spec_admit_def
            spec_next_def Let_def)
    next
      case False
      define q' where "q' = q\<lparr>q_next := q_next q + 1,
        q_queue := q_queue q @ [\<lparr>e_id = q_next q, e_kind = (if key = None then Response else Progress),
                                 e_key = key, e_line = line\<rparr>],
        q_queuedProgress := (case key of None \<Rightarrow> q_queuedProgress q
                             | Some k \<Rightarrow> (q_queuedProgress q)(k := Some (q_next q)))\<rparr>"
      have "wire_open q'" "q_writer q' = q_writer q" using wire by (simp_all add: q'_def wire_open_def)
      moreover have "send_view_of q'
          = (send_view_of q)\<lparr>sv_backlog := spec_admit (q_maxPending q) key line (sv_backlog (send_view_of q))\<rparr>"
        using False absent keys by (auto simp: q'_def send_view_of_def spec_admit_def)
      moreover have "enqueue line key reply q = queue_pump reply q'"
        using False enqueue_admit [OF opened None] by (simp add: q'_def)
      moreover have "sv_busy (send_view_of q) = (q_writer q \<noteq> Idle)" by (simp add: send_view_of_def)
      ultimately show ?thesis by (simp add: queue_pump_view spec_enqueue_def Let_def)
    qed
  qed
qed

text \<open>
  C6: While the wire takes frames, the queue with its promises, entries and index of progress
  frames behaves as the plain send queue that coalesces by key: enqueuing and the writer's
  continuation commute with the view of the queue.
\<close>

theorem queue_refines_spec:
  assumes "q = foldl queue_step (newOutboundQueue m) ops" "wire_open q"
  shows "send_view_of (enqueue line key reply q) = spec_enqueue (q_maxPending q) key line (send_view_of q)
    \<and> (q_writer q = Resuming e outcome \<longrightarrow> send_view_of (resume_writer reply q) = spec_next (send_view_of q))"
proof (intro conjI impI)
  have inv: "queue_inv q" unfolding assms(1) by (rule run_queue_inv)
  show "send_view_of (enqueue line key reply q) = spec_enqueue (q_maxPending q) key line (send_view_of q)"
    by (rule enqueue_view [OF inv assms(2)])
  assume resuming: "q_writer q = Resuming e outcome"
  have "wire_open (settle (e_id e) outcome q)" using assms(2) by (simp add: wire_open_def settle_def)
  moreover have "spec_next (send_view_of (settle (e_id e) outcome q)) = spec_next (send_view_of q)"
    by (simp add: send_view_of_def settle_def spec_next_def split: list.split)
  ultimately show "send_view_of (resume_writer reply q) = spec_next (send_view_of q)"
    using resuming by (simp add: resume_writer_def pump_loop_view)
qed

theorem queue_refines_spec_witness:
  "spec_enqueue 64 (Some ''r'') ''c'' (send_view_of (foldl queue_step (newOutboundQueue None)
       [Enqueue ''a'' None \<lparr>wr_accepted = True, wr_callback = None, wr_gone = False\<rparr>,
        Enqueue ''b'' (Some ''r'') \<lparr>wr_accepted = True, wr_callback = None, wr_gone = False\<rparr>]))
   = \<lparr>sv_backlog = [(Some ''r'', ''c'')], sv_sent = [''a''], sv_busy = True\<rparr>"
  using queue_refines_spec [OF refl, of None "[Enqueue ''a'' None \<lparr>wr_accepted = True, wr_callback = None, wr_gone = False\<rparr>,
        Enqueue ''b'' (Some ''r'') \<lparr>wr_accepted = True, wr_callback = None, wr_gone = False\<rparr>]" "''c''" "Some ''r''"
        "\<lparr>wr_accepted = True, wr_callback = None, wr_gone = False\<rparr>"]
  by (simp add: newOutboundQueue_def STUDIO_MAX_PENDING_OUTBOUND_def enqueue_def Let_def queue_pump_def pump_loop.simps
      writeLine_def settle_def wire_open_def send_view_of_def replace_line_def)

section \<open>Every promise is settled\<close>

text \<open>A round: the callback of the write in flight, and the writer's continuation.\<close>

definition writer_round :: "outbound_queue \<Rightarrow> bool \<times> write_reply \<Rightarrow> outbound_queue" where
  "writer_round q fr = resume_writer (snd fr) (on_edge (Edge_callback (fst fr)) q)"

definition writer_work :: "outbound_queue \<Rightarrow> nat" where
  "writer_work q = length (q_queue q) + (if q_writer q = Idle then 0 else 1)"

lemma pump_loop_work: "writer_work (pump_loop reply q) \<le> length (q_queue q)"
  using pump_loop_keeps [of reply q] by (cases "q_queue q") (auto simp: writer_work_def)

lemma writer_round_work:
  assumes "queue_inv q"
  shows "writer_work (writer_round q fr) \<le> writer_work q - 1"
proof (cases "q_writer q")
  case Idle
  then show ?thesis using assms
    by (simp add: writer_round_def on_edge_def resume_writer_def writer_work_def queue_inv_def)
next
  case (Waiting e armed)
  then show ?thesis
    using pump_loop_work [of "snd fr" "settle (e_id e) (if fst fr then Closed else Accepted)
        (q\<lparr>q_writer := Resuming e (if fst fr then Closed else Accepted)\<rparr>)"]
    by (simp add: writer_round_def on_edge_def resume_writer_def writer_work_def settle_def)
next
  case (Resuming e outcome)
  then show ?thesis
    using pump_loop_work [of "snd fr" "settle (e_id e) outcome q"]
    by (simp add: writer_round_def on_edge_def resume_writer_def writer_work_def settle_def)
qed

lemma writer_rounds:
  "queue_inv q \<Longrightarrow> queue_inv (foldl writer_round q frs) \<and> writer_work (foldl writer_round q frs) \<le> writer_work q - length frs
     \<and> q_next (foldl writer_round q frs) = q_next q"
proof (induction frs arbitrary: q)
  case (Cons fr frs)
  have "queue_inv (writer_round q fr)" using Cons.prems by (simp add: writer_round_def resume_writer_inv on_edge_inv)
  moreover have "q_next (writer_round q fr) = q_next q"
    by (auto simp: writer_round_def on_edge_def resume_writer_def pump_loop_keeps settle_def split: writer_state.split)
  ultimately show ?case
    using Cons.IH [of "writer_round q fr"] writer_round_work [OF Cons.prems, of fr] by auto
qed simp

lemma no_work_settled:
  "queue_inv q \<Longrightarrow> writer_work q = 0 \<Longrightarrow> mset (map fst (q_settled q)) = mset [0..<q_next q]"
  by (auto simp: writer_work_def queue_inv_def promises_def in_flight_def split: if_splits)

text \<open>
  C38: The writer drains. Once as many callbacks have come as there are frames queued and in
  flight, whatever they reported and however the wire answered each write, the backlog is empty,
  the writer sleeps, and every promise handed out is settled exactly once.
\<close>

theorem writer_drains:
  assumes "q = foldl queue_step (newOutboundQueue m) ops" "pendingCount q < length rounds"
  shows "let q' = foldl writer_round q rounds
         in pendingCount q' = 0 \<and> q_writer q' = Idle \<and> mset (map fst (q_settled q')) = mset [0..<q_next q]"
proof -
  have inv: "queue_inv q" unfolding assms(1) by (rule run_queue_inv)
  define q' where "q' = foldl writer_round q rounds"
  have "writer_work q \<le> length rounds" using assms(2) by (simp add: writer_work_def pendingCount_def)
  then have w: "queue_inv q'" "writer_work q' = 0" "q_next q' = q_next q"
    using writer_rounds [OF inv, of rounds] by (auto simp: q'_def)
  then show ?thesis
    using no_work_settled [OF w(1,2)] unfolding q'_def [symmetric] Let_def
    by (simp add: writer_work_def pendingCount_def split: if_splits)
qed

theorem writer_drains_witness:
  "let q' = foldl writer_round (foldl queue_step (newOutboundQueue None)
          [Enqueue ''a'' None \<lparr>wr_accepted = True, wr_callback = None, wr_gone = False\<rparr>,
           Enqueue ''b'' None \<lparr>wr_accepted = True, wr_callback = None, wr_gone = False\<rparr>])
        [(False, \<lparr>wr_accepted = False, wr_callback = None, wr_gone = False\<rparr>),
         (True, \<lparr>wr_accepted = True, wr_callback = None, wr_gone = False\<rparr>)]
   in mset (map fst (q_settled q')) = {#0, 1#}"
  using writer_drains [OF refl, of None "[Enqueue ''a'' None \<lparr>wr_accepted = True, wr_callback = None, wr_gone = False\<rparr>,
           Enqueue ''b'' None \<lparr>wr_accepted = True, wr_callback = None, wr_gone = False\<rparr>]"
        "[(False, \<lparr>wr_accepted = False, wr_callback = None, wr_gone = False\<rparr>),
         (True, \<lparr>wr_accepted = True, wr_callback = None, wr_gone = False\<rparr>)]"]
  by (simp add: newOutboundQueue_def STUDIO_MAX_PENDING_OUTBOUND_def enqueue_def Let_def queue_pump_def pump_loop.simps
      writeLine_def pendingCount_def)

text \<open>
  Closing leaves nobody waiting. When the queue closes and the wire then reports that it is
  gone, every promise handed out so far is settled once the writer has run.
\<close>

theorem close_settles_everything:
  "let q = foldl queue_step (newOutboundQueue m) ops; q' = resume_writer reply (on_edge Edge_gone (queue_close q))
   in mset (map fst (q_settled q')) = mset [0..<q_next q] \<and> q_writer q' = Idle"
proof -
  define q where "q = foldl queue_step (newOutboundQueue m) ops"
  define q' where "q' = resume_writer reply (on_edge Edge_gone (queue_close q))"
  have inv: "queue_inv (queue_close q)" unfolding q_def by (intro queue_close_inv run_queue_inv)
  have empty: "q_queue (queue_close q) = []" and same: "q_next (queue_close q) = q_next q"
    using inv by (auto simp: queue_close_def settle_queue q_def queue_inv_def split: if_splits)
  have "queue_inv q'" unfolding q'_def by (intro resume_writer_inv on_edge_inv inv)
  moreover have "q_writer q' = Idle" "q_queue q' = []" "q_next q' = q_next q"
    using empty same
    by (auto simp: q'_def on_edge_def resume_writer_def pump_loop.simps settle_def split: writer_state.split)
  ultimately show ?thesis
    using no_work_settled [of q'] unfolding q'_def [symmetric] q_def [symmetric] Let_def
    by (simp add: writer_work_def)
qed

end
