(* ===== verification/Workspace.thy ===== *)
theory Workspace
  imports JsText
begin

text \<open>
  The workspace of a Studio project as the pure state machine it is
  (\<open>studio/workspace/workspace-model.ts\<close>, with the types of \<open>types.ts\<close>): the strip of terminal
  groups and file tabs, its operations and its two projections onto what is persisted. The
  share of a pane is a rational; the rounding of doubles is not modelled.
\<close>

section \<open>The state\<close>

definition WORKSPACE_TERMINAL_GROUPS_MAX :: nat where
  "WORKSPACE_TERMINAL_GROUPS_MAX = 4"

definition STUDIO_FILE_TABS_MAX :: nat where
  "STUDIO_FILE_TABS_MAX = 16"

record workspace_pane =
  pn_paneId :: string
  pn_terminalId :: string
  pn_launchShellName :: "string option"
  pn_relativeSize :: rat
  pn_displayCwd :: "string option"

datatype orientation = Horizontal | Vertical

record terminal_group =
  g_tabId :: string
  g_title :: string
  g_orientation :: orientation
  g_panes :: "workspace_pane list"
  g_activePaneId :: string

record file_tab =
  f_tabId :: string
  f_title :: string
  f_relativePath :: string
  f_nodeId :: string
  f_dirty :: bool
  f_preview :: "bool option"

datatype workspace_tab = Group terminal_group | File file_tab

datatype file_open_mode = Open_preview | Open_pinned

record workspace_state =
  ws_projectId :: string
  ws_tabs :: "workspace_tab list"
  ws_activeTabId :: "string option"

datatype refusal_reason = Keep_alive_limit | File_tab_limit | Unknown_tab | Unknown_pane | Last_pane

text \<open>A mutation is \<open>ok\<close> with the next state, or a refusal that hands the state back.\<close>

datatype workspace_mutation = Mutated workspace_state | Refusal refusal_reason workspace_state

fun mutation_state :: "workspace_mutation \<Rightarrow> workspace_state" where
  "mutation_state (Mutated s) = s"
| "mutation_state (Refusal _ s) = s"

fun tab_id :: "workspace_tab \<Rightarrow> string" where
  "tab_id (Group g) = g_tabId g"
| "tab_id (File f) = f_tabId f"

fun tab_title :: "workspace_tab \<Rightarrow> string" where
  "tab_title (Group g) = g_title g"
| "tab_title (File f) = f_title f"

fun isGroup :: "workspace_tab \<Rightarrow> bool" where
  "isGroup (Group _) = True"
| "isGroup (File _) = False"

text \<open>\<open>findIndex\<close> and an index that may be past the end.\<close>

fun find_index :: "('a \<Rightarrow> bool) \<Rightarrow> 'a list \<Rightarrow> nat option" where
  "find_index P [] = None"
| "find_index P (x # xs) = (if P x then Some 0 else map_option Suc (find_index P xs))"

definition nth_opt :: "'a list \<Rightarrow> nat \<Rightarrow> 'a option" where
  "nth_opt xs n = (if n < length xs then Some (xs ! n) else None)"

text \<open>\<open>a % b\<close> on integers: the sign of the dividend.\<close>

definition js_rem :: "int \<Rightarrow> int \<Rightarrow> int" where
  "js_rem a b = (if a < 0 then - ((- a) mod b) else a mod b)"

definition find_tab :: "workspace_state \<Rightarrow> string \<Rightarrow> workspace_tab option" where
  "find_tab s t = find (\<lambda>tab. tab_id tab = t) (ws_tabs s)"

section \<open>Tabs\<close>

definition emptyWorkspace :: "string \<Rightarrow> workspace_state" where
  "emptyWorkspace projectId = \<lparr>ws_projectId = projectId, ws_tabs = [], ws_activeTabId = None\<rparr>"

definition terminalGroupCount :: "workspace_state \<Rightarrow> nat" where
  "terminalGroupCount s = length (filter isGroup (ws_tabs s))"

definition fileTabCount :: "workspace_state \<Rightarrow> nat" where
  "fileTabCount s = length (filter (\<lambda>tab. \<not> isGroup tab) (ws_tabs s))"

definition canAddTerminalGroup :: "workspace_state \<Rightarrow> int \<Rightarrow> bool" where
  "canAddTerminalGroup s pending =
     (int (terminalGroupCount s) + max 0 pending < int WORKSPACE_TERMINAL_GROUPS_MAX)"

definition repairSelection :: "workspace_state \<Rightarrow> workspace_state" where
  "repairSelection s =
     (if length (ws_tabs s) = 0 then
        (if ws_activeTabId s = None then s else s\<lparr>ws_activeTabId := None\<rparr>)
      else if list_ex (\<lambda>tab. Some (tab_id tab) = ws_activeTabId s) (ws_tabs s) then s
      else s\<lparr>ws_activeTabId := map_option tab_id (nth_opt (ws_tabs s) 0)\<rparr>)"

definition addTerminalGroup :: "workspace_state \<Rightarrow> terminal_group \<Rightarrow> workspace_mutation" where
  "addTerminalGroup s grp =
     (if terminalGroupCount s \<ge> WORKSPACE_TERMINAL_GROUPS_MAX then Refusal Keep_alive_limit s
      else Mutated (repairSelection
             (s\<lparr>ws_tabs := ws_tabs s @ [Group grp], ws_activeTabId := Some (g_tabId grp)\<rparr>)))"

fun isPreviewFileTab :: "workspace_tab \<Rightarrow> bool" where
  "isPreviewFileTab (Group _) = False"
| "isPreviewFileTab (File f) = (f_preview f = Some True)"

definition activeTerminalIdOf :: "workspace_state \<Rightarrow> string option" where
  "activeTerminalIdOf s =
     (case find (\<lambda>tab. Some (tab_id tab) = ws_activeTabId s) (ws_tabs s) of
        Some (Group g) \<Rightarrow>
          map_option pn_terminalId (find (\<lambda>p. pn_paneId p = g_activePaneId g) (g_panes g))
      | _ \<Rightarrow> None)"

fun as_file :: "workspace_tab \<Rightarrow> file_tab option" where
  "as_file (Group _) = None"
| "as_file (File f) = Some f"

definition previewFileTab :: "workspace_state \<Rightarrow> file_tab option" where
  "previewFileTab s = Option.bind (find isPreviewFileTab (ws_tabs s)) as_file"

definition replaceTab :: "workspace_state \<Rightarrow> workspace_tab \<Rightarrow> workspace_state" where
  "replaceTab s tab =
     s\<lparr>ws_tabs := map (\<lambda>candidate. if tab_id candidate = tab_id tab then tab else candidate) (ws_tabs s)\<rparr>"

text \<open>The file tab on a path.\<close>

definition file_on :: "workspace_state \<Rightarrow> string \<Rightarrow> file_tab option" where
  "file_on s path =
     Option.bind (find (\<lambda>tab. case tab of Group _ \<Rightarrow> False | File f \<Rightarrow> f_relativePath f = path) (ws_tabs s)) as_file"

definition addFileTab :: "workspace_state \<Rightarrow> file_tab \<Rightarrow> file_open_mode option \<Rightarrow> workspace_mutation" where
  "addFileTab s tab option =
     (let mode = (case option of None \<Rightarrow> Open_pinned | Some m \<Rightarrow> m)
      in case file_on s (f_relativePath tab) of
        Some existing \<Rightarrow>
          let adoptsToken = (f_nodeId existing \<noteq> f_nodeId tab);
              promotes = (mode = Open_pinned \<and> f_preview existing = Some True)
          in if \<not> adoptsToken \<and> \<not> promotes then Mutated (s\<lparr>ws_activeTabId := Some (f_tabId existing)\<rparr>)
             else
               let updated = existing\<lparr>f_nodeId := (if adoptsToken then f_nodeId tab else f_nodeId existing),
                                      f_preview := (if promotes then Some False else f_preview existing)\<rparr>
               in Mutated ((replaceTab s (File updated))\<lparr>ws_activeTabId := Some (f_tabId existing)\<rparr>)
      | None \<Rightarrow>
          let opened = tab\<lparr>f_preview := Some (mode = Open_preview)\<rparr>
          in (case (if mode = Open_preview then previewFileTab s else None) of
                Some replaced \<Rightarrow>
                  Mutated (repairSelection
                    (s\<lparr>ws_tabs := map (\<lambda>candidate. if tab_id candidate = f_tabId replaced then File opened
                                                    else candidate) (ws_tabs s),
                       ws_activeTabId := Some (f_tabId opened)\<rparr>))
              | None \<Rightarrow>
                  if fileTabCount s \<ge> STUDIO_FILE_TABS_MAX then Refusal File_tab_limit s
                  else Mutated (repairSelection
                         (s\<lparr>ws_tabs := ws_tabs s @ [File opened], ws_activeTabId := Some (f_tabId opened)\<rparr>))))"

definition pinTab :: "workspace_state \<Rightarrow> string \<Rightarrow> workspace_mutation" where
  "pinTab s t =
     (case find_tab s t of
        None \<Rightarrow> Refusal Unknown_tab s
      | Some target \<Rightarrow>
          (case target of
             File f \<Rightarrow> if isPreviewFileTab target then Mutated (replaceTab s (File (f\<lparr>f_preview := Some False\<rparr>)))
                       else Mutated s
           | Group _ \<Rightarrow> Mutated s))"

definition selectTab :: "workspace_state \<Rightarrow> string \<Rightarrow> workspace_mutation" where
  "selectTab s t =
     (if \<not> list_ex (\<lambda>tab. tab_id tab = t) (ws_tabs s) then Refusal Unknown_tab s
      else Mutated (s\<lparr>ws_activeTabId := Some t\<rparr>))"

definition tabIdAtOffset :: "workspace_state \<Rightarrow> int \<Rightarrow> string option" where
  "tabIdAtOffset s offset =
     (let count = int (length (ws_tabs s))
      in if count = 0 \<or> ws_activeTabId s = None then None
         else case find_index (\<lambda>tab. Some (tab_id tab) = ws_activeTabId s) (ws_tabs s) of
           None \<Rightarrow> None
         | Some index \<Rightarrow>
             let next = js_rem (js_rem (int index + offset) count + count) count
             in map_option tab_id (nth_opt (ws_tabs s) (nat next)))"

definition or_else_option :: "'a option \<Rightarrow> 'a option \<Rightarrow> 'a option" where
  "or_else_option a b = (case a of None \<Rightarrow> b | Some _ \<Rightarrow> a)"

definition closeTab :: "workspace_state \<Rightarrow> string \<Rightarrow> workspace_mutation" where
  "closeTab s t =
     (case find_index (\<lambda>tab. tab_id tab = t) (ws_tabs s) of
        None \<Rightarrow> Refusal Unknown_tab s
      | Some index \<Rightarrow>
          let tabs = filter (\<lambda>tab. tab_id tab \<noteq> t) (ws_tabs s);
              active = (if ws_activeTabId s = Some t then
                          let left = (if index \<ge> 1 then nth_opt tabs (index - 1) else None);
                              right = nth_opt tabs index
                          in or_else_option (map_option tab_id left) (map_option tab_id right)
                        else ws_activeTabId s)
          in Mutated (repairSelection (s\<lparr>ws_tabs := tabs, ws_activeTabId := active\<rparr>)))"

section \<open>Panes\<close>

definition pane_share :: "workspace_pane \<Rightarrow> rat" where
  "pane_share p = (if pn_relativeSize p > 0 then pn_relativeSize p else 0)"

definition normalizeToSumOne :: "workspace_pane list \<Rightarrow> workspace_pane list" where
  "normalizeToSumOne panes =
     (if length panes = 0 then []
      else
        let total = sum_list (map pane_share panes)
        in if total \<le> 0 then map (\<lambda>p. p\<lparr>pn_relativeSize := 1 / of_nat (length panes)\<rparr>) panes
           else map (\<lambda>p. p\<lparr>pn_relativeSize := pane_share p / total\<rparr>) panes)"

text \<open>What every operation on a group starts with.\<close>

definition with_group :: "workspace_state \<Rightarrow> string \<Rightarrow> (terminal_group \<Rightarrow> workspace_mutation) \<Rightarrow> workspace_mutation" where
  "with_group s t f =
     (case find_tab s t of Some (Group g) \<Rightarrow> f g | _ \<Rightarrow> Refusal Unknown_tab s)"

definition or_zero :: "nat option \<Rightarrow> nat" where
  "or_zero i = (case i of None \<Rightarrow> 0 | Some n \<Rightarrow> n)"

text \<open>\<open>addPane\<close>: the new pane takes half of the active pane, right after it.\<close>

definition split_pane :: "terminal_group \<Rightarrow> workspace_pane \<Rightarrow> terminal_group" where
  "split_pane target pane =
     (if length (g_panes target) = 0 then
        target\<lparr>g_panes := [pane\<lparr>pn_relativeSize := 1\<rparr>], g_activePaneId := pn_paneId pane\<rparr>
      else
        let activeIndex = or_zero (find_index (\<lambda>p. pn_paneId p = g_activePaneId target) (g_panes target));
            donor = g_panes target ! activeIndex;
            half = pn_relativeSize donor / 2;
            panes = take activeIndex (g_panes target)
                    @ [donor\<lparr>pn_relativeSize := half\<rparr>, pane\<lparr>pn_relativeSize := half\<rparr>]
                    @ drop (activeIndex + 1) (g_panes target)
        in target\<lparr>g_panes := normalizeToSumOne panes, g_activePaneId := pn_paneId pane\<rparr>)"

definition addPane :: "workspace_state \<Rightarrow> string \<Rightarrow> workspace_pane \<Rightarrow> workspace_mutation" where
  "addPane s t pane = with_group s t (\<lambda>target. Mutated (replaceTab s (Group (split_pane target pane))))"

text \<open>\<open>resizePane\<close>: a transfer between one pane and its neighbour.\<close>

definition transfer_share :: "workspace_pane list \<Rightarrow> nat \<Rightarrow> rat \<Rightarrow> workspace_pane list" where
  "transfer_share panes index relativeSize =
     (let partnerIndex = (if index = length panes - 1 then index - 1 else index + 1);
          pooled = pn_relativeSize (panes ! index) + pn_relativeSize (panes ! partnerIndex);
          next = min (max relativeSize 0) pooled
      in panes[index := (panes ! index)\<lparr>pn_relativeSize := next\<rparr>,
               partnerIndex := (panes ! partnerIndex)\<lparr>pn_relativeSize := pooled - next\<rparr>])"

definition resizePane :: "workspace_state \<Rightarrow> string \<Rightarrow> string \<Rightarrow> rat \<Rightarrow> workspace_mutation" where
  "resizePane s t paneId relativeSize = with_group s t (\<lambda>target.
     case find_index (\<lambda>p. pn_paneId p = paneId) (g_panes target) of
       None \<Rightarrow> Refusal Unknown_pane s
     | Some index \<Rightarrow>
         if length (g_panes target) = 1 then Mutated s
         else Mutated (replaceTab s (Group (target\<lparr>g_panes := transfer_share (g_panes target) index relativeSize\<rparr>))))"

definition resizePanes :: "workspace_state \<Rightarrow> string \<Rightarrow> rat list \<Rightarrow> workspace_mutation" where
  "resizePanes s t relativeSizes = with_group s t (\<lambda>target.
     if length relativeSizes \<noteq> length (g_panes target) then Refusal Unknown_pane s
     else
       let panes = map2 (\<lambda>p r. p\<lparr>pn_relativeSize := max r 0\<rparr>) (g_panes target) relativeSizes
       in Mutated (replaceTab s (Group (target\<lparr>g_panes := normalizeToSumOne panes\<rparr>))))"

text \<open>\<open>closePane\<close>: the survivors share what the pane had; selection moves left.\<close>

definition without_pane :: "terminal_group \<Rightarrow> string \<Rightarrow> nat \<Rightarrow> terminal_group" where
  "without_pane target paneId index =
     (let panes = filter (\<lambda>p. pn_paneId p \<noteq> paneId) (g_panes target);
          active = (if g_activePaneId target = paneId
                    then (case or_else_option (map_option pn_paneId (nth_opt panes (index - 1)))
                                 (map_option pn_paneId (nth_opt panes 0)) of
                            None \<Rightarrow> [] | Some p \<Rightarrow> p)
                    else g_activePaneId target)
      in target\<lparr>g_panes := normalizeToSumOne panes, g_activePaneId := active\<rparr>)"

definition closePane :: "workspace_state \<Rightarrow> string \<Rightarrow> string \<Rightarrow> workspace_mutation" where
  "closePane s t paneId = with_group s t (\<lambda>target.
     case find_index (\<lambda>p. pn_paneId p = paneId) (g_panes target) of
       None \<Rightarrow> Refusal Unknown_pane s
     | Some index \<Rightarrow>
         if length (g_panes target) = 1 then Refusal Last_pane s
         else Mutated (replaceTab s (Group (without_pane target paneId index))))"

definition setActivePane :: "workspace_state \<Rightarrow> string \<Rightarrow> string \<Rightarrow> workspace_mutation" where
  "setActivePane s t paneId = with_group s t (\<lambda>target.
     if \<not> list_ex (\<lambda>p. pn_paneId p = paneId) (g_panes target) then Refusal Unknown_pane s
     else if g_activePaneId target = paneId then Mutated s
     else Mutated (replaceTab s (Group (target\<lparr>g_activePaneId := paneId\<rparr>))))"

definition setGroupOrientation :: "workspace_state \<Rightarrow> string \<Rightarrow> orientation \<Rightarrow> workspace_mutation" where
  "setGroupOrientation s t orientation = with_group s t (\<lambda>target.
     if g_orientation target = orientation then Mutated s
     else Mutated (replaceTab s (Group (target\<lparr>g_orientation := orientation\<rparr>))))"

text \<open>\<open>setPaneDisplayCwd\<close>: the first group that has the terminal.\<close>

definition setPaneDisplayCwd :: "workspace_state \<Rightarrow> string \<Rightarrow> string \<Rightarrow> workspace_mutation" where
  "setPaneDisplayCwd s terminalId displayCwd =
     (case find (\<lambda>tab. case tab of Group g \<Rightarrow> list_ex (\<lambda>p. pn_terminalId p = terminalId) (g_panes g)
                        | File _ \<Rightarrow> False) (ws_tabs s) of
        Some (Group g) \<Rightarrow>
          (if map_option pn_displayCwd (find (\<lambda>p. pn_terminalId p = terminalId) (g_panes g)) = Some (Some displayCwd)
           then Mutated s
           else Mutated (replaceTab s (Group (g\<lparr>g_panes :=
                  map (\<lambda>p. if pn_terminalId p = terminalId then p\<lparr>pn_displayCwd := Some displayCwd\<rparr> else p)
                    (g_panes g)\<rparr>))))
      | _ \<Rightarrow> Mutated s)"

fun with_title :: "workspace_tab \<Rightarrow> string \<Rightarrow> workspace_tab" where
  "with_title (Group g) title = Group (g\<lparr>g_title := title\<rparr>)"
| "with_title (File f) title = File (f\<lparr>f_title := title\<rparr>)"

definition setTabTitle :: "workspace_state \<Rightarrow> string \<Rightarrow> string \<Rightarrow> workspace_mutation" where
  "setTabTitle s t title =
     (case find_tab s t of
        None \<Rightarrow> Refusal Unknown_tab s
      | Some target \<Rightarrow>
          let next = trim title
          in if next = [] \<or> next = tab_title target then Mutated s
             else Mutated (replaceTab s (with_title target next)))"

record file_tab_target =
  ft_title :: string
  ft_relativePath :: string
  ft_nodeId :: string

definition retargetFileTab :: "workspace_state \<Rightarrow> string \<Rightarrow> file_tab_target \<Rightarrow> workspace_mutation" where
  "retargetFileTab s fromRelativePath to =
     (case file_on s fromRelativePath of
        None \<Rightarrow> Refusal Unknown_tab s
      | Some target \<Rightarrow>
          if f_title target = ft_title to \<and> f_relativePath target = ft_relativePath to
             \<and> f_nodeId target = ft_nodeId to
          then Mutated s
          else Mutated (replaceTab s (File (target\<lparr>f_title := ft_title to,
                 f_relativePath := ft_relativePath to, f_nodeId := ft_nodeId to\<rparr>))))"

section \<open>What is released and what is persisted\<close>

datatype cleanup_intent = Closing | Unmounting

record cleanup_plan =
  detachTerminalIds :: "string list"
  killTerminalIds :: "string list"

fun tab_panes :: "workspace_tab \<Rightarrow> workspace_pane list" where
  "tab_panes (Group g) = g_panes g"
| "tab_panes (File _) = []"

definition collectCleanups :: "workspace_tab list \<Rightarrow> cleanup_intent \<Rightarrow> cleanup_plan" where
  "collectCleanups tabs intent =
     (let terminalIds = concat (map (\<lambda>tab. map pn_terminalId (tab_panes tab)) (filter isGroup tabs))
      in if intent = Closing then \<lparr>detachTerminalIds = [], killTerminalIds = terminalIds\<rparr>
         else \<lparr>detachTerminalIds = terminalIds, killTerminalIds = []\<rparr>)"

record pane_layout =
  pl_terminalId :: string
  pl_relativeSize :: rat

record group_layout =
  gl_groupId :: string
  gl_orientation :: orientation
  gl_panes :: "pane_layout list"
  gl_activePaneIndex :: nat

record workspace_layout =
  wl_projectId :: string
  wl_groups :: "group_layout list"
  wl_activeGroupIndex :: nat

fun groups_of :: "workspace_tab list \<Rightarrow> terminal_group list" where
  "groups_of [] = []"
| "groups_of (Group g # tabs) = g # groups_of tabs"
| "groups_of (File _ # tabs) = groups_of tabs"

definition group_layout_of :: "terminal_group \<Rightarrow> group_layout" where
  "group_layout_of grp =
     \<lparr>gl_groupId = g_tabId grp, gl_orientation = g_orientation grp,
      gl_panes = map (\<lambda>p. \<lparr>pl_terminalId = pn_terminalId p, pl_relativeSize = pn_relativeSize p\<rparr>) (g_panes grp),
      gl_activePaneIndex = or_zero (find_index (\<lambda>p. pn_paneId p = g_activePaneId grp) (g_panes grp))\<rparr>"

definition toPersistedLayout :: "workspace_state \<Rightarrow> workspace_layout" where
  "toPersistedLayout s =
     \<lparr>wl_projectId = ws_projectId s,
      wl_groups = map group_layout_of (groups_of (ws_tabs s)),
      wl_activeGroupIndex =
        or_zero (find_index (\<lambda>g. Some (g_tabId g) = ws_activeTabId s) (groups_of (ws_tabs s)))\<rparr>"

record restored_terminal =
  rt_terminalId :: string
  rt_title :: string
  rt_shellName :: string
  rt_displayCwd :: "string option"

record workspace_restore =
  wr_layout :: workspace_layout
  wr_terminals :: "restored_terminal list"

text \<open>A \<open>Map\<close> built from the entries: the last entry of an id wins.\<close>

definition terminal_entry :: "restored_terminal list \<Rightarrow> string \<Rightarrow> restored_terminal option" where
  "terminal_entry entries i = find (\<lambda>e. rt_terminalId e = i) (rev entries)"

definition entry_title :: "restored_terminal \<Rightarrow> string" where
  "entry_title e = (if rt_title e = [] then rt_shellName e else rt_title e)"

definition restored_group :: "restored_terminal list \<Rightarrow> group_layout \<Rightarrow> terminal_group option" where
  "restored_group entries grp =
     (let kept = filter (\<lambda>p. terminal_entry entries (pl_terminalId p) \<noteq> None) (gl_panes grp);
          panes = map2 (\<lambda>index p.
              \<lparr>pn_paneId = gl_groupId grp @ '':'' @ show_nat index,
               pn_terminalId = pl_terminalId p,
               pn_launchShellName = Some (case terminal_entry entries (pl_terminalId p) of
                                            None \<Rightarrow> [] | Some e \<Rightarrow> rt_shellName e),
               pn_relativeSize = pl_relativeSize p,
               pn_displayCwd = Option.bind (terminal_entry entries (pl_terminalId p)) rt_displayCwd\<rparr>)
            [0..<length kept] kept
      in if length panes = 0 then None
         else
           let activeIndex = min (gl_activePaneIndex grp) (length panes - 1)
           in Some \<lparr>g_tabId = gl_groupId grp,
                    g_title = (case terminal_entry entries (pn_terminalId (panes ! 0)) of
                                 None \<Rightarrow> ''terminal'' | Some e \<Rightarrow> entry_title e),
                    g_orientation = gl_orientation grp,
                    g_panes = normalizeToSumOne panes,
                    g_activePaneId = pn_paneId (panes ! activeIndex)\<rparr>)"

definition fromSnapshot :: "workspace_restore \<Rightarrow> workspace_state" where
  "fromSnapshot snapshot =
     (let layout = wr_layout snapshot;
          tabs = map Group (List.map_filter (restored_group (wr_terminals snapshot)) (wl_groups layout))
      in repairSelection
           \<lparr>ws_projectId = wl_projectId layout, ws_tabs = tabs,
            ws_activeTabId = map_option tab_id (nth_opt tabs (min (wl_activeGroupIndex layout) (length tabs - 1)))\<rparr>)"

record restored_file_tab = file_tab_target +
  rf_tabId :: string
  rf_pinned :: bool
  rf_position :: int
  rf_active :: bool

definition insert_at :: "nat \<Rightarrow> 'a \<Rightarrow> 'a list \<Rightarrow> 'a list" where
  "insert_at n x xs = take n xs @ x # drop n xs"

text \<open>The loop of \<open>restoreFileTabs\<close> with its local variables.\<close>

record restore_state =
  rs_open :: "string list"
  rs_tabs :: "workspace_tab list"
  rs_fileTabs :: nat
  rs_previewTaken :: bool
  rs_activeTabId :: "string option"

fun restore_loop :: "restored_file_tab list \<Rightarrow> restore_state \<Rightarrow> restore_state" where
  "restore_loop [] r = r"
| "restore_loop (entry # entries) r =
     (if rs_fileTabs r \<ge> STUDIO_FILE_TABS_MAX then r
      else if ft_relativePath entry \<in> set (rs_open r) then restore_loop entries r
      else
        let preview = (\<not> rf_pinned entry \<and> \<not> rs_previewTaken r);
            tab = \<lparr>f_tabId = rf_tabId entry, f_title = ft_title entry, f_relativePath = ft_relativePath entry,
                   f_nodeId = ft_nodeId entry, f_dirty = False, f_preview = Some preview\<rparr>
        in restore_loop entries
             \<lparr>rs_open = ft_relativePath entry # rs_open r,
              rs_tabs = insert_at (nat (min (max (rf_position entry) 0) (int (length (rs_tabs r))))) (File tab) (rs_tabs r),
              rs_fileTabs = rs_fileTabs r + 1,
              rs_previewTaken = (rs_previewTaken r \<or> preview),
              rs_activeTabId = (if rf_active entry \<and> rs_activeTabId r = None then Some (rf_tabId entry)
                                else rs_activeTabId r)\<rparr>)"

definition open_paths :: "workspace_tab list \<Rightarrow> string list" where
  "open_paths tabs = List.map_filter (\<lambda>tab. map_option f_relativePath (as_file tab)) tabs"

definition restoreFileTabs :: "workspace_state \<Rightarrow> restored_file_tab list \<Rightarrow> workspace_state" where
  "restoreFileTabs s restored =
     (let r = restore_loop (sort_key rf_position restored)
                \<lparr>rs_open = open_paths (ws_tabs s), rs_tabs = ws_tabs s,
                 rs_fileTabs = card (set (open_paths (ws_tabs s))), rs_previewTaken = False,
                 rs_activeTabId = None\<rparr>
      in repairSelection (s\<lparr>ws_tabs := rs_tabs r,
                            ws_activeTabId := or_else_option (ws_activeTabId s) (rs_activeTabId r)\<rparr>))"

record persisted_file_tab =
  pf_relativePath :: string
  pf_pinned :: bool
  pf_position :: nat
  pf_active :: bool

definition toPersistedFileTabs :: "workspace_state \<Rightarrow> persisted_file_tab list" where
  "toPersistedFileTabs s =
     List.map_filter (\<lambda>(index, tab).
         map_option (\<lambda>f. \<lparr>pf_relativePath = f_relativePath f, pf_pinned = True, pf_position = index,
                          pf_active = (Some (f_tabId f) = ws_activeTabId s)\<rparr>) (as_file tab))
       (enumerate 0 (ws_tabs s))"

section \<open>Invariant\<close>

definition group_ok :: "terminal_group \<Rightarrow> bool" where
  "group_ok g =
     (distinct (map pn_paneId (g_panes g)) \<and> g_activePaneId g \<in> pn_paneId ` set (g_panes g)
      \<and> (\<forall>p\<in>set (g_panes g). 0 \<le> pn_relativeSize p) \<and> sum_list (map pn_relativeSize (g_panes g)) = 1)"

definition tabs_ok :: "workspace_tab list \<Rightarrow> bool" where
  "tabs_ok tabs =
     (distinct (map tab_id tabs) \<and> length (filter isGroup tabs) \<le> WORKSPACE_TERMINAL_GROUPS_MAX
      \<and> length (filter (\<lambda>t. \<not> isGroup t) tabs) \<le> STUDIO_FILE_TABS_MAX
      \<and> length (filter isPreviewFileTab tabs) \<le> 1 \<and> distinct (open_paths tabs)
      \<and> (\<forall>g. Group g \<in> set tabs \<longrightarrow> group_ok g))"

definition selection_ok :: "workspace_state \<Rightarrow> bool" where
  "selection_ok s =
     (case ws_activeTabId s of None \<Rightarrow> ws_tabs s = [] | Some t \<Rightarrow> t \<in> tab_id ` set (ws_tabs s))"

definition workspace_inv :: "workspace_state \<Rightarrow> bool" where
  "workspace_inv s = (tabs_ok (ws_tabs s) \<and> selection_ok s)"

named_theorems workspace_simps "what an operation leaves alone"

lemma open_paths_simps [simp]:
  "open_paths [] = []" "open_paths (Group g # tabs) = open_paths tabs"
  "open_paths (File f # tabs) = f_relativePath f # open_paths tabs"
  by (simp_all add: open_paths_def List.map_filter_simps)

lemma open_paths_append [simp]: "open_paths (xs @ ys) = open_paths xs @ open_paths ys"
  by (induction xs) (auto simp: open_paths_def List.map_filter_simps split: option.split)

lemma open_paths_iff: "path \<in> set (open_paths tabs) \<longleftrightarrow> (\<exists>f. File f \<in> set tabs \<and> f_relativePath f = path)"
proof (induction tabs)
  case (Cons t tabs)
  then show ?case by (cases t) auto
qed simp

lemma length_open_paths: "length (open_paths tabs) = length (filter (\<lambda>t. \<not> isGroup t) tabs)"
proof (induction tabs)
  case (Cons t tabs)
  then show ?case by (cases t) auto
qed simp

lemma preview_none: "filter isPreviewFileTab tabs = [] \<longleftrightarrow> find isPreviewFileTab tabs = None"
  by (induction tabs) auto

lemma repairSelection_tabs [simp]: "ws_tabs (repairSelection s) = ws_tabs s"
  by (simp add: repairSelection_def)

lemma repairSelection_project [simp]: "ws_projectId (repairSelection s) = ws_projectId s"
  by (simp add: repairSelection_def)

lemma repairSelection_ok: "selection_ok (repairSelection s)"
proof (cases "ws_tabs s")
  case (Cons t ts)
  then show ?thesis
    by (auto simp: repairSelection_def selection_ok_def nth_opt_def list_ex_iff split: option.split)
qed (simp add: repairSelection_def selection_ok_def)

lemma repairSelection_id: "selection_ok s \<Longrightarrow> repairSelection s = s"
  by (cases "ws_tabs s") (auto simp: repairSelection_def selection_ok_def list_ex_iff split: option.splits)

text \<open>Replacing one tab of a strip without repeated ids.\<close>

lemma replace_split:
  assumes "distinct (map tab_id (xs @ t # ys))"
  shows "map (\<lambda>c. if tab_id c = tab_id t then t' else c) (xs @ t # ys) = xs @ t' # ys"
proof -
  have "map (\<lambda>c. if tab_id c = tab_id t then t' else c) zs = zs" if "tab_id t \<notin> tab_id ` set zs" for zs
    using that by (auto intro!: map_idI simp: image_iff)
  moreover have "tab_id t \<notin> tab_id ` set xs" "tab_id t \<notin> tab_id ` set ys" using assms by auto
  ultimately show ?thesis by simp
qed

lemma tab_split:
  assumes "t \<in> set tabs"
  obtains xs ys where "tabs = xs @ t # ys"
  using assms by (auto dest: split_list)

lemma replaceTab_inv:
  assumes inv: "workspace_inv s" and t: "t \<in> set (ws_tabs s)"
    and same: "tab_id t' = tab_id t" "isGroup t' = isGroup t" "isPreviewFileTab t' \<Longrightarrow> isPreviewFileTab t"
    and grp: "\<And>g. t' = Group g \<Longrightarrow> group_ok g"
    and path: "set (open_paths [t']) \<subseteq> set (open_paths [t]) \<union> - set (open_paths (ws_tabs s))"
  shows "workspace_inv (replaceTab s t')"
proof -
  obtain xs ys where s: "ws_tabs s = xs @ t # ys" using t by (rule tab_split)
  have ok: "tabs_ok (xs @ t # ys)" using inv s by (simp add: workspace_inv_def)
  have new: "ws_tabs (replaceTab s t') = xs @ t' # ys"
    using replace_split [of xs t ys t'] ok by (simp add: replaceTab_def s same(1) tabs_ok_def)
  have "tabs_ok (xs @ t' # ys)"
    using ok same grp path unfolding s by (cases t; cases t') (fastforce simp: tabs_ok_def split: if_splits)+
  moreover have "selection_ok (replaceTab s t')"
    using inv same(1) unfolding workspace_inv_def selection_ok_def new s
    by (auto simp: replaceTab_def split: option.splits)
  ultimately show ?thesis by (simp add: workspace_inv_def new)
qed

lemma find_tab_SomeD: "find_tab s t = Some tab \<Longrightarrow> tab \<in> set (ws_tabs s) \<and> tab_id tab = t"
  by (auto simp: find_tab_def dest: find_Some_iff)

lemma file_on_SomeD: "file_on s path = Some f \<Longrightarrow> File f \<in> set (ws_tabs s) \<and> f_relativePath f = path"
  by (auto simp: file_on_def bind_eq_Some_conv dest!: find_Some_iff split: workspace_tab.splits)

lemma file_on_None: "file_on s path = None \<Longrightarrow> path \<notin> set (open_paths (ws_tabs s))"
proof -
  assume none: "file_on s path = None"
  have "\<not> (\<exists>f. File f \<in> set (ws_tabs s) \<and> f_relativePath f = path)"
  proof
    assume "\<exists>f. File f \<in> set (ws_tabs s) \<and> f_relativePath f = path"
    then obtain f where "File f \<in> set (ws_tabs s)" "f_relativePath f = path" by blast
    then have "find (\<lambda>tab. case tab of Group _ \<Rightarrow> False | File f \<Rightarrow> f_relativePath f = path) (ws_tabs s) \<noteq> None"
      by (auto simp: find_None_iff_list_all intro!: bexI [of _ "File f"])
    then obtain t where t: "find (\<lambda>tab. case tab of Group _ \<Rightarrow> False | File f \<Rightarrow> f_relativePath f = path) (ws_tabs s) = Some t"
      by blast
    then have "as_file t \<noteq> None" using find_Some_iff [OF t] by (cases t) auto
    with t none show False by (auto simp: file_on_def)
  qed
  then show ?thesis by (simp add: open_paths_iff)
qed

text \<open>The shares after normalization.\<close>

lemma normalize_ids [simp]: "map pn_paneId (normalizeToSumOne panes) = map pn_paneId panes"
  "map pn_terminalId (normalizeToSumOne panes) = map pn_terminalId panes"
  "length (normalizeToSumOne panes) = length panes"
  by (auto simp: normalizeToSumOne_def Let_def)

lemma pane_share_nonneg [simp]: "0 \<le> pane_share p"
  by (simp add: pane_share_def)

lemma sum_shares_nonneg: "0 \<le> sum_list (map pane_share panes)"
  by (rule sum_list_nonneg) auto

lemma normalize_sum:
  assumes "panes \<noteq> []"
  shows "sum_list (map pn_relativeSize (normalizeToSumOne panes)) = 1"
    and "\<forall>p\<in>set (normalizeToSumOne panes). 0 \<le> pn_relativeSize p"
proof -
  have scaled: "sum_list (map (\<lambda>p. pane_share p / c) panes) = sum_list (map pane_share panes) / c" for c
    by (induction panes) (simp_all add: add_divide_distrib)
  have even: "sum_list (map (\<lambda>p. 1 / of_nat n :: rat) panes) = of_nat (length panes) / of_nat n" for n
    by (induction panes) (simp_all add: add_divide_distrib)
  show "sum_list (map pn_relativeSize (normalizeToSumOne panes)) = 1"
    using assms even [of "length panes"] by (simp add: normalizeToSumOne_def Let_def comp_def scaled)
  show "\<forall>p\<in>set (normalizeToSumOne panes). 0 \<le> pn_relativeSize p"
    using sum_shares_nonneg [of panes] by (auto simp: normalizeToSumOne_def Let_def)
qed

text \<open>Shares that already sum to one stay as they are.\<close>

lemma normalize_id:
  assumes "\<forall>p\<in>set panes. 0 \<le> pn_relativeSize p" "sum_list (map pn_relativeSize panes) = 1"
  shows "normalizeToSumOne panes = panes"
proof -
  have share: "\<forall>p\<in>set panes. pane_share p = pn_relativeSize p"
    using assms(1) by (auto simp: pane_share_def)
  then have "map pane_share panes = map pn_relativeSize panes" by simp
  then have "sum_list (map pane_share panes) = 1" using assms(2) by (simp only:)
  moreover have "panes \<noteq> []" using assms(2) by auto
  ultimately show ?thesis using share by (auto simp: normalizeToSumOne_def Let_def intro!: map_idI)
qed

lemma normalized_group_ok:
  assumes "panes \<noteq> []" "distinct (map pn_paneId panes)" "active \<in> pn_paneId ` set panes"
  shows "group_ok (g\<lparr>g_panes := normalizeToSumOne panes, g_activePaneId := active\<rparr>)"
proof -
  have "pn_paneId ` set (normalizeToSumOne panes) = pn_paneId ` set panes"
    by (metis list.set_map normalize_ids(1))
  then show ?thesis using assms normalize_sum [OF assms(1)] by (simp add: group_ok_def)
qed

lemma sizes_nonneg:
  assumes "map pn_relativeSize ps = map pn_relativeSize qs" "\<forall>p\<in>set qs. 0 \<le> pn_relativeSize p"
  shows "\<forall>p\<in>set ps. 0 \<le> pn_relativeSize p"
proof -
  have "list_all ((\<le>) 0) (map pn_relativeSize ps)" unfolding assms(1) using assms(2) by (simp add: list_all_iff)
  then show ?thesis by (simp add: list_all_iff)
qed

lemma group_ok_panes:
  assumes "group_ok g" "map pn_paneId ps = map pn_paneId (g_panes g)"
    "map pn_relativeSize ps = map pn_relativeSize (g_panes g)"
  shows "group_ok (g\<lparr>g_panes := ps\<rparr>)"
proof -
  have "pn_paneId ` set ps = pn_paneId ` set (g_panes g)" using assms(2) by (metis list.set_map)
  moreover have "\<forall>p\<in>set ps. 0 \<le> pn_relativeSize p"
    using assms(1) by (intro sizes_nonneg [OF assms(3)]) (simp add: group_ok_def)
  ultimately show ?thesis using assms unfolding group_ok_def by simp
qed

section \<open>Every operation keeps the invariant\<close>

lemma find_index_SomeD: "find_index P xs = Some i \<Longrightarrow> i < length xs \<and> P (xs ! i)"
  by (induction xs arbitrary: i) (auto split: if_splits)

lemma find_index_None: "find_index P xs = None \<longleftrightarrow> (\<forall>x\<in>set xs. \<not> P x)"
  by (induction xs) auto

lemma group_ok_of_inv: "workspace_inv s \<Longrightarrow> Group g \<in> set (ws_tabs s) \<Longrightarrow> group_ok g"
  by (simp add: workspace_inv_def tabs_ok_def)

lemma selection_of_member: "t \<in> tab_id ` set (ws_tabs s) \<Longrightarrow> selection_ok (s\<lparr>ws_activeTabId := Some t\<rparr>)"
  by (simp add: selection_ok_def)

lemma addTerminalGroup_inv:
  assumes inv: "workspace_inv s" and fresh: "group_ok g" "g_tabId g \<notin> tab_id ` set (ws_tabs s)"
  shows "workspace_inv (mutation_state (addTerminalGroup s g))"
proof (cases "terminalGroupCount s \<ge> WORKSPACE_TERMINAL_GROUPS_MAX")
  case False
  have "tabs_ok (ws_tabs s @ [Group g])"
    using inv fresh False by (auto simp: workspace_inv_def tabs_ok_def terminalGroupCount_def)
  then show ?thesis using False repairSelection_ok by (simp add: addTerminalGroup_def workspace_inv_def)
qed (use inv in \<open>simp add: addTerminalGroup_def\<close>)

text \<open>The group an operation works on, replaced by another good group.\<close>

lemma replace_group_inv:
  assumes "workspace_inv s" "Group g \<in> set (ws_tabs s)" "g_tabId g' = g_tabId g" "group_ok g'"
  shows "workspace_inv (replaceTab s (Group g'))"
  by (rule replaceTab_inv [OF assms(1,2)]) (use assms(3,4) in auto)

lemma with_group_inv:
  assumes inv: "workspace_inv s"
    and f: "\<And>g. Group g \<in> set (ws_tabs s) \<Longrightarrow> g_tabId g = t \<Longrightarrow> group_ok g \<Longrightarrow> workspace_inv (mutation_state (f g))"
  shows "workspace_inv (mutation_state (with_group s t f))"
proof (cases "find_tab s t")
  case (Some tab)
  then have mem: "tab \<in> set (ws_tabs s)" "tab_id tab = t" using find_tab_SomeD by auto
  show ?thesis
  proof (cases tab)
    case (Group g)
    then show ?thesis using Some mem f group_ok_of_inv [OF inv] by (auto simp: with_group_def)
  qed (use Some inv in \<open>simp add: with_group_def\<close>)
qed (use inv in \<open>simp add: with_group_def\<close>)

lemma distinct_insert_middle:
  "distinct xs \<Longrightarrow> y \<notin> set xs \<Longrightarrow> distinct (take n xs @ y # drop n xs)"
  by (auto dest: in_set_takeD in_set_dropD simp: set_take_disj_set_drop_if_distinct)

lemma split_pane_ok:
  assumes g: "group_ok g" and fresh: "pn_paneId p \<notin> pn_paneId ` set (g_panes g)"
  shows "group_ok (split_pane g p)"
proof -
  define i where "i = or_zero (find_index (\<lambda>p. pn_paneId p = g_activePaneId g) (g_panes g))"
  define half where "half = pn_relativeSize (g_panes g ! i) / 2"
  define panes where "panes = take i (g_panes g)
      @ [(g_panes g ! i)\<lparr>pn_relativeSize := half\<rparr>, p\<lparr>pn_relativeSize := half\<rparr>] @ drop (i + 1) (g_panes g)"
  have ne: "g_panes g \<noteq> []" using g by (auto simp: group_ok_def)
  then have i: "i < length (g_panes g)"
    by (auto simp: i_def or_zero_def dest: find_index_SomeD split: option.split)
  have "map pn_paneId panes = take (i + 1) (map pn_paneId (g_panes g)) @ pn_paneId p # drop (i + 1) (map pn_paneId (g_panes g))"
    using i by (simp add: panes_def take_Suc_conv_app_nth take_map drop_map)
  then have "distinct (map pn_paneId panes)"
    using g fresh distinct_insert_middle [of "map pn_paneId (g_panes g)" "pn_paneId p" "i + 1"] by (simp add: group_ok_def)
  then have "group_ok (g\<lparr>g_panes := normalizeToSumOne panes, g_activePaneId := pn_paneId p\<rparr>)"
    by (rule normalized_group_ok [rotated]) (auto simp: panes_def)
  moreover have "split_pane g p = g\<lparr>g_panes := normalizeToSumOne panes, g_activePaneId := pn_paneId p\<rparr>"
    using ne unfolding panes_def half_def i_def by (simp add: split_pane_def Let_def)
  ultimately show ?thesis by simp
qed

lemma split_pane_tabId [simp]: "g_tabId (split_pane g p) = g_tabId g"
  by (simp add: split_pane_def Let_def)

lemma addPane_inv:
  assumes "workspace_inv s"
    and "\<And>g. Group g \<in> set (ws_tabs s) \<Longrightarrow> g_tabId g = t \<Longrightarrow> pn_paneId p \<notin> pn_paneId ` set (g_panes g)"
  shows "workspace_inv (mutation_state (addPane s t p))"
  unfolding addPane_def
  by (rule with_group_inv [OF assms(1)]) (use assms in \<open>auto intro!: replace_group_inv split_pane_ok\<close>)

text \<open>A transfer keeps the sum and the panes' names, and no share gets negative.\<close>

lemma sum_list_update_rat:
  "k < length xs \<Longrightarrow> sum_list (xs[k := x]) = sum_list xs - xs ! k + (x :: rat)"
  by (induction xs arbitrary: k) (auto split: nat.split)

lemma transfer_share_ok:
  assumes panes: "\<forall>p\<in>set panes. 0 \<le> pn_relativeSize p" and k: "k < length panes" "length panes \<noteq> 1"
  shows "map pn_paneId (transfer_share panes k r) = map pn_paneId panes"
    and "sum_list (map pn_relativeSize (transfer_share panes k r)) = sum_list (map pn_relativeSize panes)"
    and "\<forall>p\<in>set (transfer_share panes k r). 0 \<le> pn_relativeSize p"
proof -
  define j where "j = (if k = length panes - 1 then k - 1 else k + 1)"
  define pooled where "pooled = pn_relativeSize (panes ! k) + pn_relativeSize (panes ! j)"
  define next_share where "next_share = min (max r 0) pooled"
  have "2 \<le> length panes" using k by linarith
  then have j: "j < length panes" "j \<noteq> k" using k(1) unfolding j_def by presburger+
  have eq: "transfer_share panes k r = panes[k := (panes ! k)\<lparr>pn_relativeSize := next_share\<rparr>,
      j := (panes ! j)\<lparr>pn_relativeSize := pooled - next_share\<rparr>]"
    by (simp add: transfer_share_def Let_def j_def pooled_def next_share_def)
  have pos: "0 \<le> next_share" "next_share \<le> pooled"
    using panes k j by (auto simp: next_share_def pooled_def)
  show "map pn_paneId (transfer_share panes k r) = map pn_paneId panes"
  proof -
    have "(map pn_paneId panes)[m := pn_paneId (panes ! m)] = map pn_paneId panes" if "m < length panes" for m
      using that by (simp add: list_update_same_conv)
    with k j show ?thesis unfolding eq by (simp add: map_update)
  qed
  show "sum_list (map pn_relativeSize (transfer_share panes k r)) = sum_list (map pn_relativeSize panes)"
    unfolding eq using k j by (simp add: map_update sum_list_update_rat pooled_def)
  show "\<forall>p\<in>set (transfer_share panes k r). 0 \<le> pn_relativeSize p"
  proof
    fix p
    assume "p \<in> set (transfer_share panes k r)"
    then have "p \<in> insert ((panes ! j)\<lparr>pn_relativeSize := pooled - next_share\<rparr>)
        (insert ((panes ! k)\<lparr>pn_relativeSize := next_share\<rparr>) (set panes))"
      unfolding eq using set_update_subset_insert by (meson insert_mono subset_iff)
    then show "0 \<le> pn_relativeSize p" using panes pos by auto
  qed
qed

lemma resizePane_inv: "workspace_inv s \<Longrightarrow> workspace_inv (mutation_state (resizePane s t i r))"
  unfolding resizePane_def
proof (rule with_group_inv)
  fix g
  assume g: "Group g \<in> set (ws_tabs s)" "group_ok g" and inv: "workspace_inv s"
  have "group_ok (g\<lparr>g_panes := transfer_share (g_panes g) k r\<rparr>)"
    if k: "k < length (g_panes g)" "length (g_panes g) \<noteq> 1" for k
  proof -
    have pos: "\<forall>p\<in>set (g_panes g). 0 \<le> pn_relativeSize p" using g(2) by (simp add: group_ok_def)
    have "pn_paneId ` set (transfer_share (g_panes g) k r) = pn_paneId ` set (g_panes g)"
      by (metis list.set_map transfer_share_ok(1) [OF pos k])
    then show ?thesis using transfer_share_ok [OF pos k, of r] g(2) by (simp add: group_ok_def)
  qed
  then show "workspace_inv (mutation_state (case find_index (\<lambda>p. pn_paneId p = i) (g_panes g) of
       None \<Rightarrow> Refusal Unknown_pane s
     | Some index \<Rightarrow>
         if length (g_panes g) = 1 then Mutated s
         else Mutated (replaceTab s (Group (g\<lparr>g_panes := transfer_share (g_panes g) index r\<rparr>)))))"
    using inv g by (auto dest: find_index_SomeD intro!: replace_group_inv [OF inv g(1)] split: option.split)
qed

lemma resizePanes_inv: "workspace_inv s \<Longrightarrow> workspace_inv (mutation_state (resizePanes s t rs))"
  unfolding resizePanes_def
proof (rule with_group_inv)
  fix g
  assume g: "Group g \<in> set (ws_tabs s)" "group_ok g" and inv: "workspace_inv s"
  define panes where "panes = map2 (\<lambda>p r. p\<lparr>pn_relativeSize := max r 0\<rparr>) (g_panes g) rs"
  have "group_ok (g\<lparr>g_panes := normalizeToSumOne panes\<rparr>)" if "length rs = length (g_panes g)"
  proof -
    have ids: "map pn_paneId panes = map pn_paneId (g_panes g)"
      using that unfolding panes_def by (induction rule: list_induct2) auto
    then have "pn_paneId ` set panes = pn_paneId ` set (g_panes g)" by (metis list.set_map)
    moreover have "panes \<noteq> []" using ids g(2) by (auto simp: group_ok_def)
    ultimately have "group_ok (g\<lparr>g_panes := normalizeToSumOne panes, g_activePaneId := g_activePaneId g\<rparr>)"
      using g(2) ids by (intro normalized_group_ok) (auto simp: group_ok_def)
    then show ?thesis by simp
  qed
  then show "workspace_inv (mutation_state
     (if length rs \<noteq> length (g_panes g) then Refusal Unknown_pane s
      else let panes = map2 (\<lambda>p r. p\<lparr>pn_relativeSize := max r 0\<rparr>) (g_panes g) rs
           in Mutated (replaceTab s (Group (g\<lparr>g_panes := normalizeToSumOne panes\<rparr>)))))"
    using inv g by (auto simp: panes_def intro!: replace_group_inv [OF inv g(1)])
qed

lemma without_pane_ok:
  assumes g: "group_ok g" and k: "k < length (g_panes g)" "pn_paneId (g_panes g ! k) = i" "length (g_panes g) \<noteq> 1"
  shows "group_ok (without_pane g i k)"
proof -
  define panes where "panes = filter (\<lambda>p. pn_paneId p \<noteq> i) (g_panes g)"
  have split: "g_panes g = take k (g_panes g) @ g_panes g ! k # drop (Suc k) (g_panes g)"
    using k(1) by (rule id_take_nth_drop)
  have dist: "distinct (map pn_paneId (g_panes g))" using g by (simp add: group_ok_def)
  have eq: "panes = take k (g_panes g) @ drop (Suc k) (g_panes g)"
  proof -
    have "distinct (map pn_paneId (take k (g_panes g) @ g_panes g ! k # drop (Suc k) (g_panes g)))"
      using dist split by simp
    then have "i \<notin> pn_paneId ` set (take k (g_panes g))" "i \<notin> pn_paneId ` set (drop (Suc k) (g_panes g))"
      using k(2) by auto
    then have "filter (\<lambda>p. pn_paneId p \<noteq> i) (take k (g_panes g)) = take k (g_panes g)"
      "filter (\<lambda>p. pn_paneId p \<noteq> i) (drop (Suc k) (g_panes g)) = drop (Suc k) (g_panes g)"
      by (auto intro!: filter_True)
    then show ?thesis unfolding panes_def using k(2) by (subst split) simp
  qed
  have len: "length panes = length (g_panes g) - 1" using k(1) unfolding eq by simp
  have ne: "panes \<noteq> []" using len k(1,3) by auto
  have d: "distinct (map pn_paneId panes)" using dist by (simp add: panes_def distinct_map_filter)
  define active where "active = (if g_activePaneId g = i
                    then (case or_else_option (map_option pn_paneId (nth_opt panes (k - 1)))
                                 (map_option pn_paneId (nth_opt panes 0)) of
                            None \<Rightarrow> [] | Some p \<Rightarrow> p)
                    else g_activePaneId g)"
  have "active \<in> pn_paneId ` set panes"
  proof (cases "g_activePaneId g = i")
    case True
    then have "active = pn_paneId (panes ! (k - 1))"
      using ne k(1) len by (auto simp: active_def nth_opt_def or_else_option_def)
    moreover have "k - 1 < length panes" using len k by linarith
    ultimately show ?thesis by simp
  next
    case False
    then show ?thesis using g by (auto simp: active_def group_ok_def panes_def)
  qed
  then have "group_ok (g\<lparr>g_panes := normalizeToSumOne panes, g_activePaneId := active\<rparr>)"
    by (rule normalized_group_ok [OF ne d])
  moreover have "without_pane g i k = g\<lparr>g_panes := normalizeToSumOne panes, g_activePaneId := active\<rparr>"
    unfolding without_pane_def Let_def panes_def active_def by (rule refl)
  ultimately show ?thesis by simp
qed

lemma closePane_inv: "workspace_inv s \<Longrightarrow> workspace_inv (mutation_state (closePane s t i))"
  unfolding closePane_def
proof (rule with_group_inv)
  fix g
  assume g: "Group g \<in> set (ws_tabs s)" "group_ok g" and inv: "workspace_inv s"
  have id: "g_tabId (without_pane g i k) = g_tabId g" for k by (simp add: without_pane_def Let_def)
  show "workspace_inv (mutation_state (case find_index (\<lambda>p. pn_paneId p = i) (g_panes g) of
       None \<Rightarrow> Refusal Unknown_pane s
     | Some index \<Rightarrow>
         if length (g_panes g) = 1 then Refusal Last_pane s
         else Mutated (replaceTab s (Group (without_pane g i index)))))"
    using inv g id by (auto dest!: find_index_SomeD intro!: replace_group_inv [OF inv g(1)] without_pane_ok split: option.split)
qed

lemma setActivePane_inv: "workspace_inv s \<Longrightarrow> workspace_inv (mutation_state (setActivePane s t i))"
  unfolding setActivePane_def
  by (rule with_group_inv) (auto simp: list_ex_iff group_ok_def intro!: replace_group_inv)

lemma setGroupOrientation_inv: "workspace_inv s \<Longrightarrow> workspace_inv (mutation_state (setGroupOrientation s t ori))"
  unfolding setGroupOrientation_def
  by (rule with_group_inv) (auto simp: group_ok_def intro!: replace_group_inv)

lemma setPaneDisplayCwd_inv:
  assumes inv: "workspace_inv s"
  shows "workspace_inv (mutation_state (setPaneDisplayCwd s i cwd))"
proof -
  have "group_ok (g\<lparr>g_panes := map (\<lambda>p. if pn_terminalId p = i then p\<lparr>pn_displayCwd := Some cwd\<rparr> else p) (g_panes g)\<rparr>)"
    if "group_ok g" for g
    by (rule group_ok_panes [OF that]) (simp_all add: comp_def if_distrib cong: if_cong)
  then show ?thesis
    using inv group_ok_of_inv [OF inv]
    by (auto simp: setPaneDisplayCwd_def intro!: replace_group_inv [OF inv] dest!: find_Some_iff
        split: option.split workspace_tab.split)
qed

lemma pinTab_inv:
  assumes inv: "workspace_inv s"
  shows "workspace_inv (mutation_state (pinTab s t))"
proof (cases "find_tab s t")
  case (Some tab)
  then have mem: "tab \<in> set (ws_tabs s)" using find_tab_SomeD by blast
  show ?thesis
  proof (cases tab)
    case (File f)
    have "workspace_inv (replaceTab s (File (f\<lparr>f_preview := Some False\<rparr>)))"
      by (rule replaceTab_inv [OF inv mem]) (use File in auto)
    then show ?thesis using Some File inv by (simp add: pinTab_def)
  qed (use Some inv in \<open>simp add: pinTab_def\<close>)
qed (use inv in \<open>simp add: pinTab_def\<close>)

lemma with_title_simps [simp]:
  "tab_id (with_title tab x) = tab_id tab" "isGroup (with_title tab x) = isGroup tab"
  "isPreviewFileTab (with_title tab x) = isPreviewFileTab tab" "open_paths [with_title tab x] = open_paths [tab]"
  by (cases tab; simp)+

lemma setTabTitle_inv:
  assumes inv: "workspace_inv s"
  shows "workspace_inv (mutation_state (setTabTitle s t title))"
proof (cases "find_tab s t")
  case (Some tab)
  then have tab: "tab \<in> set (ws_tabs s)" using find_tab_SomeD by blast
  have "workspace_inv (replaceTab s (with_title tab x))" for x
  proof (rule replaceTab_inv [OF inv tab])
    fix g
    assume "with_title tab x = Group g"
    then show "group_ok g" using tab group_ok_of_inv [OF inv] by (cases tab) (auto simp: group_ok_def)
  qed simp_all
  then show ?thesis using Some inv by (simp add: setTabTitle_def Let_def)
qed (use inv in \<open>simp add: setTabTitle_def\<close>)

lemma selectTab_inv: "workspace_inv s \<Longrightarrow> workspace_inv (mutation_state (selectTab s t))"
  by (auto simp: selectTab_def workspace_inv_def list_ex_iff intro!: selection_of_member)

lemma closeTab_inv:
  assumes inv: "workspace_inv s"
  shows "workspace_inv (mutation_state (closeTab s t))"
proof -
  have sub: "length (filter P (filter Q xs)) \<le> length (filter P xs)" for P Q and xs :: "'a list"
    by (induction xs) auto
  have paths: "distinct (open_paths tabs) \<Longrightarrow> distinct (open_paths (filter Q tabs))
      \<and> set (open_paths (filter Q tabs)) \<subseteq> set (open_paths tabs)" for Q tabs
  proof (induction tabs)
    case (Cons a tabs)
    then show ?case by (cases a) auto
  qed simp
  have "tabs_ok (filter (\<lambda>tab. tab_id tab \<noteq> t) (ws_tabs s))"
    using inv paths [of "ws_tabs s"] order_trans [OF sub]
    by (auto simp: workspace_inv_def tabs_ok_def distinct_map_filter)
  then show ?thesis
    using inv repairSelection_ok by (auto simp: closeTab_def Let_def workspace_inv_def split: option.split)
qed

lemma retargetFileTab_inv:
  assumes inv: "workspace_inv s"
    and free: "ft_relativePath to = path \<or> ft_relativePath to \<notin> set (open_paths (ws_tabs s))"
  shows "workspace_inv (mutation_state (retargetFileTab s path to))"
proof (cases "file_on s path")
  case (Some f)
  then have f: "File f \<in> set (ws_tabs s)" "f_relativePath f = path" using file_on_SomeD by auto
  have "workspace_inv (replaceTab s (File (f\<lparr>f_title := ft_title to, f_relativePath := ft_relativePath to,
      f_nodeId := ft_nodeId to\<rparr>)))"
    by (rule replaceTab_inv [OF inv f(1)]) (use f free in auto)
  then show ?thesis using Some inv by (simp add: retargetFileTab_def)
qed (use inv in \<open>simp add: retargetFileTab_def\<close>)

lemma previewFileTab_SomeD:
  "previewFileTab s = Some f \<Longrightarrow> File f \<in> set (ws_tabs s) \<and> f_preview f = Some True"
proof -
  assume "previewFileTab s = Some f"
  then obtain t where t: "find isPreviewFileTab (ws_tabs s) = Some t" "as_file t = Some f"
    by (auto simp: previewFileTab_def bind_eq_Some_conv)
  then show ?thesis using find_Some_iff [OF t(1)] by (cases t) auto
qed

lemma previewFileTab_None: "previewFileTab s = None \<longleftrightarrow> filter isPreviewFileTab (ws_tabs s) = []"
proof -
  have "find isPreviewFileTab (ws_tabs s) = Some t \<Longrightarrow> as_file t \<noteq> None" for t
    by (cases t) (auto dest: find_Some_iff)
  then show ?thesis unfolding preview_none previewFileTab_def by (cases "find isPreviewFileTab (ws_tabs s)") auto
qed

lemma addFileTab_existing_inv:
  assumes inv: "workspace_inv s" and f: "File f \<in> set (ws_tabs s)"
    and g: "f_tabId g = f_tabId f" "f_relativePath g = f_relativePath f" "f_preview g = Some True \<Longrightarrow> f_preview f = Some True"
  shows "workspace_inv ((replaceTab s (File g))\<lparr>ws_activeTabId := Some (f_tabId f)\<rparr>)"
proof -
  have rep: "workspace_inv (replaceTab s (File g))"
    by (rule replaceTab_inv [OF inv f]) (use g in auto)
  have "File g \<in> set (ws_tabs (replaceTab s (File g)))"
    using f g(1) by (force simp: replaceTab_def image_iff)
  then have "f_tabId f \<in> tab_id ` set (ws_tabs (replaceTab s (File g)))" using g(1) by force
  from selection_of_member [OF this] show ?thesis using rep by (simp add: workspace_inv_def)
qed

lemma addFileTab_inv:
  assumes inv: "workspace_inv s" and fresh: "f_tabId tab \<notin> tab_id ` set (ws_tabs s)"
  shows "workspace_inv (mutation_state (addFileTab s tab option))"
proof -
  define mode where "mode = (case option of None \<Rightarrow> Open_pinned | Some m \<Rightarrow> m)"
  show ?thesis
  proof (cases "file_on s (f_relativePath tab)")
    case (Some f)
    have f: "File f \<in> set (ws_tabs s)" using file_on_SomeD [OF Some] by simp
    then have "f_tabId f \<in> tab_id ` set (ws_tabs s)" by force
    from selection_of_member [OF this]
    have sel: "workspace_inv (s\<lparr>ws_activeTabId := Some (f_tabId f)\<rparr>)" using inv by (simp add: workspace_inv_def)
    have "workspace_inv ((replaceTab s (File (f\<lparr>f_nodeId := x\<rparr>)))\<lparr>ws_activeTabId := Some (f_tabId f)\<rparr>)"
      "workspace_inv ((replaceTab s (File (f\<lparr>f_nodeId := x, f_preview := Some False\<rparr>)))\<lparr>ws_activeTabId := Some (f_tabId f)\<rparr>)"
      "workspace_inv ((replaceTab s (File (f\<lparr>f_preview := Some False\<rparr>)))\<lparr>ws_activeTabId := Some (f_tabId f)\<rparr>)" for x
      by (rule addFileTab_existing_inv [OF inv f]; simp)+
    then show ?thesis using Some sel by (simp add: addFileTab_def Let_def)
  next
    case None
    define opened where "opened = tab\<lparr>f_preview := Some (mode = Open_preview)\<rparr>"
    have path: "f_relativePath opened \<notin> set (open_paths (ws_tabs s))"
      using file_on_None [OF None] by (simp add: opened_def)
    show ?thesis
    proof (cases "if mode = Open_preview then previewFileTab s else None")
      case (Some f)
      then have f: "File f \<in> set (ws_tabs s)" "f_preview f = Some True"
        using previewFileTab_SomeD by (auto split: if_splits)
      obtain xs ys where s: "ws_tabs s = xs @ File f # ys" using f(1) by (rule tab_split)
      have ok: "tabs_ok (xs @ File f # ys)" using inv s by (simp add: workspace_inv_def)
      have new: "map (\<lambda>c. if tab_id c = f_tabId f then File opened else c) (ws_tabs s) = xs @ File opened # ys"
        using replace_split [of xs "File f" ys "File opened"] ok by (simp add: s tabs_ok_def)
      have "tabs_ok (xs @ File opened # ys)"
        using ok f(2) path fresh unfolding s by (auto simp: tabs_ok_def opened_def split: if_splits)
      then have "workspace_inv (repairSelection (s\<lparr>ws_tabs := xs @ File opened # ys, ws_activeTabId := Some (f_tabId opened)\<rparr>))"
        using repairSelection_ok by (simp add: workspace_inv_def)
      then show ?thesis
        using None Some unfolding addFileTab_def Let_def mode_def [symmetric] opened_def [symmetric]
        by (simp add: new)
    next
      case None_preview: None
      have "tabs_ok (ws_tabs s @ [File opened])" if "fileTabCount s < STUDIO_FILE_TABS_MAX"
        using inv that path fresh None_preview
        by (auto simp: workspace_inv_def tabs_ok_def fileTabCount_def opened_def previewFileTab_None split: if_splits)
      then have "fileTabCount s < STUDIO_FILE_TABS_MAX \<Longrightarrow>
          workspace_inv (repairSelection (s\<lparr>ws_tabs := ws_tabs s @ [File opened], ws_activeTabId := Some (f_tabId opened)\<rparr>))"
        using repairSelection_ok by (simp add: workspace_inv_def)
      then show ?thesis
        using None None_preview inv unfolding addFileTab_def Let_def mode_def [symmetric] opened_def [symmetric]
        by simp
    qed
  qed
qed

text \<open>The loop of a restore, once the strip holds no preview.\<close>

definition restore_ok :: "restore_state \<Rightarrow> bool" where
  "restore_ok r =
     (tabs_ok (rs_tabs r) \<and> set (rs_open r) = set (open_paths (rs_tabs r))
      \<and> rs_fileTabs r = length (open_paths (rs_tabs r))
      \<and> (filter isPreviewFileTab (rs_tabs r) \<noteq> [] \<longrightarrow> rs_previewTaken r))"

lemma insert_at_split: obtains xs ys where "tabs = xs @ ys" "insert_at n t tabs = xs @ t # ys"
  using that [of "take n tabs" "drop n tabs"] by (simp add: insert_at_def)

lemma restore_loop_ok:
  assumes "restore_ok r" "distinct (map rf_tabId entries)"
    "\<forall>e\<in>set entries. rf_tabId e \<notin> tab_id ` set (rs_tabs r)"
  shows "tabs_ok (rs_tabs (restore_loop entries r))"
  using assms
proof (induction entries r rule: restore_loop.induct)
  case (1 r)
  then show ?case by (simp add: restore_ok_def)
next
  case (2 entry entries r)
  show ?case
  proof (cases "rs_fileTabs r \<ge> STUDIO_FILE_TABS_MAX \<or> ft_relativePath entry \<in> set (rs_open r)")
    case True
    then show ?thesis using 2 by (auto simp: restore_ok_def)
  next
    case False
    define preview where "preview = (\<not> rf_pinned entry \<and> \<not> rs_previewTaken r)"
    define tab where "tab = \<lparr>f_tabId = rf_tabId entry, f_title = ft_title entry, f_relativePath = ft_relativePath entry,
                   f_nodeId = ft_nodeId entry, f_dirty = False, f_preview = Some preview\<rparr>"
    define n where "n = nat (min (max (rf_position entry) 0) (int (length (rs_tabs r))))"
    define r' where "r' = \<lparr>rs_open = ft_relativePath entry # rs_open r,
              rs_tabs = insert_at n (File tab) (rs_tabs r), rs_fileTabs = rs_fileTabs r + 1,
              rs_previewTaken = (rs_previewTaken r \<or> preview),
              rs_activeTabId = (if rf_active entry \<and> rs_activeTabId r = None then Some (rf_tabId entry)
                                else rs_activeTabId r)\<rparr>"
    have step: "restore_loop (entry # entries) r = restore_loop entries r'"
      using False by (simp add: Let_def r'_def tab_def preview_def n_def)
    obtain xs ys where xs: "rs_tabs r = xs @ ys" "insert_at n (File tab) (rs_tabs r) = xs @ File tab # ys"
      by (rule insert_at_split)
    have ok: "restore_ok r'"
      using 2(3-5) False xs unfolding restore_ok_def r'_def
      by (auto simp: tabs_ok_def tab_def preview_def length_open_paths [symmetric])
    have ids: "tab_id ` set (rs_tabs r') = insert (rf_tabId entry) (tab_id ` set (rs_tabs r))"
      using xs by (auto simp: r'_def tab_def)
    have "\<forall>e\<in>set entries. rf_tabId e \<noteq> rf_tabId entry" using 2(4) by (auto simp: image_iff)
    then have fresh: "\<forall>e\<in>set entries. rf_tabId e \<notin> tab_id ` set (rs_tabs r')" using 2(5) by (simp add: ids)
    have "tabs_ok (rs_tabs (restore_loop entries r'))"
      unfolding r'_def n_def tab_def preview_def
      by (rule 2(2)) (use False 2(4) ok fresh in \<open>auto simp: r'_def n_def tab_def preview_def\<close>)
    then show ?thesis by (simp only: step)
  qed
qed

end
