(* ===== verification/WorkspaceRuns.thy ===== *)
theory WorkspaceRuns
  imports Workspace
begin

text \<open>
  Runs of the workspace: what any sequence of its operations keeps, how a close moves the
  selection, and that both projections onto persisted state (\<open>toPersistedLayout\<close> with
  \<open>fromSnapshot\<close>, \<open>toPersistedFileTabs\<close> with \<open>restoreFileTabs\<close>) bring the strip back.
\<close>

section \<open>Operations as steps\<close>

datatype workspace_op =
    Op_add_group terminal_group
  | Op_add_file file_tab "file_open_mode option"
  | Op_pin string
  | Op_select string
  | Op_close string
  | Op_add_pane string workspace_pane
  | Op_resize_pane string string rat
  | Op_resize_panes string "rat list"
  | Op_close_pane string string
  | Op_activate_pane string string
  | Op_display_cwd string string
  | Op_orientation string orientation
  | Op_title string string
  | Op_retarget string file_tab_target
  | Op_restore "restored_file_tab list"

fun workspace_mutate :: "workspace_state \<Rightarrow> workspace_op \<Rightarrow> workspace_mutation" where
  "workspace_mutate s (Op_add_group g) = addTerminalGroup s g"
| "workspace_mutate s (Op_add_file f mode) = addFileTab s f mode"
| "workspace_mutate s (Op_pin t) = pinTab s t"
| "workspace_mutate s (Op_select t) = selectTab s t"
| "workspace_mutate s (Op_close t) = closeTab s t"
| "workspace_mutate s (Op_add_pane t p) = addPane s t p"
| "workspace_mutate s (Op_resize_pane t p r) = resizePane s t p r"
| "workspace_mutate s (Op_resize_panes t rs) = resizePanes s t rs"
| "workspace_mutate s (Op_close_pane t p) = closePane s t p"
| "workspace_mutate s (Op_activate_pane t p) = setActivePane s t p"
| "workspace_mutate s (Op_display_cwd i cwd) = setPaneDisplayCwd s i cwd"
| "workspace_mutate s (Op_orientation t ori) = setGroupOrientation s t ori"
| "workspace_mutate s (Op_title t title) = setTabTitle s t title"
| "workspace_mutate s (Op_retarget path to) = retargetFileTab s path to"
| "workspace_mutate s (Op_restore entries) = Mutated (restoreFileTabs s entries)"

text \<open>
  What the controller gives the model: fresh ids for what it opens, a group it built whole, a
  rename onto a path no other tab holds, and a restore into a strip without a preview.
\<close>

fun op_allowed :: "workspace_state \<Rightarrow> workspace_op \<Rightarrow> bool" where
  "op_allowed s (Op_add_group g) = (group_ok g \<and> g_tabId g \<notin> tab_id ` set (ws_tabs s))"
| "op_allowed s (Op_add_file f mode) = (f_tabId f \<notin> tab_id ` set (ws_tabs s))"
| "op_allowed s (Op_add_pane t p) =
     list_all (\<lambda>tab. tab_id tab = t \<longrightarrow> pn_paneId p \<notin> pn_paneId ` set (tab_panes tab)) (ws_tabs s)"
| "op_allowed s (Op_retarget path to) =
     (ft_relativePath to = path \<or> ft_relativePath to \<notin> set (open_paths (ws_tabs s)))"
| "op_allowed s (Op_restore entries) =
     (previewFileTab s = None \<and> distinct (map rf_tabId entries)
      \<and> list_all (\<lambda>e. rf_tabId e \<notin> tab_id ` set (ws_tabs s)) entries)"
| "op_allowed s _ = True"

definition workspace_next :: "workspace_state \<Rightarrow> workspace_op \<Rightarrow> workspace_state" where
  "workspace_next s a = mutation_state (workspace_mutate s a)"

text \<open>A run of the operations the controller may call; the others are skipped.\<close>

definition workspace_step :: "workspace_state \<Rightarrow> workspace_op \<Rightarrow> workspace_state" where
  "workspace_step s a = (if op_allowed s a then workspace_next s a else s)"

lemma restoreFileTabs_inv:
  assumes inv: "workspace_inv s" and fresh: "distinct (map rf_tabId entries)"
    "\<forall>e\<in>set entries. rf_tabId e \<notin> tab_id ` set (ws_tabs s)" and empty: "previewFileTab s = None"
  shows "workspace_inv (restoreFileTabs s entries)"
proof -
  define r where "r = \<lparr>rs_open = open_paths (ws_tabs s), rs_tabs = ws_tabs s,
                 rs_fileTabs = card (set (open_paths (ws_tabs s))), rs_previewTaken = False,
                 rs_activeTabId = None\<rparr>"
  have ok: "tabs_ok (ws_tabs s)" using inv by (simp add: workspace_inv_def)
  have "restore_ok r"
    using ok empty by (simp add: restore_ok_def r_def tabs_ok_def distinct_card previewFileTab_None)
  moreover have "distinct (map rf_tabId (sort_key rf_position entries))"
    using fresh(1) by (simp add: distinct_map)
  ultimately have "tabs_ok (rs_tabs (restore_loop (sort_key rf_position entries) r))"
    by (rule restore_loop_ok) (use fresh(2) in \<open>simp add: r_def\<close>)
  then show ?thesis
    using repairSelection_ok by (simp add: restoreFileTabs_def Let_def r_def [symmetric] workspace_inv_def)
qed

lemma workspace_next_inv:
  assumes inv: "workspace_inv s" and ok: "op_allowed s a"
  shows "workspace_inv (workspace_next s a)"
proof (cases a)
  case (Op_add_pane t p)
  have "pn_paneId p \<notin> pn_paneId ` set (g_panes g)" if "Group g \<in> set (ws_tabs s)" "g_tabId g = t" for g
    using ok that by (force simp: Op_add_pane list_all_iff)
  then show ?thesis using Op_add_pane inv by (simp add: workspace_next_def addPane_inv)
qed (use inv ok in \<open>auto simp: workspace_next_def list_all_iff intro: addTerminalGroup_inv addFileTab_inv pinTab_inv
      selectTab_inv closeTab_inv resizePane_inv resizePanes_inv closePane_inv setActivePane_inv
      setPaneDisplayCwd_inv setGroupOrientation_inv setTabTitle_inv retargetFileTab_inv restoreFileTabs_inv\<close>)

interpretation workspace: invariant_machine workspace_step workspace_inv
  by unfold_locales (simp add: workspace_step_def workspace_next_inv)

section \<open>What a restored layout starts with\<close>

definition layout_ok :: "workspace_layout \<Rightarrow> bool" where
  "layout_ok layout =
     (distinct (map gl_groupId (wl_groups layout)) \<and> length (wl_groups layout) \<le> WORKSPACE_TERMINAL_GROUPS_MAX)"

lemma restored_panes_ids:
  assumes "panes = map2 (\<lambda>index p. \<lparr>pn_paneId = base @ '':'' @ show_nat index, pn_terminalId = f p,
      pn_launchShellName = g p, pn_relativeSize = h p, pn_displayCwd = d p\<rparr>) [0..<length kept] kept"
  shows "map pn_paneId panes = map (\<lambda>k. base @ '':'' @ show_nat k) [0..<length kept]"
    and "distinct (map pn_paneId panes)" and "length panes = length kept"
proof -
  show len: "length panes = length kept" by (simp add: assms)
  show ids: "map pn_paneId panes = map (\<lambda>k. base @ '':'' @ show_nat k) [0..<length kept]"
    by (rule nth_equalityI) (simp_all add: assms)
  have "inj_on (\<lambda>k. base @ '':'' @ show_nat k) {0..<length kept}"
    by (auto intro!: inj_onI simp: show_nat_inject)
  then show "distinct (map pn_paneId panes)" unfolding ids by (simp add: distinct_map)
qed

lemma restored_group_ok:
  assumes "restored_group entries grp = Some g"
  shows "group_ok g \<and> g_tabId g = gl_groupId grp"
proof -
  define kept where "kept = filter (\<lambda>p. terminal_entry entries (pl_terminalId p) \<noteq> None) (gl_panes grp)"
  define panes where "panes = map2 (\<lambda>index p.
              \<lparr>pn_paneId = gl_groupId grp @ '':'' @ show_nat index,
               pn_terminalId = pl_terminalId p,
               pn_launchShellName = Some (case terminal_entry entries (pl_terminalId p) of
                                            None \<Rightarrow> [] | Some e \<Rightarrow> rt_shellName e),
               pn_relativeSize = pl_relativeSize p,
               pn_displayCwd = Option.bind (terminal_entry entries (pl_terminalId p)) rt_displayCwd\<rparr>)
            [0..<length kept] kept"
  define active where "active = min (gl_activePaneIndex grp) (length panes - 1)"
  have ne: "panes \<noteq> []" and g: "g_panes g = normalizeToSumOne panes" "g_activePaneId g = pn_paneId (panes ! active)"
    "g_tabId g = gl_groupId grp"
    using assms unfolding restored_group_def Let_def kept_def [symmetric] panes_def [symmetric] active_def [symmetric]
    by (auto split: if_splits)
  have "active < length panes" using ne by (cases panes) (auto simp: active_def)
  then have "group_ok (g\<lparr>g_panes := normalizeToSumOne panes, g_activePaneId := pn_paneId (panes ! active)\<rparr>)"
    using restored_panes_ids(2) [OF panes_def] ne by (intro normalized_group_ok) auto
  moreover have "g\<lparr>g_panes := normalizeToSumOne panes, g_activePaneId := pn_paneId (panes ! active)\<rparr> = g"
    using g by simp
  ultimately show ?thesis using g by simp
qed

lemma map_filter_ids:
  assumes "\<And>x y. f x = Some y \<Longrightarrow> k y = l x" "distinct (map l xs)"
  shows "distinct (map k (List.map_filter f xs)) \<and> k ` set (List.map_filter f xs) \<subseteq> l ` set xs
    \<and> length (List.map_filter f xs) \<le> length xs"
  using assms(2)
proof (induction xs)
  case (Cons x xs)
  then show ?case using assms(1) by (cases "f x") (auto simp: List.map_filter_simps image_iff dest!: assms(1))
qed (simp add: List.map_filter_simps)

lemma groups_only [simp]:
  "filter isGroup (map Group gs) = map Group gs" "filter (\<lambda>t. \<not> isGroup t) (map Group gs) = []"
  "filter isPreviewFileTab (map Group gs) = []" "open_paths (map Group gs) = []" "tab_id \<circ> Group = g_tabId"
  by (induction gs) (auto simp: fun_eq_iff)

lemma fromSnapshot_inv:
  assumes "layout_ok (wr_layout snapshot)"
  shows "workspace_inv (fromSnapshot snapshot)"
proof -
  define gs where "gs = List.map_filter (restored_group (wr_terminals snapshot)) (wl_groups (wr_layout snapshot))"
  have "distinct (map g_tabId gs) \<and> length gs \<le> length (wl_groups (wr_layout snapshot))"
    unfolding gs_def using assms map_filter_ids [of "restored_group (wr_terminals snapshot)" g_tabId gl_groupId]
      restored_group_ok by (auto simp: layout_ok_def)
  moreover have "group_ok g" if "g \<in> set gs" for g
    using that restored_group_ok by (auto simp: gs_def List.map_filter_def)
  ultimately have "tabs_ok (map Group gs)"
    using assms unfolding tabs_ok_def by (auto simp: layout_ok_def)
  then show ?thesis
    using repairSelection_ok by (simp add: fromSnapshot_def Let_def gs_def [symmetric] workspace_inv_def)
qed


definition sample_group :: terminal_group where
  "sample_group = \<lparr>g_tabId = ''g'', g_title = ''sh'', g_orientation = Horizontal,
     g_panes = [\<lparr>pn_paneId = ''g:0'', pn_terminalId = ''t'', pn_launchShellName = Some ''sh'',
                 pn_relativeSize = 1, pn_displayCwd = None\<rparr>], g_activePaneId = ''g:0''\<rparr>"

definition sample_file :: "string \<Rightarrow> string \<Rightarrow> file_tab" where
  "sample_file t path = \<lparr>f_tabId = t, f_title = path, f_relativePath = path, f_nodeId = ''n'', f_dirty = False,
     f_preview = None\<rparr>"

definition sample_snapshot :: workspace_restore where
  "sample_snapshot = \<lparr>wr_layout = \<lparr>wl_projectId = ''p'', wl_groups = [group_layout_of sample_group],
     wl_activeGroupIndex = 0\<rparr>, wr_terminals = [\<lparr>rt_terminalId = ''t'', rt_title = [], rt_shellName = ''sh'',
     rt_displayCwd = None\<rparr>]\<rparr>"


section \<open>Closing a tab\<close>

lemma find_index_append:
  "\<not> list_ex P xs \<Longrightarrow> P y \<Longrightarrow> find_index P (xs @ y # ys) = Some (length xs)"
  by (induction xs) auto

text \<open>
  Closing a tab removes exactly that tab. If it was the selected one, its left neighbour is
  selected, at the left end its right neighbour, and nothing once the strip is empty; closing
  any other tab leaves the selection alone.
\<close>

theorem close_selects_neighbour:
  assumes inv: "workspace_inv s" and tabs: "ws_tabs s = xs @ tab # ys"
  shows "closeTab s (tab_id tab) = Mutated (s\<lparr>ws_tabs := xs @ ys,
     ws_activeTabId :=
       (if ws_activeTabId s = Some (tab_id tab) then
          (if xs \<noteq> [] then Some (tab_id (last xs)) else if ys \<noteq> [] then Some (tab_id (hd ys)) else None)
        else ws_activeTabId s)\<rparr>)"
proof -
  define active where "active = (if ws_activeTabId s = Some (tab_id tab) then
          (if xs \<noteq> [] then Some (tab_id (last xs)) else if ys \<noteq> [] then Some (tab_id (hd ys)) else None)
        else ws_activeTabId s)"
  have dist: "distinct (map tab_id (xs @ tab # ys))" using inv tabs by (simp add: workspace_inv_def tabs_ok_def)
  have "tab_id tab \<notin> tab_id ` set xs" using dist by simp
  then have none: "\<not> list_ex (\<lambda>c. tab_id c = tab_id tab) xs" unfolding list_ex_iff by (metis imageI)
  have index: "find_index (\<lambda>c. tab_id c = tab_id tab) (ws_tabs s) = Some (length xs)"
    unfolding tabs by (rule find_index_append [OF none refl])
  have "filter (\<lambda>c. tab_id c \<noteq> tab_id tab) zs = zs" if "tab_id tab \<notin> tab_id ` set zs" for zs
    using that by (intro filter_True ballI) (metis imageI)
  then have rest: "filter (\<lambda>c. tab_id c \<noteq> tab_id tab) (ws_tabs s) = xs @ ys"
    using dist by (simp add: tabs)
  have sel: "(if ws_activeTabId s = Some (tab_id tab) then
       or_else_option (map_option tab_id (if length xs \<ge> 1 then nth_opt (xs @ ys) (length xs - 1) else None))
         (map_option tab_id (nth_opt (xs @ ys) (length xs)))
     else ws_activeTabId s) = active"
    by (cases xs rule: rev_cases; cases ys) (auto simp: active_def or_else_option_def nth_opt_def nth_append)
  have "selection_ok (s\<lparr>ws_tabs := xs @ ys, ws_activeTabId := active\<rparr>)"
    using inv unfolding workspace_inv_def selection_ok_def active_def tabs
    by (cases xs rule: rev_cases; cases ys) (auto split: option.splits)
  from repairSelection_id [OF this] show ?thesis
    by (simp only: closeTab_def index option.case Let_def rest sel active_def [symmetric])
qed

theorem close_selects_neighbour_witness:
  "closeTab \<lparr>ws_projectId = ''p'', ws_tabs = [Group sample_group, File (sample_file ''a'' ''x'')], ws_activeTabId = Some ''a''\<rparr> ''a''
   = Mutated \<lparr>ws_projectId = ''p'', ws_tabs = [Group sample_group], ws_activeTabId = Some ''g''\<rparr>"
  using close_selects_neighbour [of "\<lparr>ws_projectId = ''p'', ws_tabs = [Group sample_group, File (sample_file ''a'' ''x'')],
      ws_activeTabId = Some ''a''\<rparr>" "[Group sample_group]" "File (sample_file ''a'' ''x'')" "[]"]
  by (simp add: workspace_inv_def tabs_ok_def selection_ok_def group_ok_def sample_group_def sample_file_def
      WORKSPACE_TERMINAL_GROUPS_MAX_def STUDIO_FILE_TABS_MAX_def)

section \<open>The persisted layout comes back\<close>

lemma find_index_nth:
  "distinct (map f xs) \<Longrightarrow> k < length xs \<Longrightarrow> find_index (\<lambda>x. f x = f (xs ! k)) xs = Some k"
proof (induction xs arbitrary: k)
  case (Cons x xs)
  then show ?case by (cases k) (auto simp: image_iff)
qed simp

text \<open>A good group whose terminals all came back is restored with the layout it had.\<close>

lemma restored_group_layout:
  assumes g: "group_ok g" and alive: "\<forall>p\<in>set (g_panes g). terminal_entry entries (pn_terminalId p) \<noteq> None"
  obtains g' where "restored_group entries (group_layout_of g) = Some g'" "group_layout_of g' = group_layout_of g"
    "g_tabId g' = g_tabId g"
proof -
  define kept where "kept = gl_panes (group_layout_of g)"
  define panes where "panes = map2 (\<lambda>index p.
              \<lparr>pn_paneId = gl_groupId (group_layout_of g) @ '':'' @ show_nat index,
               pn_terminalId = pl_terminalId p,
               pn_launchShellName = Some (case terminal_entry entries (pl_terminalId p) of
                                            None \<Rightarrow> [] | Some e \<Rightarrow> rt_shellName e),
               pn_relativeSize = pl_relativeSize p,
               pn_displayCwd = Option.bind (terminal_entry entries (pl_terminalId p)) rt_displayCwd\<rparr>)
            [0..<length kept] kept"
  have all: "filter (\<lambda>p. terminal_entry entries (pl_terminalId p) \<noteq> None) (gl_panes (group_layout_of g)) = kept"
    unfolding kept_def using alive by (auto simp: group_layout_of_def intro!: filter_True)
  have len: "length panes = length (g_panes g)" by (simp add: panes_def kept_def group_layout_of_def)
  have layout: "map (\<lambda>p. \<lparr>pl_terminalId = pn_terminalId p, pl_relativeSize = pn_relativeSize p\<rparr>) panes = kept"
    by (rule nth_equalityI) (simp_all add: panes_def)
  have "map pn_relativeSize panes = map pl_relativeSize kept" by (subst layout [symmetric]) simp
  also have "\<dots> = map pn_relativeSize (g_panes g)" by (simp add: kept_def group_layout_of_def)
  finally have sizes: "map pn_relativeSize panes = map pn_relativeSize (g_panes g)" .
  have "group_ok (g\<lparr>g_panes := panes, g_activePaneId := pn_paneId (panes ! 0)\<rparr>)" for i
  proof -
    have "\<forall>p\<in>set panes. 0 \<le> pn_relativeSize p" using g by (intro sizes_nonneg [OF sizes]) (simp add: group_ok_def)
    moreover have "panes \<noteq> []" using len g by (auto simp: group_ok_def)
    ultimately show ?thesis using restored_panes_ids(2) [OF panes_def] sizes g by (simp add: group_ok_def)
  qed
  then have norm: "normalizeToSumOne panes = panes" by (intro normalize_id) (simp_all add: group_ok_def)
  obtain k where k: "find_index (\<lambda>p. pn_paneId p = g_activePaneId g) (g_panes g) = Some k"
    using g find_index_None [of "\<lambda>p. pn_paneId p = g_activePaneId g" "g_panes g"] by (force simp: group_ok_def)
  then have kl: "k < length panes" using find_index_SomeD len by fastforce
  have active: "gl_activePaneIndex (group_layout_of g) = k" using k by (simp add: group_layout_of_def or_zero_def)
  define title where "title = (case terminal_entry entries (pn_terminalId (panes ! 0)) of
                                 None \<Rightarrow> ''terminal'' | Some e \<Rightarrow> entry_title e)"
  define g' where "g' = \<lparr>g_tabId = g_tabId g, g_title = title, g_orientation = g_orientation g, g_panes = panes,
      g_activePaneId = pn_paneId (panes ! k)\<rparr>"
  have "restored_group entries (group_layout_of g) = Some g'"
  proof -
    have "min k (length panes - 1) = k" "panes \<noteq> []" using kl by auto
    then show ?thesis
      unfolding restored_group_def Let_def all panes_def [symmetric] norm active title_def [symmetric] g'_def
      by (simp add: group_layout_of_def)
  qed
  moreover have "group_layout_of g' = group_layout_of g"
    using find_index_nth [OF restored_panes_ids(2) [OF panes_def] kl] layout k
    by (simp add: group_layout_of_def g'_def or_zero_def kept_def)
  ultimately show ?thesis using that by (simp add: g'_def)
qed

lemma map_filter_restored:
  assumes "\<And>g. g \<in> set gs \<Longrightarrow> \<exists>g'. f (group_layout_of g) = Some g' \<and> group_layout_of g' = group_layout_of g
      \<and> g_tabId g' = g_tabId g"
  shows "map group_layout_of (List.map_filter f (map group_layout_of gs)) = map group_layout_of gs
    \<and> map g_tabId (List.map_filter f (map group_layout_of gs)) = map g_tabId gs"
  using assms
proof (induction gs)
  case (Cons g gs)
  then obtain g' where "f (group_layout_of g) = Some g'" "group_layout_of g' = group_layout_of g" "g_tabId g' = g_tabId g"
    by (meson list.set_intros(1))
  then show ?case using Cons by (simp add: List.map_filter_simps)
qed (simp add: List.map_filter_simps)

lemma groups_of_map [simp]: "groups_of (map Group gs) = gs"
  by (induction gs) auto

lemma groups_of_set: "g \<in> set (groups_of tabs) \<longleftrightarrow> Group g \<in> set tabs"
  by (induction tabs rule: groups_of.induct) auto

lemma groups_of_distinct: "distinct (map tab_id tabs) \<Longrightarrow> distinct (map g_tabId (groups_of tabs))"
proof (induction tabs rule: groups_of.induct)
  case (2 g tabs)
  have "g_tabId g \<noteq> g_tabId g'" if "Group g' \<in> set tabs" for g'
    using 2(2) that by (auto simp: image_iff dest: bspec [of _ _ "Group g'"])
  then have "g_tabId g \<notin> g_tabId ` set (groups_of tabs)" by (metis (no_types, lifting) groups_of_set imageE)
  with 2 show ?case by simp
qed simp_all

text \<open>The index of the selected group survives the restored selection.\<close>

lemma restored_selection:
  assumes "distinct (map g_tabId gs)" "k < length gs \<or> gs = [] \<and> k = 0"
  shows "or_zero (find_index (\<lambda>g. Some (g_tabId g) = ws_activeTabId (repairSelection
      \<lparr>ws_projectId = p, ws_tabs = map Group gs,
       ws_activeTabId = map_option tab_id (nth_opt (map Group gs) (min k (length gs - 1)))\<rparr>)) gs) = k"
proof (cases "gs = []")
  case False
  then have k: "k < length gs" using assms(2) by simp
  then have "nth_opt (map Group gs) (min k (length gs - 1)) = Some (Group (gs ! k))" by (simp add: nth_opt_def)
  moreover have "selection_ok \<lparr>ws_projectId = p, ws_tabs = map Group gs, ws_activeTabId = Some (g_tabId (gs ! k))\<rparr>"
    using k by (force simp: selection_ok_def)
  ultimately show ?thesis
    using find_index_nth [OF assms(1) k] by (simp add: repairSelection_id or_zero_def)
qed (use assms in \<open>simp add: or_zero_def\<close>)

text \<open>
  Saving and reopening the terminals of a workspace is lossless: when every terminal came
  back, the workspace rebuilt from the layout that was saved has the same groups, panes, shares,
  axes, active panes and selected group, so saving it again writes the same layout.
\<close>

theorem layout_round_trip:
  assumes inv: "workspace_inv s"
    and alive: "\<And>g p. Group g \<in> set (ws_tabs s) \<Longrightarrow> p \<in> set (g_panes g) \<Longrightarrow>
      terminal_entry entries (pn_terminalId p) \<noteq> None"
  shows "toPersistedLayout (fromSnapshot \<lparr>wr_layout = toPersistedLayout s, wr_terminals = entries\<rparr>)
    = toPersistedLayout s"
proof -
  define gs where "gs = groups_of (ws_tabs s)"
  define gs' where "gs' = List.map_filter (restored_group entries) (map group_layout_of gs)"
  define k where "k = or_zero (find_index (\<lambda>g. Some (g_tabId g) = ws_activeTabId s) gs)"
  have restored: "map group_layout_of gs' = map group_layout_of gs" "map g_tabId gs' = map g_tabId gs"
  proof -
    have "\<exists>g'. restored_group entries (group_layout_of g) = Some g' \<and> group_layout_of g' = group_layout_of g
        \<and> g_tabId g' = g_tabId g" if "g \<in> set gs" for g
    proof -
      have g: "Group g \<in> set (ws_tabs s)" using that by (simp add: gs_def groups_of_set)
      have "\<forall>p\<in>set (g_panes g). terminal_entry entries (pn_terminalId p) \<noteq> None" using alive [OF g] by blast
      then show ?thesis by (rule restored_group_layout [OF group_ok_of_inv [OF inv g]]) blast
    qed
    then show "map group_layout_of gs' = map group_layout_of gs" "map g_tabId gs' = map g_tabId gs"
      using map_filter_restored [of gs "restored_group entries"] by (simp_all add: gs'_def)
  qed
  have len: "length gs' = length gs" using restored(2) by (metis length_map)
  have dist: "distinct (map g_tabId gs')"
    using inv unfolding restored(2) gs_def by (auto simp: workspace_inv_def tabs_ok_def intro: groups_of_distinct)
  have "k < length gs' \<or> gs' = [] \<and> k = 0"
    unfolding k_def len length_0_conv [symmetric]
    by (cases gs) (auto simp: or_zero_def dest: find_index_SomeD split: option.split)
  note sel = restored_selection [OF dist this, of "ws_projectId s"]
  have layout: "toPersistedLayout s = \<lparr>wl_projectId = ws_projectId s, wl_groups = map group_layout_of gs, wl_activeGroupIndex = k\<rparr>"
    by (simp add: toPersistedLayout_def gs_def k_def)
  show ?thesis
    unfolding layout fromSnapshot_def Let_def workspace_restore.simps workspace_layout.simps gs'_def [symmetric]
    using sel by (simp add: toPersistedLayout_def restored(1))
qed

theorem layout_round_trip_witness:
  "toPersistedLayout (fromSnapshot \<lparr>wr_layout = toPersistedLayout
       \<lparr>ws_projectId = ''p'', ws_tabs = [File (sample_file ''a'' ''x''), Group sample_group], ws_activeTabId = Some ''g''\<rparr>,
       wr_terminals = wr_terminals sample_snapshot\<rparr>)
   = wr_layout sample_snapshot"
proof -
  have "terminal_entry (wr_terminals sample_snapshot) (pn_terminalId p) \<noteq> None"
    if "Group g \<in> set [File (sample_file ''a'' ''x''), Group sample_group]" "p \<in> set (g_panes g)" for g p
    using that by (auto simp: terminal_entry_def sample_snapshot_def sample_group_def)
  then show ?thesis
    using layout_round_trip [of "\<lparr>ws_projectId = ''p'', ws_tabs = [File (sample_file ''a'' ''x''), Group sample_group],
        ws_activeTabId = Some ''g''\<rparr>" "wr_terminals sample_snapshot"]
    by (auto simp: workspace_inv_def tabs_ok_def selection_ok_def group_ok_def sample_group_def sample_file_def
        WORKSPACE_TERMINAL_GROUPS_MAX_def STUDIO_FILE_TABS_MAX_def toPersistedLayout_def sample_snapshot_def or_zero_def)
qed

section \<open>The file tabs come back\<close>

text \<open>
  The controller re-resolves a persisted path and hands the model an entry with main's title and
  token; the path, the position, the pin and the selection are the record's.
\<close>

definition resolves :: "(persisted_file_tab \<Rightarrow> restored_file_tab) \<Rightarrow> bool" where
  "resolves f = (\<forall>p. ft_relativePath (f p) = pf_relativePath p \<and> rf_position (f p) = int (pf_position p)
                   \<and> rf_pinned (f p) = pf_pinned p \<and> rf_active (f p) = pf_active p)"

text \<open>A tab as the user knows it: the group itself, or the path of the file.\<close>

fun tab_key :: "workspace_tab \<Rightarrow> terminal_group + string" where
  "tab_key (Group g) = Inl g"
| "tab_key (File f) = Inr (f_relativePath f)"

text \<open>What is saved of the tabs from place \<open>k\<close> on.\<close>

definition saved_from :: "string option \<Rightarrow> nat \<Rightarrow> workspace_tab list \<Rightarrow> persisted_file_tab list" where
  "saved_from active k tabs = List.map_filter (\<lambda>(index, tab).
         map_option (\<lambda>f. \<lparr>pf_relativePath = f_relativePath f, pf_pinned = True, pf_position = index,
                          pf_active = (Some (f_tabId f) = active)\<rparr>) (as_file tab))
       (enumerate k tabs)"

lemma saved_from_simps [simp]:
  "saved_from active k [] = []" "saved_from active k (Group g # tabs) = saved_from active (Suc k) tabs"
  "saved_from active k (File f # tabs) = \<lparr>pf_relativePath = f_relativePath f, pf_pinned = True, pf_position = k,
      pf_active = (Some (f_tabId f) = active)\<rparr> # saved_from active (Suc k) tabs"
  by (simp_all add: saved_from_def List.map_filter_simps)

lemma saved_from_sorted:
  "sorted (map pf_position (saved_from active k tabs)) \<and> (\<forall>p\<in>set (saved_from active k tabs). k \<le> pf_position p)"
proof (induction tabs arbitrary: k)
  case (Cons t tabs)
  show ?case
  proof (cases t)
    case (Group g)
    then show ?thesis using Cons.IH [of "Suc k"] by (auto intro: Suc_leD)
  next
    case (File f)
    then show ?thesis using Cons.IH [of "Suc k"] by (auto intro: Suc_leD)
  qed
qed simp

text \<open>Inserting the saved tabs into the groups, in order, rebuilds the strip.\<close>

lemma restore_loop_rebuilds:
  assumes "resolves f" "rs_tabs r = pre @ filter isGroup tabs" "length pre = k"
    and "rs_fileTabs r + length (open_paths tabs) \<le> STUDIO_FILE_TABS_MAX"
    and "distinct (open_paths tabs)" "set (rs_open r) \<inter> set (open_paths tabs) = {}"
  shows "map tab_key (rs_tabs (restore_loop (map f (saved_from active k tabs)) r)) = map tab_key (pre @ tabs)"
  using assms
proof (induction tabs arbitrary: pre k r)
  case (Cons t tabs)
  show ?case
  proof (cases t)
    case (Group g)
    then show ?thesis
      using Cons.IH [OF Cons.prems(1), where pre = "pre @ [t]" and r = r and k = "Suc k"] Cons.prems by simp
  next
    case (File a)
    define p where "p = \<lparr>pf_relativePath = f_relativePath a, pf_pinned = True, pf_position = k,
      pf_active = (Some (f_tabId a) = active)\<rparr>"
    define preview where "preview = (\<not> rf_pinned (f p) \<and> \<not> rs_previewTaken r)"
    define tab where "tab = \<lparr>f_tabId = rf_tabId (f p), f_title = ft_title (f p), f_relativePath = ft_relativePath (f p),
                   f_nodeId = ft_nodeId (f p), f_dirty = False, f_preview = Some preview\<rparr>"
    define r' where "r' = \<lparr>rs_open = ft_relativePath (f p) # rs_open r,
              rs_tabs = insert_at (nat (min (max (rf_position (f p)) 0) (int (length (rs_tabs r))))) (File tab) (rs_tabs r),
              rs_fileTabs = rs_fileTabs r + 1, rs_previewTaken = (rs_previewTaken r \<or> preview),
              rs_activeTabId = (if rf_active (f p) \<and> rs_activeTabId r = None then Some (rf_tabId (f p))
                                else rs_activeTabId r)\<rparr>"
    have p: "ft_relativePath (f p) = f_relativePath a" "rf_position (f p) = int k"
      using Cons.prems(1) by (simp_all add: resolves_def p_def)
    have step: "restore_loop (map f (saved_from active k (t # tabs))) r = restore_loop (map f (saved_from active (Suc k) tabs)) r'"
      using Cons.prems(4,6) p(1) File
      by (simp add: p_def [symmetric] Let_def r'_def tab_def preview_def)
    have place: "rs_tabs r' = (pre @ [File tab]) @ filter isGroup tabs"
      using Cons.prems(2,3) File by (simp add: r'_def p(2) insert_at_def)
    have "map tab_key (rs_tabs (restore_loop (map f (saved_from active (Suc k) tabs)) r')) = map tab_key ((pre @ [File tab]) @ tabs)"
      by (rule Cons.IH [OF Cons.prems(1) place]) (use Cons.prems File p in \<open>auto simp: r'_def\<close>)
    then show ?thesis using p(1) unfolding step by (simp add: File tab_def)
  qed
qed simp

text \<open>
  Saving and reopening the file tabs rebuilds the strip: put back among the terminal groups
  that restored, every file tab stands where it stood, so the strip has the same tabs in the same
  order.
\<close>

theorem file_tabs_round_trip:
  assumes inv: "workspace_inv s" and res: "resolves f"
  shows "map tab_key (ws_tabs (restoreFileTabs (s\<lparr>ws_tabs := filter isGroup (ws_tabs s)\<rparr>) (map f (toPersistedFileTabs s))))
    = map tab_key (ws_tabs s)"
proof -
  define entries where "entries = map f (saved_from (ws_activeTabId s) 0 (ws_tabs s))"
  have ok: "tabs_ok (ws_tabs s)" using inv by (simp add: workspace_inv_def)
  have none: "open_paths (filter isGroup tabs) = []" for tabs
    by (induction tabs rule: groups_of.induct) auto
  have "map rf_position entries = map int (map pf_position (saved_from (ws_activeTabId s) 0 (ws_tabs s)))"
    using res by (simp add: entries_def resolves_def)
  moreover have "sorted (map int (map pf_position (saved_from (ws_activeTabId s) 0 (ws_tabs s))))"
    using saved_from_sorted [of "ws_activeTabId s" 0 "ws_tabs s"] by (intro sorted_map_mono [OF conjunct1]) (auto simp: mono_on_def)
  ultimately have "sorted (map rf_position entries)" by simp
  then have sorted: "sort_key rf_position entries = entries" by (rule sort_key_id_if_sorted)
  have saved: "toPersistedFileTabs s = saved_from (ws_activeTabId s) 0 (ws_tabs s)"
    by (simp add: toPersistedFileTabs_def saved_from_def)
  show ?thesis
    unfolding restoreFileTabs_def saved entries_def [symmetric] Let_def sorted repairSelection_tabs
    unfolding entries_def
    by (simp, rule restore_loop_rebuilds [where pre = "[]", simplified])
      (use ok res in \<open>simp_all add: none tabs_ok_def length_open_paths\<close>)
qed

definition sample_resolve :: "persisted_file_tab \<Rightarrow> restored_file_tab" where
  "sample_resolve p = \<lparr>ft_title = ''t'', ft_relativePath = pf_relativePath p, ft_nodeId = ''m'',
     rf_tabId = ''new:'' @ pf_relativePath p, rf_pinned = pf_pinned p, rf_position = int (pf_position p),
     rf_active = pf_active p\<rparr>"

theorem file_tabs_round_trip_witness:
  "map tab_key (ws_tabs (restoreFileTabs
       \<lparr>ws_projectId = ''p'', ws_tabs = [Group sample_group], ws_activeTabId = Some ''b''\<rparr>
       (map sample_resolve (toPersistedFileTabs \<lparr>ws_projectId = ''p'',
          ws_tabs = [File (sample_file ''a'' ''x''), Group sample_group, File (sample_file ''b'' ''y'')],
          ws_activeTabId = Some ''b''\<rparr>))))
   = [Inr ''x'', Inl sample_group, Inr ''y'']"
  using file_tabs_round_trip [of "\<lparr>ws_projectId = ''p'',
      ws_tabs = [File (sample_file ''a'' ''x''), Group sample_group, File (sample_file ''b'' ''y'')],
      ws_activeTabId = Some ''b''\<rparr>" sample_resolve]
  by (simp add: workspace_inv_def tabs_ok_def selection_ok_def group_ok_def sample_group_def sample_file_def
      WORKSPACE_TERMINAL_GROUPS_MAX_def STUDIO_FILE_TABS_MAX_def resolves_def sample_resolve_def)

section \<open>Where the invariant rests on the caller\<close>

text \<open>
  A rename onto a path another tab holds leaves two tabs on one path, which \<open>addFileTab\<close> is
  written to prevent: \<open>retargetFileTab\<close> does not look for a tab on the new path.
\<close>

theorem rename_onto_open_path:
  assumes inv: "workspace_inv s" and f: "File f \<in> set (ws_tabs s)" and g: "File g \<in> set (ws_tabs s)"
    and paths: "f_relativePath f \<noteq> f_relativePath g" "ft_relativePath to = f_relativePath g"
  shows "\<not> distinct (open_paths (ws_tabs (mutation_state (retargetFileTab s (f_relativePath f) to))))"
proof -
  obtain f' where on: "file_on s (f_relativePath f) = Some f'"
    using file_on_None [of s "f_relativePath f"] f by (cases "file_on s (f_relativePath f)") (auto simp: open_paths_iff)
  have f': "File f' \<in> set (ws_tabs s)" "f_relativePath f' = f_relativePath f" using file_on_SomeD [OF on] by auto
  define moved where "moved = f'\<lparr>f_title := ft_title to, f_relativePath := ft_relativePath to, f_nodeId := ft_nodeId to\<rparr>"
  have moved_id: "f_tabId moved = f_tabId f'" by (simp add: moved_def)
  obtain xs ys where s: "ws_tabs s = xs @ File f' # ys" using f'(1) by (rule tab_split)
  have "distinct (map tab_id (xs @ File f' # ys))" using inv s by (simp add: workspace_inv_def tabs_ok_def)
  then have "ws_tabs (replaceTab s (File moved)) = xs @ File moved # ys"
    using replace_split [of xs "File f'" ys "File moved"] moved_id by (simp add: replaceTab_def s)
  moreover have "f_relativePath g \<in> set (open_paths (xs @ ys))"
    using g paths(1) f'(2) unfolding s open_paths_iff by auto
  moreover have "retargetFileTab s (f_relativePath f) to = Mutated (replaceTab s (File moved))"
    using on paths f'(2) by (auto simp: retargetFileTab_def moved_def)
  ultimately show ?thesis using paths(2) by (auto simp: moved_def)
qed

text \<open>
  A restore into a strip that already shows a preview can add a second one: the loop starts with
  no preview taken, whatever the strip holds.
\<close>

theorem restore_adds_second_preview:
  assumes "\<not> rf_pinned e" "ft_relativePath e \<notin> set (open_paths (ws_tabs s))"
    and "card (set (open_paths (ws_tabs s))) < STUDIO_FILE_TABS_MAX"
  shows "length (filter isPreviewFileTab (ws_tabs (restoreFileTabs s [e])))
    = Suc (length (filter isPreviewFileTab (ws_tabs s)))"
proof -
  have "length (filter isPreviewFileTab (insert_at n (File f) tabs)) = Suc (length (filter isPreviewFileTab tabs))"
    if "f_preview f = Some True" for n f tabs
  proof -
    obtain xs ys where "tabs = xs @ ys" "insert_at n (File f) tabs = xs @ File f # ys" by (rule insert_at_split)
    with that show ?thesis by simp
  qed
  with assms show ?thesis by (simp add: restoreFileTabs_def Let_def)
qed

end
