(* ===== verification/ProjectGate.thy ===== *)
theory ProjectGate
  imports Prelude
begin

text \<open>
  The lifecycle gate of Studio projects (\<open>main/studio/project-lifecycle-gate.ts\<close>): the leases that
  count the work in flight in this process, the admission a delete closes, the drain it waits for,
  and the close hooks.

  The entries are mutable objects that a lease and a waiting drain reach in different ways (by
  project and by reference), so they live in a store: \<open>pg_objects\<close> by identity, \<open>pg_entries\<close> is the
  map of the module. A lease is its position in \<open>pg_leases\<close>, the leases this gate issued; a drain its
  position in \<open>pg_drains\<close>; a token is the number it was minted with. \<open>drainProjectLeases\<close> is its
  code up to the \<open>await\<close> and the code after it, with the edges that resolve the promise in between, so
  any other operation may run between the two. The counters are never negative (\<open>Math.max(0, n - 1)\<close>).
\<close>

section \<open>State\<close>

datatype lease_class =
    ExecutingCall | Dispatch | PendingApproval | Render | Watcher | Terminal | TerminalCreate
  | TerminalPersist | FileOperation

definition LEASE_CLASSES :: "lease_class list" where
  "LEASE_CLASSES = [ExecutingCall, Dispatch, PendingApproval, Render, Watcher, Terminal, TerminalCreate,
     TerminalPersist, FileOperation]"

definition DRAINED_LEASE_CLASSES :: "lease_class list" where
  "DRAINED_LEASE_CLASSES = [ExecutingCall, Dispatch, TerminalCreate, TerminalPersist, FileOperation]"

record project_entry =
  pe_admitting :: bool
  pe_counts :: "lease_class \<Rightarrow> nat"
  pe_drainWaiters :: "nat list"
  pe_token :: "nat option"

record project_lease =
  pl_projectId :: string
  pl_current :: lease_class
  pl_released :: bool

datatype drain_outcome = Drained | Remaining nat

text \<open>\<open>pd_settled\<close>: the promise the drain awaits is resolved; \<open>pd_outcome\<close>: the drain has returned.\<close>

record project_drain =
  pd_projectId :: string
  pd_entry :: nat
  pd_settled :: bool
  pd_outcome :: "drain_outcome option"

record project_gate =
  pg_objects :: "nat \<Rightarrow> project_entry"
  pg_nextObject :: nat
  pg_entries :: "string \<Rightarrow> nat option"
  pg_leases :: "project_lease list"
  pg_drains :: "project_drain list"
  pg_nextToken :: nat
  pg_closeHooks :: "nat list"
  pg_registrations :: "(nat \<times> bool) list"

definition fresh_entry :: project_entry where
  "fresh_entry = \<lparr>pe_admitting = True, pe_counts = (\<lambda>_. 0), pe_drainWaiters = [], pe_token = None\<rparr>"

definition new_gate :: project_gate where
  "new_gate = \<lparr>pg_objects = (\<lambda>_. fresh_entry), pg_nextObject = 0, pg_entries = (\<lambda>_. None), pg_leases = [],
     pg_drains = [], pg_nextToken = 0, pg_closeHooks = [], pg_registrations = []\<rparr>"

definition upd_entry :: "nat \<Rightarrow> (project_entry \<Rightarrow> project_entry) \<Rightarrow> project_gate \<Rightarrow> project_gate" where
  "upd_entry e f s = s\<lparr>pg_objects := (pg_objects s)(e := f (pg_objects s e))\<rparr>"

section \<open>Operations\<close>

definition entryFor :: "string \<Rightarrow> project_gate \<Rightarrow> nat \<times> project_gate" where
  "entryFor p s =
     (case pg_entries s p of
        Some existing \<Rightarrow> (existing, s)
      | None \<Rightarrow> (pg_nextObject s,
          s\<lparr>pg_objects := (pg_objects s)(pg_nextObject s := fresh_entry),
            pg_nextObject := pg_nextObject s + 1,
            pg_entries := (pg_entries s)(p := Some (pg_nextObject s))\<rparr>))"

definition held :: "project_entry \<Rightarrow> lease_class \<Rightarrow> nat" where
  "held entry c = pe_counts entry c"

definition drainedCount :: "project_entry \<Rightarrow> nat" where
  "drainedCount entry = sum_list (map (held entry) DRAINED_LEASE_CLASSES)"

definition collect :: "string \<Rightarrow> nat \<Rightarrow> project_gate \<Rightarrow> project_gate" where
  "collect p e s =
     (if \<not> pe_admitting (pg_objects s e) then s
      else if pe_drainWaiters (pg_objects s e) \<noteq> [] then s
      else if list_ex (\<lambda>c. pe_counts (pg_objects s e) c > 0) LEASE_CLASSES then s
      else s\<lparr>pg_entries := (pg_entries s)(p := None)\<rparr>)"

definition set_count :: "lease_class \<Rightarrow> nat \<Rightarrow> project_entry \<Rightarrow> project_entry" where
  "set_count c n entry = entry\<lparr>pe_counts := (pe_counts entry)(c := n)\<rparr>"

text \<open>The new lease, or \<open>None\<close> for the refusal \<open>project_deleting\<close>.\<close>

definition acquireProjectLease ::
    "string \<Rightarrow> lease_class \<Rightarrow> nat option \<Rightarrow> project_gate \<Rightarrow> project_gate \<times> nat option" where
  "acquireProjectLease p c token s =
     (let (e, s1) = entryFor p s;
          entry = pg_objects s1 e;
          administrative = token \<noteq> None \<and> pe_token entry \<noteq> None \<and> token = pe_token entry
      in if \<not> pe_admitting entry \<and> \<not> administrative then (collect p e s1, None)
         else let s2 = upd_entry e (set_count c (held entry c + 1)) s1
              in (s2\<lparr>pg_leases := pg_leases s2 @ [\<lparr>pl_projectId = p, pl_current = c, pl_released = False\<rparr>]\<rparr>,
                  Some (length (pg_leases s2))))"

definition decrement :: "nat \<Rightarrow> lease_class \<Rightarrow> project_gate \<Rightarrow> project_gate" where
  "decrement e c s = upd_entry e (set_count c (held (pg_objects s e) c - 1)) s"

definition settle_drain :: "nat \<Rightarrow> project_gate \<Rightarrow> project_gate" where
  "settle_drain k s = s\<lparr>pg_drains := (pg_drains s)[k := (pg_drains s ! k)\<lparr>pd_settled := True\<rparr>]\<rparr>"

definition wakeIfDrained :: "nat \<Rightarrow> project_gate \<Rightarrow> project_gate" where
  "wakeIfDrained e s =
     (if drainedCount (pg_objects s e) \<noteq> 0 then s
      else fold settle_drain (pe_drainWaiters (pg_objects s e)) s)"

definition upd_lease :: "nat \<Rightarrow> (project_lease \<Rightarrow> project_lease) \<Rightarrow> project_gate \<Rightarrow> project_gate" where
  "upd_lease i f s = s\<lparr>pg_leases := (pg_leases s)[i := f (pg_leases s ! i)]\<rparr>"

text \<open>The \<open>release\<close> of an issued lease.\<close>

definition release_lease :: "nat \<Rightarrow> project_gate \<Rightarrow> project_gate" where
  "release_lease i s =
     (if i \<ge> length (pg_leases s) then s
      else let handle = pg_leases s ! i
           in if pl_released handle then s
              else let s1 = upd_lease i (\<lambda>l. l\<lparr>pl_released := True\<rparr>) s;
                       p = pl_projectId handle
                   in case pg_entries s1 p of
                        None \<Rightarrow> s1
                      | Some owner \<Rightarrow> collect p owner (wakeIfDrained owner (decrement owner (pl_current handle) s1)))"

datatype reclassification = Reclassified | Unchanged | Already_released | Unknown_handle

definition reclassifyProjectLease ::
    "nat \<Rightarrow> lease_class \<Rightarrow> project_gate \<Rightarrow> project_gate \<times> reclassification" where
  "reclassifyProjectLease i c s =
     (if i \<ge> length (pg_leases s) then (s, Unknown_handle)
      else let handle = pg_leases s ! i
           in if pl_released handle then (s, Already_released)
              else if pl_current handle = c then (s, Unchanged)
              else case pg_entries s (pl_projectId handle) of
                     None \<Rightarrow> (s, Already_released)
                   | Some e \<Rightarrow>
                       let s1 = decrement e (pl_current handle) s;
                           s2 = upd_entry e (set_count c (held (pg_objects s1 e) c + 1)) s1;
                           s3 = upd_lease i (\<lambda>l. l\<lparr>pl_current := c\<rparr>) s2
                       in (wakeIfDrained e s3, Reclassified))"

definition closeProjectAdmission :: "string \<Rightarrow> project_gate \<Rightarrow> project_gate \<times> nat" where
  "closeProjectAdmission p s =
     (let (e, s1) = entryFor p s;
          s2 = upd_entry e (\<lambda>entry. entry\<lparr>pe_admitting := False\<rparr>) s1
      in case pe_token (pg_objects s2 e) of
           Some token \<Rightarrow> (s2, token)
         | None \<Rightarrow> ((upd_entry e (\<lambda>entry. entry\<lparr>pe_token := Some (pg_nextToken s2)\<rparr>) s2)
                        \<lparr>pg_nextToken := pg_nextToken s2 + 1\<rparr>, pg_nextToken s2))"

definition reopenProjectAdmission :: "string \<Rightarrow> project_gate \<Rightarrow> project_gate" where
  "reopenProjectAdmission p s =
     (case pg_entries s p of
        None \<Rightarrow> s
      | Some e \<Rightarrow> collect p e (upd_entry e (\<lambda>entry. entry\<lparr>pe_admitting := True, pe_token := None\<rparr>) s))"

definition isProjectAdmitting :: "string \<Rightarrow> project_gate \<Rightarrow> bool" where
  "isProjectAdmitting p s =
     (case pg_entries s p of None \<Rightarrow> True | Some e \<Rightarrow> pe_admitting (pg_objects s e))"

definition heldProjectLeases :: "string \<Rightarrow> lease_class \<Rightarrow> project_gate \<Rightarrow> nat" where
  "heldProjectLeases p c s =
     (case pg_entries s p of None \<Rightarrow> 0 | Some e \<Rightarrow> held (pg_objects s e) c)"

text \<open>\<open>drainProjectLeases\<close> up to its \<open>await\<close>.\<close>

definition drain_start :: "string \<Rightarrow> project_gate \<Rightarrow> project_gate" where
  "drain_start p s =
     (let (e, s1) = entryFor p s;
          k = length (pg_drains s1)
      in if drainedCount (pg_objects s1 e) = 0 then
           (collect p e s1)\<lparr>pg_drains := pg_drains s1 @
             [\<lparr>pd_projectId = p, pd_entry = e, pd_settled = True, pd_outcome = Some Drained\<rparr>]\<rparr>
         else (upd_entry e (\<lambda>entry. entry\<lparr>pe_drainWaiters := pe_drainWaiters entry @ [k]\<rparr>) s1)
             \<lparr>pg_drains := pg_drains s1 @
               [\<lparr>pd_projectId = p, pd_entry = e, pd_settled = False, pd_outcome = None\<rparr>]\<rparr>)"

text \<open>Its deadline.\<close>

definition drain_timeout :: "nat \<Rightarrow> project_gate \<Rightarrow> project_gate" where
  "drain_timeout k s =
     (if k < length (pg_drains s) \<and> pd_outcome (pg_drains s ! k) = None then settle_drain k s else s)"

text \<open>The rest of it, once its promise is resolved.\<close>

definition drain_resume :: "nat \<Rightarrow> project_gate \<Rightarrow> project_gate" where
  "drain_resume k s =
     (if k < length (pg_drains s) \<and> pd_outcome (pg_drains s ! k) = None \<and> pd_settled (pg_drains s ! k) then
        let d = pg_drains s ! k;
            s1 = upd_entry (pd_entry d) (\<lambda>entry. entry\<lparr>pe_drainWaiters := remove1 k (pe_drainWaiters entry)\<rparr>) s;
            remaining = drainedCount (pg_objects s1 (pd_entry d));
            s2 = collect (pd_projectId d) (pd_entry d) s1
        in s2\<lparr>pg_drains := (pg_drains s2)[k := d\<lparr>pd_outcome :=
                Some (if remaining > 0 then Remaining remaining else Drained)\<rparr>]\<rparr>
      else s)"

text \<open>The close hooks: a set of functions, and one idempotent unregister for each registration.\<close>

definition registerProjectCloseHook :: "nat \<Rightarrow> project_gate \<Rightarrow> project_gate" where
  "registerProjectCloseHook hook s =
     s\<lparr>pg_closeHooks := (if hook \<in> set (pg_closeHooks s) then pg_closeHooks s else pg_closeHooks s @ [hook]),
       pg_registrations := pg_registrations s @ [(hook, False)]\<rparr>"

definition unregister_hook :: "nat \<Rightarrow> project_gate \<Rightarrow> project_gate" where
  "unregister_hook r s =
     (if r < length (pg_registrations s) \<and> \<not> snd (pg_registrations s ! r) then
        s\<lparr>pg_registrations := (pg_registrations s)[r := (fst (pg_registrations s ! r), True)],
          pg_closeHooks := remove1 (fst (pg_registrations s ! r)) (pg_closeHooks s)\<rparr>
      else s)"

text \<open>The hooks that are called, each with whether it threw, which stops nothing.\<close>

definition closeProjectResources :: "(nat \<Rightarrow> bool) \<Rightarrow> project_gate \<Rightarrow> (nat \<times> bool) list" where
  "closeProjectResources throws s = map (\<lambda>hook. (hook, throws hook)) (pg_closeHooks s)"

datatype gate_op =
    Acquire string lease_class "nat option"
  | Release nat
  | Reclassify nat lease_class
  | Close_admission string
  | Reopen_admission string
  | Drain_start string
  | Drain_timeout nat
  | Drain_resume nat
  | Register_hook nat
  | Unregister_hook nat

fun gate_step :: "project_gate \<Rightarrow> gate_op \<Rightarrow> project_gate" where
  "gate_step s (Acquire p c token) = fst (acquireProjectLease p c token s)"
| "gate_step s (Release i) = release_lease i s"
| "gate_step s (Reclassify i c) = fst (reclassifyProjectLease i c s)"
| "gate_step s (Close_admission p) = fst (closeProjectAdmission p s)"
| "gate_step s (Reopen_admission p) = reopenProjectAdmission p s"
| "gate_step s (Drain_start p) = drain_start p s"
| "gate_step s (Drain_timeout k) = drain_timeout k s"
| "gate_step s (Drain_resume k) = drain_resume k s"
| "gate_step s (Register_hook h) = registerProjectCloseHook h s"
| "gate_step s (Unregister_hook r) = unregister_hook r s"

section \<open>The books of the gate\<close>

definition lease_holds :: "string \<Rightarrow> lease_class \<Rightarrow> project_lease \<Rightarrow> bool" where
  "lease_holds p c l = (\<not> pl_released l \<and> pl_projectId l = p \<and> pl_current l = c)"

text \<open>How many of the issued leases of a project are held in a class.\<close>

definition held_leases :: "string \<Rightarrow> lease_class \<Rightarrow> project_gate \<Rightarrow> nat" where
  "held_leases p c s = length (filter (lease_holds p c) (pg_leases s))"

definition drain_waits :: "string \<Rightarrow> project_drain \<Rightarrow> bool" where
  "drain_waits p d = (pd_outcome d = None \<and> pd_projectId d = p)"

definition waiting_drains :: "string \<Rightarrow> project_gate \<Rightarrow> nat list" where
  "waiting_drains p s = filter (\<lambda>k. drain_waits p (pg_drains s ! k)) [0..<length (pg_drains s)]"

text \<open>
  What an entry owes its project: its counters are the leases, its waiters the waiting drains, in
  the order they came; with nothing drained held, every waiter is woken; the token is there
  exactly while admission is closed. An entry is idle when nothing keeps it in the map.
\<close>

definition entry_ok :: "string \<Rightarrow> project_gate \<Rightarrow> nat \<Rightarrow> bool" where
  "entry_ok p s e =
     (e < pg_nextObject s
      \<and> (\<forall>c. pe_counts (pg_objects s e) c = held_leases p c s)
      \<and> pe_drainWaiters (pg_objects s e) = waiting_drains p s
      \<and> (drainedCount (pg_objects s e) = 0 \<longrightarrow> (\<forall>k\<in>set (waiting_drains p s). pd_settled (pg_drains s ! k)))
      \<and> (pe_token (pg_objects s e) = None \<longleftrightarrow> pe_admitting (pg_objects s e)))"

definition entry_idle :: "project_gate \<Rightarrow> nat \<Rightarrow> bool" where
  "entry_idle s e = (pe_admitting (pg_objects s e) \<and> pe_drainWaiters (pg_objects s e) = []
     \<and> (\<forall>c. pe_counts (pg_objects s e) c = 0))"

definition project_ok :: "string \<Rightarrow> project_gate \<Rightarrow> bool" where
  "project_ok p s =
     (case pg_entries s p of
        None \<Rightarrow> (\<forall>c. held_leases p c s = 0) \<and> waiting_drains p s = []
      | Some e \<Rightarrow> entry_ok p s e)"

text \<open>What the projects share: an entry belongs to one project, and a waiting drain holds the entry of its.\<close>

definition sharing_ok :: "project_gate \<Rightarrow> bool" where
  "sharing_ok s =
     ((\<forall>p q e. pg_entries s p = Some e \<and> pg_entries s q = Some e \<longrightarrow> p = q)
      \<and> (\<forall>d\<in>set (pg_drains s). pd_outcome d = None \<longrightarrow> pg_entries s (pd_projectId d) = Some (pd_entry d)))"

definition nothing_idle :: "string \<Rightarrow> project_gate \<Rightarrow> bool" where
  "nothing_idle p s = (\<forall>e. pg_entries s p = Some e \<longrightarrow> \<not> entry_idle s e)"

text \<open>Between \<open>entryFor\<close> and \<open>collect\<close> the entry of the project at work may be idle.\<close>

definition gate_ok :: "string set \<Rightarrow> project_gate \<Rightarrow> bool" where
  "gate_ok busy s = (sharing_ok s \<and> (\<forall>p. project_ok p s) \<and> (\<forall>p. p \<notin> busy \<longrightarrow> nothing_idle p s))"

abbreviation gate_inv :: "project_gate \<Rightarrow> bool" where
  "gate_inv s \<equiv> gate_ok {} s"

lemma LEASE_CLASSES_all [simp]: "set LEASE_CLASSES = UNIV"
proof -
  have "c \<in> set LEASE_CLASSES" for c by (cases c) (simp_all add: LEASE_CLASSES_def)
  then show ?thesis by blast
qed

lemma collect_eq: "collect p e s = (if entry_idle s e then s\<lparr>pg_entries := (pg_entries s)(p := None)\<rparr> else s)"
  by (auto simp: collect_def entry_idle_def list_ex_iff)

lemma new_gate_inv: "gate_inv new_gate"
  by (simp add: gate_ok_def sharing_ok_def project_ok_def nothing_idle_def new_gate_def held_leases_def
      waiting_drains_def)

section \<open>Every operation keeps them\<close>

lemma upd_entry_simps [simp]:
  "pg_objects (upd_entry e f s) e = f (pg_objects s e)"
  "x \<noteq> e \<Longrightarrow> pg_objects (upd_entry e f s) x = pg_objects s x"
  "pg_entries (upd_entry e f s) = pg_entries s" "pg_nextObject (upd_entry e f s) = pg_nextObject s"
  "pg_leases (upd_entry e f s) = pg_leases s" "pg_drains (upd_entry e f s) = pg_drains s"
  "pg_nextToken (upd_entry e f s) = pg_nextToken s"
  by (simp_all add: upd_entry_def)

lemma upd_lease_simps [simp]:
  "pg_objects (upd_lease i g s) = pg_objects s" "pg_entries (upd_lease i g s) = pg_entries s"
  "pg_nextObject (upd_lease i g s) = pg_nextObject s" "pg_drains (upd_lease i g s) = pg_drains s"
  "pg_nextToken (upd_lease i g s) = pg_nextToken s"
  by (simp_all add: upd_lease_def)

lemma held_upd_lease:
  "i < length (pg_leases s) \<Longrightarrow>
     held_leases q d (upd_lease i g s) + (if lease_holds q d (pg_leases s ! i) then 1 else 0)
       = held_leases q d s + (if lease_holds q d (g (pg_leases s ! i)) then 1 else 0)"
  using length_filter_update [of i "pg_leases s" "lease_holds q d" "g (pg_leases s ! i)"]
  by (simp add: held_leases_def upd_lease_def)

lemma held_same_leases: "pg_leases s' = pg_leases s \<Longrightarrow> held_leases p c s' = held_leases p c s"
  by (simp add: held_leases_def)

lemma waiting_same_drains: "pg_drains s' = pg_drains s \<Longrightarrow> waiting_drains p s' = waiting_drains p s"
  by (simp add: waiting_drains_def)

definition marked :: "nat list \<Rightarrow> project_drain list \<Rightarrow> project_drain list" where
  "marked ks ds = map (\<lambda>k. (ds ! k)\<lparr>pd_settled := pd_settled (ds ! k) \<or> k \<in> set ks\<rparr>) [0..<length ds]"

lemma fold_settle_drain: "fold settle_drain ks s = s\<lparr>pg_drains := marked ks (pg_drains s)\<rparr>"
proof (induction ks arbitrary: s)
  case Nil
  have "marked [] ds = ds" for ds by (rule nth_equalityI) (simp_all add: marked_def)
  then show ?case by simp
next
  case (Cons k ks)
  have "marked ks (ds[k := (ds ! k)\<lparr>pd_settled := True\<rparr>]) = marked (k # ks) ds" for ds
  proof (rule nth_equalityI)
    fix j
    assume "j < length (marked ks (ds[k := (ds ! k)\<lparr>pd_settled := True\<rparr>]))"
    then show "marked ks (ds[k := (ds ! k)\<lparr>pd_settled := True\<rparr>]) ! j = marked (k # ks) ds ! j"
      by (cases "j = k") (simp_all add: marked_def)
  qed (simp add: marked_def)
  then have "marked ks (pg_drains (settle_drain k s)) = marked (k # ks) (pg_drains s)"
    by (simp add: settle_drain_def)
  then show ?case using Cons.IH [of "settle_drain k s"] by (simp add: settle_drain_def)
qed

lemma length_marked [simp]: "length (marked ks ds) = length ds"
  by (simp add: marked_def)

lemma gate_entry: "gate_ok B s \<Longrightarrow> pg_entries s p = Some e \<Longrightarrow> entry_ok p s e"
  by (auto simp: gate_ok_def project_ok_def dest!: spec [where x = p])

lemma gate_absent:
  "gate_ok B s \<Longrightarrow> pg_entries s p = None \<Longrightarrow> held_leases p c s = 0 \<and> waiting_drains p s = []"
  by (auto simp: gate_ok_def project_ok_def dest!: spec [where x = p])

lemma gate_projectI:
  "(\<And>e. pg_entries s p = Some e \<Longrightarrow> entry_ok p s e) \<Longrightarrow>
   (pg_entries s p = None \<Longrightarrow> (\<forall>c. held_leases p c s = 0) \<and> waiting_drains p s = []) \<Longrightarrow> project_ok p s"
  by (simp add: project_ok_def split: option.split)

text \<open>A change of one project's entry, leases and drains is no business of the other projects.\<close>

lemma local_change:
  assumes ok: "gate_ok {p} s" and e: "pg_entries s p = Some e"
    and same: "pg_entries s' = pg_entries s" "pg_nextObject s' = pg_nextObject s"
    and objects: "\<And>x. x \<noteq> e \<Longrightarrow> pg_objects s' x = pg_objects s x"
    and leases: "\<And>q c. q \<noteq> p \<Longrightarrow> held_leases q c s' = held_leases q c s"
    and drains: "\<And>q. q \<noteq> p \<Longrightarrow> waiting_drains q s' = waiting_drains q s"
      "\<And>q k. q \<noteq> p \<Longrightarrow> k \<in> set (waiting_drains q s) \<Longrightarrow> pd_settled (pg_drains s ! k) \<Longrightarrow> pd_settled (pg_drains s' ! k)"
      "\<forall>d\<in>set (pg_drains s'). pd_outcome d = None \<longrightarrow> pg_entries s (pd_projectId d) = Some (pd_entry d)"
    and entry: "entry_ok p s' e"
  shows "gate_ok {p} s'"
proof -
  have other: "x \<noteq> e" if "pg_entries s q = Some x" "q \<noteq> p" for q x
    using ok e that by (auto simp: gate_ok_def sharing_ok_def)
  have "project_ok q s'" for q
  proof (cases "q = p")
    case True
    with e entry same show ?thesis by (simp add: project_ok_def)
  next
    case False
    show ?thesis
    proof (rule gate_projectI)
      fix x
      assume "pg_entries s' q = Some x"
      then have x: "pg_entries s q = Some x" by (simp add: same)
      with gate_entry [OF ok x] other [OF x False] show "entry_ok q s' x"
        using drains(1,2) [OF False] by (simp add: entry_ok_def objects same leases [OF False])
    next
      assume "pg_entries s' q = None"
      then show "(\<forall>c. held_leases q c s' = 0) \<and> waiting_drains q s' = []"
        using gate_absent [OF ok, of q] by (simp add: same leases [OF False] drains(1) [OF False])
    qed
  qed
  moreover have "nothing_idle q s'" if "q \<noteq> p" for q
    using ok that other same objects by (auto simp: gate_ok_def nothing_idle_def entry_idle_def)
  ultimately show ?thesis
    using ok same drains(3) by (simp add: gate_ok_def sharing_ok_def)
qed

lemma entryFor_ok:
  assumes ok: "gate_inv s" and f: "entryFor p s = (e, s1)"
  shows "gate_ok {p} s1" and "pg_entries s1 p = Some e" and "pg_leases s1 = pg_leases s"
    and "pg_drains s1 = pg_drains s" and "pg_nextToken s1 = pg_nextToken s"
    and "entry_ok p s1 e"
proof -
  have new: "gate_ok {p} s1 \<and> entry_ok p s1 e" if none: "pg_entries s p = None"
  proof -
    have p: "\<forall>c. held_leases p c s = 0" "waiting_drains p s = []"
      using gate_absent [OF ok none] by auto
    have s1: "s1 = s\<lparr>pg_objects := (pg_objects s)(pg_nextObject s := fresh_entry),
        pg_nextObject := pg_nextObject s + 1, pg_entries := (pg_entries s)(p := Some (pg_nextObject s))\<rparr>"
      and e: "e = pg_nextObject s" using f none by (auto simp: entryFor_def)
    have below: "x < pg_nextObject s" if "pg_entries s q = Some x" for q x
      using gate_entry [OF ok that] by (simp add: entry_ok_def)
    have entry: "entry_ok p s1 e"
      using p by (simp add: entry_ok_def s1 e fresh_entry_def held_leases_def waiting_drains_def)
    have "project_ok q s1" for q
    proof (cases "q = p")
      case True
      with entry show ?thesis by (simp add: project_ok_def s1 e)
    next
      case False
      have "entry_ok q s1 x" if x: "pg_entries s q = Some x" for x
        using gate_entry [OF ok x] below [OF x]
        by (simp add: entry_ok_def s1 held_leases_def waiting_drains_def)
      moreover have "(\<forall>c. held_leases q c s1 = 0) \<and> waiting_drains q s1 = []" if "pg_entries s q = None"
        using gate_absent [OF ok that] by (simp add: s1 held_leases_def waiting_drains_def)
      moreover have "pg_entries s1 q = pg_entries s q" using False by (simp add: s1)
      ultimately show ?thesis by (intro gate_projectI) simp_all
    qed
    moreover have "nothing_idle q s1" if "q \<noteq> p" for q
      using ok that below [of q] by (auto simp: gate_ok_def nothing_idle_def entry_idle_def s1)
    moreover have "sharing_ok s1"
    proof -
      have away: "pd_projectId d \<noteq> p" if "d \<in> set (pg_drains s)" "pd_outcome d = None" for d
        using ok none that by (auto simp: gate_ok_def sharing_ok_def)
      have "pg_entries s q \<noteq> Some (pg_nextObject s)" for q using below [of q] by blast
      then show ?thesis using ok away by (auto simp: gate_ok_def sharing_ok_def s1)
    qed
    ultimately show ?thesis using entry by (simp add: gate_ok_def)
  qed
  have old: "gate_ok {p} s1 \<and> entry_ok p s1 e" if some: "pg_entries s p = Some x" for x
    using ok f some gate_entry [OF ok some] by (simp add: entryFor_def gate_ok_def)
  show "gate_ok {p} s1" and "entry_ok p s1 e"
    using new old by (cases "pg_entries s p"; simp)+
  show "pg_entries s1 p = Some e" "pg_leases s1 = pg_leases s" "pg_drains s1 = pg_drains s" "pg_nextToken s1 = pg_nextToken s"
    using f by (auto simp: entryFor_def split: option.splits)
qed

lemma collect_ok:
  assumes ok: "gate_ok {p} s" and e: "pg_entries s p = Some e"
  shows "gate_inv (collect p e s)"
proof (cases "entry_idle s e")
  case False
  then have "nothing_idle p s" using e by (simp add: nothing_idle_def)
  then show ?thesis using ok False by (auto simp: collect_eq gate_ok_def)
next
  case idle: True
  let ?s = "s\<lparr>pg_entries := (pg_entries s)(p := None)\<rparr>"
  have entry: "entry_ok p s e" by (rule gate_entry [OF ok e])
  have none: "waiting_drains p s = []" "\<forall>c. held_leases p c s = 0"
    using entry idle by (auto simp: entry_ok_def entry_idle_def)
  have away: "pd_projectId d \<noteq> p" if "d \<in> set (pg_drains s)" "pd_outcome d = None" for d
  proof
    assume "pd_projectId d = p"
    moreover obtain k where "k < length (pg_drains s)" "pg_drains s ! k = d"
      using \<open>d \<in> set (pg_drains s)\<close> by (auto simp: in_set_conv_nth)
    ultimately have "k < length (pg_drains s)" "drain_waits p (pg_drains s ! k)"
      using \<open>pd_outcome d = None\<close> by (simp_all add: drain_waits_def)
    with none(1) show False by (auto simp: waiting_drains_def filter_empty_conv)
  qed
  have "project_ok q ?s" for q
  proof (cases "q = p")
    case True
    with none show ?thesis by (simp add: project_ok_def held_leases_def waiting_drains_def)
  next
    case False
    have "project_ok q s" using ok by (simp add: gate_ok_def)
    with False show ?thesis
      by (simp add: project_ok_def entry_ok_def held_leases_def waiting_drains_def split: option.splits)
  qed
  moreover have "sharing_ok ?s"
    using ok away by (auto simp: gate_ok_def sharing_ok_def)
  moreover have "nothing_idle q ?s" for q
    using ok by (cases "q = p") (auto simp: gate_ok_def nothing_idle_def entry_idle_def)
  ultimately show ?thesis using idle by (simp add: collect_eq gate_ok_def)
qed

text \<open>What an operation leaves of the projects' leases and waiting drains.\<close>

lemma held_frame [simp]:
  "held_leases p c (upd_entry e f s) = held_leases p c s"
  "held_leases p c (s\<lparr>pg_drains := ds\<rparr>) = held_leases p c s"
  "held_leases p c (s\<lparr>pg_nextToken := n\<rparr>) = held_leases p c s"
  "held_leases p c (upd_entry e f s\<lparr>pg_leases := pg_leases s @ [l]\<rparr>)
     = held_leases p c s + (if lease_holds p c l then 1 else 0)"
  by (simp_all add: held_leases_def)

lemma waiting_frame [simp]:
  "waiting_drains p (upd_entry e f s) = waiting_drains p s"
  "waiting_drains p (upd_lease i g s) = waiting_drains p s"
  "waiting_drains p (s\<lparr>pg_leases := ls\<rparr>) = waiting_drains p s"
  "waiting_drains p (s\<lparr>pg_nextToken := n\<rparr>) = waiting_drains p s"
  by (simp_all add: waiting_drains_def)

lemma waiting_snoc:
  "waiting_drains p (s\<lparr>pg_drains := pg_drains s @ [d]\<rparr>)
     = waiting_drains p s @ (if drain_waits p d then [length (pg_drains s)] else [])"
proof -
  have "filter (\<lambda>k. drain_waits p ((pg_drains s @ [d]) ! k)) [0..<length (pg_drains s)] = waiting_drains p s"
    unfolding waiting_drains_def by (rule filter_cong) (simp_all add: nth_append)
  then show ?thesis by (simp add: waiting_drains_def)
qed

lemma waiting_member: "k \<in> set (waiting_drains p s) \<longleftrightarrow> k < length (pg_drains s) \<and> drain_waits p (pg_drains s ! k)"
  by (auto simp: waiting_drains_def)

lemma waiting_update:
  assumes "\<And>q. drain_waits q d = drain_waits q (pg_drains s ! k)"
  shows "waiting_drains p (s\<lparr>pg_drains := (pg_drains s)[k := d]\<rparr>) = waiting_drains p s"
proof -
  have "drain_waits p ((pg_drains s)[k := d] ! x) = drain_waits p (pg_drains s ! x)" if "x < length (pg_drains s)" for x
    using assms that by (cases "x = k") simp_all
  then show ?thesis unfolding waiting_drains_def by (auto intro!: filter_cong)
qed

lemma waiting_marked [simp]: "waiting_drains p (s\<lparr>pg_drains := marked ks (pg_drains s)\<rparr>) = waiting_drains p s"
  unfolding waiting_drains_def by (rule filter_cong) (auto simp: marked_def drain_waits_def)

lemma wakeIfDrained_eq:
  "wakeIfDrained e s = (if drainedCount (pg_objects s e) \<noteq> 0 then s
     else s\<lparr>pg_drains := marked (pe_drainWaiters (pg_objects s e)) (pg_drains s)\<rparr>)"
  by (simp add: wakeIfDrained_def fold_settle_drain)

text \<open>The entry is right once its waiters are woken.\<close>

lemma wake_ok:
  assumes ok: "gate_ok {p} s" and e: "pg_entries s p = Some e"
    and same: "pg_entries s' = pg_entries s" "pg_nextObject s' = pg_nextObject s" "pg_drains s' = pg_drains s"
    and objects: "\<And>x. x \<noteq> e \<Longrightarrow> pg_objects s' x = pg_objects s x"
    and leases: "\<And>q c. q \<noteq> p \<Longrightarrow> held_leases q c s' = held_leases q c s"
    and counts: "\<And>c. pe_counts (pg_objects s' e) c = held_leases p c s'"
    and entry: "pe_drainWaiters (pg_objects s' e) = pe_drainWaiters (pg_objects s e)"
      "pe_token (pg_objects s' e) = pe_token (pg_objects s e)"
      "pe_admitting (pg_objects s' e) = pe_admitting (pg_objects s e)"
  shows "gate_ok {p} (wakeIfDrained e s')"
proof -
  have old: "entry_ok p s e" by (rule gate_entry [OF ok e])
  have waits: "waiting_drains q (wakeIfDrained e s') = waiting_drains q s" for q
    using waiting_same_drains [OF same(3)] by (simp add: wakeIfDrained_eq)
  have settled: "pd_settled (pg_drains (wakeIfDrained e s') ! k)"
    if "pd_settled (pg_drains s ! k)" "k < length (pg_drains s)" for k
    using that by (simp add: wakeIfDrained_eq same marked_def)
  show ?thesis
  proof (rule local_change [OF ok e])
    show "\<forall>d\<in>set (pg_drains (wakeIfDrained e s')). pd_outcome d = None \<longrightarrow>
        pg_entries s (pd_projectId d) = Some (pd_entry d)"
      using ok by (auto simp: gate_ok_def sharing_ok_def wakeIfDrained_eq same marked_def)
    show "entry_ok p (wakeIfDrained e s') e"
      using old counts entry waits
      by (auto simp: entry_ok_def wakeIfDrained_eq same marked_def waiting_member)
  qed (use waits settled in \<open>auto simp: wakeIfDrained_eq same objects leases waiting_member\<close>)
qed

lemma gate_inv_loose: "gate_inv s \<Longrightarrow> gate_ok {p} s"
  by (simp add: gate_ok_def)

lemma gate_tighten: "gate_ok {p} s \<Longrightarrow> nothing_idle p s \<Longrightarrow> gate_inv s"
  by (auto simp: gate_ok_def)

lemma set_count_simps [simp]:
  "pe_admitting (set_count c n en) = pe_admitting en" "pe_drainWaiters (set_count c n en) = pe_drainWaiters en"
  "pe_token (set_count c n en) = pe_token en"
  "pe_counts (set_count c n en) d = (if d = c then n else pe_counts en d)"
  by (simp_all add: set_count_def)

lemma wakeIfDrained_entries [simp]:
  "pg_entries (wakeIfDrained e s) = pg_entries s" "pg_objects (wakeIfDrained e s) = pg_objects s"
  "pg_leases (wakeIfDrained e s) = pg_leases s"
  by (simp_all add: wakeIfDrained_eq)

lemma drainedCount_zero: "drainedCount en = 0 \<longleftrightarrow> (\<forall>c\<in>set DRAINED_LEASE_CLASSES. pe_counts en c = 0)"
  by (auto simp: drainedCount_def held_def)

lemma acquire_inv:
  assumes "gate_inv s"
  shows "gate_inv (fst (acquireProjectLease p c token s))"
proof -
  obtain e s1 where f: "entryFor p s = (e, s1)" by (cases "entryFor p s")
  note f_ok = entryFor_ok [OF assms f]
  let ?l = "\<lparr>pl_projectId = p, pl_current = c, pl_released = False\<rparr>"
  let ?s2 = "upd_entry e (set_count c (held (pg_objects s1 e) c + 1)) s1"
  let ?s3 = "?s2\<lparr>pg_leases := pg_leases ?s2 @ [?l]\<rparr>"
  have entry: "entry_ok p s1 e" by (rule f_ok(6))
  have loose: "gate_ok {p} ?s3"
  proof (rule local_change [OF f_ok(1,2)])
    show "entry_ok p ?s3 e"
      using entry by (auto simp: entry_ok_def held_def lease_holds_def drainedCount_zero)
    show "\<forall>d\<in>set (pg_drains ?s3). pd_outcome d = None \<longrightarrow> pg_entries s1 (pd_projectId d) = Some (pd_entry d)"
      using f_ok(1) by (simp add: gate_ok_def sharing_ok_def)
  qed (simp_all add: lease_holds_def)
  have "pe_counts (pg_objects ?s3 e) c > 0" by (simp add: held_def)
  then have "\<not> entry_idle ?s3 e" unfolding entry_idle_def by (metis less_irrefl)
  then have "nothing_idle p ?s3" using f_ok(2) by (simp add: nothing_idle_def)
  with loose have "gate_inv ?s3" by (rule gate_tighten)
  then show ?thesis
    using collect_ok [OF f_ok(1,2)] by (simp add: acquireProjectLease_def f Let_def)
qed

lemma release_inv:
  assumes ok: "gate_inv s"
  shows "gate_inv (release_lease i s)"
proof (cases "i < length (pg_leases s) \<and> \<not> pl_released (pg_leases s ! i)")
  case False
  then show ?thesis using ok by (auto simp: release_lease_def Let_def)
next
  case True
  define l where "l = pg_leases s ! i"
  let ?p = "pl_projectId l"
  let ?s1 = "upd_lease i (\<lambda>l. l\<lparr>pl_released := True\<rparr>) s"
  have i: "i < length (pg_leases s)" "\<not> pl_released l" using True by (simp_all add: l_def)
  have held1: "held_leases q d ?s1 + (if lease_holds q d l then 1 else 0) = held_leases q d s" for q d
    using held_upd_lease [OF i(1), of q d "\<lambda>l. l\<lparr>pl_released := True\<rparr>"] by (simp add: l_def lease_holds_def)
  have "held_leases ?p (pl_current l) s \<noteq> 0" using held1 [of ?p "pl_current l"] i by (simp add: lease_holds_def)
  then obtain e where e: "pg_entries s ?p = Some e" using gate_absent [OF ok] by (metis option.exhaust)
  let ?s2 = "decrement e (pl_current l) ?s1"
  have "gate_ok {?p} (wakeIfDrained e ?s2)"
  proof (rule wake_ok [OF gate_inv_loose [OF ok] e])
    show "held_leases q c ?s2 = held_leases q c s" if "q \<noteq> ?p" for q c
      using held1 [of q c] that by (auto simp: decrement_def lease_holds_def)
    show "pe_counts (pg_objects ?s2 e) c = held_leases ?p c ?s2" for c
      using held1 [of ?p c] gate_entry [OF ok e] i
      by (auto simp: decrement_def held_def lease_holds_def entry_ok_def split: if_splits)
  qed (simp_all add: decrement_def)
  then have "gate_inv (collect ?p e (wakeIfDrained e ?s2))"
    by (rule collect_ok) (simp add: decrement_def e)
  then show ?thesis using i e by (simp add: release_lease_def l_def Let_def)
qed

lemma reclassify_inv:
  assumes ok: "gate_inv s"
  shows "gate_inv (fst (reclassifyProjectLease i c s))"
proof (cases "i < length (pg_leases s) \<and> \<not> pl_released (pg_leases s ! i) \<and> pl_current (pg_leases s ! i) \<noteq> c")
  case False
  then show ?thesis using ok by (auto simp: reclassifyProjectLease_def Let_def)
next
  case True
  define l where "l = pg_leases s ! i"
  let ?p = "pl_projectId l"
  have i: "i < length (pg_leases s)" "\<not> pl_released l" "pl_current l \<noteq> c" using True by (simp_all add: l_def)
  have held1: "held_leases q d s \<noteq> 0" if "lease_holds q d l" for q d
    using i that by (auto simp: held_leases_def filter_empty_conv l_def)
  have "held_leases ?p (pl_current l) s \<noteq> 0" using held1 i by (simp add: lease_holds_def)
  then obtain e where e: "pg_entries s ?p = Some e" using gate_absent [OF ok] by (metis option.exhaust)
  let ?s1 = "decrement e (pl_current l) s"
  let ?s2 = "upd_entry e (set_count c (held (pg_objects ?s1 e) c + 1)) ?s1"
  let ?s3 = "upd_lease i (\<lambda>l. l\<lparr>pl_current := c\<rparr>) ?s2"
  have held3: "held_leases q d ?s3 + (if lease_holds q d l then 1 else 0)
      = held_leases q d s + (if q = ?p \<and> d = c then 1 else 0)" for q d
    using held_upd_lease [of i ?s2 q d "\<lambda>l. l\<lparr>pl_current := c\<rparr>"] i
    by (auto simp: lease_holds_def decrement_def l_def)
  have loose: "gate_ok {?p} (wakeIfDrained e ?s3)"
  proof (rule wake_ok [OF gate_inv_loose [OF ok] e])
    show "held_leases q d ?s3 = held_leases q d s" if "q \<noteq> ?p" for q d
      using held3 [of q d] that by (simp add: lease_holds_def)
    show "pe_counts (pg_objects ?s3 e) d = held_leases ?p d ?s3" for d
      using held3 [of ?p d] gate_entry [OF ok e] i
      by (auto simp: decrement_def held_def lease_holds_def entry_ok_def split: if_splits)
  qed (simp_all add: decrement_def)
  have "pe_counts (pg_objects (wakeIfDrained e ?s3) e) c > 0" by (simp add: decrement_def)
  then have "\<not> entry_idle (wakeIfDrained e ?s3) e" unfolding entry_idle_def by (metis less_irrefl)
  then have "nothing_idle ?p (wakeIfDrained e ?s3)" using e by (simp add: nothing_idle_def decrement_def)
  with loose have "gate_inv (wakeIfDrained e ?s3)" by (rule gate_tighten)
  then show ?thesis using i e by (simp add: reclassifyProjectLease_def l_def Let_def)
qed

lemma close_inv:
  assumes "gate_inv s"
  shows "gate_inv (fst (closeProjectAdmission p s))"
proof -
  obtain e s1 where f: "entryFor p s = (e, s1)" by (cases "entryFor p s")
  note f_ok = entryFor_ok [OF assms f]
  let ?s2 = "fst (closeProjectAdmission p s)"
  have loose: "gate_ok {p} ?s2"
  proof (rule local_change [OF f_ok(1,2)])
    show "entry_ok p ?s2 e"
      using f_ok(6) by (auto simp: closeProjectAdmission_def f entry_ok_def drainedCount_def held_def cong: map_cong split: option.split)
    show "\<forall>d\<in>set (pg_drains ?s2). pd_outcome d = None \<longrightarrow> pg_entries s1 (pd_projectId d) = Some (pd_entry d)"
      using f_ok(1) by (simp add: closeProjectAdmission_def f gate_ok_def sharing_ok_def Let_def split: option.split)
  qed (simp_all add: closeProjectAdmission_def f Let_def split: option.split)
  have "\<not> pe_admitting (pg_objects ?s2 e)" "pg_entries ?s2 p = Some e"
    using f_ok(2) by (simp_all add: closeProjectAdmission_def f Let_def split: option.split)
  then have "nothing_idle p ?s2" by (simp add: nothing_idle_def entry_idle_def)
  with loose show ?thesis by (rule gate_tighten)
qed

lemma reopen_inv:
  assumes ok: "gate_inv s"
  shows "gate_inv (reopenProjectAdmission p s)"
proof (cases "pg_entries s p")
  case None
  then show ?thesis using ok by (simp add: reopenProjectAdmission_def)
next
  case (Some e)
  let ?s1 = "upd_entry e (\<lambda>entry. entry\<lparr>pe_admitting := True, pe_token := None\<rparr>) s"
  have "gate_ok {p} ?s1"
  proof (rule local_change [OF gate_inv_loose [OF ok] Some])
    show "entry_ok p ?s1 e" using gate_entry [OF ok Some] by (simp add: entry_ok_def drainedCount_zero)
    show "\<forall>d\<in>set (pg_drains ?s1). pd_outcome d = None \<longrightarrow> pg_entries s (pd_projectId d) = Some (pd_entry d)"
      using ok by (simp add: gate_ok_def sharing_ok_def)
  qed simp_all
  then show ?thesis using collect_ok Some by (simp add: reopenProjectAdmission_def)
qed

lemma settle_drain_inv:
  assumes ok: "gate_inv s" and k: "k < length (pg_drains s)"
  shows "gate_inv (settle_drain k s)"
proof -
  let ?d = "(pg_drains s ! k)\<lparr>pd_settled := True\<rparr>"
  have waits: "waiting_drains p (settle_drain k s) = waiting_drains p s" for p
    unfolding settle_drain_def by (rule waiting_update) (simp add: drain_waits_def)
  have held: "held_leases p c (settle_drain k s) = held_leases p c s" for p c
    by (simp add: settle_drain_def)
  have settled: "pd_settled (pg_drains (settle_drain k s) ! j)" if "pd_settled (pg_drains s ! j)" "j < length (pg_drains s)" for j
    using that by (cases "j = k") (simp_all add: settle_drain_def)
  have "d \<in> set (pg_drains s) \<or> d = ?d" if "d \<in> set (pg_drains (settle_drain k s))" for d
    using that set_update_subset_insert by (fastforce simp: settle_drain_def)
  moreover have "pg_drains s ! k \<in> set (pg_drains s)" using k by simp
  ultimately have sharing: "sharing_ok (settle_drain k s)"
    using ok by (fastforce simp: gate_ok_def sharing_ok_def settle_drain_def)
  have "project_ok p (settle_drain k s)" for p
  proof (rule gate_projectI)
    fix e
    assume "pg_entries (settle_drain k s) p = Some e"
    then have "pg_entries s p = Some e" by (simp add: settle_drain_def)
    from gate_entry [OF ok this] settled show "entry_ok p (settle_drain k s) e"
      unfolding entry_ok_def waits held by (auto simp: waiting_member settle_drain_def)
  next
    assume "pg_entries (settle_drain k s) p = None"
    then have "pg_entries s p = None" by (simp add: settle_drain_def)
    from gate_absent [OF ok this] show "(\<forall>c. held_leases p c (settle_drain k s) = 0) \<and> waiting_drains p (settle_drain k s) = []"
      by (simp add: waits held)
  qed
  with ok sharing show ?thesis by (simp add: gate_ok_def nothing_idle_def entry_idle_def settle_drain_def)
qed

text \<open>A drain that has returned is nobody's business.\<close>

lemma returned_drain_inv:
  assumes ok: "gate_inv s" and d: "pd_outcome d \<noteq> None"
  shows "gate_inv (s\<lparr>pg_drains := pg_drains s @ [d]\<rparr>)"
proof -
  let ?t = "s\<lparr>pg_drains := pg_drains s @ [d]\<rparr>"
  have waits: "waiting_drains p ?t = waiting_drains p s" for p
    using d by (simp add: waiting_snoc drain_waits_def)
  have "project_ok p ?t" for p
  proof (rule gate_projectI)
    fix e
    assume "pg_entries ?t p = Some e"
    then have "pg_entries s p = Some e" by simp
    from gate_entry [OF ok this] show "entry_ok p ?t e"
      unfolding entry_ok_def waits by (auto simp: waiting_member nth_append)
  next
    assume "pg_entries ?t p = None"
    then have "pg_entries s p = None" by simp
    from gate_absent [OF ok this] show "(\<forall>c. held_leases p c ?t = 0) \<and> waiting_drains p ?t = []"
      by (simp add: waits)
  qed
  with ok d show ?thesis by (auto simp: gate_ok_def sharing_ok_def nothing_idle_def entry_idle_def)
qed

lemma drain_start_inv:
  assumes ok: "gate_inv s"
  shows "gate_inv (drain_start p s)"
proof -
  obtain e s1 where f: "entryFor p s = (e, s1)" by (cases "entryFor p s")
  note f_ok = entryFor_ok [OF assms f]
  show ?thesis
  proof (cases "drainedCount (pg_objects s1 e) = 0")
    case True
    have "pg_drains (collect p e s1) = pg_drains s1" by (simp add: collect_eq)
    then show ?thesis
      using True returned_drain_inv [OF collect_ok [OF f_ok(1,2)]] by (simp add: drain_start_def f Let_def)
  next
    case False
    let ?k = "length (pg_drains s1)"
    let ?d = "\<lparr>pd_projectId = p, pd_entry = e, pd_settled = False, pd_outcome = None\<rparr>"
    let ?s2 = "upd_entry e (\<lambda>entry. entry\<lparr>pe_drainWaiters := pe_drainWaiters entry @ [?k]\<rparr>) s1"
    let ?s3 = "?s2\<lparr>pg_drains := pg_drains ?s2 @ [?d]\<rparr>"
    have waits: "waiting_drains q ?s3 = waiting_drains q s1 @ (if q = p then [?k] else [])" for q
      unfolding waiting_snoc by (simp add: drain_waits_def)
    have old: "pd_settled (pg_drains ?s3 ! j) = pd_settled (pg_drains s1 ! j)" if "j \<in> set (waiting_drains q s1)" for q j
      using that by (auto simp: waiting_member nth_append)
    have loose: "gate_ok {p} ?s3"
    proof (rule local_change [OF f_ok(1,2)])
      show "entry_ok p ?s3 e"
        using f_ok(6) False unfolding entry_ok_def waits by (auto simp: drainedCount_zero)
      show "\<forall>d\<in>set (pg_drains ?s3). pd_outcome d = None \<longrightarrow> pg_entries s1 (pd_projectId d) = Some (pd_entry d)"
        using f_ok(1,2) by (simp add: gate_ok_def sharing_ok_def)
      show "waiting_drains q ?s3 = waiting_drains q s1" if "q \<noteq> p" for q using that waits by simp
      show "pd_settled (pg_drains ?s3 ! j)" if "q \<noteq> p" "j \<in> set (waiting_drains q s1)" "pd_settled (pg_drains s1 ! j)" for q j
        using that old by simp
    qed simp_all
    have "nothing_idle p ?s3" using f_ok(2) by (simp add: nothing_idle_def entry_idle_def)
    with loose have "gate_inv ?s3" by (rule gate_tighten)
    then show ?thesis using False by (simp add: drain_start_def f Let_def)
  qed
qed

lemma drain_resume_inv:
  assumes ok: "gate_inv s"
  shows "gate_inv (drain_resume k s)"
proof (cases "k < length (pg_drains s) \<and> pd_outcome (pg_drains s ! k) = None \<and> pd_settled (pg_drains s ! k)")
  case False
  then show ?thesis using ok by (simp only: drain_resume_def if_False)
next
  case True
  define d where "d = pg_drains s ! k"
  let ?p = "pd_projectId d" and ?e = "pd_entry d"
  have k: "k < length (pg_drains s)" "pd_outcome d = None" using True by (simp_all add: d_def)
  have e: "pg_entries s ?p = Some ?e" using ok k by (auto simp: gate_ok_def sharing_ok_def d_def)
  let ?s1 = "upd_entry ?e (\<lambda>entry. entry\<lparr>pe_drainWaiters := remove1 k (pe_drainWaiters entry)\<rparr>) s"
  define out where "out = Some (if drainedCount (pg_objects ?s1 ?e) > 0
      then Remaining (drainedCount (pg_objects ?s1 ?e)) else Drained)"
  let ?t = "?s1\<lparr>pg_drains := (pg_drains s)[k := d\<lparr>pd_outcome := out\<rparr>]\<rparr>"
  have nth: "drain_waits q ((pg_drains s)[k := d\<lparr>pd_outcome := out\<rparr>] ! j) = (j \<noteq> k \<and> drain_waits q (pg_drains s ! j))"
    if "j < length (pg_drains s)" for q j
    using that by (cases "j = k") (simp_all add: drain_waits_def out_def)
  have "waiting_drains q ?t = filter (\<lambda>j. k \<noteq> j) (waiting_drains q s)" for q
    unfolding waiting_drains_def filter_filter
  proof (rule filter_cong)
    fix j
    assume "j \<in> set [0..<length (pg_drains s)]"
    then show "drain_waits q (pg_drains ?t ! j) = (drain_waits q (pg_drains s ! j) \<and> k \<noteq> j)"
      using nth [of j q] by auto
  qed simp
  moreover have "distinct (waiting_drains q s)" for q by (simp add: waiting_drains_def)
  moreover have "k \<in> set (waiting_drains q s) \<longleftrightarrow> q = ?p" for q
    using k by (auto simp: waiting_member drain_waits_def d_def)
  ultimately have waits: "waiting_drains q ?t = (if q = ?p then remove1 k (waiting_drains q s) else waiting_drains q s)" for q
    by (auto simp: distinct_remove1_removeAll removeAll_filter_not_eq filter_id_conv)
  have others: "pg_drains ?t ! j = pg_drains s ! j" if "j \<noteq> k" for j using that by simp
  have "gate_ok {?p} ?t"
  proof (rule local_change [OF gate_inv_loose [OF ok] e])
    show "entry_ok ?p ?t ?e"
      using gate_entry [OF ok e] unfolding entry_ok_def waits
      by (auto simp: drainedCount_zero nth_list_update waiting_member distinct_remove1_removeAll
          \<open>distinct (waiting_drains _ s)\<close>)
    have "x = d\<lparr>pd_outcome := out\<rparr> \<or> x \<in> set (pg_drains s)" if "x \<in> set (pg_drains ?t)" for x
      using that set_update_subset_insert by fastforce
    then show "\<forall>x\<in>set (pg_drains ?t). pd_outcome x = None \<longrightarrow> pg_entries s (pd_projectId x) = Some (pd_entry x)"
      using ok by (fastforce simp: gate_ok_def sharing_ok_def out_def)
    show "waiting_drains q ?t = waiting_drains q s" if "q \<noteq> ?p" for q using that waits by simp
    show "pd_settled (pg_drains ?t ! j)" if "q \<noteq> ?p" "j \<in> set (waiting_drains q s)" "pd_settled (pg_drains s ! j)" for q j
      using that k by (cases "j = k") (auto simp: waiting_member drain_waits_def d_def)
  qed simp_all
  then have "gate_inv (collect ?p ?e ?t)" by (rule collect_ok) (simp add: e)
  moreover have "collect ?p ?e ?t = (collect ?p ?e ?s1)\<lparr>pg_drains := (pg_drains s)[k := d\<lparr>pd_outcome := out\<rparr>]\<rparr>"
    by (simp add: collect_eq entry_idle_def)
  moreover have "pg_drains (collect ?p ?e ?s1) = pg_drains s" by (simp add: collect_eq)
  ultimately show ?thesis using True by (simp add: drain_resume_def d_def [symmetric] out_def Let_def)
qed

lemma hooks_inv [simp]:
  "gate_inv (registerProjectCloseHook h s) = gate_inv s" "gate_inv (unregister_hook r s) = gate_inv s"
  by (simp_all add: registerProjectCloseHook_def unregister_hook_def gate_ok_def sharing_ok_def project_ok_def
      nothing_idle_def entry_ok_def entry_idle_def held_leases_def waiting_drains_def split: option.split)

interpretation gate: invariant_machine gate_step gate_inv
proof
  fix s a
  assume "gate_inv s"
  then show "gate_inv (gate_step s a)"
    by (cases a) (simp_all add: acquire_inv release_inv reclassify_inv close_inv reopen_inv drain_start_inv
        drain_resume_inv drain_timeout_def settle_drain_inv)
qed

lemma run_gate_inv: "gate_inv (foldl gate_step new_gate ops)"
  by (rule gate.run_inv [OF new_gate_inv])

section \<open>A closed project\<close>

definition drained_leases :: "string \<Rightarrow> project_gate \<Rightarrow> nat" where
  "drained_leases p s = sum_list (map (\<lambda>c. held_leases p c s) DRAINED_LEASE_CLASSES)"

definition closed_project :: "string \<Rightarrow> nat \<Rightarrow> nat \<Rightarrow> project_gate \<Rightarrow> bool" where
  "closed_project p e t s = (pg_entries s p = Some e \<and> \<not> pe_admitting (pg_objects s e) \<and> pe_token (pg_objects s e) = Some t)"

lemma closed_entryFor:
  "gate_inv s \<Longrightarrow> closed_project p e t s \<Longrightarrow> closed_project p e t (snd (entryFor q s))"
  using gate_entry [of "{}" s p e] by (auto simp: closed_project_def entryFor_def entry_ok_def split: option.split)

lemma closed_collect:
  "closed_project p e t s \<Longrightarrow> pg_entries s q = Some x \<Longrightarrow> closed_project p e t (collect q x s)"
  by (auto simp: closed_project_def collect_eq entry_idle_def)

lemma closed_upd:
  "(\<And>en. pe_admitting (f en) = pe_admitting en \<and> pe_token (f en) = pe_token en) \<Longrightarrow>
     closed_project p e t (upd_entry x f s) = closed_project p e t s"
  by (cases "x = e") (simp_all add: closed_project_def)

lemma closed_other:
  assumes "gate_ok B s" "pg_entries s q = Some x" "q \<noteq> p" "closed_project p e t s"
  shows "closed_project p e t (upd_entry x f s)"
proof -
  have "x \<noteq> e" using assms by (auto simp: gate_ok_def sharing_ok_def closed_project_def)
  with assms(4) show ?thesis by (simp add: closed_project_def)
qed

lemma closed_frame [simp]:
  "closed_project p e t (s\<lparr>pg_leases := ls\<rparr>) = closed_project p e t s"
  "closed_project p e t (s\<lparr>pg_drains := ds\<rparr>) = closed_project p e t s"
  "closed_project p e t (s\<lparr>pg_nextToken := n\<rparr>) = closed_project p e t s"
  "closed_project p e t (upd_lease i g s) = closed_project p e t s"
  "closed_project p e t (settle_drain k s) = closed_project p e t s"
  "closed_project p e t (wakeIfDrained x s) = closed_project p e t s"
  "closed_project p e t (registerProjectCloseHook h s) = closed_project p e t s"
  "closed_project p e t (unregister_hook r s) = closed_project p e t s"
  by (simp_all add: closed_project_def settle_drain_def registerProjectCloseHook_def unregister_hook_def)

lemma closed_decrement [simp]: "closed_project p e t (decrement x c s) = closed_project p e t s"
  by (simp add: decrement_def closed_upd)

lemma closed_acquire:
  assumes ok: "gate_inv s" and closed: "closed_project p e t s"
  shows "closed_project p e t (fst (acquireProjectLease q c token s))"
proof -
  obtain x s1 where f: "entryFor q s = (x, s1)" by (cases "entryFor q s")
  have s1: "closed_project p e t s1" using closed_entryFor [OF ok closed, of q] f by simp
  show ?thesis
    using closed_collect [OF s1 entryFor_ok(2) [OF ok f]] s1
    by (simp add: acquireProjectLease_def f Let_def closed_upd)
qed

lemma closed_close:
  assumes ok: "gate_inv s" and closed: "closed_project p e t s"
  shows "closed_project p e t (fst (closeProjectAdmission q s))"
proof -
  obtain x s1 where f: "entryFor q s = (x, s1)" by (cases "entryFor q s")
  note f_ok = entryFor_ok [OF ok f]
  have s1: "closed_project p e t s1" using closed_entryFor [OF ok closed, of q] f by simp
  show ?thesis
  proof (cases "q = p")
    case True
    with s1 f_ok(2) have "x = e" by (simp add: closed_project_def)
    with s1 show ?thesis by (simp add: closeProjectAdmission_def f Let_def closed_project_def)
  next
    case False
    note other = closed_other [OF f_ok(1,2) False s1]
    have "closed_project p e t (upd_entry x h (upd_entry x g s1))" for g h
      using other [of "h \<circ> g"] by (simp add: upd_entry_def)
    with other show ?thesis by (simp add: closeProjectAdmission_def f Let_def split: option.split)
  qed
qed

lemma closed_drain_start:
  assumes ok: "gate_inv s" and closed: "closed_project p e t s"
  shows "closed_project p e t (drain_start q s)"
proof -
  obtain x s1 where f: "entryFor q s = (x, s1)" by (cases "entryFor q s")
  have s1: "closed_project p e t s1" using closed_entryFor [OF ok closed, of q] f by simp
  then show ?thesis
    using closed_collect [OF s1 entryFor_ok(2) [OF ok f]]
    by (simp add: drain_start_def f Let_def closed_upd)
qed

lemma closed_drain_resume:
  assumes ok: "gate_inv s" and closed: "closed_project p e t s"
  shows "closed_project p e t (drain_resume k s)"
proof (cases "k < length (pg_drains s) \<and> pd_outcome (pg_drains s ! k) = None")
  case True
  then have "pg_entries s (pd_projectId (pg_drains s ! k)) = Some (pd_entry (pg_drains s ! k))"
    using ok by (auto simp: gate_ok_def sharing_ok_def)
  then show ?thesis
    using closed by (auto simp: drain_resume_def Let_def closed_upd intro!: closed_collect)
qed (use closed in \<open>auto simp: drain_resume_def\<close>)

lemma closed_reopen:
  assumes "gate_inv s" "closed_project p e t s" "q \<noteq> p"
  shows "closed_project p e t (reopenProjectAdmission q s)"
  using assms by (auto simp: reopenProjectAdmission_def split: option.split intro!: closed_collect closed_other)

lemma closed_release:
  "closed_project p e t s \<Longrightarrow> closed_project p e t (release_lease i s)"
  by (auto simp: release_lease_def Let_def split: option.split intro!: closed_collect) (simp add: decrement_def)

lemma closed_reclassify:
  "closed_project p e t s \<Longrightarrow> closed_project p e t (fst (reclassifyProjectLease i c s))"
  by (auto simp: reclassifyProjectLease_def Let_def closed_upd split: option.split)

lemma closed_step:
  assumes "gate_inv s" "closed_project p e t s" "a \<noteq> Reopen_admission p"
  shows "closed_project p e t (gate_step s a)"
  using assms
  by (cases a) (auto simp: closed_acquire closed_release closed_reclassify closed_close closed_reopen
      closed_drain_start closed_drain_resume drain_timeout_def)

lemma closed_run:
  "gate_inv s \<Longrightarrow> closed_project p e t s \<Longrightarrow> Reopen_admission p \<notin> set ops \<Longrightarrow>
     closed_project p e t (foldl gate_step s ops)"
proof (induction ops arbitrary: s)
  case (Cons a ops)
  then have "a \<noteq> Reopen_admission p" by auto
  with Cons show ?case by (simp add: closed_step gate.step_inv)
qed simp

lemma close_closes:
  assumes "gate_inv s" "closeProjectAdmission p s = (s1, t)"
  shows "\<exists>e. closed_project p e t s1"
proof -
  obtain e u where f: "entryFor p s = (e, u)" by (cases "entryFor p s")
  show ?thesis
    using assms(2) entryFor_ok(2) [OF assms(1) f]
    by (auto simp: closeProjectAdmission_def f Let_def closed_project_def split: option.splits)
qed

text \<open>The drained leases of a closed project, and what may raise their number.\<close>

fun quiet_for :: "string \<Rightarrow> nat \<Rightarrow> gate_op \<Rightarrow> bool" where
  "quiet_for p t (Acquire q c token) = (token \<noteq> Some t)"
| "quiet_for p t (Reclassify i c) = (c \<notin> set DRAINED_LEASE_CLASSES)"
| "quiet_for p t (Reopen_admission q) = (q \<noteq> p)"
| "quiet_for p t _ = True"

lemma held_collect [simp]: "held_leases p c (collect q x s) = held_leases p c s"
  by (simp add: collect_eq held_leases_def)

lemma held_entryFor: "entryFor q s = (x, s1) \<Longrightarrow> held_leases p c s1 = held_leases p c s"
  by (auto simp: entryFor_def held_leases_def split: option.splits)

lemma held_wake [simp]: "held_leases p c (wakeIfDrained x s) = held_leases p c s"
  by (simp add: held_leases_def)

lemma held_decrement [simp]: "held_leases p c (decrement x d s) = held_leases p c s"
  by (simp add: decrement_def)

lemma held_other_ops [simp]:
  "held_leases p c (fst (closeProjectAdmission q s)) = held_leases p c s"
  "held_leases p c (reopenProjectAdmission q s) = held_leases p c s"
  "held_leases p c (drain_start q s) = held_leases p c s"
  "held_leases p c (drain_timeout k s) = held_leases p c s"
  "held_leases p c (drain_resume k s) = held_leases p c s"
  "held_leases p c (registerProjectCloseHook h s) = held_leases p c s"
  "held_leases p c (unregister_hook r s) = held_leases p c s"
  by (auto simp: closeProjectAdmission_def reopenProjectAdmission_def drain_start_def drain_timeout_def
      drain_resume_def settle_drain_def registerProjectCloseHook_def unregister_hook_def Let_def held_leases_def
      entryFor_def collect_eq upd_entry_def split: option.split prod.split)

lemma release_held: "held_leases p c (release_lease i s) \<le> held_leases p c s"
proof (cases "i < length (pg_leases s) \<and> \<not> pl_released (pg_leases s ! i)")
  case True
  have "held_leases p c (upd_lease i (\<lambda>l. l\<lparr>pl_released := True\<rparr>) s) \<le> held_leases p c s"
    using held_upd_lease [of i s p c "\<lambda>l. l\<lparr>pl_released := True\<rparr>"] True
    by (simp add: lease_holds_def split: if_splits)
  with True show ?thesis by (simp add: release_lease_def Let_def split: option.split)
qed (auto simp: release_lease_def Let_def)

lemma reclassify_held:
  "d \<noteq> c \<Longrightarrow> held_leases p d (fst (reclassifyProjectLease i c s)) \<le> held_leases p d s"
  using held_upd_lease [of i s p d "\<lambda>l. l\<lparr>pl_current := c\<rparr>"]
  by (auto simp: reclassifyProjectLease_def Let_def lease_holds_def upd_lease_def held_leases_def decrement_def
      wakeIfDrained_eq upd_entry_def split: option.split if_splits)

lemma closed_refuses:
  assumes ok: "gate_inv s" and closed: "closed_project p e t s" and token: "token \<noteq> Some t"
  shows "acquireProjectLease p c token s = (s, None)"
proof -
  have "entryFor p s = (e, s)" using closed by (simp add: closed_project_def entryFor_def)
  then show ?thesis
    using closed token by (auto simp: acquireProjectLease_def closed_project_def collect_eq entry_idle_def)
qed

lemma acquire_held:
  assumes ok: "gate_inv s" and closed: "closed_project p e t s" and token: "token \<noteq> Some t"
  shows "held_leases p d (fst (acquireProjectLease q c token s)) = held_leases p d s"
proof (cases "q = p")
  case True
  then show ?thesis using closed_refuses [OF ok closed token] by simp
next
  case False
  obtain x s1 where f: "entryFor q s = (x, s1)" by (cases "entryFor q s")
  show ?thesis using False held_entryFor [OF f] by (simp add: acquireProjectLease_def f Let_def lease_holds_def)
qed

lemma quiet_step:
  assumes ok: "gate_inv s" and closed: "closed_project p e t s" and quiet: "quiet_for p t a"
    and c: "c \<in> set DRAINED_LEASE_CLASSES"
  shows "held_leases p c (gate_step s a) \<le> held_leases p c s"
proof (cases a)
  case (Acquire q d token)
  then show ?thesis using acquire_held [OF ok closed] quiet by simp
next
  case (Reclassify i d)
  then show ?thesis using quiet c by (auto intro!: reclassify_held)
qed (simp_all add: release_held)

lemma quiet_run:
  "gate_inv s \<Longrightarrow> closed_project p e t s \<Longrightarrow> list_all (quiet_for p t) ops \<Longrightarrow> c \<in> set DRAINED_LEASE_CLASSES \<Longrightarrow>
     held_leases p c (foldl gate_step s ops) \<le> held_leases p c s"
proof (induction ops arbitrary: s)
  case (Cons a ops)
  have "a \<noteq> Reopen_admission p" using Cons.prems(3) by auto
  then have "held_leases p c (foldl gate_step (gate_step s a) ops) \<le> held_leases p c (gate_step s a)"
    using Cons by (simp add: closed_step gate.step_inv)
  also have "\<dots> \<le> held_leases p c s" using Cons.prems by (simp add: quiet_step)
  finally show ?case by simp
qed simp

section \<open>Properties\<close>

text \<open>
  C10: After any operations the counters of the gate are the leases it issued that are still held, and
  a project has an entry in the map exactly while something needs it: admission is closed, a lease is
  held, or a drain waits. So an idle process holds nothing, and no entry is dropped from under a
  lease or a drain.
\<close>

theorem lease_books_exact:
  fixes ops :: "gate_op list" and p :: string and c :: lease_class
  defines "s \<equiv> foldl gate_step new_gate ops"
  shows "heldProjectLeases p c s = held_leases p c s
    \<and> (pg_entries s p = None \<longleftrightarrow>
         isProjectAdmitting p s \<and> list_all (\<lambda>c. held_leases p c s = 0) LEASE_CLASSES \<and> waiting_drains p s = [])"
proof -
  have inv: "gate_inv s" unfolding s_def by (rule run_gate_inv)
  show ?thesis
  proof (cases "pg_entries s p")
    case None
    with gate_absent [OF inv None] show ?thesis
      by (simp add: heldProjectLeases_def isProjectAdmitting_def list_all_iff)
  next
    case (Some e)
    have "\<not> entry_idle s e" using inv Some by (auto simp: gate_ok_def nothing_idle_def)
    with gate_entry [OF inv Some] Some show ?thesis
      by (auto simp: heldProjectLeases_def isProjectAdmitting_def held_def entry_ok_def entry_idle_def list_all_iff)
  qed
qed


text \<open>A project with one running call: closed, drained, and tried again.\<close>

definition delete_prelude :: "gate_op list" where
  "delete_prelude = [Acquire ''p'' ExecutingCall None, Acquire ''q'' Dispatch None]"

definition delete_run :: "gate_op list" where
  "delete_run = [Drain_start ''p'', Release 0, Drain_resume 0, Acquire ''p'' ExecutingCall None, Reclassify 1 PendingApproval]"


text \<open>
  No wake-up of a drain is lost: while a drain waits, either work it waits for is still held or its
  promise is resolved; and when it then goes on, it reports a drained project exactly when none of
  that work is held at that moment, and otherwise how much is.
\<close>

theorem drain_reports_exactly:
  assumes "s = foldl gate_step new_gate ops"
    and "k < length (pg_drains s)" and "pd_outcome (pg_drains s ! k) = None"
  defines "n \<equiv> drained_leases (pd_projectId (pg_drains s ! k)) s"
  shows "(pd_settled (pg_drains s ! k) \<or> n > 0)
    \<and> pd_outcome (pg_drains (drain_resume k s) ! k)
        = (if pd_settled (pg_drains s ! k) then Some (if n > 0 then Remaining n else Drained) else None)"
proof -
  let ?d = "pg_drains s ! k"
  have inv: "gate_inv s" unfolding assms(1) by (rule run_gate_inv)
  have e: "pg_entries s (pd_projectId ?d) = Some (pd_entry ?d)"
    using inv assms(2,3) by (auto simp: gate_ok_def sharing_ok_def)
  have entry: "entry_ok (pd_projectId ?d) s (pd_entry ?d)" by (rule gate_entry [OF inv e])
  have "held (pg_objects s (pd_entry ?d)) = (\<lambda>c. held_leases (pd_projectId ?d) c s)"
    using entry by (auto simp: held_def entry_ok_def)
  then have n: "drainedCount (pg_objects s (pd_entry ?d)) = n"
    by (simp add: drainedCount_def n_def drained_leases_def)
  have "k \<in> set (waiting_drains (pd_projectId ?d) s)" using assms(2,3) by (simp add: waiting_member drain_waits_def)
  then have "pd_settled ?d \<or> n > 0" using entry n by (auto simp: entry_ok_def)
  moreover have "drainedCount (pe_drainWaiters_update g en) = drainedCount en" for g en
    by (simp add: drainedCount_def held_def [abs_def])
  ultimately show ?thesis
    using assms(2,3) n by (simp add: drain_resume_def Let_def collect_eq)
qed

theorem drain_reports_exactly_witness:
  "pd_outcome (pg_drains (drain_resume 0 (foldl gate_step new_gate
     [Acquire ''p'' ExecutingCall None, Drain_start ''p'', Drain_timeout 0])) ! 0) = Some (Remaining 1)"
proof -
  define s where "s = foldl gate_step new_gate [Acquire ''p'' ExecutingCall None, Drain_start ''p'', Drain_timeout 0]"
  have d: "pg_drains s = [\<lparr>pd_projectId = ''p'', pd_entry = 0, pd_settled = True, pd_outcome = None\<rparr>]"
    and l: "pg_leases s = [\<lparr>pl_projectId = ''p'', pl_current = ExecutingCall, pl_released = False\<rparr>]"
    by (simp_all add: s_def new_gate_def acquireProjectLease_def entryFor_def upd_entry_def set_count_def held_def
        fresh_entry_def drain_start_def drain_timeout_def settle_drain_def drainedCount_def DRAINED_LEASE_CLASSES_def Let_def)
  have "drained_leases ''p'' s = 1"
    unfolding drained_leases_def held_leases_def l by (simp add: lease_holds_def DRAINED_LEASE_CLASSES_def)
  then show ?thesis using drain_reports_exactly [OF s_def, of 0] d unfolding s_def by simp
qed

text \<open>
  A drain may give up before its deadline: woken by the last release, it finds a call that
  resumed before its continuation ran, and reports it as a time-out.
\<close>

lemma drain_gives_up_early:
  "pd_outcome (pg_drains (foldl gate_step new_gate
     [Acquire ''p'' ExecutingCall None, Acquire ''p'' PendingApproval None, Close_admission ''p'',
      Drain_start ''p'', Release 0, Reclassify 1 ExecutingCall, Drain_resume 0]) ! 0) = Some (Remaining 1)"
  by (simp add: new_gate_def acquireProjectLease_def entryFor_def upd_entry_def set_count_def held_def
      fresh_entry_def drain_start_def settle_drain_def drainedCount_def DRAINED_LEASE_CLASSES_def
      closeProjectAdmission_def release_lease_def reclassifyProjectLease_def decrement_def upd_lease_def
      wakeIfDrained_def drain_resume_def collect_def Let_def)

end
