(* ===== verification/ApprovalBroker.thy ===== *)
theory ApprovalBroker
  imports Prelude
begin

text \<open>
  The approval broker of the Studio (\<open>main/studio/approval-broker.ts\<close>, with the predicate of
  \<open>approval-runtime/studio/terminal-state.ts\<close>): the waiters on which the calls of an external agent
  block until a person has decided.

  A waiter is its position in \<open>ab_all\<close>; the map of the module, \<open>ab_waiters\<close>, is an association list in
  insertion order. A call of one of the injected functions (\<open>readSettlement\<close>, \<open>refuseIntent\<close>,
  \<open>expireIntent\<close>) is an element of \<open>ab_calls\<close> from the moment it is made until it returns, which is an
  edge of its own with the result as an input; so is every timer and the abort signal. A call that
  is made while no functions are configured was not asked and counts as one that found nothing. The
  end of a probe and the \<open>finally\<close> after it are one edge. Of a row only what the broker reads is kept.
\<close>

section \<open>State\<close>

record settlement_row =
  sr_approvalId :: string
  sr_decision :: "string option"
  sr_executionStatus :: string

definition isTerminalStudioRow :: "settlement_row \<Rightarrow> bool" where
  "isTerminalStudioRow row =
     (case sr_decision row of
        None \<Rightarrow> False
      | Some decision \<Rightarrow>
          if decision \<noteq> ''approved'' then True
          else sr_executionStatus row = ''succeeded'' \<or> sr_executionStatus row = ''failed''
               \<or> sr_executionStatus row = ''indeterminate'')"

datatype cancel_cause = Cancelled | Disconnect | Lock_cause | Vex_quit

datatype withdrawal_reason = Cancel cancel_cause | Expired

datatype broker_outcome = Settled_row settlement_row | Withdrawn withdrawal_reason bool | Broker_closed

definition STUDIO_WAITER_CAP :: nat where
  "STUDIO_WAITER_CAP = 32"

text \<open>\<open>wt_ticking\<close>: its progress callback is running. \<open>wt_outcome\<close>: what the call was answered with.\<close>

record approval_waiter =
  wt_approvalId :: string
  wt_released :: bool
  wt_expiryTimer :: bool
  wt_recheckTimer :: bool
  wt_progressTimer :: bool
  wt_ticking :: bool
  wt_abortListener :: bool
  wt_outcome :: "broker_outcome option"

datatype broker_call = Probe nat | Withdrawal nat withdrawal_reason | Expiry nat

text \<open>
  The last two fields are history: the refusals \<open>refuseIntent\<close> reported as committed, and how often a
  call came with a reservation that was no longer outstanding.
\<close>

record approval_broker =
  ab_waiters :: "(string \<times> nat) list"
  ab_all :: "approval_waiter list"
  ab_reservations :: "nat list"
  ab_nextReservation :: nat
  ab_configured :: bool
  ab_calls :: "(broker_call \<times> bool) list"
  ab_refused :: "(string \<times> withdrawal_reason) list"
  ab_stale :: nat

definition new_broker :: approval_broker where
  "new_broker = \<lparr>ab_waiters = [], ab_all = [], ab_reservations = [], ab_nextReservation = 0,
     ab_configured = False, ab_calls = [], ab_refused = [], ab_stale = 0\<rparr>"

text \<open>\<open>wi_signal\<close> is \<open>Some True\<close> where the signal is already aborted, and \<open>wi_cancelCause\<close> then the cause.\<close>

record waiter_input =
  wi_approvalId :: string
  wi_expires :: bool
  wi_progress :: bool
  wi_signal :: "bool option"
  wi_cancelCause :: "cancel_cause option"
  wi_reservation :: "nat option"

section \<open>Operations\<close>

definition occupiedSlots :: "approval_broker \<Rightarrow> nat" where
  "occupiedSlots s = length (ab_waiters s) + length (ab_reservations s)"

text \<open>The reservation, or \<open>None\<close> at the cap.\<close>

definition reserveStudioWaiterSlot :: "approval_broker \<Rightarrow> approval_broker \<times> nat option" where
  "reserveStudioWaiterSlot s =
     (if occupiedSlots s \<ge> STUDIO_WAITER_CAP then (s, None)
      else (s\<lparr>ab_reservations := ab_reservations s @ [ab_nextReservation s],
              ab_nextReservation := ab_nextReservation s + 1\<rparr>, Some (ab_nextReservation s)))"

definition release_reservation :: "nat \<Rightarrow> approval_broker \<Rightarrow> approval_broker" where
  "release_reservation r s = s\<lparr>ab_reservations := remove1 r (ab_reservations s)\<rparr>"

definition configureStudioApprovalBroker :: "approval_broker \<Rightarrow> approval_broker" where
  "configureStudioApprovalBroker s = s\<lparr>ab_configured := True\<rparr>"

definition upd_waiter :: "nat \<Rightarrow> (approval_waiter \<Rightarrow> approval_waiter) \<Rightarrow> approval_broker \<Rightarrow> approval_broker" where
  "upd_waiter k f s = s\<lparr>ab_all := (ab_all s)[k := f (ab_all s ! k)]\<rparr>"

definition waiter :: "nat \<Rightarrow> approval_broker \<Rightarrow> approval_waiter" where
  "waiter k s = ab_all s ! k"

definition idle_waiter :: "approval_waiter \<Rightarrow> approval_waiter" where
  "idle_waiter w = w\<lparr>wt_expiryTimer := False, wt_recheckTimer := False, wt_progressTimer := False,
     wt_abortListener := False\<rparr>"

text \<open>The closures \<open>dispose\<close> and \<open>settle\<close> of a waiter.\<close>

definition dispose_waiter :: "nat \<Rightarrow> approval_broker \<Rightarrow> approval_broker" where
  "dispose_waiter k s =
     (upd_waiter k idle_waiter s)
       \<lparr>ab_waiters := filter (\<lambda>(id, _). id \<noteq> wt_approvalId (waiter k s)) (ab_waiters s)\<rparr>"

definition settle_waiter :: "nat \<Rightarrow> broker_outcome \<Rightarrow> approval_broker \<Rightarrow> approval_broker" where
  "settle_waiter k outcome s =
     (if wt_released (waiter k s) then s
      else upd_waiter k (\<lambda>w. w\<lparr>wt_outcome := Some outcome\<rparr>)
             (dispose_waiter k (upd_waiter k (\<lambda>w. w\<lparr>wt_released := True\<rparr>) s)))"

definition make_call :: "broker_call \<Rightarrow> approval_broker \<Rightarrow> approval_broker" where
  "make_call c s = s\<lparr>ab_calls := ab_calls s @ [(c, ab_configured s)]\<rparr>"

definition readCancelCause :: "cancel_cause option \<Rightarrow> cancel_cause" where
  "readCancelCause cause = (case cause of None \<Rightarrow> Cancelled | Some c \<Rightarrow> c)"

text \<open>The number of the new waiter, or \<open>None\<close> at the cap.\<close>

definition awaitStudioSettlement :: "waiter_input \<Rightarrow> approval_broker \<Rightarrow> approval_broker \<times> nat option" where
  "awaitStudioSettlement inp s =
     (if wi_reservation inp = None \<and> occupiedSlots s \<ge> STUDIO_WAITER_CAP
         \<and> map_of (ab_waiters s) (wi_approvalId inp) = None then (s, None)
      else
        let s1 = (case map_of (ab_waiters s) (wi_approvalId inp) of
                    None \<Rightarrow> s
                  | Some existing \<Rightarrow> settle_waiter existing Broker_closed s);
            k = length (ab_all s1);
            s2 = s1\<lparr>ab_all := ab_all s1 @
                      [\<lparr>wt_approvalId = wi_approvalId inp, wt_released = False, wt_expiryTimer = wi_expires inp,
                        wt_recheckTimer = False, wt_progressTimer = wi_progress inp, wt_ticking = False,
                        wt_abortListener = (wi_signal inp = Some False), wt_outcome = None\<rparr>],
                    ab_waiters := ab_waiters s1 @ [(wi_approvalId inp, k)]\<rparr>;
            s3 = (case wi_reservation inp of
                    None \<Rightarrow> s2
                  | Some r \<Rightarrow> (release_reservation r s2)
                               \<lparr>ab_stale := ab_stale s2 + (if r \<in> set (ab_reservations s2) then 0 else 1)\<rparr>);
            s4 = make_call (Probe k) s3;
            s5 = (if wi_signal inp = Some True
                  then make_call (Withdrawal k (Cancel (readCancelCause (wi_cancelCause inp)))) s4 else s4)
        in (s5, Some k))"

text \<open>The timers and the abort signal of a waiter.\<close>

definition recheck_fires :: "nat \<Rightarrow> approval_broker \<Rightarrow> approval_broker" where
  "recheck_fires k s =
     (if wt_recheckTimer (waiter k s) then
        let s1 = upd_waiter k (\<lambda>w. w\<lparr>wt_recheckTimer := False\<rparr>) s
        in if wt_released (waiter k s1) then s1 else make_call (Probe k) s1
      else s)"

definition scheduleRecheck :: "nat \<Rightarrow> approval_broker \<Rightarrow> approval_broker" where
  "scheduleRecheck k s =
     (if wt_released (waiter k s) then s else upd_waiter k (\<lambda>w. w\<lparr>wt_recheckTimer := True\<rparr>) s)"

definition progress_fires :: "nat \<Rightarrow> approval_broker \<Rightarrow> approval_broker" where
  "progress_fires k s =
     (if wt_progressTimer (waiter k s) then
        upd_waiter k (\<lambda>w. w\<lparr>wt_progressTimer := False, wt_ticking := \<not> wt_released w\<rparr>) s
      else s)"

definition progress_returns :: "nat \<Rightarrow> approval_broker \<Rightarrow> approval_broker" where
  "progress_returns k s =
     (if wt_ticking (waiter k s) then
        upd_waiter k (\<lambda>w. w\<lparr>wt_ticking := False, wt_progressTimer := \<not> wt_released w\<rparr>) s
      else s)"

definition expiry_fires :: "nat \<Rightarrow> approval_broker \<Rightarrow> approval_broker" where
  "expiry_fires k s =
     (if wt_expiryTimer (waiter k s) then
        make_call (Expiry k) (upd_waiter k (\<lambda>w. w\<lparr>wt_expiryTimer := False\<rparr>) s)
      else s)"

definition abort_fires :: "nat \<Rightarrow> cancel_cause option \<Rightarrow> approval_broker \<Rightarrow> approval_broker" where
  "abort_fires k cause s =
     (if wt_abortListener (waiter k s) then
        make_call (Withdrawal k (Cancel (readCancelCause cause)))
          (upd_waiter k (\<lambda>w. w\<lparr>wt_abortListener := False\<rparr>) s)
      else s)"

definition settleStudioWaiter :: "settlement_row \<Rightarrow> approval_broker \<Rightarrow> approval_broker" where
  "settleStudioWaiter row s =
     (case map_of (ab_waiters s) (sr_approvalId row) of
        None \<Rightarrow> s
      | Some k \<Rightarrow> if \<not> isTerminalStudioRow row then s else settle_waiter k (Settled_row row) s)"

definition withdrawStudioWaiter :: "string \<Rightarrow> cancel_cause \<Rightarrow> approval_broker \<Rightarrow> approval_broker" where
  "withdrawStudioWaiter approvalId reason s =
     (case map_of (ab_waiters s) approvalId of
        None \<Rightarrow> s
      | Some k \<Rightarrow> make_call (Withdrawal k (Cancel reason)) s)"

text \<open>What an injected function comes back with.\<close>

datatype call_result = Read_row "settlement_row option" | Refusal_written bool | Expiry_done | Call_threw

definition probeDurableRow :: "nat \<Rightarrow> call_result \<Rightarrow> approval_broker \<Rightarrow> approval_broker" where
  "probeDurableRow k result s =
     scheduleRecheck k
       (case result of
          Read_row (Some row) \<Rightarrow> if \<not> isTerminalStudioRow row then s else settle_waiter k (Settled_row row) s
        | _ \<Rightarrow> s)"

definition runWithdrawal :: "nat \<Rightarrow> withdrawal_reason \<Rightarrow> call_result \<Rightarrow> approval_broker \<Rightarrow> approval_broker" where
  "runWithdrawal k reason result s =
     (let committed = (case result of Refusal_written b \<Rightarrow> b | _ \<Rightarrow> False);
          s1 = (if committed then s\<lparr>ab_refused := ab_refused s @ [(wt_approvalId (waiter k s), reason)]\<rparr> else s)
      in settle_waiter k (Withdrawn reason committed) s1)"

definition runExpiry :: "nat \<Rightarrow> call_result \<Rightarrow> approval_broker \<Rightarrow> approval_broker" where
  "runExpiry k result s =
     (if result = Call_threw then settle_waiter k (Withdrawn Expired False) s else s)"

definition call_returns :: "nat \<Rightarrow> call_result \<Rightarrow> approval_broker \<Rightarrow> approval_broker" where
  "call_returns i result s =
     (if i \<ge> length (ab_calls s) then s
      else let (c, asked) = ab_calls s ! i;
               s1 = s\<lparr>ab_calls := take i (ab_calls s) @ drop (Suc i) (ab_calls s)\<rparr>;
               r = (if asked then result else Expiry_done)
           in case c of
                Probe k \<Rightarrow> probeDurableRow k r s1
              | Withdrawal k reason \<Rightarrow> runWithdrawal k reason r s1
              | Expiry k \<Rightarrow> runExpiry k r s1)"

definition disposeStudioApprovalBroker :: "approval_broker \<Rightarrow> approval_broker" where
  "disposeStudioApprovalBroker s =
     fold (\<lambda>k t. settle_waiter k Broker_closed (dispose_waiter k t)) (map snd (ab_waiters s))
       (s\<lparr>ab_waiters := [], ab_reservations := []\<rparr>)"

datatype broker_op =
    Reserve
  | Release_reservation nat
  | Configure
  | Await waiter_input
  | Settle_row settlement_row
  | Withdraw string cancel_cause
  | Recheck_fires nat
  | Progress_fires nat
  | Progress_returns nat
  | Expiry_fires nat
  | Abort_fires nat "cancel_cause option"
  | Call_returns nat call_result
  | Dispose_broker

text \<open>Edges of waiters there never were are no edges.\<close>

fun broker_step :: "approval_broker \<Rightarrow> broker_op \<Rightarrow> approval_broker" where
  "broker_step s Reserve = fst (reserveStudioWaiterSlot s)"
| "broker_step s (Release_reservation r) = release_reservation r s"
| "broker_step s Configure = configureStudioApprovalBroker s"
| "broker_step s (Await inp) = fst (awaitStudioSettlement inp s)"
| "broker_step s (Settle_row row) = settleStudioWaiter row s"
| "broker_step s (Withdraw approvalId cause) = withdrawStudioWaiter approvalId cause s"
| "broker_step s (Recheck_fires k) = (if k < length (ab_all s) then recheck_fires k s else s)"
| "broker_step s (Progress_fires k) = (if k < length (ab_all s) then progress_fires k s else s)"
| "broker_step s (Progress_returns k) = (if k < length (ab_all s) then progress_returns k s else s)"
| "broker_step s (Expiry_fires k) = (if k < length (ab_all s) then expiry_fires k s else s)"
| "broker_step s (Abort_fires k cause) = (if k < length (ab_all s) then abort_fires k cause s else s)"
| "broker_step s (Call_returns i result) = call_returns i result s"
| "broker_step s Dispose_broker = disposeStudioApprovalBroker s"

section \<open>The invariant\<close>

fun call_waiter :: "broker_call \<Rightarrow> nat" where
  "call_waiter (Probe k) = k"
| "call_waiter (Withdrawal k _) = k"
| "call_waiter (Expiry k) = k"

text \<open>How the durable row of a waiter is watched: the timer of the next read, or the read itself.\<close>

definition polls :: "nat \<Rightarrow> approval_broker \<Rightarrow> nat" where
  "polls k s = (if wt_recheckTimer (waiter k s) then 1 else 0) + length (filter (\<lambda>c. fst c = Probe k) (ab_calls s))"

fun answer_true :: "(string \<times> withdrawal_reason) list \<Rightarrow> string \<Rightarrow> broker_outcome \<Rightarrow> bool" where
  "answer_true refused approvalId (Settled_row row) = isTerminalStudioRow row"
| "answer_true refused approvalId (Withdrawn reason committed) = (committed \<longrightarrow> (approvalId, reason) \<in> set refused)"
| "answer_true refused approvalId Broker_closed = True"

definition released_ok :: "approval_broker \<Rightarrow> approval_waiter \<Rightarrow> bool" where
  "released_ok s w =
     (\<not> wt_expiryTimer w \<and> \<not> wt_recheckTimer w \<and> \<not> wt_progressTimer w \<and> \<not> wt_abortListener w
      \<and> (\<exists>answer. wt_outcome w = Some answer \<and> answer_true (ab_refused s) (wt_approvalId w) answer))"

definition blocked_ok :: "nat \<Rightarrow> approval_broker \<Rightarrow> nat \<Rightarrow> bool" where
  "blocked_ok n s k =
     (wt_outcome (waiter k s) = None \<and> (wt_approvalId (waiter k s), k) \<in> set (ab_waiters s) \<and> polls k s = n)"

definition waiter_ok :: "nat \<Rightarrow> approval_broker \<Rightarrow> nat \<Rightarrow> bool" where
  "waiter_ok n s k = ((wt_released (waiter k s) \<longrightarrow> released_ok s (waiter k s))
     \<and> (\<not> wt_released (waiter k s) \<longrightarrow> blocked_ok n s k))"

definition map_ok :: "approval_broker \<Rightarrow> bool" where
  "map_ok s =
     (distinct (map fst (ab_waiters s))
      \<and> (\<forall>(id, k)\<in>set (ab_waiters s). k < length (ab_all s) \<and> wt_approvalId (waiter k s) = id
            \<and> \<not> wt_released (waiter k s)))"

definition slots_ok :: "approval_broker \<Rightarrow> bool" where
  "slots_ok s =
     (distinct (ab_reservations s) \<and> (\<forall>r\<in>set (ab_reservations s). r < ab_nextReservation s)
      \<and> occupiedSlots s \<le> STUDIO_WAITER_CAP + ab_stale s)"

text \<open>The waiters of \<open>P\<close> are between two reads.\<close>

definition broker_ok :: "nat set \<Rightarrow> approval_broker \<Rightarrow> bool" where
  "broker_ok P s =
     (map_ok s \<and> slots_ok s
      \<and> (\<forall>k<length (ab_all s). waiter_ok (if k \<in> P then 0 else 1) s k)
      \<and> (\<forall>(c, asked)\<in>set (ab_calls s). call_waiter c < length (ab_all s)))"

abbreviation broker_inv :: "approval_broker \<Rightarrow> bool" where
  "broker_inv s \<equiv> broker_ok {} s"

lemma new_broker_inv: "broker_inv new_broker"
  by (simp add: broker_ok_def map_ok_def slots_ok_def new_broker_def occupiedSlots_def)

lemma waiter_upd: "k < length (ab_all s) \<Longrightarrow> waiter j (upd_waiter k f s) = (if j = k then f (waiter k s) else waiter j s)"
  by (simp add: waiter_def upd_waiter_def)

lemma upd_waiter_frame [simp]:
  "ab_waiters (upd_waiter k f s) = ab_waiters s" "length (ab_all (upd_waiter k f s)) = length (ab_all s)"
  "ab_reservations (upd_waiter k f s) = ab_reservations s" "ab_calls (upd_waiter k f s) = ab_calls s"
  "ab_nextReservation (upd_waiter k f s) = ab_nextReservation s" "ab_configured (upd_waiter k f s) = ab_configured s"
  "ab_refused (upd_waiter k f s) = ab_refused s" "ab_stale (upd_waiter k f s) = ab_stale s"
  by (simp_all add: upd_waiter_def)

lemma waiter_frame [simp]:
  "waiter k (s\<lparr>ab_waiters := m\<rparr>) = waiter k s" "waiter k (s\<lparr>ab_calls := cs\<rparr>) = waiter k s"
  "waiter k (s\<lparr>ab_reservations := rs\<rparr>) = waiter k s" "waiter k (s\<lparr>ab_refused := fs\<rparr>) = waiter k s"
  "waiter k (s\<lparr>ab_stale := n\<rparr>) = waiter k s" "waiter k (s\<lparr>ab_nextReservation := n\<rparr>) = waiter k s"
  "waiter k (s\<lparr>ab_configured := b\<rparr>) = waiter k s" "waiter k (make_call c s) = waiter k s"
  by (simp_all add: waiter_def make_call_def)

text \<open>\<open>settle\<close> of a waiter that still blocks, as one change.\<close>

definition answered :: "broker_outcome \<Rightarrow> approval_waiter \<Rightarrow> approval_waiter" where
  "answered outcome w = (idle_waiter (w\<lparr>wt_released := True\<rparr>))\<lparr>wt_outcome := Some outcome\<rparr>"

lemma settle_waiter_eq:
  assumes "k < length (ab_all s)" "\<not> wt_released (waiter k s)"
  shows "settle_waiter k outcome s =
    (upd_waiter k (answered outcome) s)\<lparr>ab_waiters := filter (\<lambda>(id, _). id \<noteq> wt_approvalId (waiter k s)) (ab_waiters s)\<rparr>"
  using assms by (simp add: settle_waiter_def dispose_waiter_def waiter_upd)
    (simp add: upd_waiter_def waiter_def answered_def)

lemma settle_waiter_released: "wt_released (waiter k s) \<Longrightarrow> settle_waiter k outcome s = s"
  by (simp add: settle_waiter_def)

lemma settle_inv:
  assumes ok: "broker_ok P s" and k: "k < length (ab_all s)"
    and true: "answer_true (ab_refused s) (wt_approvalId (waiter k s)) outcome"
  shows "broker_ok P (settle_waiter k outcome s)"
proof (cases "wt_released (waiter k s)")
  case True
  then show ?thesis using ok by (simp add: settle_waiter_released)
next
  case False
  let ?id = "wt_approvalId (waiter k s)"
  let ?m = "filter (\<lambda>(id, _). id \<noteq> ?id) (ab_waiters s)"
  let ?t = "(upd_waiter k (answered outcome) s)\<lparr>ab_waiters := ?m\<rparr>"
  have map: "map_ok s" and all: "waiter_ok (if j \<in> P then 0 else 1) s j" if "j < length (ab_all s)" for j
    using ok that by (simp_all add: broker_ok_def)
  have in_map: "(wt_approvalId (waiter j s), j) \<in> set (ab_waiters s)"
    if "j < length (ab_all s)" "\<not> wt_released (waiter j s)" for j
    using all that by (simp add: waiter_ok_def blocked_ok_def)
  have only: "j = k" if "(?id, j) \<in> set (ab_waiters s)" for j
    using map [OF k] in_map [OF k False] that by (auto simp: map_ok_def dest: eq_key_imp_eq_value)
  note w = waiter_upd [OF k]
  have "map_ok ?t"
    using map [OF k] only by (auto simp: map_ok_def w distinct_map inj_on_def)
  moreover have "slots_ok ?t"
    using ok by (auto simp: broker_ok_def slots_ok_def occupiedSlots_def intro: order_trans [OF add_right_mono [OF length_filter_le]])
  moreover have "waiter_ok (if j \<in> P then 0 else 1) ?t j" if j: "j < length (ab_all s)" for j
  proof (cases "j = k")
    case True
    then show ?thesis using true by (simp add: waiter_ok_def w answered_def released_ok_def idle_waiter_def)
  next
    case j_k: False
    have "wt_approvalId (waiter j s) \<noteq> ?id" if "\<not> wt_released (waiter j s)"
      using in_map [OF j that] only j_k by metis
    moreover have "polls j ?t = polls j s" "waiter j ?t = waiter j s" using j_k by (simp_all add: polls_def w)
    ultimately show ?thesis using all [OF j]
      by (cases "wt_released (waiter j s)") (simp_all add: waiter_ok_def released_ok_def blocked_ok_def)
  qed
  ultimately show ?thesis
    using ok by (simp add: settle_waiter_eq [OF k False] broker_ok_def)
qed

lemma scheduleRecheck_inv:
  assumes ok: "broker_ok {k} s" and k: "k < length (ab_all s)"
  shows "broker_inv (scheduleRecheck k s)"
proof (cases "wt_released (waiter k s)")
  case True
  have "waiter_ok 1 s j" if "waiter_ok (if j \<in> {k} then 0 else 1) s j" for j
    using True that by (cases "j = k") (simp_all add: waiter_ok_def)
  then show ?thesis using ok True by (simp add: scheduleRecheck_def broker_ok_def)
next
  case False
  let ?t = "upd_waiter k (\<lambda>w. w\<lparr>wt_recheckTimer := True\<rparr>) s"
  note w = waiter_upd [OF k]
  have "polls k s = 0" using ok k False by (auto simp: broker_ok_def waiter_ok_def blocked_ok_def)
  then have polls: "polls j ?t = (if j = k then 1 else polls j s)" for j
    by (simp add: polls_def w split: if_splits)
  have "waiter_ok 1 ?t j" if "waiter_ok (if j \<in> {k} then 0 else 1) s j" for j
    using False that by (cases "j = k") (simp_all add: waiter_ok_def released_ok_def blocked_ok_def w polls)
  then show ?thesis
    using ok False by (auto simp: scheduleRecheck_def broker_ok_def map_ok_def slots_ok_def occupiedSlots_def w)
qed

lemma length_filter_remove:
  "i < length xs \<Longrightarrow> length (filter Q (take i xs @ drop (Suc i) xs)) + (if Q (xs ! i) then 1 else 0) = length (filter Q xs)"
  by (subst (3) id_take_nth_drop [of i xs]) auto

lemma make_call_frame [simp]:
  "ab_waiters (make_call c s) = ab_waiters s" "ab_all (make_call c s) = ab_all s"
  "ab_reservations (make_call c s) = ab_reservations s" "ab_refused (make_call c s) = ab_refused s"
  "ab_nextReservation (make_call c s) = ab_nextReservation s" "ab_stale (make_call c s) = ab_stale s"
  by (simp_all add: make_call_def)

lemma polls_make_call: "polls k (make_call c s) = polls k s + (if c = Probe k then 1 else 0)"
  by (simp add: polls_def make_call_def waiter_def)

lemma probe_inv:
  assumes ok: "broker_ok {k} s" and k: "k < length (ab_all s)" "\<not> wt_released (waiter k s)"
  shows "broker_inv (make_call (Probe k) s)"
proof -
  have "waiter_ok 1 (make_call (Probe k) s) j" if "waiter_ok (if j \<in> {k} then 0 else 1) s j" for j
    using k that by (cases "j = k") (simp_all add: waiter_ok_def released_ok_def blocked_ok_def polls_make_call)
  then show ?thesis
    using ok k by (auto simp: broker_ok_def map_ok_def slots_ok_def occupiedSlots_def make_call_def)
qed

lemma other_call_inv:
  assumes ok: "broker_ok P s" and c: "call_waiter c < length (ab_all s)" "\<And>k. c \<noteq> Probe k"
  shows "broker_ok P (make_call c s)"
proof -
  have "polls k (make_call c s) = polls k s" for k using c(2) by (simp add: polls_make_call)
  then have "waiter_ok n (make_call c s) k = waiter_ok n s k" for n k
    by (simp add: waiter_ok_def released_ok_def blocked_ok_def)
  then show ?thesis
    using ok c(1) by (auto simp: broker_ok_def map_ok_def slots_ok_def occupiedSlots_def make_call_def)
qed

text \<open>A change of timers and callbacks only.\<close>

lemma quiet_upd_inv:
  assumes ok: "broker_ok P s" and k: "k < length (ab_all s)"
    and f: "\<And>w. wt_approvalId (f w) = wt_approvalId w \<and> wt_released (f w) = wt_released w \<and> wt_outcome (f w) = wt_outcome w"
      "wt_recheckTimer (f (waiter k s)) = wt_recheckTimer (waiter k s)"
      "wt_released (waiter k s) \<Longrightarrow> \<not> wt_expiryTimer (f (waiter k s)) \<and> \<not> wt_progressTimer (f (waiter k s))
        \<and> \<not> wt_abortListener (f (waiter k s))"
  shows "broker_ok P (upd_waiter k f s)"
proof -
  note w = waiter_upd [OF k]
  have polls: "polls j (upd_waiter k f s) = polls j s" for j using f(2) by (simp add: polls_def w)
  have "map_ok (upd_waiter k f s)" "slots_ok (upd_waiter k f s)"
    using ok f(1) by (auto simp: broker_ok_def map_ok_def slots_ok_def occupiedSlots_def w)
  moreover have "waiter_ok n (upd_waiter k f s) j" if "waiter_ok n s j" for n j
    using that f by (auto simp: waiter_ok_def w released_ok_def blocked_ok_def polls)
  ultimately show ?thesis using ok by (simp add: broker_ok_def)
qed

lemma recheck_inv:
  assumes ok: "broker_inv s" and k: "k < length (ab_all s)"
  shows "broker_inv (recheck_fires k s)"
proof (cases "wt_recheckTimer (waiter k s)")
  case False
  then show ?thesis using ok by (simp add: recheck_fires_def)
next
  case True
  then have blocks: "\<not> wt_released (waiter k s)" using ok k by (auto simp: broker_ok_def waiter_ok_def released_ok_def)
  let ?t = "upd_waiter k (\<lambda>w. w\<lparr>wt_recheckTimer := False\<rparr>) s"
  note w = waiter_upd [OF k]
  have "polls k s = 1" using ok k blocks by (auto simp: broker_ok_def waiter_ok_def blocked_ok_def)
  with True have polls: "polls j ?t = (if j = k then 0 else polls j s)" for j
    by (simp add: polls_def w)
  have "waiter_ok (if j \<in> {k} then 0 else 1) ?t j" if "waiter_ok 1 s j" for j
    using blocks that by (cases "j = k") (simp_all add: waiter_ok_def released_ok_def blocked_ok_def w polls)
  then have "broker_ok {k} ?t"
    using ok by (auto simp: broker_ok_def map_ok_def slots_ok_def occupiedSlots_def w)
  then show ?thesis using True blocks k probe_inv [of k ?t] by (simp add: recheck_fires_def Let_def w)
qed

lemma timer_invs:
  assumes ok: "broker_inv s" and k: "k < length (ab_all s)"
  shows "broker_inv (progress_fires k s)" and "broker_inv (progress_returns k s)"
    and "broker_inv (expiry_fires k s)" and "broker_inv (abort_fires k cause s)"
proof -
  have released: "\<not> wt_expiryTimer (waiter k s)" "\<not> wt_progressTimer (waiter k s)" "\<not> wt_abortListener (waiter k s)"
    if "wt_released (waiter k s)" using ok k that by (auto simp: broker_ok_def waiter_ok_def released_ok_def)
  show "broker_inv (progress_fires k s)" "broker_inv (progress_returns k s)"
    using ok released by (auto simp: progress_fires_def progress_returns_def intro!: quiet_upd_inv [OF ok k])
  have "broker_inv (upd_waiter k (\<lambda>w. w\<lparr>wt_expiryTimer := False\<rparr>) s)"
    "broker_inv (upd_waiter k (\<lambda>w. w\<lparr>wt_abortListener := False\<rparr>) s)"
    using released by (auto intro!: quiet_upd_inv [OF ok k])
  then show "broker_inv (expiry_fires k s)" "broker_inv (abort_fires k cause s)"
    using ok k by (simp_all add: expiry_fires_def abort_fires_def other_call_inv)
qed

lemma settle_waiter_frame [simp]:
  "ab_calls (settle_waiter k outcome s) = ab_calls s" "length (ab_all (settle_waiter k outcome s)) = length (ab_all s)"
  "ab_reservations (settle_waiter k outcome s) = ab_reservations s" "ab_refused (settle_waiter k outcome s) = ab_refused s"
  "ab_stale (settle_waiter k outcome s) = ab_stale s" "ab_nextReservation (settle_waiter k outcome s) = ab_nextReservation s"
  by (simp_all add: settle_waiter_def dispose_waiter_def)

lemma removed_call_ok:
  assumes ok: "broker_inv s" and i: "i < length (ab_calls s)" and c: "ab_calls s ! i = (c, asked)"
  shows "broker_ok (if c = Probe (call_waiter c) then {call_waiter c} else {})
      (s\<lparr>ab_calls := take i (ab_calls s) @ drop (Suc i) (ab_calls s)\<rparr>)"
    and "call_waiter c < length (ab_all s)"
proof -
  let ?t = "s\<lparr>ab_calls := take i (ab_calls s) @ drop (Suc i) (ab_calls s)\<rparr>"
  have polls: "polls j ?t + (if c = Probe j then 1 else 0) = polls j s" for j
    using length_filter_remove [OF i, of "\<lambda>c. fst c = Probe j"] c by (simp add: polls_def)
  have "(c, asked) \<in> set (ab_calls s)" using i c by (metis nth_mem)
  then show "call_waiter c < length (ab_all s)" using ok by (auto simp: broker_ok_def)
  have calls: "set (ab_calls ?t) \<subseteq> set (ab_calls s)" by (auto dest: in_set_takeD in_set_dropD)
  have "waiter_ok (if c = Probe j then 0 else 1) ?t j" if "waiter_ok 1 s j" for j
    using that polls [of j] by (auto simp: waiter_ok_def released_ok_def blocked_ok_def split: if_splits)
  moreover have "(if c = Probe j then 0 else 1 :: nat)
      = (if j \<in> (if c = Probe (call_waiter c) then {call_waiter c} else {}) then 0 else 1)" for j by (cases c) auto
  ultimately show "broker_ok (if c = Probe (call_waiter c) then {call_waiter c} else {}) ?t"
    using ok calls by (auto simp: broker_ok_def map_ok_def slots_ok_def occupiedSlots_def)
qed

lemma call_returns_inv:
  assumes ok: "broker_inv s"
  shows "broker_inv (call_returns i result s)"
proof (cases "i < length (ab_calls s)")
  case False
  then show ?thesis using ok by (simp add: call_returns_def)
next
  case i: True
  obtain c asked where c: "ab_calls s ! i = (c, asked)" by (cases "ab_calls s ! i")
  let ?s1 = "s\<lparr>ab_calls := take i (ab_calls s) @ drop (Suc i) (ab_calls s)\<rparr>"
  define r where "r = (if asked then result else Expiry_done)"
  have returns: "call_returns i result s = (case c of
      Probe k \<Rightarrow> probeDurableRow k r ?s1 | Withdrawal k reason \<Rightarrow> runWithdrawal k reason r ?s1
    | Expiry k \<Rightarrow> runExpiry k r ?s1)"
    using i by (cases c) (simp_all add: call_returns_def c r_def Let_def)
  have k: "call_waiter c < length (ab_all ?s1)" using removed_call_ok(2) [OF ok i c] by simp
  have s1: "broker_ok (if c = Probe (call_waiter c) then {call_waiter c} else {}) ?s1"
    by (rule removed_call_ok(1) [OF ok i c])
  show ?thesis
  proof (cases c)
    case (Probe k)
    have "broker_ok {k} (case r of Read_row (Some row) \<Rightarrow> if \<not> isTerminalStudioRow row then ?s1
        else settle_waiter k (Settled_row row) ?s1 | _ \<Rightarrow> ?s1)"
      using s1 k Probe by (auto split: call_result.split option.split intro: settle_inv)
    then have "broker_inv (probeDurableRow k r ?s1)"
      unfolding probeDurableRow_def using k Probe
      by (intro scheduleRecheck_inv) (auto split: call_result.split option.split)
    then show ?thesis by (simp add: returns Probe)
  next
    case (Withdrawal k reason)
    define b where "b = (case r of Refusal_written b \<Rightarrow> b | _ \<Rightarrow> False)"
    let ?s2 = "if b then ?s1\<lparr>ab_refused := ab_refused ?s1 @ [(wt_approvalId (waiter k ?s1), reason)]\<rparr> else ?s1"
    have true_more: "answer_true (refused @ x) a outcome" if "answer_true refused a outcome" for refused x a outcome
      using that by (cases outcome) auto
    have "broker_inv ?s2" using s1 Withdrawal true_more
      by (auto simp: broker_ok_def map_ok_def slots_ok_def occupiedSlots_def waiter_ok_def released_ok_def blocked_ok_def polls_def)
    then have "broker_inv (settle_waiter k (Withdrawn reason b) ?s2)"
      by (rule settle_inv) (use k Withdrawal in auto)
    then show ?thesis by (simp add: returns Withdrawal runWithdrawal_def b_def Let_def)
  next
    case (Expiry k)
    then show ?thesis using s1 k by (auto simp: returns runExpiry_def intro: settle_inv)
  qed
qed

lemma map_of_waiter:
  "broker_ok P s \<Longrightarrow> map_of (ab_waiters s) a = Some k \<Longrightarrow> k < length (ab_all s) \<and> wt_approvalId (waiter k s) = a
     \<and> \<not> wt_released (waiter k s)"
  by (auto simp: broker_ok_def map_ok_def dest!: map_of_SomeD)

lemma settleStudioWaiter_inv: "broker_inv s \<Longrightarrow> broker_inv (settleStudioWaiter row s)"
  by (auto simp: settleStudioWaiter_def map_of_waiter settle_inv split: option.split)

lemma withdraw_inv: "broker_inv s \<Longrightarrow> broker_inv (withdrawStudioWaiter approvalId reason s)"
  by (auto simp: withdrawStudioWaiter_def split: option.split intro!: other_call_inv dest: map_of_waiter)

lemma slots_frame:
  assumes "broker_ok P s" "slots_ok (s\<lparr>ab_reservations := rs, ab_nextReservation := n\<rparr>)"
  shows "broker_ok P (s\<lparr>ab_reservations := rs, ab_nextReservation := n\<rparr>)"
  using assms by (auto simp: broker_ok_def map_ok_def waiter_ok_def released_ok_def blocked_ok_def polls_def)

lemma reserve_inv: "broker_inv s \<Longrightarrow> broker_inv (fst (reserveStudioWaiterSlot s))"
proof -
  assume ok: "broker_inv s"
  show ?thesis
  proof (cases "occupiedSlots s \<ge> STUDIO_WAITER_CAP")
    case False
    let ?t = "s\<lparr>ab_reservations := ab_reservations s @ [ab_nextReservation s], ab_nextReservation := ab_nextReservation s + 1\<rparr>"
    have "slots_ok ?t" using ok False by (auto simp: broker_ok_def slots_ok_def occupiedSlots_def)
    from slots_frame [OF ok this] False show ?thesis by (simp add: reserveStudioWaiterSlot_def)
  qed (simp add: reserveStudioWaiterSlot_def ok)
qed

lemma release_reservation_inv: "broker_inv s \<Longrightarrow> broker_inv (release_reservation r s)"
proof -
  assume ok: "broker_inv s"
  have "length (remove1 r (ab_reservations s)) \<le> length (ab_reservations s)" by (simp add: length_remove1)
  then have "slots_ok (s\<lparr>ab_reservations := remove1 r (ab_reservations s), ab_nextReservation := ab_nextReservation s\<rparr>)"
    using ok by (auto simp: broker_ok_def slots_ok_def occupiedSlots_def dest: notin_set_remove1 set_remove1_subset [THEN subsetD])
  from slots_frame [OF ok this] show ?thesis by (simp add: release_reservation_def)
qed

lemma configure_inv: "broker_inv s \<Longrightarrow> broker_inv (configureStudioApprovalBroker s)"
  by (auto simp: configureStudioApprovalBroker_def broker_ok_def map_ok_def slots_ok_def occupiedSlots_def
      waiter_ok_def released_ok_def blocked_ok_def polls_def)

lemma settle_removes:
  assumes ok: "broker_ok P s" and a: "map_of (ab_waiters s) a = Some k"
  shows "map_of (ab_waiters (settle_waiter k outcome s)) a = None"
    and "length (ab_waiters (settle_waiter k outcome s)) < length (ab_waiters s)"
proof -
  note k = map_of_waiter [OF ok a]
  have m: "ab_waiters (settle_waiter k outcome s) = filter (\<lambda>(b, _). b \<noteq> a) (ab_waiters s)"
    using k by (simp add: settle_waiter_eq)
  show "map_of (ab_waiters (settle_waiter k outcome s)) a = None" by (auto simp: m map_of_eq_None_iff)
  show "length (ab_waiters (settle_waiter k outcome s)) < length (ab_waiters s)"
    unfolding m using map_of_SomeD [OF a] by (auto intro!: length_filter_less)
qed

lemma await_inv:
  assumes ok: "broker_inv s"
  shows "broker_inv (fst (awaitStudioSettlement inp s))"
proof (cases "wi_reservation inp = None \<and> occupiedSlots s \<ge> STUDIO_WAITER_CAP \<and> map_of (ab_waiters s) (wi_approvalId inp) = None")
  case True
  then show ?thesis using ok by (simp add: awaitStudioSettlement_def)
next
  case admitted: False
  define a where "a = wi_approvalId inp"
  define s1 where "s1 = (case map_of (ab_waiters s) a of None \<Rightarrow> s | Some existing \<Rightarrow> settle_waiter existing Broker_closed s)"
  define k where "k = length (ab_all s1)"
  define w where "w = \<lparr>wt_approvalId = a, wt_released = False, wt_expiryTimer = wi_expires inp,
      wt_recheckTimer = False, wt_progressTimer = wi_progress inp, wt_ticking = False,
      wt_abortListener = (wi_signal inp = Some False), wt_outcome = None\<rparr>"
  define s2 where "s2 = s1\<lparr>ab_all := ab_all s1 @ [w], ab_waiters := ab_waiters s1 @ [(a, k)]\<rparr>"
  define s3 where "s3 = (case wi_reservation inp of None \<Rightarrow> s2 | Some r \<Rightarrow> (release_reservation r s2)
      \<lparr>ab_stale := ab_stale s2 + (if r \<in> set (ab_reservations s2) then 0 else 1)\<rparr>)"
  have s1: "broker_inv s1" and fresh: "map_of (ab_waiters s1) a = None"
    and room: "wi_reservation inp = None \<Longrightarrow> occupiedSlots s1 < STUDIO_WAITER_CAP + ab_stale s1"
  proof -
    show "broker_inv s1" using ok map_of_waiter [OF ok] by (auto simp: s1_def intro: settle_inv split: option.split)
    show "map_of (ab_waiters s1) a = None" using settle_removes(1) [OF ok] by (auto simp: s1_def split: option.split)
    assume r: "wi_reservation inp = None"
    have "occupiedSlots s \<le> STUDIO_WAITER_CAP + ab_stale s" using ok by (simp add: broker_ok_def slots_ok_def)
    then show "occupiedSlots s1 < STUDIO_WAITER_CAP + ab_stale s1"
      using admitted r settle_removes(2) [OF ok, of a _ Broker_closed]
      by (auto simp: s1_def a_def occupiedSlots_def split: option.split)
  qed
  have calls: "call_waiter c < length (ab_all s1)" if "(c, b) \<in> set (ab_calls s1)" for c b
    using s1 that by (auto simp: broker_ok_def)
  have nth: "waiter j s3 = (if j = k then w else waiter j s1)" if "j \<le> k" for j
    using that by (auto simp: s3_def s2_def k_def waiter_def release_reservation_def nth_append split: option.split)
  have polls: "polls j s3 = (if j = k then 0 else polls j s1)" if "j \<le> k" for j
  proof -
    have "filter (\<lambda>c. fst c = Probe k) (ab_calls s1) = []"
      using calls [of "Probe k"] by (auto simp: filter_empty_conv k_def)
    moreover have "ab_calls s3 = ab_calls s1" by (simp add: s3_def s2_def release_reservation_def split: option.split)
    ultimately show ?thesis using nth [OF that] by (simp add: polls_def w_def)
  qed
  have fields: "ab_waiters s3 = ab_waiters s1 @ [(a, k)]" "length (ab_all s3) = Suc k" "ab_refused s3 = ab_refused s1"
    "ab_calls s3 = ab_calls s1"
    by (simp_all add: s3_def s2_def k_def release_reservation_def split: option.split)
  have "map_ok s3"
    using s1 fresh nth by (auto simp: broker_ok_def map_ok_def fields map_of_eq_None_iff w_def k_def)
  moreover have "slots_ok s3"
  proof (cases "wi_reservation inp")
    case None
    then show ?thesis using s1 room
      by (simp add: s3_def s2_def broker_ok_def slots_ok_def occupiedSlots_def)
  next
    case (Some r)
    have "slots_ok s1" using s1 by (simp add: broker_ok_def)
    moreover have "Suc (length (remove1 r (ab_reservations s1))) = length (ab_reservations s1)"
      if "r \<in> set (ab_reservations s1)" using length_pos_if_in_set [OF that] that by (simp add: length_remove1)
    ultimately show ?thesis using Some
      by (auto simp: s3_def s2_def slots_ok_def occupiedSlots_def release_reservation_def remove1_idem
          dest: set_remove1_subset [THEN subsetD])
  qed
  moreover have "waiter_ok (if j \<in> {k} then 0 else 1) s3 j" if "j \<le> k" for j
  proof (cases "j = k")
    case True
    then show ?thesis by (simp add: waiter_ok_def blocked_ok_def nth polls w_def fields)
  next
    case False
    then have "waiter_ok 1 s1 j" using s1 that by (simp add: broker_ok_def k_def)
    then show ?thesis using False that
      by (simp add: waiter_ok_def released_ok_def blocked_ok_def nth polls fields)
  qed
  ultimately have "broker_ok {k} s3"
    using calls by (fastforce simp: broker_ok_def fields less_Suc_eq_le k_def)
  then have s4: "broker_inv (make_call (Probe k) s3)"
    by (rule probe_inv) (simp_all add: fields nth w_def)
  then have "broker_inv (make_call (Withdrawal k reason) (make_call (Probe k) s3))" for reason
    by (rule other_call_inv) (simp_all add: fields)
  with s4 have "broker_inv (if wi_signal inp = Some True then make_call (Withdrawal k
      (Cancel (readCancelCause (wi_cancelCause inp)))) (make_call (Probe k) s3) else make_call (Probe k) s3)"
    by simp
  then show ?thesis
    unfolding awaitStudioSettlement_def if_not_P [OF admitted [folded a_def]] Let_def fst_conv
      a_def [symmetric] s1_def [symmetric] k_def [symmetric] w_def [symmetric] s2_def [symmetric] s3_def [symmetric] .
qed

text \<open>Tearing the broker down settles every waiter of the map.\<close>

lemma settle_all:
  assumes "broker_inv s" "\<forall>k\<in>set ks. k < length (ab_all s)"
  shows "broker_inv (fold (\<lambda>k. settle_waiter k Broker_closed) ks s)"
  using assms by (induction ks arbitrary: s) (simp_all add: settle_inv)

lemma settle_cleared:
  "settle_waiter k outcome (dispose_waiter k (t\<lparr>ab_waiters := []\<rparr>)) = (settle_waiter k outcome t)\<lparr>ab_waiters := []\<rparr>"
  if "k < length (ab_all t)" "\<not> wt_released (waiter k t)"
proof -
  let ?u = "dispose_waiter k (t\<lparr>ab_waiters := []\<rparr>)"
  have u: "?u = (upd_waiter k idle_waiter t)\<lparr>ab_waiters := []\<rparr>"
    by (simp add: dispose_waiter_def upd_waiter_def)
  have "answered outcome (idle_waiter w) = answered outcome w" for w
    by (simp add: answered_def idle_waiter_def)
  then have "upd_waiter k (answered outcome) (upd_waiter k idle_waiter t) = upd_waiter k (answered outcome) t"
    using that by (simp add: upd_waiter_def)
  moreover have "wt_released (waiter k ?u) = wt_released (waiter k t)"
    using that by (simp add: u waiter_upd idle_waiter_def)
  ultimately show ?thesis
    using that by (simp add: settle_waiter_eq u) (simp add: upd_waiter_def)
qed

lemma released_settle:
  "k < length (ab_all s) \<Longrightarrow> j < length (ab_all s) \<Longrightarrow>
     wt_released (waiter j (settle_waiter k outcome s)) = (j = k \<or> wt_released (waiter j s))"
  by (cases "wt_released (waiter k s)") (auto simp: settle_waiter_eq settle_waiter_released waiter_upd answered_def idle_waiter_def)

lemma dispose_eq:
  "distinct ks \<Longrightarrow> (\<And>k. k \<in> set ks \<Longrightarrow> k < length (ab_all t) \<and> \<not> wt_released (waiter k t)) \<Longrightarrow>
     fold (\<lambda>k t. settle_waiter k Broker_closed (dispose_waiter k t)) ks (t\<lparr>ab_waiters := []\<rparr>)
       = (fold (\<lambda>k. settle_waiter k Broker_closed) ks t)\<lparr>ab_waiters := []\<rparr>"
proof (induction ks arbitrary: t)
  case (Cons k ks)
  have "j < length (ab_all (settle_waiter k Broker_closed t)) \<and> \<not> wt_released (waiter j (settle_waiter k Broker_closed t))"
    if "j \<in> set ks" for j
    using Cons.prems that by (auto simp: released_settle)
  then show ?case
    using Cons.IH [of "settle_waiter k Broker_closed t"] Cons.prems by (simp add: settle_cleared)
qed simp

lemma released_all:
  "\<forall>k\<in>set ks. k < length (ab_all s) \<Longrightarrow> j < length (ab_all s) \<Longrightarrow>
     wt_released (waiter j (fold (\<lambda>k. settle_waiter k Broker_closed) ks s)) = (j \<in> set ks \<or> wt_released (waiter j s))"
  by (induction ks arbitrary: s) (auto simp: released_settle)

lemma fold_settle_frame:
  "set (ab_waiters (fold (\<lambda>k. settle_waiter k Broker_closed) ks s)) \<subseteq> set (ab_waiters s)
   \<and> length (ab_all (fold (\<lambda>k. settle_waiter k Broker_closed) ks s)) = length (ab_all s)"
proof (induction ks arbitrary: s)
  case (Cons k ks)
  have "set (ab_waiters (settle_waiter k Broker_closed s)) \<subseteq> set (ab_waiters s)"
    by (auto simp: settle_waiter_def dispose_waiter_def)
  with Cons.IH [of "settle_waiter k Broker_closed s"] show ?case by auto
qed simp

definition clear_reservations :: "approval_broker \<Rightarrow> approval_broker" where
  "clear_reservations s = s\<lparr>ab_reservations := []\<rparr>"

lemma dispose_broker_eq:
  assumes ok: "broker_inv s"
  shows "disposeStudioApprovalBroker s
    = fold (\<lambda>k. settle_waiter k Broker_closed) (map snd (ab_waiters s)) (clear_reservations s)"
    and "broker_inv (disposeStudioApprovalBroker s)"
proof -
  let ?t = "clear_reservations s" and ?ks = "map snd (ab_waiters s)"
  let ?u = "fold (\<lambda>k. settle_waiter k Broker_closed) ?ks ?t"
  have entry: "k < length (ab_all s) \<and> wt_approvalId (waiter k s) = a \<and> \<not> wt_released (waiter k s)"
    if "(a, k) \<in> set (ab_waiters s)" for a k using ok that by (auto simp: broker_ok_def map_ok_def)
  have d: "distinct (ab_waiters s)" using ok by (simp add: broker_ok_def map_ok_def distinct_map)
  have "x = y" if "x \<in> set (ab_waiters s)" "y \<in> set (ab_waiters s)" "snd x = snd y" for x y
    using that entry by (metis prod.collapse)
  then have "inj_on snd (set (ab_waiters s))" by (blast intro: inj_onI)
  with d have distinct: "distinct ?ks" by (simp add: distinct_map)
  have "slots_ok (s\<lparr>ab_reservations := [], ab_nextReservation := ab_nextReservation s\<rparr>)"
    using ok by (simp add: broker_ok_def slots_ok_def occupiedSlots_def)
  from slots_frame [OF ok this] have t: "broker_inv ?t" by (simp add: clear_reservations_def)
  have below: "\<forall>k\<in>set ?ks. k < length (ab_all ?t)" using entry by (auto simp: clear_reservations_def)
  from settle_all [OF t below] have u: "broker_inv ?u" .
  have "ab_waiters ?u = []"
  proof (rule ccontr)
    assume "ab_waiters ?u \<noteq> []"
    then obtain a k where ak: "(a, k) \<in> set (ab_waiters ?u)" by (metis list.set_intros(1) neq_Nil_conv prod.exhaust)
    then have "\<not> wt_released (waiter k ?u)" using u by (auto simp: broker_ok_def map_ok_def)
    moreover have "(a, k) \<in> set (ab_waiters s)" using ak fold_settle_frame [of ?ks ?t] by (auto simp: clear_reservations_def)
    then have "k \<in> set ?ks" "k < length (ab_all ?t)" using below by force+
    ultimately show False using released_all [OF below] by simp
  qed
  then have "?u\<lparr>ab_waiters := []\<rparr> = ?u" by simp
  moreover have "fold (\<lambda>k t. settle_waiter k Broker_closed (dispose_waiter k t)) ?ks (?t\<lparr>ab_waiters := []\<rparr>)
      = ?u\<lparr>ab_waiters := []\<rparr>"
    using entry by (intro dispose_eq distinct) (auto simp: clear_reservations_def)
  moreover have "s\<lparr>ab_waiters := [], ab_reservations := []\<rparr> = ?t\<lparr>ab_waiters := []\<rparr>"
    by (simp add: clear_reservations_def)
  ultimately show eq: "disposeStudioApprovalBroker s = ?u"
    by (simp add: disposeStudioApprovalBroker_def)
  show "broker_inv (disposeStudioApprovalBroker s)" unfolding eq by (rule u)
qed

lemma broker_step_inv: "broker_inv s \<Longrightarrow> broker_inv (broker_step s a)"
  by (cases a) (simp_all add: reserve_inv release_reservation_inv configure_inv await_inv settleStudioWaiter_inv
      withdraw_inv recheck_inv timer_invs call_returns_inv dispose_broker_eq(2))

interpretation approvals: invariant_machine broker_step broker_inv
  by unfold_locales (rule broker_step_inv)

lemma run_broker_inv: "broker_inv (foldl broker_step new_broker ops)"
  by (rule approvals.run_inv [OF new_broker_inv])

section \<open>What a run keeps\<close>

text \<open>Waiters keep their approval, and an answered one its answer.\<close>

definition keeps_answers :: "approval_broker \<Rightarrow> approval_broker \<Rightarrow> bool" where
  "keeps_answers s t =
     (length (ab_all s) \<le> length (ab_all t)
      \<and> (\<forall>k<length (ab_all s). wt_approvalId (waiter k t) = wt_approvalId (waiter k s)
           \<and> (wt_released (waiter k s) \<longrightarrow> wt_released (waiter k t) \<and> wt_outcome (waiter k t) = wt_outcome (waiter k s))))"

lemma keeps_refl [simp]: "keeps_answers s s"
  by (simp add: keeps_answers_def)

lemma keeps_trans: "keeps_answers s t \<Longrightarrow> keeps_answers t u \<Longrightarrow> keeps_answers s u"
  by (fastforce simp: keeps_answers_def)

lemma keeps_same_waiters: "ab_all t = ab_all s \<Longrightarrow> keeps_answers s t"
  by (simp add: keeps_answers_def waiter_def)

lemma keeps_upd:
  assumes f: "\<And>w. wt_approvalId (f w) = wt_approvalId w \<and> wt_released (f w) = wt_released w \<and> wt_outcome (f w) = wt_outcome w"
  shows "keeps_answers s (upd_waiter k f s)"
proof (cases "k < length (ab_all s)")
  case True
  have "wt_approvalId (waiter j (upd_waiter k f s)) = wt_approvalId (waiter j s)
      \<and> wt_released (waiter j (upd_waiter k f s)) = wt_released (waiter j s)
      \<and> wt_outcome (waiter j (upd_waiter k f s)) = wt_outcome (waiter j s)" for j
    using f [of "waiter k s"] by (simp add: waiter_upd [OF True])
  then show ?thesis by (simp add: keeps_answers_def)
next
  case False
  then have "upd_waiter k f s = s" by (simp add: upd_waiter_def list_update_beyond)
  then show ?thesis by simp
qed

lemma keeps_settle: "k < length (ab_all s) \<Longrightarrow> keeps_answers s (settle_waiter k outcome s)"
  by (cases "wt_released (waiter k s)")
    (auto simp: settle_waiter_released settle_waiter_eq keeps_answers_def waiter_upd answered_def idle_waiter_def)

lemma keeps_make_call: "keeps_answers s t \<Longrightarrow> keeps_answers s (make_call c t)"
  by (simp add: keeps_answers_def)

lemma keeps_settle_all:
  "\<forall>k\<in>set ks. k < length (ab_all s) \<Longrightarrow> keeps_answers s (fold (\<lambda>k. settle_waiter k Broker_closed) ks s)"
proof (induction ks arbitrary: s)
  case (Cons k ks)
  then show ?case using keeps_trans [OF keeps_settle [of k s Broker_closed]] by simp
qed simp

lemma keeps_schedule: "keeps_answers s t \<Longrightarrow> keeps_answers s (scheduleRecheck k t)"
  unfolding scheduleRecheck_def using keeps_upd [of "\<lambda>w. w\<lparr>wt_recheckTimer := True\<rparr>" t k]
  by (auto intro: keeps_trans)

lemma keeps_call_returns:
  assumes ok: "broker_inv s"
  shows "keeps_answers s (call_returns i result s)"
proof (cases "i < length (ab_calls s)")
  case i: True
  obtain c asked where c: "ab_calls s ! i = (c, asked)" by (cases "ab_calls s ! i")
  let ?s1 = "s\<lparr>ab_calls := take i (ab_calls s) @ drop (Suc i) (ab_calls s)\<rparr>"
  have k: "call_waiter c < length (ab_all s)" by (rule removed_call_ok(2) [OF ok i c])
  have settle: "keeps_answers s (settle_waiter (call_waiter c) outcome t)" if "ab_all t = ab_all s" for outcome t
    using k that keeps_trans [OF keeps_same_waiters [of t s] keeps_settle [of "call_waiter c" t outcome]] by simp
  show ?thesis
    using settle keeps_same_waiters i
    by (cases c)
      (auto simp: call_returns_def c probeDurableRow_def runWithdrawal_def runExpiry_def Let_def
        intro!: keeps_schedule split: call_result.split option.split)
qed (simp add: call_returns_def)

lemma keeps_await:
  assumes ok: "broker_inv s"
  shows "keeps_answers s (fst (awaitStudioSettlement inp s))"
proof (cases "wi_reservation inp = None \<and> occupiedSlots s \<ge> STUDIO_WAITER_CAP \<and> map_of (ab_waiters s) (wi_approvalId inp) = None")
  case False
  define s1 where "s1 = (case map_of (ab_waiters s) (wi_approvalId inp) of None \<Rightarrow> s
    | Some existing \<Rightarrow> settle_waiter existing Broker_closed s)"
  have s1: "keeps_answers s s1" using map_of_waiter [OF ok] keeps_settle by (auto simp: s1_def split: option.split)
  have "keeps_answers s t" if "ab_all t = ab_all s1 @ ws" for t ws
    using s1 that by (auto simp: keeps_answers_def waiter_def nth_append)
  then show ?thesis
    unfolding awaitStudioSettlement_def if_not_P [OF False] Let_def fst_conv s1_def [symmetric]
    by (auto simp: release_reservation_def split: option.split intro!: keeps_make_call)
qed (simp add: awaitStudioSettlement_def)

lemma keeps_step:
  assumes ok: "broker_inv s"
  shows "keeps_answers s (broker_step s a)"
proof (cases a)
  case (Settle_row row)
  then show ?thesis using map_of_waiter [OF ok]
    by (auto simp: settleStudioWaiter_def intro: keeps_settle split: option.split)
next
  case (Withdraw approvalId cause)
  then show ?thesis by (auto simp: withdrawStudioWaiter_def intro: keeps_make_call split: option.split)
next
  case Dispose_broker
  have "\<forall>k\<in>set (map snd (ab_waiters s)). k < length (ab_all (clear_reservations s))"
    using ok by (auto simp: broker_ok_def map_ok_def clear_reservations_def)
  from keeps_settle_all [OF this] show ?thesis
    using Dispose_broker keeps_trans [OF keeps_same_waiters [of "clear_reservations s" s]]
    by (simp add: dispose_broker_eq(1) [OF ok]) (simp add: clear_reservations_def)
next
  case Reserve
  then show ?thesis by (simp add: reserveStudioWaiterSlot_def keeps_same_waiters)
next
  case (Release_reservation r)
  then show ?thesis by (simp add: release_reservation_def keeps_same_waiters)
next
  case Configure
  then show ?thesis by (simp add: configureStudioApprovalBroker_def keeps_same_waiters)
qed (simp_all add: recheck_fires_def progress_fires_def progress_returns_def expiry_fires_def abort_fires_def Let_def
    ok keeps_await keeps_call_returns keeps_make_call keeps_upd)

lemma keeps_run:
  assumes "broker_inv s"
  shows "keeps_answers s (foldl broker_step s ops)"
  using assms
proof (induction ops arbitrary: s)
  case (Cons a ops)
  then show ?case using keeps_trans [OF keeps_step [of s a]] broker_step_inv [of s a] by simp
qed simp

text \<open>Once the functions are configured, every call asks them.\<close>

definition all_asked :: "approval_broker \<Rightarrow> bool" where
  "all_asked s = (ab_configured s \<and> (\<forall>(c, asked)\<in>set (ab_calls s). asked))"

lemma all_asked_simps [simp]:
  "all_asked (make_call c s) = all_asked s" "all_asked (upd_waiter k f s) = all_asked s"
  "all_asked (s\<lparr>ab_waiters := m\<rparr>) = all_asked s" "all_asked (s\<lparr>ab_refused := fs\<rparr>) = all_asked s"
  "all_asked (s\<lparr>ab_reservations := rs\<rparr>) = all_asked s" "all_asked (s\<lparr>ab_stale := n\<rparr>) = all_asked s"
  "all_asked (s\<lparr>ab_all := ws\<rparr>) = all_asked s" "all_asked (s\<lparr>ab_nextReservation := n\<rparr>) = all_asked s"
  "all_asked (settle_waiter k outcome s) = all_asked s" "all_asked (dispose_waiter k s) = all_asked s"
  by (auto simp: all_asked_def make_call_def upd_waiter_def settle_waiter_def dispose_waiter_def)

lemma all_asked_dispose: "all_asked (fold (\<lambda>k t. settle_waiter k Broker_closed (dispose_waiter k t)) ks s) = all_asked s"
  by (induction ks arbitrary: s) simp_all

lemma all_asked_returns: "all_asked s \<Longrightarrow> all_asked (call_returns i result s)"
proof -
  assume s: "all_asked s"
  have "all_asked (s\<lparr>ab_calls := take i (ab_calls s) @ drop (Suc i) (ab_calls s)\<rparr>)"
    using s by (auto simp: all_asked_def dest: in_set_takeD in_set_dropD)
  then show ?thesis using s
    by (auto simp: call_returns_def probeDurableRow_def scheduleRecheck_def runWithdrawal_def runExpiry_def Let_def
        split: prod.split broker_call.split call_result.split option.split)
qed

lemma all_asked_step: "all_asked s \<Longrightarrow> all_asked (broker_step s a)"
  by (cases a)
    (auto simp: reserveStudioWaiterSlot_def release_reservation_def configureStudioApprovalBroker_def
      awaitStudioSettlement_def settleStudioWaiter_def withdrawStudioWaiter_def recheck_fires_def progress_fires_def
      progress_returns_def expiry_fires_def abort_fires_def disposeStudioApprovalBroker_def all_asked_dispose
      all_asked_returns Let_def split: option.split, simp_all add: all_asked_def)

lemma all_asked_run: "all_asked s \<Longrightarrow> all_asked (foldl broker_step s ops)"
  by (induction ops arbitrary: s) (simp_all add: all_asked_step)

section \<open>Properties\<close>

text \<open>
  C9: A blocked call is answered once: whatever happens afterwards the answer stays, no timer, abort
  listener or entry of the map is left behind, and the answer is true: \<open>settled\<close> carries a terminal row,
  and a withdrawal is reported as committed only where the durable refusal of that approval for that
  reason was.
\<close>

theorem broker_answer_is_final_and_true:
  assumes "s = foldl broker_step new_broker before" and "k < length (ab_all s)"
    and "wt_outcome (waiter k s) = Some answer" and "u = foldl broker_step s afterwards"
  shows "wt_outcome (waiter k u) = Some answer
    \<and> answer_true (ab_refused u) (wt_approvalId (waiter k s)) answer
    \<and> \<not> wt_expiryTimer (waiter k u) \<and> \<not> wt_recheckTimer (waiter k u) \<and> \<not> wt_progressTimer (waiter k u)
    \<and> \<not> wt_abortListener (waiter k u) \<and> k \<notin> snd ` set (ab_waiters u)"
proof -
  have s: "broker_inv s" unfolding assms(1) by (rule run_broker_inv)
  have u: "broker_inv u" unfolding assms(4) by (rule approvals.run_inv [OF s])
  have k: "keeps_answers s u" unfolding assms(4) by (rule keeps_run [OF s])
  have "wt_released (waiter k s)"
    using s assms(2,3) by (auto simp: broker_ok_def waiter_ok_def blocked_ok_def)
  with k assms(2,3) have w: "wt_released (waiter k u)" "wt_outcome (waiter k u) = Some answer"
    "wt_approvalId (waiter k u) = wt_approvalId (waiter k s)" "k < length (ab_all u)"
    by (auto simp: keeps_answers_def)
  then have "released_ok u (waiter k u)" using u by (auto simp: broker_ok_def waiter_ok_def)
  moreover have "k \<notin> snd ` set (ab_waiters u)" using u w(1) by (auto simp: broker_ok_def map_ok_def)
  ultimately show ?thesis using w by (simp add: released_ok_def)
qed

text \<open>A call that is withdrawn while its approval is being settled.\<close>

definition sample_waiter :: waiter_input where
  "sample_waiter = \<lparr>wi_approvalId = ''a'', wi_expires = True, wi_progress = False, wi_signal = Some False,
     wi_cancelCause = None, wi_reservation = None\<rparr>"

definition sample_row :: settlement_row where
  "sample_row = \<lparr>sr_approvalId = ''a'', sr_decision = Some ''approved'', sr_executionStatus = ''succeeded''\<rparr>"

lemmas broker_run_defs = awaitStudioSettlement_def configureStudioApprovalBroker_def settleStudioWaiter_def
  settle_waiter_def dispose_waiter_def upd_waiter_def idle_waiter_def waiter_def make_call_def new_broker_def
  sample_waiter_def sample_row_def isTerminalStudioRow_def occupiedSlots_def STUDIO_WAITER_CAP_def Let_def

theorem broker_answer_is_final_and_true_witness:
  "wt_outcome (waiter 0 (foldl broker_step (foldl broker_step new_broker [Await sample_waiter, Settle_row sample_row])
     [Abort_fires 0 (Some Disconnect), Await sample_waiter, Dispose_broker])) = Some (Settled_row sample_row)"
proof -
  define s where "s = foldl broker_step new_broker [Await sample_waiter, Settle_row sample_row]"
  have "0 < length (ab_all s)" "wt_outcome (waiter 0 s) = Some (Settled_row sample_row)"
    by (simp_all add: s_def broker_run_defs)
  from broker_answer_is_final_and_true [OF s_def this refl] show ?thesis unfolding s_def by blast
qed

text \<open>
  C23: No blocked call is stranded by a lost event: it is in the map under its approval, and the durable
  row is being read, or the timer of the next read is armed; when such a read comes back with a
  terminal row, the call is answered with that row.
\<close>

theorem broker_never_strands:
  assumes "s = foldl broker_step (configureStudioApprovalBroker new_broker) ops" and "k < length (ab_all s)"
    and "wt_outcome (waiter k s) = None" and "isTerminalStudioRow row"
  defines "t \<equiv> broker_step s (Recheck_fires k)"
  shows "(wt_approvalId (waiter k s), k) \<in> set (ab_waiters s)
    \<and> (\<exists>i. i < length (ab_calls t) \<and> fst (ab_calls t ! i) = Probe k
         \<and> wt_outcome (waiter k (call_returns i (Read_row (Some row)) t)) = Some (Settled_row row))"
proof -
  have start: "broker_inv (configureStudioApprovalBroker new_broker)" by (rule configure_inv [OF new_broker_inv])
  have s: "broker_inv s" unfolding assms(1) by (rule approvals.run_inv [OF start])
  have t: "broker_inv t" unfolding t_def by (rule broker_step_inv [OF s])
  have "all_asked s" unfolding assms(1)
    by (rule all_asked_run) (simp add: all_asked_def configureStudioApprovalBroker_def new_broker_def)
  then have asked: "all_asked t" unfolding t_def by (rule all_asked_step)
  have blocks: "\<not> wt_released (waiter k s)" "(wt_approvalId (waiter k s), k) \<in> set (ab_waiters s)" "polls k s = 1"
    using s assms(2,3) by (auto simp: broker_ok_def waiter_ok_def released_ok_def blocked_ok_def)
  have tk: "k < length (ab_all t)" "\<not> wt_released (waiter k t)" "\<not> wt_recheckTimer (waiter k t)"
    using assms(2) blocks(1) by (auto simp: t_def recheck_fires_def Let_def waiter_upd)
  then have "polls k t = 1" using t by (auto simp: broker_ok_def waiter_ok_def blocked_ok_def)
  then have "filter (\<lambda>c. fst c = Probe k) (ab_calls t) \<noteq> []" using tk(3) by (auto simp: polls_def)
  then obtain i where i: "i < length (ab_calls t)" "fst (ab_calls t ! i) = Probe k"
    by (auto simp: filter_empty_conv in_set_conv_nth)
  moreover have "snd (ab_calls t ! i)" using asked nth_mem [OF i(1)] unfolding all_asked_def by (metis case_prod_beta)
  ultimately have c: "ab_calls t ! i = (Probe k, True)" by (cases "ab_calls t ! i") simp
  have "wt_outcome (waiter k (call_returns i (Read_row (Some row)) t)) = Some (Settled_row row)"
    using i(1) tk assms(4)
    by (simp add: call_returns_def c probeDurableRow_def Let_def settle_waiter_eq scheduleRecheck_def waiter_upd
        answered_def idle_waiter_def)
  with i blocks(2) show ?thesis by blast
qed

theorem broker_never_strands_witness:
  "\<exists>i. wt_outcome (waiter 0 (call_returns i (Read_row (Some sample_row))
     (broker_step (foldl broker_step (configureStudioApprovalBroker new_broker)
        [Await sample_waiter, Call_returns 0 Call_threw]) (Recheck_fires 0)))) = Some (Settled_row sample_row)"
proof -
  define s where "s = foldl broker_step (configureStudioApprovalBroker new_broker)
      [Await sample_waiter, Call_returns 0 Call_threw]"
  have "0 < length (ab_all s)" "wt_outcome (waiter 0 s) = None"
    by (simp_all add: s_def broker_run_defs call_returns_def probeDurableRow_def scheduleRecheck_def)
  moreover have "isTerminalStudioRow sample_row" by (simp add: isTerminalStudioRow_def sample_row_def)
  ultimately show ?thesis using broker_never_strands [OF s_def] unfolding s_def by blast
qed

text \<open>
  Blocked calls and outstanding reservations together stay within the cap of 32, but for the calls
  that came with a reservation that was no longer outstanding: those are not counted against it.
\<close>

theorem waiters_within_cap:
  fixes ops :: "broker_op list"
  defines "s \<equiv> foldl broker_step new_broker ops"
  shows "occupiedSlots s \<le> STUDIO_WAITER_CAP + ab_stale s"
  using run_broker_inv [of ops] by (simp add: s_def broker_ok_def slots_ok_def)

text \<open>And they do exceed it: a reservation that was released still lets a call past a full house.\<close>

lemma reserve_many:
  "occupiedSlots s + n \<le> STUDIO_WAITER_CAP \<Longrightarrow>
     foldl broker_step s (replicate n Reserve)
       = s\<lparr>ab_reservations := ab_reservations s @ [ab_nextReservation s..<ab_nextReservation s + n],
           ab_nextReservation := ab_nextReservation s + n\<rparr>"
proof (induction n arbitrary: s)
  case (Suc n)
  let ?t = "s\<lparr>ab_reservations := ab_reservations s @ [ab_nextReservation s], ab_nextReservation := ab_nextReservation s + 1\<rparr>"
  have "fst (reserveStudioWaiterSlot s) = ?t" using Suc.prems by (simp add: reserveStudioWaiterSlot_def)
  moreover have "occupiedSlots ?t + n \<le> STUDIO_WAITER_CAP" using Suc.prems by (simp add: occupiedSlots_def)
  ultimately show ?case using Suc.IH [of ?t] by (simp add: upt_rec)
qed simp

lemma stale_reservation_exceeds_cap:
  "occupiedSlots (foldl broker_step new_broker
     ([Reserve, Release_reservation 0] @ replicate 32 Reserve @ [Await (sample_waiter\<lparr>wi_reservation := Some 0\<rparr>)])) = 33"
proof -
  define s where "s = foldl broker_step new_broker [Reserve, Release_reservation 0]"
  have s: "ab_waiters s = []" "ab_reservations s = []" "ab_nextReservation s = 1"
    by (simp_all add: s_def new_broker_def reserveStudioWaiterSlot_def release_reservation_def occupiedSlots_def STUDIO_WAITER_CAP_def)
  then have "foldl broker_step s (replicate 32 Reserve) = s\<lparr>ab_reservations := [1..<33], ab_nextReservation := 33\<rparr>"
    using reserve_many [of s 32] by (simp add: occupiedSlots_def STUDIO_WAITER_CAP_def)
  moreover have "remove1 0 [1..<33] = [1..<33 :: nat]" by (simp add: remove1_idem)
  ultimately show ?thesis
    unfolding foldl_append s_def [symmetric]
    by (simp add: awaitStudioSettlement_def s sample_waiter_def Let_def occupiedSlots_def release_reservation_def make_call_def)
qed

end
