(* ===== verification/FileCoalescer.thy ===== *)
theory FileCoalescer
  imports Prelude
begin

text \<open>
  The coalescer of file-system events (\<open>main/studio/files/coalescer.ts\<close>): what the operating system
  said in one window, turned into the changes a consumer is told.

  A JavaScript \<open>Map\<close> is an association list in insertion order, the set of remembered deletions a list
  without duplicates. The probe of the disk is the argument \<open>missing\<close>; within one call its answers are
  cached by the code, so it is a function there, and every window has its own.
\<close>

section \<open>Maps in insertion order\<close>

type_synonym ('k, 'v) js_map = "('k \<times> 'v) list"

fun map_set :: "'k \<Rightarrow> 'v \<Rightarrow> ('k, 'v) js_map \<Rightarrow> ('k, 'v) js_map" where
  "map_set k v [] = [(k, v)]"
| "map_set k v ((k', v') # m) = (if k' = k then (k, v) # m else (k', v') # map_set k v m)"

definition map_delete :: "'k \<Rightarrow> ('k, 'v) js_map \<Rightarrow> ('k, 'v) js_map" where
  "map_delete k m = filter (\<lambda>(k', _). k' \<noteq> k) m"

definition map_has :: "'k \<Rightarrow> ('k, 'v) js_map \<Rightarrow> bool" where
  "map_has k m = (map_of m k \<noteq> None)"

lemma map_of_set_at: "map_of (map_set k v m) x = (if x = k then Some v else map_of m x)"
  by (induction k v m rule: map_set.induct) auto

lemma map_of_set [simp]: "map_of (map_set k v m) = (map_of m)(k \<mapsto> v)"
  by (rule ext) (simp add: map_of_set_at)

lemma map_of_delete [simp]: "map_of (map_delete k m) = (map_of m)(k := None)"
  by (induction m) (auto simp: map_delete_def)

lemma keys_set: "fst ` set (map_set k v m) = insert k (fst ` set m)"
  by (induction k v m rule: map_set.induct) auto

lemma distinct_set [simp]: "distinct (map fst m) \<Longrightarrow> distinct (map fst (map_set k v m))"
  by (induction k v m rule: map_set.induct) (auto simp: keys_set)

lemma distinct_filter_keys [simp]: "distinct (map fst m) \<Longrightarrow> distinct (map fst (filter P m))"
  by (induction m) auto

lemma distinct_delete [simp]: "distinct (map fst m) \<Longrightarrow> distinct (map fst (map_delete k m))"
  by (simp add: map_delete_def)

lemma length_set: "length (map_set k v m) = (if map_has k m then length m else Suc (length m))"
  by (induction k v m rule: map_set.induct) (auto simp: map_has_def)

lemma map_of_filter_keys:
  "distinct (map fst m) \<Longrightarrow> map_of (filter (\<lambda>(k, v). P k) m) k = (if P k then map_of m k else None)"
  by (induction m) (auto simp: map_of_eq_None_iff)

section \<open>The code\<close>

datatype event_type = Create | Update | Delete

datatype change_kind = Added | Updated | Deleted

record raw_event =
  ev_path :: string
  ev_type :: event_type

type_synonym changes = "(string, change_kind) js_map"

abbreviation slash :: char where
  "slash \<equiv> CHR ''/''"

definition parentOf :: "string \<Rightarrow> string" where
  "parentOf path = rev (tl (dropWhile (\<lambda>c. c \<noteq> slash) (rev path)))"

lemma parentOf_shorter: "path \<noteq> [] \<Longrightarrow> length (parentOf path) < length path"
proof -
  assume "path \<noteq> []"
  let ?d = "dropWhile (\<lambda>c. c \<noteq> slash) (rev path)"
  have "length ?d \<le> length path" using length_dropWhile_le [of _ "rev path"] by simp
  moreover have "length (tl ?d) = length ?d - 1" by simp
  moreover have "0 < length path" using \<open>path \<noteq> []\<close> by simp
  ultimately have "length (tl ?d) < length path" by linarith
  then show ?thesis by (simp add: parentOf_def)
qed

text \<open>The path and its parents, the empty one excluded, in the order the loops visit them.\<close>

function path_chain :: "string \<Rightarrow> string list" where
  "path_chain path = (if path = [] then [] else path # path_chain (parentOf path))"
  by pat_completeness auto
termination by (relation "measure length") (simp_all add: parentOf_shorter)

declare path_chain.simps [simp del]

definition deletedAncestor :: "string \<Rightarrow> string list \<Rightarrow> string option" where
  "deletedAncestor path deleted = find (\<lambda>candidate. candidate \<in> set deleted) (path_chain path)"

fun kindOf :: "event_type \<Rightarrow> change_kind" where
  "kindOf Create = Added"
| "kindOf Delete = Deleted"
| "kindOf Update = Updated"

definition foldFileEvent :: "changes \<Rightarrow> raw_event \<Rightarrow> changes" where
  "foldFileEvent into event =
     (let incoming = kindOf (ev_type event)
      in case map_of into (ev_path event) of
           None \<Rightarrow> map_set (ev_path event) incoming into
         | Some existing \<Rightarrow>
             if existing = Added \<and> incoming = Deleted then map_delete (ev_path event) into
             else if existing = Deleted \<and> incoming = Added then map_set (ev_path event) Updated into
             else if existing = Added \<and> incoming = Updated then into
             else if existing = Deleted \<and> incoming = Updated then map_set (ev_path event) Updated into
             else map_set (ev_path event) incoming into)"

definition startsWith :: "string \<Rightarrow> string \<Rightarrow> bool" where
  "startsWith s prefix = (take (length prefix) s = prefix)"

definition suppressUnderDeletedParents :: "changes \<Rightarrow> changes" where
  "suppressUnderDeletedParents changes =
     (let deletedPrefixes = map (\<lambda>(path, _). path @ [slash]) (filter (\<lambda>(_, kind). kind = Deleted) changes)
      in filter (\<lambda>(path, _). \<not> list_ex (startsWith path) deletedPrefixes) changes)"

text \<open>A delete is promoted to its highest ancestor that is missing too.\<close>

function highest_missing :: "(string \<Rightarrow> bool) \<Rightarrow> string \<Rightarrow> string" where
  "highest_missing missing path =
     (if path = [] \<or> parentOf path = [] \<or> \<not> missing (parentOf path) then path
      else highest_missing missing (parentOf path))"
  by pat_completeness auto
termination by (relation "measure (\<lambda>(_, path). length path)") (simp_all add: parentOf_shorter)

declare highest_missing.simps [simp del]

record coalescing =
  co_into :: changes
  co_deleted :: "string list"
  co_dropped :: nat

definition revive_parent :: "string \<Rightarrow> string \<Rightarrow> coalescing \<Rightarrow> coalescing" where
  "revive_parent path candidate s =
     s\<lparr>co_deleted := removeAll candidate (co_deleted s),
       co_into := (if candidate \<noteq> path \<and> map_of (co_into s) candidate = Some Deleted
                   then map_set candidate Updated (co_into s) else co_into s)\<rparr>"

definition fold_bounded :: "nat \<Rightarrow> raw_event \<Rightarrow> coalescing \<Rightarrow> coalescing" where
  "fold_bounded limit event s =
     (if \<not> map_has (ev_path event) (co_into s) \<and> length (co_into s) \<ge> limit then s\<lparr>co_dropped := co_dropped s + 1\<rparr>
      else s\<lparr>co_into := foldFileEvent (co_into s) event\<rparr>)"

text \<open>One event of the loop; \<open>context\<close> is whether the watcher supplies its probe and its history.\<close>

definition coalesce_event :: "(string \<Rightarrow> bool) \<Rightarrow> bool \<Rightarrow> nat \<Rightarrow> coalescing \<Rightarrow> raw_event \<Rightarrow> coalescing" where
  "coalesce_event missing ctxt limit s raw =
     (if \<not> ctxt then fold_bounded limit raw s
      else if ev_type raw = Delete then
        let highest = highest_missing missing (ev_path raw)
        in if deletedAncestor highest (co_deleted s) \<noteq> None \<and> \<not> map_has highest (co_into s) then s
           else fold_bounded limit \<lparr>ev_path = highest, ev_type = Delete\<rparr> s
      else
        let wasDeleted = deletedAncestor (ev_path raw) (co_deleted s) \<noteq> None
              \<or> list_ex (\<lambda>candidate. map_of (co_into s) candidate = Some Deleted) (path_chain (ev_path raw))
        in if wasDeleted \<and> missing (ev_path raw) then s
           else fold_bounded limit raw (fold (revive_parent (ev_path raw)) (path_chain (ev_path raw)) s))"

text \<open>The history of deletions is bounded too; the flag asks for a new listing.\<close>

definition remember :: "nat \<Rightarrow> string \<times> change_kind \<Rightarrow> string list \<times> bool \<Rightarrow> string list \<times> bool" where
  "remember limit entry st =
     (let (path, kind) = entry; (deleted, overflow) = st
      in if kind \<noteq> Deleted \<or> path \<in> set deleted then (deleted, overflow)
         else let (deleted1, overflow1) = (if length deleted \<ge> limit then ([], True) else (deleted, overflow))
              in (if limit > 0 then deleted1 @ [path] else deleted1, overflow1))"

record coalesced =
  cd_changes :: changes
  cd_dropped :: nat
  cd_historyOverflow :: bool
  cd_deletedPaths :: "string list"

definition coalesceFileEvents ::
    "(string \<Rightarrow> bool) \<Rightarrow> bool \<Rightarrow> raw_event list \<Rightarrow> nat \<Rightarrow> changes \<Rightarrow> string list \<Rightarrow> coalesced" where
  "coalesceFileEvents missing ctxt events limit into deletedPaths =
     (let s = foldl (coalesce_event missing ctxt limit)
                \<lparr>co_into = into, co_deleted = deletedPaths, co_dropped = 0\<rparr> events;
          changes = suppressUnderDeletedParents (co_into s);
          (deleted, overflow) = (if ctxt then fold (remember limit) changes (co_deleted s, False)
                                 else (co_deleted s, False))
      in \<lparr>cd_changes = changes, cd_dropped = co_dropped s, cd_historyOverflow = overflow, cd_deletedPaths = deleted\<rparr>)"

section \<open>What really happened to a path\<close>

text \<open>
  The events of a window describe a history: a create needs the path to be absent, an update or a delete
  needs it there. The reference is what became of the path between the two ends of the window.
\<close>

fun exists_after :: "bool \<Rightarrow> event_type list \<Rightarrow> bool" where
  "exists_after before [] = before"
| "exists_after before (Create # ts) = exists_after True ts"
| "exists_after before (Update # ts) = exists_after before ts"
| "exists_after before (Delete # ts) = exists_after False ts"

fun history :: "bool \<Rightarrow> event_type list \<Rightarrow> bool" where
  "history before [] = True"
| "history before (Create # ts) = (\<not> before \<and> history True ts)"
| "history before (Update # ts) = (before \<and> history True ts)"
| "history before (Delete # ts) = (before \<and> history False ts)"

definition events_of :: "string \<Rightarrow> raw_event list \<Rightarrow> event_type list" where
  "events_of path events = map ev_type (filter (\<lambda>e. ev_path e = path) events)"

definition net_change :: "bool \<Rightarrow> event_type list \<Rightarrow> change_kind option" where
  "net_change before ts =
     (if ts = [] then None
      else if before then Some (if exists_after before ts then Updated else Deleted)
      else if exists_after before ts then Some Added else None)"

lemma exists_after_append [simp]: "exists_after b (xs @ ys) = exists_after (exists_after b xs) ys"
proof (induction xs arbitrary: b)
  case (Cons x xs)
  then show ?case by (cases x) simp_all
qed simp

lemma history_append [simp]: "history b (xs @ ys) = (history b xs \<and> history (exists_after b xs) ys)"
proof (induction xs arbitrary: b)
  case (Cons x xs)
  then show ?case by (cases x; cases b) simp_all
qed simp

lemma fold_event_other:
  "path \<noteq> ev_path event \<Longrightarrow> map_of (foldFileEvent into event) path = map_of into path"
  by (auto simp: foldFileEvent_def Let_def split: option.split)

lemma fold_event_net:
  assumes "map_of into (ev_path event) = net_change before ts" and "history before (ts @ [ev_type event])"
  shows "map_of (foldFileEvent into event) (ev_path event) = net_change before (ts @ [ev_type event])"
  using assms
  by (cases "ev_type event"; cases before; cases "exists_after before ts")
    (auto simp: foldFileEvent_def net_change_def Let_def split: if_splits)

lemma events_of_snoc [simp]:
  "events_of path (events @ [e]) = events_of path events @ (if ev_path e = path then [ev_type e] else [])"
  by (simp add: events_of_def)

lemma fold_events_net:
  "(\<And>path. history (before path) (events_of path events)) \<Longrightarrow>
     map_of (foldl foldFileEvent [] events) path = net_change (before path) (events_of path events)"
proof (induction events arbitrary: path rule: rev_induct)
  case Nil
  then show ?case by (simp add: net_change_def events_of_def)
next
  case (snoc e events)
  have h: "history (before q) (events_of q events)" for q
    using snoc.prems [of q] by (simp split: if_splits)
  show ?case
  proof (cases "ev_path e = path")
    case True
    with snoc.prems [of path] show ?thesis
      using fold_event_net [of "foldl foldFileEvent [] events" e "before path" "events_of path events"] snoc.IH [OF h]
      by simp
  next
    case False
    then show ?thesis using snoc.IH [OF h] fold_event_other [of path e] by simp
  qed
qed

lemma distinct_fold_event [simp]: "distinct (map fst into) \<Longrightarrow> distinct (map fst (foldFileEvent into e))"
  by (simp add: foldFileEvent_def Let_def split: option.split)

lemma distinct_fold_events: "distinct (map fst into) \<Longrightarrow> distinct (map fst (foldl foldFileEvent into events))"
  by (induction events arbitrary: into) simp_all

lemma keys_fold_event: "fst ` set (foldFileEvent into e) \<subseteq> insert (ev_path e) (fst ` set into)"
  by (auto simp: foldFileEvent_def Let_def keys_set map_delete_def split: option.split)

section \<open>The bounds\<close>

lemma length_le_keys: "distinct (map fst m) \<Longrightarrow> fst ` set m \<subseteq> A \<Longrightarrow> finite A \<Longrightarrow> length m \<le> card A"
  by (metis card_mono distinct_card length_map list.set_map)

lemma fold_events_within:
  "distinct (map fst into) \<Longrightarrow> card (fst ` set into \<union> ev_path ` set events) \<le> limit \<Longrightarrow>
     foldl (coalesce_event missing False limit) \<lparr>co_into = into, co_deleted = d, co_dropped = n\<rparr> events
       = \<lparr>co_into = foldl foldFileEvent into events, co_deleted = d, co_dropped = n\<rparr>"
proof (induction events arbitrary: into)
  case (Cons e events)
  let ?A = "fst ` set into \<union> ev_path ` set (e # events)"
  have room: "map_has (ev_path e) into \<or> length into < limit"
  proof (rule ccontr)
    assume no: "\<not> (map_has (ev_path e) into \<or> length into < limit)"
    then have "ev_path e \<notin> fst ` set into" by (simp add: map_has_def map_of_eq_None_iff)
    moreover have "card (fst ` set into) = length into"
      using Cons.prems(1) by (metis distinct_card length_map list.set_map)
    ultimately have "length into < card ?A"
      by (metis (no_types, lifting) List.finite_set UnI1 UnI2 finite_Un finite_imageI image_eqI list.set_intros(1) psubsetI psubset_card_mono subsetI)
    with Cons.prems(2) no show False by simp
  qed
  have step: "coalesce_event missing False limit \<lparr>co_into = into, co_deleted = d, co_dropped = n\<rparr> e
      = \<lparr>co_into = foldFileEvent into e, co_deleted = d, co_dropped = n\<rparr>"
    using room by (auto simp: coalesce_event_def fold_bounded_def)
  have "fst ` set (foldFileEvent into e) \<union> ev_path ` set events \<subseteq> ?A" using keys_fold_event [of into e] by auto
  then have "card (fst ` set (foldFileEvent into e) \<union> ev_path ` set events) \<le> limit"
    using Cons.prems(2) by (meson card_mono finite_Un finite_imageI List.finite_set order_trans)
  from Cons.IH [OF distinct_fold_event [OF Cons.prems(1)] this] step show ?case by simp
qed simp

text \<open>A path is under another when it starts with it and a slash.\<close>

definition strictly_under :: "string \<Rightarrow> string \<Rightarrow> bool" where
  "strictly_under path parent = startsWith path (parent @ [slash])"

lemma map_of_suppress:
  assumes "distinct (map fst m)"
  shows "map_of (suppressUnderDeletedParents m) path
    = (if \<exists>parent. map_of m parent = Some Deleted \<and> strictly_under path parent then None else map_of m path)"
proof -
  have "list_ex (startsWith p) (map (\<lambda>(path, _). path @ [slash]) (filter (\<lambda>(_, kind). kind = Deleted) m))
      = (\<exists>parent. map_of m parent = Some Deleted \<and> strictly_under p parent)" for p
    using assms by (force simp: list_ex_iff strictly_under_def)
  then show ?thesis
    using map_of_filter_keys [OF assms, of "\<lambda>p. \<not> (\<exists>parent. map_of m parent = Some Deleted \<and> strictly_under p parent)"]
    by (auto simp: suppressUnderDeletedParents_def Let_def)
qed

lemma distinct_suppress [simp]: "distinct (map fst m) \<Longrightarrow> distinct (map fst (suppressUnderDeletedParents m))"
  by (simp add: suppressUnderDeletedParents_def Let_def)

lemma length_fold_event:
  "length (foldFileEvent into e) \<le> (if map_has (ev_path e) into then length into else Suc (length into))"
proof -
  have "length (map_delete k m) \<le> length m" for k and m :: changes by (simp add: map_delete_def)
  then show ?thesis
    by (auto simp: foldFileEvent_def Let_def length_set map_has_def split: option.split)
qed

definition within_limit :: "nat \<Rightarrow> coalescing \<Rightarrow> bool" where
  "within_limit limit s = (length (co_into s) \<le> limit \<and> length (co_deleted s) \<le> limit)"

lemma revive_within: "within_limit limit s \<Longrightarrow> within_limit limit (revive_parent path candidate s)"
  by (auto simp: within_limit_def revive_parent_def length_set map_has_def intro: order_trans [OF length_removeAll_less_eq])

lemma revive_all:
  "within_limit limit s \<Longrightarrow> within_limit limit (fold (revive_parent path) chain s)
     \<and> co_dropped (fold (revive_parent path) chain s) = co_dropped s"
proof (induction chain arbitrary: s)
  case (Cons c chain)
  then show ?case using Cons.IH [OF revive_within [OF Cons.prems]] by (simp add: revive_parent_def)
qed simp

lemma fold_bounded_within:
  "within_limit limit s \<Longrightarrow> within_limit limit (fold_bounded limit e s) \<and> co_dropped (fold_bounded limit e s) \<le> co_dropped s + 1"
  using length_fold_event [of "co_into s" e] by (auto simp: within_limit_def fold_bounded_def split: if_splits)

lemma coalesce_event_within:
  "within_limit limit s \<Longrightarrow> within_limit limit (coalesce_event missing ctxt limit s e)
     \<and> co_dropped (coalesce_event missing ctxt limit s e) \<le> co_dropped s + 1"
proof -
  assume s: "within_limit limit s"
  have b: "within_limit limit (fold_bounded limit x t) \<and> co_dropped (fold_bounded limit x t) \<le> co_dropped s + 1"
    if "within_limit limit t" "co_dropped t = co_dropped s" for x t
    using fold_bounded_within [OF that(1), of x] that(2) by simp
  show ?thesis
    using s b [OF s refl] revive_all [OF s] b
    by (simp add: coalesce_event_def Let_def)
qed

lemma coalesce_events_within:
  "within_limit limit s \<Longrightarrow> within_limit limit (foldl (coalesce_event missing ctxt limit) s events)
     \<and> co_dropped (foldl (coalesce_event missing ctxt limit) s events) \<le> co_dropped s + length events"
proof (induction events arbitrary: s)
  case (Cons e events)
  note e = coalesce_event_within [OF Cons.prems, of missing ctxt e]
  from Cons.IH [OF e [THEN conjunct1]] e show ?case by simp
qed simp

lemma remember_within: "length d \<le> limit \<Longrightarrow> length (fst (fold (remember limit) entries (d, b))) \<le> limit"
proof (induction entries arbitrary: d b)
  case (Cons x entries)
  have "length (fst (remember limit x (d, b))) \<le> limit"
    using Cons.prems by (cases x; cases limit) (auto simp: remember_def)
  then show ?case using Cons.IH [of "fst (remember limit x (d, b))" "snd (remember limit x (d, b))"] by simp
qed simp

lemma known_deletion_silent:
  assumes "\<forall>e\<in>set events. ev_type e = Delete \<and> deletedAncestor (highest_missing missing (ev_path e)) d \<noteq> None"
  shows "foldl (coalesce_event missing True limit) \<lparr>co_into = [], co_deleted = d, co_dropped = 0\<rparr> events
    = \<lparr>co_into = [], co_deleted = d, co_dropped = 0\<rparr>"
  using assms by (induction events) (auto simp: coalesce_event_def Let_def map_has_def)

section \<open>Properties\<close>


text \<open>An atomic save beside a temporary file, and a folder that goes with what is in it.\<close>

definition sample_window :: "raw_event list" where
  "sample_window =
     [\<lparr>ev_path = ''t'', ev_type = Create\<rparr>, \<lparr>ev_path = ''f'', ev_type = Delete\<rparr>, \<lparr>ev_path = ''f'', ev_type = Create\<rparr>,
      \<lparr>ev_path = ''t'', ev_type = Delete\<rparr>, \<lparr>ev_path = ''d/x'', ev_type = Delete\<rparr>, \<lparr>ev_path = ''d'', ev_type = Delete\<rparr>]"


text \<open>
  A window never makes the pending map or the history of deletions larger than the limit, drops at
  most the events it was given, and never reports a path together with a deletion above it; and a
  window of deletions that are already known reports nothing and leaves the history alone.
\<close>

theorem coalescer_bounded_and_minimal:
  assumes "length into \<le> limit" and "length deleted \<le> limit" and "distinct (map fst into)"
    and "r = coalesceFileEvents missing ctxt events limit into deleted"
  shows "length (cd_changes r) \<le> limit \<and> length (cd_deletedPaths r) \<le> limit \<and> cd_dropped r \<le> length events
    \<and> list_all (\<lambda>(path, kind). \<not> list_ex (\<lambda>(parent, k). k = Deleted \<and> strictly_under path parent) (cd_changes r)) (cd_changes r)
    \<and> (ctxt \<and> into = []
         \<and> list_all (\<lambda>e. ev_type e = Delete \<and> deletedAncestor (highest_missing missing (ev_path e)) deleted \<noteq> None) events
       \<longrightarrow> cd_changes r = [] \<and> cd_deletedPaths r = deleted \<and> \<not> cd_historyOverflow r)"
proof -
  define s where "s = foldl (coalesce_event missing ctxt limit) \<lparr>co_into = into, co_deleted = deleted, co_dropped = 0\<rparr> events"
  have s: "within_limit limit s" "co_dropped s \<le> length events"
    using coalesce_events_within [of limit "\<lparr>co_into = into, co_deleted = deleted, co_dropped = 0\<rparr>" missing ctxt events] assms(1,2)
    by (simp_all add: s_def within_limit_def)
  have r: "cd_changes r = suppressUnderDeletedParents (co_into s)" "cd_dropped r = co_dropped s"
    "cd_deletedPaths r = (if ctxt then fst (fold (remember limit) (cd_changes r) (co_deleted s, False)) else co_deleted s)"
    "cd_historyOverflow r = (ctxt \<and> snd (fold (remember limit) (cd_changes r) (co_deleted s, False)))"
    unfolding assms(4) coalesceFileEvents_def s_def [symmetric] Let_def case_prod_beta by simp_all
  have "length (cd_changes r) \<le> limit"
    using s(1) by (auto simp: r(1) suppressUnderDeletedParents_def Let_def within_limit_def intro: order_trans [OF length_filter_le])
  moreover have "length (cd_deletedPaths r) \<le> limit"
    using s(1) remember_within by (simp add: r(3) within_limit_def)
  moreover have "list_all (\<lambda>(path, kind). \<not> list_ex (\<lambda>(parent, k). k = Deleted \<and> strictly_under path parent) (cd_changes r)) (cd_changes r)"
    by (fastforce simp: r(1) suppressUnderDeletedParents_def Let_def list_all_iff list_ex_iff strictly_under_def)
  moreover have "cd_changes r = [] \<and> cd_deletedPaths r = deleted \<and> \<not> cd_historyOverflow r"
    if "ctxt \<and> into = [] \<and> list_all (\<lambda>e. ev_type e = Delete \<and> deletedAncestor (highest_missing missing (ev_path e)) deleted \<noteq> None) events"
  proof -
    have "s = \<lparr>co_into = [], co_deleted = deleted, co_dropped = 0\<rparr>"
      using that known_deletion_silent [of events missing deleted limit] by (auto simp: s_def list_all_iff)
    then show ?thesis using that by (simp add: r suppressUnderDeletedParents_def)
  qed
  moreover have "cd_dropped r \<le> length events" using s(2) r(2) by simp
  ultimately show ?thesis by blast
qed

theorem coalescer_bounded_and_minimal_witness:
  "cd_changes (coalesceFileEvents (\<lambda>p. p = ''d'') True [\<lparr>ev_path = ''d/x'', ev_type = Delete\<rparr>] 1 [] [''d'']) = []"
proof -
  have "deletedAncestor (highest_missing (\<lambda>p. p = ''d'') ''d/x'') [''d''] \<noteq> None"
    by (simp add: deletedAncestor_def path_chain.simps highest_missing.simps parentOf_def)
  then show ?thesis
    using coalescer_bounded_and_minimal [OF _ _ _ refl, of "[]" 1 "[''d'']" "\<lambda>p. p = ''d''" True "[\<lparr>ev_path = ''d/x'', ev_type = Delete\<rparr>]"]
    by simp
qed

text \<open>
  A create that is reported for a file that was there (a rename over it, on some systems) makes the
  coalescer take the file for a new one: deleted in the same window, it vanishes without a report.
\<close>

lemma overwrite_then_delete_is_lost:
  "0 < limit \<Longrightarrow> cd_changes (coalesceFileEvents missing False
     [\<lparr>ev_path = p, ev_type = Update\<rparr>, \<lparr>ev_path = p, ev_type = Create\<rparr>, \<lparr>ev_path = p, ev_type = Delete\<rparr>] limit [] d) = []"
  by (simp add: coalesceFileEvents_def coalesce_event_def fold_bounded_def foldFileEvent_def map_has_def map_delete_def
      suppressUnderDeletedParents_def)

end
