(* ===== verification/StudioHandshake.thy ===== *)
theory StudioHandshake
  imports JsonText FrontHandshake
begin

text \<open>
  The host side of the bridge handshake (\<open>mcp-host/handshake.ts\<close>): one line in, one line out. Of
  \<open>JSON.parse\<close> the code reads two members of an object; the parser itself is the argument \<open>json\<close>,
  from the bytes of the line to a document or \<open>None\<close> where it throws. A number comes with the text
  \<open>String\<close> gives for it.
\<close>

datatype json_value = Json_number js_number string | Json_text string | Json_else

datatype json_document = Json_object "string \<Rightarrow> json_value option" | Json_nonobject

definition STUDIO_BRIDGE_PROTOCOL_VERSION :: nat where "STUDIO_BRIDGE_PROTOCOL_VERSION = 1"
definition STUDIO_HANDSHAKE_MAX_BYTES :: nat where "STUDIO_HANDSHAKE_MAX_BYTES = 4096"

datatype refusal_code = Unknown_project | Incompatible_version | Refused_locked | At_capacity | Malformed

record handshake_refusal =
  hr_code :: refusal_code
  hr_message :: string

datatype handshake_parse = Handshake_accepted string bytes | Handshake_refused handshake_refusal | Handshake_pending

section \<open>The project id\<close>

definition is_hex :: "char \<Rightarrow> bool" where
  "is_hex c = (is_digit c \<or> 65 \<le> code_unit c \<and> code_unit c \<le> 70 \<or> 97 \<le> code_unit c \<and> code_unit c \<le> 102)"

fun hex_groups :: "nat list \<Rightarrow> string \<Rightarrow> bool" where
  "hex_groups [] s = (s = [])"
| "hex_groups [n] s = (length s = n \<and> list_all is_hex s)"
| "hex_groups (n # m # ns) s =
     (length (take n s) = n \<and> list_all is_hex (take n s)
      \<and> (case drop n s of [] \<Rightarrow> False | c # rest \<Rightarrow> c = CHR ''-'' \<and> hex_groups (m # ns) rest))"

definition UUID_RE :: "string \<Rightarrow> bool" where
  "UUID_RE = hex_groups [8, 4, 4, 4, 12]"

section \<open>Parsing\<close>

definition malformed_handshake :: "string \<Rightarrow> handshake_refusal" where
  "malformed_handshake detail =
     \<lparr>hr_code = Malformed,
      hr_message = ''The Vex Studio handshake is malformed: '' @ detail @ ''. Send one line of ''
        @ ''{\"v\":'' @ show_nat STUDIO_BRIDGE_PROTOCOL_VERSION @ '',\"projectId\":\"<uuid>\"} ''
        @ ''and wait for the ack before forwarding MCP.''\<rparr>"

definition incompatible_version :: "string \<Rightarrow> handshake_refusal" where
  "incompatible_version version =
     \<lparr>hr_code = Incompatible_version,
      hr_message = ''This Vex speaks Studio bridge protocol v'' @ show_nat STUDIO_BRIDGE_PROTOCOL_VERSION
        @ '' and the bridge asked for v'' @ version @ ''. Update whichever of the two ''
        @ ''is older. Nothing was executed.''\<rparr>"

definition parse_line :: "(bytes \<Rightarrow> json_document option) \<Rightarrow> bytes \<Rightarrow> (handshake_refusal, string) result" where
  "parse_line json line =
     (case json line of
        None \<Rightarrow> Inl (malformed_handshake ''the line is not JSON'')
      | Some Json_nonobject \<Rightarrow> Inl (malformed_handshake ''the line is not a JSON object'')
      | Some (Json_object record) \<Rightarrow>
          (case record ''v'' of
             Some (Json_number version text) \<Rightarrow>
               if \<not> is_integer version then Inl (malformed_handshake ''\"v\" must be an integer major version'')
               else if int_of_js version \<noteq> int STUDIO_BRIDGE_PROTOCOL_VERSION then Inl (incompatible_version text)
               else (case record ''projectId'' of
                  Some (Json_text projectId) \<Rightarrow>
                    if \<not> UUID_RE projectId then Inl (malformed_handshake ''\"projectId\" must be a UUID string'')
                    else Inr projectId
                | _ \<Rightarrow> Inl (malformed_handshake ''\"projectId\" must be a UUID string''))
           | _ \<Rightarrow> Inl (malformed_handshake ''\"v\" must be an integer major version'')))"

definition parseStudioHandshake :: "(bytes \<Rightarrow> json_document option) \<Rightarrow> bytes \<Rightarrow> handshake_parse" where
  "parseStudioHandshake json buffered =
     (if 10 \<notin> set buffered then
        (if length buffered > STUDIO_HANDSHAKE_MAX_BYTES
         then Handshake_refused (malformed_handshake
           (''no newline within '' @ show_nat STUDIO_HANDSHAKE_MAX_BYTES @ '' bytes''))
         else Handshake_pending)
      else
        let line = takeWhile (\<lambda>b. b \<noteq> 10) buffered;
            remainder = tl (dropWhile (\<lambda>b. b \<noteq> 10) buffered)
        in if length line > STUDIO_HANDSHAKE_MAX_BYTES
           then Handshake_refused (malformed_handshake
             (''the line is '' @ show_nat (length line) @ '' bytes, over the ''
              @ show_nat STUDIO_HANDSHAKE_MAX_BYTES @ ''-byte limit''))
           else case parse_line json line of
                  Inl refusal \<Rightarrow> Handshake_refused refusal
                | Inr projectId \<Rightarrow> Handshake_accepted projectId remainder)"

section \<open>The answer\<close>

fun refusal_code_text :: "refusal_code \<Rightarrow> string" where
  "refusal_code_text Unknown_project = ''unknown_project''"
| "refusal_code_text Incompatible_version = ''incompatible_version''"
| "refusal_code_text Refused_locked = ''locked''"
| "refusal_code_text At_capacity = ''at_capacity''"
| "refusal_code_text Malformed = ''malformed''"

text \<open>\<open>None\<close> is the ack \<open>ok\<close>; the host never leaves code or message out.\<close>

definition encodeStudioHandshakeAck :: "handshake_refusal option \<Rightarrow> string" where
  "encodeStudioHandshakeAck ack =
     (case ack of
        None \<Rightarrow> ''{\"ok\":true}'' @ [CHR 0x0A]
      | Some refusal \<Rightarrow>
          ''{\"ok\":false,\"code\":'' @ json_string (refusal_code_text (hr_code refusal))
          @ '',\"message\":'' @ json_string (hr_message refusal) @ ''}'' @ [CHR 0x0A])"

definition unknownProjectRefusal :: handshake_refusal where
  "unknownProjectRefusal =
     \<lparr>hr_code = Unknown_project,
      hr_message = ''That Vex project does not exist. It was deleted, or the bridge was ''
        @ ''configured with a project id from another Vex installation. Open Vex ''
        @ ''and re-add the MCP server for a project that exists.''\<rparr>"

definition lockedRefusal :: "string \<Rightarrow> handshake_refusal" where
  "lockedRefusal cause = \<lparr>hr_code = Refused_locked, hr_message = cause\<rparr>"

definition handshakeTimeoutRefusal :: handshake_refusal where
  "handshakeTimeoutRefusal =
     \<lparr>hr_code = Malformed,
      hr_message = ''No Vex Studio handshake arrived within '' @ show_nat STUDIO_HANDSHAKE_DEADLINE_MS @ '' ms. ''
        @ ''Send the handshake line first and wait for the ack.''\<rparr>"

definition atCapacityRefusal :: "nat \<Rightarrow> string \<Rightarrow> handshake_refusal" where
  "atCapacityRefusal limit what =
     \<lparr>hr_code = At_capacity,
      hr_message = ''Vex Studio already has '' @ show_nat limit @ '' '' @ what @ '' and refuses more rather ''
        @ ''than dropping one that may be waiting on a human decision. Close an ''
        @ ''unused MCP client and connect again. Nothing was executed.''\<rparr>"

section \<open>One line, one answer\<close>

lemma takeWhile_dropWhile_append:
  "x \<in> set b \<Longrightarrow> takeWhile (\<lambda>y. y \<noteq> x) (b @ c) = takeWhile (\<lambda>y. y \<noteq> x) b
     \<and> tl (dropWhile (\<lambda>y. y \<noteq> x) (b @ c)) = tl (dropWhile (\<lambda>y. y \<noteq> x) b) @ c"
  by (induction b) auto

text \<open>Once the newline is there, more bytes only extend the remainder.\<close>

lemma parse_more_bytes:
  assumes "10 \<in> set b"
  shows "parseStudioHandshake json (b @ c) =
    (case parseStudioHandshake json b of
       Handshake_accepted projectId remainder \<Rightarrow> Handshake_accepted projectId (remainder @ c)
     | answer \<Rightarrow> answer)"
  using assms takeWhile_dropWhile_append [of 10 b c]
  by (simp add: parseStudioHandshake_def Let_def split: sum.split)

lemma parse_pending_iff:
  "parseStudioHandshake json b = Handshake_pending \<longleftrightarrow> 10 \<notin> set b \<and> length b \<le> STUDIO_HANDSHAKE_MAX_BYTES"
  by (auto simp: parseStudioHandshake_def Let_def split: sum.splits)

lemma parse_line_answer:
  assumes "10 \<notin> set line"
  shows "parseStudioHandshake json (line @ 10 # rest) =
    (if length line > STUDIO_HANDSHAKE_MAX_BYTES
     then Handshake_refused (malformed_handshake
       (''the line is '' @ show_nat (length line) @ '' bytes, over the ''
        @ show_nat STUDIO_HANDSHAKE_MAX_BYTES @ ''-byte limit''))
     else case parse_line json line of
            Inl refusal \<Rightarrow> Handshake_refused refusal
          | Inr projectId \<Rightarrow> Handshake_accepted projectId rest)"
proof -
  have "takeWhile (\<lambda>b. b \<noteq> 10) (line @ 10 # rest) = line" "dropWhile (\<lambda>b. b \<noteq> 10) (line @ 10 # rest) = 10 # rest"
    using assms by (induction line) auto
  then show ?thesis by (simp add: parseStudioHandshake_def Let_def)
qed

text \<open>An ack is one line: its only newline is the last character, whatever the message holds.\<close>

lemma ack_is_one_line:
  "\<exists>body. encodeStudioHandshakeAck ack = body @ [CHR 0x0A] \<and> CHR 0x0A \<notin> set body"
proof (cases ack)
  case None
  then show ?thesis by (intro exI [of _ "''{\"ok\":true}''"]) (simp add: encodeStudioHandshakeAck_def)
next
  case (Some r)
  have no: "CHR 0x0A \<notin> set (json_string s)" for s
    using json_string_printable [of "CHR 0x0A" s] by (auto simp: code_unit_def)
  show ?thesis
    using no [of "refusal_code_text (hr_code r)"] no [of "hr_message r"]
    by (intro exI [of _ "''{\"ok\":false,\"code\":'' @ json_string (refusal_code_text (hr_code r))
          @ '',\"message\":'' @ json_string (hr_message r) @ ''}''"])
      (simp add: encodeStudioHandshakeAck_def Some)
qed

lemma refusal_code_text_inject: "refusal_code_text a = refusal_code_text b \<longleftrightarrow> a = b"
  by (cases a; cases b) simp_all

text \<open>The bridge reads the refusal the host wrote: the ack determines code and message.\<close>

lemma ack_determines_answer: "encodeStudioHandshakeAck a = encodeStudioHandshakeAck b \<longleftrightarrow> a = b"
proof (cases a; cases b)
  fix r q
  assume ab: "a = Some r" "b = Some q"
  have "encodeStudioHandshakeAck (Some r) = encodeStudioHandshakeAck (Some q)
    \<longleftrightarrow> refusal_code_text (hr_code r) = refusal_code_text (hr_code q) \<and> hr_message r = hr_message q"
    by (simp only: encodeStudioHandshakeAck_def option.case append_assoc same_append_eq json_string_inject) simp
  then show ?thesis by (simp only: ab refusal_code_text_inject) auto
qed (simp_all add: encodeStudioHandshakeAck_def)

end
