(* ===== verification/StudioConnection.thy ===== *)
theory StudioConnection
  imports StudioHandshake OutboundQueue ApprovalBroker
begin

text \<open>
  One Studio MCP connection, from accepted wire to settled teardown (\<open>mcp-host/connection.ts\<close>,
  class \<open>StudioConnection\<close>), with the serve chain it starts (\<open>mcp-host/serve.ts\<close>). A method runs
  up to its first wait; what it waits for is a field, and the continuation is an operation of its
  own. What the host answers to the connection's questions is the argument \<open>studio_env\<close> of the
  operation that asks; the calls into the host (claim and release of the established slot, the
  callback \<open>onClosed\<close>) are counters the host reads; \<open>cn_epoch\<close> is the epoch its \<open>isStale\<close> captured. The wire's state is that of the queue's wire.
  Log lines and their counters are left out.
\<close>

section \<open>State\<close>

datatype close_cause =
    Peer_end | Peer_error | Wire_failure | Refused | Locked | Quit | Stale | Owner_close

definition ownerCloseCause :: "cancel_cause \<Rightarrow> close_cause" where
  "ownerCloseCause cause =
     (if cause = Lock_cause then Locked else if cause = Vex_quit then Quit else Owner_close)"

definition STUDIO_MAX_INFLIGHT_PER_CONNECTION :: nat where
  "STUDIO_MAX_INFLIGHT_PER_CONNECTION = 8"

datatype conn_phase = Handshaking | Serving_phase | Refusing | Closed_phase

text \<open>
  Where \<open>establish\<close> waits: for the project check, whose answer is known already when admission
  was not ready; or for the promise of the success ack.
\<close>

datatype establish_wait =
    Not_establishing
  | Awaiting_check string bytes "handshake_refusal option"
  | Awaiting_ack nat string bytes

text \<open>The serve chain: not started, importing the modules, running the server, over.\<close>

datatype serve_state = Not_served | Importing | Running | Serve_over

record studio_conn =
  cn_epoch :: nat
  cn_phase :: conn_phase
  cn_buffered :: bytes
  cn_listening :: bool
  cn_handshakeTimer :: bool
  cn_establish :: establish_wait
  cn_refusal :: "nat option"
  cn_closing :: bool
  cn_served :: bool
  cn_serve :: serve_state
  cn_serve_closed :: bool
  cn_inFlight :: nat
  cn_cause :: cancel_cause
  cn_disposed :: bool
  cn_closedLatch :: bool
  cn_slotRelease :: bool
  cn_closeCause :: "close_cause option"
  cn_outbound :: outbound_queue
  cn_acks :: "handshake_refusal option list"
  cn_reserves :: nat
  cn_releases :: nat
  cn_closedCalls :: nat

definition newStudioConnection :: "nat \<Rightarrow> studio_conn" where
  "newStudioConnection epoch =
     \<lparr>cn_epoch = epoch, cn_phase = Handshaking, cn_buffered = [], cn_listening = True, cn_handshakeTimer = True,
      cn_establish = Not_establishing, cn_refusal = None, cn_closing = False, cn_served = False,
      cn_serve = Not_served, cn_serve_closed = False, cn_inFlight = 0, cn_cause = Disconnect,
      cn_disposed = False, cn_closedLatch = False, cn_slotRelease = False, cn_closeCause = None,
      cn_outbound = newOutboundQueue None, cn_acks = [], cn_reserves = 0, cn_releases = 0,
      cn_closedCalls = 0\<rparr>"

text \<open>
  What the host answers: \<open>isStale\<close>; whether \<open>reserveConnectionSlot\<close> and \<open>acquireCallSlot\<close> have
  room; the refusal of \<open>checkProject\<close> when admission is not ready; whether the epoch the connection
  was accepted under is the current one.
\<close>

record studio_env =
  env_stale :: bool
  env_room :: bool
  env_call_room :: bool
  env_not_ready :: "handshake_refusal option"
  env_epoch_current :: bool

section \<open>Teardown\<close>

definition wire_destroyed :: "studio_conn \<Rightarrow> bool" where
  "wire_destroyed c = q_destroyed (cn_outbound c)"

definition destroy_wire :: "studio_conn \<Rightarrow> studio_conn" where
  "destroy_wire c = c\<lparr>cn_outbound := (cn_outbound c)\<lparr>q_destroyed := True\<rparr>\<rparr>"

definition noteCloseCause :: "close_cause \<Rightarrow> studio_conn \<Rightarrow> studio_conn" where
  "noteCloseCause cause c = (if cn_closeCause c \<noteq> None then c else c\<lparr>cn_closeCause := Some cause\<rparr>)"

definition releaseConnectionSlot :: "studio_conn \<Rightarrow> studio_conn" where
  "releaseConnectionSlot c =
     (if cn_slotRelease c then c\<lparr>cn_slotRelease := False, cn_releases := cn_releases c + 1\<rparr> else c)"

text \<open>The end of \<open>runDispose\<close>, after the served entry has closed.\<close>

definition dispose_end :: "studio_conn \<Rightarrow> studio_conn" where
  "dispose_end c = (destroy_wire c)\<lparr>cn_closing := False, cn_closedCalls := cn_closedCalls c + 1\<rparr>"

definition connection_dispose :: "cancel_cause \<Rightarrow> studio_conn \<Rightarrow> studio_conn" where
  "connection_dispose cause c =
     (if cn_disposed c then c
      else
        let c1 = c\<lparr>cn_disposed := True, cn_closedLatch := True, cn_cause := cause, cn_phase := Closed_phase\<rparr>;
            c2 = releaseConnectionSlot (noteCloseCause (ownerCloseCause cause) c1);
            c3 = c2\<lparr>cn_handshakeTimer := False, cn_listening := False, cn_outbound := queue_close (cn_outbound c2)\<rparr>
        in if cn_served c3 then c3\<lparr>cn_served := False, cn_serve_closed := True, cn_closing := True\<rparr>
           else dispose_end c3)"

definition destroyNow :: "cancel_cause \<Rightarrow> studio_conn \<Rightarrow> studio_conn" where
  "destroyNow cause c =
     (let c1 = releaseConnectionSlot
                 ((noteCloseCause (ownerCloseCause cause) c)\<lparr>cn_closedLatch := True, cn_cause := cause\<rparr>)
      in destroy_wire (c1\<lparr>cn_handshakeTimer := False, cn_outbound := queue_close (cn_outbound c1)\<rparr>))"

text \<open>The queue's overflow callback disposes of the connection before \<open>enqueue\<close> returns.\<close>

definition conn_enqueue :: "string \<Rightarrow> string option \<Rightarrow> write_reply \<Rightarrow> studio_conn \<Rightarrow> studio_conn" where
  "conn_enqueue line progressKey reply c =
     (let c1 = c\<lparr>cn_outbound := enqueue line progressKey reply (cn_outbound c)\<rparr>
      in if q_overflows (cn_outbound c1) \<noteq> q_overflows (cn_outbound c) then connection_dispose Disconnect c1 else c1)"

definition refuse :: "handshake_refusal \<Rightarrow> write_reply \<Rightarrow> studio_conn \<Rightarrow> studio_conn" where
  "refuse refusal reply c =
     (if cn_phase c = Closed_phase \<or> cn_phase c = Refusing then c
      else
        let c1 = noteCloseCause Refused (c\<lparr>cn_phase := Refusing\<rparr>);
            c2 = releaseConnectionSlot
                   (c1\<lparr>cn_handshakeTimer := False, cn_listening := False, cn_buffered := []\<rparr>);
            c3 = c2\<lparr>cn_acks := cn_acks c2 @ [Some refusal], cn_refusal := Some (q_next (cn_outbound c2))\<rparr>
        in conn_enqueue (encodeStudioHandshakeAck (Some refusal)) None reply c3)"

definition refuse_resumes :: "studio_conn \<Rightarrow> studio_conn" where
  "refuse_resumes c =
     (case cn_refusal c of
        Some k \<Rightarrow>
          if k \<in> fst ` set (q_settled (cn_outbound c)) then connection_dispose Disconnect (c\<lparr>cn_refusal := None\<rparr>) else c
      | None \<Rightarrow> c)"

definition isOver :: "studio_env \<Rightarrow> studio_conn \<Rightarrow> bool \<times> studio_conn" where
  "isOver env c =
     (if cn_closedLatch c \<or> cn_disposed c then (True, c)
      else (env_stale env, if env_stale env then noteCloseCause Stale c else c))"

section \<open>Establishing\<close>

definition establish :: "studio_env \<Rightarrow> string \<Rightarrow> bytes \<Rightarrow> studio_conn \<Rightarrow> studio_conn" where
  "establish env projectId remainder c =
     (let c1 = c\<lparr>cn_handshakeTimer := False\<rparr>; (over, c2) = isOver env c1
      in if over then connection_dispose (cn_cause c2) c2
         else c2\<lparr>cn_establish := Awaiting_check projectId remainder (env_not_ready env)\<rparr>)"

definition handleHandshakeData ::
    "(bytes \<Rightarrow> json_document option) \<Rightarrow> studio_env \<Rightarrow> bytes \<Rightarrow> write_reply \<Rightarrow> studio_conn \<Rightarrow> studio_conn" where
  "handleHandshakeData json env chunk reply c =
     (if cn_phase c \<noteq> Handshaking then c
      else
        let c1 = c\<lparr>cn_buffered := cn_buffered c @ chunk\<rparr>
        in case parseStudioHandshake json (cn_buffered c1) of
             Handshake_pending \<Rightarrow> c1
           | Handshake_refused refusal \<Rightarrow> refuse refusal reply c1
           | Handshake_accepted projectId remainder \<Rightarrow>
               let c2 = c1\<lparr>cn_listening := False, cn_buffered := []\<rparr>
               in if \<not> env_room env
                  then refuse (atCapacityRefusal STUDIO_MAX_CONNECTIONS ''MCP connections'') reply c2
                  else establish env projectId remainder
                         (c2\<lparr>cn_slotRelease := True, cn_reserves := cn_reserves c2 + 1\<rparr>))"

text \<open>What \<open>projectExists\<close> comes back with.\<close>

datatype check_answer = Exists bool | Check_failed

definition check_refusal :: "handshake_refusal option \<Rightarrow> check_answer \<Rightarrow> handshake_refusal option" where
  "check_refusal notReady answer =
     (case notReady of
        Some refusal \<Rightarrow> Some refusal
      | None \<Rightarrow> (case answer of Exists exists \<Rightarrow> if exists then None else Some unknownProjectRefusal
                 | Check_failed \<Rightarrow> None))"

definition check_resumes :: "studio_env \<Rightarrow> check_answer \<Rightarrow> write_reply \<Rightarrow> studio_conn \<Rightarrow> studio_conn" where
  "check_resumes env answer reply c =
     (case cn_establish c of
        Awaiting_check projectId remainder notReady \<Rightarrow>
          let (over, c1) = isOver env (c\<lparr>cn_establish := Not_establishing\<rparr>)
          in if over then c1
             else (case check_refusal notReady answer of
                Some refusal \<Rightarrow> refuse refusal reply c1
              | None \<Rightarrow>
                  conn_enqueue (encodeStudioHandshakeAck None) None reply
                    (c1\<lparr>cn_acks := cn_acks c1 @ [None],
                        cn_establish := Awaiting_ack (q_next (cn_outbound c1)) projectId remainder\<rparr>))
      | _ \<Rightarrow> c)"

definition ack_resumes :: "studio_env \<Rightarrow> studio_conn \<Rightarrow> studio_conn" where
  "ack_resumes env c =
     (case cn_establish c of
        Awaiting_ack k projectId remainder \<Rightarrow>
          if k \<notin> fst ` set (q_settled (cn_outbound c)) then c
          else
            let (over, c1) = isOver env (c\<lparr>cn_establish := Not_establishing\<rparr>)
            in if over then connection_dispose (cn_cause c1) c1
               else
                 let c2 = c1\<lparr>cn_phase := Serving_phase, cn_served := True, cn_serve := Importing\<rparr>;
                     (over2, c3) = isOver env c2
                 in if over2 then connection_dispose (cn_cause c3) c3 else c3
      | _ \<Rightarrow> c)"

section \<open>Serving\<close>

text \<open>
  The chain after the dynamic import, which may fail: \<open>onServeFailure\<close> disposes. A chain that was
  closed meanwhile, or whose epoch has passed, closes the transport, which destroys the wire.
\<close>

definition serve_ready :: "studio_env \<Rightarrow> bool \<Rightarrow> studio_conn \<Rightarrow> studio_conn" where
  "serve_ready env loaded c =
     (if cn_serve c \<noteq> Importing then c
      else if \<not> loaded then connection_dispose (cn_cause c) (c\<lparr>cn_serve := Serve_over\<rparr>)
      else if cn_serve_closed c \<or> \<not> env_epoch_current env then destroy_wire (c\<lparr>cn_serve := Serve_over\<rparr>)
      else c\<lparr>cn_serve := Running\<rparr>)"

text \<open>\<open>runDispose\<close> goes on once the entry has closed, which waits for the chain.\<close>

definition served_closed :: "studio_conn \<Rightarrow> studio_conn" where
  "served_closed c =
     (if cn_closing c \<and> cn_serve c \<noteq> Importing then dispose_end (c\<lparr>cn_serve := Serve_over\<rparr>) else c)"

definition serve_failed :: "studio_conn \<Rightarrow> studio_conn" where
  "serve_failed c = (if cn_serve c = Running then connection_dispose (cn_cause c) c else c)"

datatype call_answer = Not_queued_connection | Not_queued_global | Call_runs

definition boundedRunCall :: "studio_env \<Rightarrow> studio_conn \<Rightarrow> call_answer \<times> studio_conn" where
  "boundedRunCall env c =
     (if cn_inFlight c \<ge> STUDIO_MAX_INFLIGHT_PER_CONNECTION then (Not_queued_connection, c)
      else if \<not> env_call_room env then (Not_queued_global, c)
      else (Call_runs, c\<lparr>cn_inFlight := cn_inFlight c + 1\<rparr>))"

definition call_settles :: "studio_conn \<Rightarrow> studio_conn" where
  "call_settles c = (if cn_inFlight c > 0 then c\<lparr>cn_inFlight := cn_inFlight c - 1\<rparr> else c)"

section \<open>Operations\<close>

definition on_wire_closed :: "studio_conn \<Rightarrow> studio_conn" where
  "on_wire_closed c =
     (let c1 = c\<lparr>cn_outbound := on_edge Edge_gone ((cn_outbound c)\<lparr>q_destroyed := True\<rparr>)\<rparr>
      in connection_dispose (cn_cause c1) c1)"

datatype conn_op =
    Wire_data bytes write_reply
  | Handshake_deadline write_reply
  | Refuse_resumes
  | Check_resumes check_answer write_reply
  | Ack_resumes
  | Serve_ready bool
  | Serve_write string "string option" write_reply
  | Serve_failed
  | Serve_closed
  | Peer_ends
  | Wire_failed
  | Wire_error
  | Wire_closes
  | Wire_half_closed
  | Wire_flushes bool
  | Wire_drains
  | Writer_resumes write_reply
  | Run_call
  | Call_settles

fun conn_step :: "(bytes \<Rightarrow> json_document option) \<Rightarrow> studio_env \<Rightarrow> studio_conn \<Rightarrow> conn_op \<Rightarrow> studio_conn" where
  "conn_step json env c (Wire_data chunk reply) =
     (if cn_listening c then handleHandshakeData json env chunk reply c else c)"
| "conn_step json env c (Handshake_deadline reply) =
     (if \<not> cn_handshakeTimer c then c
      else let c1 = c\<lparr>cn_handshakeTimer := False\<rparr>
           in if cn_phase c1 \<noteq> Handshaking then c1 else refuse handshakeTimeoutRefusal reply c1)"
| "conn_step json env c Refuse_resumes = refuse_resumes c"
| "conn_step json env c (Check_resumes answer reply) = check_resumes env answer reply c"
| "conn_step json env c Ack_resumes = ack_resumes env c"
| "conn_step json env c (Serve_ready loaded) = serve_ready env loaded c"
| "conn_step json env c (Serve_write line progressKey reply) =
     (if cn_serve c = Running then conn_enqueue line progressKey reply c else c)"
| "conn_step json env c Serve_failed = serve_failed c"
| "conn_step json env c Serve_closed = served_closed c"
| "conn_step json env c Peer_ends = (if cn_serve c = Running then noteCloseCause Peer_end c else c)"
| "conn_step json env c Wire_failed = (if cn_serve c = Running then noteCloseCause Wire_failure c else c)"
| "conn_step json env c Wire_error = noteCloseCause Peer_error (c\<lparr>cn_outbound := on_edge Edge_gone (cn_outbound c)\<rparr>)"
| "conn_step json env c Wire_closes = on_wire_closed c"
| "conn_step json env c Wire_half_closed = c\<lparr>cn_outbound := (cn_outbound c)\<lparr>q_writableEnded := True\<rparr>\<rparr>"
| "conn_step json env c (Wire_flushes failed) =
     c\<lparr>cn_outbound := on_edge (Edge_callback failed) (cn_outbound c)\<rparr>"
| "conn_step json env c Wire_drains = c\<lparr>cn_outbound := on_edge Edge_drain (cn_outbound c)\<rparr>"
| "conn_step json env c (Writer_resumes reply) = c\<lparr>cn_outbound := resume_writer reply (cn_outbound c)\<rparr>"
| "conn_step json env c Run_call = (if cn_serve c = Running then snd (boundedRunCall env c) else c)"
| "conn_step json env c Call_settles = call_settles c"

section \<open>What the steps of a method do to the fields\<close>

lemma noteCloseCause_fields [simp]:
  "cn_epoch (noteCloseCause x c) = cn_epoch c" "cn_phase (noteCloseCause x c) = cn_phase c"
  "cn_buffered (noteCloseCause x c) = cn_buffered c" "cn_listening (noteCloseCause x c) = cn_listening c"
  "cn_handshakeTimer (noteCloseCause x c) = cn_handshakeTimer c" "cn_establish (noteCloseCause x c) = cn_establish c"
  "cn_refusal (noteCloseCause x c) = cn_refusal c" "cn_closing (noteCloseCause x c) = cn_closing c"
  "cn_served (noteCloseCause x c) = cn_served c" "cn_serve (noteCloseCause x c) = cn_serve c"
  "cn_serve_closed (noteCloseCause x c) = cn_serve_closed c" "cn_inFlight (noteCloseCause x c) = cn_inFlight c"
  "cn_cause (noteCloseCause x c) = cn_cause c" "cn_disposed (noteCloseCause x c) = cn_disposed c"
  "cn_closedLatch (noteCloseCause x c) = cn_closedLatch c" "cn_slotRelease (noteCloseCause x c) = cn_slotRelease c"
  "cn_outbound (noteCloseCause x c) = cn_outbound c" "cn_acks (noteCloseCause x c) = cn_acks c"
  "cn_reserves (noteCloseCause x c) = cn_reserves c" "cn_releases (noteCloseCause x c) = cn_releases c"
  "cn_closedCalls (noteCloseCause x c) = cn_closedCalls c"
  by (simp_all add: noteCloseCause_def)

lemma releaseConnectionSlot_eq:
  "releaseConnectionSlot c = c\<lparr>cn_slotRelease := False, cn_releases := cn_releases c + of_bool (cn_slotRelease c)\<rparr>"
  by (simp add: releaseConnectionSlot_def)

definition closed_wire_queue :: "studio_conn \<Rightarrow> outbound_queue" where
  "closed_wire_queue c =
     (if cn_served c then queue_close (cn_outbound c) else (queue_close (cn_outbound c))\<lparr>q_destroyed := True\<rparr>)"

lemma dispose_again: "cn_disposed c \<Longrightarrow> connection_dispose cause c = c"
  by (simp add: connection_dispose_def)

lemmas dispose_parts = connection_dispose_def Let_def releaseConnectionSlot_eq dispose_end_def destroy_wire_def closed_wire_queue_def

lemma dispose_fields:
  assumes "\<not> cn_disposed c"
  shows "cn_epoch (connection_dispose cause c) = cn_epoch c" "cn_phase (connection_dispose cause c) = Closed_phase"
    "\<not> cn_listening (connection_dispose cause c)" "\<not> cn_handshakeTimer (connection_dispose cause c)"
    "cn_establish (connection_dispose cause c) = cn_establish c" "cn_refusal (connection_dispose cause c) = cn_refusal c"
    "cn_closing (connection_dispose cause c) = cn_served c" "\<not> cn_served (connection_dispose cause c)"
    "cn_serve (connection_dispose cause c) = cn_serve c" "cn_inFlight (connection_dispose cause c) = cn_inFlight c"
    "cn_disposed (connection_dispose cause c)" "cn_closedLatch (connection_dispose cause c)" "\<not> cn_slotRelease (connection_dispose cause c)"
    "cn_outbound (connection_dispose cause c) = closed_wire_queue c" "cn_acks (connection_dispose cause c) = cn_acks c"
    "cn_reserves (connection_dispose cause c) = cn_reserves c"
    "cn_releases (connection_dispose cause c) = cn_releases c + of_bool (cn_slotRelease c)"
    "cn_closedCalls (connection_dispose cause c) = cn_closedCalls c + of_bool (\<not> cn_served c)"
  using assms by (simp_all add: dispose_parts)

lemma destroyNow_fields [simp]:
  "cn_epoch (destroyNow cause c) = cn_epoch c" "cn_phase (destroyNow cause c) = cn_phase c"
  "cn_listening (destroyNow cause c) = cn_listening c" "\<not> cn_handshakeTimer (destroyNow cause c)"
  "cn_establish (destroyNow cause c) = cn_establish c" "cn_refusal (destroyNow cause c) = cn_refusal c"
  "cn_closing (destroyNow cause c) = cn_closing c" "cn_served (destroyNow cause c) = cn_served c"
  "cn_serve (destroyNow cause c) = cn_serve c" "cn_inFlight (destroyNow cause c) = cn_inFlight c"
  "cn_disposed (destroyNow cause c) = cn_disposed c" "cn_closedLatch (destroyNow cause c)"
  "\<not> cn_slotRelease (destroyNow cause c)"
  "cn_outbound (destroyNow cause c) = (queue_close (cn_outbound c))\<lparr>q_destroyed := True\<rparr>"
  "cn_acks (destroyNow cause c) = cn_acks c" "cn_reserves (destroyNow cause c) = cn_reserves c"
  "cn_releases (destroyNow cause c) = cn_releases c + of_bool (cn_slotRelease c)"
  "cn_closedCalls (destroyNow cause c) = cn_closedCalls c"
  by (simp_all add: destroyNow_def Let_def releaseConnectionSlot_eq destroy_wire_def)

section \<open>The queue under the connection\<close>

lemma pump_loop_next: "q_next (pump_loop reply q) = q_next q \<and> q_closed (pump_loop reply q) = q_closed q
    \<and> q_overflows (pump_loop reply q) = q_overflows q \<and> (q_destroyed q \<longrightarrow> q_destroyed (pump_loop reply q))"
proof (induction reply q rule: pump_loop.induct)
  case (1 reply q)
  then show ?case
    by (subst (1 2 3 4) pump_loop.simps) (auto simp: Let_def settle_def writeLine_def split: list.split)
qed

lemma queue_close_shape [simp]: "q_closed (queue_close q)" "q_next (queue_close q) = q_next q"
  "q_destroyed (queue_close q) = q_destroyed q"
  by (simp_all add: queue_close_def settle_queue)

lemma enqueue_next [simp]: "q_next (enqueue line key reply q) = q_next q + 1"
  by (simp add: enqueue_def Let_def settle_def queue_pump_def pump_loop_next split: option.split)

lemma enqueue_keeps: "q_closed (enqueue line key reply q) = q_closed q"
  "q_destroyed q \<Longrightarrow> q_destroyed (enqueue line key reply q)"
  by (simp_all add: enqueue_def Let_def settle_def queue_pump_def pump_loop_next split: option.split)

lemma on_edge_shape [simp]: "q_next (on_edge e q) = q_next q" "q_closed (on_edge e q) = q_closed q"
  "q_destroyed (on_edge e q) = q_destroyed q" "q_overflows (on_edge e q) = q_overflows q"
  by (simp_all add: on_edge_def split: writer_state.split wire_edge.split)

lemma resume_writer_shape [simp]: "q_next (resume_writer r q) = q_next q" "q_closed (resume_writer r q) = q_closed q"
  "q_destroyed q \<Longrightarrow> q_destroyed (resume_writer r q)"
  by (simp_all add: resume_writer_def settle_def pump_loop_next split: writer_state.split)

section \<open>Invariant\<close>

text \<open>One answer at most, in the right state; it is the first frame of the queue.\<close>

definition answers_ok :: "studio_conn \<Rightarrow> bool" where
  "answers_ok c =
     (length (cn_acks c) \<le> 1
      \<and> (cn_acks c = [] \<longrightarrow> q_next (cn_outbound c) = 0)
      \<and> (cn_listening c \<or> cn_handshakeTimer c \<longrightarrow>
           cn_acks c = [] \<and> cn_establish c = Not_establishing \<and> cn_phase c = Handshaking)
      \<and> (\<forall>p r n. cn_establish c = Awaiting_check p r n \<longrightarrow> cn_acks c = [])
      \<and> (\<forall>k p r. cn_establish c = Awaiting_ack k p r \<longrightarrow> k = 0 \<and> cn_acks c = [None])
      \<and> (\<forall>k. cn_refusal c = Some k \<longrightarrow> k = 0 \<and> (\<exists>r. cn_acks c = [Some r]))
      \<and> (cn_phase c = Refusing \<longrightarrow> (\<exists>r. cn_acks c = [Some r]))
      \<and> (cn_serve c \<noteq> Not_served \<or> cn_phase c = Serving_phase \<longrightarrow> cn_acks c = [None])
      \<and> (cn_served c \<longrightarrow> cn_phase c = Serving_phase) \<and> (cn_phase c = Serving_phase \<longrightarrow> cn_serve c \<noteq> Not_served)
      \<and> (cn_phase c = Serving_phase \<longrightarrow> cn_establish c = Not_establishing)
      \<and> (0 < cn_inFlight c \<or> cn_closing c \<longrightarrow> cn_serve c \<noteq> Not_served)
      \<and> cn_inFlight c \<le> STUDIO_MAX_INFLIGHT_PER_CONNECTION)"

text \<open>Teardown: the latch comes first, the callback to the host once and last.\<close>

definition over_ok :: "studio_conn \<Rightarrow> bool" where
  "over_ok c =
     ((cn_disposed c \<longrightarrow> cn_phase c = Closed_phase) \<and> (cn_phase c = Closed_phase \<longrightarrow> cn_disposed c) \<and> (cn_disposed c \<longrightarrow> cn_closedLatch c)
      \<and> (cn_closing c \<longrightarrow> cn_disposed c)
      \<and> (cn_closedLatch c \<longrightarrow> q_closed (cn_outbound c) \<and> \<not> cn_handshakeTimer c)
      \<and> (cn_closedLatch c \<and> \<not> cn_closing c \<longrightarrow> wire_destroyed c)
      \<and> cn_closedCalls c = of_bool (cn_disposed c \<and> \<not> cn_closing c))"

text \<open>The slot is held from the parsed line to the end, and given back once.\<close>

definition slot_ok :: "studio_conn \<Rightarrow> bool" where
  "slot_ok c =
     (cn_reserves c = cn_releases c + of_bool (cn_slotRelease c)
      \<and> (cn_slotRelease c \<longrightarrow> \<not> cn_listening c \<and> \<not> cn_closedLatch c \<and> (cn_phase c = Handshaking \<or> cn_phase c = Serving_phase))
      \<and> ((cn_establish c \<noteq> Not_establishing \<or> cn_phase c = Serving_phase) \<and> \<not> cn_closedLatch c \<longrightarrow> cn_slotRelease c))"

definition connection_inv :: "studio_conn \<Rightarrow> bool" where
  "connection_inv c = (queue_inv (cn_outbound c) \<and> answers_ok c \<and> over_ok c \<and> slot_ok c)"

text \<open>What \<open>dispose\<close> asks of the state it is called in.\<close>

definition open_conn :: "studio_conn \<Rightarrow> bool" where
  "open_conn c =
     (queue_inv (cn_outbound c) \<and> answers_ok c \<and> cn_reserves c = cn_releases c + of_bool (cn_slotRelease c)
      \<and> \<not> cn_disposed c \<and> \<not> cn_closing c \<and> cn_closedCalls c = 0)"

lemma closed_wire_queue_inv: "queue_inv (cn_outbound c) \<Longrightarrow> queue_inv (closed_wire_queue c)"
  by (simp add: closed_wire_queue_def queue_close_inv wire_state_inv)

lemma closed_wire_queue_shape [simp]: "q_closed (closed_wire_queue c)" "q_next (closed_wire_queue c) = q_next (cn_outbound c)"
  "\<not> cn_served c \<Longrightarrow> q_destroyed (closed_wire_queue c)"
  by (simp_all add: closed_wire_queue_def)

lemma dispose_open: "open_conn c \<Longrightarrow> connection_inv (connection_dispose cause c)"
  by (simp add: open_conn_def connection_inv_def closed_wire_queue_inv dispose_fields answers_ok_def over_ok_def slot_ok_def
      wire_destroyed_def)

lemma conn_inv_open: "connection_inv c \<Longrightarrow> \<not> cn_disposed c \<Longrightarrow> open_conn c"
  by (auto simp: connection_inv_def open_conn_def over_ok_def slot_ok_def)

lemma dispose_inv: "connection_inv c \<Longrightarrow> connection_inv (connection_dispose cause c)"
  by (cases "cn_disposed c") (simp_all add: dispose_again dispose_open conn_inv_open)

lemma noteCloseCause_inv [simp]: "connection_inv (noteCloseCause x c) = connection_inv c" "open_conn (noteCloseCause x c) = open_conn c"
  by (simp_all add: connection_inv_def open_conn_def answers_ok_def over_ok_def slot_ok_def wire_destroyed_def)

text \<open>A change of the queue that hands out no promise, opens nothing and revives no wire.\<close>

lemma answers_frame [simp]:
  "answers_ok (c\<lparr>cn_buffered := xs\<rparr>) = answers_ok c" "answers_ok (c\<lparr>cn_slotRelease := b, cn_reserves := n\<rparr>) = answers_ok c"
  "over_ok (c\<lparr>cn_buffered := xs\<rparr>) = over_ok c" "slot_ok (c\<lparr>cn_buffered := xs\<rparr>) = slot_ok c"
  "slot_ok (c\<lparr>cn_outbound := q\<rparr>) = slot_ok c"
  by (simp_all add: answers_ok_def over_ok_def slot_ok_def wire_destroyed_def)

lemma outbound_change_inv:
  assumes "connection_inv c" "queue_inv q" "q_next q = q_next (cn_outbound c)"
    "q_closed (cn_outbound c) \<longrightarrow> q_closed q" "q_destroyed (cn_outbound c) \<longrightarrow> q_destroyed q"
  shows "connection_inv (c\<lparr>cn_outbound := q\<rparr>)"
proof -
  have "answers_ok (c\<lparr>cn_outbound := q\<rparr>)" using assms(1,3) by (simp add: connection_inv_def answers_ok_def)
  moreover have "over_ok (c\<lparr>cn_outbound := q\<rparr>)"
    using assms(1,4,5) by (simp add: connection_inv_def over_ok_def wire_destroyed_def)
  ultimately show ?thesis using assms(1,2) by (simp add: connection_inv_def)
qed

text \<open>Taking the data listener off.\<close>

lemma stop_listening_inv: "connection_inv c \<Longrightarrow> connection_inv (c\<lparr>cn_listening := False, cn_buffered := xs\<rparr>)"
proof -
  assume c: "connection_inv c"
  then have "answers_ok (c\<lparr>cn_listening := False, cn_buffered := xs\<rparr>)"
    by (simp add: connection_inv_def answers_ok_def)
  with c show ?thesis by (simp add: connection_inv_def over_ok_def slot_ok_def wire_destroyed_def)
qed

lemma conn_enqueue_open:
  assumes "open_conn c" "cn_acks c \<noteq> []"
    "\<And>q. queue_inv q \<Longrightarrow> q_closed q = q_closed (cn_outbound c) \<Longrightarrow> (q_destroyed (cn_outbound c) \<longrightarrow> q_destroyed q) \<Longrightarrow>
       connection_inv (c\<lparr>cn_outbound := q\<rparr>)"
  shows "connection_inv (conn_enqueue line key reply c)"
proof -
  let ?q = "enqueue line key reply (cn_outbound c)"
  have q: "queue_inv ?q" using assms(1) by (simp add: open_conn_def enqueue_inv)
  moreover have "open_conn (c\<lparr>cn_outbound := ?q\<rparr>)"
    using assms(1,2) q by (auto simp: open_conn_def answers_ok_def)
  ultimately show ?thesis
    using assms(3) [of ?q] by (simp add: conn_enqueue_def Let_def dispose_open enqueue_keeps)
qed

lemma refuse_inv:
  assumes "connection_inv c" "cn_phase c = Handshaking" "cn_acks c = []" "cn_establish c = Not_establishing"
  shows "connection_inv (refuse refusal reply c)"
proof -
  have fresh: "cn_refusal c = None" "cn_serve c = Not_served" "\<not> cn_served c" "cn_inFlight c = 0" "\<not> cn_disposed c"
    "\<not> cn_closing c" "q_next (cn_outbound c) = 0"
    using assms by (auto simp: connection_inv_def answers_ok_def over_ok_def)
  define d where "d = (releaseConnectionSlot ((noteCloseCause Refused (c\<lparr>cn_phase := Refusing\<rparr>))
      \<lparr>cn_handshakeTimer := False, cn_listening := False, cn_buffered := []\<rparr>))
      \<lparr>cn_acks := [Some refusal], cn_refusal := Some 0\<rparr>"
  have r: "refuse refusal reply c = conn_enqueue (encodeStudioHandshakeAck (Some refusal)) None reply d"
    using assms(2,3) fresh by (simp add: refuse_def d_def Let_def releaseConnectionSlot_eq)
  show ?thesis unfolding r
  proof (rule conn_enqueue_open)
    show "open_conn d" "cn_acks d \<noteq> []"
      using assms fresh by (auto simp: d_def open_conn_def connection_inv_def answers_ok_def over_ok_def slot_ok_def releaseConnectionSlot_eq)
    fix q
    assume "queue_inv q" "q_closed q = q_closed (cn_outbound d)" "q_destroyed (cn_outbound d) \<longrightarrow> q_destroyed q"
    then show "connection_inv (d\<lparr>cn_outbound := q\<rparr>)"
      using assms fresh
      by (auto simp: d_def connection_inv_def answers_ok_def over_ok_def slot_ok_def releaseConnectionSlot_eq wire_destroyed_def)
  qed
qed

lemma isOver_cases:
  assumes "isOver env c = (over, d)"
  shows "d = c \<or> d = noteCloseCause Stale c" "over \<longleftrightarrow> cn_closedLatch c \<or> cn_disposed c \<or> env_stale env"
    "\<not> over \<Longrightarrow> d = c"
  using assms by (auto simp: isOver_def split: if_splits)

text \<open>The slot was claimed in this tick: the call that may follow at once gives it back.\<close>

lemma establish_inv:
  assumes "connection_inv c" "cn_phase c = Handshaking" "cn_acks c = []" "cn_establish c = Not_establishing"
    "\<not> cn_listening c" "\<not> cn_slotRelease c" "d = c\<lparr>cn_slotRelease := True, cn_reserves := cn_reserves c + 1\<rparr>"
  shows "connection_inv (establish env projectId remainder d)"
proof -
  obtain over e where o: "isOver env (d\<lparr>cn_handshakeTimer := False\<rparr>) = (over, e)" by fastforce
  have oc: "open_conn (d\<lparr>cn_handshakeTimer := False\<rparr>)"
    using assms by (simp add: open_conn_def connection_inv_def answers_ok_def over_ok_def slot_ok_def) blast
  show ?thesis
  proof (cases over)
    case True
    have "open_conn e" using isOver_cases(1) [OF o] oc by auto
    then show ?thesis using True by (simp add: establish_def Let_def o dispose_open)
  next
    case False
    have e: "e = d\<lparr>cn_handshakeTimer := False\<rparr>" and "\<not> cn_closedLatch c" "\<not> cn_disposed c"
      using False isOver_cases(2,3) [OF o] assms(7) by auto
    have "establish env projectId remainder d = e\<lparr>cn_establish := Awaiting_check projectId remainder (env_not_ready env)\<rparr>"
      using False by (simp add: establish_def Let_def o)
    then show ?thesis
      using \<open>\<not> cn_closedLatch c\<close> \<open>\<not> cn_disposed c\<close> assms(1-6)
      by (clarsimp simp: e assms(7) connection_inv_def answers_ok_def over_ok_def slot_ok_def wire_destroyed_def)
  qed
qed

lemma handshake_data_inv:
  assumes "connection_inv c" "cn_listening c"
  shows "connection_inv (handleHandshakeData json env chunk reply c)"
proof -
  have c: "cn_phase c = Handshaking" "cn_acks c = []" "cn_establish c = Not_establishing" "\<not> cn_slotRelease c"
    using assms by (simp_all add: connection_inv_def answers_ok_def slot_ok_def)
  let ?d = "c\<lparr>cn_listening := False, cn_buffered := []\<rparr>"
  have b: "connection_inv (c\<lparr>cn_buffered := xs\<rparr>)" for xs using assms(1) by (simp add: connection_inv_def)
  have inv: "connection_inv ?d" by (rule stop_listening_inv [OF assms(1)])
  show ?thesis
  proof (cases "parseStudioHandshake json (cn_buffered c @ chunk)")
    case (Handshake_refused r)
    then show ?thesis using refuse_inv [OF b] c by (simp add: handleHandshakeData_def Let_def)
  next
    case Handshake_pending
    then show ?thesis using b c by (simp add: handleHandshakeData_def Let_def)
  next
    case (Handshake_accepted p r)
    then show ?thesis
      using refuse_inv [OF inv] establish_inv [OF inv _ _ _ _ _ refl] c
      by (simp add: handleHandshakeData_def Let_def)
  qed
qed

lemma conn_invI: "queue_inv (cn_outbound c) \<Longrightarrow> answers_ok c \<Longrightarrow> over_ok c \<Longrightarrow> slot_ok c \<Longrightarrow> connection_inv c"
  by (simp add: connection_inv_def)

lemma conn_invD:
  assumes "connection_inv c"
  shows "queue_inv (cn_outbound c)" "answers_ok c" "over_ok c" "slot_ok c"
  using assms by (simp_all add: connection_inv_def)

lemma over_frame [simp]:
  "over_ok (c\<lparr>cn_establish := e\<rparr>) = over_ok c" "over_ok (c\<lparr>cn_refusal := k\<rparr>) = over_ok c"
  "slot_ok (c\<lparr>cn_refusal := k\<rparr>) = slot_ok c" "slot_ok (c\<lparr>cn_handshakeTimer := b\<rparr>) = slot_ok c"
  by (simp_all add: over_ok_def slot_ok_def wire_destroyed_def)

lemma stop_establishing_inv:
  assumes "connection_inv c"
  shows "connection_inv (c\<lparr>cn_establish := Not_establishing\<rparr>)"
proof (rule conn_invI)
  show "answers_ok (c\<lparr>cn_establish := Not_establishing\<rparr>)" using conn_invD(2) [OF assms] by (simp add: answers_ok_def)
  show "slot_ok (c\<lparr>cn_establish := Not_establishing\<rparr>)" using conn_invD(4) [OF assms] by (simp add: slot_ok_def)
qed (use conn_invD [OF assms] in simp_all)

lemma establishing_phase:
  assumes "connection_inv c" "cn_establish c \<noteq> Not_establishing" "\<not> cn_closedLatch c"
  shows "cn_phase c = Handshaking \<and> cn_slotRelease c \<and> \<not> cn_disposed c \<and> \<not> cn_closing c \<and> cn_closedCalls c = 0
    \<and> \<not> cn_served c"
proof -
  have w: "\<not> cn_disposed c" "\<not> cn_closing c" "cn_phase c \<noteq> Closed_phase"
    using assms(1,3) by (auto simp: connection_inv_def over_ok_def)
  have sl: "cn_slotRelease c" using assms by (simp add: connection_inv_def slot_ok_def)
  then have "cn_phase c = Handshaking \<or> cn_phase c = Serving_phase" using assms(1) by (simp add: connection_inv_def slot_ok_def)
  moreover have "cn_phase c \<noteq> Serving_phase" "cn_served c \<Longrightarrow> cn_phase c = Serving_phase"
    using assms(1,2) by (auto simp: connection_inv_def answers_ok_def)
  ultimately show ?thesis using w sl assms(1) by (auto simp: connection_inv_def over_ok_def)
qed

lemma awaiting_check_state:
  assumes "connection_inv c" "cn_establish c = Awaiting_check p r n"
  shows "cn_acks c = []" "\<not> cn_listening c" "\<not> cn_handshakeTimer c" "cn_refusal c = None" "cn_serve c = Not_served"
    "q_next (cn_outbound c) = 0" "cn_inFlight c = 0" "queue_inv (cn_outbound c)"
    "cn_reserves c = cn_releases c + of_bool (cn_slotRelease c)"
  using assms by (auto simp: connection_inv_def answers_ok_def slot_ok_def)

lemma check_resumes_inv:
  assumes "connection_inv c"
  shows "connection_inv (check_resumes env answer reply c)"
proof (cases "cn_establish c")
  case (Awaiting_check p r n)
  obtain over d where o: "isOver env (c\<lparr>cn_establish := Not_establishing\<rparr>) = (over, d)" by fastforce
  note a = awaiting_check_state [OF assms Awaiting_check]
  note b = stop_establishing_inv [OF assms]
  show ?thesis
  proof (cases over)
    case True
    then show ?thesis using b isOver_cases(1) [OF o] by (auto simp: check_resumes_def Awaiting_check Let_def o)
  next
    case False
    then have d: "d = c\<lparr>cn_establish := Not_establishing\<rparr>" and l: "\<not> cn_closedLatch c"
      using isOver_cases(2,3) [OF o] by auto
    have w: "cn_phase c = Handshaking" "cn_slotRelease c" "\<not> cn_disposed c" "\<not> cn_closing c" "cn_closedCalls c = 0" "\<not> cn_served c"
      using establishing_phase [OF assms _ l] Awaiting_check by simp_all
    show ?thesis
    proof (cases "check_refusal n answer")
      case (Some refusal)
      then show ?thesis using refuse_inv [OF b, of refusal reply] w a False by (simp add: check_resumes_def Awaiting_check Let_def o d)
    next
      case None
      let ?e = "c\<lparr>cn_acks := [None], cn_establish := Awaiting_ack 0 p r\<rparr>"
      have e: "check_resumes env answer reply c = conn_enqueue (encodeStudioHandshakeAck None) None reply ?e"
        using a(1,6) False None by (simp add: check_resumes_def Awaiting_check Let_def o d)
      have ans: "answers_ok ?e" "answers_ok (?e\<lparr>cn_outbound := q\<rparr>)" for q
        using a w by (simp_all add: answers_ok_def)
      show ?thesis unfolding e
      proof (rule conn_enqueue_open)
        show "open_conn ?e" "cn_acks ?e \<noteq> []" using a w ans by (simp_all add: open_conn_def)
        fix q
        assume "queue_inv q" "q_closed q = q_closed (cn_outbound ?e)" "q_destroyed (cn_outbound ?e) \<longrightarrow> q_destroyed q"
        then show "connection_inv (?e\<lparr>cn_outbound := q\<rparr>)"
          using a w l ans by (simp add: connection_inv_def over_ok_def slot_ok_def wire_destroyed_def)
      qed
    qed
  qed
qed (use assms in \<open>simp_all add: check_resumes_def\<close>)

lemma ack_resumes_inv:
  assumes "connection_inv c"
  shows "connection_inv (ack_resumes env c)"
proof (cases "cn_establish c")
  case (Awaiting_ack k p r)
  obtain over d where o: "isOver env (c\<lparr>cn_establish := Not_establishing\<rparr>) = (over, d)" by fastforce
  have a: "cn_acks c = [None]" "\<not> cn_listening c" "\<not> cn_handshakeTimer c" "cn_refusal c = None"
    "cn_inFlight c \<le> STUDIO_MAX_INFLIGHT_PER_CONNECTION" "queue_inv (cn_outbound c)"
    "cn_reserves c = cn_releases c + of_bool (cn_slotRelease c)"
    using assms Awaiting_ack by (auto simp: connection_inv_def answers_ok_def slot_ok_def)
  note b = stop_establishing_inv [OF assms]
  show ?thesis
  proof (cases "k \<in> fst ` set (q_settled (cn_outbound c))")
    case False
    then show ?thesis using assms by (simp add: ack_resumes_def Awaiting_ack)
  next
    case settled: True
    show ?thesis
    proof (cases over)
      case True
      have "connection_inv d" using b isOver_cases(1) [OF o] by auto
      then show ?thesis using True settled by (simp add: ack_resumes_def Awaiting_ack Let_def o dispose_inv)
    next
      case False
      then have d: "d = c\<lparr>cn_establish := Not_establishing\<rparr>" and n: "\<not> cn_closedLatch c" "\<not> cn_disposed c" "\<not> env_stale env"
        using isOver_cases(2,3) [OF o] by auto
      have w: "cn_slotRelease c" "\<not> cn_closing c" "cn_closedCalls c = 0"
        using establishing_phase [OF assms _ n(1)] Awaiting_ack by simp_all
      have "ack_resumes env c = c\<lparr>cn_establish := Not_establishing, cn_phase := Serving_phase, cn_served := True, cn_serve := Importing\<rparr>"
        using settled n by (simp add: ack_resumes_def Awaiting_ack Let_def isOver_def)
      then show ?thesis
        using a n w by (simp add: connection_inv_def answers_ok_def over_ok_def slot_ok_def wire_destroyed_def)
    qed
  qed
qed (use assms in \<open>simp_all add: ack_resumes_def\<close>)

text \<open>Changes that only matter to a served connection.\<close>

lemma serve_change_inv [simp]:
  assumes "connection_inv c" "cn_acks c = [None]" "v \<noteq> Not_served"
  shows "connection_inv (c\<lparr>cn_serve := v\<rparr>)"
proof -
  have "answers_ok (c\<lparr>cn_serve := v\<rparr>)" using assms by (simp add: connection_inv_def answers_ok_def)
  moreover have "over_ok (c\<lparr>cn_serve := v\<rparr>) = over_ok c" "slot_ok (c\<lparr>cn_serve := v\<rparr>) = slot_ok c"
    by (simp_all add: over_ok_def slot_ok_def wire_destroyed_def)
  ultimately show ?thesis using assms(1) by (simp add: connection_inv_def)
qed

lemma in_flight_change_inv:
  assumes "connection_inv c" "cn_serve c \<noteq> Not_served" "n \<le> STUDIO_MAX_INFLIGHT_PER_CONNECTION"
  shows "connection_inv (c\<lparr>cn_inFlight := n\<rparr>)"
proof -
  have "answers_ok c" using assms(1) by (simp add: connection_inv_def)
  then have "answers_ok (c\<lparr>cn_inFlight := n\<rparr>)" using assms(2,3) by (auto simp: answers_ok_def)
  moreover have "over_ok (c\<lparr>cn_inFlight := n\<rparr>) = over_ok c" "slot_ok (c\<lparr>cn_inFlight := n\<rparr>) = slot_ok c"
    by (simp_all add: over_ok_def slot_ok_def wire_destroyed_def)
  ultimately show ?thesis using assms(1) by (simp add: connection_inv_def)
qed

lemma destroy_wire_inv: "connection_inv c \<Longrightarrow> connection_inv (destroy_wire c)"
  unfolding destroy_wire_def by (rule outbound_change_inv) (simp_all add: connection_inv_def wire_state_inv)

lemma served_acked: "connection_inv c \<Longrightarrow> cn_serve c \<noteq> Not_served \<Longrightarrow> cn_acks c = [None]"
  by (simp add: connection_inv_def answers_ok_def)

lemma serve_ready_inv: "connection_inv c \<Longrightarrow> connection_inv (serve_ready env loaded c)"
  using served_acked [of c] by (simp add: serve_ready_def dispose_inv destroy_wire_inv)

text \<open>Only \<open>dispose\<close> of a served connection waits for its entry.\<close>

lemma closing_state:
  assumes "connection_inv c" "cn_closing c"
  shows "cn_disposed c" "cn_closedCalls c = 0" "\<not> cn_served c" "cn_acks c = [None]"
  using assms by (auto simp: connection_inv_def answers_ok_def over_ok_def)

lemma served_closed_inv:
  assumes "connection_inv c"
  shows "connection_inv (served_closed c)"
proof (cases "cn_closing c \<and> cn_serve c \<noteq> Importing")
  case True
  then have cl: "cn_closing c" by simp
  note s = closing_state [OF assms cl]
  have ans: "answers_ok c" and ov: "over_ok c" and sl: "slot_ok c" and q: "queue_inv (cn_outbound c)"
    using assms by (simp_all add: connection_inv_def)
  let ?d = "dispose_end (c\<lparr>cn_serve := Serve_over\<rparr>)"
  have "answers_ok ?d" using ans s(4) by (simp add: answers_ok_def dispose_end_def destroy_wire_def)
  moreover have "over_ok ?d" using ov s by (simp add: over_ok_def dispose_end_def destroy_wire_def wire_destroyed_def)
  moreover have "slot_ok ?d" using sl by (simp add: slot_ok_def dispose_end_def destroy_wire_def)
  moreover have "queue_inv (cn_outbound ?d)" using q by (simp add: dispose_end_def destroy_wire_def wire_state_inv)
  ultimately show ?thesis using True by (simp add: served_closed_def connection_inv_def)
qed (use assms in \<open>auto simp: served_closed_def\<close>)

lemma destroyNow_inv:
  assumes "connection_inv c"
  shows "connection_inv (destroyNow cause c)"
proof -
  have ans: "answers_ok c" and ov: "over_ok c" and sl: "slot_ok c" and q: "queue_inv (cn_outbound c)"
    using assms by (simp_all add: connection_inv_def)
  let ?d = "destroyNow cause c"
  have "answers_ok ?d" using ans by (simp add: answers_ok_def)
  moreover have "over_ok ?d" using ov by (simp add: over_ok_def wire_destroyed_def)
  moreover have "slot_ok ?d" using sl by (simp add: slot_ok_def)
  moreover have "queue_inv (cn_outbound ?d)" using q by (simp add: queue_close_inv wire_state_inv)
  ultimately show ?thesis by (simp add: connection_inv_def)
qed

lemma stop_timer_inv:
  assumes "connection_inv c"
  shows "connection_inv (c\<lparr>cn_handshakeTimer := False\<rparr>)"
proof (rule conn_invI)
  show "answers_ok (c\<lparr>cn_handshakeTimer := False\<rparr>)" using conn_invD(2) [OF assms] by (simp add: answers_ok_def)
  show "over_ok (c\<lparr>cn_handshakeTimer := False\<rparr>)" using conn_invD(3) [OF assms] by (simp add: over_ok_def wire_destroyed_def)
qed (use conn_invD [OF assms] in simp_all)

lemma refuse_resumes_inv:
  assumes "connection_inv c"
  shows "connection_inv (refuse_resumes c)"
proof -
  have "connection_inv (c\<lparr>cn_refusal := None\<rparr>)"
  proof (rule conn_invI)
    show "answers_ok (c\<lparr>cn_refusal := None\<rparr>)" using conn_invD(2) [OF assms] by (simp add: answers_ok_def)
  qed (use conn_invD [OF assms] in simp_all)
  then show ?thesis using assms by (simp add: refuse_resumes_def dispose_inv split: option.split)
qed

lemma acked_queue_inv:
  assumes "connection_inv c" "cn_acks c \<noteq> []" "queue_inv q" "q_closed q = q_closed (cn_outbound c)"
    "q_destroyed (cn_outbound c) \<longrightarrow> q_destroyed q"
  shows "connection_inv (c\<lparr>cn_outbound := q\<rparr>)"
proof (rule conn_invI)
  show "answers_ok (c\<lparr>cn_outbound := q\<rparr>)" using conn_invD(2) [OF assms(1)] assms(2) by (simp add: answers_ok_def)
  show "over_ok (c\<lparr>cn_outbound := q\<rparr>)"
    using conn_invD(3) [OF assms(1)] assms(4,5) by (auto simp: over_ok_def wire_destroyed_def)
qed (use conn_invD [OF assms(1)] assms(3) in simp_all)

lemma serve_write_inv:
  assumes "connection_inv c" "cn_serve c = Running"
  shows "connection_inv (conn_enqueue line key reply c)"
proof -
  have a: "cn_acks c \<noteq> []" using served_acked [OF assms(1)] assms(2) by simp
  show ?thesis
  proof (cases "cn_disposed c")
    case True
    then have "q_closed (cn_outbound c)" using conn_invD(3) [OF assms(1)] by (simp add: over_ok_def)
    then have "q_overflows (enqueue line key reply (cn_outbound c)) = q_overflows (cn_outbound c)"
      by (simp add: enqueue_def Let_def settle_def)
    moreover have "connection_inv (c\<lparr>cn_outbound := enqueue line key reply (cn_outbound c)\<rparr>)"
      using acked_queue_inv [OF assms(1) a] conn_invD(1) [OF assms(1)] by (simp add: enqueue_inv enqueue_keeps)
    ultimately show ?thesis by (simp add: conn_enqueue_def Let_def)
  next
    case False
    then show ?thesis
      using conn_enqueue_open [OF conn_inv_open [OF assms(1) False] a] acked_queue_inv [OF assms(1) a] by simp
  qed
qed

lemma on_wire_closed_inv: "connection_inv c \<Longrightarrow> connection_inv (on_wire_closed c)"
  using outbound_change_inv [of c "on_edge Edge_gone ((cn_outbound c)\<lparr>q_destroyed := True\<rparr>)"] conn_invD(1) [of c]
  by (simp add: on_wire_closed_def Let_def dispose_inv on_edge_inv wire_state_inv)

lemma outbound_edge_inv: "connection_inv c \<Longrightarrow> connection_inv (c\<lparr>cn_outbound := on_edge e (cn_outbound c)\<rparr>)"
  by (rule outbound_change_inv) (simp_all add: conn_invD(1) on_edge_inv)

lemma handshake_deadline_inv:
  assumes "connection_inv c" "cn_handshakeTimer c"
  shows "connection_inv (conn_step json env c (Handshake_deadline reply))"
  using assms refuse_inv [OF stop_timer_inv [OF assms(1)]] conn_invD(2) [OF assms(1)]
  by (simp add: Let_def answers_ok_def)

lemma conn_step_inv:
  assumes "connection_inv c"
  shows "connection_inv (conn_step json env c a)"
proof (cases a)
  case (Handshake_deadline reply)
  then show ?thesis using assms handshake_deadline_inv by (cases "cn_handshakeTimer c") simp_all
next
  case Wire_half_closed
  then show ?thesis using outbound_change_inv [OF assms] conn_invD(1) [OF assms] by (simp add: wire_state_inv)
next
  case (Writer_resumes reply)
  then show ?thesis using outbound_change_inv [OF assms] conn_invD(1) [OF assms] by (simp add: resume_writer_inv)
next
  case Run_call
  then show ?thesis using in_flight_change_inv [OF assms] assms by (simp add: boundedRunCall_def)
next
  case Call_settles
  have "cn_inFlight c \<le> STUDIO_MAX_INFLIGHT_PER_CONNECTION" "0 < cn_inFlight c \<Longrightarrow> cn_serve c \<noteq> Not_served"
    using conn_invD(2) [OF assms] by (auto simp: answers_ok_def)
  with Call_settles show ?thesis using in_flight_change_inv [OF assms] assms by (simp add: call_settles_def)
qed (use assms in \<open>simp_all add: handshake_data_inv refuse_resumes_inv check_resumes_inv ack_resumes_inv serve_ready_inv
      serve_write_inv serve_failed_def dispose_inv served_closed_inv outbound_edge_inv on_wire_closed_inv\<close>)

lemma newStudioConnection_inv: "connection_inv (newStudioConnection epoch)"
proof (rule conn_invI)
  show "queue_inv (cn_outbound (newStudioConnection epoch))" by (simp add: newStudioConnection_def newOutboundQueue_inv)
qed (simp_all add: newStudioConnection_def answers_ok_def over_ok_def slot_ok_def newOutboundQueue_def wire_destroyed_def)

section \<open>What only grows\<close>

definition later :: "studio_conn \<Rightarrow> studio_conn \<Rightarrow> bool" where
  "later c d =
     (cn_epoch d = cn_epoch c \<and> (cn_closedLatch c \<longrightarrow> cn_closedLatch d) \<and> (cn_disposed c \<longrightarrow> cn_disposed d)
      \<and> (wire_destroyed c \<longrightarrow> wire_destroyed d) \<and> (cn_phase d = Handshaking \<longrightarrow> cn_phase c = Handshaking)
      \<and> (cn_closeCause c \<noteq> None \<longrightarrow> cn_closeCause d = cn_closeCause c)
      \<and> cn_closedCalls c \<le> cn_closedCalls d \<and> (\<exists>xs. cn_acks d = cn_acks c @ xs))"

lemma later_refl [simp]: "later c c"
  by (simp add: later_def)

lemma later_trans: "later c d \<Longrightarrow> later d e \<Longrightarrow> later c e"
  by (auto simp: later_def)

lemma noteCloseCause_later: "later c (noteCloseCause x c)"
  by (simp add: later_def wire_destroyed_def noteCloseCause_def)

lemma dispose_later: "later c (connection_dispose cause c)"
proof (cases "cn_disposed c")
  case False
  have "cn_closeCause c \<noteq> None \<Longrightarrow> cn_closeCause (connection_dispose cause c) = cn_closeCause c"
    using False by (simp add: dispose_parts noteCloseCause_def)
  then show ?thesis using False by (simp add: later_def dispose_fields wire_destroyed_def closed_wire_queue_def)
qed (simp add: dispose_again)

lemma destroyNow_later: "later c (destroyNow cause c)"
proof -
  have "cn_closeCause c \<noteq> None \<Longrightarrow> cn_closeCause (destroyNow cause c) = cn_closeCause c"
    by (simp add: destroyNow_def Let_def releaseConnectionSlot_eq destroy_wire_def noteCloseCause_def)
  then show ?thesis by (simp add: later_def wire_destroyed_def)
qed

lemma conn_enqueue_later: "later c (conn_enqueue line key reply c)"
proof -
  let ?d = "c\<lparr>cn_outbound := enqueue line key reply (cn_outbound c)\<rparr>"
  have "later c ?d" by (simp add: later_def wire_destroyed_def enqueue_keeps)
  then show ?thesis using later_trans [OF _ dispose_later] by (simp add: conn_enqueue_def Let_def)
qed

lemma refuse_later: "later c (refuse refusal reply c)"
proof -
  let ?d = "(releaseConnectionSlot ((noteCloseCause Refused (c\<lparr>cn_phase := Refusing\<rparr>))
      \<lparr>cn_handshakeTimer := False, cn_listening := False, cn_buffered := []\<rparr>))"
  have "later c (?d\<lparr>cn_acks := cn_acks ?d @ [Some refusal], cn_refusal := Some (q_next (cn_outbound ?d))\<rparr>)"
    by (simp add: later_def wire_destroyed_def releaseConnectionSlot_eq noteCloseCause_def)
  from later_trans [OF this conn_enqueue_later] show ?thesis by (simp add: refuse_def Let_def)
qed

lemma isOver_later: "isOver env c = (over, d) \<Longrightarrow> later c d"
  using isOver_cases(1) noteCloseCause_later by fastforce

lemma establish_later: "later c (establish env p r c)"
proof -
  obtain over d where o: "isOver env (c\<lparr>cn_handshakeTimer := False\<rparr>) = (over, d)" by fastforce
  have "later c (c\<lparr>cn_handshakeTimer := False\<rparr>)" by (simp add: later_def wire_destroyed_def)
  from later_trans [OF this isOver_later [OF o]] have d: "later c d" .
  moreover have "later d (d\<lparr>cn_establish := e\<rparr>)" for e by (simp add: later_def wire_destroyed_def)
  ultimately have "later c (connection_dispose (cn_cause d) d)" "later c (d\<lparr>cn_establish := e\<rparr>)" for e
    using later_trans dispose_later by blast+
  then show ?thesis by (simp add: establish_def Let_def o)
qed

lemma handshake_data_later: "later c (handleHandshakeData json env chunk reply c)"
proof -
  have b: "later c (c\<lparr>cn_buffered := xs\<rparr>)" "later c (c\<lparr>cn_listening := False, cn_buffered := xs\<rparr>)"
    "later c (c\<lparr>cn_listening := False, cn_buffered := xs, cn_slotRelease := s, cn_reserves := n\<rparr>)" for xs s n
    by (simp_all add: later_def wire_destroyed_def)
  show ?thesis
    using b later_trans [OF b(1) refuse_later] later_trans [OF b(2) refuse_later] later_trans [OF b(3) establish_later]
    by (simp add: handleHandshakeData_def Let_def split: handshake_parse.split)
qed

lemma check_resumes_later: "later c (check_resumes env answer reply c)"
proof (cases "cn_establish c")
  case (Awaiting_check p r n)
  obtain over d where o: "isOver env (c\<lparr>cn_establish := Not_establishing\<rparr>) = (over, d)" by fastforce
  have "later c (c\<lparr>cn_establish := Not_establishing\<rparr>)" by (simp add: later_def wire_destroyed_def)
  from later_trans [OF this isOver_later [OF o]] have d: "later c d" .
  moreover have "later d (d\<lparr>cn_acks := cn_acks d @ [None], cn_establish := e\<rparr>)" for e
    by (simp add: later_def wire_destroyed_def)
  ultimately have "later c (refuse x reply d)"
    "later c (conn_enqueue l k reply (d\<lparr>cn_acks := cn_acks d @ [None], cn_establish := e\<rparr>))" for x l k e
    using later_trans refuse_later conn_enqueue_later by blast+
  with d show ?thesis by (simp add: check_resumes_def Awaiting_check Let_def o split: option.split)
qed (simp_all add: check_resumes_def)

lemma ack_resumes_later: "later c (ack_resumes env c)"
proof (cases "cn_establish c")
  case (Awaiting_ack k p r)
  obtain over d where o: "isOver env (c\<lparr>cn_establish := Not_establishing\<rparr>) = (over, d)" by fastforce
  let ?e = "d\<lparr>cn_phase := Serving_phase, cn_served := True, cn_serve := Importing\<rparr>"
  obtain over2 f where o2: "isOver env ?e = (over2, f)" by fastforce
  have "later c (c\<lparr>cn_establish := Not_establishing\<rparr>)" by (simp add: later_def wire_destroyed_def)
  from later_trans [OF this isOver_later [OF o]] have d: "later c d" .
  have "later d ?e" by (simp add: later_def wire_destroyed_def)
  from later_trans [OF this isOver_later [OF o2]] have f: "later d f" .
  have "later c f" "later c (connection_dispose x d)" "later c (connection_dispose x f)" for x
    using later_trans d f dispose_later by blast+
  then show ?thesis by (simp add: ack_resumes_def Awaiting_ack Let_def o o2)
qed (simp_all add: ack_resumes_def)

lemma serve_ready_later: "later c (serve_ready env loaded c)"
proof -
  have b: "later c (c\<lparr>cn_serve := v\<rparr>)" "later c (destroy_wire (c\<lparr>cn_serve := v\<rparr>))" for v
    by (simp_all add: later_def wire_destroyed_def destroy_wire_def)
  show ?thesis using b later_trans [OF b(1) dispose_later] by (simp add: serve_ready_def)
qed

lemma conn_step_later: "later c (conn_step json env c a)"
proof (cases a)
  case (Handshake_deadline reply)
  have "later c (c\<lparr>cn_handshakeTimer := False\<rparr>)" by (simp add: later_def wire_destroyed_def)
  with Handshake_deadline later_trans [OF this refuse_later] show ?thesis by (simp add: Let_def)
next
  case Refuse_resumes
  have "later c (c\<lparr>cn_refusal := None\<rparr>)" by (simp add: later_def wire_destroyed_def)
  with Refuse_resumes later_trans [OF this dispose_later] show ?thesis by (simp add: refuse_resumes_def split: option.split)
next
  case Wire_error
  have "later c (c\<lparr>cn_outbound := on_edge Edge_gone (cn_outbound c)\<rparr>)" by (simp add: later_def wire_destroyed_def)
  with Wire_error later_trans [OF this noteCloseCause_later] show ?thesis by simp
next
  case Wire_closes
  let ?d = "c\<lparr>cn_outbound := on_edge Edge_gone ((cn_outbound c)\<lparr>q_destroyed := True\<rparr>)\<rparr>"
  have "later c ?d" by (simp add: later_def wire_destroyed_def)
  with Wire_closes later_trans [OF this dispose_later] show ?thesis by (simp add: on_wire_closed_def Let_def)
next
  case Serve_closed
  then show ?thesis by (simp add: served_closed_def dispose_end_def destroy_wire_def later_def wire_destroyed_def)
next
  case (Writer_resumes reply)
  then show ?thesis by (simp add: later_def wire_destroyed_def)
next
  case Run_call
  then show ?thesis by (simp add: boundedRunCall_def later_def wire_destroyed_def)
next
  case Call_settles
  then show ?thesis by (simp add: call_settles_def later_def wire_destroyed_def)
qed (simp_all add: handshake_data_later check_resumes_later ack_resumes_later serve_ready_later conn_enqueue_later
    serve_failed_def dispose_later noteCloseCause_later, simp_all add: later_def wire_destroyed_def)

section \<open>What a step may claim\<close>

definition claims_nothing :: "studio_conn \<Rightarrow> studio_conn \<Rightarrow> bool" where
  "claims_nothing c d =
     ((cn_slotRelease d \<longrightarrow> cn_slotRelease c) \<and> (cn_phase d = Serving_phase \<longrightarrow> cn_phase c = Serving_phase)
      \<and> (cn_serve d = Running \<longrightarrow> cn_serve c = Running) \<and> cn_inFlight d = cn_inFlight c
      \<and> (None \<in> set (cn_acks d) \<longrightarrow> None \<in> set (cn_acks c)))"

lemma claims_trans: "claims_nothing c d \<Longrightarrow> claims_nothing d e \<Longrightarrow> claims_nothing c e"
  by (simp add: claims_nothing_def)

lemma noteCloseCause_claims: "claims_nothing c (noteCloseCause x c)"
  by (simp add: claims_nothing_def)

lemma dispose_claims: "claims_nothing c (connection_dispose cause c)"
  by (cases "cn_disposed c") (simp_all add: dispose_again dispose_fields claims_nothing_def)

lemma conn_enqueue_claims: "claims_nothing c (conn_enqueue line key reply c)"
  using dispose_claims [of "c\<lparr>cn_outbound := enqueue line key reply (cn_outbound c)\<rparr>"]
  by (simp add: conn_enqueue_def Let_def claims_nothing_def)

lemma refuse_claims: "claims_nothing c (refuse refusal reply c)"
proof -
  let ?d = "(releaseConnectionSlot ((noteCloseCause Refused (c\<lparr>cn_phase := Refusing\<rparr>))
      \<lparr>cn_handshakeTimer := False, cn_listening := False, cn_buffered := []\<rparr>))"
  have "claims_nothing c (?d\<lparr>cn_acks := cn_acks ?d @ [Some refusal], cn_refusal := Some (q_next (cn_outbound ?d))\<rparr>)"
    by (simp add: claims_nothing_def releaseConnectionSlot_eq)
  from claims_trans [OF this conn_enqueue_claims] show ?thesis
    by (simp add: refuse_def Let_def) (simp add: claims_nothing_def)
qed

lemma isOver_claims: "isOver env c = (over, d) \<Longrightarrow> claims_nothing c d"
  using isOver_cases(1) noteCloseCause_claims by (fastforce simp: claims_nothing_def)

lemma establish_claims: "claims_nothing c (establish env p r c)"
proof -
  obtain over d where o: "isOver env (c\<lparr>cn_handshakeTimer := False\<rparr>) = (over, d)" by fastforce
  have d: "claims_nothing c d" using isOver_claims [OF o] by (simp add: claims_nothing_def)
  then show ?thesis
    using claims_trans [OF d dispose_claims] by (simp add: establish_def Let_def o) (simp add: claims_nothing_def)
qed

lemma handshake_data_claims:
  "claims_nothing (if env_room env then c\<lparr>cn_slotRelease := True\<rparr> else c) (handleHandshakeData json env chunk reply c)"
proof -
  have r: "claims_nothing c (refuse x reply d)" if "claims_nothing c d" for x d
    using claims_trans [OF that refuse_claims] .
  have e: "claims_nothing (c\<lparr>cn_slotRelease := True\<rparr>) (establish env p x d)"
    if "claims_nothing (c\<lparr>cn_slotRelease := True\<rparr>) d" for p x d
    using claims_trans [OF that establish_claims] .
  have up: "claims_nothing (c\<lparr>cn_slotRelease := True\<rparr>) d" if "claims_nothing c d" for d
    using that by (simp add: claims_nothing_def)
  have b: "claims_nothing c (c\<lparr>cn_buffered := xs\<rparr>)" "claims_nothing c (c\<lparr>cn_listening := False, cn_buffered := xs\<rparr>)"
    "claims_nothing (c\<lparr>cn_slotRelease := True\<rparr>) (c\<lparr>cn_listening := False, cn_buffered := xs, cn_slotRelease := True, cn_reserves := n\<rparr>)"
    "claims_nothing c c" for xs n
    by (simp_all add: claims_nothing_def)
  show ?thesis
    using b r [OF b(1)] r [OF b(2)] e [OF b(3)] up
    by (simp add: handleHandshakeData_def Let_def split: handshake_parse.split)
qed

text \<open>Only this step tells a peer yes, and only when nothing ended the connection meanwhile.\<close>

lemma check_resumes_claims:
  "claims_nothing c (check_resumes env answer reply c)
   \<or> \<not> cn_closedLatch c \<and> \<not> cn_disposed c \<and> \<not> env_stale env
     \<and> claims_nothing (c\<lparr>cn_acks := cn_acks c @ [None]\<rparr>) (check_resumes env answer reply c)"
proof (cases "cn_establish c")
  case (Awaiting_check p r n)
  obtain over d where o: "isOver env (c\<lparr>cn_establish := Not_establishing\<rparr>) = (over, d)" by fastforce
  have d: "claims_nothing c d" using isOver_claims [OF o] by (simp add: claims_nothing_def)
  show ?thesis
  proof (cases "over \<or> check_refusal n answer \<noteq> None")
    case True
    then show ?thesis using d claims_trans [OF d refuse_claims]
      by (auto simp: check_resumes_def Awaiting_check Let_def o split: option.split)
  next
    case False
    then have e: "\<not> cn_closedLatch c" "\<not> cn_disposed c" "\<not> env_stale env" "d = c\<lparr>cn_establish := Not_establishing\<rparr>"
      using isOver_cases(2,3) [OF o] by auto
    have "claims_nothing (c\<lparr>cn_acks := cn_acks c @ [None]\<rparr>)
        (d\<lparr>cn_acks := cn_acks d @ [None], cn_establish := w\<rparr>)" for w
      by (simp add: claims_nothing_def e(4))
    from claims_trans [OF this conn_enqueue_claims] False e(1-3) show ?thesis
      by (simp add: check_resumes_def Awaiting_check Let_def o)
  qed
qed (simp_all add: check_resumes_def claims_nothing_def)

lemma ack_resumes_claims:
  "claims_nothing c (ack_resumes env c)
   \<or> \<not> cn_closedLatch c \<and> \<not> cn_disposed c \<and> \<not> env_stale env
     \<and> claims_nothing (c\<lparr>cn_phase := Serving_phase\<rparr>) (ack_resumes env c)"
proof (cases "cn_establish c")
  case (Awaiting_ack k p r)
  obtain over d where o: "isOver env (c\<lparr>cn_establish := Not_establishing\<rparr>) = (over, d)" by fastforce
  have d: "claims_nothing c d" using isOver_claims [OF o] by (simp add: claims_nothing_def)
  show ?thesis
  proof (cases over)
    case True
    then show ?thesis using claims_trans [OF d dispose_claims]
      by (simp add: ack_resumes_def Awaiting_ack Let_def o) (simp add: claims_nothing_def)
  next
    case False
    then have "\<not> cn_closedLatch c" "\<not> cn_disposed c" "\<not> env_stale env" "d = c\<lparr>cn_establish := Not_establishing\<rparr>"
      using isOver_cases(2,3) [OF o] by auto
    then show ?thesis by (simp add: ack_resumes_def Awaiting_ack Let_def isOver_def claims_nothing_def)
  qed
qed (simp_all add: ack_resumes_def claims_nothing_def)

lemma serve_ready_claims:
  "claims_nothing c (serve_ready env loaded c)
   \<or> env_epoch_current env \<and> \<not> cn_serve_closed c \<and> claims_nothing (c\<lparr>cn_serve := Running\<rparr>) (serve_ready env loaded c)"
  using dispose_claims [of "c\<lparr>cn_serve := Serve_over\<rparr>"]
  by (simp add: serve_ready_def) (simp add: claims_nothing_def destroy_wire_def)

text \<open>Every claim of a step is one the host granted.\<close>

definition claims_granted :: "studio_env \<Rightarrow> studio_conn \<Rightarrow> studio_conn \<Rightarrow> bool" where
  "claims_granted env c d =
     ((cn_slotRelease d \<longrightarrow> cn_slotRelease c \<or> env_room env)
      \<and> (cn_phase d = Serving_phase \<longrightarrow> cn_phase c = Serving_phase \<or> \<not> cn_closedLatch c \<and> \<not> cn_disposed c \<and> \<not> env_stale env)
      \<and> (cn_serve d = Running \<longrightarrow> cn_serve c = Running \<or> env_epoch_current env)
      \<and> (cn_inFlight d \<le> cn_inFlight c \<or> env_call_room env \<and> cn_inFlight d = cn_inFlight c + 1)
      \<and> (None \<in> set (cn_acks d) \<longrightarrow>
           None \<in> set (cn_acks c) \<or> \<not> cn_closedLatch c \<and> \<not> cn_disposed c \<and> \<not> env_stale env))"

lemma claims_nothing_granted: "claims_nothing c d \<Longrightarrow> claims_granted env c d"
  by (simp add: claims_nothing_def claims_granted_def)

lemma conn_step_claims: "claims_granted env c (conn_step json env c a)"
proof (cases a)
  case (Wire_data chunk reply)
  then show ?thesis
    using handshake_data_claims [of env c json chunk reply]
    by (simp add: claims_granted_def claims_nothing_def split: if_splits)
next
  case (Handshake_deadline reply)
  have "claims_nothing c (c\<lparr>cn_handshakeTimer := False\<rparr>)" by (simp add: claims_nothing_def)
  from claims_nothing_granted [OF this] claims_nothing_granted [OF claims_trans [OF this refuse_claims]]
  show ?thesis using Handshake_deadline by (simp add: Let_def) (simp add: claims_granted_def)
next
  case Refuse_resumes
  have "claims_nothing c (c\<lparr>cn_refusal := None\<rparr>)" by (simp add: claims_nothing_def)
  from claims_nothing_granted [OF claims_trans [OF this dispose_claims]] show ?thesis
    using Refuse_resumes by (simp add: refuse_resumes_def split: option.split) (simp add: claims_granted_def)
next
  case Ack_resumes
  then show ?thesis using ack_resumes_claims [of c env] by (auto simp: claims_nothing_def claims_granted_def)
next
  case (Serve_ready loaded)
  then show ?thesis using serve_ready_claims [of c env loaded] by (auto simp: claims_nothing_def claims_granted_def)
next
  case Wire_closes
  let ?d = "c\<lparr>cn_outbound := on_edge Edge_gone ((cn_outbound c)\<lparr>q_destroyed := True\<rparr>)\<rparr>"
  have "claims_nothing c ?d" by (simp add: claims_nothing_def)
  from claims_nothing_granted [OF claims_trans [OF this dispose_claims]] show ?thesis
    using Wire_closes by (simp add: on_wire_closed_def Let_def)
next
  case (Check_resumes answer reply)
  then show ?thesis using check_resumes_claims [of c env answer reply] by (auto simp: claims_nothing_def claims_granted_def)
next
  case (Serve_write line key reply)
  then show ?thesis using claims_nothing_granted [OF conn_enqueue_claims] by simp (simp add: claims_granted_def)
next
  case Serve_failed
  then show ?thesis using claims_nothing_granted [OF dispose_claims]
    by (simp add: serve_failed_def) (simp add: claims_granted_def)
next
  case Run_call
  then show ?thesis by (simp add: boundedRunCall_def claims_granted_def)
next
  case Serve_closed
  then show ?thesis by (simp add: served_closed_def dispose_end_def destroy_wire_def claims_granted_def)
next
  case Call_settles
  then show ?thesis by (simp add: call_settles_def claims_granted_def)
qed (simp_all add: claims_granted_def)


end
