(* ===== verification/StudioHost.thy ===== *)
theory StudioHost
  imports StudioConnection
begin

text \<open>
  The Studio MCP host (\<open>mcp-host.ts\<close>): the registry of its connections, the bounds, the lock and
  the quit teardown, and the status it shows; with the readiness barrier (\<open>readiness.ts\<close>) and the
  admission door (\<open>admission.ts\<close>) its answers rest on. The listener's phase and the front's cause
  are inputs. A wire the listener accepted is a new connection; every connection ever accepted keeps
  its place in \<open>sh_conns\<close>, and \<open>sh_connections\<close> names those the host still knows.
\<close>

section \<open>The readiness barrier\<close>

datatype studio_readiness = Runtime_ready | Runtime_unready unready_code string

record readiness_barrier =
  rd_readiness :: studio_readiness
  rd_epoch :: nat

definition STARTING_CAUSE :: string where
  "STARTING_CAUSE =
     ''Vex Studio is still starting, so this action was not queued. Nothing was ''
     @ ''executed. Try again in a moment.''"

definition FENCE_CAUSE :: string where
  "FENCE_CAUSE =
     ''Vex Studio could not initialize its approval fence, so it did not queue ''
     @ ''this action. Nothing was executed. Restart Vex and check that its local ''
     @ ''database is running.''"

definition SHUTDOWN_CAUSE :: string where
  "SHUTDOWN_CAUSE = ''Vex is shutting down, so this action was not queued. Nothing was executed.''"

definition boot_readiness :: readiness_barrier where
  "boot_readiness = \<lparr>rd_readiness = Runtime_unready Starting_up STARTING_CAUSE, rd_epoch = 0\<rparr>"

definition beginStudioReadinessEpoch :: "readiness_barrier \<Rightarrow> nat \<times> readiness_barrier" where
  "beginStudioReadinessEpoch b =
     (rd_epoch b + 1, b\<lparr>rd_epoch := rd_epoch b + 1, rd_readiness := Runtime_unready Starting_up STARTING_CAUSE\<rparr>)"

definition markStudioRuntimeReady :: "nat \<Rightarrow> readiness_barrier \<Rightarrow> bool \<times> readiness_barrier" where
  "markStudioRuntimeReady callerEpoch b =
     (if callerEpoch \<noteq> rd_epoch b then (False, b) else (True, b\<lparr>rd_readiness := Runtime_ready\<rparr>))"

definition markStudioFenceUninitialized :: "nat \<Rightarrow> readiness_barrier \<Rightarrow> readiness_barrier" where
  "markStudioFenceUninitialized callerEpoch b =
     (if callerEpoch \<noteq> rd_epoch b then b
      else b\<lparr>rd_readiness := Runtime_unready Fence_uninitialized FENCE_CAUSE\<rparr>)"

definition markStudioRuntimeShuttingDown :: "readiness_barrier \<Rightarrow> readiness_barrier" where
  "markStudioRuntimeShuttingDown b =
     b\<lparr>rd_epoch := rd_epoch b + 1, rd_readiness := Runtime_unready Shutting_down SHUTDOWN_CAUSE\<rparr>"

datatype readiness_op = Begin_epoch | Mark_ready nat | Mark_fence_uninitialized nat | Mark_shutting_down

fun readiness_step :: "readiness_barrier \<Rightarrow> readiness_op \<Rightarrow> readiness_barrier" where
  "readiness_step b Begin_epoch = snd (beginStudioReadinessEpoch b)"
| "readiness_step b (Mark_ready e) = snd (markStudioRuntimeReady e b)"
| "readiness_step b (Mark_fence_uninitialized e) = markStudioFenceUninitialized e b"
| "readiness_step b Mark_shutting_down = markStudioRuntimeShuttingDown b"

text \<open>
  Shutting down is a one-way door for everything already in flight. Once the runtime was marked
  as shutting down, no transition that presents a token handed out before makes it ready again, in
  whatever number and order they come; only a new initialization does.
\<close>

theorem shutting_down_is_one_way:
  assumes "\<forall>op\<in>set ops. op \<noteq> Begin_epoch \<and> (\<forall>e. op = Mark_ready e \<longrightarrow> e \<le> rd_epoch b)"
  shows "rd_readiness (foldl readiness_step b (Mark_shutting_down # ops)) \<noteq> Runtime_ready"
proof -
  define c where "c = readiness_step b Mark_shutting_down"
  have "rd_readiness c \<noteq> Runtime_ready \<and> rd_epoch b < rd_epoch c"
    by (simp add: c_def markStudioRuntimeShuttingDown_def)
  then have "rd_readiness (foldl readiness_step c ops) \<noteq> Runtime_ready" using assms
  proof (induction ops arbitrary: c)
    case (Cons op ops)
    have "rd_readiness (readiness_step c op) \<noteq> Runtime_ready \<and> rd_epoch b < rd_epoch (readiness_step c op)"
      using Cons.prems
      by (cases op) (auto simp: markStudioRuntimeReady_def markStudioFenceUninitialized_def markStudioRuntimeShuttingDown_def)
    then show ?case using Cons.IH Cons.prems(2) by simp
  qed simp
  then show ?thesis by (simp add: c_def)
qed

theorem shutting_down_is_one_way_witness:
  "rd_readiness (foldl readiness_step (readiness_step boot_readiness Begin_epoch)
     (Mark_shutting_down # [Mark_ready 1, Mark_fence_uninitialized 1])) \<noteq> Runtime_ready"
  by (rule shutting_down_is_one_way) (simp add: boot_readiness_def beginStudioReadinessEpoch_def)

section \<open>State\<close>

definition LOCKED_SENTENCE :: string where
  "LOCKED_SENTENCE =
     ''Vex is locked, so it will not serve MCP calls. Nothing was executed and no ''
     @ ''funds moved. Unlock Vex and connect again.''"

definition STUDIO_MAX_INFLIGHT_GLOBAL :: int where
  "STUDIO_MAX_INFLIGHT_GLOBAL = 32"

datatype listener_phase = Stopped string | Starting | Listening | Listener_shutting_down

datatype shutdown_stage = Not_quitting | Quitting | Connections_closing | Quit_done

record studio_host =
  sh_admission :: admission
  sh_readiness :: readiness_barrier
  sh_listener :: listener_phase
  sh_front :: "host_unavailable_cause option"
  sh_configured :: bool
  sh_conns :: "studio_conn list"
  sh_connections :: "nat list"
  sh_reserved :: int
  sh_globalInFlight :: int
  sh_shutdown :: shutdown_stage

definition new_host :: studio_host where
  "new_host =
     \<lparr>sh_admission = boot_admission, sh_readiness = boot_readiness, sh_listener = Stopped ''not_started'',
      sh_front = None, sh_configured = False, sh_conns = [], sh_connections = [], sh_reserved = 0,
      sh_globalInFlight = 0, sh_shutdown = Not_quitting\<rparr>"

text \<open>\<open>studioAdmission\<close> with its cause, as the refusal a peer is sent; \<open>None\<close> when ready.\<close>

definition readiness_code :: "studio_readiness \<Rightarrow> unready_code option" where
  "readiness_code r = (case r of Runtime_ready \<Rightarrow> None | Runtime_unready code cause \<Rightarrow> Some code)"

definition host_admission :: "studio_host \<Rightarrow> studio_admission" where
  "host_admission h = studioAdmission (sh_admission h) (readiness_code (rd_readiness (sh_readiness h)))"

definition not_ready_refusal :: "studio_host \<Rightarrow> handshake_refusal option" where
  "not_ready_refusal h =
     (if ad_locked (sh_admission h) then Some (lockedRefusal LOCKED_SENTENCE)
      else (case rd_readiness (sh_readiness h) of
              Runtime_ready \<Rightarrow> None
            | Runtime_unready code cause \<Rightarrow> Some (lockedRefusal cause)))"

definition connection :: "nat \<Rightarrow> studio_host \<Rightarrow> studio_conn" where
  "connection i h = sh_conns h ! i"

text \<open>What the host answers to connection \<open>i\<close>.\<close>

definition host_env :: "nat \<Rightarrow> studio_host \<Rightarrow> studio_env" where
  "host_env i h =
     (let epoch = cn_epoch (connection i h); current = studioAdmissionEpoch (sh_admission h) in
      \<lparr>env_stale = (epoch \<noteq> current \<or> host_admission h = Admission_locked),
       env_room = (sh_reserved h < int STUDIO_MAX_CONNECTIONS),
       env_call_room = (sh_globalInFlight h < STUDIO_MAX_INFLIGHT_GLOBAL),
       env_not_ready = not_ready_refusal h,
       env_epoch_current = (epoch = current)\<rparr>)"

text \<open>
  Connection \<open>i\<close> after a method: the slots it claimed and released, the calls it started and
  finished, and its \<open>onClosed\<close>.
\<close>

definition put_connection :: "nat \<Rightarrow> studio_conn \<Rightarrow> studio_host \<Rightarrow> studio_host" where
  "put_connection i d h =
     (let c = connection i h in
      h\<lparr>sh_conns := (sh_conns h)[i := d],
        sh_reserved := sh_reserved h + (int (cn_reserves d) - int (cn_reserves c)) - (int (cn_releases d) - int (cn_releases c)),
        sh_globalInFlight := sh_globalInFlight h + (int (cn_inFlight d) - int (cn_inFlight c)),
        sh_connections := (if cn_closedCalls d = cn_closedCalls c then sh_connections h
                           else removeAll i (sh_connections h))\<rparr>)"

section \<open>Operations\<close>

definition pending_handshakes :: "studio_host \<Rightarrow> nat" where
  "pending_handshakes h =
     length (filter (\<lambda>i. cn_phase (connection i h) = Handshaking) (sh_connections h))"

definition handleConnection :: "write_reply \<Rightarrow> studio_host \<Rightarrow> studio_host" where
  "handleConnection reply h =
     (if \<not> sh_configured h then h
      else
        let i = length (sh_conns h);
            c = newStudioConnection (studioAdmissionEpoch (sh_admission h));
            h1 = h\<lparr>sh_conns := sh_conns h @ [c], sh_connections := sh_connections h @ [i]\<rparr>
        in case not_ready_refusal h1 of
             Some refusal \<Rightarrow> put_connection i (refuse refusal reply c) h1
           | None \<Rightarrow>
               if pending_handshakes h1 > STUDIO_MAX_HANDSHAKE_PENDING
               then put_connection i
                      (refuse (atCapacityRefusal STUDIO_MAX_HANDSHAKE_PENDING ''connections waiting to handshake'')
                        reply c) h1
               else h1)"

definition destroy_connections :: "cancel_cause \<Rightarrow> nat list \<Rightarrow> studio_host \<Rightarrow> studio_host" where
  "destroy_connections cause is h = fold (\<lambda>i h. put_connection i (destroyNow cause (connection i h)) h) is h"

definition dispose_connections :: "cancel_cause \<Rightarrow> nat list \<Rightarrow> studio_host \<Rightarrow> studio_host" where
  "dispose_connections cause is h = fold (\<lambda>i h. put_connection i (connection_dispose cause (connection i h)) h) is h"

definition close_admission :: "studio_host \<Rightarrow> studio_host" where
  "close_admission h = h\<lparr>sh_admission := closeStudioAdmission (sh_admission h)\<rparr>"

definition lockStudioMcpHost :: "cancel_cause \<Rightarrow> studio_host \<Rightarrow> studio_host" where
  "lockStudioMcpHost cause h =
     (let h1 = close_admission h;
          h2 = (if cause = Vex_quit then h1\<lparr>sh_listener := Listener_shutting_down\<rparr> else h1)
      in destroy_connections cause (sh_connections h2) h2)"

definition openStudioMcpAdmission :: "studio_host \<Rightarrow> studio_host" where
  "openStudioMcpAdmission h = h\<lparr>sh_admission := openStudioAdmission (sh_admission h)\<rparr>"

text \<open>
  \<open>shutdownStudioMcpHost\<close> in its three stages: up to the wait for the listener; the connections;
  the end, which the deadline may bring before every connection has settled.
\<close>

definition shutdown_begins :: "studio_host \<Rightarrow> studio_host" where
  "shutdown_begins h = (close_admission h)\<lparr>sh_listener := Listener_shutting_down, sh_shutdown := Quitting\<rparr>"

definition shutdown_connections :: "studio_host \<Rightarrow> studio_host" where
  "shutdown_connections h =
     (let open_conns = sh_connections h
      in (dispose_connections Vex_quit open_conns (destroy_connections Vex_quit open_conns h))
           \<lparr>sh_shutdown := Connections_closing\<rparr>)"

definition shutdown_ends :: "studio_host \<Rightarrow> studio_host" where
  "shutdown_ends h =
     h\<lparr>sh_connections := [], sh_globalInFlight := 0, sh_reserved := 0, sh_shutdown := Quit_done\<rparr>"

section \<open>The status the window shows\<close>

datatype status_cause =
    Host_shutting_down | Listener_cause string | Front_cause host_unavailable_cause | Unready_cause unready_code

datatype host_state = Status_starting | Status_locked | Status_running | Status_unavailable status_cause

record host_status =
  st_connectionCount :: int
  st_maxConnections :: nat
  st_atCapacity :: bool
  st_state :: host_state

definition currentHostStatus :: "studio_host \<Rightarrow> host_status" where
  "currentHostStatus h =
     \<lparr>st_connectionCount = sh_reserved h, st_maxConnections = STUDIO_MAX_CONNECTIONS,
      st_atCapacity = (sh_reserved h \<ge> int STUDIO_MAX_CONNECTIONS),
      st_state =
        (case sh_listener h of
           Listener_shutting_down \<Rightarrow> Status_unavailable Host_shutting_down
         | Starting \<Rightarrow> Status_starting
         | Stopped cause \<Rightarrow> Status_unavailable (Listener_cause cause)
         | Listening \<Rightarrow>
             (case sh_front h of
                Some cause \<Rightarrow> Status_unavailable (Front_cause cause)
              | None \<Rightarrow>
                  if studioAdmissionPermanentlyClosed (sh_admission h)
                  then Status_unavailable (Front_cause Admission_permanently_closed)
                  else (case host_admission h of
                     Admission_locked \<Rightarrow> Status_locked
                   | Admission_unready code \<Rightarrow> Status_unavailable (Unready_cause code)
                   | Admission_ready \<Rightarrow> Status_running)))\<rparr>"

section \<open>Runs\<close>

datatype host_op =
    Accept write_reply
  | On nat conn_op
  | Lock cancel_cause
  | Open_admission
  | Readiness readiness_op
  | Configure
  | Listener listener_phase
  | Front_unavailable_cause "host_unavailable_cause option"
  | Shutdown
  | Shutdown_connections
  | Shutdown_ends

text \<open>
  A wire is accepted while the listener listens. Its phase is the listener's own, except that
  shutting down is terminal. The stages of the shutdown come in their order.
\<close>

fun host_step :: "(bytes \<Rightarrow> json_document option) \<Rightarrow> studio_host \<Rightarrow> host_op \<Rightarrow> studio_host" where
  "host_step json h (Accept reply) = (if sh_listener h = Listening then handleConnection reply h else h)"
| "host_step json h (On i op) =
     (if i < length (sh_conns h)
      then put_connection i (conn_step json (host_env i h) (connection i h) op) h else h)"
| "host_step json h (Lock cause) = lockStudioMcpHost cause h"
| "host_step json h Open_admission = openStudioMcpAdmission h"
| "host_step json h (Readiness op) = h\<lparr>sh_readiness := readiness_step (sh_readiness h) op\<rparr>"
| "host_step json h Configure = h\<lparr>sh_configured := True\<rparr>"
| "host_step json h (Listener phase) =
     (if sh_listener h = Listener_shutting_down then h else h\<lparr>sh_listener := phase\<rparr>)"
| "host_step json h (Front_unavailable_cause cause) = h\<lparr>sh_front := cause\<rparr>"
| "host_step json h Shutdown = (if sh_shutdown h = Not_quitting then shutdown_begins h else h)"
| "host_step json h Shutdown_connections = (if sh_shutdown h = Quitting then shutdown_connections h else h)"
| "host_step json h Shutdown_ends = (if sh_shutdown h = Connections_closing then shutdown_ends h else h)"

section \<open>Invariant\<close>

definition slots :: "studio_conn list \<Rightarrow> nat" where
  "slots cs = length (filter cn_slotRelease cs)"

definition handshakes :: "studio_conn list \<Rightarrow> nat" where
  "handshakes cs = length (filter (\<lambda>c. cn_phase c = Handshaking) cs)"

definition calls :: "studio_conn list \<Rightarrow> nat" where
  "calls cs = sum_list (map cn_inFlight cs)"

definition conns_ok :: "studio_host \<Rightarrow> bool" where
  "conns_ok h = (\<forall>c\<in>set (sh_conns h). connection_inv c \<and> cn_epoch c \<le> ad_epoch (sh_admission h))"

definition registry_ok :: "studio_host \<Rightarrow> bool" where
  "registry_ok h =
     (distinct (sh_connections h)
      \<and> (if sh_shutdown h = Quit_done then sh_connections h = []
         else \<forall>i. i \<in> set (sh_connections h) \<longleftrightarrow> i < length (sh_conns h) \<and> cn_closedCalls (connection i h) = 0))"

definition slots_ok :: "studio_host \<Rightarrow> bool" where
  "slots_ok h =
     (sh_reserved h = int (slots (sh_conns h)) \<and> sh_reserved h \<le> int STUDIO_MAX_CONNECTIONS
      \<and> (sh_shutdown h \<noteq> Quit_done \<longrightarrow>
           sh_globalInFlight h = int (calls (sh_conns h)) \<and> int (calls (sh_conns h)) \<le> STUDIO_MAX_INFLIGHT_GLOBAL))"

definition quit_ok :: "studio_host \<Rightarrow> bool" where
  "quit_ok h =
     ((sh_shutdown h \<noteq> Not_quitting \<longrightarrow> sh_listener h = Listener_shutting_down)
      \<and> (sh_shutdown h \<in> {Connections_closing, Quit_done} \<longrightarrow>
           (\<forall>c\<in>set (sh_conns h). cn_disposed c \<and> wire_destroyed c)))"

definition host_ok :: "studio_host \<Rightarrow> bool" where
  "host_ok h = (conns_ok h \<and> registry_ok h \<and> slots_ok h \<and> quit_ok h \<and> admission_inv (sh_admission h))"

definition host_inv :: "studio_host \<Rightarrow> bool" where
  "host_inv h = (host_ok h \<and> handshakes (sh_conns h) \<le> STUDIO_MAX_HANDSHAKE_PENDING)"

lemma slots_update: "i < length cs \<Longrightarrow>
    int (slots (cs[i := d])) = int (slots cs) + of_bool (cn_slotRelease d) - of_bool (cn_slotRelease (cs ! i))"
  using length_filter_update [of i cs cn_slotRelease d] by (auto simp: slots_def split: if_splits)

lemma handshakes_update: "i < length cs \<Longrightarrow>
    handshakes (cs[i := d]) + of_bool (cn_phase (cs ! i) = Handshaking) = handshakes cs + of_bool (cn_phase d = Handshaking)"
  using length_filter_update [of i cs "\<lambda>c. cn_phase c = Handshaking" d] by (auto simp: handshakes_def split: if_splits)

lemma calls_update: "i < length cs \<Longrightarrow>
    int (calls (cs[i := d])) = int (calls cs) + int (cn_inFlight d) - int (cn_inFlight (cs ! i))"
proof (induction cs arbitrary: i)
  case (Cons c cs)
  then show ?case by (cases i) (auto simp: calls_def)
qed simp

text \<open>Nothing the connection counts for the host goes out of step with what it holds.\<close>

lemma slot_books: "connection_inv c \<Longrightarrow> int (cn_reserves c) - int (cn_releases c) = of_bool (cn_slotRelease c)"
  by (simp add: connection_inv_def slot_ok_def)

lemma closed_calls: "connection_inv c \<Longrightarrow> cn_closedCalls c = of_bool (cn_disposed c \<and> \<not> cn_closing c)"
  by (simp add: connection_inv_def over_ok_def)

lemma put_connection_fields [simp]:
  "sh_conns (put_connection i d h) = (sh_conns h)[i := d]" "sh_admission (put_connection i d h) = sh_admission h"
  "sh_readiness (put_connection i d h) = sh_readiness h" "sh_listener (put_connection i d h) = sh_listener h"
  "sh_shutdown (put_connection i d h) = sh_shutdown h" "sh_configured (put_connection i d h) = sh_configured h"
  "sh_front (put_connection i d h) = sh_front h"
  "sh_connections (put_connection i d h) =
     (if cn_closedCalls d = cn_closedCalls (connection i h) then sh_connections h else removeAll i (sh_connections h))"
  by (simp_all add: put_connection_def Let_def)

lemma put_connection_nth: "i < length (sh_conns h) \<Longrightarrow>
    connection j (put_connection i d h) = (if j = i then d else connection j h)"
  by (simp add: connection_def nth_list_update)

lemma conn_of: "host_ok h \<Longrightarrow> i < length (sh_conns h) \<Longrightarrow> connection_inv (connection i h)"
  by (simp add: host_ok_def conns_ok_def connection_def)

lemma put_registry:
  assumes "host_ok h" "i < length (sh_conns h)" "connection_inv d" "cn_closedCalls (connection i h) \<le> cn_closedCalls d"
  shows "registry_ok (put_connection i d h)"
proof (cases "sh_shutdown h = Quit_done")
  case True
  then show ?thesis using assms(1) by (simp add: host_ok_def registry_ok_def)
next
  case False
  then have r: "distinct (sh_connections h)"
    "\<And>j. j \<in> set (sh_connections h) \<longleftrightarrow> j < length (sh_conns h) \<and> cn_closedCalls (connection j h) = 0"
    using assms(1) by (simp_all add: host_ok_def registry_ok_def)
  have "cn_closedCalls d \<le> 1" using closed_calls [OF assms(3)] by simp
  then show ?thesis
    using False r assms(2,4) by (auto simp: registry_ok_def put_connection_nth distinct_removeAll)
qed

lemma put_budget:
  assumes "host_ok h" "i < length (sh_conns h)" "connection_inv d"
    "cn_slotRelease d \<longrightarrow> cn_slotRelease (connection i h) \<or> sh_reserved h < int STUDIO_MAX_CONNECTIONS"
    "cn_inFlight d \<le> cn_inFlight (connection i h)
     \<or> sh_globalInFlight h < STUDIO_MAX_INFLIGHT_GLOBAL \<and> cn_inFlight d = cn_inFlight (connection i h) + 1"
  shows "slots_ok (put_connection i d h)"
proof -
  note b = slot_books [OF conn_of [OF assms(1,2)]] slot_books [OF assms(3)]
  have res: "sh_reserved (put_connection i d h)
      = sh_reserved h + of_bool (cn_slotRelease d) - of_bool (cn_slotRelease (connection i h))"
    using b by (simp add: put_connection_def Let_def)
  have glob: "sh_globalInFlight (put_connection i d h)
      = sh_globalInFlight h + int (cn_inFlight d) - int (cn_inFlight (connection i h))"
    by (simp add: put_connection_def Let_def)
  have o: "slots_ok h" using assms(1) by (simp add: host_ok_def)
  have "sh_reserved (put_connection i d h) = int (slots (sh_conns (put_connection i d h)))"
    using res o slots_update [OF assms(2), of d] by (simp add: slots_ok_def connection_def)
  moreover have "sh_reserved (put_connection i d h) \<le> int STUDIO_MAX_CONNECTIONS"
    using res o assms(4) by (auto simp: slots_ok_def of_bool_def split: if_splits)
  moreover have "sh_globalInFlight (put_connection i d h) = int (calls (sh_conns (put_connection i d h)))"
    if "sh_shutdown h \<noteq> Quit_done"
    using glob o that calls_update [OF assms(2), of d] by (simp add: slots_ok_def connection_def)
  moreover have "sh_globalInFlight (put_connection i d h) \<le> STUDIO_MAX_INFLIGHT_GLOBAL" if "sh_shutdown h \<noteq> Quit_done"
    using glob o that assms(5) by (auto simp: slots_ok_def)
  ultimately show ?thesis by (auto simp: slots_ok_def)
qed

lemma set_update_all: "(\<forall>c\<in>set cs. P c) \<Longrightarrow> P d \<Longrightarrow> \<forall>c\<in>set (cs[i := d]). P c"
  using set_update_subset_insert [of cs i d] by blast

lemma put_ok:
  assumes "host_ok h" "i < length (sh_conns h)" "connection_inv d" "later (connection i h) d"
    "cn_slotRelease d \<longrightarrow> cn_slotRelease (connection i h) \<or> sh_reserved h < int STUDIO_MAX_CONNECTIONS"
    "cn_inFlight d \<le> cn_inFlight (connection i h)
     \<or> sh_globalInFlight h < STUDIO_MAX_INFLIGHT_GLOBAL \<and> cn_inFlight d = cn_inFlight (connection i h) + 1"
  shows "host_ok (put_connection i d h)"
    "handshakes (sh_conns (put_connection i d h)) + of_bool (cn_phase (connection i h) = Handshaking \<and> cn_phase d \<noteq> Handshaking)
       = handshakes (sh_conns h)"
proof -
  let ?c = "connection i h"
  have c: "?c \<in> set (sh_conns h)" using assms(2) by (simp add: connection_def)
  have old: "conns_ok h" "quit_ok h" "admission_inv (sh_admission h)" using assms(1) by (simp_all add: host_ok_def)
  have e: "cn_epoch d \<le> ad_epoch (sh_admission h)" using assms(4) old(1) c by (simp add: conns_ok_def later_def)
  have "conns_ok (put_connection i d h)"
    unfolding conns_ok_def put_connection_fields
    by (rule set_update_all) (use old(1) assms(3) e in \<open>simp_all add: conns_ok_def\<close>)
  moreover have "quit_ok (put_connection i d h)"
  proof -
    have "cn_disposed ?c \<and> wire_destroyed ?c \<Longrightarrow> cn_disposed d \<and> wire_destroyed d" using assms(4) by (simp add: later_def)
    then have "\<forall>x\<in>set ((sh_conns h)[i := d]). cn_disposed x \<and> wire_destroyed x"
      if "\<forall>x\<in>set (sh_conns h). cn_disposed x \<and> wire_destroyed x"
      using set_update_all [OF that] bspec [OF that c] by blast
    then show ?thesis using old(2) unfolding quit_ok_def put_connection_fields by blast
  qed
  ultimately show "host_ok (put_connection i d h)"
    using put_registry [OF assms(1-3)] put_budget [OF assms(1-3,5,6)] assms(4) old(3) by (simp add: host_ok_def later_def)
  have "cn_phase d = Handshaking \<Longrightarrow> cn_phase ?c = Handshaking" using assms(4) by (simp add: later_def)
  then show "handshakes (sh_conns (put_connection i d h)) + of_bool (cn_phase ?c = Handshaking \<and> cn_phase d \<noteq> Handshaking)
       = handshakes (sh_conns h)"
    using handshakes_update [OF assms(2), of d] by (auto simp: connection_def split: if_splits)
qed

text \<open>The two teardowns and a refusal claim nothing.\<close>

lemma destroyNow_claims: "claims_nothing c (destroyNow cause c)"
  by (simp add: claims_nothing_def)

lemma put_quiet:
  assumes "host_ok h" "i < length (sh_conns h)" "connection_inv d" "later (connection i h) d" "claims_nothing (connection i h) d"
  shows "host_ok (put_connection i d h)"
    "handshakes (sh_conns (put_connection i d h)) + of_bool (cn_phase (connection i h) = Handshaking \<and> cn_phase d \<noteq> Handshaking)
       = handshakes (sh_conns h)"
  using put_ok [OF assms(1-4)] assms(5) by (simp_all add: claims_nothing_def)

lemma put_quiet_inv:
  "host_inv h \<Longrightarrow> i < length (sh_conns h) \<Longrightarrow> connection_inv d \<Longrightarrow> later (connection i h) d \<Longrightarrow>
     claims_nothing (connection i h) d \<Longrightarrow> host_inv (put_connection i d h)"
  using put_quiet [of h i d] by (simp add: host_inv_def)

lemma on_inv:
  assumes "host_inv h" "i < length (sh_conns h)"
  shows "host_inv (put_connection i (conn_step json (host_env i h) (connection i h) op) h)"
proof -
  let ?d = "conn_step json (host_env i h) (connection i h) op"
  have ok: "host_ok h" using assms(1) by (simp add: host_inv_def)
  have "claims_granted (host_env i h) (connection i h) ?d" by (rule conn_step_claims)
  then have g: "cn_slotRelease ?d \<longrightarrow> cn_slotRelease (connection i h) \<or> sh_reserved h < int STUDIO_MAX_CONNECTIONS"
    "cn_inFlight ?d \<le> cn_inFlight (connection i h)
     \<or> sh_globalInFlight h < STUDIO_MAX_INFLIGHT_GLOBAL \<and> cn_inFlight ?d = cn_inFlight (connection i h) + 1"
    by (simp_all add: claims_granted_def host_env_def Let_def)
  note p = put_ok [OF ok assms(2) conn_step_inv [OF conn_of [OF ok assms(2)]] conn_step_later g]
  show ?thesis unfolding host_inv_def
    using p(1) trans_le_add1 [OF order_refl, of "handshakes (sh_conns (put_connection i ?d h))"
        "of_bool (cn_phase (connection i h) = Handshaking \<and> cn_phase ?d \<noteq> Handshaking)"]
      assms(1) unfolding p(2) host_inv_def by (metis le_trans)
qed

text \<open>A pending handshake is one the host still knows.\<close>

lemma pending_handshakes_eq:
  assumes "host_ok h" "sh_shutdown h \<noteq> Quit_done"
  shows "pending_handshakes h = handshakes (sh_conns h)"
proof -
  have r: "distinct (sh_connections h)"
    "\<And>i. i \<in> set (sh_connections h) \<longleftrightarrow> i < length (sh_conns h) \<and> cn_closedCalls (connection i h) = 0"
    using assms by (auto simp: host_ok_def registry_ok_def)
  have reg: "cn_closedCalls (connection i h) = 0"
    if "i < length (sh_conns h)" "cn_phase (connection i h) = Handshaking" for i
  proof -
    note c = conn_of [OF assms(1) that(1)]
    have "\<not> cn_disposed (connection i h)" using conn_invD(3) [OF c] that(2) by (auto simp: over_ok_def)
    then show ?thesis using closed_calls [OF c] by simp
  qed
  have "pending_handshakes h = card (set (filter (\<lambda>i. cn_phase (connection i h) = Handshaking) (sh_connections h)))"
    unfolding pending_handshakes_def using distinct_card [OF distinct_filter [OF r(1)]] by (rule sym)
  also have "set (filter (\<lambda>i. cn_phase (connection i h) = Handshaking) (sh_connections h))
      = {i. i < length (sh_conns h) \<and> cn_phase (sh_conns h ! i) = Handshaking}"
    using reg by (auto simp: r(2) connection_def)
  also have "card \<dots> = handshakes (sh_conns h)" by (simp add: handshakes_def length_filter_conv_card)
  finally show ?thesis .
qed

lemma accept_ok:
  assumes "host_ok h" "sh_listener h = Listening" "i = length (sh_conns h)" "c = newStudioConnection (ad_epoch (sh_admission h))"
    "h1 = h\<lparr>sh_conns := sh_conns h @ [c], sh_connections := sh_connections h @ [i]\<rparr>"
  shows "host_ok h1" "handshakes (sh_conns h1) = handshakes (sh_conns h) + 1" "sh_shutdown h1 = Not_quitting"
    "connection i h1 = c" "i < length (sh_conns h1)"
proof -
  have q: "sh_shutdown h = Not_quitting" using assms(1,2) by (auto simp: host_ok_def quit_ok_def)
  have o: "conns_ok h" "registry_ok h" "slots_ok h" "admission_inv (sh_admission h)" using assms(1) by (simp_all add: host_ok_def)
  have "cn_epoch c = ad_epoch (sh_admission h)" "connection_inv c"
    by (simp_all add: assms(4) newStudioConnection_inv) (simp add: newStudioConnection_def)
  then have "conns_ok h1" using o(1) by (auto simp: conns_ok_def assms(5))
  moreover have "registry_ok h1"
  proof -
    have len: "length (sh_conns h1) = Suc i" by (simp add: assms(3,5))
    have nth: "connection j h1 = (if j = i then c else connection j h)" if "j < Suc i" for j
      using that by (auto simp: assms(3,5) connection_def nth_append)
    have new: "cn_closedCalls c = 0" by (simp add: assms(4) newStudioConnection_def)
    have r: "distinct (sh_connections h)"
      "\<And>j. j \<in> set (sh_connections h) \<longleftrightarrow> j < i \<and> cn_closedCalls (connection j h) = 0"
      using o(2) q by (simp_all add: registry_ok_def assms(3))
    have "j \<in> set (sh_connections h @ [i]) \<longleftrightarrow> j < Suc i \<and> cn_closedCalls (connection j h1) = 0" for j
      using nth [of j] new by (auto simp: r(2))
    moreover have "distinct (sh_connections h @ [i])" using r by simp
    moreover have "sh_connections h1 = sh_connections h @ [i]" "sh_shutdown h1 = Not_quitting" by (simp_all add: assms(5) q)
    ultimately show ?thesis by (simp add: registry_ok_def len)
  qed
  moreover have "slots_ok h1"
    using o(3) by (auto simp: slots_ok_def slots_def calls_def assms(4,5) newStudioConnection_def)
  moreover have "quit_ok h1" using q by (simp add: quit_ok_def assms(5))
  ultimately show "host_ok h1" using o(4) by (simp add: host_ok_def assms(5))
  show "handshakes (sh_conns h1) = handshakes (sh_conns h) + 1" "sh_shutdown h1 = Not_quitting" "connection i h1 = c"
    "i < length (sh_conns h1)"
    using q by (simp_all add: handshakes_def assms(3-5) newStudioConnection_def connection_def)
qed

lemma refuse_not_handshaking:
  assumes "cn_phase c = Handshaking"
  shows "cn_phase (refuse r reply c) \<noteq> Handshaking"
proof -
  let ?d = "(releaseConnectionSlot ((noteCloseCause Refused (c\<lparr>cn_phase := Refusing\<rparr>))
      \<lparr>cn_handshakeTimer := False, cn_listening := False, cn_buffered := []\<rparr>))"
  let ?e = "?d\<lparr>cn_acks := cn_acks ?d @ [Some r], cn_refusal := Some (q_next (cn_outbound ?d))\<rparr>"
  have "refuse r reply c = conn_enqueue (encodeStudioHandshakeAck (Some r)) None reply ?e"
    using assms by (simp add: refuse_def Let_def)
  moreover have "cn_phase ?e = Refusing" by (simp add: releaseConnectionSlot_eq)
  moreover have "later ?e (refuse r reply c)" unfolding calculation(1) by (rule conn_enqueue_later)
  ultimately show ?thesis by (auto simp: later_def)
qed

lemma handleConnection_inv:
  assumes "host_inv h" "sh_listener h = Listening"
  shows "host_inv (handleConnection reply h)"
proof (cases "sh_configured h")
  case False
  then show ?thesis using assms(1) by (simp add: handleConnection_def)
next
  case True
  define i where "i = length (sh_conns h)"
  define c where "c = newStudioConnection (ad_epoch (sh_admission h))"
  define h1 where "h1 = h\<lparr>sh_conns := sh_conns h @ [c], sh_connections := sh_connections h @ [i]\<rparr>"
  have ok: "host_ok h" using assms(1) by (simp add: host_inv_def)
  note a = accept_ok [OF ok assms(2) i_def c_def h1_def]
  have new: "cn_phase c = Handshaking" "cn_acks c = []" "cn_establish c = Not_establishing"
    by (simp_all add: c_def newStudioConnection_def)
  have refused: "host_inv (put_connection i (refuse r reply c) h1)" for r
  proof -
    have "connection_inv (refuse r reply c)"
      by (rule refuse_inv [OF _ new]) (simp add: c_def newStudioConnection_inv)
    from put_quiet [OF a(1,5) this] show ?thesis
      using assms(1) a(2) refuse_not_handshaking [OF new(1), of r reply] new(1) refuse_later refuse_claims
      by (simp add: a(4) host_inv_def)
  qed
  have "handshakes (sh_conns h1) \<le> STUDIO_MAX_HANDSHAKE_PENDING"
    if "\<not> pending_handshakes h1 > STUDIO_MAX_HANDSHAKE_PENDING"
    using that pending_handshakes_eq [OF a(1)] a(3) by simp
  then have "host_inv h1" if "\<not> pending_handshakes h1 > STUDIO_MAX_HANDSHAKE_PENDING"
    using that a(1) by (simp add: host_inv_def)
  then show ?thesis
    using refused True
    by (simp add: handleConnection_def Let_def studioAdmissionEpoch_def flip: i_def c_def h1_def split: option.split)
qed

section \<open>Locking and quitting\<close>

text \<open>A method without claims, run on some of the connections in turn.\<close>

lemma claims_refl [simp]: "claims_nothing c c"
  by (simp add: claims_nothing_def)

locale quiet_method =
  fixes f :: "studio_conn \<Rightarrow> studio_conn" and made :: "studio_conn \<Rightarrow> bool"
  assumes keeps: "connection_inv c \<Longrightarrow> connection_inv (f c)" and grows: "later c (f c)" and claims: "claims_nothing c (f c)"
    and makes: "made (f c)" and stays: "made c \<Longrightarrow> later c d \<Longrightarrow> claims_nothing c d \<Longrightarrow> made d"
begin

definition run_on :: "nat list \<Rightarrow> studio_host \<Rightarrow> studio_host" where
  "run_on is h = fold (\<lambda>i h. put_connection i (f (connection i h)) h) is h"

lemma run_on_fields:
  "sh_admission (run_on is h) = sh_admission h \<and> sh_shutdown (run_on is h) = sh_shutdown h
   \<and> sh_listener (run_on is h) = sh_listener h \<and> length (sh_conns (run_on is h)) = length (sh_conns h)
   \<and> sh_readiness (run_on is h) = sh_readiness h"
  unfolding run_on_def by (induction "is" arbitrary: h) simp_all

lemma run_on_inv: "host_inv h \<Longrightarrow> \<forall>i\<in>set is. i < length (sh_conns h) \<Longrightarrow> host_inv (run_on is h)"
proof (induction "is" arbitrary: h)
  case (Cons i "is")
  then have i: "i < length (sh_conns h)" by simp
  have "host_ok h" using Cons.prems(1) by (simp add: host_inv_def)
  then have "connection_inv (connection i h)" using i by (rule conn_of)
  then have "host_inv (put_connection i (f (connection i h)) h)"
    by (intro put_quiet_inv Cons.prems i keeps grows claims)
  then show ?case using Cons by (simp add: run_on_def)
qed (simp add: run_on_def)

lemma run_on_each:
  assumes "\<forall>i\<in>set is. i < length (sh_conns h)" "j < length (sh_conns h)"
  shows "later (connection j h) (connection j (run_on is h)) \<and> claims_nothing (connection j h) (connection j (run_on is h))
    \<and> (j \<in> set is \<or> made (connection j h) \<longrightarrow> made (connection j (run_on is h)))"
  using assms
proof (induction "is" arbitrary: h)
  case (Cons i "is")
  then have i: "i < length (sh_conns h)" by simp
  let ?g = "put_connection i (f (connection i h)) h"
  have step: "later (connection j h) (connection j ?g)" "claims_nothing (connection j h) (connection j ?g)"
    "j = i \<or> made (connection j h) \<longrightarrow> made (connection j ?g)"
    using grows claims makes stays by (auto simp: put_connection_nth [OF i])
  have "later (connection j ?g) (connection j (run_on is ?g)) \<and> claims_nothing (connection j ?g) (connection j (run_on is ?g))
    \<and> (j \<in> set is \<or> made (connection j ?g) \<longrightarrow> made (connection j (run_on is ?g)))"
    by (rule Cons.IH) (use Cons.prems in simp_all)
  moreover have "run_on (i # is) h = run_on is ?g" by (simp add: run_on_def)
  ultimately show ?case using step later_trans claims_trans by (metis set_ConsD)
qed (simp add: run_on_def)

end

text \<open>A latched connection has given its slot back and lost its wire, and stays so.\<close>

definition latched :: "studio_conn \<Rightarrow> bool" where
  "latched c = (cn_closedLatch c \<and> wire_destroyed c \<and> \<not> cn_slotRelease c)"

interpretation destroying: quiet_method "destroyNow cause" latched for cause
  by unfold_locales
    (auto simp: destroyNow_inv destroyNow_later destroyNow_claims latched_def wire_destroyed_def, auto simp: later_def claims_nothing_def wire_destroyed_def)

lemma dispose_disposes: "cn_disposed (connection_dispose cause c)"
  by (cases "cn_disposed c") (simp_all add: dispose_again dispose_fields)

interpretation disposing: quiet_method "connection_dispose cause" cn_disposed for cause
  by unfold_locales (simp_all add: dispose_inv dispose_later dispose_claims dispose_disposes, simp add: later_def)

lemma destroy_connections_run: "destroy_connections cause is h = destroying.run_on cause is h"
  by (simp add: destroy_connections_def destroying.run_on_def)

lemma dispose_connections_run: "dispose_connections cause is h = disposing.run_on cause is h"
  by (simp add: dispose_connections_def disposing.run_on_def)

lemma registered_lt: "host_ok h \<Longrightarrow> i \<in> set (sh_connections h) \<Longrightarrow> i < length (sh_conns h)"
  by (auto simp: host_ok_def registry_ok_def split: if_splits)

lemma close_admission_inv:
  assumes "host_inv h"
  shows "host_inv (close_admission h)"
proof -
  have "admission_inv (closeStudioAdmission (sh_admission h))"
    using admission_door.step_inv [of "sh_admission h" Close_door] assms by (simp add: host_inv_def host_ok_def)
  moreover have "ad_epoch (sh_admission h) \<le> ad_epoch (closeStudioAdmission (sh_admission h))"
    by (simp add: closeStudioAdmission_def Let_def)
  then have "conns_ok (close_admission h)"
    using assms by (fastforce simp: host_inv_def host_ok_def conns_ok_def close_admission_def)
  ultimately show ?thesis
    using assms by (simp add: host_inv_def host_ok_def close_admission_def registry_ok_def slots_ok_def quit_ok_def connection_def)
qed

lemma frame_inv:
  "sh_conns g = sh_conns h \<Longrightarrow> sh_connections g = sh_connections h \<Longrightarrow> sh_reserved g = sh_reserved h \<Longrightarrow>
   sh_globalInFlight g = sh_globalInFlight h \<Longrightarrow> sh_shutdown g = sh_shutdown h \<Longrightarrow> sh_admission g = sh_admission h \<Longrightarrow>
   (sh_listener h = Listener_shutting_down \<longrightarrow> sh_listener g = Listener_shutting_down) \<Longrightarrow> host_inv h \<Longrightarrow> host_inv g"
  by (simp add: host_inv_def host_ok_def conns_ok_def registry_ok_def slots_ok_def quit_ok_def connection_def)

lemma lock_inv:
  assumes "host_inv h"
  shows "host_inv (lockStudioMcpHost cause h)"
proof -
  let ?g = "if cause = Vex_quit then (close_admission h)\<lparr>sh_listener := Listener_shutting_down\<rparr> else close_admission h"
  have c: "host_inv (close_admission h)" by (rule close_admission_inv [OF assms])
  have g: "host_inv ?g" by (rule frame_inv [OF _ _ _ _ _ _ _ c]) simp_all
  have "\<forall>i\<in>set (sh_connections ?g). i < length (sh_conns ?g)"
    using g registered_lt by (simp add: host_inv_def)
  from destroying.run_on_inv [OF g this] show ?thesis
    by (simp add: lockStudioMcpHost_def Let_def destroy_connections_run)
qed

lemma open_admission_inv: "host_inv h \<Longrightarrow> host_inv (openStudioMcpAdmission h)"
  using admission_door.step_inv [of "sh_admission h" Open_door]
  by (simp add: host_inv_def host_ok_def conns_ok_def registry_ok_def slots_ok_def quit_ok_def connection_def
      openStudioMcpAdmission_def) (simp add: openStudioAdmission_def)

lemma shutdown_begins_inv:
  assumes "host_inv h" "sh_shutdown h = Not_quitting"
  shows "host_inv (shutdown_begins h)"
  using close_admission_inv [OF assms(1)] assms(2)
  by (simp add: shutdown_begins_def host_inv_def host_ok_def conns_ok_def registry_ok_def slots_ok_def quit_ok_def
      connection_def close_admission_def)

lemma over_destroyed: "connection_inv c \<Longrightarrow> cn_disposed c \<Longrightarrow> cn_closedCalls c \<noteq> 0 \<Longrightarrow> wire_destroyed c"
  by (auto simp: connection_inv_def over_ok_def)

lemma unregistered_over:
  assumes "host_ok h" "i < length (sh_conns h)" "i \<notin> set (sh_connections h)"
  shows "cn_disposed (connection i h)" "wire_destroyed (connection i h)"
proof -
  have "cn_disposed (connection i h) \<and> wire_destroyed (connection i h)"
  proof (cases "sh_shutdown h = Quit_done")
    case True
    then show ?thesis using assms(1,2) by (auto simp: host_ok_def quit_ok_def connection_def)
  next
    case False
    then have n: "cn_closedCalls (connection i h) \<noteq> 0" using assms by (auto simp: host_ok_def registry_ok_def)
    note c = conn_of [OF assms(1,2)]
    have "cn_disposed (connection i h)" using n closed_calls [OF c] by (auto split: if_splits)
    then show ?thesis using over_destroyed [OF c _ n] by simp
  qed
  then show "cn_disposed (connection i h)" "wire_destroyed (connection i h)" by simp_all
qed

lemma shutdown_connections_disposes:
  assumes "host_inv h" "i < length (sh_conns h)"
  shows "cn_disposed (connection i (shutdown_connections h)) \<and> wire_destroyed (connection i (shutdown_connections h))"
proof -
  let ?is = "sh_connections h" and ?g = "destroy_connections Vex_quit (sh_connections h) h"
  let ?k = "disposing.run_on Vex_quit ?is ?g"
  have ok: "host_ok h" using assms(1) by (simp add: host_inv_def)
  have lt: "\<forall>i\<in>set ?is. i < length (sh_conns h)" using registered_lt [OF ok] by simp
  have len: "length (sh_conns ?g) = length (sh_conns h)" using destroying.run_on_fields by (simp add: destroy_connections_run)
  have g: "later (connection i h) (connection i ?g)" "i \<in> set ?is \<longrightarrow> latched (connection i ?g)"
    unfolding destroy_connections_run using destroying.run_on_each [OF lt assms(2)] by simp_all
  have k: "later (connection i ?g) (connection i ?k)" "i \<in> set ?is \<or> cn_disposed (connection i ?g) \<longrightarrow> cn_disposed (connection i ?k)"
    using disposing.run_on_each [of ?is ?g i Vex_quit] lt len assms(2) by simp_all
  have "cn_disposed (connection i ?k) \<and> wire_destroyed (connection i ?k)"
  proof (cases "i \<in> set ?is")
    case True
    then show ?thesis using g(2) k by (auto simp: later_def latched_def)
  next
    case False
    then show ?thesis using unregistered_over [OF ok assms(2)] g(1) k by (auto simp: later_def)
  qed
  then show ?thesis by (simp add: shutdown_connections_def Let_def dispose_connections_run connection_def)
qed

lemma shutdown_connections_inv:
  assumes "host_inv h" "sh_shutdown h = Quitting"
  shows "host_inv (shutdown_connections h)"
proof -
  let ?is = "sh_connections h" and ?g = "destroy_connections Vex_quit (sh_connections h) h"
  let ?k = "dispose_connections Vex_quit (sh_connections h) ?g"
  have lt: "\<forall>i\<in>set ?is. i < length (sh_conns h)" using registered_lt assms(1) by (simp add: host_inv_def)
  note f = destroying.run_on_fields [of Vex_quit ?is h] disposing.run_on_fields [of Vex_quit ?is ?g]
  have len: "length (sh_conns ?k) = length (sh_conns h)"
    using f by (simp add: destroy_connections_run dispose_connections_run)
  have g: "host_inv ?g" unfolding destroy_connections_run by (rule destroying.run_on_inv [OF assms(1) lt])
  have k: "host_inv ?k" unfolding dispose_connections_run
    by (rule disposing.run_on_inv [OF g]) (use lt f(1) in \<open>simp add: destroy_connections_run\<close>)
  have "sh_listener ?k = Listener_shutting_down" "sh_shutdown ?k = Quitting"
    using f assms by (auto simp: destroy_connections_run dispose_connections_run host_inv_def host_ok_def quit_ok_def)
  moreover have "\<forall>c\<in>set (sh_conns ?k). cn_disposed c \<and> wire_destroyed c"
    using shutdown_connections_disposes [OF assms(1)] len
    by (simp add: all_set_conv_all_nth connection_def shutdown_connections_def Let_def)
  ultimately show ?thesis
    using k by (simp add: shutdown_connections_def Let_def host_inv_def host_ok_def conns_ok_def registry_ok_def slots_ok_def
        quit_ok_def connection_def)
qed

text \<open>At the end of a quit nothing is left that the reset could make wrong, but the calls in flight.\<close>

lemma disposed_no_slot: "connection_inv c \<Longrightarrow> cn_disposed c \<Longrightarrow> \<not> cn_slotRelease c"
  by (auto simp: connection_inv_def slot_ok_def over_ok_def)

lemma shutdown_ends_inv:
  assumes "host_inv h" "sh_shutdown h = Connections_closing"
  shows "host_inv (shutdown_ends h)"
proof -
  have ok: "conns_ok h" "quit_ok h" using assms(1) by (simp_all add: host_inv_def host_ok_def)
  then have "\<forall>c\<in>set (sh_conns h). \<not> cn_slotRelease c"
    using assms(2) disposed_no_slot by (auto simp: conns_ok_def quit_ok_def)
  then have "slots (sh_conns h) = 0" by (simp add: slots_def)
  then show ?thesis
    using assms by (simp add: shutdown_ends_def host_inv_def host_ok_def conns_ok_def registry_ok_def slots_ok_def quit_ok_def)
qed

lemma host_step_inv: "host_inv h \<Longrightarrow> host_inv (host_step json h op)"
proof (cases op)
  case (Readiness r)
  then show "host_inv h \<Longrightarrow> ?thesis" using frame_inv [of "host_step json h op" h] by simp
next
  case Configure
  then show "host_inv h \<Longrightarrow> ?thesis" using frame_inv [of "host_step json h op" h] by simp
next
  case (Listener p)
  then show "host_inv h \<Longrightarrow> ?thesis" using frame_inv [of "host_step json h op" h] by simp
next
  case (Front_unavailable_cause c)
  then show "host_inv h \<Longrightarrow> ?thesis" using frame_inv [of "host_step json h op" h] by simp
qed (simp_all add: handleConnection_inv on_inv lock_inv open_admission_inv shutdown_begins_inv shutdown_connections_inv
    shutdown_ends_inv)

interpretation studio_host: invariant_machine "host_step json" host_inv for json
  by unfold_locales (rule host_step_inv)

lemma new_host_inv: "host_inv new_host"
  by (simp add: new_host_def host_inv_def host_ok_def conns_ok_def registry_ok_def slots_ok_def quit_ok_def connection_def
      slots_def calls_def handshakes_def boot_admission_inv STUDIO_MAX_INFLIGHT_GLOBAL_def)

lemma run_host_inv: "host_inv (foldl (host_step json) new_host ops)"
  by (rule studio_host.run_inv [OF new_host_inv])


end
