(* ===== verification/StudioHostRuns.thy ===== *)
theory StudioHostRuns
  imports StudioHost
begin

text \<open>
  What the Studio host guarantees over any run: its bounds, the fence a lock puts before every
  connection accepted earlier, one answer per peer, and a teardown that gives everything back.
\<close>

section \<open>One connection inside the host\<close>

text \<open>What an operation of the host may do to a connection it has accepted.\<close>

definition goes_on :: "nat \<Rightarrow> studio_conn \<Rightarrow> studio_conn \<Rightarrow> bool" where
  "goes_on epoch c d =
     (later c d
      \<and> (cn_closedLatch c \<longrightarrow> (cn_phase d = Serving_phase \<longrightarrow> cn_phase c = Serving_phase)
           \<and> (None \<in> set (cn_acks d) \<longrightarrow> None \<in> set (cn_acks c)))
      \<and> (cn_serve d = Running \<longrightarrow> cn_serve c = Running \<or> cn_epoch c = epoch))"

lemma goes_on_refl [simp]: "goes_on e c c"
  by (simp add: goes_on_def)

lemma quiet_goes_on: "later c d \<Longrightarrow> claims_nothing c d \<Longrightarrow> goes_on e c d"
  by (simp add: goes_on_def claims_nothing_def)

lemma conn_step_goes_on: "goes_on (ad_epoch (sh_admission h)) (connection i h) (conn_step json (host_env i h) (connection i h) op)"
  using conn_step_later [of "connection i h" json "host_env i h" op] conn_step_claims [of "host_env i h" "connection i h" json op]
  by (auto simp: goes_on_def claims_granted_def host_env_def Let_def studioAdmissionEpoch_def)

lemma handleConnection_keeps:
  assumes "j < length (sh_conns h)"
  shows "connection j (handleConnection reply h) = connection j h"
    "length (sh_conns h) \<le> length (sh_conns (handleConnection reply h))"
    "sh_admission (handleConnection reply h) = sh_admission h"
  using assms
  by (simp_all add: handleConnection_def Let_def connection_def nth_append nth_list_update split: option.split)

lemma run_on_goes_on:
  assumes "host_inv h" "i < length (sh_conns h)" "sh_conns g = sh_conns h" "set is \<subseteq> {..<length (sh_conns h)}"
  shows "goes_on e (connection i h) (connection i (destroy_connections cause is g))"
    "goes_on e (connection i h) (connection i (dispose_connections cause is g))"
  using destroying.run_on_each [of "is" g i cause] disposing.run_on_each [of "is" g i cause] assms(2-4) quiet_goes_on
  by (auto simp: destroy_connections_run dispose_connections_run connection_def subset_iff)

lemma goes_on_quiet_trans: "later c d \<Longrightarrow> claims_nothing c d \<Longrightarrow> later d f \<Longrightarrow> claims_nothing d f \<Longrightarrow> goes_on e c f"
  using later_trans claims_trans quiet_goes_on by blast

lemma shutdown_connections_goes_on:
  assumes "host_inv h" "i < length (sh_conns h)"
  shows "goes_on e (connection i h) (connection i (shutdown_connections h)) \<and> length (sh_conns (shutdown_connections h)) = length (sh_conns h)
    \<and> sh_admission (shutdown_connections h) = sh_admission h"
proof -
  let ?is = "sh_connections h"
  let ?g = "destroying.run_on Vex_quit ?is h"
  have lt: "\<forall>i\<in>set ?is. i < length (sh_conns h)" using registered_lt assms(1) by (simp add: host_inv_def)
  note f = destroying.run_on_fields [of Vex_quit ?is h] disposing.run_on_fields [of Vex_quit ?is ?g]
  have "later (connection i h) (connection i ?g)" "claims_nothing (connection i h) (connection i ?g)"
    using destroying.run_on_each [OF lt assms(2)] by simp_all
  moreover have "later (connection i ?g) (connection i (disposing.run_on Vex_quit ?is ?g))"
    "claims_nothing (connection i ?g) (connection i (disposing.run_on Vex_quit ?is ?g))"
    using disposing.run_on_each [of ?is ?g i Vex_quit] lt f(1) assms(2) by simp_all
  ultimately have "goes_on e (connection i h) (connection i (disposing.run_on Vex_quit ?is ?g))" by (rule goes_on_quiet_trans)
  then show ?thesis
    using f by (simp add: shutdown_connections_def Let_def destroy_connections_run dispose_connections_run connection_def)
qed

lemma lock_fields:
  "length (sh_conns (lockStudioMcpHost cause h)) = length (sh_conns h)
   \<and> sh_admission (lockStudioMcpHost cause h) = closeStudioAdmission (sh_admission h)"
  using destroying.run_on_fields by (simp add: lockStudioMcpHost_def Let_def destroy_connections_run close_admission_def)

lemma lock_quiet:
  assumes "host_inv h" "i < length (sh_conns h)"
  shows "later (connection i h) (connection i (lockStudioMcpHost cause h))"
    "claims_nothing (connection i h) (connection i (lockStudioMcpHost cause h))"
    "i \<in> set (sh_connections h) \<longrightarrow> latched (connection i (lockStudioMcpHost cause h))"
proof -
  let ?g = "if cause = Vex_quit then (close_admission h)\<lparr>sh_listener := Listener_shutting_down\<rparr> else close_admission h"
  have g: "sh_conns ?g = sh_conns h" "sh_connections ?g = sh_connections h" by (simp_all add: close_admission_def)
  have lt: "\<forall>i\<in>set (sh_connections h). i < length (sh_conns ?g)" using registered_lt assms(1) g by (simp add: host_inv_def)
  have i: "i < length (sh_conns ?g)" using assms(2) g by simp
  have "later (connection i ?g) (connection i (destroying.run_on cause (sh_connections h) ?g))
      \<and> claims_nothing (connection i ?g) (connection i (destroying.run_on cause (sh_connections h) ?g))
      \<and> (i \<in> set (sh_connections h) \<longrightarrow> latched (connection i (destroying.run_on cause (sh_connections h) ?g)))"
    using destroying.run_on_each [OF lt i, of cause] by blast
  moreover have "connection i ?g = connection i h" by (simp only: connection_def g)
  moreover have "lockStudioMcpHost cause h = destroying.run_on cause (sh_connections h) ?g"
    by (simp add: lockStudioMcpHost_def Let_def destroy_connections_run close_admission_def)
  ultimately show "later (connection i h) (connection i (lockStudioMcpHost cause h))"
    "claims_nothing (connection i h) (connection i (lockStudioMcpHost cause h))"
    "i \<in> set (sh_connections h) \<longrightarrow> latched (connection i (lockStudioMcpHost cause h))"
    by auto
qed

lemma close_epoch_mono: "ad_epoch a \<le> ad_epoch (closeStudioAdmission a)"
  by (simp add: closeStudioAdmission_def Let_def)

lemma host_step_keeps:
  assumes "host_inv h" "i < length (sh_conns h)"
  shows "goes_on (ad_epoch (sh_admission h)) (connection i h) (connection i (host_step json h op))
    \<and> i < length (sh_conns (host_step json h op)) \<and> ad_epoch (sh_admission h) \<le> ad_epoch (sh_admission (host_step json h op))"
proof (cases op)
  case (Accept reply)
  then show ?thesis using handleConnection_keeps [OF assms(2)] assms(2) by (simp add: less_le_trans)
next
  case (On j cop)
  then show ?thesis
    using assms(2) conn_step_goes_on [of h j json cop] by (cases "j < length (sh_conns h)") (simp_all add: put_connection_nth)
next
  case (Lock cause)
  then show ?thesis using quiet_goes_on [OF lock_quiet(1,2) [OF assms]] lock_fields close_epoch_mono assms(2) by simp
next
  case Shutdown_connections
  then show ?thesis using shutdown_connections_goes_on [OF assms] assms(2) by simp
qed (use assms(2) close_epoch_mono in \<open>simp_all add: openStudioMcpAdmission_def openStudioAdmission_def shutdown_begins_def
      close_admission_def shutdown_ends_def connection_def\<close>)

text \<open>Over a run a connection only grows.\<close>

lemma host_run_keeps:
  "host_inv h \<Longrightarrow> i < length (sh_conns h) \<Longrightarrow>
     later (connection i h) (connection i (foldl (host_step json) h ops)) \<and> i < length (sh_conns (foldl (host_step json) h ops))"
proof (induction ops arbitrary: h)
  case (Cons op ops)
  note k = host_step_keeps [OF Cons.prems, of json op]
  have "later (connection i h) (connection i (host_step json h op))" using k by (simp add: goes_on_def)
  moreover have "host_inv (host_step json h op)" by (rule host_step_inv [OF Cons.prems(1)])
  ultimately show ?case using Cons.IH [of "host_step json h op"] k later_trans by auto
qed simp

text \<open>A connection that is latched and whose epoch has passed stays fenced.\<close>

definition fenced :: "studio_conn \<Rightarrow> nat \<Rightarrow> studio_conn \<Rightarrow> bool" where
  "fenced c epoch d =
     (cn_closedLatch d \<and> wire_destroyed d \<and> cn_epoch d < epoch
      \<and> (cn_phase d = Serving_phase \<longrightarrow> cn_phase c = Serving_phase) \<and> (cn_serve d = Running \<longrightarrow> cn_serve c = Running)
      \<and> (None \<in> set (cn_acks d) \<longrightarrow> None \<in> set (cn_acks c)))"

lemma fenced_run:
  "host_inv h \<Longrightarrow> i < length (sh_conns h) \<Longrightarrow> fenced c (ad_epoch (sh_admission h)) (connection i h) \<Longrightarrow>
     fenced c (ad_epoch (sh_admission (foldl (host_step json) h ops))) (connection i (foldl (host_step json) h ops))"
proof (induction ops arbitrary: h)
  case (Cons op ops)
  note k = host_step_keeps [OF Cons.prems(1,2), of json op]
  have "fenced c (ad_epoch (sh_admission (host_step json h op))) (connection i (host_step json h op))"
    using k Cons.prems(3) by (auto simp: fenced_def goes_on_def later_def)
  then show ?case using Cons.IH [of "host_step json h op"] host_step_inv [OF Cons.prems(1)] k by simp
qed simp

lemma serving_holds_slot: "connection_inv c \<Longrightarrow> cn_phase c = Serving_phase \<Longrightarrow> \<not> cn_closedLatch c \<Longrightarrow> cn_slotRelease c"
  by (simp add: connection_inv_def slot_ok_def)

lemma in_flight_bound: "connection_inv c \<Longrightarrow> cn_inFlight c \<le> 8"
  by (simp add: connection_inv_def answers_ok_def STUDIO_MAX_INFLIGHT_PER_CONNECTION_def)

section \<open>Bounds\<close>

text \<open>
  C24: The bounds hold after every sequence of operations. The reservations are exactly the slots the
  connections hold, at most 16, and cover every connection that serves and is not being torn down; at
  most 4 connections are in their handshake; no connection runs more than 8 calls, and until the quit
  is over the global count is exact and at most 32.
\<close>

theorem host_keeps_bounds:
  assumes "h = foldl (host_step json) new_host ops"
  shows "sh_reserved h = int (length (filter cn_slotRelease (sh_conns h))) \<and> sh_reserved h \<le> 16
    \<and> length (filter (\<lambda>c. cn_phase c = Serving_phase \<and> \<not> cn_closedLatch c) (sh_conns h)) \<le> 16
    \<and> length (filter (\<lambda>c. cn_phase c = Handshaking) (sh_conns h)) \<le> 4
    \<and> (\<forall>c\<in>set (sh_conns h). cn_inFlight c \<le> 8)
    \<and> (sh_shutdown h \<noteq> Quit_done \<longrightarrow>
         sh_globalInFlight h = int (sum_list (map cn_inFlight (sh_conns h))) \<and> sh_globalInFlight h \<le> 32)"
proof -
  have inv: "host_inv h" unfolding assms by (rule run_host_inv)
  then have b: "slots_ok h" and c: "conns_ok h" by (simp_all add: host_inv_def host_ok_def)
  have "length (filter (\<lambda>c. cn_phase c = Serving_phase \<and> \<not> cn_closedLatch c) (sh_conns h))
      \<le> length (filter cn_slotRelease (sh_conns h))"
    using c serving_holds_slot by (intro length_filter_weaken) (simp add: conns_ok_def)
  moreover have "\<forall>c\<in>set (sh_conns h). cn_inFlight c \<le> 8" using c in_flight_bound by (simp add: conns_ok_def)
  moreover have "handshakes (sh_conns h) \<le> 4" using inv by (simp add: host_inv_def STUDIO_MAX_HANDSHAKE_PENDING_def)
  ultimately show ?thesis
    using b by (simp add: slots_ok_def slots_def handshakes_def calls_def STUDIO_MAX_CONNECTIONS_def STUDIO_MAX_INFLIGHT_GLOBAL_def)
qed

text \<open>A host that has started, with an unlocked Vex.\<close>

definition boot_ops :: "host_op list" where
  "boot_ops = [Configure, Listener Listening, Readiness Begin_epoch, Readiness (Mark_ready 1), Open_admission]"

definition wire_takes :: write_reply where
  "wire_takes = \<lparr>wr_accepted = True, wr_callback = Some False, wr_gone = False\<rparr>"

lemmas boot_defs = boot_ops_def new_host_def boot_readiness_def boot_admission_def beginStudioReadinessEpoch_def
  markStudioRuntimeReady_def openStudioMcpAdmission_def openStudioAdmission_def

lemma booted:
  "foldl (host_step json) new_host boot_ops =
     \<lparr>sh_admission = \<lparr>ad_locked = False, ad_epoch = 0, ad_permanentlyClosed = False\<rparr>,
      sh_readiness = \<lparr>rd_readiness = Runtime_ready, rd_epoch = 1\<rparr>, sh_listener = Listening, sh_front = None,
      sh_configured = True, sh_conns = [], sh_connections = [], sh_reserved = 0, sh_globalInFlight = 0,
      sh_shutdown = Not_quitting\<rparr>"
  by (simp add: boot_defs)

lemma booted_accept:
  "foldl (host_step json) new_host (boot_ops @ [Accept reply]) =
     (foldl (host_step json) new_host boot_ops)\<lparr>sh_conns := [newStudioConnection 0], sh_connections := [0]\<rparr>"
  by (simp add: booted handleConnection_def not_ready_refusal_def Let_def studioAdmissionEpoch_def pending_handshakes_def
      STUDIO_MAX_HANDSHAKE_PENDING_def connection_def)

theorem host_keeps_bounds_witness:
  "let h = foldl (host_step (\<lambda>_. None)) new_host (boot_ops @ [Accept wire_takes])
   in length (sh_conns h) = 1 \<and> sh_globalInFlight h \<le> 32 \<and> sh_reserved h \<le> 16"
proof -
  define h where "h = foldl (host_step (\<lambda>_. None)) new_host (boot_ops @ [Accept wire_takes])"
  have "length (sh_conns h) = 1" "sh_shutdown h \<noteq> Quit_done"
    unfolding h_def booted_accept booted by simp_all
  then show ?thesis using host_keeps_bounds [OF h_def] unfolding Let_def h_def [symmetric] by simp
qed

section \<open>The fence\<close>

text \<open>
  C4: A lock fences every connection accepted before it. From the tick of the lock on, whatever
  continuations resume and even if Vex is unlocked again at once, such a connection is latched, its
  wire is destroyed and its slot is free; it does not begin to serve, its MCP server is not started,
  and its peer is not told \<open>ok\<close>, unless that had happened before. (At the last epoch of the process
  the door is closed for good instead.)
\<close>

theorem lock_fences_connections:
  assumes "h = foldl (host_step json) new_host before" "i < length (sh_conns h)"
    "studioAdmissionEpoch (sh_admission h) < STUDIO_ADMISSION_EPOCH_MAX" "u = foldl (host_step json) h (Lock cause # afterwards)"
  shows "cn_closedLatch (connection i u) \<and> wire_destroyed (connection i u) \<and> \<not> cn_slotRelease (connection i u)
    \<and> (cn_phase (connection i u) = Serving_phase \<longrightarrow> cn_phase (connection i h) = Serving_phase)
    \<and> (cn_serve (connection i u) = Running \<longrightarrow> cn_serve (connection i h) = Running)
    \<and> (None \<in> set (cn_acks (connection i u)) \<longrightarrow> None \<in> set (cn_acks (connection i h)))"
proof -
  let ?c = "connection i h" and ?l = "lockStudioMcpHost cause h"
  have h: "host_inv h" unfolding assms(1) by (rule run_host_inv)
  then have ok: "host_ok h" by (simp add: host_inv_def)
  have l: "host_inv ?l" by (rule lock_inv [OF h])
  have len: "i < length (sh_conns ?l)" using lock_fields assms(2) by simp
  have g: "later ?c (connection i ?l)" "claims_nothing ?c (connection i ?l)"
    "i \<in> set (sh_connections h) \<longrightarrow> latched (connection i ?l)"
    using lock_quiet [OF h assms(2)] by simp_all
  have dead: "cn_closedLatch (connection i ?l) \<and> wire_destroyed (connection i ?l)"
  proof (cases "i \<in> set (sh_connections h)")
    case True
    then show ?thesis using g(3) by (simp add: latched_def)
  next
    case False
    note o = unregistered_over [OF ok assms(2) False]
    have "cn_closedLatch ?c" using conn_invD(3) [OF conn_of [OF ok assms(2)]] o(1) by (simp add: over_ok_def)
    then show ?thesis using g(1) o(2) by (simp add: later_def)
  qed
  have "cn_epoch ?c \<le> ad_epoch (sh_admission h)"
    using ok assms(2) by (simp add: host_ok_def conns_ok_def connection_def)
  then have "cn_epoch (connection i ?l) < ad_epoch (sh_admission ?l)"
    using g(1) assms(3) lock_fields by (simp add: later_def closeStudioAdmission_def studioAdmissionEpoch_def Let_def)
  then have "fenced ?c (ad_epoch (sh_admission ?l)) (connection i ?l)"
    using dead g(2) by (simp add: fenced_def claims_nothing_def)
  from fenced_run [OF l len this, of json afterwards] have f: "fenced ?c (ad_epoch (sh_admission u)) (connection i u)"
    by (simp add: assms(4))
  have "host_inv u" unfolding assms(4) by (rule studio_host.run_inv [OF h])
  then have "host_ok u" by (simp add: host_inv_def)
  moreover have "i < length (sh_conns u)" using host_run_keeps [OF l len, of json afterwards] by (simp add: assms(4))
  ultimately have "\<not> cn_slotRelease (connection i u)"
    using conn_invD(4) [OF conn_of [of u i]] f by (simp add: slot_ok_def fenced_def)
  then show ?thesis using f by (simp add: fenced_def)
qed

theorem lock_fences_connections_witness:
  "wire_destroyed (connection 0 (foldl (host_step (\<lambda>_. None))
     (foldl (host_step (\<lambda>_. None)) new_host (boot_ops @ [Accept wire_takes]))
     (Lock Lock_cause # [Open_admission, On 0 (Wire_data [1] wire_takes)])))"
proof -
  define h where "h = foldl (host_step (\<lambda>_. None)) new_host (boot_ops @ [Accept wire_takes])"
  have "0 < length (sh_conns h)" "studioAdmissionEpoch (sh_admission h) < STUDIO_ADMISSION_EPOCH_MAX"
    unfolding h_def booted_accept booted by (simp_all add: studioAdmissionEpoch_def STUDIO_ADMISSION_EPOCH_MAX_def)
  from lock_fences_connections [OF h_def this refl] show ?thesis unfolding h_def [symmetric] by blast
qed

section \<open>One answer\<close>

text \<open>
  C5: A peer gets one answer and it is final. A connection is acknowledged at most once, with \<open>ok\<close> or
  with one refusal, and keeps that answer whatever happens; it serves, and its MCP server runs, only
  when the answer was \<open>ok\<close>; before the answer no frame has been handed to its queue; and it is
  reported closed to the host at most once.
\<close>

theorem one_answer_per_peer:
  assumes "h = foldl (host_step json) new_host before" "i < length (sh_conns h)" "u = foldl (host_step json) h afterwards"
  shows "length (cn_acks (connection i u)) \<le> 1
    \<and> (cn_acks (connection i h) \<noteq> [] \<longrightarrow> cn_acks (connection i u) = cn_acks (connection i h))
    \<and> (cn_phase (connection i u) = Serving_phase \<or> cn_serve (connection i u) \<noteq> Not_served \<longrightarrow> cn_acks (connection i u) = [None])
    \<and> (cn_acks (connection i u) = [] \<longrightarrow> q_next (cn_outbound (connection i u)) = 0)
    \<and> cn_closedCalls (connection i u) \<le> 1"
proof -
  have h: "host_inv h" unfolding assms(1) by (rule run_host_inv)
  have u: "host_ok u" using studio_host.run_inv [OF h] by (simp add: assms(3) host_inv_def)
  note k = host_run_keeps [OF h assms(2), of json afterwards]
  have i: "i < length (sh_conns u)" using k by (simp add: assms(3))
  have c: "connection_inv (connection i u)" by (rule conn_of [OF u i])
  have a: "answers_ok (connection i u)" by (rule conn_invD(2) [OF c])
  obtain xs where xs: "cn_acks (connection i u) = cn_acks (connection i h) @ xs"
    using k by (auto simp: later_def assms(3))
  have one: "length (cn_acks (connection i u)) \<le> 1" using a by (simp add: answers_ok_def)
  have "cn_acks (connection i h) \<noteq> [] \<Longrightarrow> xs = []"
    using one xs by (cases "cn_acks (connection i h)"; cases xs) simp_all
  moreover have "cn_closedCalls (connection i u) \<le> 1" using closed_calls [OF c] by simp
  moreover have "cn_phase (connection i u) = Serving_phase \<or> cn_serve (connection i u) \<noteq> Not_served \<longrightarrow> cn_acks (connection i u) = [None]"
    "cn_acks (connection i u) = [] \<longrightarrow> q_next (cn_outbound (connection i u)) = 0"
    using a by (auto simp: answers_ok_def)
  ultimately show ?thesis using one xs by simp
qed

theorem one_answer_per_peer_witness:
  "length (cn_acks (connection 0 (foldl (host_step (\<lambda>_. None))
     (foldl (host_step (\<lambda>_. None)) new_host (boot_ops @ [Accept wire_takes]))
     [On 0 (Wire_data [10] wire_takes), On 0 (Handshake_deadline wire_takes)]))) \<le> 1"
proof -
  define h where "h = foldl (host_step (\<lambda>_. None)) new_host (boot_ops @ [Accept wire_takes])"
  have "0 < length (sh_conns h)" unfolding h_def booted_accept booted by simp
  from one_answer_per_peer [OF h_def this refl] show ?thesis unfolding h_def by blast
qed

section \<open>A full host\<close>

lemma room_refused:
  assumes "cn_phase c = Handshaking" "parseStudioHandshake json (cn_buffered c @ chunk) = Handshake_accepted p r" "\<not> env_room env"
  shows "handleHandshakeData json env chunk reply c =
    refuse (atCapacityRefusal STUDIO_MAX_CONNECTIONS ''MCP connections'') reply (c\<lparr>cn_listening := False, cn_buffered := []\<rparr>)"
  using assms by (simp add: handleHandshakeData_def Let_def)

lemma refuse_acks:
  assumes "cn_phase c = Handshaking"
  shows "cn_acks (refuse r reply c) = cn_acks c @ [Some r]" "\<not> cn_slotRelease (refuse r reply c)"
proof -
  let ?d = "(releaseConnectionSlot ((noteCloseCause Refused (c\<lparr>cn_phase := Refusing\<rparr>))
      \<lparr>cn_handshakeTimer := False, cn_listening := False, cn_buffered := []\<rparr>))"
  let ?e = "?d\<lparr>cn_acks := cn_acks ?d @ [Some r], cn_refusal := Some (q_next (cn_outbound ?d))\<rparr>"
  have r: "refuse r reply c = conn_enqueue (encodeStudioHandshakeAck (Some r)) None reply ?e"
    using assms by (simp add: refuse_def Let_def)
  have "cn_acks (conn_enqueue l k reply e) = cn_acks e" for l k e
  proof (cases "cn_disposed e")
    case True
    then show ?thesis by (simp add: conn_enqueue_def Let_def dispose_again)
  next
    case False
    then show ?thesis by (simp add: conn_enqueue_def Let_def dispose_fields)
  qed
  then show "cn_acks (refuse r reply c) = cn_acks c @ [Some r]" by (simp add: r releaseConnectionSlot_eq)
  have "claims_nothing ?e (refuse r reply c)" unfolding r by (rule conn_enqueue_claims)
  then show "\<not> cn_slotRelease (refuse r reply c)" by (simp add: claims_nothing_def releaseConnectionSlot_eq)
qed

text \<open>
  C36: A full host refuses and evicts nobody. When the handshake line of a peer is complete while all 16
  slots are taken, that peer is sent the typed \<open>at_capacity\<close> refusal and holds no slot, every other
  connection is exactly as it was, and the 16 slots stay taken.
\<close>

theorem full_host_evicts_nobody:
  assumes "h = foldl (host_step json) new_host ops" "i < length (sh_conns h)" "cn_listening (connection i h)"
    "parseStudioHandshake json (cn_buffered (connection i h) @ chunk) = Handshake_accepted projectId remainder"
    "sh_reserved h = 16" "u = host_step json h (On i (Wire_data chunk reply))"
  shows "cn_acks (connection i u) = [Some (atCapacityRefusal 16 ''MCP connections'')] \<and> \<not> cn_slotRelease (connection i u)
    \<and> (\<forall>j<length (sh_conns h). j \<noteq> i \<longrightarrow> connection j u = connection j h) \<and> sh_reserved u = 16"
proof -
  let ?c = "connection i h"
  have h: "host_inv h" unfolding assms(1) by (rule run_host_inv)
  then have c: "connection_inv ?c" using assms(2) conn_of by (simp add: host_inv_def)
  have s: "cn_phase ?c = Handshaking" "cn_acks ?c = []" "\<not> cn_slotRelease ?c"
    using conn_invD(2,4) [OF c] assms(3) by (simp_all add: answers_ok_def slot_ok_def)
  have "\<not> env_room (host_env i h)" using assms(5) by (simp add: host_env_def Let_def STUDIO_MAX_CONNECTIONS_def)
  then have d: "conn_step json (host_env i h) ?c (Wire_data chunk reply) =
      refuse (atCapacityRefusal 16 ''MCP connections'') reply (?c\<lparr>cn_listening := False, cn_buffered := []\<rparr>)"
    using room_refused [OF s(1) assms(4)] assms(3) by (simp add: STUDIO_MAX_CONNECTIONS_def)
  let ?d = "refuse (atCapacityRefusal 16 ''MCP connections'') reply (?c\<lparr>cn_listening := False, cn_buffered := []\<rparr>)"
  have u: "u = put_connection i ?d h" using assms(2,6) d by simp
  have a: "cn_acks ?d = [Some (atCapacityRefusal 16 ''MCP connections'')]" "\<not> cn_slotRelease ?d"
    using refuse_acks [of "?c\<lparr>cn_listening := False, cn_buffered := []\<rparr>"] s by simp_all
  have "host_inv u" using host_step_inv [OF h] by (simp only: assms(6))
  then have "sh_reserved u = int (slots (sh_conns u))" by (simp add: host_inv_def host_ok_def slots_ok_def)
  also have "\<dots> = int (slots (sh_conns h))"
    using slots_update [OF assms(2), of ?d] a(2) s(3) by (simp add: u connection_def)
  also have "\<dots> = 16" using h assms(5) by (simp add: host_inv_def host_ok_def slots_ok_def)
  finally show ?thesis using a by (simp add: u put_connection_nth [OF assms(2)])
qed

text \<open>A peer that plays along is served: line, check, ack, MCP.\<close>

definition peer_ops :: "bytes \<Rightarrow> conn_op list" where
  "peer_ops line = [Wire_data line wire_takes, Check_resumes (Exists True) wire_takes, Writer_resumes wire_takes, Ack_resumes]"

definition open_env :: studio_env where
  "open_env = \<lparr>env_stale = False, env_room = True, env_call_room = True, env_not_ready = None, env_epoch_current = True\<rparr>"

definition peer_conn :: "(bytes \<Rightarrow> json_document option) \<Rightarrow> bytes \<Rightarrow> nat \<Rightarrow> nat \<Rightarrow> studio_conn" where
  "peer_conn json line e n = foldl (conn_step json open_env) (newStudioConnection e) (take n (peer_ops line))"

lemmas peer_defs = peer_conn_def peer_ops_def open_env_def newStudioConnection_def newOutboundQueue_def handleHandshakeData_def Let_def
  establish_def isOver_def check_resumes_def check_refusal_def conn_enqueue_def enqueue_def STUDIO_MAX_PENDING_OUTBOUND_def
  queue_pump_def pump_loop.simps writeLine_def wire_takes_def resume_writer_def settle_def ack_resumes_def

lemma peer_is_served:
  assumes "parseStudioHandshake json line = Handshake_accepted p r"
  shows "cn_phase (peer_conn json line e 4) = Serving_phase" "cn_slotRelease (peer_conn json line e 4)"
    "cn_acks (peer_conn json line e 4) = [None]" "q_settled (cn_outbound (peer_conn json line e 4)) = [(0, Accepted)]"
    "cn_closedCalls (peer_conn json line e 4) = 0"
  using assms by (simp_all add: peer_defs)

text \<open>What a step looks at in the host's answers.\<close>

lemma peer_steps:
  assumes "parseStudioHandshake json line = Handshake_accepted p r" "\<not> env_stale env"
  shows "env_room env \<Longrightarrow> env_not_ready env = None \<Longrightarrow>
      conn_step json env (newStudioConnection e) (peer_ops line ! 0) = peer_conn json line e 1"
    "conn_step json env (peer_conn json line e 1) (peer_ops line ! 1) = peer_conn json line e 2"
    "conn_step json env (peer_conn json line e 2) (peer_ops line ! 2) = peer_conn json line e 3"
    "conn_step json env (peer_conn json line e 3) (peer_ops line ! 3) = peer_conn json line e 4"
  using assms by (simp_all add: peer_defs)

lemma peer_counts:
  assumes "parseStudioHandshake json line = Handshake_accepted p r" "n \<in> {1, 2, 3, 4}"
  shows "cn_reserves (peer_conn json line e n) = 1" "cn_releases (peer_conn json line e n) = 0"
    "cn_inFlight (peer_conn json line e n) = 0" "cn_closedCalls (peer_conn json line e n) = 0" "cn_epoch (peer_conn json line e n) = e"
  using assms by (auto simp: peer_defs)

text \<open>The host with \<open>n\<close> peers served.\<close>

definition serving_host :: "(bytes \<Rightarrow> json_document option) \<Rightarrow> bytes \<Rightarrow> nat \<Rightarrow> studio_conn list \<Rightarrow> int \<Rightarrow> studio_host" where
  "serving_host json line n cs r = (foldl (host_step json) new_host boot_ops)
     \<lparr>sh_conns := replicate n (peer_conn json line 0 4) @ cs, sh_connections := [0..<n + length cs], sh_reserved := r\<rparr>"

definition round_ops :: "bytes \<Rightarrow> nat \<Rightarrow> host_op list" where
  "round_ops line n = Accept wire_takes # map (On n) (peer_ops line)"

lemma serving_host_put:
  "cn_closedCalls d = cn_closedCalls c \<Longrightarrow> cn_inFlight d = cn_inFlight c \<Longrightarrow>
   put_connection n d (serving_host json line n [c] r) =
     serving_host json line n [d] (r + (int (cn_reserves d) - int (cn_reserves c)) - (int (cn_releases d) - int (cn_releases c)))"
  using list_update_length [of "replicate n (peer_conn json line 0 4)" c "[]" d]
  by (simp add: serving_host_def put_connection_def connection_def nth_append booted)

lemma serving_host_env:
  "host_env n (serving_host json line n [c] r) =
     \<lparr>env_stale = cn_epoch c \<noteq> 0, env_room = r < 16, env_call_room = True, env_not_ready = None, env_epoch_current = cn_epoch c = 0\<rparr>"
  by (simp add: host_env_def Let_def serving_host_def booted connection_def nth_append studioAdmissionEpoch_def host_admission_def
      studioAdmission_def readiness_code_def not_ready_refusal_def STUDIO_MAX_CONNECTIONS_def STUDIO_MAX_INFLIGHT_GLOBAL_def)

lemma serving_host_accept:
  assumes "parseStudioHandshake json line = Handshake_accepted p r"
  shows "host_step json (serving_host json line n [] (int n)) (Accept wire_takes) = serving_host json line n [newStudioConnection 0] (int n)"
proof -
  let ?h = "serving_host json line n [newStudioConnection 0] (int n)"
  have "filter (\<lambda>i. cn_phase (connection i ?h) = Handshaking) ([0..<n] @ [n]) = [n]"
    using peer_is_served(1) [OF assms]
    by (auto simp: filter_empty_conv connection_def serving_host_def nth_append newStudioConnection_def)
  then have "pending_handshakes ?h = 1" by (simp add: pending_handshakes_def serving_host_def)
  moreover have "(serving_host json line n [] (int n))
      \<lparr>sh_conns := replicate n (peer_conn json line 0 4) @ [newStudioConnection 0], sh_connections := [0..<n] @ [n]\<rparr> = ?h"
    by (simp add: serving_host_def)
  ultimately show ?thesis
    by (simp add: handleConnection_def Let_def STUDIO_MAX_HANDSHAKE_PENDING_def not_ready_refusal_def serving_host_def booted
        studioAdmissionEpoch_def)
qed

lemma serving_round:
  assumes "parseStudioHandshake json line = Handshake_accepted p r" "n < 16"
  shows "foldl (host_step json) (serving_host json line n [] (int n)) (round_ops line n) = serving_host json line (Suc n) [] (int (Suc n))"
proof -
  have step: "host_step json (serving_host json line n [c] q) (On n op)
      = put_connection n (conn_step json (host_env n (serving_host json line n [c] q)) c op) (serving_host json line n [c] q)" for c q op
    by (simp add: serving_host_def connection_def nth_append)
  have ops: "peer_ops line = [peer_ops line ! 0, peer_ops line ! 1, peer_ops line ! 2, peer_ops line ! 3]"
    by (simp add: peer_ops_def)
  have new: "cn_reserves (newStudioConnection 0) = 0" "cn_releases (newStudioConnection 0) = 0" "cn_inFlight (newStudioConnection 0) = 0"
    "cn_closedCalls (newStudioConnection 0) = 0" "cn_epoch (newStudioConnection 0) = 0" by (simp_all add: newStudioConnection_def)
  have 1: "host_step json (serving_host json line n [newStudioConnection 0] (int n)) (On n (peer_ops line ! 0))
      = serving_host json line n [peer_conn json line 0 1] (int n + 1)"
    using peer_steps(1) [OF assms(1), of "host_env n (serving_host json line n [newStudioConnection 0] (int n))" 0] assms(2)
    by (simp add: step serving_host_env new serving_host_put peer_counts [OF assms(1)] del: host_step.simps One_nat_def)
  have k: "host_step json (serving_host json line n [peer_conn json line 0 k] q) (On n (peer_ops line ! k))
      = serving_host json line n [peer_conn json line 0 m] q"
    if "(k, m) \<in> {(1, 2), (2, 3), (3, 4)}" for k m q
    using that peer_steps(2-4) [OF assms(1), of "host_env n (serving_host json line n [peer_conn json line 0 k] q)" 0]
    by (elim insertE emptyE; clarify)
      (simp_all add: step serving_host_env serving_host_put peer_counts [OF assms(1)] del: host_step.simps One_nat_def)
  have "foldl (host_step json) (serving_host json line n [] (int n)) (round_ops line n)
      = serving_host json line n [peer_conn json line 0 4] (int n + 1)"
    unfolding round_ops_def using serving_host_accept [OF assms(1), of n] 1 k [of 1 2] k [of 2 3] k [of 3 4]
    by (subst ops) (simp del: host_step.simps One_nat_def)
  then show ?thesis by (simp add: serving_host_def replicate_append_same [symmetric] ac_simps)
qed

lemma serving_rounds:
  assumes "parseStudioHandshake json line = Handshake_accepted p r"
  shows "n \<le> 16 \<Longrightarrow> foldl (host_step json) new_host (boot_ops @ concat (map (round_ops line) [0..<n]))
    = serving_host json line n [] (int n)"
proof (induction n)
  case 0
  show ?case by (simp add: serving_host_def booted)
next
  case (Suc n)
  then have "foldl (host_step json) new_host (boot_ops @ concat (map (round_ops line) [0..<n])) = serving_host json line n [] (int n)"
    by simp
  then show ?case using serving_round [OF assms, of n] Suc.prems by (simp del: host_step.simps)
qed

text \<open>A peer with an empty line, and a parser that finds the right document in it.\<close>

definition sample_json :: "bytes \<Rightarrow> json_document option" where
  "sample_json _ = Some (Json_object (\<lambda>key.
     if key = ''v'' then Some (Json_number (JsInt 1) ''1'')
     else if key = ''projectId'' then Some (Json_text ''00000000-0000-0000-0000-000000000000'') else None))"

lemma sample_accepted:
  "parseStudioHandshake sample_json [10] = Handshake_accepted ''00000000-0000-0000-0000-000000000000'' []"
  by (simp add: parseStudioHandshake_def parse_line_def sample_json_def STUDIO_BRIDGE_PROTOCOL_VERSION_def UUID_RE_def
      is_hex_def is_digit_def code_unit_def)

theorem full_host_evicts_nobody_witness:
  "let h = foldl (host_step sample_json) new_host ((boot_ops @ concat (map (round_ops [10]) [0..<16])) @ [Accept wire_takes]);
       u = host_step sample_json h (On 16 (Wire_data [10] wire_takes))
   in cn_acks (connection 16 u) = [Some (atCapacityRefusal 16 ''MCP connections'')] \<and> sh_reserved u = 16
      \<and> connection 3 u = connection 3 h"
proof -
  define h where "h = foldl (host_step sample_json) new_host ((boot_ops @ concat (map (round_ops [10]) [0..<16])) @ [Accept wire_takes])"
  have "foldl (host_step sample_json) new_host (boot_ops @ concat (map (round_ops [10]) [0..<16])) = serving_host sample_json [10] 16 [] (int 16)"
    by (rule serving_rounds [OF sample_accepted]) simp
  then have h: "h = serving_host sample_json [10] 16 [newStudioConnection 0] (int 16)"
    unfolding h_def foldl_append foldl.simps using serving_host_accept [OF sample_accepted, of 16] by (simp only:)
  have c: "connection 16 h = newStudioConnection 0" "length (sh_conns h) = 17" "sh_reserved h = 16"
    by (simp_all add: h serving_host_def connection_def nth_append)
  then have "cn_listening (connection 16 h)" "cn_buffered (connection 16 h) @ [10] = [10]" by (simp_all add: newStudioConnection_def)
  then show ?thesis
    using full_host_evicts_nobody [OF h_def, of 16 "[10]" _ _ _ wire_takes] c sample_accepted
    unfolding Let_def h_def [symmetric] by simp
qed

section \<open>Teardown\<close>

lemma closed_queue_empty: "queue_inv q \<Longrightarrow> q_closed q \<Longrightarrow> q_queue q = []"
  by (simp add: queue_inv_def)

text \<open>A closed queue whose wire is gone owes one answer at most, and the writer's next turn settles it.\<close>

lemma gone_writer_settles:
  assumes "queue_inv q" "q_closed q" "\<forall>e armed. q_writer q \<noteq> Waiting e armed"
  shows "mset (map fst (q_settled (resume_writer reply q))) = mset [0..<q_next q]"
proof -
  have e: "q_queue q = []" by (rule closed_queue_empty [OF assms(1,2)])
  have m: "mset (promises q) = mset [0..<q_next q]" using assms(1) by (simp add: queue_inv_def)
  show ?thesis
  proof (cases "q_writer q")
    case (Resuming en out)
    then show ?thesis using m e by (simp add: resume_writer_def settle_def pump_loop.simps promises_def in_flight_def)
  qed (use m e assms(3) in \<open>simp_all add: resume_writer_def promises_def in_flight_def\<close>)
qed

lemma queue_close_writer [simp]: "q_writer (queue_close q) = q_writer q"
  by (simp add: queue_close_def settle_queue)

lemma on_edge_gone_writer: "q_writer (on_edge Edge_gone q) \<noteq> Waiting e armed"
  by (simp add: on_edge_def split: writer_state.split)

lemma wire_closed_state:
  assumes "connection_inv c" "d = conn_step json env c Wire_closes"
  shows "cn_disposed d" "q_closed (cn_outbound d)" "\<forall>e armed. q_writer (cn_outbound d) \<noteq> Waiting e armed"
proof -
  let ?c = "c\<lparr>cn_outbound := on_edge Edge_gone ((cn_outbound c)\<lparr>q_destroyed := True\<rparr>)\<rparr>"
  have d: "d = connection_dispose (cn_cause c) ?c" by (simp add: assms(2) on_wire_closed_def Let_def)
  show "cn_disposed d" unfolding d by (rule dispose_disposes)
  have inv: "connection_inv d" unfolding assms(2) by (rule conn_step_inv [OF assms(1)])
  show "q_closed (cn_outbound d)" using conn_invD(3) [OF inv] \<open>cn_disposed d\<close> by (simp add: over_ok_def)
  show "\<forall>e armed. q_writer (cn_outbound d) \<noteq> Waiting e armed"
  proof (cases "cn_disposed c")
    case True
    then show ?thesis by (simp add: d dispose_again on_edge_gone_writer)
  next
    case False
    then show ?thesis by (simp add: d dispose_fields closed_wire_queue_def on_edge_gone_writer)
  qed
qed

text \<open>The rest of the teardown: the writer's turn, the end of the import, the close of the entry.\<close>

lemma teardown_ends:
  assumes "connection_inv c" "cn_disposed c" "q_closed (cn_outbound c)" "\<forall>e armed. q_writer (cn_outbound c) \<noteq> Waiting e armed"
    "d = foldl (\<lambda>c (env, op). conn_step json env c op) c [(e1, Writer_resumes reply), (e2, Serve_ready loaded), (e3, Serve_closed)]"
  shows "cn_closedCalls d = 1 \<and> mset (map fst (q_settled (cn_outbound d))) = mset [0..<q_next (cn_outbound d)]"
proof -
  let ?a = "c\<lparr>cn_outbound := resume_writer reply (cn_outbound c)\<rparr>"
  let ?b = "serve_ready e2 loaded ?a"
  have d: "d = served_closed ?b" by (simp add: assms(5))
  have dis: "cn_disposed ?a" using assms(2) by simp
  have b: "cn_serve ?b \<noteq> Importing" "cn_disposed ?b" "q_settled (cn_outbound ?b) = q_settled (cn_outbound ?a)"
    "q_next (cn_outbound ?b) = q_next (cn_outbound ?a)"
    using assms(2) by (simp_all add: serve_ready_def dispose_again destroy_wire_def)
  have inv: "connection_inv d" unfolding d
    by (intro served_closed_inv serve_ready_inv outbound_change_inv assms(1)) (simp_all add: conn_invD(1) [OF assms(1)] resume_writer_inv)
  have "cn_disposed d" "\<not> cn_closing d" using b by (simp_all add: d served_closed_def dispose_end_def destroy_wire_def)
  then have "cn_closedCalls d = 1" using closed_calls [OF inv] by simp
  moreover have "q_settled (cn_outbound d) = q_settled (cn_outbound ?a)" "q_next (cn_outbound d) = q_next (cn_outbound c)"
    using b by (simp_all add: d served_closed_def dispose_end_def destroy_wire_def)
  ultimately show ?thesis using gone_writer_settles [OF conn_invD(1) [OF assms(1)] assms(3,4)] by simp
qed



section \<open>The handshake line in pieces\<close>

lemma not_listening_ignores:
  "\<not> cn_listening c \<Longrightarrow> foldl (conn_step json env) c (map (\<lambda>chunk. Wire_data chunk reply) chunks) = c"
  by (induction chunks) simp_all

lemma line_prefix:
  assumes "xs @ ys = line @ x # rest" "x \<notin> set line"
  shows "if x \<in> set xs then \<exists>r. xs = line @ x # r \<and> rest = r @ ys else length xs \<le> length line"
proof -
  from assms(1) obtain us where us: "xs = line @ us \<and> us @ ys = x # rest \<or> xs @ us = line \<and> ys = us @ x # rest"
    by (auto simp: append_eq_append_conv2)
  then show ?thesis
  proof (elim disjE conjE)
    assume "xs = line @ us" "us @ ys = x # rest"
    then show ?thesis using assms(2) by (cases us) auto
  next
    assume "xs @ us = line"
    then have "set xs \<subseteq> set line" "length xs \<le> length line" by auto
    then show ?thesis using assms(2) by auto
  qed
qed

lemma chunked_line:
  assumes "10 \<notin> set line" "length line \<le> STUDIO_HANDSHAKE_MAX_BYTES" "parse_line json line = Inr p"
    "\<not> env_stale env" "env_room env"
  shows "cn_buffered c @ concat chunks = line @ 10 # rest \<Longrightarrow> 10 \<notin> set (cn_buffered c) \<Longrightarrow> cn_phase c = Handshaking \<Longrightarrow>
    cn_listening c \<Longrightarrow> \<not> cn_closedLatch c \<Longrightarrow> \<not> cn_disposed c \<Longrightarrow>
    d = foldl (conn_step json env) c (map (\<lambda>chunk. Wire_data chunk reply) chunks) \<Longrightarrow>
    \<exists>k r. cn_establish d = Awaiting_check p r (env_not_ready env) \<and> cn_slotRelease d \<and> \<not> cn_listening d
      \<and> r @ concat (drop k chunks) = rest"
proof (induction chunks arbitrary: c)
  case Nil
  then have "10 \<in> set (cn_buffered c)" by simp
  with Nil(2) show ?case by simp
next
  case (Cons chunk chunks)
  let ?b = "cn_buffered c @ chunk"
  have eq: "?b @ concat chunks = line @ 10 # rest" using Cons.prems(1) by simp
  show ?case
  proof (cases "10 \<in> set ?b")
    case False
    then have "length ?b \<le> STUDIO_HANDSHAKE_MAX_BYTES" using line_prefix [OF eq assms(1)] assms(2) by (simp split: if_splits)
    then have "parseStudioHandshake json ?b = Handshake_pending" using False by (simp only: parse_pending_iff) simp
    then have step: "conn_step json env c (Wire_data chunk reply) = c\<lparr>cn_buffered := ?b\<rparr>"
      using Cons.prems by (simp add: handleHandshakeData_def Let_def)
    have "\<exists>k r. cn_establish d = Awaiting_check p r (env_not_ready env) \<and> cn_slotRelease d \<and> \<not> cn_listening d
        \<and> r @ concat (drop k chunks) = rest"
      by (rule Cons.IH [of "c\<lparr>cn_buffered := ?b\<rparr>"]) (use Cons.prems eq False step in simp_all)
    then obtain k r where "cn_establish d = Awaiting_check p r (env_not_ready env) \<and> cn_slotRelease d \<and> \<not> cn_listening d
        \<and> r @ concat (drop k chunks) = rest" by blast
    then show ?thesis by (intro exI [of _ "Suc k"] exI [of _ r]) simp
  next
    case True
    then obtain r where r: "?b = line @ 10 # r" "rest = r @ concat chunks" using line_prefix [OF eq assms(1)] by auto
    have "parseStudioHandshake json ?b = Handshake_accepted p r"
      using assms(2,3) by (simp add: r(1) parse_line_answer [OF assms(1)])
    then have "conn_step json env c (Wire_data chunk reply) =
        c\<lparr>cn_buffered := [], cn_listening := False, cn_slotRelease := True, cn_reserves := cn_reserves c + 1,
          cn_handshakeTimer := False, cn_establish := Awaiting_check p r (env_not_ready env)\<rparr>"
      using Cons.prems assms(4,5) by (simp add: handleHandshakeData_def establish_def isOver_def Let_def)
    then have "d = c\<lparr>cn_buffered := [], cn_listening := False, cn_slotRelease := True, cn_reserves := cn_reserves c + 1,
          cn_handshakeTimer := False, cn_establish := Awaiting_check p r (env_not_ready env)\<rparr>"
      using Cons.prems(7) by (simp add: not_listening_ignores)
    then show ?thesis using r(2) by (intro exI [of _ 1] exI [of _ r]) simp
  qed
qed

text \<open>
  C28: The handshake line may arrive in any pieces, with MCP behind it. Whatever the chunks are that a
  line of at most 4096 bytes with an acceptable document and the bytes after it come in, the connection
  establishes the project the line names, holding a slot, and no byte is lost: the remainder it keeps for
  the transport and the chunks it has not read are exactly what followed the newline.
\<close>

theorem handshake_survives_chunking:
  assumes "10 \<notin> set line" "length line \<le> 4096" "parse_line json line = Inr projectId" "concat chunks = line @ 10 # rest"
    "\<not> env_stale env" "env_room env"
    "d = foldl (conn_step json env) (newStudioConnection epoch) (map (\<lambda>chunk. Wire_data chunk reply) chunks)"
  shows "\<exists>k r. cn_establish d = Awaiting_check projectId r (env_not_ready env) \<and> cn_slotRelease d \<and> \<not> cn_listening d
    \<and> r @ concat (drop k chunks) = rest"
  using assms(2,4)
  by (intro chunked_line [OF assms(1) _ assms(3,5,6) _ _ _ _ _ _ assms(7)])
    (simp_all add: STUDIO_HANDSHAKE_MAX_BYTES_def newStudioConnection_def)

theorem handshake_survives_chunking_witness:
  "\<exists>k r. cn_establish (foldl (conn_step sample_json open_env) (newStudioConnection 0)
       (map (\<lambda>chunk. Wire_data chunk wire_takes) [[], [10, 7], [8]]))
     = Awaiting_check ''00000000-0000-0000-0000-000000000000'' r None \<and> r @ concat (drop k [[], [10, 7], [8]]) = [7, 8]"
proof -
  have "parse_line sample_json [] = Inr ''00000000-0000-0000-0000-000000000000''"
    by (simp add: parse_line_def sample_json_def STUDIO_BRIDGE_PROTOCOL_VERSION_def UUID_RE_def is_hex_def is_digit_def code_unit_def)
  from handshake_survives_chunking [OF _ _ this _ _ _ refl, of "[[], [10, 7], [8]]" "[7, 8]" open_env 0 wire_takes]
  show ?thesis by (auto simp: open_env_def)
qed

end
