(* ===== verification/SocketTransport.thy ===== *)
theory SocketTransport
  imports JsText PipeFrames OutboundQueue
begin

text \<open>
  The MCP wire of one Studio connection (\<open>vex-agent/mcp/socket-transport.ts\<close>): newline-delimited JSON
  over a duplex wire, with a bounded inbound queue that is the back-pressure, the drain after the
  peer's half-close, and the one announcement of the close. \<open>JSON.parse\<close> of a line is the argument
  \<open>json\<close>. A document is its tree; a number comes with the text \<open>String\<close> gives for it. The writer's
  promise is settled by an operation of its own; timers and \<open>setImmediate\<close> are fields and fire as
  operations; what the consumer does inside \<open>onmessage\<close> is an argument of the delivery. The consumer
  does not call back from \<open>onclose\<close> and \<open>onerror\<close>. The byte count of the first response is left out.
\<close>

section \<open>Documents\<close>

datatype json =
    J_null
  | J_bool bool
  | J_number js_number string
  | J_string string
  | J_array "json list"
  | J_object "(string \<times> json) list"

text \<open>\<open>readRecordField\<close>: \<open>None\<close> is \<open>undefined\<close>. An array has none of the fields the code reads.\<close>

fun readRecordField :: "json \<Rightarrow> string \<Rightarrow> json option" where
  "readRecordField (J_object members) name = map_of members name"
| "readRecordField _ name = None"

definition field_of :: "json option \<Rightarrow> string \<Rightarrow> json option" where
  "field_of v name = (case v of None \<Rightarrow> None | Some d \<Rightarrow> readRecordField d name)"

fun isJsonRpcEnvelope :: "json \<Rightarrow> bool" where
  "isJsonRpcEnvelope (J_object _) = True"
| "isJsonRpcEnvelope _ = False"

section \<open>What may reach a log\<close>

definition STUDIO_KNOWN_MCP_METHODS :: "string list" where
  "STUDIO_KNOWN_MCP_METHODS =
     [''initialize'', ''ping'', ''completion/complete'', ''logging/setLevel'', ''prompts/list'', ''prompts/get'',
      ''resources/list'', ''resources/templates/list'', ''resources/read'', ''resources/subscribe'',
      ''resources/unsubscribe'', ''tools/list'', ''tools/call'', ''notifications/initialized'',
      ''notifications/cancelled'', ''notifications/progress'', ''notifications/roots/list_changed'']"

definition loggableMcpMethod :: "json option \<Rightarrow> string" where
  "loggableMcpMethod v =
     (case v of Some (J_string s) \<Rightarrow> if s \<in> set STUDIO_KNOWN_MCP_METHODS then s else ''other'' | _ \<Rightarrow> ''other'')"

definition STUDIO_WIRE_TAG_MAX_CHARS :: nat where
  "STUDIO_WIRE_TAG_MAX_CHARS = 64"

definition wire_tag_char :: "char \<Rightarrow> bool" where
  "wire_tag_char c =
     (let u = code_unit c in 65 \<le> u \<and> u \<le> 90 \<or> 97 \<le> u \<and> u \<le> 122 \<or> is_digit c \<or> c \<in> set ''._:@/+-'')"

definition safeWireTag :: "json option \<Rightarrow> string option" where
  "safeWireTag v =
     (case v of
        Some (J_string s) \<Rightarrow>
          if s = [] \<or> length s > STUDIO_WIRE_TAG_MAX_CHARS then None
          else if \<not> list_all wire_tag_char s then None else Some s
      | _ \<Rightarrow> None)"

section \<open>JSON-RPC frames\<close>

text \<open>A number keeps its text in the key, and its type.\<close>

definition requestIdKey :: "json option \<Rightarrow> string option" where
  "requestIdKey v =
     (case v of
        Some (J_number n text) \<Rightarrow> Some (''n:'' @ text)
      | Some (J_string s) \<Rightarrow> Some (''s:'' @ s)
      | _ \<Rightarrow> None)"

definition has_method :: "json \<Rightarrow> bool" where
  "has_method m = (case readRecordField m ''method'' of Some (J_string _) \<Rightarrow> True | _ \<Rightarrow> False)"

definition jsonRpcRequestKey :: "json \<Rightarrow> string option" where
  "jsonRpcRequestKey m = (if \<not> has_method m then None else requestIdKey (readRecordField m ''id''))"

definition jsonRpcResponseKey :: "json \<Rightarrow> string option" where
  "jsonRpcResponseKey m = (if has_method m then None else requestIdKey (readRecordField m ''id''))"

datatype outbound_kind = Kind_response | Kind_notification | Kind_server_request | Kind_other

definition classifyOutboundFrame :: "json \<Rightarrow> outbound_kind" where
  "classifyOutboundFrame m =
     (let hasId = readRecordField m ''id'' \<noteq> None in
      if has_method m then (if hasId then Kind_server_request else Kind_notification)
      else if \<not> hasId then Kind_other
      else if (readRecordField m ''result'' \<noteq> None) \<noteq> (readRecordField m ''error'' \<noteq> None)
      then Kind_response else Kind_other)"

text \<open>A number that is not finite has no tag.\<close>

definition jsonRpcIdTag :: "json option \<Rightarrow> string option" where
  "jsonRpcIdTag v =
     (case v of
        Some (J_number n text) \<Rightarrow> (case n of JsNaN \<Rightarrow> None | JsInfinity _ \<Rightarrow> None | _ \<Rightarrow> Some text)
      | _ \<Rightarrow> safeWireTag v)"

definition progressCoalesceKey :: "json \<Rightarrow> string option" where
  "progressCoalesceKey m =
     (if readRecordField m ''method'' \<noteq> Some (J_string ''notifications/progress'') then None
      else (case field_of (readRecordField m ''params'') ''progressToken'' of
              Some (J_number n text) \<Rightarrow> Some (''progress:n:'' @ text)
            | Some (J_string s) \<Rightarrow> Some (''progress:s:'' @ s)
            | _ \<Rightarrow> None))"

datatype lifecycle_event =
    First_request string "string option" "string option"
  | First_response "string option" outbound_kind
  | Peer_end_event
  | Closed_event nat nat nat nat nat

definition nullish_else :: "json option \<Rightarrow> json option \<Rightarrow> json option" where
  "nullish_else a b = (case a of None \<Rightarrow> b | Some J_null \<Rightarrow> b | _ \<Rightarrow> a)"

definition describeFirstRequest :: "json \<Rightarrow> lifecycle_event" where
  "describeFirstRequest m =
     (let called = loggableMcpMethod (readRecordField m ''method'') in
      if called \<noteq> ''initialize'' then First_request called None None
      else
        let params = readRecordField m ''params'';
            meta = field_of params ''_meta'';
            info = nullish_else (field_of params ''clientInfo'') (field_of meta ''io.modelcontextprotocol/clientInfo'');
            name = safeWireTag (field_of info ''name'');
            version = safeWireTag (field_of info ''version'');
            protocolVersion = safeWireTag (nullish_else (field_of params ''protocolVersion'')
                                             (field_of meta ''io.modelcontextprotocol/protocolVersion''))
        in First_request called
             (case name of None \<Rightarrow> None
              | Some n \<Rightarrow> Some (n @ ''/'' @ (case version of None \<Rightarrow> ''unknown'' | Some v \<Rightarrow> v)))
             protocolVersion)"

section \<open>State\<close>

definition STUDIO_MAX_INBOUND_LINE_BYTES :: nat where "STUDIO_MAX_INBOUND_LINE_BYTES = 4 * 1024 * 1024"
definition STUDIO_MAX_QUEUED_INBOUND_MESSAGES :: nat where "STUDIO_MAX_QUEUED_INBOUND_MESSAGES = 16"

datatype invalid_json_reason = Unparseable | Not_an_object

datatype transport_failure =
    Line_too_long nat
  | Invalid_json invalid_json_reason
  | Queue_overflow nat
  | Socket_error

datatype wire_frame = Frame_message json | Frame_error transport_failure

record socket_transport =
  t_maxLineBytes :: nat
  t_maxQueuedMessages :: nat
  t_inbound :: bytes
  t_queue :: "json list"
  t_draining :: bool
  t_started :: bool
  t_closeAnnounced :: bool
  t_closing :: bool
  t_failed :: bool
  t_readingPaused :: bool
  t_shutdownTimer :: bool
  t_peerEnded :: bool
  t_drainTimer :: bool
  t_outstanding :: "string set"
  t_counts :: "outbound_kind \<Rightarrow> nat"
  t_requestCount :: nat
  t_firstRequestReported :: bool
  t_firstResponseReported :: bool
  t_sends :: "(nat \<times> json) list"
  t_next :: nat
  t_framing :: bool
  t_closeWait :: bool
  t_destroyed :: bool
  t_writableEnded :: bool
  t_wireClosed :: bool
  t_received :: bytes
  t_delivered :: "json list"
  t_written :: "wire_frame list"
  t_events :: "lifecycle_event list"
  t_failures :: "transport_failure list"
  t_oncloses :: nat

text \<open>
  The last six fields are histories: the bytes taken in, the calls of \<open>onmessage\<close>, the frames handed to
  the writer, the reports to the owner, and the number of calls of \<open>onclose\<close>. Then the transport as it
  is built, with the bytes read past the handshake line.
\<close>

definition newSocketTransport :: "nat option \<Rightarrow> nat option \<Rightarrow> bytes \<Rightarrow> socket_transport" where
  "newSocketTransport maxLineBytes maxQueuedMessages remainder =
     \<lparr>t_maxLineBytes = (case maxLineBytes of None \<Rightarrow> STUDIO_MAX_INBOUND_LINE_BYTES | Some n \<Rightarrow> n),
      t_maxQueuedMessages = (case maxQueuedMessages of None \<Rightarrow> STUDIO_MAX_QUEUED_INBOUND_MESSAGES | Some n \<Rightarrow> n),
      t_inbound = remainder, t_queue = [], t_draining = False, t_started = False, t_closeAnnounced = False,
      t_closing = False, t_failed = False, t_readingPaused = False, t_shutdownTimer = False,
      t_peerEnded = False, t_drainTimer = False, t_outstanding = {}, t_counts = (\<lambda>_. 0), t_requestCount = 0,
      t_firstRequestReported = False, t_firstResponseReported = False, t_sends = [], t_next = 0,
      t_framing = False, t_closeWait = False, t_destroyed = False, t_writableEnded = False,
      t_wireClosed = False, t_received = remainder, t_delivered = [],
      t_written = [], t_events = [], t_failures = [], t_oncloses = 0\<rparr>"

section \<open>Closing\<close>

definition reportLifecycle :: "lifecycle_event \<Rightarrow> socket_transport \<Rightarrow> socket_transport" where
  "reportLifecycle event t = t\<lparr>t_events := t_events t @ [event]\<rparr>"

definition announceClose :: "socket_transport \<Rightarrow> socket_transport" where
  "announceClose t =
     (if t_closeAnnounced t then t
      else
        let t1 = t\<lparr>t_closeAnnounced := True, t_queue := []\<rparr>;
            t2 = reportLifecycle (Closed_event (t_requestCount t1) (t_counts t1 Kind_response)
                   (t_counts t1 Kind_notification) (t_counts t1 Kind_server_request) (t_counts t1 Kind_other)) t1
        in t2\<lparr>t_oncloses := t_oncloses t2 + 1\<rparr>)"

definition destroyNow_transport :: "socket_transport \<Rightarrow> socket_transport" where
  "destroyNow_transport t =
     announceClose (t\<lparr>t_closing := True, t_shutdownTimer := False, t_drainTimer := False, t_destroyed := True\<rparr>)"

definition finishAfterDrain :: "socket_transport \<Rightarrow> socket_transport" where
  "finishAfterDrain t =
     (let t1 = t\<lparr>t_drainTimer := False\<rparr>
      in if t_closeAnnounced t1 then t1
         else
           let t2 = t1\<lparr>t_closing := True\<rparr>;
               t3 = (if \<not> t_destroyed t2 \<and> \<not> t_writableEnded t2 then t2\<lparr>t_writableEnded := True\<rparr> else t2)
           in announceClose (t3\<lparr>t_destroyed := True\<rparr>))"

definition settleIfDrained :: "socket_transport \<Rightarrow> socket_transport" where
  "settleIfDrained t =
     (if \<not> t_peerEnded t then t
      else if t_draining t \<or> t_queue t \<noteq> [] then t
      else if t_outstanding t \<noteq> {} then t
      else finishAfterDrain t)"

text \<open>The end of \<open>close\<close>, run by the wire's close edge, the deadline, or at once.\<close>

definition close_finish :: "socket_transport \<Rightarrow> socket_transport" where
  "close_finish t =
     announceClose (t\<lparr>t_shutdownTimer := False, t_drainTimer := False, t_destroyed := True, t_closeWait := False\<rparr>)"

definition close_transport :: "socket_transport \<Rightarrow> socket_transport" where
  "close_transport t =
     (if t_closing t then t
      else
        let t1 = t\<lparr>t_closing := True\<rparr>
        in if t_destroyed t1 then close_finish t1
           else t1\<lparr>t_closeWait := True, t_shutdownTimer := True, t_writableEnded := True\<rparr>)"

section \<open>Framing failures\<close>

definition reportFailure :: "transport_failure \<Rightarrow> socket_transport \<Rightarrow> socket_transport" where
  "reportFailure failure t = t\<lparr>t_failures := t_failures t @ [failure]\<rparr>"

text \<open>The error line goes through the one writer; its settlement or the deadline destroys the wire.\<close>

definition failFraming :: "transport_failure \<Rightarrow> socket_transport \<Rightarrow> socket_transport" where
  "failFraming failure t =
     (if t_failed t then t
      else
        let t1 = reportFailure failure (t\<lparr>t_failed := True\<rparr>)
        in if t_destroyed t1 \<or> t_writableEnded t1 then destroyNow_transport t1
           else t1\<lparr>t_written := t_written t1 @ [Frame_error failure], t_framing := True\<rparr>)"

definition framing_settles :: "socket_transport \<Rightarrow> socket_transport" where
  "framing_settles t = (if t_framing t then destroyNow_transport (t\<lparr>t_framing := False\<rparr>) else t)"

section \<open>Inbound\<close>

definition pauseReading :: "socket_transport \<Rightarrow> socket_transport" where
  "pauseReading t = (if t_readingPaused t then t else t\<lparr>t_readingPaused := True\<rparr>)"

definition resumeReading :: "socket_transport \<Rightarrow> socket_transport" where
  "resumeReading t = (if \<not> t_readingPaused t then t else t\<lparr>t_readingPaused := False\<rparr>)"

definition scheduleDrain :: "socket_transport \<Rightarrow> socket_transport" where
  "scheduleDrain t = (if t_draining t then t else t\<lparr>t_draining := True\<rparr>)"

definition queue_frame :: "json \<Rightarrow> socket_transport \<Rightarrow> socket_transport" where
  "queue_frame decoded t =
     (let t1 = t\<lparr>t_queue := t_queue t @ [decoded], t_requestCount := t_requestCount t + 1\<rparr>;
          t2 = (if t_firstRequestReported t1 then t1
                else reportLifecycle (describeFirstRequest decoded) (t1\<lparr>t_firstRequestReported := True\<rparr>));
          t3 = (if length (t_queue t2) \<ge> t_maxQueuedMessages t2 then pauseReading t2 else t2)
      in scheduleDrain t3)"

lemma queue_frame_inbound [simp]: "t_inbound (queue_frame v t) = t_inbound t"
  by (simp add: queue_frame_def Let_def scheduleDrain_def pauseReading_def reportLifecycle_def)

function consumeBuffer :: "(bytes \<Rightarrow> json option) \<Rightarrow> socket_transport \<Rightarrow> socket_transport" where
  "consumeBuffer json t =
     (if t_failed t \<or> t_closing t then t
      else if 10 \<notin> set (t_inbound t) then
        (if length (t_inbound t) > t_maxLineBytes t then failFraming (Line_too_long (length (t_inbound t))) t else t)
      else
        let line = takeWhile (\<lambda>b. b \<noteq> 10) (t_inbound t);
            t1 = t\<lparr>t_inbound := tl (dropWhile (\<lambda>b. b \<noteq> 10) (t_inbound t))\<rparr>
        in if length line > t_maxLineBytes t1 then failFraming (Line_too_long (length line)) t1
           else if line = [] then consumeBuffer json t1
           else (case json line of
                   None \<Rightarrow> failFraming (Invalid_json Unparseable) t1
                 | Some decoded \<Rightarrow>
                     if \<not> isJsonRpcEnvelope decoded then failFraming (Invalid_json Not_an_object) t1
                     else if length (t_queue t1) \<ge> t_maxQueuedMessages t1
                     then failFraming (Queue_overflow (length (t_queue t1))) t1
                     else consumeBuffer json (queue_frame decoded t1)))"
  by pat_completeness auto
termination
proof (relation "measure (\<lambda>(json, t). length (t_inbound t))")
  have shorter: "length (tl (dropWhile (\<lambda>b. b \<noteq> 10) xs)) < length xs" if "10 \<in> set xs" for xs :: bytes
    using that length_dropWhile_le [of "\<lambda>b. b \<noteq> 10" xs] by (cases "dropWhile (\<lambda>b. b \<noteq> 10) xs") auto
  show "((json, t1), json, t) \<in> measure (\<lambda>(json, t). length (t_inbound t))"
    if "\<not> 10 \<notin> set (t_inbound t)" "t1 = t\<lparr>t_inbound := tl (dropWhile (\<lambda>b. b \<noteq> 10) (t_inbound t))\<rparr>"
    for json :: "bytes \<Rightarrow> json option" and t t1 :: socket_transport
    using that shorter by simp
  show "((json, queue_frame decoded t1), json, t) \<in> measure (\<lambda>(json, t). length (t_inbound t))"
    if "\<not> 10 \<notin> set (t_inbound t)" "t1 = t\<lparr>t_inbound := tl (dropWhile (\<lambda>b. b \<noteq> 10) (t_inbound t))\<rparr>"
    for json :: "bytes \<Rightarrow> json option" and t t1 :: socket_transport and decoded
    using that shorter by simp
qed simp

declare consumeBuffer.simps [simp del]

text \<open>Attaching the listeners and admitting the remainder; \<open>t_readingPaused\<close> says whether the wire is resumed.\<close>

definition start_transport :: "(bytes \<Rightarrow> json option) \<Rightarrow> socket_transport \<Rightarrow> socket_transport" where
  "start_transport json t =
     (if t_started t then t
      else
        let t1 = t\<lparr>t_started := True\<rparr>
        in if t_inbound t1 \<noteq> [] then consumeBuffer json t1 else t1)"

definition handleData_transport :: "(bytes \<Rightarrow> json option) \<Rightarrow> bytes \<Rightarrow> socket_transport \<Rightarrow> socket_transport" where
  "handleData_transport json chunk t =
     (if t_failed t \<or> t_closing t then t
      else consumeBuffer json (t\<lparr>t_inbound := t_inbound t @ chunk, t_received := t_received t @ chunk\<rparr>))"

definition handleError_transport :: "socket_transport \<Rightarrow> socket_transport" where
  "handleError_transport t = destroyNow_transport (reportFailure Socket_error t)"

text \<open>The close edge, with the one listener of a \<open>close\<close> that waits for it.\<close>

definition handleSocketClosed :: "socket_transport \<Rightarrow> socket_transport" where
  "handleSocketClosed t =
     (let t1 = t\<lparr>t_wireClosed := True, t_destroyed := True\<rparr>;
          t2 = (if t_started t1 then announceClose (t1\<lparr>t_shutdownTimer := False, t_drainTimer := False\<rparr>) else t1)
      in if t_closeWait t2 then close_finish t2 else t2)"

definition notifyPeerEnd :: "socket_transport \<Rightarrow> socket_transport" where
  "notifyPeerEnd t =
     (if t_peerEnded t then t
      else
        let t1 = reportLifecycle Peer_end_event (t\<lparr>t_peerEnded := True\<rparr>)
        in if t_writableEnded t1 \<or> t_destroyed t1 \<or> t_closing t1 \<or> t_failed t1 then finishAfterDrain t1
           else settleIfDrained (t1\<lparr>t_drainTimer := True\<rparr>))"

section \<open>Outbound\<close>

definition countOutbound :: "outbound_kind \<Rightarrow> socket_transport \<Rightarrow> socket_transport" where
  "countOutbound kind t = t\<lparr>t_counts := (t_counts t)(kind := t_counts t kind + 1)\<rparr>"

definition send_frame :: "json \<Rightarrow> socket_transport \<Rightarrow> socket_transport" where
  "send_frame m t =
     (let t1 = (case jsonRpcResponseKey m of None \<Rightarrow> t | Some answered \<Rightarrow> t\<lparr>t_outstanding := t_outstanding t - {answered}\<rparr>)
      in if t_destroyed t1 \<or> t_writableEnded t1 then settleIfDrained t1
         else t1\<lparr>t_written := t_written t1 @ [Frame_message m], t_sends := t_sends t1 @ [(t_next t1, m)],
                 t_next := t_next t1 + 1\<rparr>)"

text \<open>The promise of a send: \<open>None\<close> is a writer that rejects.\<close>

definition send_accepted :: "json \<Rightarrow> socket_transport \<Rightarrow> socket_transport" where
  "send_accepted m t =
     (let t1 = countOutbound (classifyOutboundFrame m) t
      in if t_firstResponseReported t1 then t1
         else reportLifecycle (First_response (jsonRpcIdTag (readRecordField m ''id'')) (classifyOutboundFrame m))
                (t1\<lparr>t_firstResponseReported := True\<rparr>))"

definition send_settles :: "nat \<Rightarrow> write_outcome option \<Rightarrow> socket_transport \<Rightarrow> socket_transport" where
  "send_settles k outcome t =
     (case map_of (t_sends t) k of
        None \<Rightarrow> t
      | Some m \<Rightarrow>
          let t1 = t\<lparr>t_sends := filter (\<lambda>s. fst s \<noteq> k) (t_sends t)\<rparr>
          in settleIfDrained (if outcome = Some Accepted then send_accepted m t1 else t1))"

section \<open>Delivery\<close>

text \<open>What the consumer does inside \<open>onmessage\<close>, and whether it throws.\<close>

datatype consumer_call = Call_send json | Call_close

fun consumer_does :: "consumer_call \<Rightarrow> socket_transport \<Rightarrow> socket_transport" where
  "consumer_does (Call_send m) t = send_frame m t"
| "consumer_does Call_close t = close_transport t"

definition deliver_next :: "consumer_call list \<Rightarrow> bool \<Rightarrow> socket_transport \<Rightarrow> socket_transport" where
  "deliver_next reaction throws t =
     (if \<not> t_draining t then t
      else
        let t1 = t\<lparr>t_draining := False\<rparr>
        in case t_queue t1 of
             [] \<Rightarrow> t1
           | m # rest \<Rightarrow>
               let t2 = t1\<lparr>t_queue := rest\<rparr>;
                   t3 = (if length (t_queue t2) < t_maxQueuedMessages t2 then resumeReading t2 else t2);
                   key = jsonRpcRequestKey m;
                   t4 = (case key of None \<Rightarrow> t3 | Some k \<Rightarrow> t3\<lparr>t_outstanding := insert k (t_outstanding t3)\<rparr>);
                   t5 = fold consumer_does reaction (t4\<lparr>t_delivered := t_delivered t4 @ [m]\<rparr>);
                   t6 = (case key of Some k \<Rightarrow> if throws then t5\<lparr>t_outstanding := t_outstanding t5 - {k}\<rparr> else t5
                         | None \<Rightarrow> t5)
               in if t_queue t6 \<noteq> [] then scheduleDrain t6 else settleIfDrained t6)"

section \<open>Runs\<close>

datatype transport_op =
    Start
  | Wire_bytes bytes
  | Wire_fails
  | Wire_close_edge
  | Peer_ends_edge
  | Drain_deadline
  | Shutdown_deadline
  | Deliver "consumer_call list" bool
  | Send json
  | Send_settles nat "write_outcome option"
  | Framing_settles
  | Close_call
  | Owner_destroys_wire

text \<open>A wire that is paused, or that has raised its close edge, delivers no bytes and no errors.\<close>

fun transport_step :: "(bytes \<Rightarrow> json option) \<Rightarrow> socket_transport \<Rightarrow> transport_op \<Rightarrow> socket_transport" where
  "transport_step json t Start = start_transport json t"
| "transport_step json t (Wire_bytes chunk) =
     (if t_started t \<and> \<not> t_readingPaused t \<and> \<not> t_wireClosed t then handleData_transport json chunk t else t)"
| "transport_step json t Wire_fails = (if t_started t \<and> \<not> t_wireClosed t then handleError_transport t else t)"
| "transport_step json t Wire_close_edge = handleSocketClosed t"
| "transport_step json t Peer_ends_edge = notifyPeerEnd t"
| "transport_step json t Drain_deadline = (if t_drainTimer t then finishAfterDrain t else t)"
| "transport_step json t Shutdown_deadline = (if t_shutdownTimer t then close_finish t else t)"
| "transport_step json t (Deliver reaction throws) = deliver_next reaction throws t"
| "transport_step json t (Send m) = send_frame m t"
| "transport_step json t (Send_settles k outcome) = send_settles k outcome t"
| "transport_step json t Framing_settles = framing_settles t"
| "transport_step json t Close_call = close_transport t"
| "transport_step json t Owner_destroys_wire = t\<lparr>t_destroyed := True\<rparr>"

end
