(* ===== verification/SocketTransportRuns.thy ===== *)
theory SocketTransportRuns
  imports SocketTransport
begin

text \<open>
  The invariant of the MCP wire and its proof: the documents handed to the consumer are those of the
  peer's lines, the queue and the pause agree, a delivery is scheduled while documents wait, the close
  is announced once, and the reports are safe. \<open>settled_by\<close> is the contract of every operation that
  takes nothing in and delivers nothing.
\<close>

section \<open>Lines\<close>

text \<open>The complete lines of a byte stream, and what follows the last newline.\<close>

fun wire_lines :: "bytes \<Rightarrow> bytes list \<times> bytes" where
  "wire_lines [] = ([], [])"
| "wire_lines (b # bs) =
     (case wire_lines bs of
        (ls, rest) \<Rightarrow>
          if b = 10 then ([] # ls, rest)
          else (case ls of [] \<Rightarrow> ([], b # rest) | l # ls' \<Rightarrow> ((b # l) # ls', rest)))"

definition unlines_wire :: "bytes list \<Rightarrow> bytes" where
  "unlines_wire ls = concat (map (\<lambda>l. l @ [10]) ls)"

lemma wire_lines_no_newline: "10 \<notin> set bs \<Longrightarrow> wire_lines bs = ([], bs)"
  by (induction bs) auto

lemma wire_lines_line: "10 \<notin> set l \<Longrightarrow> wire_lines (l @ 10 # bs) = (l # fst (wire_lines bs), snd (wire_lines bs))"
  by (induction l) (auto split: prod.split)

lemma wire_lines_unlines:
  "\<forall>l\<in>set ls. 10 \<notin> set l \<Longrightarrow> wire_lines (unlines_wire ls @ bs) = (ls @ fst (wire_lines bs), snd (wire_lines bs))"
proof (induction ls)
  case (Cons l ls)
  then have "wire_lines (l @ 10 # (unlines_wire ls @ bs)) = (l # fst (wire_lines (unlines_wire ls @ bs)), snd (wire_lines (unlines_wire ls @ bs)))"
    by (intro wire_lines_line) simp
  with Cons show ?case by (simp add: unlines_wire_def)
qed (simp add: unlines_wire_def)

section \<open>Invariant\<close>

definition open_transport :: "socket_transport \<Rightarrow> bool" where
  "open_transport t = (\<not> t_failed t \<and> \<not> t_closing t \<and> \<not> t_closeAnnounced t)"

text \<open>What the consumer has got, and will get while the transport is open, is the lines so far, in order.\<close>

definition frames_ok :: "(bytes \<Rightarrow> json option) \<Rightarrow> socket_transport \<Rightarrow> bool" where
  "frames_ok json t =
     (\<exists>ls rest more. t_received t = unlines_wire ls @ rest \<and> (\<forall>l\<in>set ls. 10 \<notin> set l)
        \<and> map json (filter (\<lambda>l. l \<noteq> []) ls) = map Some (t_delivered t @ more)
        \<and> (\<not> t_closeAnnounced t \<longrightarrow> more = t_queue t)
        \<and> (open_transport t \<longrightarrow> rest = t_inbound t))"

definition pressure_ok :: "socket_transport \<Rightarrow> bool" where
  "pressure_ok t =
     (0 < t_maxQueuedMessages t \<and> length (t_queue t) \<le> t_maxQueuedMessages t
      \<and> (\<not> t_closeAnnounced t \<longrightarrow> (t_readingPaused t \<longleftrightarrow> length (t_queue t) = t_maxQueuedMessages t)))"

text \<open>
  A delivery is scheduled exactly while documents wait; the one left over by a close finds nothing. The
  shutdown deadline is armed only while closing.
\<close>

definition drain_ok :: "socket_transport \<Rightarrow> bool" where
  "drain_ok t =
     ((t_queue t \<noteq> [] \<longrightarrow> t_draining t) \<and> (t_draining t \<longrightarrow> t_queue t \<noteq> [] \<or> t_closeAnnounced t)
      \<and> (t_shutdownTimer t \<longrightarrow> t_closing t))"

text \<open>Between operations no complete line is left, and the unfinished one is within its bound.\<close>

definition wire_idle_ok :: "socket_transport \<Rightarrow> bool" where
  "wire_idle_ok t =
     (t_started t \<and> open_transport t \<longrightarrow>
        10 \<notin> set (t_inbound t) \<and> length (t_inbound t) \<le> t_maxLineBytes t)"

definition close_ok :: "socket_transport \<Rightarrow> bool" where
  "close_ok t =
     (t_oncloses t = of_bool (t_closeAnnounced t) \<and> (t_closeAnnounced t \<longrightarrow> t_queue t = [])
      \<and> (t_closeAnnounced t \<longrightarrow> t_closing t \<or> t_started t \<and> t_wireClosed t)
      \<and> (t_closeWait t \<longrightarrow> t_closing t) \<and> (t_wireClosed t \<longrightarrow> t_destroyed t))"

fun event_safe :: "lifecycle_event \<Rightarrow> bool" where
  "event_safe (First_request called client version) =
     (called \<in> set (''other'' # STUDIO_KNOWN_MCP_METHODS)
      \<and> (\<forall>s. client = Some s \<longrightarrow> list_all wire_tag_char s \<and> length s \<le> 129)
      \<and> (\<forall>s. version = Some s \<longrightarrow> list_all wire_tag_char s \<and> length s \<le> 64))"
| "event_safe _ = True"

definition transport_inv :: "(bytes \<Rightarrow> json option) \<Rightarrow> socket_transport \<Rightarrow> bool" where
  "transport_inv json t =
     (frames_ok json t \<and> pressure_ok t \<and> close_ok t \<and> list_all event_safe (t_events t))"

lemma frames_weaken:
  assumes "frames_ok json t" "t_received u = t_received t" "t_delivered u = t_delivered t"
    "\<not> t_closeAnnounced u \<Longrightarrow> \<not> t_closeAnnounced t \<and> t_queue u = t_queue t"
    "open_transport u \<Longrightarrow> open_transport t \<and> t_inbound u = t_inbound t"
  shows "frames_ok json u"
proof -
  from assms(1) obtain ls rest more where f: "t_received t = unlines_wire ls @ rest" "\<forall>l\<in>set ls. 10 \<notin> set l"
    "map json (filter (\<lambda>l. l \<noteq> []) ls) = map Some (t_delivered t @ more)" "\<not> t_closeAnnounced t \<longrightarrow> more = t_queue t"
    "open_transport t \<longrightarrow> rest = t_inbound t"
    unfolding frames_ok_def by blast
  show ?thesis unfolding frames_ok_def
  proof (intro exI conjI)
    show "t_received u = unlines_wire ls @ rest" by (simp only: assms(2) f(1))
    show "map json (filter (\<lambda>l. l \<noteq> []) ls) = map Some (t_delivered u @ more)" by (simp only: assms(3) f(3))
    show "\<not> t_closeAnnounced u \<longrightarrow> more = t_queue u" using assms(4) f(4) by simp
    show "open_transport u \<longrightarrow> rest = t_inbound u" using assms(5) f(5) by simp
  qed (rule f(2))
qed

lemma transport_invI:
  "frames_ok json t \<Longrightarrow> pressure_ok t \<Longrightarrow> close_ok t \<Longrightarrow> list_all event_safe (t_events t) \<Longrightarrow> transport_inv json t"
  by (simp add: transport_inv_def)

lemma transport_invD:
  assumes "transport_inv json t"
  shows "frames_ok json t" "pressure_ok t" "close_ok t" "list_all event_safe (t_events t)"
  using assms by (simp_all add: transport_inv_def)

text \<open>Changes the invariant does not look at.\<close>

lemma transport_frame [simp]:
  "transport_inv json (t\<lparr>t_outstanding := o1\<rparr>) = transport_inv json t"
  "transport_inv json (t\<lparr>t_sends := ss\<rparr>) = transport_inv json t"
  "transport_inv json (t\<lparr>t_counts := cs\<rparr>) = transport_inv json t"
  "transport_inv json (t\<lparr>t_peerEnded := b\<rparr>) = transport_inv json t"
  "transport_inv json (t\<lparr>t_drainTimer := b\<rparr>) = transport_inv json t"
  "transport_inv json (t\<lparr>t_shutdownTimer := b\<rparr>) = transport_inv json t"
  "transport_inv json (t\<lparr>t_framing := b\<rparr>) = transport_inv json t"
  "transport_inv json (t\<lparr>t_failures := fs\<rparr>) = transport_inv json t"
  "transport_inv json (t\<lparr>t_firstResponseReported := b\<rparr>) = transport_inv json t"
  "transport_inv json (t\<lparr>t_writableEnded := b\<rparr>) = transport_inv json t"
  "transport_inv json (t\<lparr>t_written := ws\<rparr>) = transport_inv json t"
  "transport_inv json (t\<lparr>t_written := ws, t_sends := ss, t_next := n\<rparr>) = transport_inv json t"
  "transport_inv json (t\<lparr>t_written := ws, t_framing := b\<rparr>) = transport_inv json t"
  by (simp_all add: transport_inv_def frames_ok_def pressure_ok_def close_ok_def open_transport_def)

lemma report_inv: "transport_inv json t \<Longrightarrow> event_safe e \<Longrightarrow> transport_inv json (reportLifecycle e t)"
  by (simp add: reportLifecycle_def transport_inv_def frames_ok_def pressure_ok_def close_ok_def open_transport_def)

text \<open>Entering \<open>closing\<close> or \<open>failed\<close>, and destroying the wire.\<close>

lemma narrow_inv:
  assumes "transport_inv json t" "t_received u = t_received t" "t_delivered u = t_delivered t"
    "\<not> t_closeAnnounced u \<Longrightarrow> \<not> t_closeAnnounced t \<and> t_queue u = t_queue t"
    "open_transport u \<Longrightarrow> open_transport t \<and> t_inbound u = t_inbound t"
    "pressure_ok u" "close_ok u" "list_all event_safe (t_events u)"
  shows "transport_inv json u"
  by (rule transport_invI [OF frames_weaken [OF transport_invD(1) [OF assms(1)] assms(2-5)] assms(6-8)])

lemma closing_inv:
  assumes "transport_inv json t"
  shows "transport_inv json (t\<lparr>t_closing := True\<rparr>)" "transport_inv json (t\<lparr>t_failed := True\<rparr>)"
    "transport_inv json (t\<lparr>t_destroyed := True\<rparr>)" "transport_inv json (t\<lparr>t_wireClosed := True, t_destroyed := True\<rparr>)"
    "transport_inv json (t\<lparr>t_closeWait := False\<rparr>)"
proof -
  have D: "pressure_ok t" "close_ok t" "list_all event_safe (t_events t)" using transport_invD [OF assms] by simp_all
  show "transport_inv json (t\<lparr>t_closing := True\<rparr>)"
    by (rule narrow_inv [OF assms]) (use D in \<open>simp_all add: open_transport_def pressure_ok_def close_ok_def\<close>)
  show "transport_inv json (t\<lparr>t_failed := True\<rparr>)"
    by (rule narrow_inv [OF assms]) (use D in \<open>simp_all add: open_transport_def pressure_ok_def close_ok_def\<close>)
  show "transport_inv json (t\<lparr>t_destroyed := True\<rparr>)"
    by (rule narrow_inv [OF assms]) (use D in \<open>simp_all add: open_transport_def pressure_ok_def close_ok_def\<close>)
  have "close_ok (t\<lparr>t_wireClosed := True, t_destroyed := True\<rparr>)"
    using D(2) unfolding close_ok_def by (simp; blast)
  then show "transport_inv json (t\<lparr>t_wireClosed := True, t_destroyed := True\<rparr>)"
    by (intro narrow_inv [OF assms]) (use D in \<open>simp_all add: open_transport_def pressure_ok_def\<close>)
  show "transport_inv json (t\<lparr>t_closeWait := False\<rparr>)"
    by (rule narrow_inv [OF assms]) (use D in \<open>simp_all add: open_transport_def pressure_ok_def close_ok_def\<close>)
qed

lemma announceClose_inv:
  assumes "transport_inv json t" "t_closing t \<or> t_started t \<and> t_wireClosed t"
  shows "transport_inv json (announceClose t)"
proof (cases "t_closeAnnounced t")
  case False
  show ?thesis
    by (rule narrow_inv [OF assms(1)])
      (use False assms(2) transport_invD(2-4) [OF assms(1)] in
        \<open>simp_all add: announceClose_def Let_def reportLifecycle_def open_transport_def pressure_ok_def close_ok_def\<close>)
qed (use assms in \<open>simp add: announceClose_def\<close>)

text \<open>The ways to end.\<close>

lemma ended_inv:
  assumes "transport_inv json t"
  shows "transport_inv json (t\<lparr>t_closing := True, t_destroyed := True\<rparr>)"
    "t_closing t \<Longrightarrow> transport_inv json (t\<lparr>t_destroyed := True, t_closeWait := False\<rparr>)"
  using closing_inv(3) [OF closing_inv(1) [OF assms]] closing_inv(5) [OF closing_inv(3) [OF assms]] by simp_all

lemma transport_swap:
  "t\<lparr>t_closing := a, t_shutdownTimer := b, t_drainTimer := c, t_destroyed := d\<rparr>
     = t\<lparr>t_closing := a, t_destroyed := d\<rparr>\<lparr>t_shutdownTimer := b\<rparr>\<lparr>t_drainTimer := c\<rparr>"
  "t\<lparr>t_shutdownTimer := b, t_drainTimer := c, t_destroyed := d, t_closeWait := e\<rparr>
     = t\<lparr>t_destroyed := d, t_closeWait := e\<rparr>\<lparr>t_shutdownTimer := b\<rparr>\<lparr>t_drainTimer := c\<rparr>"
  "t\<lparr>t_drainTimer := c, t_closing := a, t_destroyed := d\<rparr> = t\<lparr>t_closing := a, t_destroyed := d\<rparr>\<lparr>t_drainTimer := c\<rparr>"
  "t\<lparr>t_drainTimer := c, t_closing := a, t_writableEnded := w, t_destroyed := d\<rparr>
     = t\<lparr>t_closing := a, t_destroyed := d\<rparr>\<lparr>t_drainTimer := c\<rparr>\<lparr>t_writableEnded := w\<rparr>"
  by simp_all

lemma destroyNow_transport_inv: "transport_inv json t \<Longrightarrow> transport_inv json (destroyNow_transport t)"
  unfolding destroyNow_transport_def transport_swap
  by (rule announceClose_inv) (simp_all only: transport_frame ended_inv, simp)

lemma finishAfterDrain_inv: "transport_inv json t \<Longrightarrow> transport_inv json (finishAfterDrain t)"
proof -
  assume i: "transport_inv json t"
  have "transport_inv json (announceClose (t\<lparr>t_drainTimer := False, t_closing := True, t_destroyed := True\<rparr>))"
    "transport_inv json (announceClose (t\<lparr>t_drainTimer := False, t_closing := True, t_writableEnded := True, t_destroyed := True\<rparr>))"
    unfolding transport_swap by (rule announceClose_inv; (simp only: transport_frame ended_inv i)?; simp)+
  then show ?thesis using i by (simp add: finishAfterDrain_def Let_def)
qed

lemma settleIfDrained_inv: "transport_inv json t \<Longrightarrow> transport_inv json (settleIfDrained t)"
  by (simp add: settleIfDrained_def finishAfterDrain_inv)

lemma close_finish_inv: "transport_inv json t \<Longrightarrow> t_closing t \<Longrightarrow> transport_inv json (close_finish t)"
  unfolding close_finish_def transport_swap
  by (rule announceClose_inv) (simp_all only: transport_frame ended_inv, simp)

lemma close_wait_inv:
  "transport_inv json t \<Longrightarrow> t_closing t \<Longrightarrow> transport_inv json (t\<lparr>t_closeWait := True, t_shutdownTimer := True, t_writableEnded := True\<rparr>)"
  by (rule narrow_inv [of json t])
    (simp_all add: open_transport_def pressure_ok_def close_ok_def transport_inv_def)

lemma close_transport_inv: "transport_inv json t \<Longrightarrow> transport_inv json (close_transport t)"
proof -
  assume i: "transport_inv json t"
  note c = closing_inv(1) [OF i]
  show ?thesis
    using i close_finish_inv [OF c] close_wait_inv [OF c] by (simp add: close_transport_def Let_def)
qed

lemma failFraming_inv:
  assumes "transport_inv json (t\<lparr>t_failed := True\<rparr>)" "\<not> t_failed t"
  shows "transport_inv json (failFraming f t)"
proof -
  have r: "transport_inv json (reportFailure f (t\<lparr>t_failed := True\<rparr>))"
    using assms(1) by (simp only: reportFailure_def transport_frame)
  have w: "transport_inv json (reportFailure f (t\<lparr>t_failed := True\<rparr>)\<lparr>t_written := ws, t_framing := True\<rparr>)" for ws
    using r by (simp only: transport_frame)
  show ?thesis using assms(2) destroyNow_transport_inv [OF r] w by (simp add: failFraming_def Let_def)
qed

lemma framing_settles_inv: "transport_inv json t \<Longrightarrow> transport_inv json (framing_settles t)"
  using destroyNow_transport_inv [of json "t\<lparr>t_framing := False\<rparr>"] by (simp add: framing_settles_def)

section \<open>Inbound\<close>

lemma safeWireTag_chars: "safeWireTag v = Some s \<Longrightarrow> list_all wire_tag_char s \<and> length s \<le> 64"
  by (auto simp: safeWireTag_def STUDIO_WIRE_TAG_MAX_CHARS_def split: option.splits json.splits if_splits)

lemma wire_tag_slash: "wire_tag_char CHR ''/''" "list_all wire_tag_char ''unknown''"
  by (simp_all add: wire_tag_char_def Let_def code_unit_def)

lemma loggable_known: "loggableMcpMethod v \<in> set (''other'' # STUDIO_KNOWN_MCP_METHODS)"
  by (simp add: loggableMcpMethod_def split: option.splits json.splits)

lemma client_tag:
  assumes "safeWireTag n = Some a" "t = a @ ''/'' @ (case safeWireTag v of None \<Rightarrow> ''unknown'' | Some b \<Rightarrow> b)"
  shows "list_all wire_tag_char t \<and> length t \<le> 129"
  using safeWireTag_chars [OF assms(1)] safeWireTag_chars [of v] assms(2) wire_tag_slash
  by (auto split: option.splits)

lemma describeFirstRequest_safe: "event_safe (describeFirstRequest m)"
proof -
  have k: "loggableMcpMethod (readRecordField m ''method'') \<in> set (''other'' # STUDIO_KNOWN_MCP_METHODS)" by (rule loggable_known)
  have v: "\<forall>s. safeWireTag x = Some s \<longrightarrow> list_all wire_tag_char s \<and> length s \<le> 64" for x using safeWireTag_chars by blast
  have c: "\<forall>s. (case safeWireTag x of None \<Rightarrow> None
             | Some a \<Rightarrow> Some (a @ ''/'' @ (case safeWireTag y of None \<Rightarrow> ''unknown'' | Some b \<Rightarrow> b))) = Some s
           \<longrightarrow> list_all wire_tag_char s \<and> length s \<le> 129" for x y
    using client_tag [of x _ _ y] by (auto simp del: append.simps split: option.split)
  show ?thesis
    unfolding describeFirstRequest_def Let_def using k v c by (simp only: event_safe.simps if_split) blast
qed

text \<open>Taking one line: it is blank, it is refused, or its document is queued.\<close>

lemma line_split:
  assumes "10 \<in> set bs"
  shows "bs = takeWhile (\<lambda>b. b \<noteq> 10) bs @ 10 # tl (dropWhile (\<lambda>b. b \<noteq> 10) bs)" "10 \<notin> set (takeWhile (\<lambda>b. b \<noteq> 10) bs)"
proof -
  have "dropWhile (\<lambda>b. b \<noteq> 10) bs \<noteq> []" using assms by (auto simp: dropWhile_eq_Nil_conv)
  moreover have "hd (dropWhile (\<lambda>b. b \<noteq> 10) bs) = 10" using hd_dropWhile [OF calculation] by simp
  ultimately have "dropWhile (\<lambda>b. b \<noteq> 10) bs = 10 # tl (dropWhile (\<lambda>b. b \<noteq> 10) bs)" by (metis list.collapse)
  then show "bs = takeWhile (\<lambda>b. b \<noteq> 10) bs @ 10 # tl (dropWhile (\<lambda>b. b \<noteq> 10) bs)" by (metis takeWhile_dropWhile_id)
  show "10 \<notin> set (takeWhile (\<lambda>b. b \<noteq> 10) bs)" using set_takeWhileD by fastforce
qed

lemma unlines_snoc: "unlines_wire (ls @ [l]) = unlines_wire ls @ l @ [10]"
  by (simp add: unlines_wire_def)

lemma refused_line_inv:
  assumes "transport_inv json t" "\<not> t_failed t"
  shows "transport_inv json (failFraming f (t\<lparr>t_inbound := bs\<rparr>))"
proof (rule failFraming_inv)
  show "transport_inv json (t\<lparr>t_inbound := bs, t_failed := True\<rparr>)"
    by (rule narrow_inv [OF assms(1)])
      (use transport_invD(2-4) [OF assms(1)] in \<open>simp_all add: open_transport_def pressure_ok_def close_ok_def\<close>)
qed (simp add: assms(2))

lemma frames_line:
  assumes "frames_ok json t" "open_transport t" "t_inbound t = line @ 10 # bs" "10 \<notin> set line"
    and u: "t_received u = t_received t" "t_delivered u = t_delivered t" "t_inbound u = bs"
    and q: "line = [] \<and> t_queue u = t_queue t \<or> line \<noteq> [] \<and> (\<exists>d. json line = Some d \<and> t_queue u = t_queue t @ [d])"
  shows "frames_ok json u"
proof -
  from assms(1,2) obtain ls where f: "t_received t = unlines_wire ls @ t_inbound t" "\<forall>l\<in>set ls. 10 \<notin> set l"
    "map json (filter (\<lambda>l. l \<noteq> []) ls) = map Some (t_delivered t @ t_queue t)"
    unfolding frames_ok_def open_transport_def by auto
  show ?thesis unfolding frames_ok_def
  proof (intro exI conjI)
    show "t_received u = unlines_wire (ls @ [line]) @ t_inbound u"
      by (simp add: u(1,3) f(1) assms(3) unlines_snoc)
    show "map json (filter (\<lambda>l. l \<noteq> []) (ls @ [line])) = map Some (t_delivered u @ t_queue u)"
      using q f(3) u(2) by auto
    show "\<forall>l\<in>set (ls @ [line]). 10 \<notin> set l" using f(2) assms(4) by simp
  qed simp_all
qed

lemma blank_line_inv:
  assumes "transport_inv json t" "open_transport t" "t_inbound t = 10 # bs"
  shows "transport_inv json (t\<lparr>t_inbound := bs\<rparr>)"
proof (rule transport_invI)
  show "frames_ok json (t\<lparr>t_inbound := bs\<rparr>)"
    by (rule frames_line [of json t "[]" bs]) (simp_all add: assms transport_invD)
qed (use transport_invD(2-4) [OF assms(1)] in \<open>simp_all add: pressure_ok_def close_ok_def\<close>)

lemma queued_line_inv:
  assumes "transport_inv json t" "open_transport t" "t_inbound t = line @ 10 # bs" "10 \<notin> set line" "line \<noteq> []"
    "json line = Some d" "length (t_queue t) < t_maxQueuedMessages t"
  shows "transport_inv json (queue_frame d (t\<lparr>t_inbound := bs\<rparr>))"
proof (rule transport_invI)
  let ?u = "queue_frame d (t\<lparr>t_inbound := bs\<rparr>)"
  have q: "t_queue ?u = t_queue t @ [d]" "t_received ?u = t_received t" "t_delivered ?u = t_delivered t"
    "t_draining ?u" "t_oncloses ?u = t_oncloses t" "t_closeAnnounced ?u = t_closeAnnounced t" "t_closing ?u = t_closing t"
    "t_started ?u = t_started t" "t_wireClosed ?u = t_wireClosed t" "t_closeWait ?u = t_closeWait t"
    "t_destroyed ?u = t_destroyed t" "t_maxQueuedMessages ?u = t_maxQueuedMessages t"
    "t_readingPaused ?u = (t_readingPaused t \<or> length (t_queue t) + 1 \<ge> t_maxQueuedMessages t)"
    "list_all event_safe (t_events ?u) = list_all event_safe (t_events t)"
    by (simp_all add: queue_frame_def Let_def scheduleDrain_def pauseReading_def reportLifecycle_def describeFirstRequest_safe)
  note D = transport_invD [OF assms(1)]
  show "frames_ok json ?u"
    by (rule frames_line [of json t line bs]) (use assms D(1) q in simp_all)
  show "pressure_ok ?u" using D(2) assms(2,7) unfolding pressure_ok_def open_transport_def q by (auto simp: q(4))
  show "close_ok ?u" using D(3) assms(2) unfolding close_ok_def open_transport_def q by simp
  show "list_all event_safe (t_events ?u)" using D(4) q by simp
qed

lemma queue_frame_open [simp]:
  "open_transport (queue_frame d t) = open_transport t" "t_inbound (queue_frame d t) = t_inbound t"
  "t_maxLineBytes (queue_frame d t) = t_maxLineBytes t" "t_started (queue_frame d t) = t_started t"
  by (simp_all add: queue_frame_def Let_def scheduleDrain_def pauseReading_def reportLifecycle_def open_transport_def)

lemma failFraming_shut [simp]: "\<not> open_transport (failFraming f t)"
  by (simp add: failFraming_def Let_def open_transport_def destroyNow_transport_def announceClose_def reportLifecycle_def
      reportFailure_def)

lemma consumeBuffer_inv:
  "transport_inv json t \<Longrightarrow> \<not> t_closeAnnounced t \<Longrightarrow>
     transport_inv json (consumeBuffer json t) \<and> wire_idle_ok (consumeBuffer json t)"
proof (induction json t rule: consumeBuffer.induct)
  case (1 json t)
  let ?line = "takeWhile (\<lambda>b. b \<noteq> 10) (t_inbound t)"
  let ?rest = "tl (dropWhile (\<lambda>b. b \<noteq> 10) (t_inbound t))"
  let ?t1 = "t\<lparr>t_inbound := ?rest\<rparr>"
  consider (shut) "t_failed t \<or> t_closing t" | (partial) "open_transport t" "10 \<notin> set (t_inbound t)"
    | (line) "open_transport t" "10 \<in> set (t_inbound t)"
    using "1.prems"(2) by (auto simp: open_transport_def)
  then show ?case
  proof cases
    case shut
    then show ?thesis using "1.prems" by (auto simp: consumeBuffer.simps [of json t] wire_idle_ok_def open_transport_def)
  next
    case partial
    have "transport_inv json (failFraming f t)" for f
      using refused_line_inv [OF "1.prems"(1), of f "t_inbound t"] partial(1) by (simp add: open_transport_def)
    then show ?thesis using partial "1.prems"
      by (simp add: consumeBuffer.simps [of json t] wire_idle_ok_def open_transport_def) (simp add: open_transport_def [symmetric])
  next
    case line
    note l = line_split [OF line(2)]
    have o: "\<not> t_failed t" "\<not> t_closing t" using line(1) by (simp_all add: open_transport_def)
    have refuse: "transport_inv json (failFraming f ?t1) \<and> wire_idle_ok (failFraming f ?t1)" for f
      using refused_line_inv [OF "1.prems"(1) o(1)] by (simp add: wire_idle_ok_def)
    have eq: "consumeBuffer json t =
        (if length ?line > t_maxLineBytes t then failFraming (Line_too_long (length ?line)) ?t1
         else if ?line = [] then consumeBuffer json ?t1
         else (case json ?line of
                 None \<Rightarrow> failFraming (Invalid_json Unparseable) ?t1
               | Some d \<Rightarrow> if \<not> isJsonRpcEnvelope d then failFraming (Invalid_json Not_an_object) ?t1
                   else if length (t_queue t) \<ge> t_maxQueuedMessages t then failFraming (Queue_overflow (length (t_queue t))) ?t1
                   else consumeBuffer json (queue_frame d ?t1)))"
      using line(2) o by (subst consumeBuffer.simps) (simp add: Let_def cong: if_cong option.case_cong)
    show ?thesis
    proof (cases "length ?line > t_maxLineBytes t")
      case False
      note short = this
      show ?thesis
      proof (cases "?line = []")
        case True
        have "transport_inv json ?t1" by (rule blank_line_inv [OF "1.prems"(1) line(1)]) (use l(1) True in simp)
        then have "transport_inv json (consumeBuffer json ?t1) \<and> wire_idle_ok (consumeBuffer json ?t1)"
          using "1.prems" o line(2) short True by (intro "1.IH"(1) [OF _ _ refl refl]) simp_all
        then show ?thesis using True short by (simp add: eq)
      next
        case full: False
        show ?thesis
        proof (cases "json ?line")
          case None
          then show ?thesis using short full refuse by (simp add: eq)
        next
          case (Some d)
          show ?thesis
          proof (cases "isJsonRpcEnvelope d \<and> length (t_queue t) < t_maxQueuedMessages t")
            case False
            then show ?thesis using short full refuse Some by (auto simp: eq)
          next
            case True
            have "transport_inv json (queue_frame d ?t1)"
              by (rule queued_line_inv [OF "1.prems"(1) line(1) l full Some]) (use True in simp)
            moreover have "\<not> t_closeAnnounced (queue_frame d ?t1)"
              using "1.prems"(2) by (simp add: queue_frame_def Let_def scheduleDrain_def pauseReading_def reportLifecycle_def)
            ultimately have "transport_inv json (consumeBuffer json (queue_frame d ?t1)) \<and> wire_idle_ok (consumeBuffer json (queue_frame d ?t1))"
              using o line(2) short full Some True by (intro "1.IH"(2) [OF _ _ refl refl _ _ Some]) simp_all
            then show ?thesis using True short full Some by (simp add: eq)
          qed
        qed
      qed
    qed (use refuse in \<open>simp add: eq\<close>)
  qed
qed

section \<open>Every operation keeps the invariant\<close>

text \<open>Operations that take nothing in and deliver nothing.\<close>

definition settled_by :: "socket_transport \<Rightarrow> socket_transport \<Rightarrow> bool" where
  "settled_by t u =
     ((open_transport u \<longrightarrow> open_transport t) \<and> t_inbound u = t_inbound t \<and> t_started u = t_started t
      \<and> t_maxLineBytes u = t_maxLineBytes t \<and> t_draining u = t_draining t \<and> t_delivered u = t_delivered t
      \<and> (t_closeAnnounced t \<longrightarrow> t_closeAnnounced u) \<and> (t_closing t \<longrightarrow> t_closing u)
      \<and> (t_shutdownTimer u \<longrightarrow> t_shutdownTimer t \<or> t_closing u) \<and> (t_queue u = t_queue t \<or> t_queue u = [] \<and> t_closeAnnounced u))"

lemma settled_trans: "settled_by t u \<Longrightarrow> settled_by u v \<Longrightarrow> settled_by t v"
  unfolding settled_by_def by (elim conjE, intro conjI; metis)

lemma settled_ok:
  assumes "settled_by t u"
  shows "wire_idle_ok t \<Longrightarrow> wire_idle_ok u" "drain_ok t \<Longrightarrow> drain_ok u"
proof -
  note a = assms [unfolded settled_by_def]
  show "wire_idle_ok t \<Longrightarrow> wire_idle_ok u" using a by (simp add: wire_idle_ok_def)
  assume d: "drain_ok t"
  have r: "t_draining u = t_draining t" "t_closeAnnounced t \<longrightarrow> t_closeAnnounced u" "t_closing t \<longrightarrow> t_closing u"
    "t_shutdownTimer u \<longrightarrow> t_shutdownTimer t \<or> t_closing u" "t_queue u = t_queue t \<or> t_queue u = [] \<and> t_closeAnnounced u"
    using a by blast+
  have "t_queue u \<noteq> [] \<longrightarrow> t_draining u" "t_draining u \<longrightarrow> t_queue u \<noteq> [] \<or> t_closeAnnounced u"
    using d r(1,2,5) unfolding drain_ok_def by metis+
  moreover have "t_shutdownTimer u \<longrightarrow> t_closing u" using d r(3,4) unfolding drain_ok_def by blast
  ultimately show "drain_ok u" by (simp add: drain_ok_def)
qed

lemma settled_refl [simp]: "settled_by t t"
  by (simp add: settled_by_def)

lemma settled_announce: "settled_by t (announceClose t)"
  by (simp add: settled_by_def announceClose_def Let_def reportLifecycle_def open_transport_def)

lemma settled_flags:
  "settled_by t (t\<lparr>t_closing := True, t_shutdownTimer := False, t_drainTimer := False, t_destroyed := True\<rparr>)"
  "settled_by t (t\<lparr>t_drainTimer := False\<rparr>)"
  "settled_by t (t\<lparr>t_drainTimer := False, t_closing := True, t_destroyed := True\<rparr>)"
  "settled_by t (t\<lparr>t_drainTimer := False, t_closing := True, t_writableEnded := True, t_destroyed := True\<rparr>)"
  "settled_by t (t\<lparr>t_shutdownTimer := False, t_drainTimer := False, t_destroyed := True, t_closeWait := False\<rparr>)"
  "settled_by t (t\<lparr>t_closing := True\<rparr>)"
  "settled_by t (t\<lparr>t_closing := True, t_closeWait := True, t_shutdownTimer := True, t_writableEnded := True\<rparr>)"
  "settled_by t (reportFailure f (t\<lparr>t_failed := True\<rparr>))"
  "settled_by t (reportFailure f (t\<lparr>t_failed := True\<rparr>)\<lparr>t_written := ws, t_framing := True\<rparr>)"
  "settled_by t (t\<lparr>t_framing := False\<rparr>)"
  by (simp_all add: settled_by_def open_transport_def reportFailure_def)

lemma settled_destroyNow: "settled_by t (destroyNow_transport t)"
  unfolding destroyNow_transport_def by (rule settled_trans [OF settled_flags(1) settled_announce])

lemma settled_finish: "settled_by t (finishAfterDrain t)"
  using settled_flags(2) [of t] settled_trans [OF settled_flags(3) settled_announce, of t]
    settled_trans [OF settled_flags(4) settled_announce, of t]
  by (simp add: finishAfterDrain_def Let_def)

lemma settled_close_finish: "settled_by t (close_finish t)"
  unfolding close_finish_def by (rule settled_trans [OF settled_flags(5) settled_announce])

lemma settled_failFraming: "settled_by t (failFraming f t)"
  using settled_trans [OF settled_flags(8) settled_destroyNow, of t f]
  by (simp add: failFraming_def Let_def settled_flags(9))

lemma settled_ends:
  "settled_by t (destroyNow_transport t)" "settled_by t (finishAfterDrain t)" "settled_by t (settleIfDrained t)"
  "settled_by t (close_finish t)" "settled_by t (close_transport t)" "settled_by t (failFraming f t)"
  "settled_by t (framing_settles t)"
proof -
  show "settled_by t (settleIfDrained t)" by (simp add: settleIfDrained_def settled_finish)
  show "settled_by t (close_transport t)"
    using settled_flags(7) [of t] settled_trans [OF settled_flags(6) settled_close_finish, of t]
    by (simp add: close_transport_def Let_def)
  show "settled_by t (framing_settles t)"
    using settled_trans [OF settled_flags(10) settled_destroyNow, of t] by (simp add: framing_settles_def)
qed (rule settled_destroyNow settled_finish settled_close_finish settled_failFraming)+

lemma settled_sends:
  "settled_by t (t\<lparr>t_outstanding := o1\<rparr>)" "settled_by t (t\<lparr>t_sends := ss\<rparr>)"
  "settled_by t (t\<lparr>t_written := ws, t_sends := ss, t_next := n\<rparr>)"
  "settled_by t (t\<lparr>t_outstanding := o1, t_written := ws, t_sends := ss, t_next := n\<rparr>)"
  "settled_by t (send_accepted m t)"
  by (simp_all add: settled_by_def open_transport_def send_accepted_def Let_def countOutbound_def reportLifecycle_def)

lemma settled_send: "settled_by t (send_frame m t)"
  using settled_sends(3) [of t] settled_sends(4) [of t] settled_ends(3) [of t]
    settled_trans [OF settled_sends(1) settled_ends(3), of t]
  by (simp add: send_frame_def Let_def split: option.split)

lemma settled_send_settles: "settled_by t (send_settles k outcome t)"
  using settled_trans [OF settled_sends(2) settled_ends(3), of t]
    settled_trans [OF settled_trans [OF settled_sends(2) settled_sends(5)] settled_ends(3), of t]
  by (simp add: send_settles_def Let_def split: option.split)

lemma settled_react: "settled_by t (fold consumer_does reaction t)"
proof (induction reaction arbitrary: t)
  case (Cons c cs)
  have "settled_by t (consumer_does c t)" by (cases c) (simp_all add: settled_send settled_ends)
  with Cons.IH show ?case using settled_trans by fastforce
qed simp

lemma send_frame_inv: "transport_inv json t \<Longrightarrow> transport_inv json (send_frame m t)"
  by (auto simp: send_frame_def Let_def intro!: settleIfDrained_inv split: option.split)

lemma send_accepted_inv: "transport_inv json t \<Longrightarrow> transport_inv json (send_accepted m t)"
  by (simp add: send_accepted_def Let_def countOutbound_def report_inv)

lemma send_settles_inv: "transport_inv json t \<Longrightarrow> transport_inv json (send_settles k outcome t)"
  by (auto simp: send_settles_def Let_def intro!: settleIfDrained_inv send_accepted_inv split: option.split)

lemma react_inv: "transport_inv json t \<Longrightarrow> transport_inv json (fold consumer_does reaction t)"
proof (induction reaction arbitrary: t)
  case (Cons c cs)
  then have "transport_inv json (consumer_does c t)" by (cases c) (simp_all add: send_frame_inv close_transport_inv)
  with Cons.IH show ?case by simp
qed simp

text \<open>Everything at once: what holds between operations.\<close>

definition between_ops :: "(bytes \<Rightarrow> json option) \<Rightarrow> socket_transport \<Rightarrow> bool" where
  "between_ops json t = (transport_inv json t \<and> wire_idle_ok t \<and> drain_ok t)"

lemma between_settled: "between_ops json t \<Longrightarrow> settled_by t u \<Longrightarrow> transport_inv json u \<Longrightarrow> between_ops json u"
  by (simp add: between_ops_def settled_ok)

text \<open>A property kept by every queued line holds at the end; one that a refusal gives holds after a refusal.\<close>

lemma consumeBuffer_keeps:
  assumes line: "\<And>u bs. P u \<Longrightarrow> P (u\<lparr>t_inbound := bs\<rparr>)" and queued: "\<And>u d. P u \<Longrightarrow> P (queue_frame d u)"
    and refused: "\<And>u f. P u \<Longrightarrow> Q (failFraming f u)" and quiet: "\<And>u. P u \<Longrightarrow> Q u"
  shows "P t \<Longrightarrow> Q (consumeBuffer json t)"
proof (induction json t rule: consumeBuffer.induct)
  case (1 json t)
  have b: "P (t\<lparr>t_inbound := bs\<rparr>)" for bs by (rule line [OF "1.prems"])
  have q: "P (queue_frame d (t\<lparr>t_inbound := bs\<rparr>))" for d bs by (rule queued [OF b])
  have f: "Q (failFraming f (t\<lparr>t_inbound := bs\<rparr>))" "Q (failFraming f t)" "Q t" for f bs
    using refused [OF b] refused [OF "1.prems"] quiet [OF "1.prems"] by simp_all
  show ?case
    using "1.IH" f q b by (subst consumeBuffer.simps) (simp add: Let_def split: option.split)
qed

lemma drain_consume:
  assumes "drain_ok t" "\<not> t_closeAnnounced t"
  shows "drain_ok (consumeBuffer json t)"
proof (rule consumeBuffer_keeps [where P = "\<lambda>u. drain_ok u \<and> \<not> t_closeAnnounced u"])
  show "drain_ok (queue_frame d u) \<and> \<not> t_closeAnnounced (queue_frame d u)" if "drain_ok u \<and> \<not> t_closeAnnounced u" for u d
    using that by (simp add: queue_frame_def Let_def scheduleDrain_def pauseReading_def reportLifecycle_def drain_ok_def)
  show "drain_ok (u\<lparr>t_inbound := bs\<rparr>) \<and> \<not> t_closeAnnounced (u\<lparr>t_inbound := bs\<rparr>)"
    if "drain_ok u \<and> \<not> t_closeAnnounced u" for u bs
    using that unfolding drain_ok_def by (simp; blast)
  show "drain_ok (failFraming f u)" if "drain_ok u \<and> \<not> t_closeAnnounced u" for f u
    using that settled_ok(2) [OF settled_failFraming] by simp
qed (use assms in simp_all)

lemma start_between: "between_ops json t \<Longrightarrow> between_ops json (start_transport json t)"
proof (cases "t_started t")
  case False
  let ?t1 = "t\<lparr>t_started := True\<rparr>"
  assume b: "between_ops json t"
  then have I: "transport_inv json t" by (simp add: between_ops_def)
  have "close_ok ?t1" using transport_invD(3) [OF I] unfolding close_ok_def by (simp; blast)
  then have i: "transport_inv json ?t1"
    by (intro narrow_inv [OF I]) (use transport_invD(2,4) [OF I] in \<open>simp_all add: open_transport_def pressure_ok_def\<close>)
  have d: "drain_ok ?t1" using b by (simp add: between_ops_def drain_ok_def)
  show ?thesis
  proof (cases "t_closeAnnounced t")
    case True
    then have "t_closing t" using b False by (simp add: between_ops_def transport_inv_def close_ok_def)
    then have "consumeBuffer json ?t1 = ?t1" by (simp add: consumeBuffer.simps)
    then show ?thesis using i d True False by (simp add: start_transport_def Let_def between_ops_def wire_idle_ok_def open_transport_def)
  next
    case fresh: False
    have "between_ops json (consumeBuffer json ?t1)"
      using consumeBuffer_inv [OF i] drain_consume [OF d] fresh by (simp add: between_ops_def)
    moreover have "wire_idle_ok ?t1" if "t_inbound t = []" using that by (simp add: wire_idle_ok_def)
    ultimately show ?thesis using i d False by (simp add: start_transport_def Let_def between_ops_def)
  qed
qed (simp add: start_transport_def)

lemma handleData_between:
  assumes "between_ops json t" "t_started t" "\<not> t_wireClosed t"
  shows "between_ops json (handleData_transport json chunk t)"
proof (cases "t_failed t \<or> t_closing t")
  case False
  let ?u = "t\<lparr>t_inbound := t_inbound t @ chunk, t_received := t_received t @ chunk\<rparr>"
  have D: "frames_ok json t" "pressure_ok t" "close_ok t" "list_all event_safe (t_events t)" "drain_ok t"
    using assms(1) by (simp_all add: between_ops_def transport_inv_def)
  have n: "\<not> t_closeAnnounced t" using D(3) False assms(3) by (auto simp: close_ok_def)
  from D(1) obtain ls where f: "t_received t = unlines_wire ls @ t_inbound t" "\<forall>l\<in>set ls. 10 \<notin> set l"
    "map json (filter (\<lambda>l. l \<noteq> []) ls) = map Some (t_delivered t @ t_queue t)"
    using False n unfolding frames_ok_def open_transport_def by auto
  have "frames_ok json ?u"
    unfolding frames_ok_def
    by (rule exI [of _ ls], rule exI [of _ "t_inbound t @ chunk"], rule exI [of _ "t_queue t"]) (use f in simp)
  then have "transport_inv json ?u" by (rule transport_invI) (use D in \<open>simp_all add: pressure_ok_def close_ok_def\<close>)
  then show ?thesis
    using consumeBuffer_inv [of json ?u] drain_consume [of ?u json] D(5) n False
    by (simp add: handleData_transport_def between_ops_def drain_ok_def)
qed (use assms in \<open>simp add: handleData_transport_def\<close>)

lemma handleError_between: "between_ops json t \<Longrightarrow> between_ops json (handleError_transport t)"
proof -
  assume b: "between_ops json t"
  have s: "settled_by t (reportFailure f t)" for f by (simp add: reportFailure_def settled_by_def open_transport_def)
  have "transport_inv json (reportFailure f t)" for f
    using b by (simp only: reportFailure_def transport_frame between_ops_def)
  then show ?thesis
    unfolding handleError_transport_def
    by (intro between_settled [OF b settled_trans [OF s settled_destroyNow]] destroyNow_transport_inv)
qed

lemma handleSocketClosed_between: "between_ops json t \<Longrightarrow> between_ops json (handleSocketClosed t)"
proof -
  assume b: "between_ops json t"
  then have I: "transport_inv json t" by (simp add: between_ops_def)
  let ?t1 = "t\<lparr>t_wireClosed := True, t_destroyed := True\<rparr>"
  let ?a = "announceClose (?t1\<lparr>t_shutdownTimer := False\<rparr>\<lparr>t_drainTimer := False\<rparr>)"
  have i1: "transport_inv json ?t1" by (rule closing_inv(4) [OF I])
  have s1: "settled_by t ?t1" "settled_by t ?a"
    by (simp add: settled_by_def open_transport_def)
      (rule settled_trans [OF _ settled_announce], simp add: settled_by_def open_transport_def)
  have ia: "transport_inv json ?a" if "t_started t"
    by (rule announceClose_inv) (use i1 that in \<open>simp_all only: transport_frame\<close>, simp)
  have w: "t_closeWait u \<Longrightarrow> transport_inv json u \<Longrightarrow> t_closing u" for u
    by (simp add: transport_inv_def close_ok_def)
  have step: "between_ops json (if t_closeWait u then close_finish u else u)"
    if "transport_inv json u" "settled_by t u" for u
    using between_settled [OF b settled_trans [OF that(2) settled_close_finish] close_finish_inv [OF that(1) w]]
      between_settled [OF b that(2,1)] that(1) by simp
  show ?thesis
  proof (cases "t_started t")
    case True
    then have "handleSocketClosed t = (if t_closeWait ?a then close_finish ?a else ?a)"
      by (simp add: handleSocketClosed_def Let_def)
    then show ?thesis using step [OF ia [OF True] s1(2)] by (simp only:)
  next
    case False
    then have "handleSocketClosed t = (if t_closeWait ?t1 then close_finish ?t1 else ?t1)"
      by (simp add: handleSocketClosed_def Let_def)
    then show ?thesis using step [OF i1 s1(1)] by (simp only:)
  qed
qed

lemma notifyPeerEnd_between: "between_ops json t \<Longrightarrow> between_ops json (notifyPeerEnd t)"
proof -
  assume b: "between_ops json t"
  let ?r = "reportLifecycle Peer_end_event (t\<lparr>t_peerEnded := True\<rparr>)"
  have i: "transport_inv json ?r" using b by (intro report_inv) (simp_all add: between_ops_def)
  have s: "settled_by t ?r" "settled_by t (?r\<lparr>t_drainTimer := True\<rparr>)"
    by (simp_all add: settled_by_def reportLifecycle_def open_transport_def)
  have j: "transport_inv json (?r\<lparr>t_drainTimer := True\<rparr>)" using i by (simp only: transport_frame)
  show ?thesis
    using b between_settled [OF b settled_trans [OF s(1) settled_finish] finishAfterDrain_inv [OF i]]
      between_settled [OF b settled_trans [OF s(2) settled_ends(3)] settleIfDrained_inv [OF j]]
    by (simp add: notifyPeerEnd_def Let_def)
qed

section \<open>Delivery\<close>

text \<open>The delivery in two parts: up to the call of \<open>onmessage\<close>, and from its return on.\<close>

definition take_next :: "json \<Rightarrow> json list \<Rightarrow> socket_transport \<Rightarrow> socket_transport" where
  "take_next m rest t =
     t\<lparr>t_draining := False, t_queue := rest, t_readingPaused := False,
       t_outstanding := (case jsonRpcRequestKey m of None \<Rightarrow> t_outstanding t | Some k \<Rightarrow> insert k (t_outstanding t)),
       t_delivered := t_delivered t @ [m]\<rparr>"

definition after_call :: "json \<Rightarrow> bool \<Rightarrow> socket_transport \<Rightarrow> socket_transport" where
  "after_call m throws t =
     (let u = t\<lparr>t_outstanding := (case jsonRpcRequestKey m of Some k \<Rightarrow> if throws then t_outstanding t - {k} else t_outstanding t
                                  | None \<Rightarrow> t_outstanding t)\<rparr>
      in if t_queue u \<noteq> [] then scheduleDrain u else settleIfDrained u)"

lemma resumeReading_always: "resumeReading t = t\<lparr>t_readingPaused := False\<rparr>"
  by (cases t) (simp add: resumeReading_def)

lemma deliver_next_parts:
  assumes "t_draining t" "t_queue t = m # rest" "length rest < t_maxQueuedMessages t"
  shows "deliver_next reaction throws t = after_call m throws (fold consumer_does reaction (take_next m rest t))"
  using assms
  by (cases "jsonRpcRequestKey m")
    (simp_all add: deliver_next_def after_call_def take_next_def Let_def resumeReading_always)

lemma take_next_inv:
  assumes "transport_inv json t" "t_queue t = m # rest"
  shows "transport_inv json (take_next m rest t)"
proof (rule transport_invI)
  note D = transport_invD [OF assms(1)]
  have n: "\<not> t_closeAnnounced t" using D(3) assms(2) by (auto simp: close_ok_def)
  from D(1) n assms(2) obtain ls rs where f: "t_received t = unlines_wire ls @ rs" "\<forall>l\<in>set ls. 10 \<notin> set l"
    "map json (filter (\<lambda>l. l \<noteq> []) ls) = map Some (t_delivered t @ m # rest)" "open_transport t \<longrightarrow> rs = t_inbound t"
    unfolding frames_ok_def by auto
  show "frames_ok json (take_next m rest t)"
    unfolding frames_ok_def
    by (rule exI [of _ ls], rule exI [of _ rs], rule exI [of _ rest])
      (use f in \<open>simp add: take_next_def open_transport_def\<close>)
  show "pressure_ok (take_next m rest t)" using D(2) assms(2) by (auto simp: pressure_ok_def take_next_def)
  show "close_ok (take_next m rest t)" using D(3) n by (simp add: close_ok_def take_next_def)
  show "list_all event_safe (t_events (take_next m rest t))" using D(4) by (simp add: take_next_def)
qed

lemma schedule_frame [simp]: "transport_inv json (t\<lparr>t_draining := b\<rparr>) = transport_inv json t"
  by (simp add: transport_inv_def frames_ok_def pressure_ok_def close_ok_def open_transport_def)

lemma after_call_inv: "transport_inv json t \<Longrightarrow> transport_inv json (after_call m throws t)"
  by (auto simp: after_call_def Let_def scheduleDrain_def intro!: settleIfDrained_inv)

lemma after_call_settles:
  assumes "settled_by t u" "\<not> t_draining t" "t_shutdownTimer t \<longrightarrow> t_closing t"
  shows "wire_idle_ok t \<Longrightarrow> wire_idle_ok (after_call m throws u)" "drain_ok (after_call m throws u)"
proof -
  let ?v = "u\<lparr>t_outstanding := (case jsonRpcRequestKey m of Some k \<Rightarrow> if throws then t_outstanding u - {k} else t_outstanding u
                                  | None \<Rightarrow> t_outstanding u)\<rparr>"
  have v: "settled_by t ?v" by (rule settled_trans [OF assms(1) settled_sends(1)])
  have i: "wire_idle_ok t \<Longrightarrow> wire_idle_ok ?v" by (rule settled_ok(1) [OF v])
  show "wire_idle_ok t \<Longrightarrow> wire_idle_ok (after_call m throws u)"
    using i settled_ok(1) [OF settled_ends(3), of ?v] unfolding after_call_def Let_def
    by (auto simp: scheduleDrain_def wire_idle_ok_def open_transport_def)
  have d: "\<not> t_draining ?v" "t_shutdownTimer ?v \<longrightarrow> t_closing ?v" using v assms(2,3) unfolding settled_by_def by auto
  have "drain_ok ?v" if "t_queue u = []" using d that by (simp add: drain_ok_def)
  then show "drain_ok (after_call m throws u)"
    using settled_ok(2) [OF settled_ends(3), of ?v] d unfolding after_call_def Let_def
    by (auto simp: scheduleDrain_def drain_ok_def)
qed

lemma deliver_between:
  assumes "between_ops json t"
  shows "between_ops json (deliver_next reaction throws t)"
proof (cases "t_draining t")
  case True
  have I: "transport_inv json t" and idle: "wire_idle_ok t" using assms by (simp_all add: between_ops_def)
  show ?thesis
  proof (cases "t_queue t")
    case Nil
    then have "deliver_next reaction throws t = t\<lparr>t_draining := False\<rparr>" using True by (simp add: deliver_next_def)
    then show ?thesis using I idle Nil assms by (simp add: between_ops_def wire_idle_ok_def drain_ok_def open_transport_def)
  next
    case (Cons m rest)
    have room: "length rest < t_maxQueuedMessages t"
      using transport_invD(2) [OF I] Cons by (simp add: pressure_ok_def)
    let ?u = "take_next m rest t"
    have "wire_idle_ok ?u" using idle by (simp add: wire_idle_ok_def take_next_def open_transport_def)
    moreover have "\<not> t_draining ?u" "t_shutdownTimer ?u \<longrightarrow> t_closing ?u"
      using assms by (simp_all add: take_next_def between_ops_def drain_ok_def)
    ultimately show ?thesis
      using after_call_settles [OF settled_react] after_call_inv [OF react_inv [OF take_next_inv [OF I Cons]]]
      by (simp add: between_ops_def deliver_next_parts [OF True Cons room])
  qed
qed (use assms in \<open>simp add: deliver_next_def\<close>)

section \<open>Runs\<close>

lemma transport_step_between: "between_ops json t \<Longrightarrow> between_ops json (transport_step json t op)"
proof (cases op)
  case (Send m)
  assume b: "between_ops json t"
  then show ?thesis using Send between_settled [OF b settled_send send_frame_inv] by (simp add: between_ops_def)
next
  case (Send_settles k outcome)
  assume b: "between_ops json t"
  then show ?thesis using Send_settles between_settled [OF b settled_send_settles send_settles_inv] by (simp add: between_ops_def)
next
  case Owner_destroys_wire
  assume b: "between_ops json t"
  have "settled_by t (t\<lparr>t_destroyed := True\<rparr>)" by (simp add: settled_by_def open_transport_def)
  from between_settled [OF b this closing_inv(3)] b show ?thesis
    unfolding Owner_destroys_wire by (simp add: between_ops_def)
next
  case Drain_deadline
  assume b: "between_ops json t"
  then show ?thesis using Drain_deadline between_settled [OF b settled_finish finishAfterDrain_inv] by (simp add: between_ops_def)
next
  case Shutdown_deadline
  assume b: "between_ops json t"
  then show ?thesis
    using Shutdown_deadline between_settled [OF b settled_close_finish close_finish_inv] by (simp add: between_ops_def drain_ok_def)
next
  case Framing_settles
  assume b: "between_ops json t"
  then show ?thesis using Framing_settles between_settled [OF b settled_ends(7) framing_settles_inv] by (simp add: between_ops_def)
next
  case Close_call
  assume b: "between_ops json t"
  then show ?thesis using Close_call between_settled [OF b settled_ends(5) close_transport_inv] by (simp add: between_ops_def)
qed (simp_all add: start_between handleData_between handleError_between handleSocketClosed_between
      notifyPeerEnd_between deliver_between)

definition transport_run :: "(bytes \<Rightarrow> json option) \<Rightarrow> nat option \<Rightarrow> nat option \<Rightarrow> bytes \<Rightarrow> transport_op list \<Rightarrow> socket_transport" where
  "transport_run json maxLineBytes maxQueuedMessages remainder ops =
     fold (\<lambda>op t. transport_step json t op) ops (newSocketTransport maxLineBytes maxQueuedMessages remainder)"

lemma transport_run_snoc:
  "transport_run json l q r (ops @ [op]) = transport_step json (transport_run json l q r ops) op"
  by (simp add: transport_run_def)

lemma newSocketTransport_between: "q \<noteq> Some 0 \<Longrightarrow> between_ops json (newSocketTransport l q r)"
proof -
  assume q: "q \<noteq> Some 0"
  have "frames_ok json (newSocketTransport l q r)"
    unfolding frames_ok_def
    by (rule exI [of _ "[]"], rule exI [of _ r], rule exI [of _ "[]"]) (simp add: newSocketTransport_def unlines_wire_def)
  then show ?thesis
    using q by (cases q) (simp_all add: between_ops_def transport_inv_def pressure_ok_def close_ok_def wire_idle_ok_def drain_ok_def
        newSocketTransport_def STUDIO_MAX_QUEUED_INBOUND_MESSAGES_def)
qed

lemma transport_run_between: "q \<noteq> Some 0 \<Longrightarrow> between_ops json (transport_run json l q r ops)"
  by (induction ops rule: rev_induct)
    (simp_all add: transport_run_snoc transport_step_between newSocketTransport_between transport_run_def [of _ _ _ _ "[]"])

end
