(* ===== verification/SocketTransportProps.thy ===== *)
theory SocketTransportProps
  imports SocketTransportRuns
begin

text \<open>
  What the MCP wire guarantees over any run: the consumer gets the documents of the peer's lines in
  order, the bounds are the back-pressure, the close is announced once, the drain waits for every
  delivered request, and what reaches the log is drawn from a closed set of characters. It also shows
  that the drain does not wait for the writer.
\<close>

text \<open>The read-off of the invariant.\<close>

lemma run_facts:
  fixes json :: "bytes \<Rightarrow> json option" and l q :: "nat option" and r :: bytes and ops :: "transport_op list"
  assumes "q \<noteq> Some 0"
  defines "t \<equiv> transport_run json l q r ops"
  shows "frames_ok json t" "pressure_ok t" "close_ok t" "list_all event_safe (t_events t)" "wire_idle_ok t" "drain_ok t"
  using transport_run_between [OF assms(1), of json l r ops] unfolding between_ops_def transport_inv_def t_def by simp_all

lemma settled_ops_delivered:
  assumes "between_ops json t" "t_closeAnnounced t"
  shows "t_closeAnnounced (transport_step json t op) \<and> t_delivered (transport_step json t op) = t_delivered t"
proof -
  have k: "t_closeAnnounced u \<and> t_delivered u = t_delivered t" if "settled_by t u" for u
    using that assms(2) by (simp add: settled_by_def)
  have c: "t_queue t = []" "t_closing t \<or> t_started t \<and> t_wireClosed t"
    using assms by (simp_all add: between_ops_def transport_inv_def close_ok_def)
  show ?thesis
  proof (cases op)
    case Start
    have "consumeBuffer json (t\<lparr>t_started := True\<rparr>) = t\<lparr>t_started := True\<rparr>" if "t_closing t"
      using that by (simp add: consumeBuffer.simps)
    then show ?thesis using Start c(2) assms(2) by (auto simp: start_transport_def Let_def)
  next
    case (Wire_bytes chunk)
    then show ?thesis using c(2) assms(2) by (auto simp: handleData_transport_def)
  next
    case Wire_fails
    have "settled_by t (handleError_transport t)"
      unfolding handleError_transport_def
      by (rule settled_trans [OF _ settled_destroyNow]) (simp add: reportFailure_def settled_by_def open_transport_def)
    then show ?thesis using Wire_fails k [of "handleError_transport t"] assms(2) by (simp only: transport_step.simps if_split) simp
  next
    case Wire_close_edge
    then show ?thesis
      using assms(2) by (simp add: handleSocketClosed_def Let_def announceClose_def close_finish_def)
  next
    case Peer_ends_edge
    have "settled_by t (reportLifecycle Peer_end_event (t\<lparr>t_peerEnded := True\<rparr>))"
      "settled_by t (reportLifecycle Peer_end_event (t\<lparr>t_peerEnded := True\<rparr>)\<lparr>t_drainTimer := True\<rparr>)"
      by (simp_all add: settled_by_def reportLifecycle_def open_transport_def)
    then have "settled_by t (notifyPeerEnd t)"
      using settled_trans [OF _ settled_finish] settled_trans [OF _ settled_ends(3)] by (simp add: notifyPeerEnd_def Let_def)
    then show ?thesis using Peer_ends_edge k [of "notifyPeerEnd t"] by simp
  next
    case (Deliver reaction throws)
    then show ?thesis using c(1) assms(2) by (simp add: deliver_next_def)
  next
    case Drain_deadline
    then show ?thesis using k [OF settled_finish] assms(2) by simp
  next
    case Shutdown_deadline
    then show ?thesis using k [OF settled_close_finish] assms(2) by simp
  next
    case (Send m)
    then show ?thesis using k [OF settled_send] by simp
  next
    case (Send_settles n outcome)
    then show ?thesis using k [OF settled_send_settles] by simp
  next
    case Framing_settles
    then show ?thesis using k [OF settled_ends(7)] by simp
  next
    case Close_call
    then show ?thesis using k [OF settled_ends(5)] by simp
  qed (simp add: assms(2))
qed

lemma after_close:
  assumes "q \<noteq> Some 0" "t_closeAnnounced (transport_run json l q r ops)"
  shows "t_closeAnnounced (transport_run json l q r (ops @ later))
       \<and> t_delivered (transport_run json l q r (ops @ later)) = t_delivered (transport_run json l q r ops)"
proof (induction later rule: rev_induct)
  case (snoc op later)
  then show ?case
    using settled_ops_delivered [OF transport_run_between [OF assms(1)], of json l r "ops @ later" op]
    by (simp add: transport_run_snoc [of _ _ _ _ "ops @ later", simplified])
qed (use assms in simp)

section \<open>The drain\<close>

text \<open>
  An orderly life: the owner and the consumer do not close, the wire does not fail or go, no deadline
  fires. Until a framing failure, only the drain can then close the transport.
\<close>

fun orderly :: "transport_op \<Rightarrow> bool" where
  "orderly Start = True"
| "orderly (Wire_bytes _) = True"
| "orderly Peer_ends_edge = True"
| "orderly (Deliver reaction _) = (Call_close \<notin> set reaction)"
| "orderly (Send _) = True"
| "orderly (Send_settles _ _) = True"
| "orderly _ = False"

definition untouched :: "socket_transport \<Rightarrow> bool" where
  "untouched t =
     (\<not> t_failed t \<and> \<not> t_framing t \<and> \<not> t_closing t \<and> \<not> t_destroyed t \<and> \<not> t_writableEnded t \<and> \<not> t_closeAnnounced t)"

definition all_handed_over :: "(bytes \<Rightarrow> json option) \<Rightarrow> socket_transport \<Rightarrow> bool" where
  "all_handed_over json t =
     (\<exists>ls. t_received t = unlines_wire ls @ t_inbound t \<and> (\<forall>l\<in>set ls. 10 \<notin> set l)
        \<and> map json (filter (\<lambda>l. l \<noteq> []) ls) = map Some (t_delivered t))"

definition drained :: "(bytes \<Rightarrow> json option) \<Rightarrow> socket_transport \<Rightarrow> bool" where
  "drained json t =
     (t_peerEnded t \<and> t_closing t \<and> t_destroyed t \<and> t_closeAnnounced t \<and> t_outstanding t = {} \<and> t_queue t = []
      \<and> \<not> t_failed t \<and> all_handed_over json t)"

definition orderly_inv :: "(bytes \<Rightarrow> json option) \<Rightarrow> socket_transport \<Rightarrow> bool" where
  "orderly_inv json t =
     (t_failures t = [] \<longrightarrow> t_started t \<and> 10 \<notin> set (t_inbound t) \<and> (untouched t \<and> frames_ok json t \<or> drained json t))"

lemma untouched_frames:
  "untouched t \<Longrightarrow> frames_ok json t \<Longrightarrow> t_queue t = [] \<Longrightarrow> all_handed_over json t"
  by (auto simp: untouched_def frames_ok_def open_transport_def all_handed_over_def)

lemma settle_untouched:
  assumes "untouched t" "frames_ok json t" "10 \<notin> set (t_inbound t)" "t_started t"
  shows "orderly_inv json (settleIfDrained t)"
proof (cases "t_peerEnded t \<and> \<not> t_draining t \<and> t_queue t = [] \<and> t_outstanding t = {}")
  case True
  have "all_handed_over json t" by (rule untouched_frames [OF assms(1,2)]) (use True in simp)
  then have "drained json (finishAfterDrain t)"
    using True assms(1)
    by (simp add: finishAfterDrain_def Let_def announceClose_def reportLifecycle_def drained_def all_handed_over_def untouched_def)
  moreover have "t_inbound (finishAfterDrain t) = t_inbound t" "t_started (finishAfterDrain t) = t_started t"
    by (simp_all add: finishAfterDrain_def Let_def announceClose_def reportLifecycle_def)
  ultimately show ?thesis using True assms(3,4) by (simp add: settleIfDrained_def orderly_inv_def)
next
  case False
  then have "settleIfDrained t = t" by (auto simp: settleIfDrained_def)
  then show ?thesis using assms by (simp add: orderly_inv_def)
qed

lemma settle_drained: "drained json t \<Longrightarrow> drained json (settleIfDrained t) \<and> t_inbound (settleIfDrained t) = t_inbound t
       \<and> t_started (settleIfDrained t) = t_started t"
  by (simp add: settleIfDrained_def finishAfterDrain_def Let_def drained_def all_handed_over_def)

lemma settle_orderly: "orderly_inv json t \<Longrightarrow> orderly_inv json (settleIfDrained t)"
proof (cases "t_failures t = []")
  case True
  assume "orderly_inv json t"
  then show ?thesis using True settle_untouched [of t json] settle_drained [of json t] by (auto simp: orderly_inv_def)
next
  case False
  then have "t_failures (settleIfDrained t) \<noteq> []"
    by (simp add: settleIfDrained_def finishAfterDrain_def Let_def announceClose_def reportLifecycle_def)
  then show ?thesis by (simp add: orderly_inv_def)
qed

text \<open>Changes to the accounting and to the reports.\<close>

lemma orderly_frame:
  assumes "orderly_inv json t" "t_failures u = t_failures t" "t_started u = t_started t" "t_failed u = t_failed t" "t_framing u = t_framing t"
    "t_closing u = t_closing t" "t_destroyed u = t_destroyed t" "t_writableEnded u = t_writableEnded t"
    "t_closeAnnounced u = t_closeAnnounced t" "t_inbound u = t_inbound t" "t_received u = t_received t"
    "t_delivered u = t_delivered t" "t_queue u = t_queue t" "t_peerEnded t \<longrightarrow> t_peerEnded u"
    "t_outstanding u \<subseteq> t_outstanding t"
  shows "orderly_inv json u"
proof -
  have "frames_ok json u = frames_ok json t" "all_handed_over json u = all_handed_over json t" "untouched u = untouched t"
    using assms by (simp_all add: frames_ok_def open_transport_def all_handed_over_def untouched_def)
  moreover have "drained json t \<Longrightarrow> drained json u" if "all_handed_over json u = all_handed_over json t"
    using that assms by (simp add: drained_def)
  ultimately show ?thesis using assms(1,2,3,10) by (auto simp: orderly_inv_def)
qed

lemma send_orderly: "orderly_inv json t \<Longrightarrow> orderly_inv json (send_frame m t)"
proof -
  assume o: "orderly_inv json t"
  let ?u = "t\<lparr>t_outstanding := (case jsonRpcResponseKey m of None \<Rightarrow> t_outstanding t | Some k \<Rightarrow> t_outstanding t - {k})\<rparr>"
  have u: "orderly_inv json ?u" by (rule orderly_frame [OF o]) (auto split: option.split)
  have w: "orderly_inv json (?u\<lparr>t_written := ws, t_sends := ss, t_next := n\<rparr>)" for ws ss n
    by (rule orderly_frame [OF u]) simp_all
  have "send_frame m t =
      (if t_destroyed t \<or> t_writableEnded t then settleIfDrained ?u
       else ?u\<lparr>t_written := t_written t @ [Frame_message m], t_sends := t_sends t @ [(t_next t, m)], t_next := t_next t + 1\<rparr>)"
    by (cases "jsonRpcResponseKey m"; cases t) (simp_all add: send_frame_def Let_def)
  then show ?thesis using settle_orderly [OF u] w by (cases "t_destroyed t \<or> t_writableEnded t") (simp_all only: if_True if_False)
qed

lemma send_settles_orderly: "orderly_inv json t \<Longrightarrow> orderly_inv json (send_settles n outcome t)"
proof -
  assume o: "orderly_inv json t"
  have u: "orderly_inv json (t\<lparr>t_sends := ss\<rparr>)" for ss by (rule orderly_frame [OF o]) simp_all
  have a: "orderly_inv json (send_accepted m (t\<lparr>t_sends := ss\<rparr>))" for m ss
    by (rule orderly_frame [OF u [of ss]]) (simp_all add: send_accepted_def Let_def countOutbound_def reportLifecycle_def)
  show ?thesis
    using o settle_orderly [OF u] settle_orderly [OF a]
    by (simp add: send_settles_def Let_def split: option.split)
qed

lemma react_orderly: "orderly_inv json t \<Longrightarrow> Call_close \<notin> set reaction \<Longrightarrow> orderly_inv json (fold consumer_does reaction t)"
proof (induction reaction arbitrary: t)
  case (Cons c cs)
  from Cons.prems have "orderly_inv json (consumer_does c t)" by (cases c) (simp_all add: send_orderly)
  with Cons show ?case by simp
qed simp

lemma consume_untouched:
  assumes "untouched t" "t_started t"
  shows "t_failures (consumeBuffer json t) = [] \<longrightarrow> untouched (consumeBuffer json t) \<and> t_started (consumeBuffer json t)"
proof (rule consumeBuffer_keeps [where P = "\<lambda>u. untouched u \<and> t_started u"])
  show "t_failures (failFraming f u) = [] \<longrightarrow> untouched (failFraming f u) \<and> t_started (failFraming f u)"
    if "untouched u \<and> t_started u" for f u
    using that by (simp add: failFraming_def Let_def reportFailure_def untouched_def)
  show "untouched (queue_frame d u) \<and> t_started (queue_frame d u)" if "untouched u \<and> t_started u" for u d
    using that by (simp add: queue_frame_def Let_def scheduleDrain_def pauseReading_def reportLifecycle_def untouched_def)
qed (use assms in \<open>simp_all add: untouched_def\<close>)

lemma consume_orderly:
  assumes "transport_inv json t" "untouched t" "t_started t"
  shows "orderly_inv json (consumeBuffer json t)"
proof -
  have c: "transport_inv json (consumeBuffer json t)" "wire_idle_ok (consumeBuffer json t)"
    using consumeBuffer_inv [OF assms(1)] assms(2) by (simp_all add: untouched_def)
  show ?thesis
    using consume_untouched [OF assms(2,3), of json] c
    by (auto simp: orderly_inv_def transport_inv_def wire_idle_ok_def untouched_def open_transport_def)
qed

lemma deliver_orderly:
  assumes "between_ops json t" "orderly_inv json t" "Call_close \<notin> set reaction"
  shows "orderly_inv json (deliver_next reaction throws t)"
proof (cases "t_draining t \<and> t_queue t \<noteq> []")
  case False
  then have "deliver_next reaction throws t = t \<or> deliver_next reaction throws t = t\<lparr>t_draining := False\<rparr>"
    by (auto simp: deliver_next_def)
  moreover have "orderly_inv json (t\<lparr>t_draining := False\<rparr>)" by (rule orderly_frame [OF assms(2)]) simp_all
  ultimately show ?thesis using assms(2) by metis
next
  case True
  then obtain m rest where q: "t_queue t = m # rest" by (cases "t_queue t") auto
  have I: "transport_inv json t" using assms(1) by (simp add: between_ops_def)
  have room: "length rest < t_maxQueuedMessages t" using transport_invD(2) [OF I] q by (simp add: pressure_ok_def)
  have "frames_ok json (take_next m rest t)" by (rule transport_invD(1) [OF take_next_inv [OF I q]])
  then have o: "orderly_inv json (take_next m rest t)"
    using assms(2) q by (auto simp: orderly_inv_def drained_def take_next_def untouched_def)
  have after: "orderly_inv json (after_call m throws u)" if "orderly_inv json u" for u
  proof -
    let ?v = "u\<lparr>t_outstanding := (case jsonRpcRequestKey m of Some k \<Rightarrow> if throws then t_outstanding u - {k} else t_outstanding u
                                    | None \<Rightarrow> t_outstanding u)\<rparr>"
    have v: "orderly_inv json ?v" by (rule orderly_frame [OF that]) (auto split: option.split)
    have "orderly_inv json (scheduleDrain ?v)" by (rule orderly_frame [OF v]) (simp_all add: scheduleDrain_def)
    then show ?thesis using settle_orderly [OF v] unfolding after_call_def Let_def by simp
  qed
  show ?thesis
    using after [OF react_orderly [OF o assms(3)]] deliver_next_parts [OF _ q room] True by simp
qed

lemma notifyPeerEnd_orderly: "orderly_inv json t \<Longrightarrow> orderly_inv json (notifyPeerEnd t)"
proof -
  assume o: "orderly_inv json t"
  let ?v = "reportLifecycle Peer_end_event (t\<lparr>t_peerEnded := True\<rparr>)\<lparr>t_drainTimer := True\<rparr>"
  let ?w = "reportLifecycle Peer_end_event (t\<lparr>t_peerEnded := True\<rparr>)"
  have v: "orderly_inv json ?v" by (rule orderly_frame [OF o]) (simp_all add: reportLifecycle_def)
  have f: "t_failures (finishAfterDrain ?w) = t_failures t"
    by (simp add: finishAfterDrain_def Let_def announceClose_def reportLifecycle_def)
  show ?thesis
  proof (cases "t_failures t = [] \<and> \<not> t_peerEnded t")
    case True
    then have "untouched t" using o by (auto simp: orderly_inv_def drained_def)
    then have "notifyPeerEnd t = settleIfDrained ?v"
      using True by (simp add: notifyPeerEnd_def Let_def untouched_def reportLifecycle_def)
    then show ?thesis using settle_orderly [OF v] by simp
  next
    case False
    have "t_failures (settleIfDrained ?v) = t_failures t"
      by (simp add: settleIfDrained_def finishAfterDrain_def Let_def announceClose_def reportLifecycle_def)
    then have "t_failures (notifyPeerEnd t) = t_failures t"
      using f by (simp add: notifyPeerEnd_def Let_def)
    then show ?thesis using False o by (cases "t_peerEnded t") (simp_all add: notifyPeerEnd_def, simp add: orderly_inv_def)
  qed
qed

lemma orderly_step:
  assumes "between_ops json t" "orderly_inv json t" "t_started t" "orderly op"
  shows "orderly_inv json (transport_step json t op)"
proof (cases op)
  case Start
  then show ?thesis using assms by (simp add: start_transport_def)
next
  case (Wire_bytes chunk)
  show ?thesis
  proof (cases "t_failed t \<or> t_closing t \<or> t_wireClosed t")
    case True
    then show ?thesis using assms(2) Wire_bytes by (auto simp: handleData_transport_def)
  next
    case False
    let ?u = "t\<lparr>t_inbound := t_inbound t @ chunk, t_received := t_received t @ chunk\<rparr>"
    have n: "\<not> t_closeAnnounced t"
      using assms(1) False by (auto simp: between_ops_def transport_inv_def close_ok_def)
    have I: "transport_inv json (consumeBuffer json ?u)" "wire_idle_ok (consumeBuffer json ?u)"
      using handleData_between [OF assms(1,3), of chunk] False by (simp_all add: handleData_transport_def between_ops_def)
    show ?thesis
    proof (cases "t_failures t = []")
      case True
      then have "untouched t" using assms(2) n by (auto simp: orderly_inv_def drained_def)
      then have "untouched ?u" "t_started ?u" using assms(3) by (simp_all add: untouched_def)
      then have "orderly_inv json (consumeBuffer json ?u)"
        using consume_untouched [of ?u json] I by (auto simp: orderly_inv_def transport_inv_def wire_idle_ok_def untouched_def open_transport_def)
      then show ?thesis using Wire_bytes False assms(2) by (simp add: handleData_transport_def)
    next
      case failed: False
      have "t_failures (consumeBuffer json ?u) \<noteq> []"
      proof (rule consumeBuffer_keeps [where P = "\<lambda>u. t_failures u \<noteq> []"])
        show "t_failures (failFraming f u) \<noteq> []" if "t_failures u \<noteq> []" for f u
          using that by (simp add: failFraming_def Let_def reportFailure_def destroyNow_transport_def announceClose_def reportLifecycle_def)
        show "t_failures (queue_frame d u) \<noteq> []" if "t_failures u \<noteq> []" for d u
          using that by (simp add: queue_frame_def Let_def scheduleDrain_def pauseReading_def reportLifecycle_def)
      qed (use failed in simp_all)
      then show ?thesis using Wire_bytes False assms(2) by (simp add: handleData_transport_def orderly_inv_def)
    qed
  qed
qed (use assms in \<open>simp_all add: notifyPeerEnd_orderly deliver_orderly send_orderly send_settles_orderly\<close>)

lemma started_keeps: "t_started t \<Longrightarrow> t_started (transport_step json t op)"
proof -
  assume s: "t_started t"
  have k: "settled_by t u \<Longrightarrow> t_started u" for u using s by (simp add: settled_by_def)
  have c: "t_started (consumeBuffer json u)" if "t_started u" for u
  proof (rule consumeBuffer_keeps [where P = t_started])
    show "t_started (failFraming f v)" if "t_started v" for f v
      using settled_failFraming [of v f] that by (simp add: settled_by_def)
  qed (use that in simp_all)
  have a: "t_started (announceClose u) = t_started u" for u using settled_announce [of u] by (simp add: settled_by_def)
  show ?thesis
  proof (cases op)
    case (Deliver reaction throws)
    show ?thesis
    proof (cases "t_draining t \<and> t_queue t \<noteq> []")
      case True
      then obtain m rest where "t_queue t = m # rest" by (cases "t_queue t") auto
      have f: "settled_by u (fold consumer_does reaction u)" "settled_by u (settleIfDrained u)" for u
        by (rule settled_react settled_ends)+
      have r: "t_started (fold consumer_does reaction u) = t_started u" "t_started (settleIfDrained u) = t_started u" for u
        using f [of u] by (simp_all add: settled_by_def)
      show ?thesis
        using Deliver s by (simp add: deliver_next_def Let_def scheduleDrain_def resumeReading_def r split: list.split option.split)
    qed (use Deliver s in \<open>auto simp: deliver_next_def\<close>)
  next
    case Peer_ends_edge
    have "t_started (finishAfterDrain u) = t_started u" "t_started (settleIfDrained u) = t_started u" for u
      using settled_finish [of u] settled_ends(3) [of u] by (simp_all add: settled_by_def)
    then show ?thesis using Peer_ends_edge s by (simp add: notifyPeerEnd_def Let_def reportLifecycle_def)
  next
    case (Wire_bytes chunk)
    then show ?thesis using s c by (simp add: handleData_transport_def)
  next
    case Wire_fails
    have "t_started (destroyNow_transport u) = t_started u" for u using settled_destroyNow [of u] by (simp add: settled_by_def)
    then show ?thesis using Wire_fails s by (simp add: handleError_transport_def reportFailure_def)
  qed (use s k [OF settled_finish] k [OF settled_close_finish] k [OF settled_send] k [OF settled_send_settles]
         k [OF settled_ends(7)] k [OF settled_ends(5)] in
       \<open>simp_all add: start_transport_def handleSocketClosed_def Let_def close_finish_def a\<close>)
qed

lemma transport_run_Start:
  assumes "q \<noteq> Some 0"
  shows "t_started (transport_run json l q r (Start # ops))"
    and "list_all orderly ops \<Longrightarrow> orderly_inv json (transport_run json l q r (Start # ops))"
proof (induction ops rule: rev_induct)
  case Nil
  let ?n = "newSocketTransport l q r"
  have b: "between_ops json (start_transport json ?n)" by (rule start_between [OF newSocketTransport_between [OF assms]])
  have n: "untouched (?n\<lparr>t_started := True\<rparr>)" "\<not> t_started ?n" by (simp_all add: untouched_def newSocketTransport_def)
  have e: "transport_run json l q r [Start] = start_transport json ?n" by (simp add: transport_run_def)
  have c: "t_failures (consumeBuffer json (?n\<lparr>t_started := True\<rparr>)) = [] \<longrightarrow>
      untouched (consumeBuffer json (?n\<lparr>t_started := True\<rparr>)) \<and> t_started (consumeBuffer json (?n\<lparr>t_started := True\<rparr>))"
    by (rule consume_untouched [OF n(1)]) simp
  then have u: "t_failures (start_transport json ?n) = [] \<longrightarrow> untouched (start_transport json ?n) \<and> t_started (start_transport json ?n)"
    using n by (simp add: start_transport_def Let_def)
  show "t_started (transport_run json l q r [Start])"
    unfolding e using consumeBuffer_keeps [where P = t_started and Q = t_started and t = "?n\<lparr>t_started := True\<rparr>" and json = json]
      settled_failFraming n(2) by (simp add: start_transport_def Let_def settled_by_def)
  show "orderly_inv json (transport_run json l q r [Start])"
    unfolding e using u b
    by (auto simp: orderly_inv_def between_ops_def transport_inv_def wire_idle_ok_def untouched_def open_transport_def)
next
  case (snoc op ops)
  have s: "t_started (transport_run json l q r (Start # ops @ [op]))"
    using started_keeps [OF snoc(1)] transport_run_snoc [of json l q r "Start # ops" op] by simp
  show "t_started (transport_run json l q r (Start # ops @ [op]))" by (rule s)
  assume "list_all orderly (ops @ [op])"
  then show "orderly_inv json (transport_run json l q r (Start # ops @ [op]))"
    using orderly_step [OF transport_run_between [OF assms] snoc(2) snoc(1)] transport_run_snoc [of json l q r "Start # ops" op]
    by simp
qed

text \<open>The drain is due: everything handed over, every request answered, every answer settled.\<close>

definition drain_due :: "socket_transport \<Rightarrow> bool" where
  "drain_due t =
     (t_peerEnded t \<and> t_queue t = [] \<and> \<not> t_draining t \<and> t_outstanding t = {} \<and> t_sends t = [])"

definition drain_done :: "socket_transport \<Rightarrow> bool" where
  "drain_done t = (drain_due t \<longrightarrow> t_closeAnnounced t)"

lemma ends_announce [simp]:
  "t_closeAnnounced (announceClose t)" "t_closeAnnounced (finishAfterDrain t)" "t_closeAnnounced (destroyNow_transport t)"
  "t_closeAnnounced (close_finish t)"
  by (simp_all add: announceClose_def reportLifecycle_def Let_def finishAfterDrain_def destroyNow_transport_def close_finish_def)

lemma settle_done [simp]: "drain_done (settleIfDrained t)"
  by (simp add: drain_done_def drain_due_def settleIfDrained_def)

lemma consume_done: "drain_done t \<Longrightarrow> drain_done (consumeBuffer json t)"
proof (rule consumeBuffer_keeps [where P = drain_done])
  show "drain_done (queue_frame d u)" for u d
    by (simp add: queue_frame_def Let_def scheduleDrain_def pauseReading_def reportLifecycle_def drain_done_def drain_due_def)
  show "drain_done (failFraming f u)" if "drain_done u" for u f
    using that by (simp add: failFraming_def Let_def reportFailure_def drain_done_def drain_due_def)
qed (simp_all add: drain_done_def drain_due_def)

lemma transport_step_done:
  assumes "between_ops json t" "drain_done t"
  shows "drain_done (transport_step json t op)"
proof (cases op)
  case (Deliver reaction throws)
  show ?thesis
  proof (cases "t_draining t \<and> t_queue t \<noteq> []")
    case True
    then obtain m rest where q: "t_queue t = m # rest" by (cases "t_queue t") auto
    have room: "length rest < t_maxQueuedMessages t"
      using assms(1) q by (simp add: between_ops_def transport_inv_def pressure_ok_def)
    have "drain_done (scheduleDrain v)" if "t_queue v \<noteq> []" for v
      using that by (simp add: scheduleDrain_def drain_done_def drain_due_def)
    then have "drain_done (after_call m throws u)" for u unfolding after_call_def Let_def by simp
    then show ?thesis using Deliver deliver_next_parts [OF _ q room] True by simp
  next
    case False
    then show ?thesis
      using Deliver assms by (auto simp: deliver_next_def drain_done_def drain_due_def between_ops_def drain_ok_def)
  qed
next
  case (Send m)
  then show ?thesis using assms(2)
    by (simp add: send_frame_def Let_def split: option.split) (simp add: drain_done_def drain_due_def)
next
  case (Send_settles n outcome)
  then show ?thesis using assms(2) by (simp add: send_settles_def Let_def split: option.split)
next
  case Start
  have "drain_done (t\<lparr>t_started := True\<rparr>)" using assms(2) by (simp add: drain_done_def drain_due_def)
  then show ?thesis using Start assms(2) consume_done by (simp add: start_transport_def Let_def)
next
  case (Wire_bytes chunk)
  have "drain_done (t\<lparr>t_inbound := t_inbound t @ chunk, t_received := t_received t @ chunk\<rparr>)"
    using assms(2) by (simp add: drain_done_def drain_due_def)
  then show ?thesis using Wire_bytes assms(2) consume_done by (simp add: handleData_transport_def)
next
  case Close_call
  then show ?thesis using assms(2) by (simp add: close_transport_def Let_def drain_done_def drain_due_def)
next
  case Peer_ends_edge
  then show ?thesis using assms(2) by (simp add: notifyPeerEnd_def Let_def) (simp add: drain_done_def)
next
  case Wire_close_edge
  then show ?thesis using assms(2) by (simp add: handleSocketClosed_def Let_def) (simp add: drain_done_def drain_due_def)
qed (use assms(2) in \<open>simp_all add: drain_done_def drain_due_def handleError_transport_def framing_settles_def\<close>)

lemma transport_run_done: "q \<noteq> Some 0 \<Longrightarrow> drain_done (transport_run json l q r ops)"
proof (induction ops rule: rev_induct)
  case Nil
  show ?case by (simp add: transport_run_def newSocketTransport_def drain_done_def drain_due_def)
next
  case (snoc op ops)
  then show ?case using transport_step_done [OF transport_run_between] by (simp add: transport_run_snoc)
qed

section \<open>Properties\<close>

text \<open>A peer that asks twice and half-closes, for the examples: byte 1 is its first request, byte 2 the second.\<close>

definition wire_request :: "nat \<Rightarrow> json" where
  "wire_request n = J_object [(''method'', J_string ''initialize''), (''id'', J_string (if n = 1 then ''a'' else ''b''))]"

definition wire_answer :: "nat \<Rightarrow> json" where
  "wire_answer n = J_object [(''id'', J_string (if n = 1 then ''a'' else ''b'')), (''result'', J_null)]"

definition wire_parse :: "bytes \<Rightarrow> json option" where
  "wire_parse line = (if line = [1] then Some (wire_request 1) else if line = [2] then Some (wire_request 2) else None)"

definition asked_once :: "transport_op list" where
  "asked_once = [Wire_bytes [1, 10], Peer_ends_edge, Deliver [Call_send (wire_answer 1)] False, Send_settles 0 (Some Accepted)]"

definition asked_twice :: "transport_op list" where
  "asked_twice =
     [Wire_bytes [1, 10, 2, 10], Peer_ends_edge, Deliver [] False, Deliver [] False,
      Send (wire_answer 1), Send (wire_answer 2), Send_settles 0 (Some Accepted)]"

lemmas wire_defs = transport_run_def newSocketTransport_def start_transport_def handleData_transport_def
  consumeBuffer.simps queue_frame_def scheduleDrain_def pauseReading_def resumeReading_def reportLifecycle_def
  notifyPeerEnd_def settleIfDrained_def finishAfterDrain_def announceClose_def deliver_next_def send_frame_def
  send_settles_def send_accepted_def countOutbound_def classifyOutboundFrame_def jsonRpcRequestKey_def
  jsonRpcResponseKey_def requestIdKey_def has_method_def wire_parse_def wire_request_def wire_answer_def Let_def

lemma wire_request_facts:
  "isJsonRpcEnvelope (wire_request n)" "describeFirstRequest (wire_request n) = First_request ''initialize'' None None"
  by (simp_all add: wire_request_def describeFirstRequest_def loggableMcpMethod_def STUDIO_KNOWN_MCP_METHODS_def field_of_def
      nullish_else_def safeWireTag_def)

lemma asked_once_run:
  "t_oncloses (transport_run wire_parse None None [] (Start # asked_once)) = 1"
  "t_delivered (transport_run wire_parse None None [] (Start # asked_once)) = [wire_request 1]"
  "t_failures (transport_run wire_parse None None [] (Start # asked_once)) = []"
  "t_peerEnded (transport_run wire_parse None None [] (Start # asked_once))"
  "t_queue (transport_run wire_parse None None [] (Start # asked_once)) = []"
  "t_outstanding (transport_run wire_parse None None [] (Start # asked_once)) = {}"
  "t_sends (transport_run wire_parse None None [] (Start # asked_once)) = []"
  by (simp_all add: asked_once_def wire_defs insert_Diff_if STUDIO_MAX_INBOUND_LINE_BYTES_def STUDIO_MAX_QUEUED_INBOUND_MESSAGES_def)

text \<open>
  C12: The consumer's \<open>onmessage\<close> is called with the documents of the peer's non-blank lines, in the
  order of the lines and each once, from the first on, whatever the chunks were; no line that is not
  JSON is ever handed over or skipped.
\<close>

theorem consumer_gets_the_lines:
  fixes json :: "bytes \<Rightarrow> json option" and l q :: "nat option" and r :: bytes and ops :: "transport_op list"
  assumes "q \<noteq> Some 0"
  defines "t \<equiv> transport_run json l q r ops"
  shows "\<exists>n. map Some (t_delivered t) = take n (map json (filter (\<lambda>l. l \<noteq> []) (fst (wire_lines (t_received t)))))"
proof -
  obtain ls rest later where f: "t_received t = unlines_wire ls @ rest" "\<forall>l\<in>set ls. 10 \<notin> set l"
    "map json (filter (\<lambda>l. l \<noteq> []) ls) = map Some (t_delivered t @ later)"
    using run_facts(1) [OF assms(1), of json l r ops] unfolding frames_ok_def t_def by blast
  have "fst (wire_lines (t_received t)) = ls @ fst (wire_lines rest)" using wire_lines_unlines [OF f(2)] f(1) by simp
  then show ?thesis using f(3) by (intro exI [of _ "length (t_delivered t)"]) (simp del: map_map)
qed

theorem consumer_gets_the_lines_witness:
  "t_delivered (transport_run wire_parse None None [] (Start # asked_once)) = [wire_request 1]
   \<and> (\<exists>n. map Some (t_delivered (transport_run wire_parse None None [] (Start # asked_once)))
         = take n (map wire_parse (filter (\<lambda>l. l \<noteq> [])
             (fst (wire_lines (t_received (transport_run wire_parse None None [] (Start # asked_once))))))))"
  using consumer_gets_the_lines [of None wire_parse None "[]" "Start # asked_once"] asked_once_run(2) by blast

text \<open>
  C34: While the transport is open, nothing is lost: the documents delivered and the documents queued are
  together those of all the complete lines received, and the buffer is the unfinished last line.
\<close>

theorem open_wire_loses_nothing:
  fixes json :: "bytes \<Rightarrow> json option" and l q :: "nat option" and r :: bytes and ops :: "transport_op list"
  assumes "q \<noteq> Some 0"
  defines "t \<equiv> transport_run json l q r ops"
  assumes "t_started t" "open_transport t"
  shows "map json (filter (\<lambda>l. l \<noteq> []) (fst (wire_lines (t_received t)))) = map Some (t_delivered t @ t_queue t)
       \<and> snd (wire_lines (t_received t)) = t_inbound t"
proof -
  obtain ls where f: "t_received t = unlines_wire ls @ t_inbound t" "\<forall>l\<in>set ls. 10 \<notin> set l"
    "map json (filter (\<lambda>l. l \<noteq> []) ls) = map Some (t_delivered t @ t_queue t)"
    using run_facts(1) [OF assms(1), of json l r ops] assms(4) unfolding frames_ok_def t_def open_transport_def by auto
  have "10 \<notin> set (t_inbound t)"
    using run_facts(5) [OF assms(1), of json l r ops] assms(3,4) unfolding wire_idle_ok_def t_def by simp
  then have "wire_lines (t_received t) = (ls, t_inbound t)"
    using wire_lines_unlines [OF f(2), of "t_inbound t"] wire_lines_no_newline f(1) by simp
  then show ?thesis using f(3) by simp
qed

theorem open_wire_loses_nothing_witness:
  "let t = transport_run wire_parse None None [] [Start, Wire_bytes [1, 10, 10, 2, 10, 1]]
   in map wire_parse (filter (\<lambda>l. l \<noteq> []) (fst (wire_lines (t_received t)))) = map Some (t_delivered t @ t_queue t)
      \<and> snd (wire_lines (t_received t)) = t_inbound t"
proof -
  define t where "t = transport_run wire_parse None None [] [Start, Wire_bytes [1, 10, 10, 2, 10, 1]]"
  have "t_started t" "open_transport t"
    unfolding t_def
    by (simp_all add: wire_defs open_transport_def STUDIO_MAX_INBOUND_LINE_BYTES_def STUDIO_MAX_QUEUED_INBOUND_MESSAGES_def)
  then show ?thesis
    using open_wire_loses_nothing [of None wire_parse None "[]" "[Start, Wire_bytes [1, 10, 10, 2, 10, 1]]"]
    unfolding t_def by simp
qed

text \<open>
  C26: The inbound bound is the back-pressure: the queue of decoded documents never exceeds its bound, the
  wire is paused exactly while the queue is at the bound, a waiting document always has its delivery
  scheduled, and between operations the unfinished line is within the line bound.
\<close>

theorem inbound_bound_is_back_pressure:
  fixes json :: "bytes \<Rightarrow> json option" and l q :: "nat option" and r :: bytes and ops :: "transport_op list"
  assumes "q \<noteq> Some 0"
  defines "t \<equiv> transport_run json l q r ops"
  shows "length (t_queue t) \<le> t_maxQueuedMessages t
       \<and> (\<not> t_closeAnnounced t \<longrightarrow> t_readingPaused t = (length (t_queue t) = t_maxQueuedMessages t))
       \<and> (t_queue t \<noteq> [] \<longrightarrow> t_draining t)
       \<and> (t_started t \<and> open_transport t \<longrightarrow> length (t_inbound t) \<le> t_maxLineBytes t)"
  using run_facts(2,5,6) [OF assms(1), of json l r ops]
  unfolding pressure_ok_def wire_idle_ok_def drain_ok_def t_def by blast

theorem inbound_bound_is_back_pressure_witness:
  "let t = transport_run wire_parse None (Some 2) [] [Start, Wire_bytes [1, 10, 2, 10, 1]]
   in t_readingPaused t \<and> length (t_queue t) = 2 \<and> (t_queue t \<noteq> [] \<longrightarrow> t_draining t)"
proof -
  have two: "Some (2::nat) \<noteq> Some 0" by simp
  have "t_readingPaused (transport_run wire_parse None (Some 2) [] [Start, Wire_bytes [1, 10, 2, 10, 1]])"
    "length (t_queue (transport_run wire_parse None (Some 2) [] [Start, Wire_bytes [1, 10, 2, 10, 1]])) = 2"
    by (simp_all add: wire_defs STUDIO_MAX_INBOUND_LINE_BYTES_def)
  then show ?thesis
    using inbound_bound_is_back_pressure [OF two, of wire_parse None "[]" "[Start, Wire_bytes [1, 10, 2, 10, 1]]"]
    unfolding Let_def by blast
qed

text \<open>
  C25: \<open>onclose\<close> is called at most once in the life of the transport, and once it has been, it is not
  called again and nothing is delivered any later, whatever the wire, the timers, the writer and the
  consumer still do.
\<close>

theorem onclose_once_and_last:
  assumes "q \<noteq> Some 0"
  shows "t_oncloses (transport_run json l q r ops) \<le> 1
       \<and> (t_oncloses (transport_run json l q r ops) = 1 \<longrightarrow>
            t_oncloses (transport_run json l q r (ops @ later)) = 1
            \<and> t_delivered (transport_run json l q r (ops @ later)) = t_delivered (transport_run json l q r ops))"
  using run_facts(3) [OF assms, of json l r ops] run_facts(3) [OF assms, of json l r "ops @ later"]
    after_close [OF assms, of json l r ops later]
  unfolding close_ok_def by (cases "t_closeAnnounced (transport_run json l q r ops)") simp_all

theorem onclose_once_and_last_witness:
  "t_oncloses (transport_run wire_parse None None [] ((Start # asked_once) @ [Wire_close_edge, Close_call])) = 1
   \<and> t_delivered (transport_run wire_parse None None [] ((Start # asked_once) @ [Wire_close_edge, Close_call])) = [wire_request 1]"
  using onclose_once_and_last [of None wire_parse None "[]" "Start # asked_once" "[Wire_close_edge, Close_call]"]
    asked_once_run(1,2) by (simp only: simp_thms option.distinct)



text \<open>
  The drain needs no deadline once its work is done: when the peer has ended, no document waits,
  every delivered request is answered and every write has settled, the close has been announced.
\<close>

theorem finished_drain_has_closed:
  fixes json :: "bytes \<Rightarrow> json option" and l q :: "nat option" and r :: bytes and ops :: "transport_op list"
  assumes "q \<noteq> Some 0"
  defines "t \<equiv> transport_run json l q r ops"
  assumes "t_peerEnded t" "t_queue t = []" "t_outstanding t = {}" "t_sends t = []"
  shows "t_oncloses t = 1 \<and> (t_closing t \<or> t_wireClosed t)"
proof -
  have c: "close_ok t" "drain_ok t" unfolding t_def by (rule run_facts [OF assms(1)])+
  have "drain_done t" unfolding t_def by (rule transport_run_done [OF assms(1)])
  then have "t_closeAnnounced t" using assms(3-6) c(2) by (auto simp: drain_done_def drain_due_def drain_ok_def)
  then show ?thesis using c(1) by (auto simp: close_ok_def)
qed

theorem finished_drain_has_closed_witness:
  "t_oncloses (transport_run wire_parse None None [] (Start # asked_once)) = 1
   \<and> (t_closing (transport_run wire_parse None None [] (Start # asked_once))
      \<or> t_wireClosed (transport_run wire_parse None None [] (Start # asked_once)))"
  by (rule finished_drain_has_closed [OF _ asked_once_run(4-7)]) simp

text \<open>
  C35: What the first request puts into the log is closed: the method is one of the seventeen known names
  or \<open>other\<close>, and the client and the protocol version are of the safe characters and bounded length.
\<close>

theorem log_holds_only_safe_tags:
  fixes json :: "bytes \<Rightarrow> json option" and l q :: "nat option" and r :: bytes and ops :: "transport_op list"
  assumes "q \<noteq> Some 0"
    and "First_request called client version \<in> set (t_events (transport_run json l q r ops))"
  shows "called \<in> set (''other'' # STUDIO_KNOWN_MCP_METHODS)
       \<and> (\<forall>s. client = Some s \<longrightarrow> list_all wire_tag_char s \<and> length s \<le> 129)
       \<and> (\<forall>s. version = Some s \<longrightarrow> list_all wire_tag_char s \<and> length s \<le> 64)"
proof -
  have "event_safe (First_request called client version)"
    by (rule bspec [OF run_facts(4) [OF assms(1), of json l r ops, unfolded list_all_iff] assms(2)])
  then show ?thesis unfolding event_safe.simps .
qed

theorem log_holds_only_safe_tags_witness:
  "''initialize'' \<in> set (''other'' # STUDIO_KNOWN_MCP_METHODS)
   \<and> First_request ''initialize'' None None \<in> set (t_events (transport_run wire_parse None None [] [Start, Wire_bytes [1, 10]]))"
proof -
  have e: "First_request ''initialize'' None None \<in> set (t_events (transport_run wire_parse None None [] [Start, Wire_bytes [1, 10]]))"
    by (simp add: transport_run_def newSocketTransport_def start_transport_def handleData_transport_def consumeBuffer.simps
        queue_frame_def scheduleDrain_def pauseReading_def reportLifecycle_def wire_parse_def Let_def wire_request_facts
        STUDIO_MAX_INBOUND_LINE_BYTES_def STUDIO_MAX_QUEUED_INBOUND_MESSAGES_def)
  show ?thesis using log_holds_only_safe_tags [OF option.distinct(1) e] e by blast
qed

text \<open>
  The drain drops answers that are still in the writer: with two requests answered and both answers
  handed to the writer, the settlement of the first destroys the wire and announces the close, while the
  second answer has not settled.
\<close>

theorem drain_drops_a_pending_answer:
  "let t = transport_run wire_parse None None [] (Start # asked_twice)
   in t_written t = [Frame_message (wire_answer 1), Frame_message (wire_answer 2)]
      \<and> t_sends t = [(1, wire_answer 2)] \<and> t_destroyed t \<and> t_oncloses t = 1"
  by (simp add: asked_twice_def wire_defs insert_Diff_if STUDIO_MAX_INBOUND_LINE_BYTES_def STUDIO_MAX_QUEUED_INBOUND_MESSAGES_def)

end
