(* ===== verification/Spec2Isabelle.thy ===== *)
theory Spec2Isabelle
  imports OrderSigner CapitalShare FrontSupervisorRuns OutboundQueue WorkspaceRuns ProjectGate ApprovalBroker FileCoalescer StudioHostRuns SocketTransportProps
begin

text \<open>
  A verification development for the parts of Vex that decide: what an agent's order on Lighter
  costs and whether it may be signed, how the Studio MCP host talks to its pipe front and keeps it
  alive, and the state machines of the Studio behind it. File names are relative to the repository;
  \<open>mcp-host/\<close> stands for \<open>vex-app/src/main/studio/mcp-host/\<close>, \<open>lighter/\<close> for
  \<open>src/tools/lighter/\<close>.

  \<^bold>\<open>How the model is made.\<close> A TypeScript interface or class is a \<open>record\<close>, a union a \<open>datatype\<close>, and a
  function or method a definition of the same name. Code that throws returns \<open>'e + 'a\<close> with \<open>Inl\<close> for
  the exception. A \<open>bigint\<close> is an \<open>int\<close> (a \<open>nat\<close> where the code has checked the sign), a
  \<open>number\<close> that the code checks before it uses it is a \<open>js_number\<close>, which may be NaN, infinite or
  fractional, and the fields of a frame keep their width in bits. A string that is only compared is
  abstract; one that is parsed or printed is a \<open>char list\<close> (JsText), one that goes over the wire a
  list of UTF-16 code units (Utf8). A class with mutable fields is a state that its methods return
  updated; callbacks, timers, promises and child processes are edges of a step relation, so every
  interleaving the event loop can produce is a run. History that only the theorems read is said to
  be so where it is declared. Log lines are left out everywhere.

  \<^bold>\<open>Parts and theories.\<close>

    \<^item> Prelude: results of code that throws (\<open>bindE\<close>, \<open>requireE\<close>, the collection \<open>result_simps\<close>), numbers,
      lists, the locale \<open>rounds_up\<close> of the ceiling divisions and the locale \<open>invariant_machine\<close> of
      state machines with an inductive invariant. JsText: decimal texts; its collection \<open>text_eval\<close>
      computes on literals. LighterTypes: the enumerations of the Lighter modules.

    \<^item> Lighter orders. MarginFraction (\<open>lighter/margin-fraction.ts\<close>), LighterFees (\<open>fee-policy.ts\<close>,
      \<open>order-fee-terms.ts\<close>, \<open>order-policy.ts\<close>), OrderDecimals and OrderPreview (\<open>order-preview.ts\<close>:
      \<open>buildLighterOrderPreview\<close> with all its checks), OrderAdmission (what a preview that was built
      has established), OrderSigner (\<open>signer-order.ts\<close>, the checks of \<open>signer-adapter.ts\<close> on the
      answers of the signer, and \<open>oco-order.ts\<close>), CapitalShare (\<open>capital-share.ts\<close>). An order flows
      from the capital share and the preview, whose hash the user approves, to the unsigned request and
      the signer's answer. The lemmas show exact amounts, the side of every protective trigger,
      that a hash determines the order, what the signer is able to sign, and that an admitted order
      keeps the commitments inside the agent's share.

    \<^item> The codec of the pipe front. Utf8, PipeFrames and PipeDecoder (\<open>src/vex-agent/mcp/pipe-front-frames.ts\<close>):
      encoder, header and body parser, and the incremental decoder with its retention bound. The locale \<open>wire_int\<close>
      gives reading back what was written, once for the four widths. The lemmas show the round trip,
      independence of how the bytes are cut, the bound on what is retained, and that sequences are
      consecutive.

    \<^item> The pipe front in main. FrontPlanes (\<open>front-planes.ts\<close>), FrontRelay and FrontRelayRuns
      (\<open>front-relay-transport.ts\<close>: logical connections, credit windows, the round-robin pump, and
      the operations that call back into consumers, as relations over what a consumer may do),
      FrontHandshake (\<open>front-handshake.ts\<close>, \<open>admission.ts\<close>, \<open>bounds.ts\<close>), FrontSupervisor and
      FrontSupervisorRuns (\<open>front-supervisor.ts\<close>: child processes, bring-up, lock, quit, the one
      failure path and its restart budget). The supervisor owns the planes and the relay and runs
      their operations; the admission epoch is the one of the door. The invariants bound every
      window, every backlog and the number of processes, and show that no child is forgotten.

    \<^item> OutboundQueue (\<open>outbound-queue.ts\<close>): the only writer of one connection, with its refinement of a
      plain queue that coalesces progress frames.

    \<^item> The Studio MCP host. StudioHandshake (\<open>mcp-host/handshake.ts\<close>, its acks rendered by JsonText),
      StudioConnection (\<open>mcp-host/connection.ts\<close>, \<open>serve.ts\<close>: one connection, every continuation an
      operation, writing through OutboundQueue), StudioHost and StudioHostRuns (\<open>mcp-host.ts\<close>,
      \<open>readiness.ts\<close>: all connections at once, with the admission door of FrontHandshake; what the host
      answers to a connection is \<open>host_env\<close>, what a connection claims and releases is \<open>put_connection\<close>).
      The locale \<open>quiet_method\<close> carries what the two teardowns share. The lemmas show that a lock fences
      what was accepted before it, that a peer gets one answer, that the bounds hold, and that a closed
      wire leaves nothing behind.

    \<^item> SocketTransport, SocketTransportRuns, SocketTransportProps (\<open>src/vex-agent/mcp/socket-transport.ts\<close>):
      the MCP wire a served connection runs, between the bytes of its peer and the MCP server:
      framing, the inbound queue, the drain after the peer's half-close, every close. \<open>settled_by\<close> is the
      contract of the operations that take nothing in; the lemmas show that the consumer gets the
      lines, when the wire is paused, that the close comes once and last, and what the drain waits
      for (and that it does not wait for the writer).

    \<^item> ProjectGate (\<open>studio/project-lifecycle-gate.ts\<close>): the leases on a project, its closing and the
      drains a delete waits for. ApprovalBroker (\<open>studio/approval-broker.ts\<close>): calls blocked on a human
      decision, settled by the durable row, an expiry, an abort or a teardown. FileCoalescer
      (\<open>studio/files/coalescer.ts\<close>): raw file events folded into the net change of a window.

    \<^item> Workspace and WorkspaceRuns (\<open>studio/workspace/types.ts\<close>, \<open>workspace-model.ts\<close>): the tabs and
      panes of a Studio project, the invariant the renderer relies on, and the round trips of the
      two persisted forms.

  \<^bold>\<open>Bounds and fuel.\<close> Loops of the code are structural recursion, or \<open>function\<close> with a measure: the pump of
  the relay by the bytes not yet sent, the restart path of the supervisor by the restarts left, the
  framing of the MCP wire by the bytes in its buffer.
  No definition has fuel. The retention bound, credit window, pending bound and restart budget are
  the constants of the code.

  \<^bold>\<open>Parameters.\<close> SHA-256, \<open>JSON.parse\<close>, the clock, the official signer, the consumers of the relay and of
  the MCP wire, the process spawner and the operating system's writes are arguments or inputs; the theorems hold for all of them.

  \<^bold>\<open>Not modelled.\<close> Sockets, files, processes and IPC; database repositories and migrations, whose meaning
  is that of PostgreSQL; prompts and calls of language models; clients of remote services (DEXs, bridges,
  lending, chains); React components; the Go side of the pipe front; the MCP SDK behind the wire. These
  are effects on code outside the repository with little logic of their own, or another language.
\<close>

end
